(* ===== verification/Bytes_Codec.thy ===== *)
theory Bytes_Codec
  imports Prelude
begin

text \<open>
  The length-prefixed framing of every stream, \<open>libs/hbb_common/src/bytes_codec.rs\<close>:
  the codec state, the header decoder, the resumable \<open>decode\<close> and \<open>encode\<close>.  The
  buffer \<open>BytesMut\<close> is its list of bytes; \<open>BytesMut::reserve\<close> changes no byte, so
  the decoder returns the amount it asks to reserve beside the new buffer.
\<close>

section \<open>Data\<close>

datatype codec_error = TooBigPacket | Overflow

datatype decode_state = Head | Data nat

record bytes_codec =
  bc_state :: decode_state
  bc_raw :: bool
  bc_max_packet_length :: nat

definition MAX_PREALLOCATED_PAYLOAD_LEN :: nat where
  "MAX_PREALLOCATED_PAYLOAD_LEN = 256 * 1024"

definition MAX_FRAME_LENGTH :: nat where
  "MAX_FRAME_LENGTH = 0x3FFFFFFF"

section \<open>Operations\<close>

definition codec_new :: bytes_codec where
  "codec_new = \<lparr>bc_state = Head, bc_raw = False, bc_max_packet_length = u64_max\<rparr>"

definition set_raw :: "bytes_codec \<Rightarrow> bytes_codec" where
  "set_raw c = c\<lparr>bc_raw := True\<rparr>"

definition set_max_packet_length :: "nat \<Rightarrow> bytes_codec \<Rightarrow> bytes_codec" where
  "set_max_packet_length n c = c\<lparr>bc_max_packet_length := n\<rparr>"

text \<open>The header: the low two bits of the first byte give the header length, the
  remaining bits of the little-endian header are the payload length.\<close>

definition head_len :: "u8 \<Rightarrow> nat" where
  "head_len b = unat ((b AND 3) + 1)"

definition head_value :: "bytes \<Rightarrow> u64" where
  "head_value src =
     (let hl = head_len (src ! 0);
          n0 = ucast (src ! 0);
          n1 = (if hl > 1 then n0 OR push_bit 8 (ucast (src ! 1)) else n0);
          n2 = (if hl > 2 then n1 OR push_bit 16 (ucast (src ! 2)) else n1);
          n3 = (if hl > 3 then n2 OR push_bit 24 (ucast (src ! 3)) else n2)
      in drop_bit 2 n3)"

text \<open>The result, the buffer afterwards and the amount reserved.\<close>

definition decode_head ::
  "bytes_codec \<Rightarrow> bytes \<Rightarrow> (codec_error + nat option) \<times> bytes \<times> nat" where
  "decode_head c src =
     (if src = [] then (Inr None, src, 0)
      else let hl = head_len (src ! 0) in
        if length src < hl then (Inr None, src, 0)
        else let n = unat (head_value src) in
          if n > bc_max_packet_length c then (Inl TooBigPacket, src, 0)
          else let src' = drop hl src in
            (Inr (Some n), src', min (n - length src') MAX_PREALLOCATED_PAYLOAD_LEN))"

definition decode_data :: "nat \<Rightarrow> bytes \<Rightarrow> bytes option \<times> bytes" where
  "decode_data n src =
     (if length src < n then (None, src) else (Some (take n src), drop n src))"

definition decode ::
  "bytes_codec \<Rightarrow> bytes \<Rightarrow> (codec_error + bytes option) \<times> bytes_codec \<times> bytes" where
  "decode c src =
     (if bc_raw c then
        (if src \<noteq> [] then (Inr (Some src), c, []) else (Inr None, c, src))
      else
        (let finish = (\<lambda>n c src.
           (case decode_data n src of
              (Some d, src') \<Rightarrow> (Inr (Some d), c\<lparr>bc_state := Head\<rparr>, src')
            | (None, src') \<Rightarrow> (Inr None, c, src')))
         in case bc_state c of
              Head \<Rightarrow>
                (case decode_head c src of
                   (Inl e, src', _) \<Rightarrow> (Inl e, c, src')
                 | (Inr None, src', _) \<Rightarrow> (Inr None, c, src')
                 | (Inr (Some n), src', _) \<Rightarrow> finish n (c\<lparr>bc_state := Data n\<rparr>) src')
            | Data n \<Rightarrow> finish n c src))"

text \<open>The header bytes \<open>encode\<close> puts in front of a payload of length \<open>l\<close>.\<close>

definition encode_head :: "nat \<Rightarrow> codec_error + bytes" where
  "encode_head l =
     (let s = push_bit 2 (of_nat l) :: u64 in
      if l \<le> 0x3F then Inr [ucast s]
      else if l \<le> 0x3FFF then Inr (le16 (ucast s OR 1))
      else if l \<le> 0x3FFFFF then
        (let h = (ucast s :: u32) OR 2
         in Inr (le16 (ucast (h AND 0xFFFF)) @ [ucast (drop_bit 16 h)]))
      else if l \<le> MAX_FRAME_LENGTH then Inr (le32 (ucast s OR 3))
      else Inl Overflow)"

definition encode :: "bytes_codec \<Rightarrow> bytes \<Rightarrow> bytes \<Rightarrow> codec_error + bytes" where
  "encode c data buf =
     (if bc_raw c then Inr (buf @ data)
      else case encode_head (length data) of
             Inl e \<Rightarrow> Inl e
           | Inr h \<Rightarrow> Inr (buf @ h @ data))"

section \<open>The header round trip\<close>

text \<open>A length that fits in \<open>k\<close> bits has no bit at or above \<open>k\<close>.\<close>

lemma of_nat_bit_bound:
  assumes "l < 2 ^ k" "bit (of_nat l :: u64) n"
  shows "n < k"
proof (rule ccontr)
  assume "\<not> n < k"
  then have "l < 2 ^ n"
    using assms(1) power_increasing [of k n "2::nat"] by linarith
  then have "take_bit n l = l" by (simp add: take_bit_nat_eq_self)
  then have "\<not> bit l n" by (metis bit_take_bit_iff order_less_irrefl)
  with assms(2) show False by (auto simp: bit_simps)
qed


lemma bit_low_masks:
  "bit (3 :: int) n \<longleftrightarrow> n < 2"
  "bit (65535 :: int) n \<longleftrightarrow> n < 16"
proof -
  have "(3 :: int) = mask 2" "(65535 :: int) = mask 16"
    by (simp_all add: mask_eq_exp_minus_1)
  then show "bit (3 :: int) n \<longleftrightarrow> n < 2" "bit (65535 :: int) n \<longleftrightarrow> n < 16"
    by (simp_all only: bit_mask_iff) auto
qed

lemma bit_two_int: "bit (2 :: int) n \<longleftrightarrow> n = 1"
  using bit_exp_iff [of 1 n, where 'a = int] by auto

lemmas header_bits = bit_simps bit_low_masks bit_two_int

text \<open>Reassembling the little-endian bytes of a header word.\<close>

lemma join_le16:
  fixes w :: u16
  shows "(ucast (ucast w :: u8) OR push_bit 8 (ucast (ucast (drop_bit 8 w) :: u8)) :: u64)
       = ucast w" (is "?l = _")
proof (rule bit_word_eqI)
  fix n assume "n < LENGTH(64)"
  consider "n < 8" | "8 \<le> n" by linarith
  then show "bit ?l n = bit (ucast w :: u64) n"
    by cases (auto simp: header_bits dest: bit_imp_le_length)
qed

lemma join_le24:
  fixes w :: u32
  shows "(ucast (ucast (w AND 0xFFFF) :: u16) OR push_bit 16 (ucast (ucast (drop_bit 16 w) :: u8)) :: u64)
       = ucast (take_bit 24 w)" (is "?l = _")
proof (rule bit_word_eqI)
  fix n assume "n < LENGTH(64)"
  consider "n < 16" | "16 \<le> n" by linarith
  then show "bit ?l n = bit (ucast (take_bit 24 w) :: u64) n"
    by cases (auto simp: header_bits)
qed

lemma join_le32:
  fixes w :: u32
  shows "(((ucast (ucast w :: u8) OR push_bit 8 (ucast (ucast (drop_bit 8 w) :: u8)))
          OR push_bit 16 (ucast (ucast (drop_bit 16 w) :: u8)))
          OR push_bit 24 (ucast (ucast (drop_bit 24 w) :: u8)) :: u64) = ucast w" (is "?l = _")
proof (rule bit_word_eqI)
  fix n assume "n < LENGTH(64)"
  consider "n < 8" | "8 \<le> n" "n < 16" | "16 \<le> n" "n < 24" | "24 \<le> n" by linarith
  then show "bit ?l n = bit (ucast w :: u64) n"
    by cases (auto simp: header_bits dest: bit_imp_le_length)
qed

text \<open>The two tag bits of the first header byte, by header size.\<close>

lemma head_tags:
  fixes L :: u64
  shows "(ucast (push_bit 2 L) :: u8) AND 3 = 0"
    and "(ucast ((ucast (push_bit 2 L) :: u16) OR 1) :: u8) AND 3 = 1"
    and "(ucast (ucast (((ucast (push_bit 2 L) :: u32) OR 2) AND 0xFFFF) :: u16) :: u8) AND 3 = 2"
    and "(ucast ((ucast (push_bit 2 L) :: u32) OR 3) :: u8) AND 3 = 3"
  by (rule bit_word_eqI; auto simp: header_bits)+

text \<open>The payload length survives the shift into the header word and back.\<close>

lemma head_word1:
  fixes L :: u64
  assumes "\<And>n. bit L n \<Longrightarrow> n < 6"
  shows "drop_bit 2 (ucast (ucast (push_bit 2 L) :: u8)) = L"
  by (rule bit_word_eqI) (auto simp: header_bits dest: assms)

lemma head_word2:
  fixes L :: u64
  assumes "\<And>n. bit L n \<Longrightarrow> n < 14"
  shows "drop_bit 2 (ucast ((ucast (push_bit 2 L) :: u16) OR 1)) = L"
  by (rule bit_word_eqI) (auto simp: header_bits dest: assms)

lemma head_word3:
  fixes L :: u64
  assumes "\<And>n. bit L n \<Longrightarrow> n < 22"
  shows "drop_bit 2 (ucast (take_bit 24 ((ucast (push_bit 2 L) :: u32) OR 2))) = L"
  by (rule bit_word_eqI) (auto simp: header_bits dest: assms)

lemma head_word4:
  fixes L :: u64
  assumes "\<And>n. bit L n \<Longrightarrow> n < 30"
  shows "drop_bit 2 (ucast ((ucast (push_bit 2 L) :: u32) OR 3)) = L"
  by (rule bit_word_eqI) (auto simp: header_bits dest: assms)

lemma encode_head_decodes:
  assumes "encode_head l = Inr h"
  shows "h \<noteq> [] \<and> head_len (h ! 0) = length h \<and> head_value (h @ r) = of_nat l"
proof -
  let ?L = "of_nat l :: u64"
  have b: "bit ?L n \<Longrightarrow> n < k" if "l < 2 ^ k" for n k
    using that of_nat_bit_bound by blast
  consider "l \<le> 0x3F" | "0x3F < l" "l \<le> 0x3FFF" | "0x3FFF < l" "l \<le> 0x3FFFFF"
    | "0x3FFFFF < l" "l \<le> MAX_FRAME_LENGTH" | "MAX_FRAME_LENGTH < l"
    by linarith
  then show ?thesis
  proof cases
    case 1
    then have "h = [ucast (push_bit 2 ?L)]" using assms by (simp add: encode_head_def Let_def)
    moreover have "drop_bit 2 (ucast (ucast (push_bit 2 ?L) :: u8)) = ?L"
      using 1 by (intro head_word1, elim b [rotated]) simp
    ultimately show ?thesis by (simp add: head_len_def head_value_def head_tags)
  next
    case 2
    define w where "w = (ucast (push_bit 2 ?L) :: u16) OR 1"
    have "h = le16 w"
      using 2 assms by (simp add: encode_head_def Let_def w_def)
    moreover have "drop_bit 2 (ucast w) = ?L"
      unfolding w_def using 2 by (intro head_word2, elim b [rotated]) simp
    moreover have "(ucast w :: u8) AND 3 = 1"
      unfolding w_def by (rule head_tags)
    ultimately show ?thesis
      by (simp add: head_len_def head_value_def le16_def join_le16 del: drop_bit_or)
  next
    case 3
    define w where "w = (ucast (push_bit 2 ?L) :: u32) OR 2"
    have "h = le16 (ucast (w AND 0xFFFF)) @ [ucast (drop_bit 16 w)]"
      using 3 assms by (simp add: encode_head_def Let_def w_def)
    moreover have "drop_bit 2 (ucast (take_bit 24 w)) = ?L"
      unfolding w_def using 3 by (intro head_word3, elim b [rotated]) simp
    moreover have "(ucast (ucast (w AND 0xFFFF) :: u16) :: u8) AND 3 = 2"
      unfolding w_def by (rule head_tags)
    ultimately show ?thesis
      by (simp add: head_len_def head_value_def le16_def join_le16 join_le24 del: drop_bit_or)
  next
    case 4
    define w where "w = (ucast (push_bit 2 ?L) :: u32) OR 3"
    have "h = le32 w"
      using 4 assms by (simp add: encode_head_def Let_def w_def)
    moreover have "drop_bit 2 (ucast w) = ?L"
      unfolding w_def using 4 by (intro head_word4, elim b [rotated]) (simp add: MAX_FRAME_LENGTH_def)
    moreover have "(ucast w :: u8) AND 3 = 3"
      unfolding w_def by (rule head_tags)
    ultimately show ?thesis
      by (simp add: head_len_def head_value_def le32_def join_le32 del: drop_bit_or)
  next
    case 5
    with assms show ?thesis by (simp add: encode_head_def Let_def MAX_FRAME_LENGTH_def)
  qed
qed

lemma encode_head_total: "l \<le> MAX_FRAME_LENGTH \<Longrightarrow> \<exists>h. encode_head l = Inr h"
  by (auto simp: encode_head_def Let_def)

lemma head_len_pos: "0 < head_len b"
proof -
  have "unat (b AND 3) \<le> unat (3 :: u8)"
    using word_and_le1 word_le_nat_alt by blast
  then show ?thesis by (simp add: head_len_def unat_word_ariths)
qed

section \<open>Decoding\<close>

text \<open>The header depends on its own bytes only.\<close>

lemma head_value_append:
  assumes "src \<noteq> []" "head_len (src ! 0) \<le> length src"
  shows "head_value (src @ m) = head_value src"
  using assms by (auto simp: head_value_def Let_def nth_append)

lemma decode_frame:
  assumes "\<not> bc_raw c" "bc_state c = Head" "encode_head (length data) = Inr h"
    and "length data \<le> bc_max_packet_length c" "length data \<le> MAX_FRAME_LENGTH"
  shows "decode c (h @ data @ rest) = (Inr (Some data), c, rest)"
proof -
  have h: "h \<noteq> []" "head_len (h ! 0) = length h"
    "head_value (h @ data @ rest) = of_nat (length data)"
    using encode_head_decodes [OF assms(3)] by auto
  have "unat (of_nat (length data) :: u64) = length data"
    using assms(5) by (simp add: unat_of_nat MAX_FRAME_LENGTH_def)
  with h assms show ?thesis
    by (simp add: decode_def decode_head_def decode_data_def Let_def nth_append)
qed

text \<open>A decoder that may be called again on more input: what it answers does not
  depend on how the input was cut.\<close>

locale resumable_decoder =
  fixes dec :: "'s \<Rightarrow> 'b list \<Rightarrow> ('e + 'b list option) \<times> 's \<times> 'b list"
    and invar :: "'s \<Rightarrow> bool"
    and rank :: "'s \<Rightarrow> nat"
  assumes invar_dec: "invar s \<Longrightarrow> dec s b = (r, s', b') \<Longrightarrow> invar s'"
    and resume: "invar s \<Longrightarrow> dec s b = (Inr None, s', b') \<Longrightarrow> dec s' (b' @ m) = dec s (b @ m)"
    and stable: "invar s \<Longrightarrow> dec s b = (Inr (Some d), s', b') \<Longrightarrow>
      dec s (b @ m) = (Inr (Some d), s', b' @ m)"
    and stable_error: "invar s \<Longrightarrow> dec s b = (Inl e, s', b') \<Longrightarrow> fst (dec s (b @ m)) = Inl e"
    and progress: "invar s \<Longrightarrow> dec s b = (Inr (Some d), s', b') \<Longrightarrow>
      2 * length b' + rank s' < 2 * length b + rank s"

text \<open>Decoding until the decoder wants more input, as the framed stream of
  \<open>tokio_util\<close> does between two reads.\<close>

inductive drains ::
  "('s \<Rightarrow> 'b list \<Rightarrow> ('e + 'b list option) \<times> 's \<times> 'b list) \<Rightarrow>
   's \<Rightarrow> 'b list \<Rightarrow> 'b list list \<Rightarrow> 's \<Rightarrow> 'b list \<Rightarrow> bool" for dec where
  stop: "dec s b = (Inr None, s', b') \<Longrightarrow> drains dec s b [] s' b'"
| item: "dec s b = (Inr (Some d), s1, b1) \<Longrightarrow> drains dec s1 b1 ds s' b' \<Longrightarrow>
    drains dec s b (d # ds) s' b'"

text \<open>Reading the input in chunks, draining after each.\<close>

inductive feeds ::
  "('s \<Rightarrow> 'b list \<Rightarrow> ('e + 'b list option) \<times> 's \<times> 'b list) \<Rightarrow>
   's \<Rightarrow> 'b list \<Rightarrow> 'b list list \<Rightarrow> 'b list list \<Rightarrow> 's \<Rightarrow> 'b list \<Rightarrow> bool" for dec where
  no_chunk: "feeds dec s b [] [] s b"
| chunk: "drains dec s (b @ x) ds s1 b1 \<Longrightarrow> feeds dec s1 b1 xs es s' b' \<Longrightarrow>
    feeds dec s b (x # xs) (ds @ es) s' b'"

inductive_cases drains_NilE: "drains dec s b [] s' b'"
inductive_cases drains_ConsE: "drains dec s b (d # ds) s' b'"

context resumable_decoder
begin

lemma drains_invar: "drains dec s b ds s' b' \<Longrightarrow> invar s \<Longrightarrow> invar s'"
  by (induction rule: drains.induct) (auto intro: invar_dec)

lemma drains_cong: "dec s b = dec t c \<Longrightarrow> drains dec s b ds s' b' = drains dec t c ds s' b'"
  by (subst (1 2) drains.simps) simp

lemma drains_end: "drains dec s b ds s' b' \<Longrightarrow> invar s \<Longrightarrow> dec s' b' = (Inr None, s', b')"
  by (induction rule: drains.induct) (auto dest: resume [where m = "[]"] intro: invar_dec)

text \<open>The outputs of a longer input begin with those of its prefix, and the
  decoder resumed after the prefix produces the rest.\<close>

lemma drains_split:
  assumes "drains dec s (b @ m) ds s2 b2" "invar s"
  shows "\<exists>ds1 s1 b1 ds2. ds = ds1 @ ds2 \<and> drains dec s b ds1 s1 b1 \<and> drains dec s1 (b1 @ m) ds2 s2 b2"
  using assms
proof (induction "2 * length b + rank s" arbitrary: s b ds rule: less_induct)
  case less
  obtain r s1 b1 where d: "dec s b = (r, s1, b1)" by (cases "dec s b")
  consider e where "r = Inl e" | "r = Inr None" | x where "r = Inr (Some x)"
    by (cases r) auto
  then show ?case
  proof cases
    case 1
    then have "fst (dec s (b @ m)) = Inl e" using d stable_error less.prems by blast
    with less.prems(1) show ?thesis by (cases rule: drains.cases) auto
  next
    case 2
    with d have "drains dec s b [] s1 b1" by (auto intro: drains.stop)
    moreover have "dec s1 (b1 @ m) = dec s (b @ m)" using d 2 resume less.prems by blast
    then have "drains dec s1 (b1 @ m) ds s2 b2"
      using less.prems(1) drains_cong by blast
    ultimately show ?thesis by (metis append_Nil)
  next
    case 3
    with d have x: "dec s (b @ m) = (Inr (Some x), s1, b1 @ m)" using stable less.prems by blast
    from less.prems(1) x obtain ds' where ds: "ds = x # ds'" "drains dec s1 (b1 @ m) ds' s2 b2"
      by (cases rule: drains.cases) auto
    have "invar s1" using d less.prems invar_dec by blast
    moreover have "2 * length b1 + rank s1 < 2 * length b + rank s"
      using d 3 less.prems progress by blast
    ultimately obtain ds1 s3 b3 ds2 where
      "ds' = ds1 @ ds2" "drains dec s1 b1 ds1 s3 b3" "drains dec s3 (b3 @ m) ds2 s2 b2"
      using less.hyps ds(2) by blast
    moreover from this d 3 have "drains dec s b (x # ds1) s3 b3" by (auto intro: drains.item)
    ultimately show ?thesis using ds(1) by (metis append_Cons)
  qed
qed

text \<open>However the input is cut into chunks, the items are those of the whole.\<close>

lemma feeds_of_drains:
  assumes "drains dec s (b @ concat xs) ds s' b'" "invar s" "dec s b = (Inr None, s, b)"
  shows "feeds dec s b xs ds s' b'"
  using assms
proof (induction xs arbitrary: s b ds)
  case Nil
  from Nil.prems(1,3) have "ds = [] \<and> s' = s \<and> b' = b" by (cases rule: drains.cases) auto
  then show ?case by (auto intro: feeds.no_chunk)
next
  case (Cons x xs)
  from Cons.prems have "drains dec s ((b @ x) @ concat xs) ds s' b'" by simp
  from drains_split [OF this Cons.prems(2)] obtain ds1 s1 b1 ds2 where ds: "ds = ds1 @ ds2"
    and d1: "drains dec s (b @ x) ds1 s1 b1" and d2: "drains dec s1 (b1 @ concat xs) ds2 s' b'"
    by blast
  have inv: "invar s1" using d1 Cons.prems drains_invar by blast
  have "dec s1 b1 = (Inr None, s1, b1)" using d1 Cons.prems drains_end by blast
  then show ?case using Cons.IH [OF d2 inv] d1 ds by (auto intro: feeds.chunk)
qed

end

section \<open>The codec is a resumable decoder\<close>

definition framing :: "bytes_codec \<Rightarrow> bool" where
  "framing c = (\<not> bc_raw c)"

definition codec_rank :: "bytes_codec \<Rightarrow> nat" where
  "codec_rank c = (case bc_state c of Head \<Rightarrow> 0 | Data _ \<Rightarrow> 1)"

text \<open>The three shapes of a call: a header still incomplete, a complete header, and
  a payload.\<close>

lemma decode_short:
  assumes "framing c" "bc_state c = Head" "src = [] \<or> length src < head_len (src ! 0)"
  shows "decode c src = (Inr None, c, src)"
  using assms by (auto simp: decode_def decode_head_def Let_def framing_def)

lemma decode_head_complete:
  assumes "framing c" "bc_state c = Head" "src \<noteq> []" "head_len (src ! 0) \<le> length src"
  shows "decode c src =
    (if unat (head_value src) > bc_max_packet_length c then (Inl TooBigPacket, c, src)
     else decode (c\<lparr>bc_state := Data (unat (head_value src))\<rparr>) (drop (head_len (src ! 0)) src))"
  using assms by (auto simp: decode_def decode_head_def Let_def framing_def)

lemma decode_payload:
  assumes "framing c" "bc_state c = Data n"
  shows "decode c src =
    (if length src < n then (Inr None, c, src)
     else (Inr (Some (take n src)), c\<lparr>bc_state := Head\<rparr>, drop n src))"
  using assms by (auto simp: decode_def decode_data_def Let_def framing_def)

lemma framing_state [simp]: "framing (c\<lparr>bc_state := s\<rparr>) = framing c"
  by (simp add: framing_def)

lemma decode_cases:
  obtains (short) "bc_state c = Head" "src = [] \<or> length src < head_len (src ! 0)"
    | (complete) "bc_state c = Head" "src \<noteq> []" "head_len (src ! 0) \<le> length src"
    | (payload) n where "bc_state c = Data n"
  by (cases "bc_state c") (metis not_less)+

lemma decode_framing: "framing c \<Longrightarrow> decode c src = (r, c', src') \<Longrightarrow> framing c'"
  by (cases rule: decode_cases [of c src])
    (auto simp: decode_short decode_head_complete decode_payload split: if_splits)

text \<open>Nothing was decoded: either the codec waits in the same state, or the header
  was consumed and the codec waits for the payload.\<close>

lemma decode_resume:
  assumes "framing c" "decode c src = (Inr None, c', src')"
  shows "decode c' (src' @ m) = decode c (src @ m)"
proof (cases rule: decode_cases [of c src])
  case short
  with assms show ?thesis by (simp add: decode_short)
next
  case complete
  define w where "w = c\<lparr>bc_state := Data (unat (head_value src))\<rparr>"
  have "unat (head_value src) \<le> bc_max_packet_length c"
    and "c' = w" "src' = drop (head_len (src ! 0)) src"
    using complete assms by (auto simp: w_def decode_head_complete decode_payload split: if_splits)
  moreover from this have "decode c (src @ m) = decode w (drop (head_len (src ! 0)) src @ m)"
    using complete assms by (simp add: w_def decode_head_complete head_value_append nth_append)
  ultimately show ?thesis by simp
next
  case (payload n)
  with assms show ?thesis by (simp add: decode_payload split: if_splits)
qed

lemma decode_stable:
  assumes "framing c" "decode c src = (Inr (Some d), c', src')"
  shows "decode c (src @ m) = (Inr (Some d), c', src' @ m)"
proof (cases rule: decode_cases [of c src])
  case short
  with assms show ?thesis by (simp add: decode_short)
next
  case complete
  with assms show ?thesis
    by (auto simp: decode_head_complete decode_payload head_value_append nth_append split: if_splits)
next
  case (payload n)
  with assms show ?thesis by (auto simp: decode_payload split: if_splits)
qed

lemma decode_stable_error:
  assumes "framing c" "decode c src = (Inl e, c', src')"
  shows "fst (decode c (src @ m)) = Inl e"
proof (cases rule: decode_cases [of c src])
  case short
  with assms show ?thesis by (simp add: decode_short)
next
  case complete
  with assms show ?thesis
    by (auto simp: decode_head_complete decode_payload head_value_append nth_append split: if_splits)
next
  case (payload n)
  with assms show ?thesis by (auto simp: decode_payload split: if_splits)
qed

lemma decode_progress:
  assumes "framing c" "decode c src = (Inr (Some d), c', src')"
  shows "2 * length src' + codec_rank c' < 2 * length src + codec_rank c"
proof (cases rule: decode_cases [of c src])
  case short
  with assms show ?thesis by (simp add: decode_short)
next
  case complete
  with assms head_len_pos [of "src ! 0"] show ?thesis
    by (auto simp: decode_head_complete decode_payload codec_rank_def split: if_splits)
next
  case (payload n)
  with assms show ?thesis by (auto simp: decode_payload codec_rank_def split: if_splits)
qed

interpretation rd: resumable_decoder decode framing codec_rank
  by unfold_locales
    (auto intro: decode_framing decode_resume decode_stable decode_stable_error decode_progress)

text \<open>Encoding several payloads one after the other into one buffer.\<close>

fun encode_all :: "bytes_codec \<Rightarrow> bytes list \<Rightarrow> bytes \<Rightarrow> codec_error + bytes" where
  "encode_all c [] buf = Inr buf"
| "encode_all c (d # ds) buf =
     (case encode c d buf of Inl e \<Rightarrow> Inl e | Inr buf' \<Rightarrow> encode_all c ds buf')"

definition fits :: "bytes_codec \<Rightarrow> bytes \<Rightarrow> bool" where
  "fits c d = (length d \<le> MAX_FRAME_LENGTH \<and> length d \<le> bc_max_packet_length c)"

lemma encode_frame:
  assumes "framing c" "fits c d"
  obtains h where "encode_head (length d) = Inr h" "\<And>buf. encode c d buf = Inr (buf @ h @ d)"
  using assms encode_head_total by (force simp: encode_def framing_def fits_def)

lemma encode_all_wire:
  assumes "framing c" "bc_state c = Head" "list_all (fits c) ds"
  shows "\<exists>wire. (\<forall>buf. encode_all c ds buf = Inr (buf @ wire)) \<and> drains decode c wire ds c []"
  using assms(3)
proof (induction ds)
  case Nil
  have "decode c [] = (Inr None, c, [])" using assms by (simp add: decode_short)
  then show ?case by (auto intro: drains.stop)
next
  case (Cons d ds)
  then obtain wire where w: "\<And>buf. encode_all c ds buf = Inr (buf @ wire)"
    "drains decode c wire ds c []" by auto
  obtain h where h: "encode_head (length d) = Inr h" "\<And>buf. encode c d buf = Inr (buf @ h @ d)"
    using Cons.prems assms by (auto elim: encode_frame)
  have "decode c (h @ d @ wire) = (Inr (Some d), c, wire)"
    using assms h Cons.prems by (intro decode_frame) (auto simp: framing_def fits_def)
  with w(2) have "drains decode c (h @ d @ wire) (d # ds) c []" by (auto intro: drains.item)
  with h(2) w(1) show ?case by (intro exI [of _ "h @ d @ wire"]) simp
qed

section \<open>Bounds\<close>

text \<open>A header of at most four bytes shifted right by two has no bit above the
  thirtieth.\<close>

lemma head_value_bits: "bit (head_value src) n \<Longrightarrow> n < 30"
  by (auto simp: head_value_def Let_def bit_simps dest!: bit_imp_le_length split: if_splits)

lemma head_value_bound: "unat (head_value src) \<le> MAX_FRAME_LENGTH"
proof -
  have "take_bit 30 (head_value src) = head_value src"
    by (rule bit_word_eqI) (auto simp: bit_simps dest: head_value_bits)
  then have "unat (head_value src) < 2 ^ 30"
    by (metis take_bit_nat_less_exp unsigned_take_bit_eq)
  then show ?thesis by (simp add: MAX_FRAME_LENGTH_def)
qed

section \<open>Properties\<close>

text \<open>C30. Payloads written back to back by \<open>encode\<close> come out of \<open>decode\<close> unchanged, in
  order, with nothing left over, however the transport cuts the bytes into reads.\<close>

theorem codec_stream_roundtrip:
  assumes "framing c" "bc_state c = Head" "list_all (fits c) msgs"
  shows "\<exists>wire. encode_all c msgs [] = Inr wire \<and>
           (\<forall>chunks. concat chunks = wire \<longrightarrow> feeds decode c [] chunks msgs c [])"
proof -
  obtain wire where w: "encode_all c msgs [] = Inr wire" "drains decode c wire msgs c []"
    using encode_all_wire [OF assms] by force
  have "decode c [] = (Inr None, c, [])" using assms by (simp add: decode_short)
  with w assms have "feeds decode c [] chunks msgs c []" if "concat chunks = wire" for chunks
    using that rd.feeds_of_drains [of c "[]" chunks msgs] by simp
  with w show ?thesis by blast
qed

theorem codec_stream_roundtrip_witness:
  "\<exists>wire. encode_all codec_new [[7, 8], [], [9]] [] = Inr wire \<and>
     (\<forall>chunks. concat chunks = wire \<longrightarrow> feeds decode codec_new [] chunks [[7, 8], [], [9]] codec_new [])"
  by (rule codec_stream_roundtrip)
    (simp_all add: framing_def codec_new_def fits_def MAX_FRAME_LENGTH_def u64_max_def)

text \<open>What \<open>decode\<close> answers never depends on where a read ended: after a call that
  wants more input, calling again with more bytes is calling once with all of them.\<close>

theorem codec_resumes:
  assumes "framing c" "decode c src = (Inr None, c', src')"
  shows "decode c' (src' @ tail) = decode c (src @ tail)"
  using assms by (rule rd.resume)

theorem codec_resumes_witness:
  "decode codec_new [12, 5] = (Inr None, codec_new\<lparr>bc_state := Data 3\<rparr>, [5]) \<and>
   decode (codec_new\<lparr>bc_state := Data 3\<rparr>) ([5] @ [6, 7, 8]) = decode codec_new ([12, 5] @ [6, 7, 8])"
proof -
  have "framing codec_new" by (simp add: framing_def codec_new_def)
  moreover have "decode codec_new [12, 5] = (Inr None, codec_new\<lparr>bc_state := Data 3\<rparr>, [5])"
    by (simp add: decode_def decode_head_def decode_data_def codec_new_def head_len_def head_value_def
        u64_max_def Let_def)
  ultimately show ?thesis using codec_resumes by blast
qed

text \<open>A header from the network cannot make the decoder reserve more than
  \<open>MAX_PREALLOCATED_PAYLOAD_LEN\<close>, no declared length exceeds the codec's limit or
  \<open>MAX_FRAME_LENGTH\<close>, and a length over the limit is refused with the buffer untouched.\<close>

theorem decode_head_bounds:
  assumes "decode_head c src = (r, src', reserved)"
  shows "reserved \<le> MAX_PREALLOCATED_PAYLOAD_LEN \<and>
    (case r of
       Inl e \<Rightarrow> e = TooBigPacket \<and> src' = src \<and> unat (head_value src) > bc_max_packet_length c
     | Inr None \<Rightarrow> src' = src \<and> (src = [] \<or> length src < head_len (src ! 0))
     | Inr (Some n) \<Rightarrow> n \<le> bc_max_packet_length c \<and> n \<le> MAX_FRAME_LENGTH \<and>
         src' = drop (head_len (src ! 0)) src)"
  using assms head_value_bound [of src]
  by (auto simp: decode_head_def Let_def split: if_splits)

theorem decode_head_bounds_witness:
  "decode_head (set_max_packet_length 100 codec_new) [3, 0, 0, 255] =
     (Inl TooBigPacket, [3, 0, 0, 255], 0) \<and>
   unat (head_value [3, 0, 0, 255]) > 100"
proof -
  have h: "decode_head (set_max_packet_length 100 codec_new) [3, 0, 0, 255] =
     (Inl TooBigPacket, [3, 0, 0, 255], 0)"
    by (simp add: decode_head_def set_max_packet_length_def codec_new_def head_len_def head_value_def Let_def)
  show ?thesis using h decode_head_bounds [OF h] by (simp add: set_max_packet_length_def)
qed

end
