(* ===== verification/Mux_Core.thy ===== *)
theory Mux_Core
  imports Bytes_Codec
begin

text \<open>
  The parts of \<open>src/port_forward_mux.rs\<close> both ends of a multiplexed port-forward
  tunnel share: the window accounting of a receiver (\<open>RecvWindow\<close>), the credit of a
  sender (\<open>SendCredit\<close>), the frames, the sinks they leave through, the two relay
  halves of a channel and the task that supervises them (\<open>run_channel\<close>).

  A \<open>u32\<close> is a \<open>nat\<close> with the saturation written out, a channel id (\<open>i32\<close>) a 32-bit
  word.  An \<open>async\<close> function is the step function of its state machine: one state per
  await point, one operation per thing an await can resolve to; \<open>None\<close> says that the
  await stays pending.
\<close>

section \<open>Constants and charges\<close>

definition INITIAL_WINDOW :: nat where "INITIAL_WINDOW = 64 * 1024"
definition MIN_FRAME_CHARGE :: nat where "MIN_FRAME_CHARGE = 64"
definition CHANNEL_WINDOW :: nat where "CHANNEL_WINDOW = 256 * 1024"
definition MAX_FRAME :: nat where "MAX_FRAME = 64 * 1024"
definition MAX_PACKET :: nat where "MAX_PACKET = 2 * MAX_FRAME"
definition UPDATE_THRESHOLD :: nat where "UPDATE_THRESHOLD = CHANNEL_WINDOW div 2"
definition MAX_CHANNELS :: nat where "MAX_CHANNELS = 256"
definition DATA_QUEUE_FRAMES :: nat where "DATA_QUEUE_FRAMES = 128"
definition MAX_SEND_CREDIT :: nat where "MAX_SEND_CREDIT = CHANNEL_WINDOW"

lemmas mux_consts = INITIAL_WINDOW_def MIN_FRAME_CHARGE_def CHANNEL_WINDOW_def MAX_FRAME_def
  MAX_PACKET_def UPDATE_THRESHOLD_def MAX_CHANNELS_def DATA_QUEUE_FRAMES_def MAX_SEND_CREDIT_def

definition effective_window :: "nat \<Rightarrow> nat" where
  "effective_window advertised = max advertised INITIAL_WINDOW"

datatype stream = StreamWebRTC | StreamWebSocket | StreamTcp bytes_codec

definition cap_packet_size :: "stream \<Rightarrow> stream" where
  "cap_packet_size s =
     (case s of StreamTcp c \<Rightarrow> StreamTcp (set_max_packet_length MAX_PACKET c) | _ \<Rightarrow> s)"

definition charge :: "nat \<Rightarrow> nat" where
  "charge len = max (if len \<le> u32_max then len else u32_max) MIN_FRAME_CHARGE"

section \<open>Receive window\<close>

record recv_window =
  rw_remaining :: nat
  rw_drained_since_update :: nat

definition rw_new :: "nat \<Rightarrow> recv_window" where
  "rw_new granted = \<lparr>rw_remaining = effective_window granted, rw_drained_since_update = 0\<rparr>"

definition rw_accept :: "nat \<Rightarrow> recv_window \<Rightarrow> bool \<times> recv_window" where
  "rw_accept len w =
     (case checked_sub (rw_remaining w) (charge len) of
        Some left \<Rightarrow> (True, w\<lparr>rw_remaining := left\<rparr>)
      | None \<Rightarrow> (False, w))"

definition rw_grant :: "nat \<Rightarrow> recv_window \<Rightarrow> recv_window" where
  "rw_grant n w = w\<lparr>rw_remaining := sat_add32 (rw_remaining w) n\<rparr>"

definition rw_drained :: "nat \<Rightarrow> recv_window \<Rightarrow> nat option \<times> recv_window" where
  "rw_drained n w =
     (let d = sat_add32 (rw_drained_since_update w) (charge n);
          w1 = w\<lparr>rw_drained_since_update := d\<rparr>
      in if d < UPDATE_THRESHOLD then (None, w1)
         else (Some d, w1\<lparr>rw_drained_since_update := 0,
                          rw_remaining := sat_add32 (rw_remaining w1) d\<rparr>))"

section \<open>Send credit\<close>

text \<open>\<open>sc_permit\<close> is the permit that \<open>tokio::sync::Notify\<close> stores when \<open>notify_one\<close>
  finds nobody waiting; \<open>sc_parked\<close> says that the one task calling \<open>take\<close> is
  waiting in \<open>notified().await\<close>.  A waiter consumes the permit when it is polled.\<close>

record send_credit =
  sc_credit :: nat
  sc_permit :: bool
  sc_parked :: bool

definition sc_new :: "nat \<Rightarrow> send_credit" where
  "sc_new initial = \<lparr>sc_credit = min initial MAX_SEND_CREDIT, sc_permit = False, sc_parked = False\<rparr>"

text \<open>One pass of the loop of \<open>take\<close>, from the credit check.  \<open>n as u32\<close> is exact:
  \<open>n\<close> is at most the credit.\<close>

definition sc_take_check :: "nat \<Rightarrow> send_credit \<Rightarrow> nat option \<times> send_credit" where
  "sc_take_check mx sc =
     (if sc_credit sc \<ge> MIN_FRAME_CHARGE then
        (let n = min (sc_credit sc) mx in
         (Some n, sc\<lparr>sc_credit := sc_credit sc - n, sc_parked := False\<rparr>))
      else (None, sc\<lparr>sc_parked := True\<rparr>))"

text \<open>A poll of the future \<open>take\<close>: \<open>Some n\<close> when ready, \<open>None\<close> when pending.\<close>

definition sc_take :: "nat \<Rightarrow> send_credit \<Rightarrow> nat option \<times> send_credit" where
  "sc_take mx sc =
     (if \<not> sc_parked sc then
        (case sc_take_check mx sc of
           (Some n, sc') \<Rightarrow> (Some n, sc')
         | (None, sc') \<Rightarrow>
             (if sc_permit sc' then sc_take_check mx (sc'\<lparr>sc_permit := False\<rparr>) else (None, sc')))
      else if sc_permit sc then sc_take_check mx (sc\<lparr>sc_permit := False\<rparr>)
      else (None, sc))"

definition sc_add :: "nat \<Rightarrow> send_credit \<Rightarrow> send_credit" where
  "sc_add n sc = sc\<lparr>sc_credit := min (sat_add32 (sc_credit sc) n) MAX_SEND_CREDIT, sc_permit := True\<rparr>"

definition sc_raise_initial :: "nat \<Rightarrow> send_credit \<Rightarrow> send_credit" where
  "sc_raise_initial advertised sc =
     (let extra = effective_window advertised - INITIAL_WINDOW
      in if extra > 0 then sc_add extra sc else sc)"

section \<open>Frames and sinks\<close>

text \<open>The \<open>union\<close> of a \<open>PortForwardChannel\<close> message; \<open>FNone\<close> is an empty or unknown one.\<close>

datatype pf_frame =
    FOpen (f_id: i32) (f_host: string) (f_port: int) (f_window: nat)
  | FOpened (f_id: i32) (f_success: bool) (f_message: string) (f_window: nat)
  | FData (f_id: i32) (f_data: bytes)
  | FClose (f_id: i32)
  | FWindowUpdate (f_id: i32) (f_add: nat)
  | FNone

definition open_msg :: "i32 \<Rightarrow> string \<Rightarrow> int \<Rightarrow> nat \<Rightarrow> pf_frame" where
  "open_msg cid host port window = FOpen cid host port window"

definition opened_msg :: "i32 \<Rightarrow> bool \<Rightarrow> string \<Rightarrow> nat \<Rightarrow> pf_frame" where
  "opened_msg cid success message window = FOpened cid success message window"

definition data_msg :: "i32 \<Rightarrow> bytes \<Rightarrow> pf_frame" where
  "data_msg cid d = FData cid d"

definition close_msg :: "i32 \<Rightarrow> pf_frame" where
  "close_msg cid = FClose cid"

definition window_update_msg :: "i32 \<Rightarrow> nat \<Rightarrow> pf_frame" where
  "window_update_msg cid add = FWindowUpdate cid add"

lemmas msg_defs = open_msg_def opened_msg_def data_msg_def close_msg_def window_update_msg_def

text \<open>An \<open>mpsc\<close> channel: what is queued, whether the receiver is alive and whether a
  sender is.  \<open>Queued\<close> has a bounded data queue and an unbounded control queue.\<close>

record 'm queue =
  q_items :: "'m list"
  q_rx :: bool
  q_tx :: bool

definition q_new :: "'m queue" where
  "q_new = \<lparr>q_items = [], q_rx = True, q_tx = True\<rparr>"

datatype frame_sink = Queued (data: "pf_frame queue") (control: "pf_frame queue") | Direct (tx: "pf_frame queue")

definition q_push :: "'m \<Rightarrow> 'm queue \<Rightarrow> 'm queue" where
  "q_push m q = q\<lparr>q_items := q_items q @ [m]\<rparr>"

datatype 's sending = Sent 's | Full | Gone string

definition writer_gone :: "string \<Rightarrow> string" where
  "writer_gone what = what @ '' gone''"

definition send_ordered :: "pf_frame \<Rightarrow> frame_sink \<Rightarrow> frame_sink sending" where
  "send_ordered msg s =
     (case s of
        Queued d c \<Rightarrow>
          (if \<not> q_rx d then Gone (writer_gone ''tunnel writer'')
           else if length (q_items d) \<ge> DATA_QUEUE_FRAMES then Full
           else Sent (Queued (q_push msg d) c))
      | Direct t \<Rightarrow>
          (if \<not> q_rx t then Gone (writer_gone ''connection writer'') else Sent (Direct (q_push msg t))))"

definition send_control :: "pf_frame \<Rightarrow> frame_sink \<Rightarrow> frame_sink sending" where
  "send_control msg s =
     (case s of
        Queued d c \<Rightarrow>
          (if \<not> q_rx c then Gone (writer_gone ''tunnel writer'') else Sent (Queued d (q_push msg c)))
      | Direct t \<Rightarrow>
          (if \<not> q_rx t then Gone (writer_gone ''connection writer'') else Sent (Direct (q_push msg t))))"

definition sink_is_closed :: "frame_sink \<Rightarrow> bool" where
  "sink_is_closed s = (case s of Queued d _ \<Rightarrow> \<not> q_rx d | Direct t \<Rightarrow> \<not> q_rx t)"

section \<open>The two halves of a channel\<close>

datatype inbound = InData bytes | InClose | InViolation

datatype relay_end = LocalEof | PeerClosed | Violation | Cancelled | TunnelGone

text \<open>Local socket to tunnel.  The states are the three awaits of the loop: for
  credit, for the socket, for room in the sink.  \<open>s_prebuf\<close> is what is left of the
  head of the byte stream.\<close>

datatype s2t_pc = STake | SRead nat | SSend pf_frame | SDone relay_end

record s2t =
  s_pc :: s2t_pc
  s_prebuf :: bytes

definition s2t_new :: "bytes \<Rightarrow> s2t" where
  "s2t_new prebuf = \<lparr>s_pc = STake, s_prebuf = prebuf\<rparr>"

definition s2t_take :: "s2t \<Rightarrow> send_credit \<Rightarrow> (s2t \<times> send_credit) option" where
  "s2t_take s sc =
     (case s_pc s of
        STake \<Rightarrow>
          (case sc_take MAX_FRAME sc of
             (Some n, sc') \<Rightarrow> Some (s\<lparr>s_pc := SRead n\<rparr>, sc')
           | (None, sc') \<Rightarrow> Some (s, sc'))
      | _ \<Rightarrow> None)"

text \<open>What \<open>reader.read\<close> yields: the head of the prebuffer while there is one, then
  what the socket returns (nothing at its end or on an error).\<close>

definition chain_read :: "nat \<Rightarrow> bytes \<Rightarrow> bytes \<Rightarrow> bytes \<times> bytes" where
  "chain_read allow prebuf sock =
     (if prebuf \<noteq> [] then (take allow prebuf, drop allow prebuf) else (take allow sock, prebuf))"

definition s2t_read :: "i32 \<Rightarrow> bytes \<Rightarrow> s2t \<Rightarrow> send_credit \<Rightarrow> (s2t \<times> send_credit) option" where
  "s2t_read cid sock s sc =
     (case s_pc s of
        SRead allow \<Rightarrow>
          (let (got, prebuf') = chain_read allow (s_prebuf s) sock;
               spent = (if got = [] then 0 else charge (length got));
               sc' = (if spent < allow then sc_add (allow - spent) sc else sc)
           in if got = [] then Some (s\<lparr>s_pc := SDone LocalEof, s_prebuf := prebuf'\<rparr>, sc')
              else Some (s\<lparr>s_pc := SSend (data_msg cid got), s_prebuf := prebuf'\<rparr>, sc'))
      | _ \<Rightarrow> None)"

definition s2t_send :: "s2t \<Rightarrow> frame_sink \<Rightarrow> (s2t \<times> frame_sink) option" where
  "s2t_send s sink =
     (case s_pc s of
        SSend m \<Rightarrow>
          (case send_ordered m sink of
             Sent sink' \<Rightarrow> Some (s\<lparr>s_pc := STake\<rparr>, sink')
           | Full \<Rightarrow> None
           | Gone _ \<Rightarrow> Some (s\<lparr>s_pc := SDone TunnelGone\<rparr>, sink))
      | _ \<Rightarrow> None)"

text \<open>The cancel signal reaches the first two awaits; the third does not select on it.\<close>

definition s2t_cancel :: "s2t \<Rightarrow> send_credit \<Rightarrow> (s2t \<times> send_credit) option" where
  "s2t_cancel s sc =
     (case s_pc s of
        STake \<Rightarrow> Some (s\<lparr>s_pc := SDone Cancelled\<rparr>, sc\<lparr>sc_parked := False\<rparr>)
      | SRead allow \<Rightarrow> Some (s\<lparr>s_pc := SDone Cancelled\<rparr>, sc_add allow sc)
      | _ \<Rightarrow> None)"

text \<open>Tunnel to local socket.  \<open>TNext\<close> takes the next chunk, \<open>TWrite\<close> is inside
  \<open>write_all\<close>.\<close>

datatype t2s_pc = TNext | TWrite bytes | TDone relay_end

record t2s =
  t_pc :: t2s_pc
  t_pending :: "bytes list"

definition t2s_new :: "bytes list \<Rightarrow> t2s" where
  "t2s_new initial = \<lparr>t_pc = TNext, t_pending = initial\<rparr>"

text \<open>The inbound queue: its items and whether a sender is left; \<open>recv\<close> is pending on an
  empty queue that still has a sender and yields \<open>None\<close> on one that has not.\<close>

definition t2s_next :: "t2s \<Rightarrow> inbound queue \<Rightarrow> (t2s \<times> inbound queue) option" where
  "t2s_next t q =
     (case t_pc t of
        TNext \<Rightarrow>
          (case t_pending t of
             c # cs \<Rightarrow> Some (t\<lparr>t_pc := TWrite c, t_pending := cs\<rparr>, q)
           | [] \<Rightarrow>
               (case q_items q of
                  [] \<Rightarrow> (if q_tx q then None else Some (t\<lparr>t_pc := TDone TunnelGone\<rparr>, q))
                | InData c # is \<Rightarrow> Some (t\<lparr>t_pc := TWrite c\<rparr>, q\<lparr>q_items := is\<rparr>)
                | InClose # is \<Rightarrow> Some (t\<lparr>t_pc := TDone PeerClosed\<rparr>, q\<lparr>q_items := is\<rparr>)
                | InViolation # is \<Rightarrow> Some (t\<lparr>t_pc := TDone Violation\<rparr>, q\<lparr>q_items := is\<rparr>)))
      | _ \<Rightarrow> None)"

definition t2s_written ::
  "i32 \<Rightarrow> bool \<Rightarrow> t2s \<Rightarrow> recv_window \<Rightarrow> frame_sink \<Rightarrow> (t2s \<times> recv_window \<times> frame_sink) option" where
  "t2s_written cid written t w sink =
     (case t_pc t of
        TWrite chunk \<Rightarrow>
          (if \<not> written then Some (t\<lparr>t_pc := TDone LocalEof\<rparr>, w, sink)
           else case rw_drained (length chunk) w of
             (None, w') \<Rightarrow> Some (t\<lparr>t_pc := TNext\<rparr>, w', sink)
           | (Some add, w') \<Rightarrow>
               (case send_control (window_update_msg cid add) sink of
                  Sent sink' \<Rightarrow> Some (t\<lparr>t_pc := TNext\<rparr>, w', sink')
                | _ \<Rightarrow> Some (t\<lparr>t_pc := TDone TunnelGone\<rparr>, w', sink)))
      | _ \<Rightarrow> None)"

definition t2s_cancel :: "t2s \<Rightarrow> t2s option" where
  "t2s_cancel t =
     (case t_pc t of
        TNext \<Rightarrow> (if t_pending t = [] then Some (t\<lparr>t_pc := TDone Cancelled\<rparr>) else None)
      | TWrite _ \<Rightarrow> Some (t\<lparr>t_pc := TDone Cancelled\<rparr>)
      | TDone _ \<Rightarrow> None)"

section \<open>The supervising task\<close>

text \<open>\<open>run_channel\<close> raises the cancel flag as soon as one half is done or the tunnel is
  torn down, joins both, and decides on the \<open>close\<close> frame.  The order in which the two
  ends arrive does not matter to that decision.\<close>

record channel =
  ch_id :: i32
  ch_s2t :: s2t
  ch_t2s :: t2s
  ch_cancel :: bool
  ch_closed :: "bool option"

definition channel_new :: "i32 \<Rightarrow> bytes \<Rightarrow> bytes list \<Rightarrow> channel" where
  "channel_new cid prebuf initial_out =
     \<lparr>ch_id = cid, ch_s2t = s2t_new prebuf, ch_t2s = t2s_new initial_out, ch_cancel = False, ch_closed = None\<rparr>"

definition s2t_end :: "s2t \<Rightarrow> relay_end option" where
  "s2t_end s = (case s_pc s of SDone e \<Rightarrow> Some e | _ \<Rightarrow> None)"

definition t2s_end :: "t2s \<Rightarrow> relay_end option" where
  "t2s_end t = (case t_pc t of TDone e \<Rightarrow> Some e | _ \<Rightarrow> None)"

definition supervise :: "bool \<Rightarrow> channel \<Rightarrow> channel" where
  "supervise teardown c =
     (if teardown \<or> s2t_end (ch_s2t c) \<noteq> None \<or> t2s_end (ch_t2s c) \<noteq> None
      then c\<lparr>ch_cancel := True\<rparr> else c)"

definition sends_close :: "relay_end \<Rightarrow> relay_end \<Rightarrow> bool" where
  "sends_close first second =
     (let peer_closed = (first = PeerClosed \<or> second = PeerClosed);
          tunnel_gone = (first = TunnelGone \<or> second = TunnelGone);
          local_reason = (first \<in> {LocalEof, Violation} \<or> second \<in> {LocalEof, Violation})
      in \<not> peer_closed \<and> \<not> tunnel_gone \<and> local_reason)"

text \<open>The join.  The result holds whether a \<open>close\<close> left; a full sink keeps the task
  waiting.\<close>

definition run_channel_finish :: "channel \<Rightarrow> frame_sink \<Rightarrow> (channel \<times> frame_sink) option" where
  "run_channel_finish c sink =
     (case (s2t_end (ch_s2t c), t2s_end (ch_t2s c), ch_closed c) of
        (Some first, Some second, None) \<Rightarrow>
          (if sends_close first second then
             (case send_ordered (close_msg (ch_id c)) sink of
                Sent sink' \<Rightarrow> Some (c\<lparr>ch_closed := Some True\<rparr>, sink')
              | Full \<Rightarrow> None
              | Gone _ \<Rightarrow> Some (c\<lparr>ch_closed := Some False\<rparr>, sink))
           else Some (c\<lparr>ch_closed := Some False\<rparr>, sink))
      | _ \<Rightarrow> None)"

section \<open>Delivery by the demultiplexers\<close>

text \<open>The \<open>Data\<close> arm of both demultiplexers, \<open>TunnelHandle::on_frame\<close> and
  \<open>PortForwardMux::handle\<close>, for a known channel: whether its entry is kept, the queue
  and the window.  Removing the entry drops the only sender of the queue.\<close>

definition q_send :: "'m \<Rightarrow> 'm queue \<Rightarrow> 'm queue" where
  "q_send m q = (if q_rx q then q_push m q else q)"

definition q_drop_tx :: "'m queue \<Rightarrow> 'm queue" where
  "q_drop_tx q = q\<lparr>q_tx := False\<rparr>"

definition deliver_data :: "bytes \<Rightarrow> inbound queue \<Rightarrow> recv_window \<Rightarrow> bool \<times> inbound queue \<times> recv_window" where
  "deliver_data d q w =
     (let (accepted, w') = rw_accept (length d) w in
      if accepted \<and> q_rx q then (True, q_send (InData d) q, w')
      else (False, q_drop_tx (if \<not> accepted then q_send InViolation q else q), w'))"

definition deliver_close :: "inbound queue \<Rightarrow> inbound queue" where
  "deliver_close q = q_drop_tx (q_send InClose q)"

section \<open>Charges\<close>

lemma charge_ge_min: "MIN_FRAME_CHARGE \<le> charge n"
  by (simp add: charge_def)

lemma charge_ge_len: "n \<le> u32_max \<Longrightarrow> n \<le> charge n"
  by (simp add: charge_def)

lemma charge_small: "n \<le> a \<Longrightarrow> MIN_FRAME_CHARGE \<le> a \<Longrightarrow> charge n \<le> a"
  by (auto simp: charge_def)

lemma charge_ge_len_capped: "charge n \<le> b \<Longrightarrow> b < u32_max \<Longrightarrow> n \<le> charge n"
  by (auto simp: charge_def split: if_splits)

section \<open>Receiver accounting as an interface\<close>

text \<open>What a demultiplexer and a relay rely on: accepting an item takes its cost from
  the credit the peer has left, draining one gives it back, at once or owed.  Amounts up
  to \<open>cap\<close> are exact.\<close>

locale recv_accounting =
  fixes cost :: "nat \<Rightarrow> nat"
    and unit_cost :: nat
    and avail :: "'w \<Rightarrow> nat"
    and owed :: "'w \<Rightarrow> nat"
    and accept :: "nat \<Rightarrow> 'w \<Rightarrow> bool \<times> 'w"
    and drain :: "nat \<Rightarrow> 'w \<Rightarrow> nat option \<times> 'w"
    and cap :: nat
  assumes cost_unit: "unit_cost \<le> cost n"
    and cost_len: "cost n < cap \<Longrightarrow> n \<le> cost n"
    and accept_yes: "accept n w = (True, w') \<Longrightarrow> avail w = avail w' + cost n \<and> owed w' = owed w"
    and accept_no: "accept n w = (False, w') \<Longrightarrow> w' = w \<and> avail w < cost n"
    and drain_later: "drain n w = (None, w') \<Longrightarrow> avail w + owed w + cost n \<le> cap \<Longrightarrow>
        avail w' = avail w \<and> owed w' = owed w + cost n"
    and drain_now: "drain n w = (Some a, w') \<Longrightarrow> avail w + owed w + cost n \<le> cap \<Longrightarrow>
        a = owed w + cost n \<and> avail w' = avail w + a \<and> owed w' = 0"
begin

lemma accept_keeps:
  assumes "accept n w = (ok, w')"
  shows "avail w' + owed w' + (if ok then cost n else 0) = avail w + owed w"
  using assms accept_yes accept_no by (cases ok) fastforce+

lemma drain_keeps:
  assumes "drain n w = (a, w')" "avail w + owed w + cost n \<le> cap"
  shows "avail w' + owed w' = avail w + owed w + cost n \<and>
    avail w' = avail w + (case a of Some k \<Rightarrow> k | None \<Rightarrow> 0)"
  using assms drain_later drain_now by (cases a) fastforce+

text \<open>Whatever is held has been paid for: it is bounded in size and in number.\<close>

lemma held_bound:
  assumes "avail w + owed w + sum_list (map cost ns) \<le> granted" "granted < cap"
  shows "sum_list ns \<le> granted \<and> length ns * unit_cost \<le> granted"
proof -
  have "sum_list ns \<le> sum_list (map cost ns) \<and> length ns * unit_cost \<le> sum_list (map cost ns)"
    if "sum_list (map cost ns) < cap" for ns
    using that
  proof (induction ns)
    case (Cons n ns)
    then show ?case using cost_unit [of n] cost_len [of n] by fastforce
  qed simp
  with assms show ?thesis by (metis add_leD2 le_less_trans le_trans)
qed

end

lemma rw_accept_True: "rw_accept n w = (True, w') \<Longrightarrow>
    rw_remaining w = rw_remaining w' + charge n \<and> rw_drained_since_update w' = rw_drained_since_update w"
  by (auto simp: rw_accept_def checked_sub_def split: if_splits)

lemma rw_accept_False: "rw_accept n w = (False, w') \<Longrightarrow> w' = w \<and> rw_remaining w < charge n"
  by (auto simp: rw_accept_def checked_sub_def split: if_splits)

interpretation rw: recv_accounting charge MIN_FRAME_CHARGE rw_remaining rw_drained_since_update
  rw_accept rw_drained u32_max
proof unfold_locales
  show "MIN_FRAME_CHARGE \<le> charge n" for n by (rule charge_ge_min)
  show "charge n < u32_max \<Longrightarrow> n \<le> charge n" for n
    by (auto simp: charge_def split: if_splits)
  show "rw_accept n w = (True, w') \<Longrightarrow> rw_remaining w = rw_remaining w' + charge n \<and>
      rw_drained_since_update w' = rw_drained_since_update w" for n w w'
    by (rule rw_accept_True)
  show "rw_accept n w = (False, w') \<Longrightarrow> w' = w \<and> rw_remaining w < charge n" for n w w'
    by (rule rw_accept_False)
  show "rw_drained n w = (None, w') \<Longrightarrow>
      rw_remaining w + rw_drained_since_update w + charge n \<le> u32_max \<Longrightarrow>
      rw_remaining w' = rw_remaining w \<and>
      rw_drained_since_update w' = rw_drained_since_update w + charge n" for n w w'
    by (auto simp: rw_drained_def Let_def sat_add32_def split: if_splits)
  show "rw_drained n w = (Some a, w') \<Longrightarrow>
      rw_remaining w + rw_drained_since_update w + charge n \<le> u32_max \<Longrightarrow>
      a = rw_drained_since_update w + charge n \<and> rw_remaining w' = rw_remaining w + a \<and>
      rw_drained_since_update w' = 0" for n w w' a
    by (auto simp: rw_drained_def Let_def sat_add32_def split: if_splits)
qed

lemma rw_drained_threshold:
  assumes "rw_drained n w = (a, w')"
  shows "rw_drained_since_update w' < UPDATE_THRESHOLD"
  using assms by (auto simp: rw_drained_def Let_def UPDATE_THRESHOLD_def CHANNEL_WINDOW_def split: if_splits)

end
