(* ===== verification/Mux_Channel.thy ===== *)
theory Mux_Channel
  imports Mux_Core
begin

text \<open>
  One channel of the port-forward tunnel: its receiving half against a peer that may
  send anything, its credit under concurrent updates, and the end of its task.
  Each is a step relation over the operations of \<open>Mux_Core\<close>.
\<close>

section \<open>What a receiver holds\<close>

definition in_data :: "inbound \<Rightarrow> bytes list" where
  "in_data i = (case i of InData d \<Rightarrow> [d] | _ \<Rightarrow> [])"

definition queued_chunks :: "inbound queue \<Rightarrow> bytes list" where
  "queued_chunks q = concat (map in_data (q_items q))"

definition writing_chunk :: "t2s \<Rightarrow> bytes list" where
  "writing_chunk t = (case t_pc t of TWrite c \<Rightarrow> [c] | _ \<Rightarrow> [])"

definition held_chunks :: "t2s \<Rightarrow> inbound queue \<Rightarrow> bytes list" where
  "held_chunks t q = writing_chunk t @ t_pending t @ queued_chunks q"

definition chunk_cost :: "bytes list \<Rightarrow> nat" where
  "chunk_cost cs = sum_list (map (charge \<circ> length) cs)"

lemma chunk_cost_simps [simp]:
  "chunk_cost [] = 0"
  "chunk_cost (c # cs) = charge (length c) + chunk_cost cs"
  "chunk_cost (cs @ ds) = chunk_cost cs + chunk_cost ds"
  by (simp_all add: chunk_cost_def)

lemma chunk_cost_map: "chunk_cost cs = sum_list (map charge (map length cs))"
  by (simp add: chunk_cost_def)

lemma in_data_simps [simp]:
  "in_data (InData d) = [d]" "in_data InClose = []" "in_data InViolation = []"
  by (simp_all add: in_data_def)

lemma queued_chunks_send [simp]:
  "queued_chunks (q_send i q) = queued_chunks q @ (if q_rx q then in_data i else [])"
  by (simp add: queued_chunks_def q_send_def q_push_def)

lemma queued_chunks_drop_tx [simp]: "queued_chunks (q_drop_tx q) = queued_chunks q"
  by (simp add: queued_chunks_def q_drop_tx_def)

section \<open>A receiver against an arbitrary peer\<close>

text \<open>\<open>rx_live\<close>: the demultiplexer still has an entry for the channel.\<close>

record receiver =
  rx_window :: recv_window
  rx_queue :: "inbound queue"
  rx_t2s :: t2s
  rx_sink :: frame_sink
  rx_live :: bool

inductive rx_step :: "i32 \<Rightarrow> receiver \<Rightarrow> receiver \<Rightarrow> bool" for cid :: i32 where
  peer_data: "rx_live r \<Longrightarrow> deliver_data d (rx_queue r) (rx_window r) = (keep, q', w') \<Longrightarrow>
    rx_step cid r (r\<lparr>rx_queue := q', rx_window := w', rx_live := keep\<rparr>)"
| peer_close: "rx_live r \<Longrightarrow>
    rx_step cid r (r\<lparr>rx_queue := deliver_close (rx_queue r), rx_live := False\<rparr>)"
| task_next: "t2s_next (rx_t2s r) (rx_queue r) = Some (t', q') \<Longrightarrow>
    rx_step cid r (r\<lparr>rx_t2s := t', rx_queue := q'\<rparr>)"
| task_written: "t2s_written cid ok (rx_t2s r) (rx_window r) (rx_sink r) = Some (t', w', s') \<Longrightarrow>
    rx_step cid r (r\<lparr>rx_t2s := t', rx_window := w', rx_sink := s'\<rparr>)"
| task_cancel: "t2s_cancel (rx_t2s r) = Some t' \<Longrightarrow> rx_step cid r (r\<lparr>rx_t2s := t'\<rparr>)"
| sink_changes: "rx_step cid r (r\<lparr>rx_sink := s'\<rparr>)"
| queue_dropped: "rx_step cid r (r\<lparr>rx_queue := (rx_queue r)\<lparr>q_rx := False, q_items := []\<rparr>\<rparr>)"

inductive rx_steps :: "i32 \<Rightarrow> receiver \<Rightarrow> receiver \<Rightarrow> bool" for cid :: i32 where
  rx_refl: "rx_steps cid r r"
| rx_trans: "rx_steps cid r r' \<Longrightarrow> rx_step cid r' r'' \<Longrightarrow> rx_steps cid r r''"

definition rx_charged :: "receiver \<Rightarrow> nat" where
  "rx_charged r = rw_remaining (rx_window r) + rw_drained_since_update (rx_window r) +
     chunk_cost (held_chunks (rx_t2s r) (rx_queue r))"

definition rx_new :: "nat \<Rightarrow> bytes list \<Rightarrow> frame_sink \<Rightarrow> receiver" where
  "rx_new granted initial sink =
     \<lparr>rx_window = rw_new granted, rx_queue = q_new, rx_t2s = t2s_new initial, rx_sink = sink, rx_live = True\<rparr>"

lemma deliver_data_charged:
  assumes "deliver_data d q w = (keep, q', w')"
  shows "rw_remaining w' + rw_drained_since_update w' + chunk_cost (queued_chunks q') \<le>
    rw_remaining w + rw_drained_since_update w + chunk_cost (queued_chunks q)"
proof -
  obtain ok w1 where a: "rw_accept (length d) w = (ok, w1)" by force
  from rw.accept_keeps [OF a] assms a show ?thesis
    by (auto simp: deliver_data_def split: if_splits)
qed

lemma t2s_next_held:
  assumes "t2s_next t q = Some (t', q')"
  shows "held_chunks t' q' = held_chunks t q"
  using assms
  by (auto simp: t2s_next_def held_chunks_def writing_chunk_def queued_chunks_def
      split: t2s_pc.splits list.splits inbound.splits if_splits)

lemma t2s_written_cases:
  assumes "t2s_written cid ok t w sink = Some (t', w', sink')"
  obtains (failed) c where "t_pc t = TWrite c" "\<not> ok" "t_pc t' = TDone LocalEof" "t_pending t' = t_pending t"
      "w' = w" "sink' = sink"
  | (quiet) c where "t_pc t = TWrite c" "ok" "t_pc t' = TNext" "t_pending t' = t_pending t"
      "rw_drained (length c) w = (None, w')" "sink' = sink"
  | (update) c a where "t_pc t = TWrite c" "ok" "t_pc t' = TNext" "t_pending t' = t_pending t"
      "rw_drained (length c) w = (Some a, w')" "send_control (window_update_msg cid a) sink = Sent sink'"
  | (gone) c a where "t_pc t = TWrite c" "ok" "t_pc t' = TDone TunnelGone" "t_pending t' = t_pending t"
      "rw_drained (length c) w = (Some a, w')" "sink' = sink"
      "\<And>s. send_control (window_update_msg cid a) sink \<noteq> Sent s"
  using assms
  by (auto simp: t2s_written_def split: t2s_pc.splits if_splits prod.splits option.splits sending.splits)

lemma t2s_written_charged:
  assumes "t2s_written cid ok t w sink = Some (t', w', sink')"
    and "rw_remaining w + rw_drained_since_update w + chunk_cost (held_chunks t q) \<le> u32_max"
  shows "rw_remaining w' + rw_drained_since_update w' + chunk_cost (held_chunks t' q) \<le>
    rw_remaining w + rw_drained_since_update w + chunk_cost (held_chunks t q)"
  using assms(1)
proof (cases rule: t2s_written_cases)
  case (failed c)
  then show ?thesis by (simp add: held_chunks_def writing_chunk_def)
next
  case (quiet c)
  with assms(2) rw.drain_keeps [OF quiet(5)] show ?thesis
    by (simp add: held_chunks_def writing_chunk_def)
next
  case (update c a)
  with assms(2) rw.drain_keeps [OF update(5)] show ?thesis
    by (simp add: held_chunks_def writing_chunk_def)
next
  case (gone c a)
  with assms(2) rw.drain_keeps [OF gone(5)] show ?thesis
    by (simp add: held_chunks_def writing_chunk_def)
qed

lemma t2s_cancel_held:
  assumes "t2s_cancel t = Some t'"
  shows "chunk_cost (held_chunks t' q) \<le> chunk_cost (held_chunks t q)"
  using assms
  by (auto simp: t2s_cancel_def held_chunks_def writing_chunk_def split: t2s_pc.splits if_splits)

lemma rx_step_charged:
  assumes "rx_step cid r r'" "rx_charged r \<le> u32_max"
  shows "rx_charged r' \<le> rx_charged r"
  using assms
proof (cases rule: rx_step.cases)
  case (peer_data d keep q' w')
  with deliver_data_charged show ?thesis by (fastforce simp: rx_charged_def held_chunks_def)
next
  case peer_close
  then show ?thesis by (simp add: rx_charged_def held_chunks_def deliver_close_def)
next
  case (task_next t' q')
  then show ?thesis by (simp add: rx_charged_def t2s_next_held)
next
  case (task_written ok t' w' s')
  with t2s_written_charged [OF task_written(2)] assms(2) show ?thesis by (simp add: rx_charged_def)
next
  case (task_cancel t')
  with t2s_cancel_held show ?thesis by (fastforce simp: rx_charged_def)
next
  case (sink_changes s')
  then show ?thesis by (simp add: rx_charged_def)
next
  case queue_dropped
  then show ?thesis by (simp add: rx_charged_def held_chunks_def queued_chunks_def)
qed

lemma rx_steps_charged:
  assumes "rx_steps cid r r'" "rx_charged r \<le> u32_max"
  shows "rx_charged r' \<le> rx_charged r"
  using assms
proof induction
  case (rx_trans r r' r'')
  then show ?case using rx_step_charged [of cid r' r''] by simp
qed simp

lemma rx_held_bound:
  assumes "rx_steps cid r r'" "rx_charged r \<le> CHANNEL_WINDOW"
  defines "hs \<equiv> held_chunks (rx_t2s r') (rx_queue r')"
  shows "sum_list (map length hs) \<le> CHANNEL_WINDOW \<and> length hs * MIN_FRAME_CHARGE \<le> CHANNEL_WINDOW"
proof -
  have "CHANNEL_WINDOW < u32_max" by (simp add: CHANNEL_WINDOW_def u32_max_def)
  then have "rx_charged r' \<le> CHANNEL_WINDOW" using rx_steps_charged [OF assms(1)] assms(2) by simp
  then have "rw_remaining (rx_window r') + rw_drained_since_update (rx_window r') +
      sum_list (map charge (map length hs)) \<le> CHANNEL_WINDOW"
    by (simp add: rx_charged_def hs_def chunk_cost_map)
  from rw.held_bound [OF this \<open>CHANNEL_WINDOW < u32_max\<close>] show ?thesis by simp
qed

section \<open>Credit without lost wake-ups\<close>

text \<open>What can happen to the credit of a channel: its relay polls \<open>take\<close>, anybody
  adds, the wait is abandoned.\<close>

inductive credit_reach :: "send_credit \<Rightarrow> bool" where
  cr_new: "credit_reach (sc_new n)"
| cr_poll: "credit_reach sc \<Longrightarrow> credit_reach (snd (sc_take mx sc))"
| cr_add: "credit_reach sc \<Longrightarrow> credit_reach (sc_add n sc)"
| cr_raise: "credit_reach sc \<Longrightarrow> credit_reach (sc_raise_initial n sc)"
| cr_abandon: "credit_reach sc \<Longrightarrow> credit_reach (sc\<lparr>sc_parked := False\<rparr>)"

definition credit_ok :: "send_credit \<Rightarrow> bool" where
  "credit_ok sc = (sc_credit sc \<le> MAX_SEND_CREDIT \<and>
     (sc_parked sc \<and> \<not> sc_permit sc \<longrightarrow> sc_credit sc < MIN_FRAME_CHARGE))"

lemma sc_take_ok: "credit_ok sc \<Longrightarrow> credit_ok (snd (sc_take mx sc))"
  by (auto simp: credit_ok_def sc_take_def sc_take_check_def Let_def split: if_splits)

lemma credit_reach_ok: "credit_reach sc \<Longrightarrow> credit_ok sc"
proof (induction rule: credit_reach.induct)
  case (cr_poll sc mx)
  then show ?case by (simp add: sc_take_ok)
qed (auto simp: credit_ok_def sc_new_def sc_add_def sc_raise_initial_def Let_def)

lemma sc_take_ready:
  assumes "credit_ok sc" "sc_credit sc \<ge> MIN_FRAME_CHARGE"
  shows "\<exists>sc'. sc_take mx sc = (Some (min (sc_credit sc) mx), sc') \<and>
    sc_credit sc' = sc_credit sc - min (sc_credit sc) mx"
  using assms by (auto simp: credit_ok_def sc_take_def sc_take_check_def Let_def)

lemma sc_take_Some:
  assumes "sc_take mx sc = (Some n, sc')"
  shows "n = min (sc_credit sc) mx \<and> MIN_FRAME_CHARGE \<le> sc_credit sc \<and>
    sc_credit sc' = sc_credit sc - n \<and> \<not> sc_parked sc'"
  using assms by (auto simp: sc_take_def sc_take_check_def Let_def split: if_splits)

lemma sc_take_None:
  assumes "sc_take mx sc = (None, sc')"
  shows "sc_credit sc' = sc_credit sc"
  using assms by (auto simp: sc_take_def sc_take_check_def Let_def split: if_splits)

section \<open>A whole channel task\<close>

text \<open>The task with what it shares, and three histories: the bytes read from the local
  socket, the bytes written to it, the frames handed to the ordered sink.\<close>

record run =
  rn_chan :: channel
  rn_credit :: send_credit
  rn_window :: recv_window
  rn_queue :: "inbound queue"
  rn_sink :: frame_sink
  rn_sock :: bytes
  rn_arrived :: bytes
  rn_out :: bytes
  rn_frames :: "pf_frame list"

definition run_new ::
  "i32 \<Rightarrow> bytes \<Rightarrow> bytes list \<Rightarrow> send_credit \<Rightarrow> recv_window \<Rightarrow> inbound queue \<Rightarrow> frame_sink \<Rightarrow> run" where
  "run_new cid prebuf initial_out credit w q sink =
     \<lparr>rn_chan = channel_new cid prebuf initial_out, rn_credit = credit, rn_window = w, rn_queue = q,
      rn_sink = sink, rn_sock = [], rn_arrived = concat initial_out @ concat (queued_chunks q),
      rn_out = [], rn_frames = []\<rparr>"

inductive run_step :: "run \<Rightarrow> run \<Rightarrow> bool" where
  st_take: "s2t_take (ch_s2t (rn_chan r)) (rn_credit r) = Some (s', cr') \<Longrightarrow>
    run_step r (r\<lparr>rn_chan := (rn_chan r)\<lparr>ch_s2t := s'\<rparr>, rn_credit := cr'\<rparr>)"
| st_read: "s2t_read (ch_id (rn_chan r)) sock (ch_s2t (rn_chan r)) (rn_credit r) = Some (s', cr') \<Longrightarrow>
    s_pc (ch_s2t (rn_chan r)) = SRead allow \<Longrightarrow>
    run_step r (r\<lparr>rn_chan := (rn_chan r)\<lparr>ch_s2t := s'\<rparr>, rn_credit := cr',
      rn_sock := rn_sock r @ (if s_prebuf (ch_s2t (rn_chan r)) = [] then take allow sock else [])\<rparr>)"
| st_send: "s2t_send (ch_s2t (rn_chan r)) (rn_sink r) = Some (s', sink') \<Longrightarrow>
    s_pc (ch_s2t (rn_chan r)) = SSend m \<Longrightarrow>
    run_step r (r\<lparr>rn_chan := (rn_chan r)\<lparr>ch_s2t := s'\<rparr>, rn_sink := sink',
      rn_frames := rn_frames r @ (if s_pc s' = STake then [m] else [])\<rparr>)"
| st_s2t_cancel: "ch_cancel (rn_chan r) \<Longrightarrow> s2t_cancel (ch_s2t (rn_chan r)) (rn_credit r) = Some (s', cr') \<Longrightarrow>
    run_step r (r\<lparr>rn_chan := (rn_chan r)\<lparr>ch_s2t := s'\<rparr>, rn_credit := cr'\<rparr>)"
| st_next: "t2s_next (ch_t2s (rn_chan r)) (rn_queue r) = Some (t', q') \<Longrightarrow>
    run_step r (r\<lparr>rn_chan := (rn_chan r)\<lparr>ch_t2s := t'\<rparr>, rn_queue := q'\<rparr>)"
| st_written: "t2s_written (ch_id (rn_chan r)) ok (ch_t2s (rn_chan r)) (rn_window r) (rn_sink r) = Some (t', w', sink') \<Longrightarrow>
    run_step r (r\<lparr>rn_chan := (rn_chan r)\<lparr>ch_t2s := t'\<rparr>, rn_window := w', rn_sink := sink',
      rn_out := rn_out r @ (if ok then concat (writing_chunk (ch_t2s (rn_chan r))) else [])\<rparr>)"
| st_t2s_cancel: "ch_cancel (rn_chan r) \<Longrightarrow> t2s_cancel (ch_t2s (rn_chan r)) = Some t' \<Longrightarrow>
    run_step r (r\<lparr>rn_chan := (rn_chan r)\<lparr>ch_t2s := t'\<rparr>\<rparr>)"
| st_supervise: "run_step r (r\<lparr>rn_chan := supervise teardown (rn_chan r)\<rparr>)"
| st_finish: "run_channel_finish (rn_chan r) (rn_sink r) = Some (c', sink') \<Longrightarrow>
    run_step r (r\<lparr>rn_chan := c', rn_sink := sink',
      rn_frames := rn_frames r @ (if ch_closed c' = Some True then [close_msg (ch_id c')] else [])\<rparr>)"
| st_credit: "run_step r (r\<lparr>rn_credit := sc_add n (rn_credit r)\<rparr>)"
| st_data: "deliver_data d (rn_queue r) (rn_window r) = (keep, q', w') \<Longrightarrow>
    run_step r (r\<lparr>rn_queue := q', rn_window := w', rn_arrived := rn_arrived r @ (if keep then d else [])\<rparr>)"
| st_close: "run_step r (r\<lparr>rn_queue := deliver_close (rn_queue r)\<rparr>)"
| st_sink: "run_step r (r\<lparr>rn_sink := sink'\<rparr>)"

inductive run_steps :: "run \<Rightarrow> run \<Rightarrow> bool" where
  run_refl: "run_steps r r"
| run_more: "run_steps r r' \<Longrightarrow> run_step r' r'' \<Longrightarrow> run_steps r r''"

text \<open>What leaves the channel: the bytes read, in order, one \<open>data\<close> frame per read, and
  then at most one \<open>close\<close>.\<close>

definition unsent :: "s2t \<Rightarrow> bytes" where
  "unsent s = (case s_pc s of SSend m \<Rightarrow> f_data m @ s_prebuf s | _ \<Rightarrow> s_prebuf s)"

definition s2t_inv :: "i32 \<Rightarrow> bytes \<Rightarrow> bytes list \<Rightarrow> s2t \<Rightarrow> bool" where
  "s2t_inv cid input ds s =
     (case s_pc s of
        SSend m \<Rightarrow> (\<exists>d. m = data_msg cid d \<and> d \<noteq> []) \<and> input = concat ds @ unsent s
      | SDone LocalEof \<Rightarrow> s_prebuf s = [] \<and> input = concat ds
      | SDone TunnelGone \<Rightarrow> (\<exists>lost. input = concat ds @ lost)
      | _ \<Rightarrow> input = concat ds @ s_prebuf s)"

lemma s2t_take_inv:
  "s2t_take s cr = Some (s', cr') \<Longrightarrow> s2t_inv cid input ds s \<Longrightarrow> s2t_inv cid input ds s'"
  by (auto simp: s2t_take_def s2t_inv_def split: s2t_pc.splits prod.splits option.splits)

lemma s2t_cancel_inv:
  "s2t_cancel s cr = Some (s', cr') \<Longrightarrow> s2t_inv cid input ds s \<Longrightarrow> s2t_inv cid input ds s'"
  by (auto simp: s2t_cancel_def s2t_inv_def split: s2t_pc.splits)

lemma s2t_read_inv:
  assumes "s2t_read cid sock s cr = Some (s', cr')" "s_pc s = SRead allow" "s2t_inv cid input ds s"
    and "allow > 0"
  shows "s2t_inv cid (input @ (if s_prebuf s = [] then take allow sock else [])) ds s'"
  using assms by (auto simp: s2t_read_def s2t_inv_def unsent_def chain_read_def Let_def data_msg_def split: if_splits)

lemma s2t_send_inv:
  assumes "s2t_send s sink = Some (s', sink')" "s_pc s = SSend m" "s2t_inv cid input ds s"
  shows "s2t_inv cid input (ds @ (if s_pc s' = STake then [f_data m] else [])) s' \<and>
    m = data_msg cid (f_data m)"
  using assms by (auto simp: s2t_send_def s2t_inv_def unsent_def data_msg_def split: sending.splits)

text \<open>A relay that reads was granted something.\<close>

definition reads_positive :: "s2t \<Rightarrow> bool" where
  "reads_positive s = (\<forall>allow. s_pc s = SRead allow \<longrightarrow> MIN_FRAME_CHARGE \<le> allow \<and> allow \<le> MAX_FRAME)"

lemma s2t_take_positive: "s2t_take s cr = Some (s', cr') \<Longrightarrow> reads_positive s'"
  by (auto simp: s2t_take_def reads_positive_def mux_consts
      dest!: sc_take_Some split: s2t_pc.splits prod.splits option.splits)

lemma s2t_other_positive:
  "s2t_read cid sock s cr = Some (s', cr') \<Longrightarrow> reads_positive s'"
  "s2t_send s sink = Some (s', sink') \<Longrightarrow> reads_positive s'"
  "s2t_cancel s cr = Some (s', cr') \<Longrightarrow> reads_positive s'"
  by (auto simp: s2t_read_def s2t_send_def s2t_cancel_def reads_positive_def Let_def
      split: s2t_pc.splits prod.splits sending.splits if_splits)

text \<open>Once done, a half stays done.\<close>

lemma s2t_done:
  "s2t_take s cr = Some p1 \<Longrightarrow> s2t_end s = None"
  "s2t_read cid sock s cr = Some p2 \<Longrightarrow> s2t_end s = None"
  "s2t_send s sink = Some p3 \<Longrightarrow> s2t_end s = None"
  "s2t_cancel s cr = Some p4 \<Longrightarrow> s2t_end s = None"
  by (auto simp: s2t_take_def s2t_read_def s2t_send_def s2t_cancel_def s2t_end_def split: s2t_pc.splits)

lemma t2s_done:
  "t2s_next t q = Some p1 \<Longrightarrow> t2s_end t = None"
  "t2s_written cid ok t w sink = Some p2 \<Longrightarrow> t2s_end t = None"
  "t2s_cancel t = Some t' \<Longrightarrow> t2s_end t = None"
  by (auto simp: t2s_next_def t2s_written_def t2s_cancel_def t2s_end_def split: t2s_pc.splits)

definition ends_ok :: "channel \<Rightarrow> bool" where
  "ends_ok c = (case ch_closed c of
      None \<Rightarrow> True
    | Some b \<Rightarrow> (\<exists>e1 e2. s2t_end (ch_s2t c) = Some e1 \<and> t2s_end (ch_t2s c) = Some e2 \<and> (b \<longrightarrow> sends_close e1 e2)))"

definition close_frames :: "channel \<Rightarrow> pf_frame list" where
  "close_frames c = (if ch_closed c = Some True then [close_msg (ch_id c)] else [])"

definition run_inv :: "i32 \<Rightarrow> bytes \<Rightarrow> run \<Rightarrow> bool" where
  "run_inv cid prebuf r = (let c = rn_chan r in
     ch_id c = cid \<and> ends_ok c \<and> reads_positive (ch_s2t c) \<and>
     (\<exists>ds. rn_frames r = map (data_msg cid) ds @ close_frames c \<and> s2t_inv cid (prebuf @ rn_sock r) ds (ch_s2t c)))"

lemma run_channel_finish_cases:
  assumes "run_channel_finish c sink = Some (c', sink')"
  obtains e1 e2 where "ch_closed c = None" "s2t_end (ch_s2t c) = Some e1" "t2s_end (ch_t2s c) = Some e2"
    "ch_id c' = ch_id c" "ch_s2t c' = ch_s2t c" "ch_t2s c' = ch_t2s c"
    "ch_closed c' = Some False \<or> ch_closed c' = Some True \<and> sends_close e1 e2"
  using assms
  by (auto simp: run_channel_finish_def split: option.splits if_splits sending.splits)

lemma run_step_inv:
  assumes "run_step r r'" "run_inv cid prebuf r"
  shows "run_inv cid prebuf r'"
  using assms
proof (cases rule: run_step.cases)
  case (st_take s' cr')
  with assms(2) show ?thesis
    by (auto simp: run_inv_def ends_ok_def close_frames_def Let_def s2t_done(1) intro: s2t_take_inv s2t_take_positive
        split: option.splits)
next
  case (st_read sock s' cr' allow)
  with assms(2) have "ch_closed (rn_chan r) = None" "allow > 0"
    by (auto simp: run_inv_def ends_ok_def reads_positive_def mux_consts Let_def s2t_done(2) split: option.splits)
  with st_read assms(2) s2t_read_inv [OF _ st_read(3)] s2t_other_positive(1) show ?thesis
    by (fastforce simp: run_inv_def ends_ok_def close_frames_def Let_def)
next
  case (st_send s' sink' m)
  with assms(2) have "ch_closed (rn_chan r) = None"
    by (auto simp: run_inv_def ends_ok_def Let_def s2t_done(3) split: option.splits)
  moreover obtain ds where "rn_frames r = map (data_msg cid) ds @ close_frames (rn_chan r)"
    "s2t_inv cid (prebuf @ rn_sock r) ds (ch_s2t (rn_chan r))"
    using assms(2) by (auto simp: run_inv_def Let_def)
  moreover note s2t_send_inv [OF st_send(2,3)] s2t_other_positive(2) [OF st_send(2)]
  ultimately show ?thesis using st_send assms(2)
    by (auto simp: run_inv_def ends_ok_def close_frames_def Let_def
        intro!: exI [of _ "ds @ (if s_pc s' = STake then [f_data m] else [])"])
next
  case (st_s2t_cancel s' cr')
  with assms(2) show ?thesis
    by (auto simp: run_inv_def ends_ok_def close_frames_def Let_def s2t_done(4) intro: s2t_cancel_inv s2t_other_positive
        split: option.splits)
next
  case (st_next t' q')
  with assms(2) show ?thesis
    by (auto simp: run_inv_def ends_ok_def close_frames_def Let_def t2s_done(1) split: option.splits)
next
  case (st_written ok t' w' sink')
  with assms(2) show ?thesis
    by (auto simp: run_inv_def ends_ok_def close_frames_def Let_def t2s_done(2) split: option.splits)
next
  case (st_t2s_cancel t')
  with assms(2) show ?thesis
    by (auto simp: run_inv_def ends_ok_def close_frames_def Let_def t2s_done(3) split: option.splits)
next
  case (st_finish c' sink')
  from st_finish(2) obtain e1 e2 where e: "ch_closed (rn_chan r) = None"
    "s2t_end (ch_s2t (rn_chan r)) = Some e1" "t2s_end (ch_t2s (rn_chan r)) = Some e2"
    "ch_id c' = ch_id (rn_chan r)" "ch_s2t c' = ch_s2t (rn_chan r)" "ch_t2s c' = ch_t2s (rn_chan r)"
    "ch_closed c' = Some False \<or> ch_closed c' = Some True \<and> sends_close e1 e2"
    by (rule run_channel_finish_cases)
  with e assms(2) st_finish(1) show ?thesis
    by (auto simp: run_inv_def ends_ok_def close_frames_def Let_def)
qed (auto simp: run_inv_def supervise_def ends_ok_def close_frames_def Let_def split: option.splits)

lemma run_steps_inv: "run_steps r r' \<Longrightarrow> run_inv cid prebuf r \<Longrightarrow> run_inv cid prebuf r'"
  by (induction rule: run_steps.induct) (auto intro: run_step_inv)

lemma run_new_inv: "run_inv cid prebuf (run_new cid prebuf out cr w q sink)"
  by (simp add: run_inv_def run_new_def channel_new_def s2t_new_def ends_ok_def reads_positive_def
      close_frames_def s2t_inv_def)

text \<open>What reaches the local socket: the accepted chunks, in order, whole, no byte
  twice.\<close>

definition out_inv :: "run \<Rightarrow> bool" where
  "out_inv r = (case t_pc (ch_t2s (rn_chan r)) of
      TDone _ \<Rightarrow> (\<exists>rest. rn_arrived r = rn_out r @ rest)
    | _ \<Rightarrow> rn_arrived r = rn_out r @ concat (held_chunks (ch_t2s (rn_chan r)) (rn_queue r)))"

lemma out_inv_prefix: "out_inv r \<Longrightarrow> \<exists>rest. rn_arrived r = rn_out r @ rest"
  by (auto simp: out_inv_def split: t2s_pc.splits)

lemma out_inv_cong:
  "out_inv r \<Longrightarrow> ch_t2s (rn_chan r') = ch_t2s (rn_chan r) \<Longrightarrow> rn_queue r' = rn_queue r \<Longrightarrow>
   rn_arrived r' = rn_arrived r \<Longrightarrow> rn_out r' = rn_out r \<Longrightarrow> out_inv r'"
  by (simp add: out_inv_def split: t2s_pc.splits)

lemma deliver_data_queue:
  assumes "deliver_data d q w = (keep, q', w')"
  shows "queued_chunks q' = queued_chunks q @ (if keep then [d] else [])"
  using assms by (auto simp: deliver_data_def Let_def split: prod.splits if_splits)

lemma held_concat: "concat (held_chunks t q) = concat (writing_chunk t) @ concat (t_pending t) @ concat (queued_chunks q)"
  by (simp add: held_chunks_def)

lemma run_step_out:
  assumes "run_step r r'" "out_inv r"
  shows "out_inv r'"
  using assms
proof (cases rule: run_step.cases)
  case (st_next t' q')
  from t2s_done(1) [OF st_next(2)] have "\<And>e. t_pc (ch_t2s (rn_chan r)) \<noteq> TDone e"
    by (auto simp: t2s_end_def)
  with assms(2) have a: "rn_arrived r = rn_out r @ concat (held_chunks (ch_t2s (rn_chan r)) (rn_queue r))"
    by (auto simp: out_inv_def split: t2s_pc.splits)
  with st_next t2s_next_held [OF st_next(2)] show ?thesis
    by (auto simp: out_inv_def split: t2s_pc.splits)
next
  case (st_written ok t' w' sink')
  from t2s_done(2) [OF st_written(2)] have "\<And>e. t_pc (ch_t2s (rn_chan r)) \<noteq> TDone e"
    by (auto simp: t2s_end_def)
  with assms(2) have a: "rn_arrived r = rn_out r @ concat (held_chunks (ch_t2s (rn_chan r)) (rn_queue r))"
    by (auto simp: out_inv_def split: t2s_pc.splits)
  from st_written(2) show ?thesis
    by (cases rule: t2s_written_cases) (use a st_written(1) in \<open>auto simp: out_inv_def held_chunks_def writing_chunk_def\<close>)
next
  case (st_t2s_cancel t')
  then have "\<exists>e. t_pc t' = TDone e"
    by (auto simp: t2s_cancel_def split: t2s_pc.splits if_splits)
  with st_t2s_cancel(1) out_inv_prefix [OF assms(2)] show ?thesis by (auto simp: out_inv_def)
next
  case (st_finish c' sink')
  from st_finish(2) have "ch_t2s c' = ch_t2s (rn_chan r)"
    by (elim run_channel_finish_cases)
  with st_finish(1) show ?thesis by (intro out_inv_cong [OF assms(2)]) simp_all
next
  case (st_data d keep q' w')
  with deliver_data_queue [OF st_data(2)] assms(2) show ?thesis
    by (auto simp: out_inv_def held_concat split: t2s_pc.splits)
next
  case st_close
  then show ?thesis using assms(2)
    by (simp add: out_inv_def held_concat deliver_close_def split: t2s_pc.splits)
qed (intro out_inv_cong [OF assms(2)]; simp add: supervise_def)+

lemma run_steps_out: "run_steps r r' \<Longrightarrow> out_inv r \<Longrightarrow> out_inv r'"
  by (induction rule: run_steps.induct) (auto intro: run_step_out)

lemma run_new_out: "out_inv (run_new cid prebuf out cr w q sink)"
  by (simp add: out_inv_def run_new_def channel_new_def t2s_new_def held_concat writing_chunk_def)

section \<open>Properties\<close>

text \<open>C15. Whatever a peer sends, a channel never holds more than \<open>CHANNEL_WINDOW\<close> bytes of
  it, nor more than \<open>CHANNEL_WINDOW / MIN_FRAME_CHARGE\<close> frames: chunks queued, buffered
  and being written are all paid for out of the window.\<close>

theorem receiver_memory_bound:
  assumes "rx_steps cid (rx_new CHANNEL_WINDOW [] sink) r"
  shows "sum_list (map length (held_chunks (rx_t2s r) (rx_queue r))) \<le> CHANNEL_WINDOW \<and>
    length (held_chunks (rx_t2s r) (rx_queue r)) \<le> 4096"
proof -
  have "rx_charged (rx_new CHANNEL_WINDOW [] sink) \<le> CHANNEL_WINDOW"
    by (simp add: rx_charged_def rx_new_def rw_new_def held_chunks_def writing_chunk_def t2s_new_def
        queued_chunks_def q_new_def effective_window_def mux_consts)
  from rx_held_bound [OF assms this] show ?thesis by (simp add: mux_consts)
qed

theorem receiver_memory_bound_witness:
  "\<exists>r. rx_steps 7 (rx_new CHANNEL_WINDOW [] (Direct q_new)) r \<and>
     held_chunks (rx_t2s r) (rx_queue r) = [[1, 2, 3]] \<and>
     length (held_chunks (rx_t2s r) (rx_queue r)) \<le> 4096"
proof -
  let ?r0 = "rx_new CHANNEL_WINDOW [] (Direct q_new)"
  let ?r1 = "?r0\<lparr>rx_queue := q_push (InData [1, 2, 3]) q_new,
     rx_window := \<lparr>rw_remaining = CHANNEL_WINDOW - 64, rw_drained_since_update = 0\<rparr>, rx_live := True\<rparr>"
  have "deliver_data [1, 2, 3] (rx_queue ?r0) (rx_window ?r0) = (True, rx_queue ?r1, rx_window ?r1)"
    by (simp add: deliver_data_def rw_accept_def checked_sub_def rx_new_def rw_new_def effective_window_def
        charge_def u32_max_def q_send_def q_push_def q_new_def mux_consts)
  then have s: "rx_steps 7 ?r0 ?r1"
    using rx_step.peer_data [of ?r0] by (fastforce intro: rx_trans rx_refl simp: rx_new_def)
  show ?thesis using s receiver_memory_bound [OF s]
    by (intro exI [of _ ?r1]) (simp add: rx_new_def held_chunks_def writing_chunk_def t2s_new_def queued_chunks_def
        q_push_def q_new_def)
qed

text \<open>No wake-up is lost: however polls of \<open>take\<close> and additions of credit interleave,
  once the credit covers a minimum charge the next poll returns, with an amount between
  the minimum charge and \<open>MAX_FRAME\<close>, and the credit never exceeds \<open>MAX_SEND_CREDIT\<close>.\<close>

theorem take_not_stuck:
  assumes "credit_reach sc" "sc_credit sc \<ge> MIN_FRAME_CHARGE"
  shows "\<exists>n sc'. sc_take MAX_FRAME sc = (Some n, sc') \<and> MIN_FRAME_CHARGE \<le> n \<and> n \<le> MAX_FRAME \<and>
    sc_credit sc' + n = sc_credit sc \<and> sc_credit sc \<le> MAX_SEND_CREDIT"
proof -
  have ok: "credit_ok sc" using assms(1) by (rule credit_reach_ok)
  from sc_take_ready [OF ok assms(2), of MAX_FRAME] show ?thesis
    using assms(2) ok by (auto simp: credit_ok_def mux_consts)
qed

theorem take_not_stuck_witness:
  "\<exists>n sc'. sc_take MAX_FRAME (sc_add 100 (snd (sc_take MAX_FRAME (sc_new 10)))) = (Some n, sc') \<and> n = 110"
proof -
  let ?sc = "sc_add 100 (snd (sc_take MAX_FRAME (sc_new 10)))"
  have "credit_reach ?sc" by (intro credit_reach.intros)
  moreover have c: "sc_credit ?sc = 110"
    by (simp add: sc_add_def sc_take_def sc_take_check_def sc_new_def sat_add32_def u32_max_def mux_consts)
  ultimately obtain n sc' where "sc_take MAX_FRAME ?sc = (Some n, sc')"
    using take_not_stuck [of ?sc] by (auto simp: mux_consts)
  with c show ?thesis using sc_take_Some [of MAX_FRAME ?sc n sc'] by (auto simp: mux_consts)
qed

text \<open>A channel task sends one \<open>data\<close> frame per read with exactly the bytes of its
  input, prebuffer first, in order and none twice; a \<open>close\<close> is sent at most once, after
  the last data, never when the peer closed or the tunnel is gone, and when the socket
  ended every byte read has been sent before it.\<close>

theorem channel_output:
  assumes "run_steps (run_new cid prebuf out cr w q sink) r"
  shows "\<exists>ds rest. rn_frames r = map (data_msg cid) ds @ close_frames (rn_chan r) \<and>
    prebuf @ rn_sock r = concat ds @ rest \<and>
    (s2t_end (ch_s2t (rn_chan r)) = Some LocalEof \<longrightarrow> rest = []) \<and>
    (ch_closed (rn_chan r) = Some True \<longrightarrow>
       (\<exists>e1 e2. s2t_end (ch_s2t (rn_chan r)) = Some e1 \<and> t2s_end (ch_t2s (rn_chan r)) = Some e2 \<and>
          {e1, e2} \<inter> {PeerClosed, TunnelGone} = {} \<and> {e1, e2} \<inter> {LocalEof, Violation} \<noteq> {}))"
proof -
  have inv: "run_inv cid prebuf r" using run_steps_inv [OF assms run_new_inv] .
  then obtain ds where ds: "rn_frames r = map (data_msg cid) ds @ close_frames (rn_chan r)"
    "s2t_inv cid (prebuf @ rn_sock r) ds (ch_s2t (rn_chan r))" by (auto simp: run_inv_def Let_def)
  moreover have "\<exists>rest. prebuf @ rn_sock r = concat ds @ rest \<and>
      (s2t_end (ch_s2t (rn_chan r)) = Some LocalEof \<longrightarrow> rest = [])"
    using ds(2) by (auto simp: s2t_inv_def s2t_end_def unsent_def split: s2t_pc.splits relay_end.splits)
  moreover have "\<exists>e1 e2. s2t_end (ch_s2t (rn_chan r)) = Some e1 \<and> t2s_end (ch_t2s (rn_chan r)) = Some e2 \<and>
      {e1, e2} \<inter> {PeerClosed, TunnelGone} = {} \<and> {e1, e2} \<inter> {LocalEof, Violation} \<noteq> {}"
    if "ch_closed (rn_chan r) = Some True"
    using inv that by (auto simp: run_inv_def ends_ok_def sends_close_def Let_def)
  ultimately show ?thesis by blast
qed

theorem channel_output_witness:
  "\<exists>r. run_steps (run_new 3 [5, 6] [] (sc_new INITIAL_WINDOW) (rw_new CHANNEL_WINDOW) q_new (Direct q_new)) r \<and>
     s_pc (ch_s2t (rn_chan r)) = SRead MAX_FRAME \<and>
     (\<exists>ds. rn_frames r = map (data_msg 3) ds @ close_frames (rn_chan r))"
proof -
  let ?r0 = "run_new 3 [5, 6] [] (sc_new INITIAL_WINDOW) (rw_new CHANNEL_WINDOW) q_new (Direct q_new)"
  let ?s' = "(ch_s2t (rn_chan ?r0))\<lparr>s_pc := SRead MAX_FRAME\<rparr>"
  have "s2t_take (ch_s2t (rn_chan ?r0)) (rn_credit ?r0) =
      Some (?s', snd (sc_take MAX_FRAME (sc_new INITIAL_WINDOW)))"
    by (simp add: s2t_take_def run_new_def channel_new_def s2t_new_def sc_take_def sc_take_check_def sc_new_def mux_consts)
  then have s: "run_steps ?r0 (?r0\<lparr>rn_chan := (rn_chan ?r0)\<lparr>ch_s2t := ?s'\<rparr>,
      rn_credit := snd (sc_take MAX_FRAME (sc_new INITIAL_WINDOW))\<rparr>)" (is "run_steps _ ?r1")
    by (intro run_more [OF run_refl] st_take)
  have "s_pc (ch_s2t (rn_chan ?r1)) = SRead MAX_FRAME" by simp
  with s channel_output [OF s] show ?thesis by blast
qed

text \<open>What a channel writes to its local socket is a prefix of the payloads it accepted,
  in order of arrival, and nothing is missing while its writing half is up.\<close>

theorem channel_input:
  assumes "run_steps (run_new cid prebuf out cr w q sink) r"
  shows "\<exists>rest. rn_arrived r = rn_out r @ rest \<and>
    (t2s_end (ch_t2s (rn_chan r)) = None \<longrightarrow> rest = concat (held_chunks (ch_t2s (rn_chan r)) (rn_queue r)))"
proof -
  have "out_inv r" using run_steps_out [OF assms run_new_out] .
  then show ?thesis by (auto simp: out_inv_def t2s_end_def split: t2s_pc.splits)
qed

theorem channel_input_witness:
  "\<exists>r rest. run_steps (run_new 3 [] [[1], [2]] (sc_new 0) (rw_new 0) q_new (Direct q_new)) r \<and>
     t_pc (ch_t2s (rn_chan r)) = TWrite [1] \<and> [1, 2] = rn_out r @ rest"
proof -
  let ?r0 = "run_new 3 [] [[1], [2]] (sc_new 0) (rw_new 0) q_new (Direct q_new)"
  let ?t' = "\<lparr>t_pc = TWrite [1], t_pending = [[2]]\<rparr> :: t2s"
  have "t2s_next (ch_t2s (rn_chan ?r0)) (rn_queue ?r0) = Some (?t', q_new)"
    by (simp add: t2s_next_def run_new_def channel_new_def t2s_new_def)
  then have s: "run_steps ?r0 (?r0\<lparr>rn_chan := (rn_chan ?r0)\<lparr>ch_t2s := ?t'\<rparr>, rn_queue := q_new\<rparr>)" (is "run_steps _ ?r1")
    by (intro run_more [OF run_refl] st_next)
  have "rn_arrived ?r1 = [1, 2]" by (simp add: run_new_def queued_chunks_def q_new_def)
  with channel_input [OF s] obtain rest where "[1, 2] = rn_out ?r1 @ rest" by auto
  with s show ?thesis by (intro exI [of _ ?r1] exI [of _ rest]) simp
qed

end
