(* ===== verification/Mux_Demux.thy ===== *)
theory Mux_Demux
  imports Mux_Channel
begin

text \<open>
  What the two demultiplexers of a tunnel have in common: the part of a channel that its
  table entry shares with its task, what a frame does to the channel it names, and the
  contract of a table of channels as a locale.
\<close>

record chan_shared =
  cs_inbound :: "inbound queue"
  cs_credit :: send_credit
  cs_window :: recv_window

definition frame_id :: "pf_frame \<Rightarrow> i32 option" where
  "frame_id f = (case f of FNone \<Rightarrow> None | _ \<Rightarrow> Some (f_id f))"

text \<open>The specification of a table: a frame changes the channel it names, if there is one.\<close>

definition table_spec ::
  "('f \<Rightarrow> 'k option) \<Rightarrow> ('f \<Rightarrow> 'v \<Rightarrow> 'v option) \<Rightarrow> 'f \<Rightarrow> ('k \<Rightarrow> 'v option) \<Rightarrow> 'k \<Rightarrow> 'v option" where
  "table_spec target effect f m =
     (case target f of
        None \<Rightarrow> m
      | Some k \<Rightarrow> m(k := (case m k of None \<Rightarrow> None | Some ch \<Rightarrow> effect f ch)))"

lemma table_spec_other: "target f \<noteq> Some k \<Longrightarrow> table_spec target effect f m k = m k"
  by (auto simp: table_spec_def split: option.splits)

lemma table_spec_own: "m k = m' k \<Longrightarrow> table_spec target effect f m k = table_spec target effect f m' k"
  by (auto simp: table_spec_def split: option.splits)

locale demux =
  fixes step :: "'f \<Rightarrow> 'h \<Rightarrow> 'h"
    and view :: "'h \<Rightarrow> 'k \<Rightarrow> 'v option"
    and target :: "'f \<Rightarrow> 'k option"
    and effect :: "'f \<Rightarrow> 'v \<Rightarrow> 'v option"
    and inv :: "'h \<Rightarrow> bool"
    and plain :: "'f \<Rightarrow> bool"
  assumes step_inv: "inv h \<Longrightarrow> plain f \<Longrightarrow> inv (step f h)"
    and step_view: "inv h \<Longrightarrow> plain f \<Longrightarrow> view (step f h) = table_spec target effect f (view h)"
begin

lemma fold_inv: "inv h \<Longrightarrow> list_all plain fs \<Longrightarrow> inv (fold step fs h)"
  by (induction fs arbitrary: h) (simp_all add: step_inv)

lemma fold_refines:
  "inv h \<Longrightarrow> list_all plain fs \<Longrightarrow> view (fold step fs h) = fold (table_spec target effect) fs (view h)"
  by (induction fs arbitrary: h) (simp_all add: step_inv step_view)

lemma spec_isolated:
  "m k = m' k \<Longrightarrow> fold (table_spec target effect) fs m k =
     fold (table_spec target effect) (filter (\<lambda>f. target f = Some k) fs) m' k"
proof (induction fs arbitrary: m m')
  case (Cons f fs)
  show ?case
  proof (cases "target f = Some k")
    case True
    with Cons.prems show ?thesis by (simp add: Cons.IH [OF table_spec_own])
  next
    case False
    with Cons.prems have "table_spec target effect f m k = m' k" by (simp add: table_spec_other)
    with False Cons.IH show ?thesis by simp
  qed
qed simp

lemma fold_isolated:
  assumes "inv h" "list_all plain fs"
  shows "view (fold step fs h) k = view (fold step (filter (\<lambda>f. target f = Some k) fs) h) k"
proof -
  have "list_all plain (filter (\<lambda>f. target f = Some k) fs)" using assms(2) by (simp add: list_all_iff)
  with assms show ?thesis using spec_isolated [of "view h" k "view h" fs] by (simp add: fold_refines)
qed

end

end
