(* ===== verification/Mux_Tunnel.thy ===== *)
theory Mux_Tunnel
  imports Mux_Demux
begin

text \<open>
  The controller's end of a multiplexed tunnel, module \<open>tunnel\<close> of
  \<open>src/port_forward_mux.rs\<close>: the listener's \<open>Tunnel\<close> state, the \<open>TunnelHandle\<close> with
  its channel table, opening a channel, demultiplexing the peer's frames, reporting
  refusals, and the loop that owns the stream.

  A channel's entry and its task share the credit, the window and the inbound queue
  (\<open>Arc\<close>s and an \<open>mpsc\<close> pair): these live in a store, \<open>th_store\<close>, and the entry holds
  the address.  Removing the entry leaves the shared part to the task.  Times
  (\<open>Instant\<close>, \<open>Duration\<close>) are milliseconds, and \<open>duration_since\<close> saturates at zero.
\<close>

section \<open>State\<close>

definition REPORT_AGAIN_AFTER :: nat where "REPORT_AGAIN_AFTER = 10 * 1000"
definition MAX_REPORTED_OPEN_ERRORS :: nat where "MAX_REPORTED_OPEN_ERRORS = 8"

record channel_entry =
  ce_addr :: nat
  ce_opened :: bool

record tunnel_handle =
  th_sink :: frame_sink
  th_channels :: "(i32 \<times> channel_entry) list"
  th_next_id :: i32
  th_reported :: "(string \<times> nat) list"
  th_teardown :: bool
  th_store :: "(nat \<times> chan_shared) list"
  th_next_addr :: nat

datatype tunnel_state = Unset | Muxed tunnel_handle | Legacy | Failed

datatype claim_result = ClaimClaimed | ClaimMuxed tunnel_handle | ClaimLegacy

definition tunnel_new :: tunnel_state where
  "tunnel_new = Unset"

definition claim :: "tunnel_state \<Rightarrow> claim_result" where
  "claim st = (case st of Unset \<Rightarrow> ClaimClaimed | Failed \<Rightarrow> ClaimClaimed
     | Muxed h \<Rightarrow> ClaimMuxed h | Legacy \<Rightarrow> ClaimLegacy)"

definition handle_new :: tunnel_handle where
  "handle_new = \<lparr>th_sink = Queued q_new q_new, th_channels = [], th_next_id = 1, th_reported = [],
     th_teardown = False, th_store = [], th_next_addr = 0\<rparr>"

definition set_muxed :: "stream \<Rightarrow> stream \<times> tunnel_state" where
  "set_muxed s = (cap_packet_size s, Muxed handle_new)"

definition set_legacy :: "tunnel_state \<Rightarrow> tunnel_state" where
  "set_legacy _ = Legacy"

definition set_failed :: "tunnel_state \<Rightarrow> tunnel_state" where
  "set_failed _ = Failed"

section \<open>Opening a channel\<close>

text \<open>The loop that looks for a free id: \<open>fetch_add\<close> on an \<open>AtomicI32\<close> wraps around.
  Nothing in the loop bounds it, so it is a partial function.\<close>

partial_function (option) alloc_id :: "(i32 \<times> 'e) list \<Rightarrow> i32 \<Rightarrow> (i32 \<times> i32) option" where
  "alloc_id channels next_id =
     (if hm_contains channels next_id then alloc_id channels (next_id + 1)
      else Some (next_id, next_id + 1))"

definition shared_new :: chan_shared where
  "shared_new = \<lparr>cs_inbound = q_new, cs_credit = sc_new INITIAL_WINDOW, cs_window = rw_new CHANNEL_WINDOW\<rparr>"

text \<open>The outer option is the id loop not returning; a success gives the id, the address
  of the shared part and the \<open>open\<close> frame its task sends first.\<close>

definition th_open ::
  "string \<Rightarrow> int \<Rightarrow> tunnel_handle \<Rightarrow> (string + tunnel_handle \<times> i32 \<times> nat \<times> pf_frame) option" where
  "th_open host port h =
     (if sink_is_closed (th_sink h) then Some (Inl ''port forward tunnel is gone'')
      else if length (th_channels h) \<ge> MAX_CHANNELS then Some (Inl ''too many port forward channels'')
      else case alloc_id (th_channels h) (th_next_id h) of
             None \<Rightarrow> None
           | Some (cid, next) \<Rightarrow>
               (let a = th_next_addr h;
                    h' = h\<lparr>th_next_id := next,
                           th_channels := hm_insert cid \<lparr>ce_addr = a, ce_opened = False\<rparr> (th_channels h),
                           th_store := hm_insert a shared_new (th_store h),
                           th_next_addr := Suc a\<rparr>
                in Some (Inr (h', cid, a, open_msg cid host port CHANNEL_WINDOW))))"

text \<open>The spawned task: \<open>open\<close> down the ordered queue, then \<open>run_channel\<close>; in the end its
  id leaves the table.\<close>

definition task_send_open :: "pf_frame \<Rightarrow> tunnel_handle \<Rightarrow> (bool \<times> tunnel_handle) option" where
  "task_send_open m h =
     (case send_ordered m (th_sink h) of
        Sent s \<Rightarrow> Some (True, h\<lparr>th_sink := s\<rparr>)
      | Full \<Rightarrow> None
      | Gone _ \<Rightarrow> Some (False, h))"

definition task_ended :: "i32 \<Rightarrow> tunnel_handle \<Rightarrow> tunnel_handle" where
  "task_ended cid h = h\<lparr>th_channels := hm_remove cid (th_channels h)\<rparr>"

section \<open>Frames from the peer\<close>

definition update_shared :: "nat \<Rightarrow> (chan_shared \<Rightarrow> chan_shared) \<Rightarrow> tunnel_handle \<Rightarrow> tunnel_handle" where
  "update_shared a f h =
     (case hm_get (th_store h) a of
        None \<Rightarrow> h
      | Some cs \<Rightarrow> h\<lparr>th_store := hm_insert a (f cs) (th_store h)\<rparr>)"

definition first_report_at :: "string \<Rightarrow> nat \<Rightarrow> tunnel_handle \<Rightarrow> string option \<times> tunnel_handle" where
  "first_report_at message now h =
     (if message = [] then (None, h)
      else let reported = hm_retain (\<lambda>_ last. now - last < REPORT_AGAIN_AFTER) (th_reported h) in
        if hm_contains reported message then
          (None, h\<lparr>th_reported := hm_insert message now reported\<rparr>)
        else if length reported \<ge> MAX_REPORTED_OPEN_ERRORS then (None, h\<lparr>th_reported := reported\<rparr>)
        else (Some message, h\<lparr>th_reported := hm_insert message now reported\<rparr>))"

definition remove_entry :: "i32 \<Rightarrow> (inbound queue \<Rightarrow> inbound queue) \<Rightarrow> tunnel_handle \<Rightarrow> tunnel_handle" where
  "remove_entry cid f h =
     (case hm_get (th_channels h) cid of
        None \<Rightarrow> h
      | Some e \<Rightarrow>
          (update_shared (ce_addr e) (\<lambda>cs. cs\<lparr>cs_inbound := f (cs_inbound cs)\<rparr>) h)
            \<lparr>th_channels := hm_remove cid (th_channels h)\<rparr>)"

definition on_opened :: "i32 \<Rightarrow> bool \<Rightarrow> string \<Rightarrow> nat \<Rightarrow> nat \<Rightarrow> tunnel_handle \<Rightarrow> string option \<times> tunnel_handle" where
  "on_opened cid success message window now h =
     (if success then
        (case hm_get (th_channels h) cid of
           Some e \<Rightarrow>
             (if \<not> ce_opened e then
                (None,
                 (update_shared (ce_addr e) (\<lambda>cs. cs\<lparr>cs_credit := sc_raise_initial window (cs_credit cs)\<rparr>) h)
                   \<lparr>th_channels := hm_insert cid (e\<lparr>ce_opened := True\<rparr>) (th_channels h)\<rparr>)
              else (None, h))
         | None \<Rightarrow> (None, h))
      else if hm_contains (th_channels h) cid then
        first_report_at message now (remove_entry cid deliver_close h)
      else (None, h))"

definition on_data :: "i32 \<Rightarrow> bytes \<Rightarrow> tunnel_handle \<Rightarrow> tunnel_handle" where
  "on_data cid d h =
     (case hm_get (th_channels h) cid of
        None \<Rightarrow> h
      | Some e \<Rightarrow>
          (case hm_get (th_store h) (ce_addr e) of
             None \<Rightarrow> h
           | Some cs \<Rightarrow>
               (let (keep, q', w') = deliver_data d (cs_inbound cs) (cs_window cs);
                    h' = h\<lparr>th_store := hm_insert (ce_addr e) (cs\<lparr>cs_inbound := q', cs_window := w'\<rparr>) (th_store h)\<rparr>
                in if keep then h' else h'\<lparr>th_channels := hm_remove cid (th_channels h)\<rparr>)))"

definition on_frame :: "nat \<Rightarrow> pf_frame \<Rightarrow> tunnel_handle \<Rightarrow> string option \<times> tunnel_handle" where
  "on_frame now f h =
     (case f of
        FOpened cid success message window \<Rightarrow> on_opened cid success message window now h
      | FData cid d \<Rightarrow> (None, on_data cid d h)
      | FClose cid \<Rightarrow> (None, remove_entry cid deliver_close h)
      | FWindowUpdate cid add \<Rightarrow>
          (None, case hm_get (th_channels h) cid of
                   Some e \<Rightarrow> update_shared (ce_addr e) (\<lambda>cs. cs\<lparr>cs_credit := sc_add add (cs_credit cs)\<rparr>) h
                 | None \<Rightarrow> h)
      | FOpen _ _ _ _ \<Rightarrow> (None, h)
      | FNone \<Rightarrow> (None, h))"

text \<open>Clearing the table drops every entry's sender.\<close>

definition th_close_all :: "tunnel_handle \<Rightarrow> tunnel_handle" where
  "th_close_all h =
     h\<lparr>th_store := map (\<lambda>(a, cs). (a, if a \<in> set (map (ce_addr \<circ> snd) (th_channels h))
                                       then cs\<lparr>cs_inbound := q_drop_tx (cs_inbound cs)\<rparr> else cs)) (th_store h),
       th_channels := [], th_teardown := True\<rparr>"

section \<open>The loop that owns the stream\<close>

datatype tunnel_msg = MChannel pf_frame | MTestDelay | MCloseReason string | MOther

datatype read_result = RMsg tunnel_msg | RUnparsable | RErr string | RNone

text \<open>The arm that \<open>select!\<close> takes, with what its await resolved to; the option on a send is the
  error of \<open>stream.send\<close>.\<close>

datatype loop_event = EvControl "string option" | EvRead read_result | EvData "string option" | EvLifetime

record loop_out =
  lo_handle :: tunnel_handle
  lo_wire :: "pf_frame list"
  lo_report :: "string option"
  lo_break :: "string option"

definition loop_quiet :: "tunnel_handle \<Rightarrow> loop_out" where
  "loop_quiet h = \<lparr>lo_handle = h, lo_wire = [], lo_report = None, lo_break = None\<rparr>"

definition sink_pop_control :: "frame_sink \<Rightarrow> (pf_frame \<times> frame_sink) option" where
  "sink_pop_control s =
     (case s of
        Queued d c \<Rightarrow> (case q_items c of [] \<Rightarrow> None | m # ms \<Rightarrow> Some (m, Queued d (c\<lparr>q_items := ms\<rparr>)))
      | Direct _ \<Rightarrow> None)"

definition sink_pop_data :: "frame_sink \<Rightarrow> (pf_frame \<times> frame_sink) option" where
  "sink_pop_data s =
     (case s of
        Queued d c \<Rightarrow> (case q_items d of [] \<Rightarrow> None | m # ms \<Rightarrow> Some (m, Queued (d\<lparr>q_items := ms\<rparr>) c))
      | Direct t \<Rightarrow> (case q_items t of [] \<Rightarrow> None | m # ms \<Rightarrow> Some (m, Direct (t\<lparr>q_items := ms\<rparr>))))"

definition send_arm :: "(pf_frame \<times> frame_sink) option \<Rightarrow> string option \<Rightarrow> tunnel_handle \<Rightarrow> loop_out option" where
  "send_arm popped err h =
     (case popped of
        None \<Rightarrow> None
      | Some (m, s) \<Rightarrow>
          Some (case err of
                  None \<Rightarrow> (loop_quiet (h\<lparr>th_sink := s\<rparr>))\<lparr>lo_wire := [m]\<rparr>
                | Some e \<Rightarrow> (loop_quiet (h\<lparr>th_sink := s\<rparr>))\<lparr>lo_break := Some (''send failed: '' @ e)\<rparr>))"

definition tunnel_step :: "nat \<Rightarrow> loop_event \<Rightarrow> tunnel_handle \<Rightarrow> loop_out option" where
  "tunnel_step now ev h =
     (case ev of
        EvControl err \<Rightarrow> send_arm (sink_pop_control (th_sink h)) err h
      | EvData err \<Rightarrow> send_arm (sink_pop_data (th_sink h)) err h
      | EvRead (RMsg (MChannel f)) \<Rightarrow>
          (let (rep, h') = on_frame now f h in Some ((loop_quiet h')\<lparr>lo_report := rep\<rparr>))
      | EvRead (RMsg (MCloseReason r)) \<Rightarrow> Some ((loop_quiet h)\<lparr>lo_break := Some (''closed by peer: '' @ r)\<rparr>)
      | EvRead (RMsg MTestDelay) \<Rightarrow> Some (loop_quiet h)
      | EvRead (RMsg MOther) \<Rightarrow> Some (loop_quiet h)
      | EvRead RUnparsable \<Rightarrow> Some (loop_quiet h)
      | EvRead (RErr e) \<Rightarrow> Some ((loop_quiet h)\<lparr>lo_break := Some (''read failed: '' @ e)\<rparr>)
      | EvRead RNone \<Rightarrow> Some ((loop_quiet h)\<lparr>lo_break := Some ''timeout or reset by the peer''\<rparr>)
      | EvLifetime \<Rightarrow> Some ((loop_quiet h)\<lparr>lo_break := Some ''window closed''\<rparr>))"

text \<open>After the loop; its receivers are dropped with it, so the sink is closed.\<close>

definition tunnel_end :: "tunnel_handle \<Rightarrow> tunnel_handle \<times> tunnel_state" where
  "tunnel_end h =
     ((th_close_all h)\<lparr>th_sink := (case th_sink h of
          Queued d c \<Rightarrow> Queued (d\<lparr>q_rx := False\<rparr>) (c\<lparr>q_rx := False\<rparr>)
        | Direct t \<Rightarrow> Direct (t\<lparr>q_rx := False\<rparr>))\<rparr>, Unset)"

section \<open>A free id is found\<close>

lemma alloc_id_at:
  assumes "\<And>j. j < k \<Longrightarrow> hm_contains ch (n + of_nat j)" "\<not> hm_contains ch (n + of_nat k)"
  shows "alloc_id ch n = Some (n + of_nat k, n + of_nat k + 1)"
  using assms
proof (induction k arbitrary: n)
  case 0
  then show ?case by (subst alloc_id.simps) simp
next
  case (Suc k)
  have "alloc_id ch (n + 1) = Some (n + 1 + of_nat k, n + 1 + of_nat k + 1)"
    using Suc.prems(1) [of "Suc _"] Suc.prems(2) by (intro Suc.IH) (simp_all add: algebra_simps)
  moreover have "hm_contains ch n" using Suc.prems(1) [of 0] by simp
  ultimately show ?case by (subst alloc_id.simps) (simp add: algebra_simps)
qed

lemma free_id_exists:
  assumes "length ch < 2 ^ 32"
  shows "\<exists>k. \<not> hm_contains ch ((n :: i32) + of_nat k)"
proof -
  have "card (fst ` set ch) < card (UNIV :: i32 set)"
    using assms card_image_le [of "set ch" fst] card_length [of ch] by (simp add: card_word)
  then obtain x where "x \<notin> fst ` set ch" by (metis UNIV_I less_irrefl subsetI subset_antisym top_greatest)
  moreover have "x = n + of_nat (unat (x - n))" by simp
  ultimately show ?thesis by (metis hm_contains_keys)
qed

text \<open>The probes before the free id all hit live channels, so there are at most as many.\<close>

lemma alloc_id_total:
  assumes "length ch < 2 ^ 32"
  obtains k where "k \<le> length ch" "\<And>j. j < k \<Longrightarrow> hm_contains ch (n + of_nat j)"
    "\<not> hm_contains ch (n + of_nat k)" "alloc_id ch n = Some (n + of_nat k, n + of_nat k + 1)"
proof -
  define k where "k = (LEAST k. \<not> hm_contains ch (n + of_nat k))"
  have free: "\<not> hm_contains ch (n + of_nat k)"
    unfolding k_def using free_id_exists [OF assms] by (rule LeastI_ex)
  have used: "hm_contains ch (n + of_nat j)" if "j < k" for j
    using that not_less_Least unfolding k_def by blast
  have "k \<le> length ch"
  proof (rule ccontr)
    assume "\<not> k \<le> length ch"
    then have "(\<lambda>j. n + of_nat j) ` {..<Suc (length ch)} \<subseteq> fst ` set ch"
      using used by (auto simp: hm_contains_keys [symmetric])
    moreover have "inj_on (\<lambda>j. n + of_nat j) {..<Suc (length ch)}"
      using assms by (auto simp: inj_on_def word_of_nat_eq_iff take_bit_nat_eq_self)
    ultimately have "Suc (length ch) \<le> card (fst ` set ch)"
      by (metis List.finite_set card_image card_lessThan card_mono finite_imageI)
    then show False using card_image_le [of "set ch" fst] card_length [of ch] by simp
  qed
  then show thesis using that free used alloc_id_at [OF used free] by blast
qed

section \<open>Invariant of the table\<close>

definition handle_inv :: "tunnel_handle \<Rightarrow> bool" where
  "handle_inv h = (hm_wf (th_channels h) \<and> hm_wf (th_store h) \<and> length (th_channels h) \<le> MAX_CHANNELS \<and>
     (\<forall>(cid, e) \<in> set (th_channels h). hm_contains (th_store h) (ce_addr e)) \<and>
     (\<forall>a \<in> fst ` set (th_store h). a < th_next_addr h) \<and>
     inj_on (ce_addr \<circ> snd) (set (th_channels h)))"

definition th_view :: "tunnel_handle \<Rightarrow> i32 \<Rightarrow> (bool \<times> chan_shared) option" where
  "th_view h cid =
     (case hm_get (th_channels h) cid of
        None \<Rightarrow> None
      | Some e \<Rightarrow> map_option (\<lambda>cs. (ce_opened e, cs)) (hm_get (th_store h) (ce_addr e)))"

lemma handle_inv_new: "handle_inv handle_new"
  by (simp add: handle_inv_def handle_new_def MAX_CHANNELS_def)

lemma handle_inv_entry:
  assumes "handle_inv h" "hm_get (th_channels h) cid = Some e"
  obtains cs where "hm_get (th_store h) (ce_addr e) = Some cs" "th_view h cid = Some (ce_opened e, cs)"
proof -
  from assms have "hm_contains (th_store h) (ce_addr e)"
    by (auto simp: handle_inv_def dest!: hm_get_set)
  then obtain cs where "hm_get (th_store h) (ce_addr e) = Some cs"
    unfolding hm_contains_get by blast
  with assms(2) that show thesis by (simp add: th_view_def)
qed

lemma handle_inv_addr_distinct:
  assumes "handle_inv h" "hm_get (th_channels h) cid = Some e" "hm_get (th_channels h) cid' = Some e'"
    "cid' \<noteq> cid"
  shows "ce_addr e' \<noteq> ce_addr e"
proof
  assume "ce_addr e' = ce_addr e"
  moreover have "inj_on (ce_addr \<circ> snd) (set (th_channels h))" using assms(1) by (simp add: handle_inv_def)
  moreover have "(cid, e) \<in> set (th_channels h)" "(cid', e') \<in> set (th_channels h)"
    using assms(2,3) by (auto dest: hm_get_set)
  ultimately have "(cid', e') = (cid, e)" unfolding inj_on_def by force
  with assms(4) show False by simp
qed

text \<open>The two ways the table changes: the shared part of one channel is rewritten and its
  entry kept (with a new \<open>opened\<close> flag) or removed.\<close>

definition put_channel :: "i32 \<Rightarrow> channel_entry \<Rightarrow> chan_shared \<Rightarrow> bool option \<Rightarrow> tunnel_handle \<Rightarrow> tunnel_handle" where
  "put_channel cid e cs keep h =
     h\<lparr>th_store := hm_insert (ce_addr e) cs (th_store h),
       th_channels := (case keep of
          Some opened \<Rightarrow> hm_insert cid (e\<lparr>ce_opened := opened\<rparr>) (th_channels h)
        | None \<Rightarrow> hm_remove cid (th_channels h))\<rparr>"

lemma hm_insert_same: "hm_get m k = Some v \<Longrightarrow> hm_insert k v m = m"
  by (induction k v m rule: hm_insert.induct) (auto simp: hm_get_def split: if_splits)

lemma put_channel_view:
  assumes "handle_inv h" "hm_get (th_channels h) cid = Some e"
  shows "th_view (put_channel cid e cs keep h) =
    (th_view h)(cid := map_option (\<lambda>opened. (opened, cs)) keep)"
proof
  fix k
  show "th_view (put_channel cid e cs keep h) k =
    ((th_view h)(cid := map_option (\<lambda>opened. (opened, cs)) keep)) k"
  proof (cases "k = cid")
    case True
    then show ?thesis by (cases keep) (auto simp: th_view_def put_channel_def hm_simps)
  next
    case False
    then show ?thesis using handle_inv_addr_distinct [OF assms, of k]
      by (cases keep) (auto simp: th_view_def put_channel_def hm_simps split: option.splits)
  qed
qed

lemma put_channel_inv:
  assumes "handle_inv h" "hm_get (th_channels h) cid = Some e"
  shows "handle_inv (put_channel cid e cs keep h)"
proof -
  note wf = assms(1) [unfolded handle_inv_def]
  have in_store: "hm_contains (th_store h) (ce_addr e)"
    using wf hm_get_set [OF assms(2)] by auto
  have mem: "(cid, e) \<in> set (th_channels h)" using assms(2) by (rule hm_get_set)
  have sub: "set (case keep of Some opened \<Rightarrow> hm_insert cid (e\<lparr>ce_opened := opened\<rparr>) (th_channels h)
      | None \<Rightarrow> hm_remove cid (th_channels h)) \<subseteq>
      {(cid, e') | e'. ce_addr e' = ce_addr e} \<union> {(k, e') \<in> set (th_channels h). k \<noteq> cid}" (is "set ?ch \<subseteq> ?S")
  proof (cases keep)
    case None
    then show ?thesis by (auto simp: hm_remove_def)
  next
    case (Some opened)
    have "ce_addr e' = ce_addr e" if "(cid, e') \<in> set (hm_insert cid (e\<lparr>ce_opened := opened\<rparr>) (th_channels h))" for e'
      using that wf by (auto dest!: hm_wf_get [rotated] simp: hm_get_insert)
    with Some show ?thesis
      using set_hm_insert_subset [of cid "e\<lparr>ce_opened := opened\<rparr>" "th_channels h"] by auto
  qed
  have wfch: "hm_wf ?ch" using wf by (auto split: option.split)
  have inj: "k1 = k2" if "(k1, e1) \<in> set (th_channels h)" "(k2, e2) \<in> set (th_channels h)"
      "ce_addr e1 = ce_addr e2" for k1 e1 k2 e2
    using that wf unfolding inj_on_def by force
  have "inj_on (ce_addr \<circ> snd) (set ?ch)"
  proof (rule inj_onI)
    fix x y assume xy: "x \<in> set ?ch" "y \<in> set ?ch" "(ce_addr \<circ> snd) x = (ce_addr \<circ> snd) y"
    obtain k1 e1 k2 e2 where kv: "x = (k1, e1)" "y = (k2, e2)" by (cases x, cases y)
    have "(k1, e1) \<in> ?S" "(k2, e2) \<in> ?S" "ce_addr e1 = ce_addr e2" using xy sub kv by auto
    then have "k1 = k2" using inj mem by auto
    with kv have "fst x = fst y" by simp
    then show "x = y" using wfch xy hm_wf_get by (metis option.inject prod.collapse)
  qed
  moreover have "length ?ch \<le> length (th_channels h)"
    using assms(2) by (auto simp: length_hm_insert hm_contains_get length_hm_remove split: option.split)
  ultimately show ?thesis
    using wf wfch sub in_store mem
    by (auto simp: handle_inv_def put_channel_def keys_hm_insert hm_contains_keys)
qed

section \<open>Every operation as a change of one channel\<close>

lemma remove_entry_put:
  assumes "handle_inv h" "hm_get (th_channels h) cid = Some e" "hm_get (th_store h) (ce_addr e) = Some cs"
  shows "remove_entry cid f h = put_channel cid e (cs\<lparr>cs_inbound := f (cs_inbound cs)\<rparr>) None h"
  using assms by (simp add: remove_entry_def update_shared_def put_channel_def)

lemma first_report_at_frame:
  "th_channels (snd (first_report_at m now h)) = th_channels h"
  "th_store (snd (first_report_at m now h)) = th_store h"
  "th_next_addr (snd (first_report_at m now h)) = th_next_addr h"
  by (simp_all add: first_report_at_def Let_def)

lemma handle_inv_cong:
  assumes "handle_inv h" "th_channels h' = th_channels h" "th_store h' = th_store h" "th_next_addr h' = th_next_addr h"
  shows "handle_inv h'"
  using assms unfolding handle_inv_def by simp

lemma th_view_cong:
  assumes "th_channels h' = th_channels h" "th_store h' = th_store h"
  shows "th_view h' = th_view h"
  using assms by (auto simp: th_view_def fun_eq_iff split: option.splits)

text \<open>The abstract tunnel: a partial function from ids to channels, and what a frame does to
  the channel it names.\<close>

definition frame_effect :: "pf_frame \<Rightarrow> bool \<times> chan_shared \<Rightarrow> (bool \<times> chan_shared) option" where
  "frame_effect f ch =
     (let (opened, cs) = ch in
      case f of
        FOpened _ True _ w \<Rightarrow>
          (if opened then Some ch else Some (True, cs\<lparr>cs_credit := sc_raise_initial w (cs_credit cs)\<rparr>))
      | FOpened _ False _ _ \<Rightarrow> None
      | FData _ d \<Rightarrow>
          (let (keep, q', w') = deliver_data d (cs_inbound cs) (cs_window cs)
           in if keep then Some (opened, cs\<lparr>cs_inbound := q', cs_window := w'\<rparr>) else None)
      | FClose _ \<Rightarrow> None
      | FWindowUpdate _ n \<Rightarrow> Some (opened, cs\<lparr>cs_credit := sc_add n (cs_credit cs)\<rparr>)
      | _ \<Rightarrow> Some ch)"

lemma on_frame_unknown:
  assumes "frame_id f = Some cid" "hm_get (th_channels h) cid = None"
  shows "on_frame now f h = (None, h)"
  using assms
  by (auto simp: on_frame_def on_opened_def on_data_def remove_entry_def frame_id_def hm_contains_get
      split: pf_frame.splits)

text \<open>A known channel: the new table is a single \<open>put_channel\<close> with the specified effect, up
  to the reported reasons.\<close>

lemma on_frame_known:
  assumes "handle_inv h" "frame_id f = Some cid" "hm_get (th_channels h) cid = Some e"
    and cs: "hm_get (th_store h) (ce_addr e) = Some cs"
  shows "\<exists>cs'. let h' = snd (on_frame now f h); p = put_channel cid e cs' (map_option fst (frame_effect f (ce_opened e, cs))) h
    in th_channels h' = th_channels p \<and> th_store h' = th_store p \<and> th_next_addr h' = th_next_addr p \<and>
       (\<forall>ch. frame_effect f (ce_opened e, cs) = Some ch \<longrightarrow> snd ch = cs')"
proof -
  have same: "e\<lparr>ce_opened := ce_opened e\<rparr> = e" "ce_opened e \<Longrightarrow> e\<lparr>ce_opened := True\<rparr> = e"
    by simp_all
  note put = put_channel_def frame_effect_def frame_id_def on_frame_def Let_def
    hm_insert_same [OF assms(3)] hm_insert_same [OF cs] same
  show ?thesis
  proof (cases f)
    case (FOpened i ok m w)
    then show ?thesis
      using assms by (cases ok; cases "ce_opened e")
        (auto simp: put on_opened_def update_shared_def hm_contains_get remove_entry_put first_report_at_frame
          intro!: exI [of _ cs] exI [of _ "cs\<lparr>cs_credit := sc_raise_initial w (cs_credit cs)\<rparr>"]
            exI [of _ "cs\<lparr>cs_inbound := deliver_close (cs_inbound cs)\<rparr>"])
  next
    case (FData i d)
    then show ?thesis
      using assms by (auto simp: put on_data_def split: prod.splits)
  next
    case (FClose i)
    then show ?thesis using assms by (auto simp: put remove_entry_put)
  next
    case (FWindowUpdate i n)
    then show ?thesis using assms by (auto simp: put update_shared_def)
  next
    case (FOpen i ho po w)
    then show ?thesis using assms by (auto simp: put)
  next
    case FNone
    then show ?thesis using assms by (simp add: frame_id_def)
  qed
qed

lemma on_frame_refines:
  assumes "handle_inv h"
  shows "handle_inv (snd (on_frame now f h)) \<and> th_view (snd (on_frame now f h)) = table_spec frame_id frame_effect f (th_view h)"
proof (cases "frame_id f")
  case None
  then have "f = FNone" by (cases f) (auto simp: frame_id_def)
  with assms show ?thesis by (simp add: on_frame_def table_spec_def frame_id_def)
next
  case (Some cid)
  show ?thesis
  proof (cases "hm_get (th_channels h) cid")
    case None
    with Some assms show ?thesis
      by (auto simp: on_frame_unknown table_spec_def th_view_def fun_eq_iff)
  next
    case e: (Some e)
    obtain cs where cs: "hm_get (th_store h) (ce_addr e) = Some cs" "th_view h cid = Some (ce_opened e, cs)"
      using handle_inv_entry [OF assms e] .
    let ?fx = "frame_effect f (ce_opened e, cs)"
    from on_frame_known [OF assms Some e cs(1), of now] obtain cs'
      where p: "th_channels (snd (on_frame now f h)) = th_channels (put_channel cid e cs' (map_option fst ?fx) h)"
        "th_store (snd (on_frame now f h)) = th_store (put_channel cid e cs' (map_option fst ?fx) h)"
        "th_next_addr (snd (on_frame now f h)) = th_next_addr (put_channel cid e cs' (map_option fst ?fx) h)"
      and cs': "\<forall>ch. ?fx = Some ch \<longrightarrow> snd ch = cs'" unfolding Let_def by blast
    have "handle_inv (snd (on_frame now f h))"
      by (rule handle_inv_cong [OF put_channel_inv [OF assms e] p])
    moreover have "th_view (snd (on_frame now f h)) = (th_view h)(cid := ?fx)"
      unfolding th_view_cong [OF p(1,2)] put_channel_view [OF assms e]
      using cs' by (cases ?fx) auto
    ultimately show ?thesis using Some cs(2) by (simp add: table_spec_def)
  qed
qed

section \<open>Sequences of frames\<close>

definition on_timed_frame :: "nat \<times> pf_frame \<Rightarrow> tunnel_handle \<Rightarrow> tunnel_handle" where
  "on_timed_frame tf h = snd (on_frame (fst tf) (snd tf) h)"

interpretation th: demux on_timed_frame th_view "frame_id \<circ> snd" "frame_effect \<circ> snd" handle_inv "\<lambda>_. True"
proof unfold_locales
  fix h :: tunnel_handle and tf :: "nat \<times> pf_frame"
  assume "handle_inv h"
  from on_frame_refines [OF this, of "fst tf" "snd tf"]
  show "handle_inv (on_timed_frame tf h)"
    and "th_view (on_timed_frame tf h) = table_spec (frame_id \<circ> snd) (frame_effect \<circ> snd) tf (th_view h)"
    by (simp_all add: on_timed_frame_def table_spec_def comp_def)
qed

section \<open>Reports\<close>

definition reports :: "(string \<times> nat) list \<Rightarrow> tunnel_handle \<Rightarrow> tunnel_handle" where
  "reports ms h = fold (\<lambda>(m, now) h. snd (first_report_at m now h)) ms h"

lemma hm_get_retain: "hm_wf m \<Longrightarrow> hm_get (hm_retain P m) k = (case hm_get m k of
    Some v \<Rightarrow> if P k v then Some v else None | None \<Rightarrow> None)"
proof (induction m)
  case (Cons x m)
  obtain k' v where x: "x = (k', v)" by force
  have "hm_wf m" using Cons.prems by (simp add: hm_wf_def)
  moreover have "map_of m k' = None"
    using Cons.prems x by (simp add: hm_wf_def map_of_eq_None_iff)
  ultimately show ?case using Cons.IH x by (auto simp: hm_get_def hm_retain_def split: option.splits)
qed (simp add: hm_get_def hm_retain_def)

lemma first_report_at_wf:
  assumes "hm_wf (th_reported h)" "length (th_reported h) \<le> MAX_REPORTED_OPEN_ERRORS"
  shows "hm_wf (th_reported (snd (first_report_at m now h))) \<and>
    length (th_reported (snd (first_report_at m now h))) \<le> MAX_REPORTED_OPEN_ERRORS"
  using assms length_hm_retain [of "\<lambda>_ last. now - last < REPORT_AGAIN_AFTER" "th_reported h"]
  by (auto simp: first_report_at_def Let_def length_hm_insert)

text \<open>A reason seen at \<open>t\<close> stays remembered while it is young.\<close>

lemma first_report_at_keeps:
  assumes "hm_wf (th_reported h)" "hm_get (th_reported h) m = Some l" "t \<le> l" "t \<le> now"
    "now < t + REPORT_AGAIN_AFTER"
  shows "\<exists>l' \<ge> t. hm_get (th_reported (snd (first_report_at m' now h))) m = Some l'"
proof -
  have "now - l < REPORT_AGAIN_AFTER" using assms by simp
  then have "hm_get (hm_retain (\<lambda>_ last. now - last < REPORT_AGAIN_AFTER) (th_reported h)) m = Some l"
    using assms by (simp add: hm_get_retain)
  then show ?thesis using assms by (auto simp: first_report_at_def Let_def hm_simps)
qed

lemma reports_keep:
  assumes "hm_wf (th_reported h)" "length (th_reported h) \<le> MAX_REPORTED_OPEN_ERRORS"
    and "hm_get (th_reported h) m = Some l" "t \<le> l"
    and "list_all (\<lambda>(_, now). t \<le> now \<and> now < t + REPORT_AGAIN_AFTER) ms"
  shows "hm_wf (th_reported (reports ms h)) \<and> (\<exists>l' \<ge> t. hm_get (th_reported (reports ms h)) m = Some l')"
  using assms
proof (induction ms arbitrary: h l)
  case (Cons x ms)
  obtain m' now where x: "x = (m', now)" by force
  let ?h = "snd (first_report_at m' now h)"
  obtain l' where "l' \<ge> t" "hm_get (th_reported ?h) m = Some l'"
    using first_report_at_keeps [of h m l t now m'] Cons.prems x by auto
  moreover note first_report_at_wf [OF Cons.prems(1,2), of m' now]
  ultimately show ?case using Cons.IH [of ?h l'] Cons.prems x by (simp add: reports_def)
qed (auto simp: reports_def)

lemma first_report_at_Some:
  assumes "first_report_at m t h = (Some r, h')"
  shows "r = m \<and> hm_get (th_reported h') m = Some t"
  using assms by (auto simp: first_report_at_def Let_def hm_simps split: if_splits)

lemma first_report_at_known:
  assumes "hm_wf (th_reported h)" "hm_get (th_reported h) m = Some l" "now - l < REPORT_AGAIN_AFTER"
  shows "fst (first_report_at m now h) = None"
  using assms by (auto simp: first_report_at_def Let_def hm_contains_get hm_get_retain)

section \<open>Properties\<close>

text \<open>C25. The channel table with its shared store implements the abstract tunnel: after any
  sequence of frames from the peer, the live channels, whether each was opened, and the
  queue, credit and window of each are what the per-channel specification says; and the
  table stays well-formed with at most \<open>MAX_CHANNELS\<close> entries.\<close>

theorem tunnel_refines_spec:
  assumes "handle_inv h"
  shows "handle_inv (fold on_timed_frame fs h) \<and> length (th_channels (fold on_timed_frame fs h)) \<le> MAX_CHANNELS \<and>
    th_view (fold on_timed_frame fs h) = fold (table_spec (frame_id \<circ> snd) (frame_effect \<circ> snd)) fs (th_view h)"
proof -
  have p: "list_all (\<lambda>_. True) fs" by (simp add: list_all_iff)
  show ?thesis using th.fold_inv [OF assms p] th.fold_refines [OF assms p] by (simp add: handle_inv_def)
qed

theorem tunnel_refines_spec_witness:
  "handle_inv handle_new \<and> th_view (fold on_timed_frame [(0, FData 5 [1]), (1, FClose 5)] handle_new) =
     fold (table_spec (frame_id \<circ> snd) (frame_effect \<circ> snd)) [(0 :: nat, FData 5 [1]), (1, FClose 5)] (th_view handle_new)"
  using tunnel_refines_spec [OF handle_inv_new, of "[(0, FData 5 [1]), (1, FClose 5)]"] handle_inv_new by blast

text \<open>Channels do not interfere: what a channel looks like after any sequence of frames
  depends only on the frames that name it.\<close>

theorem channels_isolated:
  assumes "handle_inv h"
  shows "th_view (fold on_timed_frame fs h) k =
    th_view (fold on_timed_frame (filter (\<lambda>tf. frame_id (snd tf) = Some k) fs) h) k"
  using th.fold_isolated [OF assms, of fs k] by (simp add: list_all_iff)

theorem channels_isolated_witness:
  "th_view (fold on_timed_frame [(0, FClose 4), (1, FData 5 [1])] handle_new) 5 =
   th_view (on_timed_frame (1, FData 5 [1]) handle_new) 5"
  using channels_isolated [OF handle_inv_new, of "[(0, FClose 4), (1, FData 5 [1])]" 5]
  by (simp add: frame_id_def)

text \<open>C26. With the tunnel up and fewer than \<open>MAX_CHANNELS\<close> channels, \<open>open\<close> always returns,
  wherever the wrapping id counter stands: it probes at most as many ids as there are live
  channels, takes one no live channel has, adds the new channel with fresh credit and
  window, and leaves every other channel as it was.\<close>

theorem open_fresh_channel:
  assumes "handle_inv h" "\<not> sink_is_closed (th_sink h)" "length (th_channels h) < MAX_CHANNELS"
  shows "\<exists>h' k. let cid = th_next_id h + of_nat k in k \<le> length (th_channels h) \<and>
    th_open host port h = Some (Inr (h', cid, th_next_addr h, open_msg cid host port CHANNEL_WINDOW)) \<and>
    th_view h cid = None \<and> th_view h' = (th_view h)(cid \<mapsto> (False, shared_new)) \<and> handle_inv h'"
proof -
  have "length (th_channels h) < 2 ^ 32" using assms(3) by (simp add: mux_consts)
  then obtain k where k: "k \<le> length (th_channels h)" "\<not> hm_contains (th_channels h) (th_next_id h + of_nat k)"
    "alloc_id (th_channels h) (th_next_id h) = Some (th_next_id h + of_nat k, th_next_id h + of_nat k + 1)"
    by (rule alloc_id_total [where n = "th_next_id h"])
  let ?cid = "th_next_id h + of_nat k" and ?a = "th_next_addr h"
  let ?e = "\<lparr>ce_addr = ?a, ce_opened = False\<rparr>"
  let ?h' = "h\<lparr>th_next_id := ?cid + 1, th_channels := hm_insert ?cid ?e (th_channels h),
     th_store := hm_insert ?a shared_new (th_store h), th_next_addr := Suc ?a\<rparr>"
  note wf = assms(1) [unfolded handle_inv_def]
  have fresh: "?a \<notin> fst ` set (th_store h)" using wf by auto
  have new: "hm_get (th_channels h) ?cid = None" using k(2) by (auto simp: hm_contains_get)
  have old: "ce_addr e \<noteq> ?a" if "(c, e) \<in> set (th_channels h)" for c e
    using that wf fresh unfolding hm_contains_keys by fastforce
  have "th_view ?h' = (th_view h)(?cid \<mapsto> (False, shared_new))"
  proof
    fix c
    show "th_view ?h' c = ((th_view h)(?cid \<mapsto> (False, shared_new))) c"
      using old by (auto simp: th_view_def hm_simps split: option.splits dest: hm_get_set)
  qed
  moreover have "handle_inv ?h'"
  proof -
    have sub: "set (hm_insert ?cid ?e (th_channels h)) \<subseteq> insert (?cid, ?e) (set (th_channels h))"
      by (rule set_hm_insert_subset)
    have "?a \<notin> (ce_addr \<circ> snd) ` (set (th_channels h) - {(?cid, ?e)})" using old by force
    then have "inj_on (ce_addr \<circ> snd) (insert (?cid, ?e) (set (th_channels h)))"
      using wf by (simp add: inj_on_insert)
    then have "inj_on (ce_addr \<circ> snd) (set (hm_insert ?cid ?e (th_channels h)))"
      using sub inj_on_subset by blast
    moreover have "\<forall>(c, e) \<in> set (hm_insert ?cid ?e (th_channels h)).
        hm_contains (hm_insert ?a shared_new (th_store h)) (ce_addr e)"
      using sub wf by (fastforce simp: hm_contains_keys keys_hm_insert)
    moreover have "\<forall>a \<in> fst ` set (hm_insert ?a shared_new (th_store h)). a < Suc ?a"
      using wf by (simp add: keys_hm_insert less_SucI)
    ultimately show ?thesis
      using wf k(2) assms(3) by (simp add: handle_inv_def length_hm_insert)
  qed
  moreover have "th_open host port h = Some (Inr (?h', ?cid, ?a, open_msg ?cid host port CHANNEL_WINDOW))"
    using assms k(3) by (simp add: th_open_def Let_def)
  moreover have "th_view h ?cid = None" using new by (simp add: th_view_def)
  ultimately show ?thesis using k(1) unfolding Let_def by blast
qed

theorem open_fresh_channel_witness:
  "\<exists>h' k. k \<le> length (th_channels handle_new) \<and>
     th_open ''db'' 5432 handle_new = Some (Inr (h', 1 + of_nat k, 0, open_msg (1 + of_nat k) ''db'' 5432 CHANNEL_WINDOW))"
  using open_fresh_channel [OF handle_inv_new, of "''db''" 5432]
  by (auto simp: handle_new_def sink_is_closed_def q_new_def mux_consts Let_def)

text \<open>A refusal reported to the user is not reported again within \<open>REPORT_AGAIN_AFTER\<close>,
  whatever other refusals come in between, and at most \<open>MAX_REPORTED_OPEN_ERRORS\<close> reasons are
  remembered.\<close>

theorem report_once:
  assumes "hm_wf (th_reported h)" "length (th_reported h) \<le> MAX_REPORTED_OPEN_ERRORS"
    and "first_report_at m t h = (Some m, h1)"
    and "list_all (\<lambda>(_, now). t \<le> now \<and> now < t + REPORT_AGAIN_AFTER) ms" "t' < t + REPORT_AGAIN_AFTER"
  shows "fst (first_report_at m t' (reports ms h1)) = None \<and> length (th_reported h1) \<le> MAX_REPORTED_OPEN_ERRORS"
proof -
  have h1: "hm_wf (th_reported h1)" "length (th_reported h1) \<le> MAX_REPORTED_OPEN_ERRORS"
    using first_report_at_wf [OF assms(1,2), of m t] assms(3) by auto
  obtain l' where l': "l' \<ge> t" "hm_get (th_reported (reports ms h1)) m = Some l'"
    "hm_wf (th_reported (reports ms h1))"
    using reports_keep [OF h1 _ order_refl assms(4)] first_report_at_Some [OF assms(3)] by blast
  then have "t' - l' < REPORT_AGAIN_AFTER" using assms(5) by (simp add: REPORT_AGAIN_AFTER_def)
  with first_report_at_known [OF l'(3,2)] h1 show ?thesis by blast
qed

theorem report_once_witness:
  "first_report_at ''refused'' 5 handle_new = (Some ''refused'', handle_new\<lparr>th_reported := [(''refused'', 5)]\<rparr>) \<and>
   fst (first_report_at ''refused'' 4000 (reports [(''other'', 7)] (handle_new\<lparr>th_reported := [(''refused'', 5)]\<rparr>))) = None"
proof -
  have f: "first_report_at ''refused'' 5 handle_new = (Some ''refused'', handle_new\<lparr>th_reported := [(''refused'', 5)]\<rparr>)"
    by (simp add: first_report_at_def handle_new_def hm_retain_def hm_contains_def MAX_REPORTED_OPEN_ERRORS_def)
  with report_once [OF _ _ f, of "[(''other'', 7)]" 4000] show ?thesis
    by (simp add: handle_new_def REPORT_AGAIN_AFTER_def)
qed

end
