(* ===== verification/Mux_Server.thy ===== *)
theory Mux_Server
  imports Mux_Demux
begin

text \<open>
  The controlled end of a multiplexed tunnel, \<open>src/server/port_forward_mux.rs\<close>: the
  channel table, the demultiplexer with the checks an \<open>open\<close> has to pass, and the
  life of a channel until its target is connected.  The target's name is normalised by
  \<open>Connection::normalize_port_forward_target\<close> of \<open>src/server/connection.rs\<close>.

  As on the controller, an entry holds the address of what it shares with its task; the
  store keeps the task, its target included.
\<close>

section \<open>State\<close>

definition pending_fits :: "nat \<Rightarrow> nat \<Rightarrow> bool" where
  "pending_fits charged add_len = (min (charged + charge add_len) u64_max \<le> INITIAL_WINDOW)"

datatype conn_phase =
    Connecting (cp_pending: "bytes list") (cp_pending_len: nat)
  | Relaying (cp_initial: "bytes list")
  | Ended

record server_task =
  st_id :: i32
  st_target :: string
  st_is_rdp :: bool
  st_shared :: chan_shared
  st_phase :: conn_phase

record port_forward_mux =
  pm_channels :: "(i32 \<times> nat) list"
  pm_tx :: "pf_frame queue"
  pm_login_target :: string
  pm_teardown :: bool
  pm_store :: "(nat \<times> server_task) list"
  pm_next_addr :: nat

definition mux_new :: "pf_frame queue \<Rightarrow> string \<Rightarrow> port_forward_mux" where
  "mux_new q login_target =
     \<lparr>pm_channels = [], pm_tx = q, pm_login_target = login_target, pm_teardown = False,
      pm_store = [], pm_next_addr = 0\<rparr>"

definition normalize_port_forward_target :: "string \<Rightarrow> int \<Rightarrow> string \<times> bool" where
  "normalize_port_forward_target host port =
     (let (host1, port1, is_rdp) =
            (if host = ''RDP'' \<and> port = 0 then (''localhost'', 3389, True) else (host, port, False));
          host2 = (if host1 = [] then ''localhost'' else host1)
      in (host2 @ '':'' @ show_int port1, is_rdp))"

section \<open>The demultiplexer\<close>

definition reply :: "pf_frame \<Rightarrow> port_forward_mux \<Rightarrow> port_forward_mux" where
  "reply msg m = m\<lparr>pm_tx := q_send msg (pm_tx m)\<rparr>"

definition entry_open :: "port_forward_mux \<Rightarrow> nat \<Rightarrow> bool" where
  "entry_open m a = (case hm_get (pm_store m) a of Some t \<Rightarrow> q_rx (cs_inbound (st_shared t)) | None \<Rightarrow> False)"

definition server_shared :: "nat \<Rightarrow> chan_shared" where
  "server_shared window =
     \<lparr>cs_inbound = q_new, cs_credit = sc_new (effective_window window), cs_window = rw_new INITIAL_WINDOW\<rparr>"

definition on_open :: "i32 \<Rightarrow> string \<Rightarrow> int \<Rightarrow> nat \<Rightarrow> bool \<Rightarrow> port_forward_mux \<Rightarrow> port_forward_mux" where
  "on_open cid host port window permitted m0 =
     (let m = m0\<lparr>pm_channels := hm_retain (\<lambda>_ a. entry_open m0 a) (pm_channels m0)\<rparr> in
      if \<not> permitted then reply (opened_msg cid False ''No permission of IP tunneling'' 0) m
      else if length (pm_channels m) \<ge> MAX_CHANNELS then
        reply (opened_msg cid False ''Too many port forward channels'' 0) m
      else if hm_contains (pm_channels m) cid then m
      else let (addr, is_rdp) = normalize_port_forward_target host port in
        if addr \<noteq> pm_login_target m then
          reply (opened_msg cid False ''Port forward target not authorized'' 0) m
        else let a = pm_next_addr m in
          m\<lparr>pm_channels := hm_insert cid a (pm_channels m),
            pm_store := hm_insert a \<lparr>st_id = cid, st_target = addr, st_is_rdp = is_rdp,
              st_shared = server_shared window, st_phase = Connecting [] 0\<rparr> (pm_store m),
            pm_next_addr := Suc a\<rparr>)"

definition put_task :: "nat \<Rightarrow> server_task \<Rightarrow> chan_shared \<Rightarrow> port_forward_mux \<Rightarrow> port_forward_mux" where
  "put_task a t cs m = m\<lparr>pm_store := hm_insert a (t\<lparr>st_shared := cs\<rparr>) (pm_store m)\<rparr>"

definition pm_remove :: "i32 \<Rightarrow> port_forward_mux \<Rightarrow> port_forward_mux" where
  "pm_remove cid m = m\<lparr>pm_channels := hm_remove cid (pm_channels m)\<rparr>"

definition pm_find :: "port_forward_mux \<Rightarrow> i32 \<Rightarrow> (nat \<times> server_task) option" where
  "pm_find m cid =
     (case hm_get (pm_channels m) cid of
        None \<Rightarrow> None
      | Some a \<Rightarrow> map_option (\<lambda>t. (a, t)) (hm_get (pm_store m) a))"

definition pm_handle :: "pf_frame \<Rightarrow> bool \<Rightarrow> port_forward_mux \<Rightarrow> port_forward_mux" where
  "pm_handle f tunnel_permitted m =
     (case f of
        FOpen cid host port window \<Rightarrow> on_open cid host port window tunnel_permitted m
      | FData cid d \<Rightarrow>
          (case pm_find m cid of
             None \<Rightarrow> m
           | Some (a, t) \<Rightarrow>
               (let (keep, q', w') = deliver_data d (cs_inbound (st_shared t)) (cs_window (st_shared t));
                    m' = put_task a t ((st_shared t)\<lparr>cs_inbound := q', cs_window := w'\<rparr>) m
                in if keep then m' else pm_remove cid m'))
      | FClose cid \<Rightarrow>
          (case pm_find m cid of
             None \<Rightarrow> m
           | Some (a, t) \<Rightarrow>
               pm_remove cid (put_task a t ((st_shared t)\<lparr>cs_inbound := deliver_close (cs_inbound (st_shared t))\<rparr>) m))
      | FWindowUpdate cid add \<Rightarrow>
          (case pm_find m cid of
             None \<Rightarrow> m
           | Some (a, t) \<Rightarrow> put_task a t ((st_shared t)\<lparr>cs_credit := sc_add add (cs_credit (st_shared t))\<rparr>) m)
      | FOpened _ _ _ _ \<Rightarrow> m
      | FNone \<Rightarrow> m)"

definition pm_close_all :: "port_forward_mux \<Rightarrow> port_forward_mux" where
  "pm_close_all m =
     m\<lparr>pm_store := map (\<lambda>(a, t). (a, if a \<in> set (map snd (pm_channels m))
           then t\<lparr>st_shared := (st_shared t)\<lparr>cs_inbound := q_drop_tx (cs_inbound (st_shared t))\<rparr>\<rparr> else t)) (pm_store m),
       pm_channels := [], pm_teardown := True\<rparr>"

section \<open>Until the target is connected\<close>

definition unreachable_message :: "string \<Rightarrow> bool \<Rightarrow> string" where
  "unreachable_message addr is_rdp =
     ''Failed to access remote '' @ (if is_rdp then ''RDP'' else addr) @
     ''. Please make sure it is reachable/open.''"

datatype connect_result = ConnectOk | ConnectFailed string

text \<open>The task leaves: its receiver is dropped with what was queued.\<close>

definition task_leave :: "server_task \<Rightarrow> server_task" where
  "task_leave t = t\<lparr>st_phase := Ended,
     st_shared := (st_shared t)\<lparr>cs_inbound := (cs_inbound (st_shared t))\<lparr>q_items := [], q_rx := False\<rparr>\<rparr>\<rparr>"

text \<open>One turn of the \<open>select!\<close> loop of \<open>run_controlled_channel\<close>: the queue first (it is
  biased), then what the connect resolved to, if it has.  A \<open>Direct\<close> sink never makes the task
  wait; the result is the task and the frames handed to the sink, \<open>None\<close> when nothing is
  ready.\<close>

definition controlled_turn ::
  "connect_result option \<Rightarrow> bool \<Rightarrow> server_task \<Rightarrow> (server_task \<times> pf_frame list) option" where
  "controlled_turn connect sink_open t =
     (let emit = (\<lambda>f. if sink_open then [f] else []); q = cs_inbound (st_shared t) in
      case st_phase t of
        Connecting pending pending_len \<Rightarrow>
          (case q_items q of
             InData b # is \<Rightarrow>
               (if \<not> pending_fits pending_len (length b) then Some (task_leave t, emit (close_msg (st_id t)))
                else Some (t\<lparr>st_phase := Connecting (pending @ [b]) (pending_len + charge (length b)),
                             st_shared := (st_shared t)\<lparr>cs_inbound := q\<lparr>q_items := is\<rparr>\<rparr>\<rparr>, []))
           | InClose # _ \<Rightarrow> Some (task_leave t, [])
           | InViolation # _ \<Rightarrow> Some (task_leave t, emit (close_msg (st_id t)))
           | [] \<Rightarrow>
               (if \<not> q_tx q then Some (task_leave t, [])
                else case connect of
                  None \<Rightarrow> None
                | Some (ConnectFailed _) \<Rightarrow>
                    Some (task_leave t, emit (opened_msg (st_id t) False (unreachable_message (st_target t) (st_is_rdp t)) 0))
                | Some ConnectOk \<Rightarrow>
                    (let t' = t\<lparr>st_shared := (st_shared t)\<lparr>cs_window :=
                                  rw_grant (CHANNEL_WINDOW - INITIAL_WINDOW) (cs_window (st_shared t))\<rparr>\<rparr>
                     in if sink_open
                        then Some (t'\<lparr>st_phase := Relaying pending\<rparr>, [opened_msg (st_id t) True [] CHANNEL_WINDOW])
                        else Some (task_leave t', []))))
      | _ \<Rightarrow> None)"

section \<open>The table against its specification\<close>

definition mux_inv :: "port_forward_mux \<Rightarrow> bool" where
  "mux_inv m = (hm_wf (pm_channels m) \<and> hm_wf (pm_store m) \<and> length (pm_channels m) \<le> MAX_CHANNELS \<and>
     (\<forall>(cid, a) \<in> set (pm_channels m). \<exists>t. hm_get (pm_store m) a = Some t \<and> st_id t = cid) \<and>
     (\<forall>a \<in> fst ` set (pm_store m). a < pm_next_addr m) \<and>
     (\<forall>(a, t) \<in> set (pm_store m). st_target t = pm_login_target m))"

definition pm_view :: "port_forward_mux \<Rightarrow> i32 \<Rightarrow> chan_shared option" where
  "pm_view m cid = map_option (st_shared \<circ> snd) (pm_find m cid)"

definition server_effect :: "pf_frame \<Rightarrow> chan_shared \<Rightarrow> chan_shared option" where
  "server_effect f cs =
     (case f of
        FData _ d \<Rightarrow>
          (let (keep, q', w') = deliver_data d (cs_inbound cs) (cs_window cs)
           in if keep then Some (cs\<lparr>cs_inbound := q', cs_window := w'\<rparr>) else None)
      | FClose _ \<Rightarrow> None
      | FWindowUpdate _ n \<Rightarrow> Some (cs\<lparr>cs_credit := sc_add n (cs_credit cs)\<rparr>)
      | _ \<Rightarrow> Some cs)"

definition not_open :: "pf_frame \<Rightarrow> bool" where
  "not_open f = (case f of FOpen _ _ _ _ \<Rightarrow> False | _ \<Rightarrow> True)"

lemma mux_inv_new: "mux_inv (mux_new q target)"
  by (simp add: mux_inv_def mux_new_def MAX_CHANNELS_def)

lemma pm_find_some:
  assumes "mux_inv m"
  shows "pm_find m cid = Some (a, t) \<longleftrightarrow> hm_get (pm_channels m) cid = Some a \<and> hm_get (pm_store m) a = Some t"
  by (auto simp: pm_find_def split: option.splits)

lemma pm_find_id:
  assumes "mux_inv m" "pm_find m cid = Some (a, t)"
  shows "st_id t = cid"
  using assms by (fastforce simp: pm_find_some mux_inv_def dest: hm_get_set)

lemma pm_find_none: "mux_inv m \<Longrightarrow> pm_find m cid = None \<longleftrightarrow> hm_get (pm_channels m) cid = None"
  by (fastforce simp: pm_find_def mux_inv_def dest: hm_get_set split: option.splits)

lemma put_task_view:
  assumes "mux_inv m" "pm_find m cid = Some (a, t)"
  shows "pm_view (put_task a t cs m) = (pm_view m)(cid \<mapsto> cs)"
proof
  fix k
  have "a' \<noteq> a" if "hm_get (pm_channels m) k = Some a'" "k \<noteq> cid" for a'
  proof
    assume "a' = a"
    with that assms have "pm_find m k = Some (a, t)" by (simp add: pm_find_some)
    with assms that(2) pm_find_id show False by metis
  qed
  with assms show "pm_view (put_task a t cs m) k = ((pm_view m)(cid \<mapsto> cs)) k"
    by (cases "k = cid") (auto simp: pm_view_def pm_find_def put_task_def hm_simps split: option.splits)
qed

lemma put_task_inv:
  assumes "mux_inv m" "pm_find m cid = Some (a, t)"
  shows "mux_inv (put_task a t cs m)"
proof -
  note inv = assms(1) [unfolded mux_inv_def]
  have t: "hm_get (pm_store m) a = Some t" using assms by (simp add: pm_find_some)
  have "\<exists>t'. hm_get (hm_insert a (t\<lparr>st_shared := cs\<rparr>) (pm_store m)) b = Some t' \<and> st_id t' = c"
    if "(c, b) \<in> set (pm_channels m)" for c b
    using that inv t by (fastforce simp: hm_simps)
  moreover have "st_target t' = pm_login_target m"
    if "(b, t') \<in> set (hm_insert a (t\<lparr>st_shared := cs\<rparr>) (pm_store m))" for b t'
  proof -
    have "(b, t') = (a, t\<lparr>st_shared := cs\<rparr>) \<or> (b, t') \<in> set (pm_store m)"
      using that set_hm_insert_subset [of a "t\<lparr>st_shared := cs\<rparr>" "pm_store m"] by blast
    with inv hm_get_set [OF t] show ?thesis by auto
  qed
  moreover have "a < pm_next_addr m" using inv hm_get_set [OF t] by force
  ultimately show ?thesis
    using inv by (auto simp: mux_inv_def put_task_def keys_hm_insert)
qed

lemma pm_channels_inv:
  assumes "mux_inv m" "set ch \<subseteq> set (pm_channels m)" "length ch \<le> length (pm_channels m)" "hm_wf ch"
  shows "mux_inv (m\<lparr>pm_channels := ch\<rparr>)"
  using assms unfolding mux_inv_def by (simp add: subset_eq)

lemma pm_remove_inv: "mux_inv m \<Longrightarrow> mux_inv (pm_remove cid m)"
  unfolding pm_remove_def
  by (rule pm_channels_inv) (auto simp: set_hm_remove_subset length_hm_remove mux_inv_def)

lemma pm_remove_view: "pm_view (pm_remove cid m) = (pm_view m)(cid := None)"
  by (auto simp: fun_eq_iff pm_view_def pm_find_def pm_remove_def hm_simps split: option.splits)

lemma pm_view_find: "pm_find m cid = Some (a, t) \<Longrightarrow> pm_view m cid = Some (st_shared t)"
  by (simp add: pm_view_def)

lemma pm_handle_step:
  assumes "mux_inv m" "not_open f"
  shows "mux_inv (pm_handle f b m) \<and> pm_view (pm_handle f b m) = table_spec frame_id server_effect f (pm_view m)"
proof -
  have none: "(pm_view m)(cid := None) = pm_view m" if "pm_find m cid = None" for cid
    using that by (auto simp: pm_view_def)
  have known: "mux_inv (put_task a t cs m)" "mux_inv (pm_remove cid (put_task a t cs m))"
    "pm_view (put_task a t cs m) = (pm_view m)(cid \<mapsto> cs)"
    "pm_view (pm_remove cid (put_task a t cs m)) = (pm_view m)(cid := None)"
    "pm_view m cid = Some (st_shared t)"
    if "pm_find m cid = Some (a, t)" for cid a t cs
    using put_task_inv [OF assms(1) that] put_task_view [OF assms(1) that] pm_view_find [OF that]
    by (simp_all add: pm_remove_inv pm_remove_view)
  have keep: "(pm_view m)(cid := pm_view m cid) = pm_view m" for cid by simp
  show ?thesis
  proof (cases f)
    case (FOpened cid ok msg w)
    then show ?thesis using assms
      by (auto simp: pm_handle_def table_spec_def frame_id_def server_effect_def split: option.splits)
  next
    case (FData cid d)
    then show ?thesis using assms known none
      by (cases "pm_find m cid")
        (auto simp: pm_handle_def table_spec_def frame_id_def server_effect_def pm_view_def split: prod.splits)
  next
    case (FClose cid)
    then show ?thesis using assms known none
      by (cases "pm_find m cid")
        (auto simp: pm_handle_def table_spec_def frame_id_def server_effect_def pm_view_def)
  next
    case (FWindowUpdate cid n)
    then show ?thesis using assms known none
      by (cases "pm_find m cid")
        (auto simp: pm_handle_def table_spec_def frame_id_def server_effect_def pm_view_def)
  qed (use assms in \<open>simp_all add: pm_handle_def table_spec_def frame_id_def not_open_def\<close>)
qed

definition pm_frame :: "pf_frame \<times> bool \<Rightarrow> port_forward_mux \<Rightarrow> port_forward_mux" where
  "pm_frame fp m = pm_handle (fst fp) (snd fp) m"

interpretation pm: demux pm_frame pm_view "frame_id \<circ> fst" "server_effect \<circ> fst" mux_inv "not_open \<circ> fst"
proof unfold_locales
  fix m :: port_forward_mux and fp :: "pf_frame \<times> bool"
  assume "mux_inv m" "(not_open \<circ> fst) fp"
  then have "not_open (fst fp)" by simp
  from pm_handle_step [OF \<open>mux_inv m\<close> this, of "snd fp"]
  show "mux_inv (pm_frame fp m)"
    and "pm_view (pm_frame fp m) = table_spec (frame_id \<circ> fst) (server_effect \<circ> fst) fp (pm_view m)"
    by (simp_all add: pm_frame_def table_spec_def comp_def)
qed

section \<open>Opening\<close>

definition live_channels :: "port_forward_mux \<Rightarrow> (i32 \<times> nat) list" where
  "live_channels m = hm_retain (\<lambda>_ a. entry_open m a) (pm_channels m)"

text \<open>What an \<open>open\<close> has to pass.\<close>

definition open_allowed :: "i32 \<Rightarrow> string \<Rightarrow> int \<Rightarrow> bool \<Rightarrow> port_forward_mux \<Rightarrow> bool" where
  "open_allowed cid host port permitted m =
     (permitted \<and> length (live_channels m) < MAX_CHANNELS \<and> \<not> hm_contains (live_channels m) cid \<and>
      fst (normalize_port_forward_target host port) = pm_login_target m)"

lemma on_open_refused:
  assumes "\<not> open_allowed cid host port permitted m"
  shows "\<exists>fs. on_open cid host port window permitted m =
      m\<lparr>pm_channels := live_channels m, pm_tx := fold q_send fs (pm_tx m)\<rparr> \<and>
      (fs = [] \<or> (\<exists>reason. fs = [opened_msg cid False reason 0]))"
proof (cases "permitted \<and> length (live_channels m) < MAX_CHANNELS \<and> hm_contains (live_channels m) cid")
  case True
  then have "on_open cid host port window permitted m = m\<lparr>pm_channels := live_channels m, pm_tx := fold q_send [] (pm_tx m)\<rparr>"
    by (simp add: on_open_def live_channels_def)
  then show ?thesis by blast
next
  case False
  with assms have "\<exists>reason. on_open cid host port window permitted m =
      m\<lparr>pm_channels := live_channels m, pm_tx := fold q_send [opened_msg cid False reason 0] (pm_tx m)\<rparr>"
    by (auto simp: on_open_def live_channels_def open_allowed_def reply_def Let_def split: prod.splits if_splits)
  then show ?thesis by blast
qed

lemma on_open_accepted:
  assumes "open_allowed cid host port permitted m"
  shows "on_open cid host port window permitted m =
      m\<lparr>pm_channels := hm_insert cid (pm_next_addr m) (live_channels m),
        pm_store := hm_insert (pm_next_addr m) \<lparr>st_id = cid, st_target = pm_login_target m,
          st_is_rdp = snd (normalize_port_forward_target host port),
          st_shared = server_shared window, st_phase = Connecting [] 0\<rparr> (pm_store m),
        pm_next_addr := Suc (pm_next_addr m)\<rparr>"
  using assms by (auto simp: on_open_def open_allowed_def live_channels_def Let_def split: prod.splits)

lemma live_channels_inv: "mux_inv m \<Longrightarrow> mux_inv (m\<lparr>pm_channels := live_channels m\<rparr>)"
  by (rule pm_channels_inv) (auto simp: live_channels_def length_hm_retain mux_inv_def hm_retain_def intro: hm_wf_filter)

lemma mux_inv_tx: "mux_inv m \<Longrightarrow> mux_inv (m\<lparr>pm_tx := q\<rparr>)"
  by (simp add: mux_inv_def)

lemma new_task_inv:
  assumes "mux_inv m" "length (pm_channels m) < MAX_CHANNELS" "st_id t = cid" "st_target t = pm_login_target m"
  shows "mux_inv (m\<lparr>pm_channels := hm_insert cid (pm_next_addr m) (pm_channels m),
    pm_store := hm_insert (pm_next_addr m) t (pm_store m), pm_next_addr := Suc (pm_next_addr m)\<rparr>)"
proof -
  note inv = assms(1) [unfolded mux_inv_def]
  let ?a = "pm_next_addr m"
  have fresh: "?a \<notin> fst ` set (pm_store m)" using inv by auto
  have "\<exists>t'. hm_get (hm_insert ?a t (pm_store m)) b = Some t' \<and> st_id t' = c"
    if m: "(c, b) \<in> set (hm_insert cid ?a (pm_channels m))" for c b
  proof -
    have "(c, b) = (cid, ?a) \<or> (c, b) \<in> set (pm_channels m)" using m by (rule in_hm_insert)
    then show ?thesis
    proof
      assume "(c, b) \<in> set (pm_channels m)"
      then obtain t' where t': "hm_get (pm_store m) b = Some t'" "st_id t' = c" using inv by blast
      then have "b \<noteq> ?a" using fresh hm_get_set by force
      with t' show ?thesis by (simp add: hm_simps)
    qed (simp add: hm_simps assms(3))
  qed
  moreover have "st_target t' = pm_login_target m" if m: "(b, t') \<in> set (hm_insert ?a t (pm_store m))" for b t'
  proof -
    have "(b, t') = (?a, t) \<or> (b, t') \<in> set (pm_store m)" using m by (rule in_hm_insert)
    then show ?thesis using inv assms(4) by auto
  qed
  ultimately show ?thesis
    using inv assms(2) by (auto simp: mux_inv_def keys_hm_insert length_hm_insert)
qed

lemma on_open_inv:
  assumes "mux_inv m"
  shows "mux_inv (on_open cid host port window permitted m)"
proof (cases "open_allowed cid host port permitted m")
  case True
  then show ?thesis
    using new_task_inv [OF live_channels_inv [OF assms], of "\<lparr>st_id = cid, st_target = pm_login_target m,
          st_is_rdp = snd (normalize_port_forward_target host port),
          st_shared = server_shared window, st_phase = Connecting [] 0\<rparr>" cid]
    by (simp add: on_open_accepted) (simp add: open_allowed_def)
next
  case False
  then show ?thesis using on_open_refused [OF False, of window] mux_inv_tx [OF live_channels_inv [OF assms]]
      live_channels_inv [OF assms] by auto
qed

lemma pm_handle_inv: "mux_inv m \<Longrightarrow> mux_inv (pm_handle f b m)"
  using pm_handle_step [of m f b] on_open_inv by (cases f) (simp_all add: not_open_def pm_handle_def)

section \<open>Everything that can happen to a tunnel\<close>

inductive mux_reach :: "string \<Rightarrow> port_forward_mux \<Rightarrow> bool" for target :: string where
  mr_new: "mux_reach target (mux_new q target)"
| mr_frame: "mux_reach target m \<Longrightarrow> mux_reach target (pm_handle f permitted m)"
| mr_turn: "mux_reach target m \<Longrightarrow> hm_get (pm_store m) a = Some t \<Longrightarrow>
    controlled_turn c (q_rx (pm_tx m)) t = Some (t', fs) \<Longrightarrow>
    mux_reach target (m\<lparr>pm_store := hm_insert a t' (pm_store m), pm_tx := fold q_send fs (pm_tx m)\<rparr>)"
| mr_relay: "mux_reach target m \<Longrightarrow> hm_get (pm_store m) a = Some t \<Longrightarrow> st_phase t = Relaying p \<Longrightarrow>
    mux_reach target (put_task a t cs m)"
| mr_writer: "mux_reach target m \<Longrightarrow> mux_reach target (m\<lparr>pm_tx := q\<rparr>)"
| mr_close_all: "mux_reach target m \<Longrightarrow> mux_reach target (pm_close_all m)"

lemma controlled_turn_task:
  assumes "controlled_turn c s t = Some (t', fs)"
  shows "st_id t' = st_id t \<and> st_target t' = st_target t"
  using assms
  by (auto simp: controlled_turn_def task_leave_def Let_def
      split: conn_phase.splits list.splits inbound.splits if_splits option.splits connect_result.splits)

lemma store_update_inv:
  assumes "mux_inv m" "hm_get (pm_store m) a = Some t" "st_id t' = st_id t" "st_target t' = st_target t"
  shows "mux_inv (m\<lparr>pm_store := hm_insert a t' (pm_store m)\<rparr>)"
proof -
  note inv = assms(1) [unfolded mux_inv_def]
  have "\<exists>t''. hm_get (hm_insert a t' (pm_store m)) b = Some t'' \<and> st_id t'' = c"
    if "(c, b) \<in> set (pm_channels m)" for c b
    using that inv assms by (fastforce simp: hm_simps)
  moreover have "st_target t'' = pm_login_target m" if m: "(b, t'') \<in> set (hm_insert a t' (pm_store m))" for b t''
  proof -
    have "(b, t'') = (a, t') \<or> (b, t'') \<in> set (pm_store m)" using m by (rule in_hm_insert)
    with inv hm_get_set [OF assms(2)] assms(4) show ?thesis by auto
  qed
  moreover have "a < pm_next_addr m" using inv hm_get_set [OF assms(2)] by force
  ultimately show ?thesis using inv by (auto simp: mux_inv_def keys_hm_insert)
qed

lemma pm_close_all_inv:
  assumes "mux_inv m"
  shows "mux_inv (pm_close_all m)"
proof -
  note inv = assms [unfolded mux_inv_def]
  have "map fst (pm_store (pm_close_all m)) = map fst (pm_store m)"
    by (simp add: pm_close_all_def case_prod_unfold comp_def)
  then have "hm_wf (pm_store (pm_close_all m))" "fst ` set (pm_store (pm_close_all m)) = fst ` set (pm_store m)"
    using inv by (simp add: hm_wf_def, metis list.set_map)
  with inv show ?thesis by (auto simp: mux_inv_def pm_close_all_def)
qed

lemma login_target_fixed:
  "pm_login_target (pm_handle f b m) = pm_login_target m"
  "pm_login_target (put_task a t cs m) = pm_login_target m"
  "pm_login_target (pm_close_all m) = pm_login_target m"
  by (auto simp: pm_handle_def on_open_def reply_def put_task_def pm_remove_def pm_close_all_def Let_def
      split: pf_frame.splits option.splits prod.splits)

lemma mux_reach_inv: "mux_reach target m \<Longrightarrow> mux_inv m \<and> pm_login_target m = target"
proof (induction rule: mux_reach.induct)
  case (mr_new q)
  then show ?case using mux_inv_new by (simp add: mux_new_def)
next
  case (mr_frame m f permitted)
  then show ?case by (simp add: pm_handle_inv login_target_fixed)
next
  case (mr_turn m a t c t' fs)
  then have "mux_inv (m\<lparr>pm_store := hm_insert a t' (pm_store m)\<rparr>)"
    using controlled_turn_task store_update_inv by metis
  from mux_inv_tx [OF this] mr_turn show ?case by simp
next
  case (mr_relay m a t p cs)
  then show ?case using store_update_inv [of m a t "t\<lparr>st_shared := cs\<rparr>"] by (simp add: put_task_def)
next
  case (mr_writer m q)
  then show ?case by (simp add: mux_inv_tx)
next
  case (mr_close_all m)
  then show ?case by (simp add: pm_close_all_inv login_target_fixed)
qed

section \<open>What a connecting channel holds\<close>

inductive ctl_step :: "server_task \<times> bool \<Rightarrow> server_task \<times> bool \<Rightarrow> bool" where
  ctl_data: "deliver_data d (cs_inbound (st_shared t)) (cs_window (st_shared t)) = (keep, q', w') \<Longrightarrow>
    ctl_step (t, True) (t\<lparr>st_shared := (st_shared t)\<lparr>cs_inbound := q', cs_window := w'\<rparr>\<rparr>, keep)"
| ctl_close: "ctl_step (t, True)
    (t\<lparr>st_shared := (st_shared t)\<lparr>cs_inbound := deliver_close (cs_inbound (st_shared t))\<rparr>\<rparr>, False)"
| ctl_credit: "ctl_step (t, True)
    (t\<lparr>st_shared := (st_shared t)\<lparr>cs_credit := sc_add n (cs_credit (st_shared t))\<rparr>\<rparr>, True)"
| ctl_turn: "controlled_turn c s t = Some (t', fs) \<Longrightarrow> ctl_step (t, live) (t', live)"

inductive ctl_reach :: "server_task \<Rightarrow> server_task \<times> bool \<Rightarrow> bool" for t0 :: server_task where
  ctl_start: "ctl_reach t0 (t0, True)"
| ctl_more: "ctl_reach t0 x \<Longrightarrow> ctl_step x y \<Longrightarrow> ctl_reach t0 y"

definition task_paid :: "server_task \<Rightarrow> nat" where
  "task_paid t = rw_remaining (cs_window (st_shared t)) + chunk_cost (queued_chunks (cs_inbound (st_shared t)))"

definition ctl_ok :: "server_task \<Rightarrow> bool" where
  "ctl_ok t = (rw_drained_since_update (cs_window (st_shared t)) = 0 \<and>
     (case st_phase t of
        Connecting p n \<Rightarrow> n = chunk_cost p \<and> task_paid t + n = INITIAL_WINDOW
      | Relaying p \<Rightarrow> task_paid t + chunk_cost p = CHANNEL_WINDOW
      | Ended \<Rightarrow> True))"

lemma deliver_data_paid:
  assumes "deliver_data d q w = (keep, q', w')" "q_rx q"
  shows "rw_drained_since_update w' = rw_drained_since_update w \<and> q_rx q' \<and>
    rw_remaining w' + chunk_cost (queued_chunks q') = rw_remaining w + chunk_cost (queued_chunks q)"
proof -
  obtain ok w1 where a: "rw_accept (length d) w = (ok, w1)" by force
  show ?thesis
  proof (cases ok)
    case True
    with a have "rw_accept (length d) w = (True, w1)" by simp
    from rw_accept_True [OF this] True assms a show ?thesis
      by (auto simp: deliver_data_def q_send_def q_push_def queued_chunks_def)
  next
    case False
    with a have "rw_accept (length d) w = (False, w1)" by simp
    from rw_accept_False [OF this] False assms a show ?thesis
      by (auto simp: deliver_data_def q_send_def q_push_def q_drop_tx_def queued_chunks_def)
  qed
qed

text \<open>The receiving end of the queue lives as long as the task.\<close>

definition rx_alive :: "server_task \<Rightarrow> bool" where
  "rx_alive t = (st_phase t \<noteq> Ended \<longrightarrow> q_rx (cs_inbound (st_shared t)))"

text \<open>A frame the window let through always fits the buffer, so the buffer check never ends a
  connecting channel.\<close>

lemma pending_fits_paid:
  assumes "ctl_ok t" "st_phase t = Connecting p n" "q_items (cs_inbound (st_shared t)) = InData b # is"
  shows "pending_fits n (length b)"
  using assms by (auto simp: ctl_ok_def task_paid_def queued_chunks_def pending_fits_def)

lemma controlled_turn_ok:
  assumes "controlled_turn c s t = Some (t', fs)" "ctl_ok t" "rx_alive t"
  shows "ctl_ok t' \<and> rx_alive t'"
proof -
  obtain p n where ph: "st_phase t = Connecting p n"
    using assms(1) by (cases "st_phase t") (auto simp: controlled_turn_def Let_def)
  show ?thesis
  proof (cases "q_items (cs_inbound (st_shared t))")
    case Nil
    have "sat_add32 (rw_remaining (cs_window (st_shared t))) (CHANNEL_WINDOW - INITIAL_WINDOW) =
        rw_remaining (cs_window (st_shared t)) + (CHANNEL_WINDOW - INITIAL_WINDOW)"
      using assms(2) ph by (intro sat_add32_exact) (auto simp: ctl_ok_def task_paid_def mux_consts u32_max_def)
    with assms ph Nil show ?thesis
      by (auto simp: controlled_turn_def ctl_ok_def rx_alive_def task_leave_def task_paid_def queued_chunks_def
          rw_grant_def mux_consts Let_def split: option.splits connect_result.splits if_splits)
  next
    case (Cons i rest)
    with pending_fits_paid [OF assms(2) ph] assms ph show ?thesis
      by (cases i) (auto simp: controlled_turn_def ctl_ok_def rx_alive_def task_leave_def task_paid_def
          queued_chunks_def Let_def)
  qed
qed

lemma ctl_step_ok:
  assumes "ctl_step x y" "ctl_ok (fst x)" "rx_alive (fst x)"
  shows "ctl_ok (fst y) \<and> rx_alive (fst y)"
  using assms
proof (cases rule: ctl_step.cases)
  case (ctl_data d t keep q' w')
  show ?thesis
  proof (cases "st_phase t")
    case Ended
    have "rw_drained_since_update w' = rw_drained_since_update (cs_window (st_shared t))"
      using ctl_data(3) rw_accept_True rw_accept_False
      by (auto simp: deliver_data_def Let_def split: prod.splits if_splits) (metis (full_types))+
    with Ended ctl_data assms show ?thesis by (simp add: ctl_ok_def rx_alive_def)
  qed (use ctl_data assms deliver_data_paid [OF ctl_data(3)] in
      \<open>auto simp: ctl_ok_def rx_alive_def task_paid_def\<close>)
next
  case (ctl_close t)
  with assms show ?thesis
    by (auto simp: ctl_ok_def rx_alive_def task_paid_def deliver_close_def q_drop_tx_def q_send_def q_push_def
        queued_chunks_def split: conn_phase.splits)
next
  case (ctl_credit t n)
  with assms show ?thesis by (auto simp: ctl_ok_def rx_alive_def task_paid_def split: conn_phase.splits)
next
  case (ctl_turn c s t t' fs live)
  with assms controlled_turn_ok show ?thesis by auto
qed

lemma ctl_reach_ok:
  assumes "ctl_reach t0 x" "ctl_ok t0" "rx_alive t0"
  shows "ctl_ok (fst x) \<and> rx_alive (fst x)"
  using assms by (induction rule: ctl_reach.induct) (auto dest: ctl_step_ok)

section \<open>The target's name\<close>

definition target_host_port :: "string \<Rightarrow> int \<Rightarrow> string \<times> int" where
  "target_host_port host port =
     (if host = ''RDP'' \<and> port = 0 then (''localhost'', 3389) else if host = [] then (''localhost'', port) else (host, port))"

lemma normalize_text:
  "fst (normalize_port_forward_target host port) =
     fst (target_host_port host port) @ CHR '':'' # show_int (snd (target_host_port host port))"
  by (simp add: normalize_port_forward_target_def target_host_port_def)

section \<open>Properties\<close>

text \<open>C16. Whatever frames a peer sends, with any sequence of permission answers, connects, relays
  and closes, the controlled side never has more than \<open>MAX_CHANNELS\<close> channels and never dials
  anything but the one target the login was approved for.\<close>

theorem only_login_target:
  assumes "mux_reach target m"
  shows "length (pm_channels m) \<le> MAX_CHANNELS \<and> (\<forall>(a, t) \<in> set (pm_store m). st_target t = target)"
  using mux_reach_inv [OF assms] by (auto simp: mux_inv_def)

theorem only_login_target_witness:
  "mux_reach ''localhost:3389'' (pm_handle (FOpen 1 ''RDP'' 0 0) True (mux_new q_new ''localhost:3389'')) \<and>
   length (pm_channels (pm_handle (FOpen 1 ''RDP'' 0 0) True (mux_new q_new ''localhost:3389''))) \<le> MAX_CHANNELS"
proof -
  have r: "mux_reach ''localhost:3389'' (pm_handle (FOpen 1 ''RDP'' 0 0) True (mux_new q_new ''localhost:3389''))"
    by (intro mr_frame mr_new)
  from only_login_target [OF r] r show ?thesis by simp
qed

text \<open>An \<open>open\<close> starts a channel exactly when tunnelling is permitted, fewer than
  \<open>MAX_CHANNELS\<close> channels are live, no live channel has the id and the target is the approved
  one; the new channel has its own credit and the initial window, the other live channels keep
  theirs.  Otherwise nothing is started and at most one refusal is sent.\<close>

theorem open_decision:
  assumes "mux_inv m" and m'_def: "m' = pm_handle (FOpen cid host port window) permitted m"
  shows "if open_allowed cid host port permitted m
     then pm_view m' = (pm_view (m\<lparr>pm_channels := live_channels m\<rparr>))(cid \<mapsto> server_shared window) \<and> pm_tx m' = pm_tx m
     else pm_view m' = pm_view (m\<lparr>pm_channels := live_channels m\<rparr>) \<and> pm_store m' = pm_store m \<and>
       (\<exists>fs. pm_tx m' = fold q_send fs (pm_tx m) \<and> (fs = [] \<or> (\<exists>reason. fs = [opened_msg cid False reason 0])))"
proof (cases "open_allowed cid host port permitted m")
  case True
  note inv = live_channels_inv [OF assms(1), unfolded mux_inv_def, simplified]
  have old: "a \<noteq> pm_next_addr m" if "hm_get (live_channels m) k = Some a" for k a
    using hm_get_set [OF that] inv by (force dest!: hm_get_set)
  have "pm_view m' k = ((pm_view (m\<lparr>pm_channels := live_channels m\<rparr>))(cid \<mapsto> server_shared window)) k" for k
    using old [of k] by (auto simp: m'_def pm_handle_def on_open_accepted [OF True] pm_view_def pm_find_def hm_simps
        split: option.splits)
  then show ?thesis using True by (auto simp: m'_def pm_handle_def on_open_accepted)
next
  case False
  from on_open_refused [OF False, of window] obtain fs
    where fs: "m' = m\<lparr>pm_channels := live_channels m, pm_tx := fold q_send fs (pm_tx m)\<rparr>"
      "fs = [] \<or> (\<exists>reason. fs = [opened_msg cid False reason 0])"
    by (auto simp: m'_def pm_handle_def)
  have "pm_view m' = pm_view (m\<lparr>pm_channels := live_channels m\<rparr>)"
    using fs(1) by (simp add: pm_view_def pm_find_def fun_eq_iff split: option.splits)
  with False fs show ?thesis by auto
qed

theorem open_decision_witness:
  "pm_view (pm_handle (FOpen 1 ''RDP'' 0 0) True (mux_new q_new ''localhost:3389'')) 1 = Some (server_shared 0)"
proof -
  let ?m = "mux_new q_new ''localhost:3389''"
  have "fst (normalize_port_forward_target ''RDP'' 0) = ''localhost:3389''" by code_simp
  then have "open_allowed 1 ''RDP'' 0 True ?m"
    by (simp add: open_allowed_def mux_new_def live_channels_def hm_retain_def hm_contains_def MAX_CHANNELS_def)
  with open_decision [OF mux_inv_new refl, of 1 "''RDP''" 0 True q_new "''localhost:3389''" 0]
  show ?thesis by (simp add: fun_upd_apply)
qed

text \<open>Two requests that name the same address name the same host and port: the text
  compared with the approved target is unambiguous.\<close>

theorem target_unambiguous:
  assumes "fst (normalize_port_forward_target h p) = fst (normalize_port_forward_target h' p')"
  shows "target_host_port h p = target_host_port h' p'"
proof -
  from split_last_unique [OF assms [unfolded normalize_text] show_int_no_colon show_int_no_colon]
  show ?thesis using show_int_inj by (auto simp: prod_eq_iff)
qed

theorem target_unambiguous_witness:
  "target_host_port ''RDP'' 0 = target_host_port [] 3389"
  by (rule target_unambiguous) (simp add: normalize_port_forward_target_def)

text \<open>On the controlled side a peer makes a channel hold at most \<open>INITIAL_WINDOW\<close> bytes while
  its target is being dialled and at most \<open>CHANNEL_WINDOW\<close> once it relays, whatever it sends and
  however its frames interleave with the connect.\<close>

theorem controlled_memory_bound:
  assumes "ctl_reach \<lparr>st_id = cid, st_target = addr, st_is_rdp = rdp, st_shared = server_shared window,
      st_phase = Connecting [] 0\<rparr> (t, live)"
  shows "case st_phase t of
      Connecting p n \<Rightarrow> sum_list (map length (p @ queued_chunks (cs_inbound (st_shared t)))) \<le> INITIAL_WINDOW
    | Relaying p \<Rightarrow> (\<forall>r. rx_steps cid \<lparr>rx_window = cs_window (st_shared t), rx_queue = cs_inbound (st_shared t),
          rx_t2s = t2s_new p, rx_sink = sink, rx_live = live\<rparr> r \<longrightarrow>
        sum_list (map length (held_chunks (rx_t2s r) (rx_queue r))) \<le> CHANNEL_WINDOW)
    | Ended \<Rightarrow> True"
proof -
  have "ctl_ok \<lparr>st_id = cid, st_target = addr, st_is_rdp = rdp, st_shared = server_shared window,
      st_phase = Connecting [] 0\<rparr>"
    by (simp add: ctl_ok_def task_paid_def server_shared_def rw_new_def effective_window_def queued_chunks_def q_new_def)
  with ctl_reach_ok [OF assms] have ok: "ctl_ok t"
    by (simp add: rx_alive_def server_shared_def q_new_def)
  show ?thesis
  proof (cases "st_phase t")
    case (Connecting p n)
    let ?cs = "p @ queued_chunks (cs_inbound (st_shared t))"
    have "rw_remaining (cs_window (st_shared t)) + rw_drained_since_update (cs_window (st_shared t)) +
        sum_list (map charge (map length ?cs)) \<le> INITIAL_WINDOW"
      using ok Connecting by (simp add: ctl_ok_def task_paid_def chunk_cost_def)
    from rw.held_bound [OF this] Connecting show ?thesis by (simp add: INITIAL_WINDOW_def u32_max_def)
  next
    case (Relaying p)
    then show ?thesis using ok rx_held_bound
      by (auto simp: ctl_ok_def task_paid_def rx_charged_def t2s_new_def held_chunks_def writing_chunk_def)
  qed simp
qed

theorem controlled_memory_bound_witness:
  "ctl_reach \<lparr>st_id = 2, st_target = ''h:1'', st_is_rdp = False, st_shared = server_shared 0, st_phase = Connecting [] 0\<rparr>
     (\<lparr>st_id = 2, st_target = ''h:1'', st_is_rdp = False, st_shared = server_shared 0, st_phase = Connecting [] 0\<rparr>, True) \<and>
   sum_list (map length (queued_chunks (cs_inbound (server_shared 0)))) \<le> INITIAL_WINDOW"
  using controlled_memory_bound [OF ctl_start, of 2 "''h:1''" False 0] ctl_start by simp

end
