(* ===== verification/Mux_System.thy ===== *)
theory Mux_System
  imports Mux_Tunnel Mux_Server
begin

text \<open>
  One direction of a channel end to end: the relay that reads the local socket at one
  end, the frames in flight both ways, the demultiplexer, the connect phase and the relay
  that writes the socket at the other end.  The steps are the operations of the two
  components; the transport delivers each queue in order.  Other channels, and this
  channel's other direction, put their own frames into the same queues.
\<close>

section \<open>State and steps\<close>

definition sink_ordered :: "frame_sink \<Rightarrow> pf_frame list" where
  "sink_ordered s = (case s of Queued d c \<Rightarrow> q_items d | Direct t \<Rightarrow> q_items t)"

definition sink_frames :: "frame_sink \<Rightarrow> pf_frame list" where
  "sink_frames s = (case s of Queued d c \<Rightarrow> q_items d @ q_items c | Direct t \<Rightarrow> q_items t)"

text \<open>\<open>fl_out_sink\<close> carries the data, \<open>fl_back_sink\<close> the grants.  \<open>fl_recv\<close> is the receiving
  task: while it connects it buffers, then \<open>fl_t2s\<close> relays.  \<open>fl_broken\<close> is set when the receiver
  drops the channel for overrunning its window.\<close>

record flow =
  fl_s2t :: s2t
  fl_send :: "bool \<times> chan_shared"
  fl_out_sink :: frame_sink
  fl_recv :: server_task
  fl_t2s :: t2s
  fl_back_sink :: frame_sink
  fl_sock :: bytes
  fl_written :: bytes
  fl_broken :: bool

definition fl_credit :: "flow \<Rightarrow> send_credit" where
  "fl_credit f = cs_credit (snd (fl_send f))"

definition is_data :: "i32 \<Rightarrow> pf_frame \<Rightarrow> bool" where
  "is_data cid m = (case m of FData c _ \<Rightarrow> c = cid | _ \<Rightarrow> False)"

definition is_grant :: "i32 \<Rightarrow> pf_frame \<Rightarrow> bool" where
  "is_grant cid m = (case m of FWindowUpdate c _ \<Rightarrow> c = cid | FOpened c _ _ _ \<Rightarrow> c = cid | _ \<Rightarrow> False)"

definition set_credit :: "send_credit \<Rightarrow> flow \<Rightarrow> flow" where
  "set_credit cr f = f\<lparr>fl_send := (fst (fl_send f), (snd (fl_send f))\<lparr>cs_credit := cr\<rparr>)\<rparr>"

definition set_inbound :: "inbound queue \<Rightarrow> recv_window \<Rightarrow> flow \<Rightarrow> flow" where
  "set_inbound q w f =
     f\<lparr>fl_recv := (fl_recv f)\<lparr>st_shared := (st_shared (fl_recv f))\<lparr>cs_inbound := q, cs_window := w\<rparr>\<rparr>\<rparr>"

abbreviation fl_queue :: "flow \<Rightarrow> inbound queue" where
  "fl_queue f \<equiv> cs_inbound (st_shared (fl_recv f))"

abbreviation fl_window :: "flow \<Rightarrow> recv_window" where
  "fl_window f \<equiv> cs_window (st_shared (fl_recv f))"

definition relaying :: "flow \<Rightarrow> bool" where
  "relaying f = (case st_phase (fl_recv f) of Relaying _ \<Rightarrow> True | _ \<Rightarrow> False)"

inductive flow_step :: "i32 \<Rightarrow> flow \<Rightarrow> flow \<Rightarrow> bool" for cid :: i32 where
  fs_take: "s2t_take (fl_s2t f) (fl_credit f) = Some (s', cr') \<Longrightarrow>
    flow_step cid f (set_credit cr' f\<lparr>fl_s2t := s'\<rparr>)"
| fs_read: "s2t_read cid sock (fl_s2t f) (fl_credit f) = Some (s', cr') \<Longrightarrow> s_pc (fl_s2t f) = SRead allow \<Longrightarrow>
    flow_step cid f (set_credit cr' f\<lparr>fl_s2t := s',
      fl_sock := fl_sock f @ (if s_prebuf (fl_s2t f) = [] then take allow sock else [])\<rparr>)"
| fs_send: "s2t_send (fl_s2t f) (fl_out_sink f) = Some (s', sink') \<Longrightarrow>
    flow_step cid f (f\<lparr>fl_s2t := s', fl_out_sink := sink'\<rparr>)"
| fs_other_out: "\<not> is_data cid m \<Longrightarrow> send_ordered m (fl_out_sink f) = Sent sink' \<Longrightarrow>
    flow_step cid f (f\<lparr>fl_out_sink := sink'\<rparr>)"
| fs_other_back: "\<not> is_grant cid m \<Longrightarrow> send_ordered m (fl_back_sink f) = Sent sink' \<or> send_control m (fl_back_sink f) = Sent sink' \<Longrightarrow>
    flow_step cid f (f\<lparr>fl_back_sink := sink'\<rparr>)"
| fs_deliver: "sink_pop_data (fl_out_sink f) = Some (FData cid d, sink') \<Longrightarrow>
    deliver_data d (fl_queue f) (fl_window f) = (keep, q', w') \<Longrightarrow>
    flow_step cid f (set_inbound q' w' f\<lparr>fl_out_sink := sink', fl_broken := fl_broken f \<or> \<not> keep\<rparr>)"
| fs_deliver_other: "sink_pop_data (fl_out_sink f) = Some (m, sink') \<Longrightarrow> \<not> is_data cid m \<Longrightarrow>
    flow_step cid f (f\<lparr>fl_out_sink := sink'\<rparr>)"
| fs_connect: "controlled_turn c True (fl_recv f) = Some (t', ms) \<Longrightarrow> c = None \<or> c = Some ConnectOk \<Longrightarrow>
    (ms = [] \<and> sink' = fl_back_sink f \<or> (\<exists>m. ms = [m] \<and> send_ordered m (fl_back_sink f) = Sent sink')) \<Longrightarrow>
    flow_step cid f (f\<lparr>fl_recv := t', fl_back_sink := sink',
      fl_t2s := (case st_phase t' of Relaying p \<Rightarrow> t2s_new p | _ \<Rightarrow> fl_t2s f)\<rparr>)"
| fs_next: "relaying f \<Longrightarrow> t2s_next (fl_t2s f) (fl_queue f) = Some (t', q') \<Longrightarrow>
    flow_step cid f (set_inbound q' (fl_window f) f\<lparr>fl_t2s := t'\<rparr>)"
| fs_written: "relaying f \<Longrightarrow> t2s_written cid True (fl_t2s f) (fl_window f) (fl_back_sink f) = Some (t', w', sink') \<Longrightarrow>
    flow_step cid f (set_inbound (fl_queue f) w' f\<lparr>fl_t2s := t', fl_back_sink := sink',
      fl_written := fl_written f @ concat (writing_chunk (fl_t2s f))\<rparr>)"
| fs_back: "sink_pop_data (fl_back_sink f) = Some (m, sink') \<or> sink_pop_control (fl_back_sink f) = Some (m, sink') \<Longrightarrow>
    is_grant cid m \<Longrightarrow> frame_effect m (fl_send f) = Some ch' \<Longrightarrow>
    flow_step cid f (f\<lparr>fl_back_sink := sink', fl_send := ch'\<rparr>)"
| fs_back_other: "sink_pop_data (fl_back_sink f) = Some (m, sink') \<or> sink_pop_control (fl_back_sink f) = Some (m, sink') \<Longrightarrow>
    \<not> is_grant cid m \<Longrightarrow> flow_step cid f (f\<lparr>fl_back_sink := sink'\<rparr>)"

inductive flow_steps :: "i32 \<Rightarrow> flow \<Rightarrow> flow \<Rightarrow> bool" for cid :: i32 where
  flow_refl: "flow_steps cid f f"
| flow_more: "flow_steps cid f f' \<Longrightarrow> flow_step cid f' f'' \<Longrightarrow> flow_steps cid f f''"

text \<open>Controller to controlled: the channel has just been opened at both ends.\<close>

definition flow_open :: "i32 \<Rightarrow> bytes \<Rightarrow> nat \<Rightarrow> string \<Rightarrow> bool \<Rightarrow> flow" where
  "flow_open cid prebuf window addr rdp =
     \<lparr>fl_s2t = s2t_new prebuf, fl_send = (False, shared_new), fl_out_sink = Queued q_new q_new,
      fl_recv = \<lparr>st_id = cid, st_target = addr, st_is_rdp = rdp, st_shared = server_shared window,
        st_phase = Connecting [] 0\<rparr>,
      fl_t2s = t2s_new [], fl_back_sink = Direct q_new, fl_sock = [], fl_written = [], fl_broken = False\<rparr>"

text \<open>Controlled to controller: the target has just been connected; the window is the one \<open>open\<close>
  advertised, and there is nothing left to grant.\<close>

definition flow_reply :: "i32 \<Rightarrow> string \<Rightarrow> bool \<Rightarrow> flow" where
  "flow_reply cid addr rdp =
     \<lparr>fl_s2t = s2t_new [], fl_send = (True, server_shared CHANNEL_WINDOW), fl_out_sink = Direct q_new,
      fl_recv = \<lparr>st_id = cid, st_target = addr, st_is_rdp = rdp, st_shared = shared_new, st_phase = Relaying []\<rparr>,
      fl_t2s = t2s_new [], fl_back_sink = Queued q_new q_new, fl_sock = [], fl_written = [], fl_broken = False\<rparr>"

section \<open>The account\<close>

definition frame_cost :: "i32 \<Rightarrow> pf_frame \<Rightarrow> nat" where
  "frame_cost cid m = (case m of FData c d \<Rightarrow> if c = cid then charge (length d) else 0 | _ \<Rightarrow> 0)"

definition frame_bytes :: "i32 \<Rightarrow> pf_frame \<Rightarrow> bytes" where
  "frame_bytes cid m = (case m of FData c d \<Rightarrow> if c = cid then d else [] | _ \<Rightarrow> [])"

definition grant_of :: "i32 \<Rightarrow> pf_frame \<Rightarrow> nat" where
  "grant_of cid m = (case m of
      FWindowUpdate c n \<Rightarrow> if c = cid then n else 0
    | FOpened c _ _ w \<Rightarrow> if c = cid then effective_window w - INITIAL_WINDOW else 0
    | _ \<Rightarrow> 0)"

definition is_opened :: "i32 \<Rightarrow> pf_frame \<Rightarrow> bool" where
  "is_opened cid m = (case m of FOpened c _ _ _ \<Rightarrow> c = cid | _ \<Rightarrow> False)"

definition taken :: "s2t \<Rightarrow> nat" where
  "taken s = (case s_pc s of SRead n \<Rightarrow> n | SSend m \<Rightarrow> charge (length (f_data m)) | _ \<Rightarrow> 0)"

definition recv_chunks :: "flow \<Rightarrow> bytes list" where
  "recv_chunks f = (case st_phase (fl_recv f) of
      Connecting p _ \<Rightarrow> p @ queued_chunks (fl_queue f)
    | _ \<Rightarrow> held_chunks (fl_t2s f) (fl_queue f))"

definition granted :: "flow \<Rightarrow> nat" where
  "granted f = (if relaying f then CHANNEL_WINDOW else INITIAL_WINDOW)"

text \<open>Credit, credit in hand, data in flight and grants in flight add up to what the receiver
  still lets through; with what it holds and owes, that is what was granted.\<close>

definition account :: "i32 \<Rightarrow> flow \<Rightarrow> bool" where
  "account cid f =
     (sc_credit (fl_credit f) + taken (fl_s2t f) + sum_list (map (frame_cost cid) (sink_ordered (fl_out_sink f))) +
        sum_list (map (grant_of cid) (sink_frames (fl_back_sink f))) = rw_remaining (fl_window f) \<and>
      rw_remaining (fl_window f) + rw_drained_since_update (fl_window f) + chunk_cost (recv_chunks f) = granted f)"

definition handshake :: "i32 \<Rightarrow> flow \<Rightarrow> bool" where
  "handshake cid f =
     (length (filter (is_opened cid) (sink_frames (fl_back_sink f))) + (if fst (fl_send f) then 1 else 0) =
        (if relaying f then 1 else 0) \<and>
      (\<forall>m \<in> set (sink_frames (fl_back_sink f)). is_opened cid m \<longrightarrow> f_success m))"

definition stream_whole :: "i32 \<Rightarrow> bytes \<Rightarrow> flow \<Rightarrow> bool" where
  "stream_whole cid prebuf f =
     (prebuf @ fl_sock f = fl_written f @ concat (recv_chunks f) @
        concat (map (frame_bytes cid) (sink_ordered (fl_out_sink f))) @ unsent (fl_s2t f))"

definition receiver_up :: "i32 \<Rightarrow> flow \<Rightarrow> bool" where
  "receiver_up cid f =
     (st_id (fl_recv f) = cid \<and> q_rx (fl_queue f) \<and> q_tx (fl_queue f) \<and>
      (\<forall>i \<in> set (q_items (fl_queue f)). \<exists>d. i = InData d) \<and>
      (case st_phase (fl_recv f) of
         Connecting p n \<Rightarrow> n = chunk_cost p \<and> rw_drained_since_update (fl_window f) = 0
       | Relaying _ \<Rightarrow> t2s_end (fl_t2s f) = None \<and> rw_drained_since_update (fl_window f) < UPDATE_THRESHOLD
       | Ended \<Rightarrow> False))"

definition sender_up :: "i32 \<Rightarrow> flow \<Rightarrow> bool" where
  "sender_up cid f =
     (credit_ok (fl_credit f) \<and> reads_positive (fl_s2t f) \<and>
      (\<forall>m. s_pc (fl_s2t f) = SSend m \<longrightarrow> (\<exists>d. m = FData cid d)))"

definition sinks_up :: "flow \<Rightarrow> bool" where
  "sinks_up f = (\<not> sink_is_closed (fl_out_sink f) \<and> (case fl_back_sink f of
     Queued d c \<Rightarrow> q_rx d \<and> q_rx c | Direct t \<Rightarrow> q_rx t))"

definition flow_inv :: "i32 \<Rightarrow> bytes \<Rightarrow> flow \<Rightarrow> bool" where
  "flow_inv cid prebuf f =
     (account cid f \<and> handshake cid f \<and> stream_whole cid prebuf f \<and> receiver_up cid f \<and> sender_up cid f \<and>
      sinks_up f \<and> \<not> fl_broken f)"

lemmas flow_defs = account_def handshake_def stream_whole_def receiver_up_def sender_up_def sinks_up_def

section \<open>Sinks\<close>

definition both_open :: "frame_sink \<Rightarrow> bool" where
  "both_open s = (case s of Queued d c \<Rightarrow> q_rx d \<and> q_rx c | Direct t \<Rightarrow> q_rx t)"

lemma sinks_up_alt: "sinks_up f = (\<not> sink_is_closed (fl_out_sink f) \<and> both_open (fl_back_sink f))"
  by (simp add: sinks_up_def both_open_def)

lemma send_ordered_sink:
  assumes "send_ordered m s = Sent s'"
  shows "sink_ordered s' = sink_ordered s @ [m]"
    "sum_list (map g (sink_frames s')) = sum_list (map g (sink_frames s)) + (g m :: nat)"
    "length (filter P (sink_frames s')) = length (filter P (sink_frames s)) + (if P m then 1 else 0)"
    "set (sink_frames s') = insert m (set (sink_frames s))"
    "sink_is_closed s' = sink_is_closed s" "both_open s' = both_open s"
  using assms
  by (auto simp: send_ordered_def sink_ordered_def sink_frames_def q_push_def sink_is_closed_def both_open_def
      split: frame_sink.splits if_splits)

lemma send_control_sink:
  assumes "send_control m s = Sent s'"
  shows "sum_list (map g (sink_frames s')) = sum_list (map g (sink_frames s)) + (g m :: nat)"
    "length (filter P (sink_frames s')) = length (filter P (sink_frames s)) + (if P m then 1 else 0)"
    "set (sink_frames s') = insert m (set (sink_frames s))" "both_open s' = both_open s"
  using assms
  by (auto simp: send_control_def sink_frames_def q_push_def both_open_def split: frame_sink.splits if_splits)

lemma pop_data_sink:
  assumes "sink_pop_data s = Some (m, s')"
  shows "sink_ordered s = m # sink_ordered s'"
    "sum_list (map g (sink_frames s)) = sum_list (map g (sink_frames s')) + (g m :: nat)"
    "length (filter P (sink_frames s)) = length (filter P (sink_frames s')) + (if P m then 1 else 0)"
    "set (sink_frames s) = insert m (set (sink_frames s'))"
    "sink_is_closed s' = sink_is_closed s" "both_open s' = both_open s"
  using assms
  by (auto simp: sink_pop_data_def sink_ordered_def sink_frames_def sink_is_closed_def both_open_def
      split: frame_sink.splits list.splits)

lemma pop_control_sink:
  assumes "sink_pop_control s = Some (m, s')"
  shows "sum_list (map g (sink_frames s)) = sum_list (map g (sink_frames s')) + (g m :: nat)"
    "length (filter P (sink_frames s)) = length (filter P (sink_frames s')) + (if P m then 1 else 0)"
    "set (sink_frames s) = insert m (set (sink_frames s'))" "both_open s' = both_open s"
  using assms
  by (auto simp: sink_pop_control_def sink_frames_def both_open_def split: frame_sink.splits list.splits)

text \<open>Both ways a frame of the back sink reaches the peer.\<close>

lemma pop_back_sink:
  assumes "sink_pop_data s = Some (m, s') \<or> sink_pop_control s = Some (m, s')"
  shows "sum_list (map g (sink_frames s)) = sum_list (map g (sink_frames s')) + (g m :: nat)"
    "length (filter P (sink_frames s)) = length (filter P (sink_frames s')) + (if P m then 1 else 0)"
    "set (sink_frames s) = insert m (set (sink_frames s'))" "both_open s' = both_open s"
  using assms pop_data_sink(2) [of s m s' g] pop_control_sink(1) [of s m s' g]
    pop_data_sink(3) [of s m s' P] pop_control_sink(2) [of s m s' P]
    pop_data_sink(4,6) [of s m s'] pop_control_sink(3,4) [of s m s']
  by argo+

lemma send_back_sink:
  assumes "send_ordered m s = Sent s' \<or> send_control m s = Sent s'"
  shows "sum_list (map g (sink_frames s')) = sum_list (map g (sink_frames s)) + (g m :: nat)"
    "length (filter P (sink_frames s')) = length (filter P (sink_frames s)) + (if P m then 1 else 0)"
    "set (sink_frames s') = insert m (set (sink_frames s))" "both_open s' = both_open s"
  using assms send_ordered_sink(2) [of m s s' g] send_control_sink(1) [of m s s' g]
    send_ordered_sink(3) [of m s s' P] send_control_sink(2) [of m s s' P]
    send_ordered_sink(4,6) [of m s s'] send_control_sink(3,4) [of m s s']
  by argo+

lemma not_grant: "\<not> is_grant cid m \<Longrightarrow> grant_of cid m = 0 \<and> \<not> is_opened cid m"
  by (auto simp: is_grant_def grant_of_def is_opened_def split: pf_frame.splits)

lemma not_data: "\<not> is_data cid m \<Longrightarrow> frame_cost cid m = 0 \<and> frame_bytes cid m = []"
  by (auto simp: is_data_def frame_cost_def frame_bytes_def split: pf_frame.splits)

section \<open>Credit within the account\<close>

lemma sc_add_exact:
  assumes "sc_credit sc + n \<le> CHANNEL_WINDOW"
  shows "sc_credit (sc_add n sc) = sc_credit sc + n"
  using assms by (simp add: sc_add_def sat_add32_def u32_max_def mux_consts)

lemma sc_raise_exact:
  assumes "sc_credit sc + (effective_window w - INITIAL_WINDOW) \<le> CHANNEL_WINDOW"
  shows "sc_credit (sc_raise_initial w sc) = sc_credit sc + (effective_window w - INITIAL_WINDOW)"
  using assms sc_add_exact by (auto simp: sc_raise_initial_def Let_def)

lemma credit_ok_add: "credit_ok (sc_add n sc)"
  by (simp add: credit_ok_def sc_add_def)

lemma credit_ok_raise: "credit_ok sc \<Longrightarrow> credit_ok (sc_raise_initial n sc)"
  by (simp add: sc_raise_initial_def Let_def credit_ok_add)

lemma account_credit_le:
  assumes "account cid f"
  shows "sc_credit (fl_credit f) + taken (fl_s2t f) \<le> CHANNEL_WINDOW"
  using assms by (auto simp: account_def granted_def mux_consts split: if_splits)

section \<open>Every step keeps the account\<close>

lemma s2t_take_account:
  assumes "s2t_take s cr = Some (s', cr')" "credit_ok cr"
  shows "sc_credit cr' + taken s' = sc_credit cr + taken s \<and> credit_ok cr' \<and> unsent s' = unsent s \<and>
    (\<forall>m. s_pc s' \<noteq> SSend m)"
proof -
  have pc: "s_pc s = STake" using assms(1) by (simp add: s2t_take_def split: s2t_pc.splits)
  obtain r cr1 where t: "sc_take MAX_FRAME cr = (r, cr1)" by force
  have ok: "credit_ok cr1" using sc_take_ok [OF assms(2), of MAX_FRAME] t by simp
  show ?thesis
  proof (cases r)
    case None
    with t pc assms ok sc_take_None [of MAX_FRAME cr cr1] show ?thesis by (simp add: s2t_take_def taken_def)
  next
    case (Some n)
    with t have "sc_take MAX_FRAME cr = (Some n, cr1)" by simp
    from sc_take_Some [OF this] Some t pc assms(1) ok show ?thesis
      by (auto simp: s2t_take_def taken_def unsent_def)
  qed
qed

lemma s2t_read_account:
  assumes "s2t_read cid sock s cr = Some (s', cr')" "s_pc s = SRead allow" "reads_positive s"
    "sc_credit cr + allow \<le> CHANNEL_WINDOW" "credit_ok cr"
  shows "sc_credit cr' + taken s' = sc_credit cr + allow \<and> credit_ok cr' \<and>
    unsent s' = unsent s @ (if s_prebuf s = [] then take allow sock else []) \<and>
    (\<forall>m. s_pc s' = SSend m \<longrightarrow> (\<exists>d. m = FData cid d))"
proof -
  obtain got p' where c: "chain_read allow (s_prebuf s) sock = (got, p')" by force
  have allow: "MIN_FRAME_CHARGE \<le> allow" using assms(2,3) by (simp add: reads_positive_def)
  have len: "length got \<le> allow" using c by (auto simp: chain_read_def split: if_splits)
  then have paid: "charge (length got) \<le> allow" using allow by (rule charge_small)
  have "sc_credit (sc_add (allow - n) cr) = sc_credit cr + (allow - n)" for n
    using assms(4) by (intro sc_add_exact) simp
  moreover have "sc_credit (sc_add allow cr) = sc_credit cr + allow" using assms(4) by (rule sc_add_exact)
  moreover have "got @ p' = s_prebuf s @ (if s_prebuf s = [] then take allow sock else [])"
    using c by (auto simp: chain_read_def split: if_splits)
  moreover have "0 < allow" using allow by (simp add: MIN_FRAME_CHARGE_def)
  ultimately show ?thesis
    using assms(1,2,5) c paid
    by (auto simp: s2t_read_def taken_def unsent_def data_msg_def credit_ok_add Let_def split: if_splits)
qed

lemma set_credit_simps [simp]:
  "fl_credit (set_credit cr f) = cr" "fst (fl_send (set_credit cr f)) = fst (fl_send f)"
  "fl_out_sink (set_credit cr f) = fl_out_sink f" "fl_recv (set_credit cr f) = fl_recv f"
  "fl_t2s (set_credit cr f) = fl_t2s f" "fl_back_sink (set_credit cr f) = fl_back_sink f"
  "fl_sock (set_credit cr f) = fl_sock f" "fl_written (set_credit cr f) = fl_written f"
  "fl_broken (set_credit cr f) = fl_broken f" "fl_s2t (set_credit cr f) = fl_s2t f"
  by (simp_all add: set_credit_def fl_credit_def)

lemma set_inbound_simps [simp]:
  "fl_queue (set_inbound q w f) = q" "fl_window (set_inbound q w f) = w"
  "st_phase (fl_recv (set_inbound q w f)) = st_phase (fl_recv f)" "st_id (fl_recv (set_inbound q w f)) = st_id (fl_recv f)"
  "fl_send (set_inbound q w f) = fl_send f" "fl_s2t (set_inbound q w f) = fl_s2t f"
  "fl_out_sink (set_inbound q w f) = fl_out_sink f" "fl_t2s (set_inbound q w f) = fl_t2s f"
  "fl_back_sink (set_inbound q w f) = fl_back_sink f" "fl_sock (set_inbound q w f) = fl_sock f"
  "fl_written (set_inbound q w f) = fl_written f" "fl_broken (set_inbound q w f) = fl_broken f"
  by (simp_all add: set_inbound_def)

text \<open>The receiver's side and the sender's side of the invariant depend on few fields.\<close>

lemma fl_credit_cong: "fl_send f' = fl_send f \<Longrightarrow> fl_credit f' = fl_credit f"
  by (simp add: fl_credit_def)

lemma recv_same:
  assumes "fl_recv f' = fl_recv f" "fl_t2s f' = fl_t2s f"
  shows "recv_chunks f' = recv_chunks f" "granted f' = granted f" "relaying f' = relaying f"
    "receiver_up cid f' = receiver_up cid f"
  using assms by (simp_all add: recv_chunks_def granted_def relaying_def receiver_up_def split: conn_phase.splits)

text \<open>A step of the sending relay.\<close>

lemma sender_step:
  assumes inv: "flow_inv cid prebuf f"
    and same: "fl_recv f' = fl_recv f" "fl_t2s f' = fl_t2s f" "fl_back_sink f' = fl_back_sink f"
      "fst (fl_send f') = fst (fl_send f)" "fl_written f' = fl_written f" "fl_broken f' = fl_broken f"
    and acc: "sc_credit (fl_credit f') + taken (fl_s2t f') +
        sum_list (map (frame_cost cid) (sink_ordered (fl_out_sink f'))) =
      sc_credit (fl_credit f) + taken (fl_s2t f) + sum_list (map (frame_cost cid) (sink_ordered (fl_out_sink f)))"
    and bytes: "concat (map (frame_bytes cid) (sink_ordered (fl_out_sink f'))) @ unsent (fl_s2t f') =
      concat (map (frame_bytes cid) (sink_ordered (fl_out_sink f))) @ unsent (fl_s2t f) @ new"
      "fl_sock f' = fl_sock f @ new"
    and up: "sender_up cid f'" "sink_is_closed (fl_out_sink f') = sink_is_closed (fl_out_sink f)"
  shows "flow_inv cid prebuf f'"
proof -
  note rs = recv_same [OF same(1,2)]
  have "account cid f'" using inv acc same rs unfolding flow_inv_def account_def by simp
  moreover have "handshake cid f'" using inv same rs unfolding flow_inv_def handshake_def by simp
  moreover have "stream_whole cid prebuf f'"
    using inv bytes same rs unfolding flow_inv_def stream_whole_def by (metis append.assoc)
  moreover have "sinks_up f'" using inv same up(2) unfolding flow_inv_def sinks_up_alt by simp
  ultimately show ?thesis using inv up(1) rs(4) same(6) unfolding flow_inv_def by blast
qed

lemma flow_take:
  assumes "flow_inv cid prebuf f" "s2t_take (fl_s2t f) (fl_credit f) = Some (s', cr')"
  shows "flow_inv cid prebuf (set_credit cr' f\<lparr>fl_s2t := s'\<rparr>)"
proof -
  have "credit_ok (fl_credit f)" using assms(1) by (simp add: flow_inv_def sender_up_def)
  note a = s2t_take_account [OF assms(2) this] s2t_take_positive [OF assms(2)]
  show ?thesis
    by (rule sender_step [OF assms(1), where new = "[]"]) (use a in \<open>auto simp: sender_up_def fl_credit_def set_credit_def\<close>)
qed

lemma flow_read:
  assumes "flow_inv cid prebuf f" "s2t_read cid sock (fl_s2t f) (fl_credit f) = Some (s', cr')"
    "s_pc (fl_s2t f) = SRead allow"
  shows "flow_inv cid prebuf (set_credit cr' f\<lparr>fl_s2t := s',
      fl_sock := fl_sock f @ (if s_prebuf (fl_s2t f) = [] then take allow sock else [])\<rparr>)"
proof -
  have up: "credit_ok (fl_credit f)" "reads_positive (fl_s2t f)" "account cid f"
    using assms(1) by (simp_all add: flow_inv_def sender_up_def)
  have t: "taken (fl_s2t f) = allow" using assms(3) by (simp add: taken_def)
  note a = s2t_read_account [OF assms(2,3) up(2) _ up(1)] s2t_other_positive(1) [OF assms(2)]
  show ?thesis
    by (rule sender_step [OF assms(1), where new = "if s_prebuf (fl_s2t f) = [] then take allow sock else []"])
      (use a t account_credit_le [OF up(3)] in \<open>auto simp: sender_up_def fl_credit_def set_credit_def\<close>)
qed

lemma flow_send:
  assumes "flow_inv cid prebuf f" "s2t_send (fl_s2t f) (fl_out_sink f) = Some (s', sink')"
  shows "flow_inv cid prebuf (f\<lparr>fl_s2t := s', fl_out_sink := sink'\<rparr>)"
proof -
  obtain m where m: "s_pc (fl_s2t f) = SSend m"
    using assms(2) by (auto simp: s2t_send_def split: s2t_pc.splits)
  with assms(1) obtain d where d: "m = FData cid d" by (auto simp: flow_inv_def sender_up_def)
  have "\<not> sink_is_closed (fl_out_sink f)" using assms(1) by (simp add: flow_inv_def sinks_up_def)
  then have "send_ordered m (fl_out_sink f) \<noteq> Gone e" for e
    by (auto simp: send_ordered_def sink_is_closed_def split: frame_sink.splits)
  with assms(2) m have s: "send_ordered m (fl_out_sink f) = Sent sink'" "s' = (fl_s2t f)\<lparr>s_pc := STake\<rparr>"
    by (auto simp: s2t_send_def split: sending.splits)
  show ?thesis
    by (rule sender_step [OF assms(1), where new = "[]"])
      (use assms(1) m d s(2) send_ordered_sink(1,5) [OF s(1)] in
        \<open>auto simp: taken_def frame_cost_def frame_bytes_def unsent_def fl_credit_def flow_inv_def sender_up_def reads_positive_def\<close>)
qed

lemma flow_other_out:
  assumes "flow_inv cid prebuf f" "\<not> is_data cid m" "send_ordered m (fl_out_sink f) = Sent sink'"
  shows "flow_inv cid prebuf (f\<lparr>fl_out_sink := sink'\<rparr>)"
  by (rule sender_step [OF assms(1), where new = "[]"])
    (use assms(1) not_data [OF assms(2)] send_ordered_sink(1,5) [OF assms(3)] in
      \<open>auto simp: fl_credit_def flow_inv_def sender_up_def\<close>)

lemma flow_deliver_other:
  assumes "flow_inv cid prebuf f" "sink_pop_data (fl_out_sink f) = Some (m, sink')" "\<not> is_data cid m"
  shows "flow_inv cid prebuf (f\<lparr>fl_out_sink := sink'\<rparr>)"
  by (rule sender_step [OF assms(1), where new = "[]"])
    (use assms(1) not_data [OF assms(3)] pop_data_sink(1,5) [OF assms(2)] in
      \<open>auto simp: fl_credit_def flow_inv_def sender_up_def\<close>)

text \<open>A step of the receiver.\<close>

lemma receiver_step:
  assumes inv: "flow_inv cid prebuf f"
    and same: "fl_s2t f' = fl_s2t f" "fl_send f' = fl_send f" "fl_sock f' = fl_sock f" "fl_broken f' = fl_broken f"
      "fl_out_sink f' = fl_out_sink f"
    and acc: "rw_remaining (fl_window f) + sum_list (map (grant_of cid) (sink_frames (fl_back_sink f'))) =
        rw_remaining (fl_window f') + sum_list (map (grant_of cid) (sink_frames (fl_back_sink f)))"
      "rw_remaining (fl_window f') + rw_drained_since_update (fl_window f') + chunk_cost (recv_chunks f') = granted f'"
    and bytes: "fl_written f' @ concat (recv_chunks f') = fl_written f @ concat (recv_chunks f)"
    and up: "handshake cid f'" "receiver_up cid f'" "both_open (fl_back_sink f')"
  shows "flow_inv cid prebuf f'"
proof -
  have "account cid f'" using inv acc same fl_credit_cong [OF same(2)] unfolding flow_inv_def account_def by simp
  moreover have "stream_whole cid prebuf f'"
    using inv bytes same unfolding flow_inv_def stream_whole_def by (metis append.assoc)
  moreover have "sender_up cid f'" using inv same fl_credit_cong [OF same(2)] unfolding flow_inv_def sender_up_def by simp
  moreover have "sinks_up f'" using inv same up(3) unfolding flow_inv_def sinks_up_alt by simp
  ultimately show ?thesis using inv up same(4) unfolding flow_inv_def by simp
qed

lemma account_frame_cost:
  assumes "account cid f" "sink_pop_data (fl_out_sink f) = Some (FData cid d, sink')"
  shows "charge (length d) \<le> rw_remaining (fl_window f)"
  using assms pop_data_sink(1) [OF assms(2)] by (auto simp: account_def frame_cost_def)

lemma flow_deliver:
  assumes inv: "flow_inv cid prebuf f" and pop: "sink_pop_data (fl_out_sink f) = Some (FData cid d, sink')"
    and del: "deliver_data d (fl_queue f) (fl_window f) = (keep, q', w')"
  shows "flow_inv cid prebuf (set_inbound q' w' f\<lparr>fl_out_sink := sink', fl_broken := fl_broken f \<or> \<not> keep\<rparr>)"
    (is "flow_inv cid prebuf ?f'") and "keep"
proof -
  have acc: "account cid f" and up: "receiver_up cid f" using inv by (simp_all add: flow_inv_def)
  have rx: "q_rx (fl_queue f)" using up by (simp add: receiver_up_def)
  have "fst (rw_accept (length d) (fl_window f))"
    using account_frame_cost [OF acc pop] by (simp add: rw_accept_def checked_sub_def)
  then show keep using del rx by (auto simp: deliver_data_def split: prod.splits if_splits)
  note paid = deliver_data_paid [OF del rx]
  have w': "rw_remaining w' + charge (length d) = rw_remaining (fl_window f)"
    using paid deliver_data_queue [OF del] \<open>keep\<close> by simp
  have q': "q' = q_send (InData d) (fl_queue f)"
    using del rx \<open>keep\<close> by (auto simp: deliver_data_def split: prod.splits if_splits)
  have chunks: "recv_chunks ?f' = recv_chunks f @ [d]"
    using deliver_data_queue [OF del] \<open>keep\<close> by (simp add: recv_chunks_def held_chunks_def split: conn_phase.splits)
  note out = pop_data_sink(1) [OF pop]
  have rel: "relaying ?f' = relaying f" by (simp add: relaying_def)
  have "account cid ?f'"
    using acc out w' chunks paid rel by (simp add: account_def fl_credit_def granted_def frame_cost_def)
  moreover have "handshake cid ?f'" using inv rel by (simp add: flow_inv_def handshake_def)
  moreover have "stream_whole cid prebuf ?f'"
    using inv out chunks by (simp add: flow_inv_def stream_whole_def frame_bytes_def)
  moreover have "receiver_up cid ?f'"
    using up q' paid by (auto simp: receiver_up_def q_send_def q_push_def split: conn_phase.splits)
  moreover have "sender_up cid ?f'" using inv by (simp add: flow_inv_def sender_up_def fl_credit_def)
  moreover have "sinks_up ?f'"
    using inv pop_data_sink(5) [OF pop] unfolding flow_inv_def sinks_up_alt by simp
  ultimately show "flow_inv cid prebuf ?f'" using inv \<open>keep\<close> by (simp add: flow_inv_def)
qed

lemma flow_next:
  assumes inv: "flow_inv cid prebuf f" and rel: "relaying f"
    and nx: "t2s_next (fl_t2s f) (fl_queue f) = Some (t', q')"
  shows "flow_inv cid prebuf (set_inbound q' (fl_window f) f\<lparr>fl_t2s := t'\<rparr>)" (is "flow_inv cid prebuf ?f'")
proof -
  have up: "receiver_up cid f" and acc: "account cid f" using inv by (simp_all add: flow_inv_def)
  have held: "recv_chunks ?f' = recv_chunks f"
    using t2s_next_held [OF nx] rel by (simp add: recv_chunks_def relaying_def split: conn_phase.splits)
  have rel': "relaying ?f' = relaying f" by (simp add: relaying_def)
  have "receiver_up cid ?f'"
    using up nx rel unfolding receiver_up_def relaying_def
    by (auto simp: t2s_next_def t2s_end_def split: conn_phase.splits t2s_pc.splits list.splits inbound.splits if_splits)
  moreover have "handshake cid ?f'" using inv rel' by (simp add: flow_inv_def handshake_def)
  ultimately show ?thesis
    using acc held rel' inv
    by (intro receiver_step [OF inv]) (simp_all add: account_def granted_def flow_inv_def sinks_up_alt)
qed

lemma flow_written:
  assumes inv: "flow_inv cid prebuf f" and rel: "relaying f"
    and wr: "t2s_written cid True (fl_t2s f) (fl_window f) (fl_back_sink f) = Some (t', w', sink')"
  shows "flow_inv cid prebuf (set_inbound (fl_queue f) w' f\<lparr>fl_t2s := t', fl_back_sink := sink',
      fl_written := fl_written f @ concat (writing_chunk (fl_t2s f))\<rparr>)" (is "flow_inv cid prebuf ?f'")
proof -
  have up: "receiver_up cid f" and acc: "account cid f" and hs: "handshake cid f" and bo: "both_open (fl_back_sink f)"
    using inv by (simp_all add: flow_inv_def sinks_up_alt)
  have rel': "relaying ?f' = relaying f" by (simp add: relaying_def)
  have ch: "recv_chunks f = held_chunks (fl_t2s f) (fl_queue f)" "recv_chunks ?f' = held_chunks t' (fl_queue f)"
    using rel by (simp_all add: recv_chunks_def relaying_def split: conn_phase.splits)
  have tot: "rw_remaining (fl_window f) + rw_drained_since_update (fl_window f) + chunk_cost (recv_chunks f) = CHANNEL_WINDOW"
    using acc rel by (simp add: account_def granted_def)
  have ok: "\<exists>c. t_pc (fl_t2s f) = TWrite c \<and> t_pc t' = TNext \<and> t_pending t' = t_pending (fl_t2s f) \<and>
      (rw_drained (length c) (fl_window f) = (None, w') \<and> sink' = fl_back_sink f \<or>
       (\<exists>a. rw_drained (length c) (fl_window f) = (Some a, w') \<and>
          send_control (window_update_msg cid a) (fl_back_sink f) = Sent sink'))"
    using wr
  proof (cases rule: t2s_written_cases)
    case (gone c a)
    moreover have "\<exists>s. send_control (window_update_msg cid a) (fl_back_sink f) = Sent s"
      using bo by (auto simp: send_control_def both_open_def split: frame_sink.splits)
    ultimately show ?thesis by blast
  qed auto
  then obtain c a where c: "t_pc (fl_t2s f) = TWrite c" "t_pc t' = TNext" "t_pending t' = t_pending (fl_t2s f)"
    "rw_drained (length c) (fl_window f) = (a, w')"
    and sk: "a = None \<and> sink' = fl_back_sink f \<or>
       (\<exists>k. a = Some k \<and> send_control (window_update_msg cid k) (fl_back_sink f) = Sent sink')" by blast
  have "rw_remaining (fl_window f) + rw_drained_since_update (fl_window f) + charge (length c) \<le> u32_max"
    using tot ch(1) c(1) by (simp add: held_chunks_def writing_chunk_def mux_consts u32_max_def)
  note keeps = rw.drain_keeps [OF c(4) this]
  have grants: "sum_list (map (grant_of cid) (sink_frames sink')) =
      sum_list (map (grant_of cid) (sink_frames (fl_back_sink f))) + (case a of Some k \<Rightarrow> k | None \<Rightarrow> 0)"
    using sk send_control_sink(1) [of _ "fl_back_sink f" sink' "grant_of cid"]
    by (auto simp: window_update_msg_def grant_of_def)
  have hs': "handshake cid ?f'"
    using sk
  proof
    assume "a = None \<and> sink' = fl_back_sink f"
    then show ?thesis using hs rel' by (simp add: handshake_def)
  next
    assume "\<exists>k. a = Some k \<and> send_control (window_update_msg cid k) (fl_back_sink f) = Sent sink'"
    then obtain k where k: "send_control (window_update_msg cid k) (fl_back_sink f) = Sent sink'" by blast
    show ?thesis using hs rel' send_control_sink(2) [OF k, of "is_opened cid"] send_control_sink(3) [OF k]
      by (simp add: handshake_def is_opened_def window_update_msg_def)
  qed
  have "both_open sink'" using sk bo send_control_sink(4) by blast
  moreover have "receiver_up cid ?f'"
    using up rel c(2) rw_drained_threshold [OF c(4)]
    by (simp add: receiver_up_def relaying_def t2s_end_def split: conn_phase.splits)
  moreover have "concat (recv_chunks f) = c @ concat (recv_chunks ?f')" "chunk_cost (recv_chunks f) = charge (length c) + chunk_cost (recv_chunks ?f')"
    using ch c by (simp_all add: held_chunks_def writing_chunk_def)
  ultimately show ?thesis
    using grants keeps tot rel rel' hs' c(1)
    by (intro receiver_step [OF inv]) (simp_all add: granted_def writing_chunk_def)
qed

text \<open>While the target is dialled: a chunk moves from the queue to the buffer, or the connect
  completes, which grants the rest of the window and puts \<open>opened\<close> on its way.\<close>

lemma connect_cases:
  assumes "controlled_turn c True t = Some (t', ms)" "c = None \<or> c = Some ConnectOk" "st_phase t = Connecting p n"
    "q_tx (cs_inbound (st_shared t))" "\<forall>i \<in> set (q_items (cs_inbound (st_shared t))). \<exists>d. i = InData d"
    "\<forall>b rest. q_items (cs_inbound (st_shared t)) = InData b # rest \<longrightarrow> pending_fits n (length b)"
  obtains (buffered) b rest where "q_items (cs_inbound (st_shared t)) = InData b # rest" "ms = []"
      "t' = t\<lparr>st_phase := Connecting (p @ [b]) (n + charge (length b)),
         st_shared := (st_shared t)\<lparr>cs_inbound := (cs_inbound (st_shared t))\<lparr>q_items := rest\<rparr>\<rparr>\<rparr>"
  | (connected) "q_items (cs_inbound (st_shared t)) = []" "ms = [opened_msg (st_id t) True [] CHANNEL_WINDOW]"
      "t' = t\<lparr>st_phase := Relaying p, st_shared := (st_shared t)\<lparr>cs_window :=
         rw_grant (CHANNEL_WINDOW - INITIAL_WINDOW) (cs_window (st_shared t))\<rparr>\<rparr>"
proof (cases "q_items (cs_inbound (st_shared t))")
  case Nil
  with assms have "ms = [opened_msg (st_id t) True [] CHANNEL_WINDOW]"
      "t' = t\<lparr>st_phase := Relaying p, st_shared := (st_shared t)\<lparr>cs_window :=
         rw_grant (CHANNEL_WINDOW - INITIAL_WINDOW) (cs_window (st_shared t))\<rparr>\<rparr>"
    by (auto simp: controlled_turn_def Let_def)
  with Nil connected show thesis by blast
next
  case (Cons i rest)
  then obtain b where i: "i = InData b" using assms(5) by auto
  with Cons assms(6) have "pending_fits n (length b)" by blast
  with assms(1,3) Cons i have "ms = []" "t' = t\<lparr>st_phase := Connecting (p @ [b]) (n + charge (length b)),
         st_shared := (st_shared t)\<lparr>cs_inbound := (cs_inbound (st_shared t))\<lparr>q_items := rest\<rparr>\<rparr>\<rparr>"
    by (simp_all add: controlled_turn_def Let_def)
  with Cons i buffered show thesis by blast
qed

lemma flow_connect:
  assumes inv: "flow_inv cid prebuf f"
    and turn: "controlled_turn c True (fl_recv f) = Some (t', ms)" "c = None \<or> c = Some ConnectOk"
    and out: "ms = [] \<and> sink' = fl_back_sink f \<or> (\<exists>m. ms = [m] \<and> send_ordered m (fl_back_sink f) = Sent sink')"
  shows "flow_inv cid prebuf (f\<lparr>fl_recv := t', fl_back_sink := sink',
      fl_t2s := (case st_phase t' of Relaying p \<Rightarrow> t2s_new p | _ \<Rightarrow> fl_t2s f)\<rparr>)" (is "flow_inv cid prebuf ?f'")
proof -
  have up: "receiver_up cid f" and acc: "account cid f" and hs: "handshake cid f" and bo: "both_open (fl_back_sink f)"
    using inv by (simp_all add: flow_inv_def sinks_up_alt)
  obtain p n where ph: "st_phase (fl_recv f) = Connecting p n"
    using turn(1) by (cases "st_phase (fl_recv f)") (auto simp: controlled_turn_def Let_def)
  have n: "n = chunk_cost p" "rw_drained_since_update (fl_window f) = 0" "st_id (fl_recv f) = cid"
    "q_tx (fl_queue f)" "\<forall>i \<in> set (q_items (fl_queue f)). \<exists>d. i = InData d"
    using up ph by (simp_all add: receiver_up_def)
  have tot: "rw_remaining (fl_window f) + chunk_cost p + chunk_cost (queued_chunks (fl_queue f)) = INITIAL_WINDOW"
    using acc ph n(2) by (simp add: account_def granted_def relaying_def recv_chunks_def)
  have fits: "\<forall>b rest. q_items (fl_queue f) = InData b # rest \<longrightarrow> pending_fits n (length b)"
    using tot n(1) by (auto simp: pending_fits_def queued_chunks_def)
  from turn(1,2) ph n(4,5) fits show ?thesis
  proof (cases rule: connect_cases)
    case (buffered b rest)
    with out have "sink' = fl_back_sink f" by simp
    with buffered tot n hs ph bo up show ?thesis
      by (intro receiver_step [OF inv])
        (auto simp: recv_chunks_def granted_def relaying_def queued_chunks_def handshake_def receiver_up_def)
  next
    case connected
    with out have s: "send_ordered (opened_msg cid True [] CHANNEL_WINDOW) (fl_back_sink f) = Sent sink'"
      using n(3) by auto
    have w: "rw_remaining (fl_window ?f') = rw_remaining (fl_window f) + (CHANNEL_WINDOW - INITIAL_WINDOW)"
      using tot connected by (simp add: rw_grant_def sat_add32_def u32_max_def mux_consts)
    have ph': "st_phase t' = Relaying p" using connected by simp
    have ch: "recv_chunks ?f' = recv_chunks f" "granted ?f' = CHANNEL_WINDOW"
      using connected ph by (simp_all add: recv_chunks_def held_chunks_def writing_chunk_def t2s_new_def granted_def relaying_def)
    have g: "sum_list (map (grant_of cid) (sink_frames sink')) =
        sum_list (map (grant_of cid) (sink_frames (fl_back_sink f))) + (CHANNEL_WINDOW - INITIAL_WINDOW)"
      using send_ordered_sink(2) [OF s, of "grant_of cid"]
      by (simp add: grant_of_def opened_msg_def effective_window_def mux_consts)
    have "fst (fl_send f) = False" "filter (is_opened cid) (sink_frames (fl_back_sink f)) = []"
      using hs ph by (simp_all add: handshake_def relaying_def split: if_splits)
    then have "handshake cid ?f'"
      using hs ph' send_ordered_sink(3) [OF s, of "is_opened cid"] send_ordered_sink(4) [OF s]
      by (simp add: handshake_def relaying_def is_opened_def opened_msg_def)
    moreover have "receiver_up cid ?f'"
      using up connected n by (simp add: receiver_up_def t2s_end_def t2s_new_def rw_grant_def UPDATE_THRESHOLD_def CHANNEL_WINDOW_def)
    moreover have "both_open sink'" using bo send_ordered_sink(6) [OF s] by simp
    moreover have "rw_drained_since_update (fl_window ?f') = 0" using connected n(2) by (simp add: rw_grant_def)
    moreover have "chunk_cost (recv_chunks f) = chunk_cost p + chunk_cost (queued_chunks (fl_queue f))"
      using ph by (simp add: recv_chunks_def)
    ultimately show ?thesis
      using w g ch tot by (intro receiver_step [OF inv]) (simp_all add: mux_consts)
  qed
qed

lemma flow_back:
  assumes inv: "flow_inv cid prebuf f"
    and pop: "sink_pop_data (fl_back_sink f) = Some (m, sink') \<or> sink_pop_control (fl_back_sink f) = Some (m, sink')"
    and gr: "is_grant cid m" and eff: "frame_effect m (fl_send f) = Some ch'"
  shows "flow_inv cid prebuf (f\<lparr>fl_back_sink := sink', fl_send := ch'\<rparr>)" (is "flow_inv cid prebuf ?f'")
proof -
  have acc: "account cid f" and hs: "handshake cid f" and su: "sender_up cid f" and bo: "both_open (fl_back_sink f)"
    using inv by (simp_all add: flow_inv_def sinks_up_alt)
  note ps = pop_back_sink [OF pop]
  obtain op cs where snd: "fl_send f = (op, cs)" by force
  have room: "sc_credit (fl_credit f) + grant_of cid m \<le> CHANNEL_WINDOW"
    using acc ps(1) [of "grant_of cid"] by (auto simp: account_def granted_def mux_consts split: if_splits)
  have ok: "credit_ok (fl_credit f)" using su by (simp add: sender_up_def)
  have new: "sc_credit (fl_credit ?f') = sc_credit (fl_credit f) + grant_of cid m \<and> credit_ok (fl_credit ?f') \<and>
      (is_opened cid m \<longrightarrow> \<not> op) \<and> fst ch' = (op \<or> is_opened cid m)"
  proof (cases m)
    case (FOpened i ok' msg w)
    with gr have m: "i = cid" "is_opened cid m" by (simp_all add: is_grant_def is_opened_def)
    have "f_success m" using hs ps(3) m(2) by (simp add: handshake_def)
    with FOpened have ok': "ok'" by simp
    have "1 \<le> length (filter (is_opened cid) (sink_frames (fl_back_sink f)))"
      using ps(2) [of "is_opened cid"] m(2) by simp
    then have "\<not> op" using hs snd by (auto simp: handshake_def split: if_splits)
    then have "ch' = (True, cs\<lparr>cs_credit := sc_raise_initial w (cs_credit cs)\<rparr>)"
      using eff FOpened ok' snd by (simp add: frame_effect_def)
    then have "fl_credit ?f' = sc_raise_initial w (fl_credit f)" "fst ch' = True"
      by (simp_all add: fl_credit_def snd)
    with \<open>\<not> op\<close> m room ok FOpened sc_raise_exact [of "fl_credit f" w] credit_ok_raise [OF ok, of w] show ?thesis
      by (simp add: grant_of_def)
  next
    case (FWindowUpdate i k)
    with gr have "i = cid" "\<not> is_opened cid m" by (simp_all add: is_grant_def is_opened_def)
    moreover have "ch' = (op, cs\<lparr>cs_credit := sc_add k (cs_credit cs)\<rparr>)"
      using eff FWindowUpdate snd by (simp add: frame_effect_def)
    then have "fl_credit ?f' = sc_add k (fl_credit f)" "fst ch' = op"
      by (simp_all add: fl_credit_def snd)
    ultimately show ?thesis
      using room FWindowUpdate sc_add_exact [of "fl_credit f" k] credit_ok_add by (simp add: grant_of_def)
  qed (use gr in \<open>simp_all add: is_grant_def\<close>)
  have rs: "recv_chunks ?f' = recv_chunks f" "granted ?f' = granted f" "relaying ?f' = relaying f"
    "receiver_up cid ?f' = receiver_up cid f" by (rule recv_same; simp)+
  have "account cid ?f'"
    using acc new ps(1) [of "grant_of cid"] rs unfolding account_def by simp
  moreover have "handshake cid ?f'"
    using hs new ps(2) [of "is_opened cid"] ps(3) rs(3) snd unfolding handshake_def by (auto split: if_splits)
  moreover have "stream_whole cid prebuf ?f'" using inv rs unfolding flow_inv_def stream_whole_def by simp
  moreover have "sender_up cid ?f'" using su new unfolding sender_up_def by simp
  moreover have "sinks_up ?f'" using inv ps(4) bo unfolding flow_inv_def sinks_up_alt by simp
  ultimately show ?thesis using inv rs(4) unfolding flow_inv_def by simp
qed

lemma flow_back_sink_only:
  assumes inv: "flow_inv cid prebuf f"
    and "sum_list (map (grant_of cid) (sink_frames sink')) = sum_list (map (grant_of cid) (sink_frames (fl_back_sink f)))"
    and "length (filter (is_opened cid) (sink_frames sink')) = length (filter (is_opened cid) (sink_frames (fl_back_sink f)))"
    and "\<forall>m \<in> set (sink_frames sink'). is_opened cid m \<longrightarrow> m \<in> set (sink_frames (fl_back_sink f))"
    and "both_open sink'"
  shows "flow_inv cid prebuf (f\<lparr>fl_back_sink := sink'\<rparr>)" (is "flow_inv cid prebuf ?f'")
proof -
  have rs: "recv_chunks ?f' = recv_chunks f" "granted ?f' = granted f" "relaying ?f' = relaying f"
    "receiver_up cid ?f' = receiver_up cid f" by (rule recv_same; simp)+
  have "handshake cid ?f'" using inv assms(3,4) rs(3) unfolding flow_inv_def handshake_def by auto
  moreover have "receiver_up cid ?f'" using inv rs(4) by (simp add: flow_inv_def)
  ultimately show ?thesis
    using inv assms(2,5) rs by (intro receiver_step [OF inv]) (simp_all add: flow_inv_def account_def)
qed

lemma flow_step_inv:
  assumes "flow_step cid f f'" "flow_inv cid prebuf f"
  shows "flow_inv cid prebuf f'"
  using assms
proof (cases rule: flow_step.cases)
  case (fs_read sock s' cr' allow)
  show ?thesis unfolding fs_read(1) by (rule flow_read [OF assms(2) fs_read(2,3)])
next
  case (fs_other_back m sink')
  from fs_other_back(3) not_grant [OF fs_other_back(2)] assms(2) send_back_sink [OF fs_other_back(3)]
  show ?thesis unfolding fs_other_back(1)
    by (intro flow_back_sink_only) (auto simp: flow_inv_def sinks_up_alt)
next
  case (fs_back_other m sink')
  from not_grant [OF fs_back_other(3)] assms(2) pop_back_sink [OF fs_back_other(2)]
  show ?thesis unfolding fs_back_other(1)
    by (intro flow_back_sink_only) (auto simp: flow_inv_def sinks_up_alt)
qed (auto intro: flow_take flow_read flow_send flow_other_out flow_deliver_other flow_deliver(1) flow_connect
    flow_next flow_written flow_back)

lemma flow_steps_inv: "flow_steps cid f f' \<Longrightarrow> flow_inv cid prebuf f \<Longrightarrow> flow_inv cid prebuf f'"
  by (induction rule: flow_steps.induct) (auto intro: flow_step_inv)

lemma flow_open_inv: "flow_inv cid prebuf (flow_open cid prebuf window addr rdp)"
  by (simp add: flow_inv_def flow_defs flow_open_def fl_credit_def shared_new_def server_shared_def s2t_new_def
      rw_new_def sc_new_def q_new_def sink_ordered_def sink_frames_def taken_def granted_def relaying_def
      recv_chunks_def queued_chunks_def effective_window_def credit_ok_def reads_positive_def unsent_def
      sink_is_closed_def mux_consts)

lemma flow_reply_inv: "flow_inv cid [] (flow_reply cid addr rdp)"
  by (simp add: flow_inv_def flow_defs flow_reply_def fl_credit_def shared_new_def server_shared_def s2t_new_def t2s_new_def
      rw_new_def sc_new_def q_new_def sink_ordered_def sink_frames_def taken_def granted_def relaying_def t2s_end_def
      recv_chunks_def held_chunks_def writing_chunk_def queued_chunks_def effective_window_def credit_ok_def
      reads_positive_def unsent_def sink_is_closed_def mux_consts)

lemma flow_start_inv:
  assumes "flow_steps cid f0 f"
    and "f0 = flow_open cid prebuf window addr rdp \<or> f0 = flow_reply cid addr rdp \<and> prebuf = []"
  shows "flow_inv cid prebuf f"
  using assms flow_steps_inv flow_open_inv flow_reply_inv by blast

section \<open>Properties\<close>

text \<open>C1. Between two ends that run this code no credit is lost or invented: at every moment, in
  either direction, the sender's credit, the credit in its hand, the data in flight and the
  grants in flight add up to what the receiver still lets through, and with what the receiver
  holds and owes to exactly the window granted.  So the receiver never takes its peer for one
  that overran its window.\<close>

theorem credit_conserved:
  assumes "flow_steps cid f0 f"
    and "f0 = flow_open cid prebuf window addr rdp \<or> f0 = flow_reply cid addr rdp \<and> prebuf = []"
  shows "\<not> fl_broken f \<and>
    sc_credit (fl_credit f) + taken (fl_s2t f) + sum_list (map (frame_cost cid) (sink_ordered (fl_out_sink f))) +
      sum_list (map (grant_of cid) (sink_frames (fl_back_sink f))) = rw_remaining (fl_window f) \<and>
    rw_remaining (fl_window f) + rw_drained_since_update (fl_window f) + chunk_cost (recv_chunks f) =
      (if relaying f then CHANNEL_WINDOW else INITIAL_WINDOW)"
  using flow_start_inv [OF assms] by (simp add: flow_inv_def account_def granted_def)

theorem credit_conserved_witness:
  "rw_remaining (fl_window (flow_open 1 [7] 0 ''h:1'' False)) +
     chunk_cost (recv_chunks (flow_open 1 [7] 0 ''h:1'' False)) = INITIAL_WINDOW"
  using credit_conserved [OF flow_refl, of "flow_open 1 [7] 0 ''h:1'' False" 1 "[7]" 0 "''h:1''" False]
  by (simp add: relaying_def flow_open_def server_shared_def rw_new_def)

text \<open>C2. The byte stream crosses the tunnel whole: what was read at one end is what was written at
  the other, followed by what the receiver holds, what is in flight and what the sender still has
  in hand, in this order.\<close>

theorem stream_end_to_end:
  assumes "flow_steps cid f0 f"
    and "f0 = flow_open cid prebuf window addr rdp \<or> f0 = flow_reply cid addr rdp \<and> prebuf = []"
  shows "prebuf @ fl_sock f = fl_written f @ concat (recv_chunks f) @
    concat (map (frame_bytes cid) (sink_ordered (fl_out_sink f))) @ unsent (fl_s2t f)"
  using flow_start_inv [OF assms] by (simp add: flow_inv_def stream_whole_def)

theorem stream_end_to_end_witness:
  "[7] @ fl_sock (flow_open 1 [7] 0 ''h:1'' False) = unsent (fl_s2t (flow_open 1 [7] 0 ''h:1'' False))"
  using stream_end_to_end [OF flow_refl, of "flow_open 1 [7] 0 ''h:1'' False" 1 "[7]" 0 "''h:1''" False]
  by (simp add: flow_open_def recv_chunks_def server_shared_def queued_chunks_def q_new_def sink_ordered_def)

text \<open>C14. Flow control never deadlocks: when a relaying channel has nothing in flight, nothing
  queued and nothing being written, a sender waiting for credit gets a full frame's worth on its next
  poll, although the receiver may be withholding a window update.\<close>

theorem idle_channel_can_send:
  assumes "flow_steps cid f0 f"
    and "f0 = flow_open cid prebuf window addr rdp \<or> f0 = flow_reply cid addr rdp \<and> prebuf = []"
    and "relaying f" "s_pc (fl_s2t f) = STake" "recv_chunks f = []"
    and "sink_ordered (fl_out_sink f) = []" "sink_frames (fl_back_sink f) = []"
  shows "\<exists>s' cr'. s2t_take (fl_s2t f) (fl_credit f) = Some (s', cr') \<and> s_pc s' = SRead MAX_FRAME"
proof -
  have inv: "flow_inv cid prebuf f" using assms(1,2) by (rule flow_start_inv)
  then have acc: "account cid f" and ok: "credit_ok (fl_credit f)"
    by (simp_all add: flow_inv_def sender_up_def)
  have "rw_drained_since_update (fl_window f) < UPDATE_THRESHOLD"
    using inv assms(3) by (auto simp: flow_inv_def receiver_up_def relaying_def split: conn_phase.splits)
  with acc assms(3-7) have "MAX_FRAME \<le> sc_credit (fl_credit f)"
    by (simp add: account_def granted_def taken_def mux_consts)
  moreover from this have "MIN_FRAME_CHARGE \<le> sc_credit (fl_credit f)" by (simp add: mux_consts)
  ultimately show ?thesis
    using sc_take_ready [OF ok, of MAX_FRAME] assms(4) by (auto simp: s2t_take_def min_def)
qed

theorem idle_channel_can_send_witness:
  "\<exists>s' cr'. s2t_take (fl_s2t (flow_reply 1 ''h:1'' False)) (fl_credit (flow_reply 1 ''h:1'' False)) = Some (s', cr') \<and>
     s_pc s' = SRead MAX_FRAME"
  by (rule idle_channel_can_send [OF flow_refl, where prebuf = "[]" and addr = "''h:1''" and rdp = False and cid = 1])
    (simp_all add: flow_reply_def relaying_def s2t_new_def recv_chunks_def held_chunks_def writing_chunk_def t2s_new_def
      shared_new_def queued_chunks_def q_new_def sink_ordered_def sink_frames_def)

end
