(* ===== verification/F32.thy ===== *)
theory F32
  imports Complex_Main Prelude
begin

text \<open>
  \<open>f32\<close> arithmetic.  A finite \<open>f32\<close> is the rational it denotes; an arithmetic operation is the
  exact operation followed by \<open>round32\<close>, rounding to the nearest value with a 24-bit
  significand and exponent at least \<open>-126\<close>, ties to the even significand (IEEE 754 binary32).
  Infinities and NaN are not represented: the code modelled with it divides by positive
  numbers only and stays far below \<open>2 ^ 127\<close>.
\<close>

type_synonym f32 = rat

section \<open>Rounding\<close>

definition pow2 :: "int \<Rightarrow> rat" where
  "pow2 e = (if 0 \<le> e then 2 ^ nat e else 1 / 2 ^ nat (- e))"

fun nat_log2 :: "nat \<Rightarrow> nat" where
  "nat_log2 n = (if n < 2 then 0 else Suc (nat_log2 (n div 2)))"

declare nat_log2.simps [simp del]

text \<open>The exponent: the greatest \<open>e\<close> with \<open>pow2 e \<le> x\<close>, for positive \<open>x\<close>.\<close>

definition exponent :: "rat \<Rightarrow> int" where
  "exponent x =
     (let (p, q) = quotient_of x;
          e = int (nat_log2 (nat p)) - int (nat_log2 (nat q))
      in if pow2 e \<le> x then e else e - 1)"

definition round_half_even :: "rat \<Rightarrow> int" where
  "round_half_even x =
     (let k = \<lfloor>x\<rfloor>; r = x - of_int k
      in if r < 1 / 2 then k else if r > 1 / 2 then k + 1 else if even k then k else k + 1)"

definition ulp :: "rat \<Rightarrow> rat" where
  "ulp x = pow2 (max (exponent x) (- 126) - 23)"

definition round32 :: "rat \<Rightarrow> f32" where
  "round32 x =
     (if x = 0 then 0
      else if x < 0 then - (of_int (round_half_even (- x / ulp (- x))) * ulp (- x))
      else of_int (round_half_even (x / ulp x)) * ulp x)"

text \<open>The operations of the code: \<open>n as f32\<close>, \<open>*\<close>, \<open>/\<close>, \<open>ceil\<close> and the saturating \<open>as u32\<close>.\<close>

definition f32_of_nat :: "nat \<Rightarrow> f32" where
  "f32_of_nat n = round32 (of_nat n)"

definition f32_mul :: "f32 \<Rightarrow> f32 \<Rightarrow> f32" where
  "f32_mul a b = round32 (a * b)"

definition f32_div :: "f32 \<Rightarrow> f32 \<Rightarrow> f32" where
  "f32_div a b = round32 (a / b)"

definition f32_ceil_u32 :: "f32 \<Rightarrow> nat" where
  "f32_ceil_u32 a = min (nat \<lceil>a\<rceil>) u32_max"

section \<open>Powers of two and exponents\<close>

lemma pow2_pos [simp]: "0 < pow2 e"
  by (simp add: pow2_def)

lemma pow2_Suc: "pow2 (e + 1) = 2 * pow2 e"
proof (cases "0 \<le> e")
  case True
  then show ?thesis by (simp add: pow2_def nat_add_distrib)
next
  case False
  then have "nat (- e) = Suc (nat (- e - 1))" by simp
  with False show ?thesis by (auto simp: pow2_def)
qed

lemma pow2_add_nat: "pow2 (e + int n) = 2 ^ n * pow2 e"
proof (induction n)
  case (Suc n)
  have "pow2 (e + int (Suc n)) = pow2 ((e + int n) + 1)" by (simp add: algebra_simps)
  with Suc show ?case by (simp add: pow2_Suc)
qed simp

lemma pow2_mono: "a \<le> b \<Longrightarrow> pow2 a \<le> pow2 b"
proof -
  assume "a \<le> b"
  then have "b = a + int (nat (b - a))" by simp
  then have "pow2 b = 2 ^ nat (b - a) * pow2 a" using pow2_add_nat by metis
  then show ?thesis using mult_right_mono [of 1 "2 ^ nat (b - a)" "pow2 a"] by simp
qed

lemma pow2_less: "pow2 a < pow2 b \<Longrightarrow> a < b"
  using pow2_mono [of b a] by (rule_tac ccontr) simp

lemma pow2_diff: "pow2 (int a - int b) = 2 ^ a / 2 ^ b"
proof (cases "b \<le> a")
  case True
  then have "pow2 (int a - int b) = 2 ^ (a - b)" by (simp add: pow2_def nat_diff_distrib)
  with True show ?thesis by (simp add: power_diff)
next
  case False
  then have "pow2 (int a - int b) = 1 / 2 ^ (b - a)" by (simp add: pow2_def nat_diff_distrib)
  with False show ?thesis by (simp add: power_diff)
qed

lemma nat_log2_bounds: "0 < n \<Longrightarrow> 2 ^ nat_log2 n \<le> n \<and> n < 2 ^ Suc (nat_log2 n)"
proof (induction n rule: nat_log2.induct)
  case (1 n)
  show ?case
  proof (cases "n < 2")
    case True
    with 1 show ?thesis by (subst (1 2) nat_log2.simps) simp
  next
    case False
    with 1 have "2 ^ nat_log2 (n div 2) \<le> n div 2 \<and> n div 2 < 2 ^ Suc (nat_log2 (n div 2))" by simp
    with False show ?thesis by (subst (1 2) nat_log2.simps) auto
  qed
qed

lemma exponent_bounds:
  assumes "0 < x"
  shows "pow2 (exponent x) \<le> x \<and> x < pow2 (exponent x + 1)"
proof -
  obtain p q where pq: "quotient_of x = (p, q)" by force
  have q: "0 < q" and x: "x = of_int p / of_int q"
    using quotient_of_denom_pos [OF pq] quotient_of_div [OF pq] by auto
  then have p: "0 < p" using assms by (simp add: zero_less_divide_iff)
  let ?a = "nat_log2 (nat p)" and ?b = "nat_log2 (nat q)"
  define P Q where "P = (of_int p :: rat)" and "Q = (of_int q :: rat)"
  have "of_nat (2 ^ ?a) \<le> (of_nat (nat p) :: rat)" "of_nat (nat p) < (of_nat (2 ^ Suc ?a) :: rat)"
    using nat_log2_bounds [of "nat p"] p unfolding of_nat_le_iff of_nat_less_iff by simp_all
  then have pb: "2 ^ ?a \<le> P" "P < 2 * 2 ^ ?a" using p by (simp_all add: P_def)
  have "of_nat (2 ^ ?b) \<le> (of_nat (nat q) :: rat)" "of_nat (nat q) < (of_nat (2 ^ Suc ?b) :: rat)"
    using nat_log2_bounds [of "nat q"] q unfolding of_nat_le_iff of_nat_less_iff by simp_all
  then have qb: "2 ^ ?b \<le> Q" "Q < 2 * 2 ^ ?b" using q by (simp_all add: Q_def)
  have Q: "0 < Q" using q by (simp add: Q_def)
  have x': "x = P / Q" using x by (simp add: P_def Q_def)
  let ?e = "int ?a - int ?b"
  have e: "pow2 ?e = 2 ^ ?a / 2 ^ ?b" by (rule pow2_diff)
  have "P * 2 ^ ?b < (2 * 2 ^ ?a) * 2 ^ ?b" using pb by simp
  also have "\<dots> \<le> (2 * 2 ^ ?a) * Q" using qb by simp
  finally have up: "x < pow2 (?e + 1)"
    unfolding pow2_Suc e x' using Q by (simp add: field_simps)
  have "2 ^ ?a * Q \<le> 2 * (P * 2 ^ ?b)"
    using pb qb mult_mono [of "2 ^ ?a" P Q "2 * 2 ^ ?b"] Q by simp
  then have low: "pow2 (?e - 1) \<le> x"
    using pow2_Suc [of "?e - 1"] e Q unfolding x' by (simp add: field_simps)
  show ?thesis
  proof (cases "pow2 ?e \<le> x")
    case True
    with up pq show ?thesis by (simp add: exponent_def)
  next
    case False
    with low pq show ?thesis by (simp add: exponent_def)
  qed
qed

lemma exponent_mono:
  assumes "0 < x" "x \<le> y"
  shows "exponent x \<le> exponent y"
proof (rule ccontr)
  assume "\<not> exponent x \<le> exponent y"
  then have "pow2 (exponent y + 1) \<le> pow2 (exponent x)" by (intro pow2_mono) simp
  with exponent_bounds [of x] exponent_bounds [of y] assms show False by linarith
qed

section \<open>Rounding is monotone and exact where it can be\<close>

lemma round_half_even_int: "round_half_even (of_int k) = k"
  by (simp add: round_half_even_def)

lemma round_half_even_mono: "x \<le> y \<Longrightarrow> round_half_even x \<le> round_half_even y"
proof -
  assume xy: "x \<le> y"
  have f: "\<lfloor>x\<rfloor> \<le> \<lfloor>y\<rfloor>" using xy by (rule floor_mono)
  have b: "\<lfloor>z\<rfloor> \<le> round_half_even z \<and> round_half_even z \<le> \<lfloor>z\<rfloor> + 1" for z
    by (simp add: round_half_even_def Let_def)
  show ?thesis
  proof (cases "\<lfloor>x\<rfloor> = \<lfloor>y\<rfloor>")
    case True
    then show ?thesis using xy by (auto simp: round_half_even_def Let_def)
  next
    case False
    with f b [of x] b [of y] show ?thesis by linarith
  qed
qed

lemma ulp_pos [simp]: "0 < ulp x"
  by (simp add: ulp_def)

text \<open>Positive numbers of a binade round into the closed binade.\<close>

lemma round32_binade:
  assumes "0 < x" "- 126 \<le> exponent x"
  shows "pow2 (exponent x) \<le> round32 x \<and> round32 x \<le> pow2 (exponent x + 1)"
proof -
  let ?e = "exponent x"
  have u: "ulp x = pow2 (?e - 23)" using assms(2) by (simp add: ulp_def max_def)
  have p: "pow2 ?e = 2 ^ 23 * ulp x" "pow2 (?e + 1) = 2 ^ 24 * ulp x"
    using pow2_add_nat [of "?e - 23" 23] pow2_add_nat [of "?e - 23" 24] unfolding u by (simp_all add: add.commute)
  have "of_int (2 ^ 23) \<le> x / ulp x" "x / ulp x \<le> of_int (2 ^ 24)"
    using exponent_bounds [OF assms(1)] p by (simp_all add: field_simps)
  from this [THEN round_half_even_mono]
  have "2 ^ 23 \<le> round_half_even (x / ulp x)" "round_half_even (x / ulp x) \<le> 2 ^ 24"
    unfolding round_half_even_int by simp_all
  then have "of_int (2 ^ 23) \<le> (of_int (round_half_even (x / ulp x)) :: rat)"
      "(of_int (round_half_even (x / ulp x)) :: rat) \<le> of_int (2 ^ 24)"
    unfolding of_int_le_iff by simp_all
  then show ?thesis
    using assms(1) p by (simp add: round32_def)
qed

lemma round32_upper:
  assumes "0 < x"
  shows "round32 x \<le> pow2 (max (exponent x) (- 126) + 1)"
proof -
  let ?m = "max (exponent x) (- 126)"
  have p: "pow2 (?m + 1) = 2 ^ 24 * ulp x"
    using pow2_add_nat [of "?m - 23" 24] by (simp add: ulp_def add.commute)
  have "x \<le> pow2 (?m + 1)"
    using exponent_bounds [OF assms] pow2_mono [of "exponent x + 1" "?m + 1"] by linarith
  then have "x / ulp x \<le> of_int (2 ^ 24)" using p by (simp add: field_simps)
  from round_half_even_mono [OF this] have "round_half_even (x / ulp x) \<le> 2 ^ 24"
    unfolding round_half_even_int .
  then have "(of_int (round_half_even (x / ulp x)) :: rat) \<le> of_int (2 ^ 24)" unfolding of_int_le_iff .
  then show ?thesis using p assms by (simp add: round32_def mult_right_mono less_imp_le)
qed

lemma round32_mono:
  assumes "0 \<le> x" "x \<le> y"
  shows "round32 x \<le> round32 y"
proof (cases "x = 0")
  case True
  have "0 \<le> round_half_even (y / ulp y)" if "0 < y"
  proof -
    have "of_int 0 \<le> y / ulp y" using that by (simp add: less_imp_le)
    from round_half_even_mono [OF this] show ?thesis unfolding round_half_even_int .
  qed
  with True assms show ?thesis by (auto simp: round32_def less_imp_le)
next
  case False
  then have pos: "0 < x" "0 < y" using assms by auto
  show ?thesis
  proof (cases "ulp x = ulp y")
    case True
    have "round_half_even (x / ulp y) \<le> round_half_even (y / ulp y)"
      using assms(2) by (intro round_half_even_mono divide_right_mono) (simp_all add: less_imp_le)
    with True pos show ?thesis by (simp add: round32_def mult_right_mono less_imp_le)
  next
    case ulps: False
    have le: "exponent x \<le> exponent y" using pos(1) assms(2) by (rule exponent_mono)
    have "exponent x \<noteq> exponent y" using ulps by (auto simp: ulp_def)
    moreover have "- 126 < exponent y" using ulps le by (auto simp: ulp_def max_def split: if_splits)
    ultimately have y: "- 126 < exponent y" "exponent x < exponent y" using le by simp_all
    have "round32 x \<le> pow2 (max (exponent x) (- 126) + 1)" using pos(1) by (rule round32_upper)
    also have "\<dots> \<le> pow2 (exponent y)" using y by (intro pow2_mono) (simp add: max_def)
    also have "\<dots> \<le> round32 y" using round32_binade [OF pos(2)] y(1) by simp
    finally show ?thesis .
  qed
qed

lemma round32_nonneg: "0 \<le> x \<Longrightarrow> 0 \<le> round32 x"
  using round32_mono [of 0 x] by (simp add: round32_def)

text \<open>A value is representable when rounding leaves it alone; results of rounding are.\<close>

definition is_f32 :: "rat \<Rightarrow> bool" where
  "is_f32 x = (round32 x = x)"

lemma round32_idem:
  assumes "0 \<le> x"
  shows "is_f32 (round32 x)"
proof (cases "round32 x = 0")
  case True
  then show ?thesis by (simp add: is_f32_def round32_def)
next
  case False
  then have x: "0 < x" using assms by (cases "x = 0") (auto simp: round32_def)
  let ?m = "max (exponent x) (- 126)" and ?k = "round_half_even (x / ulp x)"
  have r: "round32 x = of_int ?k * ulp x" using x by (simp add: round32_def)
  have rpos: "0 < round32 x" using False round32_nonneg [OF assms] by simp
  have le: "round32 x \<le> pow2 (?m + 1)" using x by (rule round32_upper)
  obtain n where n: "ulp x = 2 ^ n * ulp (round32 x) \<or> round32 x = 2 ^ 23 * ulp (round32 x)"
  proof (cases "round32 x < pow2 (?m + 1)")
    case True
    have "exponent (round32 x) \<le> ?m"
    proof (rule ccontr)
      assume "\<not> exponent (round32 x) \<le> ?m"
      then have "pow2 (?m + 1) \<le> pow2 (exponent (round32 x))" by (intro pow2_mono) simp
      with exponent_bounds [OF rpos] True show False by linarith
    qed
    then have "?m - 23 = max (exponent (round32 x)) (- 126) - 23 + int (nat (?m - max (exponent (round32 x)) (- 126)))"
      by simp
    then have "ulp x = 2 ^ nat (?m - max (exponent (round32 x)) (- 126)) * ulp (round32 x)"
      unfolding ulp_def by (metis pow2_add_nat)
    then show thesis using that by blast
  next
    case False
    with le have eq: "round32 x = pow2 (?m + 1)" by simp
    then have b: "pow2 (exponent (round32 x)) \<le> pow2 (?m + 1)" "pow2 (?m + 1) < pow2 (exponent (round32 x) + 1)"
      using exponent_bounds [OF rpos] by simp_all
    have "pow2 (exponent (round32 x)) < pow2 (?m + 1 + 1)"
      using b(1) pow2_Suc [of "?m + 1"] pow2_pos [of "?m + 1"] by linarith
    then have "exponent (round32 x) = ?m + 1"
      using pow2_less [OF b(2)] pow2_less by fastforce
    then have "ulp (round32 x) = pow2 (?m + 1 - 23)" by (simp add: ulp_def max_def)
    then have "round32 x = 2 ^ 23 * ulp (round32 x)"
      using eq pow2_add_nat [of "?m + 1 - 23" 23] by (simp add: add.commute)
    then show thesis using that by blast
  qed
  then have "\<exists>j :: int. round32 x / ulp (round32 x) = of_int j"
  proof
    assume u: "ulp x = 2 ^ n * ulp (round32 x)"
    define U K where "U = ulp (round32 x)" and "K = ?k"
    have "round32 x = of_int K * (2 ^ n * U)" "0 < U" using r u by (simp_all add: U_def K_def)
    then have "round32 x / U = of_int (K * 2 ^ n)" by simp
    then have "round32 x / ulp (round32 x) = of_int (K * 2 ^ n)" by (simp add: U_def)
    then show ?thesis by blast
  next
    assume u: "round32 x = 2 ^ 23 * ulp (round32 x)"
    define U where "U = ulp (round32 x)"
    have "round32 x = 2 ^ 23 * U" "0 < U" using u by (simp_all add: U_def)
    then have "round32 x / U = of_int (2 ^ 23)" by simp
    then show ?thesis unfolding U_def by blast
  qed
  then obtain j :: int where j: "round32 x / ulp (round32 x) = of_int j" by blast
  then have "round32 (round32 x) = of_int j * ulp (round32 x)"
    using rpos round_half_even_int [of j] by (simp add: round32_def [of "round32 x"])
  also have "\<dots> = round32 x" unfolding j [symmetric] using less_imp_neq [OF ulp_pos [of "round32 x"]] by simp
  finally show ?thesis unfolding is_f32_def .
qed

text \<open>Scaling down never increases a representable value, scaling up never decreases it.\<close>

lemma f32_mul_le: "is_f32 a \<Longrightarrow> 0 \<le> a \<Longrightarrow> 0 \<le> c \<Longrightarrow> c \<le> 1 \<Longrightarrow> f32_mul a c \<le> a"
  using round32_mono [of "a * c" a] by (simp add: f32_mul_def is_f32_def mult_left_le)

lemma f32_mul_ge: "is_f32 a \<Longrightarrow> 0 \<le> a \<Longrightarrow> 1 \<le> c \<Longrightarrow> a \<le> f32_mul a c"
  using round32_mono [of a "a * c"] by (simp add: f32_mul_def is_f32_def mult_left_mono [of 1 c a, simplified])

lemma f32_div_le: "is_f32 a \<Longrightarrow> 0 \<le> a \<Longrightarrow> 1 \<le> b \<Longrightarrow> f32_div a b \<le> a"
  using round32_mono [of "a / b" a] by (simp add: f32_div_def is_f32_def divide_le_eq mult_left_mono [of 1 b a, simplified])

end
