(* ===== verification/Video_Qos.thy ===== *)
theory Video_Qos
  imports F32
begin

text \<open>
  The video quality-of-service controller, \<open>src/server/video_qos.rs\<close>, with the quality
  levels of \<open>libs/scrap/src/common/codec.rs\<close>: the baseline of the round-trip time, a
  viewer's delay state with its frame-rate adaptation, and the controller that derives one
  frame rate and one bitrate ratio for the stream from all viewers.

  The clock is an argument (\<open>now\<close>, in milliseconds), as are the wall-clock time and the
  configuration option the code reads.  Ratios are \<open>f32\<close>; counters and rates are \<open>nat\<close>,
  with the saturation and the wrap-around of the code written out.
\<close>

section \<open>Constants and quality levels\<close>

definition FPS :: nat where "FPS = 30"
definition MIN_FPS :: nat where "MIN_FPS = 1"
definition MAX_FPS :: nat where "MAX_FPS = 120"
definition INIT_FPS :: nat where "INIT_FPS = 15"
definition MIN_AUTO_FPS :: nat where "MIN_AUTO_FPS = 5"

definition BR_MAX :: f32 where "BR_MAX = 40"
definition BR_MIN :: f32 where "BR_MIN = round32 (2 / 10)"
definition BR_MIN_HIGH_RESOLUTION :: f32 where "BR_MIN_HIGH_RESOLUTION = round32 (1 / 10)"
definition MAX_BR_MULTIPLE :: f32 where "MAX_BR_MULTIPLE = 1"

definition BR_BEST :: f32 where "BR_BEST = 3 / 2"
definition BR_BALANCED :: f32 where "BR_BALANCED = round32 (67 / 100)"
definition BR_SPEED :: f32 where "BR_SPEED = 1 / 2"

definition HISTORY_DELAY_LEN :: nat where "HISTORY_DELAY_LEN = 2"
definition ADJUST_RATIO_INTERVAL :: nat where "ADJUST_RATIO_INTERVAL = 3"
definition DYNAMIC_SCREEN_THRESHOLD :: nat where "DYNAMIC_SCREEN_THRESHOLD = 2"
definition DELAY_THRESHOLD_150MS :: nat where "DELAY_THRESHOLD_150MS = 150"
definition RESTORE_GUARD_SAMPLES :: nat where "RESTORE_GUARD_SAMPLES = 5"

lemmas fps_consts = FPS_def MIN_FPS_def MAX_FPS_def INIT_FPS_def MIN_AUTO_FPS_def
lemmas qos_consts = HISTORY_DELAY_LEN_def ADJUST_RATIO_INTERVAL_def DYNAMIC_SCREEN_THRESHOLD_def
  DELAY_THRESHOLD_150MS_def RESTORE_GUARD_SAMPLES_def

datatype quality = Best | Balanced | Low | Custom f32

definition quality_ratio :: "quality \<Rightarrow> f32" where
  "quality_ratio q = (case q of Best \<Rightarrow> BR_BEST | Balanced \<Rightarrow> BR_BALANCED | Low \<Rightarrow> BR_SPEED | Custom v \<Rightarrow> v)"

section \<open>The round-trip baseline\<close>

record rtt_calculator =
  rc_baseline :: "nat option"
  rc_samples :: "nat list"

definition WINDOW_SAMPLES :: nat where "WINDOW_SAMPLES = 20"
definition MAX_INCREASE_MS :: nat where "MAX_INCREASE_MS = 50"

definition rtt_default :: rtt_calculator where
  "rtt_default = \<lparr>rc_baseline = None, rc_samples = []\<rparr>"

definition rtt_update :: "nat \<Rightarrow> rtt_calculator \<Rightarrow> rtt_calculator" where
  "rtt_update delay c =
     (let samples = (if length (rc_samples c) \<ge> WINDOW_SAMPLES then drop 1 (rc_samples c) else rc_samples c) @ [delay];
          baseline = min (case rc_baseline c of Some b \<Rightarrow> b | None \<Rightarrow> delay) delay;
          c1 = \<lparr>rc_baseline = Some baseline, rc_samples = samples\<rparr>
      in if length samples < WINDOW_SAMPLES then c1
         else let half = WINDOW_SAMPLES div 2;
                  older_min = Min (set (take half samples));
                  recent_min = Min (set (drop half samples))
              in if recent_min > sat_add32 older_min 10 then c1
                 else let rise = min older_min recent_min - baseline
                      in if rise > 0 then c1\<lparr>rc_baseline := Some (baseline + clampv 1 MAX_INCREASE_MS (rise div 2))\<rparr>
                         else c1)"

section \<open>A viewer's delay\<close>

record user_delay =
  ud_stall_ticks :: nat
  ud_delay_history :: "nat list"
  ud_fps :: "nat option"
  ud_rtt :: rtt_calculator
  ud_quick_increase_fps_count :: nat
  ud_increase_fps_count :: nat
  ud_consecutive_bad_samples :: nat
  ud_fps_bad_samples :: nat
  ud_good_samples :: nat
  ud_replies_after_bitrate_reduction :: "nat option"
  ud_fps_before_congestion :: "nat option"
  ud_samples_since_restore :: "nat option"
  ud_stall_reference_fps :: "nat option"
  ud_startup_good_samples :: nat

definition delay_default :: user_delay where
  "delay_default = \<lparr>ud_stall_ticks = 0, ud_delay_history = [], ud_fps = None, ud_rtt = rtt_default,
     ud_quick_increase_fps_count = 0, ud_increase_fps_count = 0, ud_consecutive_bad_samples = 0,
     ud_fps_bad_samples = 0, ud_good_samples = 0, ud_replies_after_bitrate_reduction = None,
     ud_fps_before_congestion = None, ud_samples_since_restore = None, ud_stall_reference_fps = None,
     ud_startup_good_samples = 0\<rparr>"

definition get_rtt0 :: "user_delay \<Rightarrow> nat" where
  "get_rtt0 u = (case rc_baseline (ud_rtt u) of Some b \<Rightarrow> b | None \<Rightarrow> 0)"

definition add_delay :: "nat \<Rightarrow> user_delay \<Rightarrow> user_delay" where
  "add_delay delay u =
     u\<lparr>ud_delay_history :=
        (if length (ud_delay_history u) \<ge> HISTORY_DELAY_LEN then drop 1 (ud_delay_history u) else ud_delay_history u) @ [delay]\<rparr>"

text \<open>The sum is a \<open>u32\<close>: it wraps in a release build.\<close>

definition avg_delay :: "user_delay \<Rightarrow> nat" where
  "avg_delay u =
     (if ud_delay_history u = [] then DELAY_THRESHOLD_150MS
      else wrap32 (sum_list (ud_delay_history u)) div length (ud_delay_history u) - get_rtt0 u)"

definition on_reduction :: "nat \<Rightarrow> user_delay \<Rightarrow> user_delay" where
  "on_reduction current_fps u =
     u\<lparr>ud_startup_good_samples := u8_max, ud_good_samples := 0, ud_fps_bad_samples := 0,
       ud_fps_before_congestion :=
         (case ud_fps_before_congestion u of None \<Rightarrow> Some current_fps | Some l \<Rightarrow> Some l)\<rparr>"

definition recover :: "nat \<Rightarrow> nat \<Rightarrow> user_delay \<Rightarrow> nat \<times> user_delay" where
  "recover current_fps fps u =
     (let gradual = current_fps + max (current_fps div 10) 1;
          level = (case ud_fps_before_congestion u of
                     Some l \<Rightarrow> if l > current_fps then Some l else None | None \<Rightarrow> None)
      in case level of
           Some l \<Rightarrow>
             (if ud_good_samples u = 2 \<or> ud_good_samples u = 3
              then (max fps l, u\<lparr>ud_fps_before_congestion := None, ud_samples_since_restore := Some 0\<rparr>)
              else (gradual, u))
         | None \<Rightarrow>
             (if ud_good_samples u = 3
              then (max fps (current_fps + max (current_fps div 5) 2), u\<lparr>ud_fps_before_congestion := None\<rparr>)
              else (gradual, u)))"

text \<open>A recent restore: at most \<open>RESTORE_GUARD_SAMPLES\<close> replies ago.\<close>

definition restore_guarded :: "user_delay \<Rightarrow> bool" where
  "restore_guarded u = (case ud_samples_since_restore u of Some n \<Rightarrow> n \<le> RESTORE_GUARD_SAMPLES | None \<Rightarrow> False)"

definition count_restore :: "user_delay \<Rightarrow> user_delay" where
  "count_restore u = u\<lparr>ud_samples_since_restore := map_option (\<lambda>n. sat_add8 n 1) (ud_samples_since_restore u)\<rparr>"

definition good_reply :: "user_delay \<Rightarrow> user_delay" where
  "good_reply u = u\<lparr>ud_consecutive_bad_samples := 0, ud_fps_bad_samples := 0,
     ud_replies_after_bitrate_reduction := None, ud_good_samples := min (ud_good_samples u + 1) 3\<rparr>"

definition bad_reply :: "user_delay \<Rightarrow> user_delay" where
  "bad_reply u = u\<lparr>ud_consecutive_bad_samples := min (ud_consecutive_bad_samples u + 1) 3,
     ud_fps_bad_samples := min (ud_fps_bad_samples u + 1) 3,
     ud_replies_after_bitrate_reduction := map_option (\<lambda>r. min (r + 1) 2) (ud_replies_after_bitrate_reduction u)\<rparr>"

definition lower_level :: "nat \<Rightarrow> bool \<Rightarrow> user_delay \<Rightarrow> user_delay" where
  "lower_level current_fps failed_restore u =
     (if restore_guarded u \<and> (failed_restore \<or> ud_consecutive_bad_samples u \<ge> 3)
      then u\<lparr>ud_fps_before_congestion := Some (current_fps - current_fps div 4), ud_samples_since_restore := None\<rparr>
      else u)"

definition limit_fps_change :: "nat \<Rightarrow> nat \<Rightarrow> nat \<Rightarrow> bool \<Rightarrow> bool \<Rightarrow> user_delay \<Rightarrow> nat \<times> user_delay" where
  "limit_fps_change current_fps fps raw_delay bitrate_first braked u0 =
     (let delay = raw_delay - get_rtt0 u0; u1 = count_restore u0
      in if delay < DELAY_THRESHOLD_150MS then recover current_fps fps (good_reply u1)
         else
           let u2 = bad_reply u1;
               failed_restore = (delay \<ge> 600 \<and> restore_guarded u2);
               u3 = lower_level current_fps failed_restore u2
           in if fps \<ge> current_fps \<or> braked then (current_fps, u3)
              else if \<not> failed_restore \<and> delay < 1000 \<and>
                      (ud_fps_bad_samples u3 < 3 \<or>
                       bitrate_first \<and> (case ud_replies_after_bitrate_reduction u3 of Some r \<Rightarrow> r | None \<Rightarrow> 0) < 2)
                   then (current_fps, u3)
              else let divisor = (if delay \<ge> 1000 \<or> failed_restore then 2 else 5)
                   in (max fps (current_fps - max (current_fps div divisor) 1), on_reduction current_fps u3))"

definition accelerate_startup :: "nat \<Rightarrow> nat \<Rightarrow> nat \<Rightarrow> nat \<Rightarrow> bool \<Rightarrow> user_delay \<Rightarrow> nat \<times> user_delay" where
  "accelerate_startup current_fps fps cap delay braked u =
     (if ud_startup_good_samples u = u8_max then (fps, u)
      else let excess = delay - get_rtt0 u in
        if braked \<or> excess \<ge> 50 \<or> current_fps \<ge> cap then (fps, u\<lparr>ud_startup_good_samples := u8_max\<rparr>)
        else let n = ud_startup_good_samples u + 1 in
          if n < 2 then (fps, u\<lparr>ud_startup_good_samples := n\<rparr>)
          else let accelerated = min (max fps (sat_mul32 current_fps 2)) cap
               in (accelerated, u\<lparr>ud_startup_good_samples := (if accelerated \<ge> cap then u8_max else 0)\<rparr>))"

definition needs_bitrate_reduction :: "user_delay \<Rightarrow> bool" where
  "needs_bitrate_reduction u = (ud_consecutive_bad_samples u \<ge> 2 \<or> ud_stall_ticks u \<ge> 2)"

definition ratio_reduction :: "user_delay \<Rightarrow> f32 option" where
  "ratio_reduction u =
     (if \<not> needs_bitrate_reduction u then None
      else let excess = avg_delay u; confirmed = (ud_consecutive_bad_samples u \<ge> 3) in
        Some (if excess < 200 then round32 (95 / 100)
              else if excess < 300 then round32 (9 / 10)
              else if excess < 500 then (if confirmed then round32 (7 / 10) else round32 (85 / 100))
              else if confirmed then 1 / 2 else round32 (8 / 10)))"

section \<open>Viewers, displays, the controller\<close>

record user_data =
  us_auto_adjust_fps :: "nat option"
  us_custom_fps :: "nat option"
  us_quality :: "(int \<times> quality) option"
  us_delay :: user_delay
  us_record :: bool
  us_joined_at :: "nat option"

definition user_default :: user_data where
  "user_default = \<lparr>us_auto_adjust_fps = None, us_custom_fps = None, us_quality = None, us_delay = delay_default,
     us_record = False, us_joined_at = None\<rparr>"

definition fps_cap :: "user_data \<Rightarrow> nat" where
  "fps_cap u =
     (let fps = (case us_custom_fps u of Some f \<Rightarrow> f | None \<Rightarrow> FPS);
          fps' = (case us_auto_adjust_fps u of
                    Some a \<Rightarrow> if fps = 0 \<or> a < fps then a else fps
                  | None \<Rightarrow> fps)
      in clampv MIN_FPS MAX_FPS fps')"

record display_data =
  dd_send_counter :: nat
  dd_support_changing_quality :: bool

record video_qos =
  vq_fps :: nat
  vq_ratio :: f32
  vq_users :: "(i32 \<times> user_data) list"
  vq_displays :: "(string \<times> display_data) list"
  vq_bitrate_store :: nat
  vq_adjust_ratio_instant :: nat
  vq_abr_config :: bool
  vq_first_reply_adjusts_ratio :: bool

definition vq_default :: "bool \<Rightarrow> nat \<Rightarrow> video_qos" where
  "vq_default linux now = \<lparr>vq_fps = FPS, vq_ratio = BR_BALANCED, vq_users = [], vq_displays = [], vq_bitrate_store = 0,
     vq_adjust_ratio_instant = now, vq_abr_config = True, vq_first_reply_adjusts_ratio = \<not> linux\<rparr>"

definition since_secs :: "nat \<Rightarrow> nat \<Rightarrow> nat" where
  "since_secs now instant = (now - instant) div 1000"

definition qos_fps :: "video_qos \<Rightarrow> nat" where
  "qos_fps q = (if MIN_FPS \<le> vq_fps q \<and> vq_fps q \<le> MAX_FPS then vq_fps q else FPS)"

definition store_bitrate :: "nat \<Rightarrow> video_qos \<Rightarrow> video_qos" where
  "store_bitrate b q = q\<lparr>vq_bitrate_store := b\<rparr>"

definition qos_ratio :: "video_qos \<Rightarrow> f32 \<times> video_qos" where
  "qos_ratio q =
     (let q' = (if vq_ratio q < BR_MIN_HIGH_RESOLUTION \<or> vq_ratio q > BR_MAX then q\<lparr>vq_ratio := BR_BALANCED\<rparr> else q)
      in (vq_ratio q', q'))"

definition qos_record :: "video_qos \<Rightarrow> bool" where
  "qos_record q = list_ex us_record (hm_values (vq_users q))"

definition update_user :: "i32 \<Rightarrow> (user_data \<Rightarrow> user_data) \<Rightarrow> video_qos \<Rightarrow> video_qos" where
  "update_user uid f q =
     (case hm_get (vq_users q) uid of
        None \<Rightarrow> q
      | Some u \<Rightarrow> q\<lparr>vq_users := hm_insert uid (f u) (vq_users q)\<rparr>)"

definition update_display :: "string \<Rightarrow> (display_data \<Rightarrow> display_data) \<Rightarrow> video_qos \<Rightarrow> video_qos" where
  "update_display name f q =
     (case hm_get (vq_displays q) name of
        None \<Rightarrow> q
      | Some d \<Rightarrow> q\<lparr>vq_displays := hm_insert name (f d) (vq_displays q)\<rparr>)"

definition set_support_changing_quality :: "string \<Rightarrow> bool \<Rightarrow> video_qos \<Rightarrow> video_qos" where
  "set_support_changing_quality name support =
     update_display name (\<lambda>d. d\<lparr>dd_support_changing_quality := support\<rparr>)"

definition in_vbr_state :: "video_qos \<Rightarrow> bool" where
  "in_vbr_state q = (vq_abr_config q \<and> list_all dd_support_changing_quality (hm_values (vq_displays q)))"

definition highest_fps :: "video_qos \<Rightarrow> nat" where
  "highest_fps q =
     clampv MIN_FPS MAX_FPS (if vq_users q = [] then FPS else Min (set (map fps_cap (hm_values (vq_users q)))))"

text \<open>\<open>max_by\<close> on the time stamps: of several greatest elements the last one.\<close>

fun latest_by_time :: "(int \<times> quality) option \<Rightarrow> (int \<times> quality) list \<Rightarrow> (int \<times> quality) option" where
  "latest_by_time best [] = best"
| "latest_by_time best (x # xs) =
     latest_by_time (case best of Some b \<Rightarrow> if fst b \<le> fst x then Some x else Some b | None \<Rightarrow> Some x) xs"

definition latest_quality :: "video_qos \<Rightarrow> quality" where
  "latest_quality q =
     (case latest_by_time None (List.map_filter us_quality (hm_values (vq_users q))) of
        Some (_, ql) \<Rightarrow> ql | None \<Rightarrow> Balanced)"

definition min_ratio :: "video_qos \<Rightarrow> f32" where
  "min_ratio q =
     (let ratio_1mbps = (if vq_bitrate_store q > 0
            then Some (max (f32_div (f32_mul (vq_ratio q) 1000) (f32_of_nat (vq_bitrate_store q))) BR_MIN_HIGH_RESOLUTION)
            else None);
          cap = (\<lambda>m. case ratio_1mbps of Some r \<Rightarrow> if m > r then r else m | None \<Rightarrow> m)
      in case latest_quality q of
           Best \<Rightarrow> max (cap (f32_div BR_BEST (5 / 2))) BR_MIN
         | Balanced \<Rightarrow> max (cap (min (f32_div BR_BALANCED 2) (round32 (4 / 10)))) BR_MIN_HIGH_RESOLUTION
         | Low \<Rightarrow> BR_MIN_HIGH_RESOLUTION
         | Custom _ \<Rightarrow> BR_MIN_HIGH_RESOLUTION)"

definition can_reduce_bitrate :: "video_qos \<Rightarrow> bool" where
  "can_reduce_bitrate q =
     (in_vbr_state q \<and> vq_displays q \<noteq> [] \<and> vq_ratio q > f32_mul (min_ratio q) (round32 (102 / 100)))"

definition reset_send_counters :: "video_qos \<Rightarrow> video_qos" where
  "reset_send_counters q = q\<lparr>vq_displays := hm_map_values (\<lambda>d. d\<lparr>dd_send_counter := 0\<rparr>) (vq_displays q)\<rparr>"

text \<open>The step the ratio takes before it is limited.\<close>

definition ratio_step :: "f32 option \<Rightarrow> nat \<Rightarrow> bool \<Rightarrow> f32 \<Rightarrow> f32" where
  "ratio_step reduction max_delay dynamic_screen current =
     (case reduction of
        Some factor \<Rightarrow> f32_mul current factor
      | None \<Rightarrow>
          (if \<not> dynamic_screen then current
           else if max_delay < 50 then f32_mul current (round32 (115 / 100))
           else if max_delay < 100 then f32_mul current (round32 (11 / 10))
           else f32_mul current (round32 (105 / 100))))"

definition limit_ratio_increase :: "nat \<Rightarrow> f32 \<Rightarrow> f32 \<Rightarrow> f32" where
  "limit_ratio_increase bitrate current v =
     (if bitrate > 0 then
        (let add = f32_div (f32_mul (f32_of_nat (wrap32 (bitrate + 150))) current) (f32_of_nat bitrate)
         in if v > add \<and> add > current \<and> current \<ge> BR_SPEED then add else v)
      else v)"

definition min_reduction :: "user_data list \<Rightarrow> f32 option" where
  "min_reduction us =
     (case List.map_filter (ratio_reduction \<circ> us_delay) us of [] \<Rightarrow> None | r # rs \<Rightarrow> Some (fold min rs r))"

definition mark_reduced :: "bool \<Rightarrow> user_data \<Rightarrow> user_data" where
  "mark_reduced lowered u =
     (if needs_bitrate_reduction (us_delay u) \<and> ud_replies_after_bitrate_reduction (us_delay u) = None
      then u\<lparr>us_delay := (us_delay u)\<lparr>ud_replies_after_bitrate_reduction := Some (if lowered then 0 else 2)\<rparr>\<rparr>
      else u)"

definition adjust_ratio :: "nat \<Rightarrow> bool \<Rightarrow> video_qos \<Rightarrow> video_qos" where
  "adjust_ratio now dynamic_screen q =
     (if \<not> in_vbr_state q \<or> vq_users q = [] then q
      else
        let us = hm_values (vq_users q);
            max_delay = Max (set (map (avg_delay \<circ> us_delay) us));
            reduction = min_reduction us
        in if reduction = None \<and> max_delay \<ge> DELAY_THRESHOLD_150MS then reset_send_counters q
           else
             let target = quality_ratio (latest_quality q);
                 lo = min_ratio q;
                 hi = f32_mul target MAX_BR_MULTIPLE;
                 v = limit_ratio_increase (vq_bitrate_store q) (vq_ratio q)
                       (ratio_step reduction max_delay dynamic_screen (vq_ratio q));
                 r = clampv lo hi v;
                 q1 = (if reduction \<noteq> None
                       then q\<lparr>vq_users := hm_map_values (mark_reduced (r < vq_ratio q)) (vq_users q)\<rparr> else q)
             in (reset_send_counters (q1\<lparr>vq_ratio := r\<rparr>))\<lparr>vq_adjust_ratio_instant := now\<rparr>)"

definition adjust_fps :: "nat \<Rightarrow> video_qos \<Rightarrow> video_qos" where
  "adjust_fps now q =
     (let us = hm_values (vq_users q);
          fps = (if us = [] then INIT_FPS
                 else Min (set (map (\<lambda>u. case ud_fps (us_delay u) of Some f \<Rightarrow> f | None \<Rightarrow> INIT_FPS) us)));
          young = list_ex (\<lambda>u. case us_joined_at u of Some j \<Rightarrow> since_secs now j < 1 | None \<Rightarrow> False) us;
          fps' = (if young then min fps INIT_FPS else fps)
      in q\<lparr>vq_fps := clampv MIN_FPS (highest_fps q) fps'\<rparr>)"

section \<open>Sessions\<close>

definition on_connection_open :: "nat \<Rightarrow> bool \<Rightarrow> i32 \<Rightarrow> video_qos \<Rightarrow> video_qos" where
  "on_connection_open now enable_abr uid q =
     q\<lparr>vq_users := hm_insert uid (user_default\<lparr>us_joined_at := Some now\<rparr>) (vq_users q), vq_abr_config := enable_abr\<rparr>"

definition on_connection_close :: "bool \<Rightarrow> nat \<Rightarrow> i32 \<Rightarrow> video_qos \<Rightarrow> video_qos" where
  "on_connection_close linux now uid q =
     (let q' = q\<lparr>vq_users := hm_remove uid (vq_users q)\<rparr>
      in if vq_users q' = [] then vq_default linux now else adjust_fps now q')"

definition user_custom_fps :: "i32 \<Rightarrow> nat \<Rightarrow> video_qos \<Rightarrow> video_qos" where
  "user_custom_fps uid fps q =
     (if fps < MIN_FPS \<or> fps > MAX_FPS then q else update_user uid (\<lambda>u. u\<lparr>us_custom_fps := Some fps\<rparr>) q)"

definition user_auto_adjust_fps :: "i32 \<Rightarrow> nat \<Rightarrow> video_qos \<Rightarrow> video_qos" where
  "user_auto_adjust_fps uid fps q =
     (if fps < MIN_FPS \<or> fps > MAX_FPS then q else update_user uid (\<lambda>u. u\<lparr>us_auto_adjust_fps := Some fps\<rparr>) q)"

text \<open>\<open>ImageQuality\<close> has the values Low 2, Balanced 3, Best 4; anything else carries a percentage
  in the bits above the eighth.\<close>

definition convert_quality :: "i32 \<Rightarrow> quality" where
  "convert_quality q =
     (if q = 3 then Balanced else if q = 2 then Low else if q = 4 then Best
      else Custom (clampv BR_MIN BR_MAX (f32_div (f32_of_nat (unat ((drop_bit 8 q AND 0xFFF) * 2))) 100)))"

definition user_image_quality :: "int \<Rightarrow> i32 \<Rightarrow> i32 \<Rightarrow> video_qos \<Rightarrow> video_qos" where
  "user_image_quality time uid image_quality q =
     (if hm_contains (vq_users q) uid
      then (let q' = update_user uid (\<lambda>u. u\<lparr>us_quality := Some (time, convert_quality image_quality)\<rparr>) q
            in q'\<lparr>vq_ratio := quality_ratio (latest_quality q')\<rparr>)
      else q)"

definition user_record :: "i32 \<Rightarrow> bool \<Rightarrow> video_qos \<Rightarrow> video_qos" where
  "user_record uid v = update_user uid (\<lambda>u. u\<lparr>us_record := v\<rparr>)"

text \<open>The frame rate the average delay alone calls for, and the quick-increase counter.\<close>

definition adaptive_fps :: "nat \<Rightarrow> nat \<Rightarrow> nat \<Rightarrow> nat \<Rightarrow> nat \<Rightarrow> nat \<Rightarrow> nat \<times> nat" where
  "adaptive_fps min_fps normal_fps avg old_avg fps quick =
     (if avg < 50 then
        (let quick' = quick + 1;
             step = (if fps < normal_fps then 1 else 0)
         in if quick' \<ge> 3 then (max min_fps (fps + 5), 0) else (max min_fps (fps + step), quick'))
      else if avg < 100 then
        (max min_fps (fps + (if avg < old_avg \<and> fps < normal_fps then 1 else 0)), quick)
      else if avg < DELAY_THRESHOLD_150MS then (max min_fps fps, quick)
      else
        (let dividend_ms = DELAY_THRESHOLD_150MS * min_fps;
             devide_fps = f32_ceil_u32 (f32_div (f32_of_nat fps)
                            (f32_div (f32_of_nat avg) (f32_of_nat DELAY_THRESHOLD_150MS)))
         in if avg < 200 then (max min_fps devide_fps, quick)
            else if avg < 300 then (min min_fps devide_fps, quick)
            else if avg < 600 then (dividend_ms div avg, quick)
            else (min (dividend_ms div avg) devide_fps, quick)))"

text \<open>A reply closes the outstanding probe; a reply to a braked probe does not feed the baseline.\<close>

definition close_probe :: "user_delay \<Rightarrow> bool \<times> user_delay" where
  "close_probe u = (ud_stall_reference_fps u \<noteq> None, u\<lparr>ud_stall_ticks := 0, ud_stall_reference_fps := None\<rparr>)"

definition observe :: "nat \<Rightarrow> bool \<Rightarrow> user_delay \<Rightarrow> user_delay" where
  "observe delay braked u = add_delay delay (if \<not> braked then u\<lparr>ud_rtt := rtt_update delay (ud_rtt u)\<rparr> else u)"

definition wanted_fps :: "nat \<Rightarrow> nat \<Rightarrow> bool \<Rightarrow> nat \<Rightarrow> nat \<Rightarrow> nat \<Rightarrow> nat \<Rightarrow> user_delay \<Rightarrow> nat \<times> user_delay" where
  "wanted_fps min_fps normal_fps bitrate_first cap current_fps avg old_avg u =
     (let (fps1, quick) = adaptive_fps min_fps normal_fps avg old_avg current_fps (ud_quick_increase_fps_count u);
          inc = (if avg < DELAY_THRESHOLD_150MS then ud_increase_fps_count u + 1 else 0);
          (fps2, inc') = (if inc \<ge> 3 then (fps1 + 1, 0) else (fps1, inc));
          fps3 = (if bitrate_first then max fps2 min_fps else fps2)
      in (max fps3 (min MIN_AUTO_FPS cap),
          u\<lparr>ud_quick_increase_fps_count := (if avg > 50 then 0 else quick), ud_increase_fps_count := inc'\<rparr>))"

text \<open>What a reply does to its viewer: the new state, and whether it asks for a lower bitrate.\<close>

definition reply_user :: "nat \<Rightarrow> nat \<Rightarrow> bool \<Rightarrow> nat \<Rightarrow> user_data \<Rightarrow> user_data \<times> bool" where
  "reply_user min_fps normal_fps bitrate_first delay0 user =
     (let delay = max delay0 10;
          (braked, u1) = close_probe (us_delay user);
          u3 = observe delay braked u1;
          avg = max (avg_delay u3) 10;
          cap = fps_cap user;
          current_fps = (case ud_fps u3 of Some f \<Rightarrow> f | None \<Rightarrow> min INIT_FPS cap);
          (fps4, u4) = wanted_fps min_fps normal_fps bitrate_first cap current_fps avg (avg_delay u1) u3;
          (fps5, u5) = limit_fps_change current_fps fps4 delay bitrate_first braked u4;
          (fps6, u6) = accelerate_startup current_fps fps5 cap delay braked u5;
          reduce = (bitrate_first \<and> needs_bitrate_reduction u6 \<and> ud_replies_after_bitrate_reduction u6 = None)
      in (user\<lparr>us_delay := u6\<lparr>ud_fps := Some (clampv MIN_FPS cap fps6)\<rparr>\<rparr>, reduce))"

definition fps_levels :: "f32 \<Rightarrow> nat \<times> nat" where
  "fps_levels target =
     (if target \<ge> BR_BEST then (8, 16) else if target \<ge> BR_BALANCED then (10, 20) else (12, 24))"

definition cooled_down :: "nat \<Rightarrow> video_qos \<Rightarrow> bool" where
  "cooled_down now q = (since_secs now (vq_adjust_ratio_instant q) \<ge> ADJUST_RATIO_INTERVAL)"

definition user_network_delay :: "nat \<Rightarrow> i32 \<Rightarrow> nat \<Rightarrow> video_qos \<Rightarrow> video_qos" where
  "user_network_delay now uid delay q =
     (let (min_fps, normal_fps) = fps_levels (quality_ratio (latest_quality q));
          bitrate_first = can_reduce_bitrate q;
          (q1, first_reply, reduce) =
            (case hm_get (vq_users q) uid of
               None \<Rightarrow> (q, False, False)
             | Some user \<Rightarrow>
                 (let (user', red) = reply_user min_fps normal_fps bitrate_first delay user
                  in (q\<lparr>vq_users := hm_insert uid user' (vq_users q)\<rparr>, ud_fps (us_delay user) = None, red)));
          q2 = adjust_fps now q1;
          q3 = (if first_reply \<and> vq_first_reply_adjusts_ratio q2 \<and> cooled_down now q2 then adjust_ratio now False q2 else q2)
      in if reduce \<and> cooled_down now q3 then adjust_ratio now False q3 else q3)"

text \<open>A probe still outstanding after \<open>elapsed\<close> milliseconds (a \<open>u128\<close>, cast to \<open>u32\<close>).\<close>

definition stall_tick :: "nat \<Rightarrow> user_delay \<Rightarrow> user_delay" where
  "stall_tick elapsed u = add_delay (wrap32 elapsed) (u\<lparr>ud_stall_ticks := sat_add8 (ud_stall_ticks u) 1\<rparr>)"

definition stall_reference :: "nat \<Rightarrow> user_delay \<Rightarrow> nat \<times> user_delay" where
  "stall_reference cap u =
     (case ud_stall_reference_fps u of
        Some r \<Rightarrow> (r, u)
      | None \<Rightarrow>
          (let r = (case ud_fps u of Some f \<Rightarrow> f | None \<Rightarrow> min INIT_FPS cap)
           in (r, on_reduction r (u\<lparr>ud_stall_reference_fps := Some r\<rparr>))))"

definition stalled_fps :: "nat \<Rightarrow> nat \<Rightarrow> nat \<Rightarrow> nat \<Rightarrow> nat" where
  "stalled_fps cap elapsed reference current =
     (let divisor = 2 ^ min (wrap32 (elapsed div 1000) - 1) 5
      in min (clampv (min MIN_AUTO_FPS cap) cap (reference div divisor)) current)"

definition stall_user :: "nat \<Rightarrow> user_data \<Rightarrow> user_data" where
  "stall_user elapsed user =
     (let cap = fps_cap user;
          (reference, u2) = stall_reference cap (stall_tick elapsed (us_delay user));
          current = (case ud_fps u2 of Some f \<Rightarrow> f | None \<Rightarrow> reference)
      in user\<lparr>us_delay := u2\<lparr>ud_fps := Some (stalled_fps cap elapsed reference current)\<rparr>\<rparr>)"

definition user_delay_response_elapsed :: "nat \<Rightarrow> i32 \<Rightarrow> nat \<Rightarrow> video_qos \<Rightarrow> video_qos" where
  "user_delay_response_elapsed now uid elapsed q =
     (if \<not> hm_contains (vq_users q) uid \<or> elapsed \<le> 2000 then q
      else adjust_fps now (update_user uid (stall_user elapsed) q))"

section \<open>Displays\<close>

definition new_display :: "string \<Rightarrow> video_qos \<Rightarrow> video_qos" where
  "new_display name q =
     q\<lparr>vq_displays := hm_insert name \<lparr>dd_send_counter = 0, dd_support_changing_quality = False\<rparr> (vq_displays q)\<rparr>"

definition remove_display :: "string \<Rightarrow> video_qos \<Rightarrow> video_qos" where
  "remove_display name q = q\<lparr>vq_displays := hm_remove name (vq_displays q)\<rparr>"

definition update_display_data :: "nat \<Rightarrow> string \<Rightarrow> nat \<Rightarrow> video_qos \<Rightarrow> video_qos" where
  "update_display_data now name send_counter q =
     (let q1 = adjust_fps now (update_display name (\<lambda>d. d\<lparr>dd_send_counter := dd_send_counter d + send_counter\<rparr>) q)
      in if in_vbr_state q1 then
           (if cooled_down now q1 then
              adjust_ratio now
                (list_ex (\<lambda>d. dd_send_counter d \<ge> ADJUST_RATIO_INTERVAL * DYNAMIC_SCREEN_THRESHOLD) (hm_values (vq_displays q1))) q1
            else q1)
         else q1\<lparr>vq_ratio := quality_ratio (latest_quality q1)\<rparr>)"

section \<open>Representable ratios\<close>

lemma ratio_const_values:
  "BR_MIN_HIGH_RESOLUTION = 13421773 / 134217728" "BR_MIN = 13421773 / 67108864"
  "BR_BALANCED = 11240735 / 16777216"
  unfolding BR_MIN_HIGH_RESOLUTION_def BR_MIN_def BR_BALANCED_def by code_simp+

lemma ratio_const_f32:
  "is_f32 BR_MIN_HIGH_RESOLUTION" "is_f32 BR_MIN" "is_f32 BR_BALANCED" "is_f32 BR_BEST" "is_f32 BR_SPEED" "is_f32 BR_MAX"
proof -
  show "is_f32 BR_MIN_HIGH_RESOLUTION" "is_f32 BR_MIN" "is_f32 BR_BALANCED"
    unfolding BR_MIN_HIGH_RESOLUTION_def BR_MIN_def BR_BALANCED_def by (simp_all add: round32_idem)
  show "is_f32 BR_BEST" "is_f32 BR_SPEED" "is_f32 BR_MAX"
    unfolding is_f32_def BR_BEST_def BR_SPEED_def BR_MAX_def by code_simp+
qed

lemma ratio_const_order:
  "f32_div BR_BEST (5 / 2) \<le> BR_BEST" "f32_div BR_BALANCED 2 \<le> BR_BALANCED"
proof -
  show "f32_div BR_BEST (5 / 2) \<le> BR_BEST"
    by (rule f32_div_le [OF ratio_const_f32(4)]) (simp_all add: BR_BEST_def)
  show "f32_div BR_BALANCED 2 \<le> BR_BALANCED"
    by (rule f32_div_le [OF ratio_const_f32(3)]) (simp_all add: ratio_const_values)
qed

lemma f32_result:
  "0 \<le> a \<Longrightarrow> 0 \<le> b \<Longrightarrow> is_f32 (f32_mul a b) \<and> 0 \<le> f32_mul a b"
  "0 \<le> a \<Longrightarrow> 0 \<le> b \<Longrightarrow> is_f32 (f32_div a b) \<and> 0 \<le> f32_div a b"
  "is_f32 (f32_of_nat n) \<and> 0 \<le> f32_of_nat n"
  by (simp_all add: f32_mul_def f32_div_def f32_of_nat_def round32_idem round32_nonneg)

lemma clampv_f32: "is_f32 lo \<Longrightarrow> is_f32 hi \<Longrightarrow> is_f32 x \<Longrightarrow> is_f32 (clampv lo hi x)"
  by (simp add: clampv_def)

definition quality_ok :: "quality \<Rightarrow> bool" where
  "quality_ok ql = (case ql of Custom v \<Rightarrow> BR_MIN \<le> v \<and> v \<le> BR_MAX \<and> is_f32 v | _ \<Rightarrow> True)"

lemma quality_ratio_ok:
  assumes "quality_ok ql"
  shows "BR_MIN \<le> quality_ratio ql" "quality_ratio ql \<le> BR_MAX" "is_f32 (quality_ratio ql)"
  using assms ratio_const_f32
  by (cases ql; simp add: quality_ok_def quality_ratio_def ratio_const_values BR_BEST_def BR_SPEED_def BR_MAX_def)+

lemma convert_quality_ok: "quality_ok (convert_quality w)"
proof -
  let ?b = "f32_div (f32_of_nat (unat ((drop_bit 8 w AND 0xFFF) * 2))) 100"
  have "is_f32 ?b" using f32_result by simp
  then have "is_f32 (clampv BR_MIN BR_MAX ?b)" using ratio_const_f32 by (intro clampv_f32)
  moreover have "BR_MIN \<le> clampv BR_MIN BR_MAX ?b \<and> clampv BR_MIN BR_MAX ?b \<le> BR_MAX"
    by (intro clampv_bounds) (simp add: ratio_const_values BR_MAX_def)
  ultimately show ?thesis by (simp add: convert_quality_def quality_ok_def)
qed

section \<open>Invariants\<close>

definition rtt_ok :: "rtt_calculator \<Rightarrow> bool" where
  "rtt_ok c = (length (rc_samples c) \<le> WINDOW_SAMPLES \<and>
     (case rc_baseline c of None \<Rightarrow> rc_samples c = [] | Some b \<Rightarrow> \<forall>s \<in> set (rc_samples c). b \<le> s))"

definition delay_ok :: "user_delay \<Rightarrow> bool" where
  "delay_ok u = (length (ud_delay_history u) \<le> HISTORY_DELAY_LEN \<and> rtt_ok (ud_rtt u) \<and>
     (case ud_fps u of Some f \<Rightarrow> MIN_FPS \<le> f \<and> f \<le> MAX_FPS | None \<Rightarrow> ud_stall_reference_fps u = None))"

definition user_ok :: "user_data \<Rightarrow> bool" where
  "user_ok u = (delay_ok (us_delay u) \<and> (case us_quality u of Some (_, ql) \<Rightarrow> quality_ok ql | None \<Rightarrow> True))"

definition qos_inv :: "video_qos \<Rightarrow> bool" where
  "qos_inv q = (list_all user_ok (hm_values (vq_users q)) \<and> MIN_FPS \<le> vq_fps q \<and> vq_fps q \<le> MAX_FPS \<and>
     BR_MIN_HIGH_RESOLUTION \<le> vq_ratio q \<and> vq_ratio q \<le> BR_MAX \<and> is_f32 (vq_ratio q))"

lemma half_rise: "0 < r \<Longrightarrow> clampv 1 MAX_INCREASE_MS (r div 2) \<le> r" for r :: nat
  by (auto simp: clampv_def MAX_INCREASE_MS_def)

lemma rtt_update_ok:
  assumes "rtt_ok c"
  shows "rtt_ok (rtt_update delay c)"
proof -
  define samples where "samples = (if length (rc_samples c) \<ge> WINDOW_SAMPLES then drop 1 (rc_samples c) else rc_samples c) @ [delay]"
  define baseline where "baseline = min (case rc_baseline c of Some b \<Rightarrow> b | None \<Rightarrow> delay) delay"
  have len: "length samples \<le> WINDOW_SAMPLES" "samples \<noteq> []"
    using assms by (auto simp: samples_def rtt_ok_def WINDOW_SAMPLES_def)
  have b: "baseline \<le> s" if "s \<in> set samples" for s
  proof -
    have "s = delay \<or> s \<in> set (rc_samples c)"
      using that by (auto simp: samples_def split: if_splits dest: in_set_dropD)
    with assms show ?thesis by (fastforce simp: baseline_def rtt_ok_def split: option.splits)
  qed
  let ?older = "Min (set (take (WINDOW_SAMPLES div 2) samples))" and ?recent = "Min (set (drop (WINDOW_SAMPLES div 2) samples))"
  have raised: "baseline + clampv 1 MAX_INCREASE_MS ((min ?older ?recent - baseline) div 2) \<le> s"
    if "\<not> length samples < WINDOW_SAMPLES" "min ?older ?recent - baseline > 0" "s \<in> set samples" for s
  proof -
    have "set samples = set (take (WINDOW_SAMPLES div 2) samples) \<union> set (drop (WINDOW_SAMPLES div 2) samples)"
      by (metis append_take_drop_id set_append)
    with that(3) have "min ?older ?recent \<le> s" by (auto simp: min_le_iff_disj)
    moreover have "clampv 1 MAX_INCREASE_MS ((min ?older ?recent - baseline) div 2) \<le> min ?older ?recent - baseline"
      using that(2) by (rule half_rise)
    ultimately show ?thesis using that(2) by linarith
  qed
  show ?thesis
    using len b raised
    by (auto simp: rtt_update_def rtt_ok_def Let_def simp flip: samples_def baseline_def)
qed

lemma fps_cap_bounds: "MIN_FPS \<le> fps_cap u \<and> fps_cap u \<le> MAX_FPS"
  unfolding fps_cap_def Let_def by (rule clampv_bounds) (simp add: fps_consts)

lemma add_delay_ok: "delay_ok u \<Longrightarrow> delay_ok (add_delay d u)"
  by (auto simp: delay_ok_def add_delay_def HISTORY_DELAY_LEN_def split: option.splits)

text \<open>The fields the invariant of a viewer reads: the history, the baseline, the rate.\<close>

definition same_core :: "user_delay \<Rightarrow> user_delay \<Rightarrow> bool" where
  "same_core u u' = (ud_delay_history u' = ud_delay_history u \<and> ud_rtt u' = ud_rtt u \<and> ud_fps u' = ud_fps u)"

named_theorems core_intros "operations on a viewer's delay that keep its core"

lemma core_refl [core_intros]: "same_core u u"
  by (simp add: same_core_def)

lemma core_trans: "same_core u v \<Longrightarrow> same_core v w \<Longrightarrow> same_core u w"
  by (simp add: same_core_def)

lemma core_steps [core_intros]:
  "same_core u (count_restore u)" "same_core u (good_reply u)" "same_core u (bad_reply u)"
  "same_core u (lower_level c fr u)" "same_core u (on_reduction c u)" "same_core u (snd (recover c f u))"
  by (simp_all add: same_core_def count_restore_def good_reply_def bad_reply_def lower_level_def on_reduction_def
      recover_def Let_def split: option.split)

lemma limit_fps_change_core: "same_core u (snd (limit_fps_change c f d bf br u))"
  unfolding limit_fps_change_def Let_def
  by (auto intro: core_steps core_trans [OF core_steps(1)] core_trans [OF core_steps(1) core_trans [OF core_steps(2)]]
      core_trans [OF core_steps(1) core_trans [OF core_steps(3)]]
      core_trans [OF core_steps(1) core_trans [OF core_steps(3) core_trans [OF core_steps(4)]]])

lemma accelerate_startup_core: "same_core u (snd (accelerate_startup c f cap d br u))"
  by (simp add: same_core_def accelerate_startup_def Let_def)

lemma wanted_fps_core: "same_core u (snd (wanted_fps mn nm bf cap c avg old u))"
  by (simp add: same_core_def wanted_fps_def Let_def split: prod.splits)

lemma observe_ok: "delay_ok u \<Longrightarrow> delay_ok (observe d br u)"
  unfolding observe_def by (rule add_delay_ok) (simp add: delay_ok_def rtt_update_ok split: option.splits)

lemma close_probe_ok: "delay_ok u \<Longrightarrow> delay_ok (snd (close_probe u))"
  by (simp add: delay_ok_def close_probe_def split: option.splits)

lemma core_ok: "same_core u u' \<Longrightarrow> delay_ok u \<Longrightarrow> MIN_FPS \<le> f \<Longrightarrow> f \<le> MAX_FPS \<Longrightarrow> delay_ok (u'\<lparr>ud_fps := Some f\<rparr>)"
  by (simp add: same_core_def delay_ok_def)

text \<open>The shape of a reply: an observation, then steps that keep the core, then a rate in bounds.\<close>

lemma reply_user_shape:
  obtains u6 f where "us_delay (fst (reply_user mn nm bf d user)) = u6\<lparr>ud_fps := Some f\<rparr>"
    "same_core (observe (max d 10) (fst (close_probe (us_delay user))) (snd (close_probe (us_delay user)))) u6"
    "MIN_FPS \<le> f" "f \<le> fps_cap user"
    "us_quality (fst (reply_user mn nm bf d user)) = us_quality user"
    "us_custom_fps (fst (reply_user mn nm bf d user)) = us_custom_fps user"
    "us_auto_adjust_fps (fst (reply_user mn nm bf d user)) = us_auto_adjust_fps user"
proof -
  obtain br u1 where p: "close_probe (us_delay user) = (br, u1)" by force
  define u3 where "u3 = observe (max d 10) br u1"
  define c where "c = (case ud_fps u3 of Some f \<Rightarrow> f | None \<Rightarrow> min INIT_FPS (fps_cap user))"
  obtain fps4 u4 where w: "wanted_fps mn nm bf (fps_cap user) c (max (avg_delay u3) 10) (avg_delay u1) u3 = (fps4, u4)" by force
  obtain fps5 u5 where l: "limit_fps_change c fps4 (max d 10) bf br u4 = (fps5, u5)" by force
  obtain fps6 u6 where a: "accelerate_startup c fps5 (fps_cap user) (max d 10) br u5 = (fps6, u6)" by force
  have r: "fst (reply_user mn nm bf d user) =
      user\<lparr>us_delay := u6\<lparr>ud_fps := Some (clampv MIN_FPS (fps_cap user) fps6)\<rparr>\<rparr>"
    using p w l a by (simp add: reply_user_def Let_def flip: u3_def c_def)
  have "same_core u3 u4" "same_core u4 u5" "same_core u5 u6"
    using wanted_fps_core [of u3] limit_fps_change_core [of u4] accelerate_startup_core [of u5] w l a by (metis snd_conv)+
  then have "same_core u3 u6" using core_trans by blast
  moreover have "MIN_FPS \<le> clampv MIN_FPS (fps_cap user) fps6 \<and> clampv MIN_FPS (fps_cap user) fps6 \<le> fps_cap user"
    using fps_cap_bounds [of user] by (intro clampv_bounds) simp
  ultimately show thesis using that [of _ u6] r p by (simp add: u3_def)
qed

lemma reply_user_ok:
  assumes "user_ok user"
  shows "user_ok (fst (reply_user mn nm bf d user))"
proof -
  obtain u6 f where r: "us_delay (fst (reply_user mn nm bf d user)) = u6\<lparr>ud_fps := Some f\<rparr>"
    "same_core (observe (max d 10) (fst (close_probe (us_delay user))) (snd (close_probe (us_delay user)))) u6"
    "MIN_FPS \<le> f" "f \<le> fps_cap user" "us_quality (fst (reply_user mn nm bf d user)) = us_quality user"
    by (rule reply_user_shape)
  have "delay_ok (observe (max d 10) (fst (close_probe (us_delay user))) (snd (close_probe (us_delay user))))"
    using assms by (intro observe_ok close_probe_ok) (simp add: user_ok_def)
  moreover have "f \<le> MAX_FPS" using r(4) fps_cap_bounds [of user] by simp
  ultimately have "delay_ok (us_delay (fst (reply_user mn nm bf d user)))" using core_ok [OF r(2) _ r(3)] r(1) by simp
  then show ?thesis using assms r(5) by (simp add: user_ok_def)
qed

lemma stall_tick_ok: "delay_ok u \<Longrightarrow> delay_ok (stall_tick e u)"
  unfolding stall_tick_def by (rule add_delay_ok) (simp add: delay_ok_def split: option.splits)

lemma stall_reference_core:
  assumes "stall_reference cap u = (r, u2)"
  shows "same_core u u2"
  using assms by (auto simp: stall_reference_def same_core_def on_reduction_def Let_def split: option.splits)

lemma stall_reference_pos:
  assumes "stall_reference cap u = (r, u2)" "delay_ok u" "MIN_FPS \<le> cap"
  shows "MIN_FPS \<le> (case ud_fps u2 of Some f \<Rightarrow> f | None \<Rightarrow> r)"
  using assms by (auto simp: stall_reference_def delay_ok_def on_reduction_def fps_consts Let_def split: option.splits)

lemma stalled_fps_bounds:
  assumes "MIN_FPS \<le> cap" "MIN_FPS \<le> current"
  shows "MIN_FPS \<le> stalled_fps cap e r current \<and> stalled_fps cap e r current \<le> cap \<and> stalled_fps cap e r current \<le> current"
proof -
  let ?c = "clampv (min MIN_AUTO_FPS cap) cap (r div 2 ^ min (wrap32 (e div 1000) - 1) 5)"
  define c where "c = ?c"
  have "min MIN_AUTO_FPS cap \<le> c \<and> c \<le> cap" unfolding c_def by (rule clampv_bounds) simp
  moreover have "stalled_fps cap e r current = min c current" by (simp add: stalled_fps_def Let_def c_def)
  ultimately show ?thesis using assms by (simp add: fps_consts min_def split: if_splits)
qed

lemma stall_user_ok:
  assumes "user_ok user"
  shows "user_ok (stall_user elapsed user)"
proof -
  let ?u1 = "stall_tick elapsed (us_delay user)"
  have u1: "delay_ok ?u1" using assms by (simp add: user_ok_def stall_tick_ok)
  obtain r u2 where r: "stall_reference (fps_cap user) ?u1 = (r, u2)" by force
  let ?cur = "case ud_fps u2 of Some f \<Rightarrow> f | None \<Rightarrow> r"
  have cap: "MIN_FPS \<le> fps_cap user" "fps_cap user \<le> MAX_FPS" using fps_cap_bounds by auto
  have b: "MIN_FPS \<le> stalled_fps (fps_cap user) elapsed r ?cur" "stalled_fps (fps_cap user) elapsed r ?cur \<le> MAX_FPS"
    using stalled_fps_bounds [OF cap(1) stall_reference_pos [OF r u1 cap(1)]] cap(2) le_trans by blast+
  have "stall_user elapsed user = user\<lparr>us_delay := u2\<lparr>ud_fps := Some (stalled_fps (fps_cap user) elapsed r ?cur)\<rparr>\<rparr>"
    using r by (simp add: stall_user_def Let_def)
  then show ?thesis
    using core_ok [OF stall_reference_core [OF r] u1 b] assms by (simp add: user_ok_def)
qed

section \<open>The controller keeps its invariant\<close>

lemma users_insert: "list_all user_ok (hm_values m) \<Longrightarrow> user_ok u \<Longrightarrow> list_all user_ok (hm_values (hm_insert k u m))"
  by (auto simp: hm_values_def list_all_iff dest!: in_hm_insert)

lemma users_get: "list_all user_ok (hm_values m) \<Longrightarrow> hm_get m k = Some u \<Longrightarrow> user_ok u"
  by (auto simp: hm_values_def list_all_iff dest!: hm_get_set)

lemma update_user_inv:
  assumes "qos_inv q" "\<And>u. user_ok u \<Longrightarrow> user_ok (f u)"
  shows "qos_inv (update_user k f q)"
proof (cases "hm_get (vq_users q) k")
  case (Some u)
  have us: "list_all user_ok (hm_values (vq_users q))" using assms(1) by (simp add: qos_inv_def)
  then have "list_all user_ok (hm_values (hm_insert k (f u) (vq_users q)))"
    by (intro users_insert assms(2) users_get [OF us Some])
  with Some assms(1) show ?thesis by (simp add: update_user_def qos_inv_def)
qed (use assms(1) in \<open>simp add: update_user_def\<close>)

lemma update_display_inv: "qos_inv q \<Longrightarrow> qos_inv (update_display n f q)"
  by (simp add: update_display_def qos_inv_def split: option.split)

lemma reset_send_counters_inv: "qos_inv (reset_send_counters q) = qos_inv q"
  by (simp add: reset_send_counters_def qos_inv_def)

lemma latest_by_time_in:
  "latest_by_time b xs = Some x \<Longrightarrow> b = Some x \<or> x \<in> set xs"
  by (induction b xs rule: latest_by_time.induct) (auto split: option.splits if_splits)

lemma latest_quality_ok:
  assumes "list_all user_ok (hm_values (vq_users q))"
  shows "quality_ok (latest_quality q)"
proof (cases "latest_by_time None (List.map_filter us_quality (hm_values (vq_users q)))")
  case (Some x)
  obtain t ql where x: "x = (t, ql)" by force
  with latest_by_time_in [OF Some] obtain u where "u \<in> set (hm_values (vq_users q))" "us_quality u = Some (t, ql)"
    by (auto simp: List.map_filter_def)
  with assms have "quality_ok ql" by (auto simp: list_all_iff user_ok_def)
  with Some x show ?thesis by (simp add: latest_quality_def)
qed (simp add: latest_quality_def quality_ok_def)

lemma highest_fps_bounds: "MIN_FPS \<le> highest_fps q \<and> highest_fps q \<le> MAX_FPS"
  unfolding highest_fps_def by (rule clampv_bounds) (simp add: fps_consts)

lemma adjust_fps_bounds: "MIN_FPS \<le> vq_fps (adjust_fps now q) \<and> vq_fps (adjust_fps now q) \<le> highest_fps q"
  unfolding adjust_fps_def Let_def using highest_fps_bounds [of q]
  by (simp add: clampv_bounds)

lemma adjust_fps_frame:
  "vq_users (adjust_fps now q) = vq_users q" "vq_ratio (adjust_fps now q) = vq_ratio q"
  "vq_displays (adjust_fps now q) = vq_displays q" "vq_bitrate_store (adjust_fps now q) = vq_bitrate_store q"
  "vq_adjust_ratio_instant (adjust_fps now q) = vq_adjust_ratio_instant q"
  by (simp_all add: adjust_fps_def Let_def)

lemma adjust_fps_inv: "qos_inv q \<Longrightarrow> qos_inv (adjust_fps now q)"
  using adjust_fps_bounds [of now q] highest_fps_bounds [of q] by (simp add: qos_inv_def adjust_fps_frame)

text \<open>The floor of the ratio lies below the ratio of the latest quality, so the final \<open>clamp\<close> is
  never called with its bounds the wrong way round (which panics).\<close>

lemma min_ratio_ok:
  assumes "quality_ok (latest_quality q)" "0 \<le> vq_ratio q"
  shows "BR_MIN_HIGH_RESOLUTION \<le> min_ratio q" "min_ratio q \<le> quality_ratio (latest_quality q)" "is_f32 (min_ratio q)"
proof -
  define r1 where "r1 = (if vq_bitrate_store q > 0
      then Some (max (f32_div (f32_mul (vq_ratio q) 1000) (f32_of_nat (vq_bitrate_store q))) BR_MIN_HIGH_RESOLUTION)
      else None)"
  define cap where "cap = (\<lambda>m. case r1 of Some r \<Rightarrow> if m > r then r else m | None \<Rightarrow> m)"
  have cap_le: "cap m \<le> m" for m by (simp add: cap_def split: option.split)
  have r1: "is_f32 r" if "r1 = Some r" for r
    using that f32_result assms(2) ratio_const_f32(1) by (auto simp: r1_def max_def split: if_splits)
  have cap_f32: "is_f32 m \<Longrightarrow> is_f32 (cap m)" for m using r1 by (auto simp: cap_def split: option.split)
  have cf: "is_f32 (f32_div BR_BEST (5 / 2))" "is_f32 (f32_div BR_BALANCED 2)" "is_f32 (round32 (4 / 10))"
    using f32_result(2) by (simp_all add: BR_BEST_def ratio_const_values round32_idem)
  have order: "BR_MIN_HIGH_RESOLUTION \<le> BR_MIN" "BR_MIN \<le> BR_BEST" "BR_MIN_HIGH_RESOLUTION \<le> BR_BALANCED"
      "BR_MIN_HIGH_RESOLUTION \<le> BR_SPEED"
    by (simp_all add: ratio_const_values BR_BEST_def BR_SPEED_def)
  have m: "min_ratio q = (case latest_quality q of
           Best \<Rightarrow> max (cap (f32_div BR_BEST (5 / 2))) BR_MIN
         | Balanced \<Rightarrow> max (cap (min (f32_div BR_BALANCED 2) (round32 (4 / 10)))) BR_MIN_HIGH_RESOLUTION
         | Low \<Rightarrow> BR_MIN_HIGH_RESOLUTION
         | Custom _ \<Rightarrow> BR_MIN_HIGH_RESOLUTION)"
    unfolding min_ratio_def Let_def cap_def r1_def ..
  have best: "cap (f32_div BR_BEST (5 / 2)) \<le> BR_BEST" using cap_le ratio_const_order(1) order_trans by blast
  have bal: "cap (min (f32_div BR_BALANCED 2) (round32 (4 / 10))) \<le> BR_BALANCED"
    using cap_le [of "min (f32_div BR_BALANCED 2) (round32 (4 / 10))"] ratio_const_order(2) by linarith
  show "BR_MIN_HIGH_RESOLUTION \<le> min_ratio q" using order by (cases "latest_quality q") (simp_all add: m max_def)
  show "min_ratio q \<le> quality_ratio (latest_quality q)"
    using assms(1) order best bal by (cases "latest_quality q") (auto simp: m quality_ratio_def quality_ok_def)
  show "is_f32 (min_ratio q)"
    using cap_f32 cf ratio_const_f32 by (cases "latest_quality q") (auto simp: m max_def min_def)
qed

lemma ratio_step_f32:
  assumes "is_f32 c" "0 \<le> c" "\<And>r. red = Some r \<Longrightarrow> 0 \<le> r"
  shows "is_f32 (ratio_step red m d c) \<and> 0 \<le> ratio_step red m d c"
  using assms f32_result(1) by (auto simp: ratio_step_def round32_nonneg split: option.split)

lemma limit_ratio_increase_f32:
  assumes "is_f32 v" "0 \<le> v" "0 \<le> c"
  shows "is_f32 (limit_ratio_increase b c v)"
  using assms f32_result by (auto simp: limit_ratio_increase_def Let_def)

lemma ratio_reduction_bounds: "ratio_reduction u = Some r \<Longrightarrow> 0 \<le> r \<and> r \<le> 1"
proof -
  have one: "round32 1 = 1" by code_simp
  have "0 \<le> round32 x \<and> round32 x \<le> 1" if "0 \<le> x" "x \<le> 1" for x
    using round32_mono [OF that] round32_nonneg [OF that(1)] one by simp
  then show "ratio_reduction u = Some r \<Longrightarrow> 0 \<le> r \<and> r \<le> 1"
    by (auto simp: ratio_reduction_def Let_def split: if_splits)
qed

lemma map_filter_Cons_case:
  "List.map_filter f (x # xs) = (case f x of None \<Rightarrow> List.map_filter f xs | Some y \<Rightarrow> y # List.map_filter f xs)"
  by (simp add: List.map_filter_def split: option.split)

lemma fold_min_in: "fold min rs r \<in> insert r (set rs)" for r :: "'a::linorder"
proof (induction rs arbitrary: r)
  case (Cons a rs)
  from Cons [of "min a r"] show ?case by (auto simp: min_def split: if_splits)
qed simp

lemma min_reduction_bounds:
  assumes "min_reduction us = Some r"
  shows "0 \<le> r \<and> r \<le> 1 \<and> (\<exists>u \<in> set us. ratio_reduction (us_delay u) = Some r)"
proof -
  obtain x xs where xs: "List.map_filter (ratio_reduction \<circ> us_delay) us = x # xs" "r = fold min xs x"
    using assms by (auto simp: min_reduction_def split: list.splits)
  then have "r \<in> set (List.map_filter (ratio_reduction \<circ> us_delay) us)" using fold_min_in [of xs x] by simp
  then obtain u where "u \<in> set us" "ratio_reduction (us_delay u) = Some r" by (auto simp: List.map_filter_def)
  then show ?thesis using ratio_reduction_bounds by blast
qed

lemma mark_reduced_ok: "user_ok u \<Longrightarrow> user_ok (mark_reduced l u)"
  by (simp add: mark_reduced_def user_ok_def delay_ok_def split: option.splits)

lemma users_map: "list_all user_ok (hm_values m) \<Longrightarrow> list_all user_ok (hm_values (hm_map_values (mark_reduced l) m))"
  by (auto simp: hm_values_def hm_map_values_def list_all_iff mark_reduced_ok)

text \<open>What an adjustment of the ratio does, when it does anything to it.\<close>

lemma adjust_ratio_cases:
  obtains (none) "vq_ratio (adjust_ratio now d q) = vq_ratio q" "vq_users (adjust_ratio now d q) = vq_users q"
      "vq_fps (adjust_ratio now d q) = vq_fps q" "vq_adjust_ratio_instant (adjust_ratio now d q) = vq_adjust_ratio_instant q"
  | (moved) red mx l where "in_vbr_state q" "vq_users q \<noteq> []" "red = min_reduction (hm_values (vq_users q))"
      "vq_ratio (adjust_ratio now d q) = clampv (min_ratio q) (f32_mul (quality_ratio (latest_quality q)) MAX_BR_MULTIPLE)
         (limit_ratio_increase (vq_bitrate_store q) (vq_ratio q) (ratio_step red mx d (vq_ratio q)))"
      "vq_users (adjust_ratio now d q) = vq_users q \<or>
         vq_users (adjust_ratio now d q) = hm_map_values (mark_reduced l) (vq_users q)"
      "vq_fps (adjust_ratio now d q) = vq_fps q" "vq_adjust_ratio_instant (adjust_ratio now d q) = now"
proof (cases "\<not> in_vbr_state q \<or> vq_users q = [] \<or> (min_reduction (hm_values (vq_users q)) = None \<and>
    Max (set (map (avg_delay \<circ> us_delay) (hm_values (vq_users q)))) \<ge> DELAY_THRESHOLD_150MS)")
  case True
  then show thesis by (intro none) (auto simp: adjust_ratio_def Let_def reset_send_counters_def)
next
  case False
  then show thesis
    by (intro moved [of "min_reduction (hm_values (vq_users q))"
          "Max (set (map (avg_delay \<circ> us_delay) (hm_values (vq_users q))))"])
      (auto simp: adjust_ratio_def Let_def reset_send_counters_def)
qed

lemma adjust_ratio_inv:
  assumes "qos_inv q"
  shows "qos_inv (adjust_ratio now d q)"
proof (cases rule: adjust_ratio_cases [of now d q])
  case none
  with assms show ?thesis by (simp add: qos_inv_def)
next
  case (moved red mx l)
  have us: "list_all user_ok (hm_values (vq_users q))" using assms by (simp add: qos_inv_def)
  have r0: "0 \<le> vq_ratio q" "is_f32 (vq_ratio q)"
    using assms by (auto simp: qos_inv_def ratio_const_values)
  have ok: "quality_ok (latest_quality q)" using us by (rule latest_quality_ok)
  note qr = quality_ratio_ok [OF ok] and mr = min_ratio_ok [OF ok r0(1)]
  have hi: "f32_mul (quality_ratio (latest_quality q)) MAX_BR_MULTIPLE = quality_ratio (latest_quality q)"
    using qr(3) by (simp add: f32_mul_def MAX_BR_MULTIPLE_def is_f32_def)
  have "0 \<le> r" if "red = Some r" for r using that moved(3) min_reduction_bounds by metis
  from ratio_step_f32 [OF r0(2,1) this]
  have "is_f32 (limit_ratio_increase (vq_bitrate_store q) (vq_ratio q) (ratio_step red mx d (vq_ratio q)))"
    using limit_ratio_increase_f32 r0 by blast
  then have "is_f32 (vq_ratio (adjust_ratio now d q))" unfolding moved(4) hi using mr(3) qr(3) by (intro clampv_f32)
  moreover have "min_ratio q \<le> vq_ratio (adjust_ratio now d q) \<and> vq_ratio (adjust_ratio now d q) \<le> quality_ratio (latest_quality q)"
    unfolding moved(4) hi using mr(2) by (rule clampv_bounds)
  moreover have "list_all user_ok (hm_values (vq_users (adjust_ratio now d q)))"
    using moved(5) us users_map by metis
  ultimately show ?thesis using assms moved(6) qr(2) mr(1) by (simp add: qos_inv_def)
qed

lemma user_network_delay_inv:
  assumes "qos_inv q"
  shows "qos_inv (user_network_delay now uid d q)"
proof -
  obtain mn nm where lv: "fps_levels (quality_ratio (latest_quality q)) = (mn, nm)" by force
  have us: "list_all user_ok (hm_values (vq_users q))" using assms by (simp add: qos_inv_def)
  have "qos_inv (q\<lparr>vq_users := hm_insert uid (fst (reply_user mn nm (can_reduce_bitrate q) d u)) (vq_users q)\<rparr>)"
    if "hm_get (vq_users q) uid = Some u" for u
    using users_insert [OF us reply_user_ok [OF users_get [OF us that]]] assms by (simp add: qos_inv_def)
  then show ?thesis using assms lv
    by (auto simp: user_network_delay_def Let_def adjust_fps_inv adjust_ratio_inv split: option.splits prod.splits)
qed

section \<open>Reachable controllers\<close>

inductive qos_reach :: "video_qos \<Rightarrow> bool" where
  qr_default: "qos_reach (vq_default linux now)"
| qr_store: "qos_reach q \<Longrightarrow> qos_reach (store_bitrate b q)"
| qr_ratio: "qos_reach q \<Longrightarrow> qos_reach (snd (qos_ratio q))"
| qr_support: "qos_reach q \<Longrightarrow> qos_reach (set_support_changing_quality n s q)"
| qr_open: "qos_reach q \<Longrightarrow> qos_reach (on_connection_open now abr uid q)"
| qr_close: "qos_reach q \<Longrightarrow> qos_reach (on_connection_close linux now uid q)"
| qr_custom: "qos_reach q \<Longrightarrow> qos_reach (user_custom_fps uid fps q)"
| qr_auto: "qos_reach q \<Longrightarrow> qos_reach (user_auto_adjust_fps uid fps q)"
| qr_quality: "qos_reach q \<Longrightarrow> qos_reach (user_image_quality t uid iq q)"
| qr_record: "qos_reach q \<Longrightarrow> qos_reach (user_record uid v q)"
| qr_reply: "qos_reach q \<Longrightarrow> qos_reach (user_network_delay now uid d q)"
| qr_stall: "qos_reach q \<Longrightarrow> qos_reach (user_delay_response_elapsed now uid e q)"
| qr_new: "qos_reach q \<Longrightarrow> qos_reach (new_display n q)"
| qr_remove: "qos_reach q \<Longrightarrow> qos_reach (remove_display n q)"
| qr_update: "qos_reach q \<Longrightarrow> qos_reach (update_display_data now n c q)"

lemma qos_inv_ratio:
  assumes "qos_inv q"
  shows "qos_inv (q\<lparr>vq_ratio := quality_ratio (latest_quality q)\<rparr>)"
proof -
  have us: "list_all user_ok (hm_values (vq_users q))" using assms by (simp add: qos_inv_def)
  note qr = quality_ratio_ok [OF latest_quality_ok [OF us]]
  have "BR_MIN_HIGH_RESOLUTION \<le> BR_MIN" by (simp add: ratio_const_values)
  with qr assms show ?thesis by (simp add: qos_inv_def)
qed

lemma user_default_ok: "user_ok (user_default\<lparr>us_joined_at := j\<rparr>)"
  by (simp add: user_ok_def user_default_def delay_ok_def delay_default_def rtt_ok_def rtt_default_def)

lemma vq_default_inv: "qos_inv (vq_default linux now)"
  using ratio_const_f32(3)
  by (simp add: qos_inv_def vq_default_def hm_values_def fps_consts ratio_const_values BR_MAX_def)

lemma qos_ratio_same: "qos_inv q \<Longrightarrow> qos_ratio q = (vq_ratio q, q)"
  by (auto simp: qos_ratio_def qos_inv_def)

lemma on_connection_close_inv:
  assumes "qos_inv q"
  shows "qos_inv (on_connection_close linux now uid q)"
proof -
  have "list_all user_ok (hm_values (hm_remove uid (vq_users q)))"
    using assms by (auto simp: qos_inv_def hm_values_def hm_remove_def list_all_iff)
  with assms have "qos_inv (q\<lparr>vq_users := hm_remove uid (vq_users q)\<rparr>)" by (simp add: qos_inv_def)
  then show ?thesis by (auto simp: on_connection_close_def Let_def vq_default_inv adjust_fps_inv)
qed

lemma user_image_quality_inv:
  assumes "qos_inv q"
  shows "qos_inv (user_image_quality t uid iq q)"
proof -
  have "qos_inv (update_user uid (\<lambda>u. u\<lparr>us_quality := Some (t, convert_quality iq)\<rparr>) q)"
    using assms by (rule update_user_inv) (simp add: user_ok_def convert_quality_ok)
  from qos_inv_ratio [OF this] assms show ?thesis by (simp add: user_image_quality_def Let_def)
qed

lemma qos_reach_inv: "qos_reach q \<Longrightarrow> qos_inv q"
proof (induction rule: qos_reach.induct)
  case (qr_default linux now)
  show ?case by (rule vq_default_inv)
next
  case (qr_store q b)
  then show ?case by (simp add: store_bitrate_def qos_inv_def)
next
  case (qr_ratio q)
  then show ?case by (simp add: qos_ratio_same)
next
  case (qr_open q now abr uid)
  then show ?case by (auto simp: on_connection_open_def qos_inv_def intro!: users_insert user_default_ok)
next
  case (qr_custom q uid fps)
  then show ?case by (auto simp: user_custom_fps_def user_ok_def intro!: update_user_inv)
next
  case (qr_auto q uid fps)
  then show ?case by (auto simp: user_auto_adjust_fps_def user_ok_def intro!: update_user_inv)
next
  case (qr_record q uid v)
  then show ?case by (auto simp: user_record_def user_ok_def intro!: update_user_inv)
next
  case (qr_stall q now uid e)
  then show ?case
    by (auto simp: user_delay_response_elapsed_def intro!: adjust_fps_inv update_user_inv stall_user_ok)
next
  case (qr_update q now n c)
  then show ?case
    by (auto simp: update_display_data_def Let_def intro!: adjust_fps_inv adjust_ratio_inv update_display_inv qos_inv_ratio)
next
  case (qr_new q n)
  then show ?case by (simp add: new_display_def qos_inv_def)
next
  case (qr_remove q n)
  then show ?case by (simp add: remove_display_def qos_inv_def)
qed (simp_all add: set_support_changing_quality_def update_display_inv on_connection_close_inv user_image_quality_inv
    user_network_delay_inv)

section \<open>Steps\<close>

lemma recover_ge: "current \<le> fst (recover current fps u)"
  by (auto simp: recover_def Let_def split: option.split if_splits)

text \<open>The three ways out: recovery, no change, a cut that was due.\<close>

definition cut_due :: "nat \<Rightarrow> bool \<Rightarrow> user_delay \<Rightarrow> bool" where
  "cut_due delay bitrate_first u =
     (let u2 = bad_reply (count_restore u)
      in delay \<ge> 600 \<and> restore_guarded u2 \<or> delay \<ge> 1000 \<or>
         ud_fps_bad_samples u2 = 3 \<and>
         (bitrate_first \<longrightarrow> (case ud_replies_after_bitrate_reduction u2 of Some r \<Rightarrow> r | None \<Rightarrow> 0) \<ge> 2))"

lemma lower_level_keeps:
  "ud_fps_bad_samples (lower_level c fr u) = ud_fps_bad_samples u"
  "ud_replies_after_bitrate_reduction (lower_level c fr u) = ud_replies_after_bitrate_reduction u"
  by (simp_all add: lower_level_def)

lemma bad_reply_samples: "ud_fps_bad_samples (bad_reply u) < 3 \<longleftrightarrow> ud_fps_bad_samples (bad_reply u) \<noteq> 3"
  by (auto simp: bad_reply_def)

lemma limit_fps_change_cases:
  obtains (recovered) v where "fst (limit_fps_change current fps d bf br u) = fst (recover current fps v)"
  | (kept) "fst (limit_fps_change current fps d bf br u) = current"
  | (cut) k where "k = 2 \<or> k = 5" "cut_due (d - get_rtt0 u) bf u"
      "fst (limit_fps_change current fps d bf br u) = max fps (current - max (current div k) 1)"
proof (cases "d - get_rtt0 u < DELAY_THRESHOLD_150MS")
  case True
  then have "fst (limit_fps_change current fps d bf br u) = fst (recover current fps (good_reply (count_restore u)))"
    by (simp add: limit_fps_change_def)
  then show thesis by (rule recovered)
next
  case bad: False
  show thesis
  proof (cases "(fps \<ge> current \<or> br) \<or> \<not> cut_due (d - get_rtt0 u) bf u")
    case True
    then have "fst (limit_fps_change current fps d bf br u) = current"
      using bad by (auto simp: limit_fps_change_def cut_due_def Let_def lower_level_keeps bad_reply_samples)
    then show thesis by (rule kept)
  next
    case False
    let ?k = "if d - get_rtt0 u \<ge> 1000 \<or> d - get_rtt0 u \<ge> 600 \<and> restore_guarded (bad_reply (count_restore u)) then 2 else 5"
    have "fst (limit_fps_change current fps d bf br u) = max fps (current - max (current div ?k) 1)"
      using bad False by (auto simp: limit_fps_change_def cut_due_def Let_def lower_level_keeps bad_reply_samples)
    then show thesis using False by (intro cut [of ?k]) auto
  qed
qed

lemma limit_fps_change_ge_half:
  "current - max (current div 2) 1 \<le> fst (limit_fps_change current fps d bf br u)"
proof (cases rule: limit_fps_change_cases [of current fps d bf br u])
  case (recovered v)
  then show ?thesis using recover_ge [of current fps v] by simp
next
  case (cut k)
  have "current div k \<le> current div 2" using cut(1) by (auto intro: div_le_mono2)
  then show ?thesis unfolding cut(3) by linarith
qed simp

lemma limit_fps_change_keeps:
  assumes "d - get_rtt0 u < 1000" "ud_fps_bad_samples u < 2" "d - get_rtt0 u < 600 \<or> \<not> restore_guarded (count_restore u)"
  shows "current \<le> fst (limit_fps_change current fps d bf br u)"
proof (cases rule: limit_fps_change_cases [of current fps d bf br u])
  case (recovered v)
  then show ?thesis using recover_ge [of current fps v] by simp
next
  case (cut k)
  then show ?thesis using assms
    by (auto simp: cut_due_def Let_def bad_reply_def count_restore_def restore_guarded_def)
qed simp

lemma rtt_update_step:
  assumes "rc_baseline c = Some b"
  shows "\<exists>b'. rc_baseline (rtt_update d c) = Some b' \<and> b' \<le> min b d + MAX_INCREASE_MS"
proof -
  have "clampv 1 MAX_INCREASE_MS r \<le> MAX_INCREASE_MS" for r by (rule clampv_le) (simp add: MAX_INCREASE_MS_def)
  with assms show ?thesis by (simp add: rtt_update_def Let_def)
qed

lemma fold_rtt_ok: "rtt_ok c \<Longrightarrow> rtt_ok (fold rtt_update ds c)"
  by (induction ds arbitrary: c) (simp_all add: rtt_update_ok)

section \<open>Properties\<close>

text \<open>C39. Whatever viewers, displays, replies, stalls and quality settings the controller has seen,
  in any order and at any times: the frame rate is between \<open>MIN_FPS\<close> and \<open>MAX_FPS\<close>, the
  ratio between \<open>BR_MIN_HIGH_RESOLUTION\<close> and \<open>BR_MAX\<close>, so that the fallbacks of the two
  getters are never taken, the floor of the ratio does not exceed its ceiling (where
  \<open>clamp\<close> would panic), and each viewer keeps at most two delays and twenty samples.\<close>

theorem stream_in_bounds:
  assumes "qos_reach q"
  shows "qos_fps q = vq_fps q \<and> MIN_FPS \<le> vq_fps q \<and> vq_fps q \<le> MAX_FPS \<and> qos_ratio q = (vq_ratio q, q) \<and>
    BR_MIN_HIGH_RESOLUTION \<le> vq_ratio q \<and> vq_ratio q \<le> BR_MAX \<and>
    min_ratio q \<le> quality_ratio (latest_quality q) \<and>
    list_all (\<lambda>u. length (ud_delay_history (us_delay u)) \<le> 2 \<and> length (rc_samples (ud_rtt (us_delay u))) \<le> 20)
      (hm_values (vq_users q))"
proof -
  have inv: "qos_inv q" using assms by (rule qos_reach_inv)
  then have us: "list_all user_ok (hm_values (vq_users q))" and r: "0 \<le> vq_ratio q"
    by (auto simp: qos_inv_def ratio_const_values)
  have "list_all (\<lambda>u. length (ud_delay_history (us_delay u)) \<le> 2 \<and> length (rc_samples (ud_rtt (us_delay u))) \<le> 20)
      (hm_values (vq_users q))"
    using us by (simp add: list_all_iff user_ok_def delay_ok_def rtt_ok_def HISTORY_DELAY_LEN_def WINDOW_SAMPLES_def)
  then show ?thesis
    using inv min_ratio_ok(2) [OF latest_quality_ok [OF us] r] qos_ratio_same [OF inv]
    by (simp add: qos_inv_def qos_fps_def)
qed

theorem stream_in_bounds_witness:
  "qos_fps (user_network_delay 5000 1 700 (on_connection_open 10 True 1 (vq_default True 0))) \<le> MAX_FPS"
proof -
  have "qos_reach (user_network_delay 5000 1 700 (on_connection_open 10 True 1 (vq_default True 0)))"
    by (intro qos_reach.intros)
  from stream_in_bounds [OF this] show ?thesis by simp
qed



text \<open>One bad reply is jitter: unless the extra delay reaches a second, or a level just restored
  congests badly, the frame rate is not lowered before the third bad reply in a row; and no reply
  lowers it by more than half (or one frame).\<close>

theorem bad_replies_need_confirmation:
  "current - max (current div 2) 1 \<le> fst (limit_fps_change current fps d bf br u) \<and>
   (d - get_rtt0 u < 1000 \<and> ud_fps_bad_samples u < 2 \<and> (d - get_rtt0 u < 600 \<or> \<not> restore_guarded (count_restore u)) \<longrightarrow>
      current \<le> fst (limit_fps_change current fps d bf br u))"
  using limit_fps_change_ge_half limit_fps_change_keeps by blast

theorem bad_replies_need_confirmation_witness:
  "20 \<le> fst (limit_fps_change 20 5 400 False False delay_default)"
  using bad_replies_need_confirmation [of 20 5 400 False False delay_default]
  by (simp add: get_rtt0_def delay_default_def rtt_default_def restore_guarded_def count_restore_def)

text \<open>The round-trip baseline never exceeds a delay still in its window, follows a lower delay
  at once and rises by at most \<open>MAX_INCREASE_MS\<close> per reply.\<close>

theorem rtt_baseline_sound:
  assumes "c = fold rtt_update ds rtt_default" "rc_baseline c = Some b"
  shows "(\<forall>s \<in> set (rc_samples c). b \<le> s) \<and> length (rc_samples c) \<le> WINDOW_SAMPLES \<and>
    (\<exists>b'. rc_baseline (rtt_update d c) = Some b' \<and> b' \<le> d \<and> b' \<le> min b d + MAX_INCREASE_MS)"
proof -
  have ok: "rtt_ok c" unfolding assms(1) by (rule fold_rtt_ok) (simp add: rtt_ok_def rtt_default_def)
  obtain b' where b': "rc_baseline (rtt_update d c) = Some b'" "b' \<le> min b d + MAX_INCREASE_MS"
    using rtt_update_step [OF assms(2)] by blast
  have "d \<in> set (rc_samples (rtt_update d c))" by (simp add: rtt_update_def Let_def)
  with rtt_update_ok [OF ok, of d] b'(1) have "b' \<le> d" by (auto simp: rtt_ok_def)
  with ok b' assms(2) show ?thesis by (auto simp: rtt_ok_def)
qed

theorem rtt_baseline_sound_witness:
  "\<exists>b'. rc_baseline (rtt_update 30 (fold rtt_update [80, 40] rtt_default)) = Some b' \<and> b' \<le> 30"
proof -
  have "rc_baseline (fold rtt_update [80, 40] rtt_default) = Some 40"
    by (simp add: rtt_update_def rtt_default_def WINDOW_SAMPLES_def)
  from rtt_baseline_sound [OF refl this] show ?thesis by blast
qed

text \<open>Confirmed congestion never raises the bitrate above what it was (or the floor), the result
  always lies between the floor and the ratio of the latest quality, and no reply moves the ratio within
  \<open>ADJUST_RATIO_INTERVAL\<close> seconds of the last adjustment.\<close>

theorem congestion_lowers_ratio:
  assumes "qos_reach q"
  shows "(min_reduction (hm_values (vq_users q)) \<noteq> None \<longrightarrow>
      vq_ratio (adjust_ratio now dyn q) \<le> max (vq_ratio q) (min_ratio q)) \<and>
    (\<not> cooled_down now q \<longrightarrow> vq_ratio (user_network_delay now uid d q) = vq_ratio q)"
proof
  have inv: "qos_inv q" using assms by (rule qos_reach_inv)
  then have us: "list_all user_ok (hm_values (vq_users q))" and r: "0 \<le> vq_ratio q" "is_f32 (vq_ratio q)"
    by (auto simp: qos_inv_def ratio_const_values)
  note mr = min_ratio_ok [OF latest_quality_ok [OF us] r(1)] and qr = quality_ratio_ok [OF latest_quality_ok [OF us]]
  show "min_reduction (hm_values (vq_users q)) \<noteq> None \<longrightarrow>
      vq_ratio (adjust_ratio now dyn q) \<le> max (vq_ratio q) (min_ratio q)"
  proof
    assume "min_reduction (hm_values (vq_users q)) \<noteq> None"
    then obtain fac where f: "min_reduction (hm_values (vq_users q)) = Some fac" by blast
    have le: "f32_mul (vq_ratio q) fac \<le> vq_ratio q"
      using min_reduction_bounds [OF f] r by (intro f32_mul_le) auto
    show "vq_ratio (adjust_ratio now dyn q) \<le> max (vq_ratio q) (min_ratio q)"
    proof (cases rule: adjust_ratio_cases [of now dyn q])
      case (moved red mx l)
      have "limit_ratio_increase (vq_bitrate_store q) (vq_ratio q) (ratio_step red mx dyn (vq_ratio q)) \<le> vq_ratio q"
        using le f moved(3) by (auto simp: ratio_step_def limit_ratio_increase_def Let_def)
      then show ?thesis unfolding moved(4) by (auto simp: clampv_def)
    qed simp
  qed
  show "\<not> cooled_down now q \<longrightarrow> vq_ratio (user_network_delay now uid d q) = vq_ratio q"
    by (auto simp: user_network_delay_def cooled_down_def adjust_fps_frame Let_def split: option.splits prod.splits)
qed

theorem congestion_lowers_ratio_witness:
  "vq_ratio (user_network_delay 2000 1 700 (on_connection_open 10 True 1 (vq_default True 0))) =
   vq_ratio (on_connection_open 10 True 1 (vq_default True 0))"
proof -
  have "qos_reach (on_connection_open 10 True 1 (vq_default True 0))" by (intro qos_reach.intros)
  moreover have "\<not> cooled_down 2000 (on_connection_open 10 True 1 (vq_default True 0))"
    by (simp add: cooled_down_def since_secs_def on_connection_open_def vq_default_def ADJUST_RATIO_INTERVAL_def)
  ultimately show ?thesis using congestion_lowers_ratio by blast
qed

end
