(* ===== verification/Login_Failure.thy ===== *)
theory Login_Failure
  imports Prelude
begin

text \<open>
  Back-off after failed logins with operating-system credentials,
  \<open>src/server/login_failure_check.rs\<close>.  The state is process-wide behind a mutex, so each
  operation is a step on it; the clock is an argument.  Times are \<open>i64\<close> milliseconds, modelled as
  \<open>int\<close> with the saturation of \<open>saturating_sub\<close> and \<open>saturating_add\<close> written out.
\<close>

section \<open>State and operations\<close>

definition OS_CREDENTIAL_LOGIN_TOTAL_IDLE_RESET_MS :: int where
  "OS_CREDENTIAL_LOGIN_TOTAL_IDLE_RESET_MS = 120 * 60 * 1000"
definition OS_CREDENTIAL_LOGIN_BACKOFF_BASE_SECONDS :: int where
  "OS_CREDENTIAL_LOGIN_BACKOFF_BASE_SECONDS = 15"
definition OS_CREDENTIAL_LOGIN_BACKOFF_MAX_SECONDS :: int where
  "OS_CREDENTIAL_LOGIN_BACKOFF_MAX_SECONDS = 30 * 60"

lemmas login_consts = OS_CREDENTIAL_LOGIN_TOTAL_IDLE_RESET_MS_def OS_CREDENTIAL_LOGIN_BACKOFF_BASE_SECONDS_def
  OS_CREDENTIAL_LOGIN_BACKOFF_MAX_SECONDS_def

datatype failure_scope = DefaultScope | TerminalOsLogin

datatype alarm_audit_type = TerminalOsLoginBackoff

record policy_decision =
  pd_allowed :: bool
  pd_login_error :: "string option"
  pd_audit :: "alarm_audit_type option"

record failure_state =
  fs_total_failures :: int
  fs_backoff_until_ms :: "int option"
  fs_last_failure_ms :: "int option"

definition failure_state_default :: failure_state where
  "failure_state_default = \<lparr>fs_total_failures = 0, fs_backoff_until_ms = None, fs_last_failure_ms = None\<rparr>"

definition is_os_credential_scope :: "failure_scope \<Rightarrow> bool" where
  "is_os_credential_scope s = (s = TerminalOsLogin)"

definition backoff_audit_type_for_scope :: "failure_scope \<Rightarrow> alarm_audit_type option" where
  "backoff_audit_type_for_scope s = (case s of TerminalOsLogin \<Rightarrow> Some TerminalOsLoginBackoff | DefaultScope \<Rightarrow> None)"

definition os_credential_login_backoff_seconds :: "int \<Rightarrow> int" where
  "os_credential_login_backoff_seconds total_failures =
     (if total_failures \<le> 2 then 0
      else let exp = min (total_failures - 3) 7;
               seconds = OS_CREDENTIAL_LOGIN_BACKOFF_BASE_SECONDS * 2 ^ nat exp
           in min seconds OS_CREDENTIAL_LOGIN_BACKOFF_MAX_SECONDS)"

definition normalize_backoff :: "int \<Rightarrow> failure_state \<Rightarrow> failure_state" where
  "normalize_backoff now_ms st =
     (case fs_backoff_until_ms st of
        Some until_ms \<Rightarrow> if until_ms \<le> now_ms then st\<lparr>fs_backoff_until_ms := None\<rparr> else st
      | None \<Rightarrow> st)"

definition sat_sub_i64 :: "int \<Rightarrow> int \<Rightarrow> int" where
  "sat_sub_i64 a b = clampv (- (2 ^ 63)) (2 ^ 63 - 1) (a - b)"

definition reset_totals_on_idle :: "int \<Rightarrow> failure_state \<Rightarrow> failure_state" where
  "reset_totals_on_idle now_ms st =
     (case fs_last_failure_ms st of
        Some last_ms \<Rightarrow>
          (if sat_sub_i64 now_ms last_ms \<ge> OS_CREDENTIAL_LOGIN_TOTAL_IDLE_RESET_MS
           then \<lparr>fs_total_failures = 0, fs_backoff_until_ms = None, fs_last_failure_ms = None\<rparr> else st)
      | None \<Rightarrow> st)"

definition allow_decision :: policy_decision where
  "allow_decision = \<lparr>pd_allowed = True, pd_login_error = None, pd_audit = None\<rparr>"

definition block_decision :: "string \<Rightarrow> alarm_audit_type option \<Rightarrow> policy_decision" where
  "block_decision login_error alarm_type =
     \<lparr>pd_allowed = False, pd_login_error = Some login_error, pd_audit = alarm_type\<rparr>"

definition remaining_seconds :: "int \<Rightarrow> int \<Rightarrow> int" where
  "remaining_seconds until_ms now_ms = max ((max (until_ms - now_ms) 0 + 999) div 1000) 1"

definition evaluate_os_credential_policy :: "failure_scope \<Rightarrow> int \<Rightarrow> failure_state \<Rightarrow> policy_decision \<times> failure_state" where
  "evaluate_os_credential_policy scope now_ms st =
     (if \<not> is_os_credential_scope scope then (allow_decision, st)
      else let st' = normalize_backoff now_ms (reset_totals_on_idle now_ms st) in
        case fs_backoff_until_ms st' of
          Some until_ms \<Rightarrow>
            (let secs = remaining_seconds until_ms now_ms
             in (block_decision (''Please try again in '' @ show_int secs @ '' '' @
                   (if secs = 1 then ''second'' else ''seconds'') @ ''.'')
                   (backoff_audit_type_for_scope scope), st'))
        | None \<Rightarrow> (allow_decision, st'))"

definition record_os_credential_failure :: "failure_scope \<Rightarrow> int \<Rightarrow> failure_state \<Rightarrow> failure_state" where
  "record_os_credential_failure scope now_ms st =
     (if \<not> is_os_credential_scope scope then st
      else let st1 = normalize_backoff now_ms (reset_totals_on_idle now_ms st);
               total_failures = min (fs_total_failures st1 + 1) (2 ^ 31 - 1);
               st2 = st1\<lparr>fs_total_failures := total_failures, fs_last_failure_ms := Some now_ms\<rparr>;
               backoff = os_credential_login_backoff_seconds total_failures
           in if backoff > 0 then st2\<lparr>fs_backoff_until_ms := Some (now_ms + backoff * 1000)\<rparr> else st2)"

section \<open>The back-off schedule\<close>

lemma backoff_bounds:
  "0 \<le> os_credential_login_backoff_seconds n \<and> os_credential_login_backoff_seconds n \<le> 1800"
  by (simp add: os_credential_login_backoff_seconds_def login_consts Let_def)

lemma backoff_pos: "3 \<le> n \<Longrightarrow> 15 \<le> os_credential_login_backoff_seconds n"
proof -
  assume "3 \<le> n"
  have "(1 :: int) \<le> 2 ^ nat (min (n - 3) 7)" by (rule one_le_power) simp
  with \<open>3 \<le> n\<close> show ?thesis
    by (simp add: os_credential_login_backoff_seconds_def login_consts Let_def)
qed

lemma backoff_mono:
  assumes "m \<le> n"
  shows "os_credential_login_backoff_seconds m \<le> os_credential_login_backoff_seconds n"
proof (cases "m \<le> 2")
  case True
  then show ?thesis using backoff_bounds [of n] by (simp add: os_credential_login_backoff_seconds_def)
next
  case False
  define p where "p k = (2 :: int) ^ nat (min (k - 3) 7)" for k :: int
  have "p m \<le> p n" unfolding p_def using assms by (intro power_increasing) auto
  moreover have "os_credential_login_backoff_seconds k = min (15 * p k) 1800" if "\<not> k \<le> 2" for k
    using that by (simp add: os_credential_login_backoff_seconds_def login_consts Let_def p_def)
  ultimately show ?thesis using False assms by simp
qed

text \<open>Below three failures there is no back-off pending; a pending one ends at the time the last
  failure set.\<close>

definition failure_inv :: "failure_state \<Rightarrow> bool" where
  "failure_inv st = (0 \<le> fs_total_failures st \<and>
     (case fs_backoff_until_ms st of
        None \<Rightarrow> True
      | Some until_ms \<Rightarrow> 3 \<le> fs_total_failures st \<and> (\<exists>l. fs_last_failure_ms st = Some l \<and>
          until_ms = l + 1000 * os_credential_login_backoff_seconds (fs_total_failures st))))"

lemma failure_inv_default: "failure_inv failure_state_default"
  by (simp add: failure_inv_def failure_state_default_def)

lemma normalize_inv: "failure_inv st \<Longrightarrow> failure_inv (normalize_backoff now st)"
  by (auto simp: failure_inv_def normalize_backoff_def split: option.splits)

lemma reset_inv: "failure_inv st \<Longrightarrow> failure_inv (reset_totals_on_idle now st)"
  by (auto simp: failure_inv_def reset_totals_on_idle_def split: option.splits)

lemma record_inv:
  assumes "failure_inv st"
  shows "failure_inv (record_os_credential_failure scope now st)"
proof -
  let ?st1 = "normalize_backoff now (reset_totals_on_idle now st)"
  have i: "failure_inv ?st1" using assms by (intro normalize_inv reset_inv)
  let ?n = "min (fs_total_failures ?st1 + 1) (2 ^ 31 - 1)"
  have "3 \<le> ?n" if "0 < os_credential_login_backoff_seconds ?n"
    using that by (auto simp: os_credential_login_backoff_seconds_def split: if_splits)
  moreover have "3 \<le> ?n" if "fs_backoff_until_ms ?st1 = Some u" for u
    using i that by (auto simp: failure_inv_def)
  moreover have "0 < os_credential_login_backoff_seconds ?n" if "3 \<le> ?n" using backoff_pos [OF that] by simp
  ultimately have "fs_backoff_until_ms ?st1 = None \<or> 0 < os_credential_login_backoff_seconds ?n" by fastforce
  with i \<open>0 < os_credential_login_backoff_seconds ?n \<Longrightarrow> 3 \<le> ?n\<close> assms show ?thesis
    by (auto simp: record_os_credential_failure_def failure_inv_def Let_def algebra_simps split: option.splits)
qed

inductive failure_reach :: "failure_state \<Rightarrow> bool" where
  fr_default: "failure_reach failure_state_default"
| fr_record: "failure_reach st \<Longrightarrow> failure_reach (record_os_credential_failure scope now st)"
| fr_evaluate: "failure_reach st \<Longrightarrow> failure_reach (snd (evaluate_os_credential_policy scope now st))"

lemma failure_reach_inv: "failure_reach st \<Longrightarrow> failure_inv st"
proof (induction rule: failure_reach.induct)
  case (fr_evaluate st scope now)
  then show ?case
    by (auto simp: evaluate_os_credential_policy_def Let_def intro: normalize_inv reset_inv split: option.splits)
qed (simp_all add: failure_inv_default record_inv)

lemma recorded_state:
  assumes "failure_inv st" "st' = record_os_credential_failure TerminalOsLogin t st"
  shows "fs_last_failure_ms st' = Some t \<and> 1 \<le> fs_total_failures st' \<and>
    fs_backoff_until_ms st' = (if fs_total_failures st' \<le> 2 then None
      else Some (t + 1000 * os_credential_login_backoff_seconds (fs_total_failures st')))"
proof -
  have inv: "failure_inv st'" unfolding assms(2) using assms(1) by (rule record_inv)
  let ?st1 = "normalize_backoff t (reset_totals_on_idle t st)"
  have "0 \<le> fs_total_failures ?st1" using assms(1) normalize_inv reset_inv failure_inv_def by blast
  moreover have l: "fs_last_failure_ms st' = Some t" "fs_total_failures st' = min (fs_total_failures ?st1 + 1) (2 ^ 31 - 1)"
    using assms(2) by (simp_all add: record_os_credential_failure_def is_os_credential_scope_def Let_def)
  moreover have "fs_backoff_until_ms st' \<noteq> None" if "\<not> fs_total_failures st' \<le> 2"
  proof -
    define n where "n = min (fs_total_failures ?st1 + 1) (2 ^ 31 - 1)"
    have "0 < os_credential_login_backoff_seconds n" using that l(2) backoff_pos [of n] unfolding n_def by linarith
    then show ?thesis
      using assms(2) by (simp add: record_os_credential_failure_def is_os_credential_scope_def Let_def n_def)
  qed
  ultimately show ?thesis using inv by (auto simp: failure_inv_def split: option.splits)
qed

lemma sat_sub_exact: "- (2 ^ 63) \<le> a - b \<Longrightarrow> a - b < 2 ^ 63 \<Longrightarrow> sat_sub_i64 a b = a - b"
  unfolding sat_sub_i64_def by (rule clampv_id) simp_all

section \<open>Properties\<close>

text \<open>C38. After a failed login at time \<open>t\<close> that brings the count to \<open>n\<close>, a further attempt is refused
  exactly until \<open>t\<close> plus the back-off of \<open>n\<close>; in particular the idle reset never shortens a back-off.\<close>

theorem login_blocked_exactly:
  assumes "failure_reach st" "st' = record_os_credential_failure TerminalOsLogin t st" "t \<le> now" "now - t < 2 ^ 63"
  shows "let n = fs_total_failures st'; d = fst (evaluate_os_credential_policy TerminalOsLogin now st')
    in pd_allowed d \<longleftrightarrow> t + 1000 * os_credential_login_backoff_seconds n \<le> now"
proof -
  have inv: "failure_inv st" using assms(1) by (rule failure_reach_inv)
  let ?n = "fs_total_failures st'"
  let ?b = "os_credential_login_backoff_seconds ?n"
  note r = recorded_state [OF inv assms(2)]
  have sub: "sat_sub_i64 now t = now - t" using assms(3,4) by (intro sat_sub_exact) simp_all
  have zero: "?n \<le> 2 \<Longrightarrow> ?b = 0" by (simp add: os_credential_login_backoff_seconds_def)
  show ?thesis
  proof (cases "now - t \<ge> OS_CREDENTIAL_LOGIN_TOTAL_IDLE_RESET_MS")
    case True
    with r sub have "reset_totals_on_idle now st' = \<lparr>fs_total_failures = 0, fs_backoff_until_ms = None, fs_last_failure_ms = None\<rparr>"
      by (simp add: reset_totals_on_idle_def)
    moreover have "t + 1000 * ?b \<le> now" using True backoff_bounds [of ?n] by (simp add: login_consts)
    ultimately show ?thesis
      by (simp add: evaluate_os_credential_policy_def is_os_credential_scope_def normalize_backoff_def allow_decision_def)
  next
    case False
    with r sub have "reset_totals_on_idle now st' = st'" by (simp add: reset_totals_on_idle_def)
    then show ?thesis using r zero assms(3)
      by (auto simp: evaluate_os_credential_policy_def is_os_credential_scope_def normalize_backoff_def allow_decision_def
          block_decision_def Let_def split: option.splits if_splits)
  qed
qed

theorem login_blocked_exactly_witness:
  "let st = record_os_credential_failure TerminalOsLogin 2 (record_os_credential_failure TerminalOsLogin 1 failure_state_default);
       st' = record_os_credential_failure TerminalOsLogin 5 st
   in \<not> pd_allowed (fst (evaluate_os_credential_policy TerminalOsLogin 15004 st'))"
proof -
  let ?st = "record_os_credential_failure TerminalOsLogin 2 (record_os_credential_failure TerminalOsLogin 1 failure_state_default)"
  let ?st' = "record_os_credential_failure TerminalOsLogin 5 ?st"
  have n: "fs_total_failures ?st' = 3"
    by (simp add: record_os_credential_failure_def is_os_credential_scope_def normalize_backoff_def reset_totals_on_idle_def
        failure_state_default_def sat_sub_i64_def clampv_def login_consts os_credential_login_backoff_seconds_def Let_def)
  have "failure_reach ?st" by (intro failure_reach.intros)
  from login_blocked_exactly [OF this refl, of 5 15004] n show ?thesis
    by (simp add: os_credential_login_backoff_seconds_def login_consts Let_def)
qed

text \<open>The back-off schedule grows with the number of failures and is bounded: nothing for the first two,
  then from 15 seconds, doubling, to at most 30 minutes.\<close>

theorem backoff_schedule:
  "(m \<le> n \<longrightarrow> os_credential_login_backoff_seconds m \<le> os_credential_login_backoff_seconds n) \<and>
   (n \<le> 2 \<longrightarrow> os_credential_login_backoff_seconds n = 0) \<and>
   (3 \<le> n \<and> n \<le> 9 \<longrightarrow> os_credential_login_backoff_seconds n = 15 * 2 ^ nat (n - 3)) \<and>
   (10 \<le> n \<longrightarrow> os_credential_login_backoff_seconds n = 1800)"
proof (intro conjI impI)
  show "m \<le> n \<Longrightarrow> os_credential_login_backoff_seconds m \<le> os_credential_login_backoff_seconds n" by (rule backoff_mono)
  show "n \<le> 2 \<Longrightarrow> os_credential_login_backoff_seconds n = 0" by (simp add: os_credential_login_backoff_seconds_def)
  show "10 \<le> n \<Longrightarrow> os_credential_login_backoff_seconds n = 1800"
    by (simp add: os_credential_login_backoff_seconds_def login_consts Let_def min_def)
  assume n: "3 \<le> n \<and> n \<le> 9"
  have "(2 :: int) ^ nat (n - 3) \<le> 2 ^ 6" using n by (intro power_increasing) auto
  with n show "os_credential_login_backoff_seconds n = 15 * 2 ^ nat (n - 3)"
    by (simp add: os_credential_login_backoff_seconds_def login_consts Let_def min_def)
qed

theorem backoff_schedule_witness:
  "os_credential_login_backoff_seconds 5 = 60 \<and> os_credential_login_backoff_seconds 4 \<le> os_credential_login_backoff_seconds 5"
  using backoff_schedule [of 4 5] by (simp add: numeral_eq_Suc)

end
