(* ===== verification/Terminal_Buffer.thy ===== *)
theory Terminal_Buffer
  imports Prelude "HOL-Library.Sublist"
begin

text \<open>
  The byte-level parts of \<open>src/server/terminal_service.rs\<close>: the scroll-back buffer a
  reconnecting client is replayed from (\<open>OutputBuffer\<close>) and the accumulator that keeps a PTY
  reader from cutting a UTF-8 code point (\<open>find_utf8_split_point\<close>, \<open>Utf8ChunkAccumulator\<close>).
  \<open>std::str::from_utf8\<close> is modelled by \<open>valid_utf8\<close>, the well-formed byte sequences of the
  Unicode standard.
\<close>

section \<open>Output buffer\<close>

definition MAX_OUTPUT_BUFFER_SIZE :: nat where "MAX_OUTPUT_BUFFER_SIZE = 1024 * 1024"
definition MAX_BUFFER_LINES :: nat where "MAX_BUFFER_LINES = 10000"

definition NL :: u8 where "NL = 10"

record output_buffer =
  ob_lines :: "bytes list"
  ob_total_size :: nat
  ob_last_line_incomplete :: bool

definition ob_new :: output_buffer where
  "ob_new = \<lparr>ob_lines = [], ob_total_size = 0, ob_last_line_incomplete = False\<rparr>"

text \<open>The lines the loop over the pieces pushes: every piece but the last gets its newline back,
  an empty last piece is dropped.\<close>

fun push_lines :: "bool \<Rightarrow> bytes list \<Rightarrow> bytes list" where
  "push_lines ends_nl [] = []"
| "push_lines ends_nl [l] = (if l \<noteq> [] then [if ends_nl then l @ [NL] else l] else [])"
| "push_lines ends_nl (l # l' # ls) = (l @ [NL]) # push_lines ends_nl (l' # ls)"

text \<open>The trimming loop, with its two recovery branches.\<close>

fun trim_lines :: "nat \<Rightarrow> bool \<Rightarrow> bytes list \<Rightarrow> output_buffer" where
  "trim_lines tot incomplete [] =
     (if tot > MAX_OUTPUT_BUFFER_SIZE
      then \<lparr>ob_lines = [], ob_total_size = 0, ob_last_line_incomplete = False\<rparr>
      else \<lparr>ob_lines = [], ob_total_size = tot, ob_last_line_incomplete = incomplete\<rparr>)"
| "trim_lines tot incomplete (l # ls) =
     (if tot > MAX_OUTPUT_BUFFER_SIZE \<or> length (l # ls) > MAX_BUFFER_LINES then
        trim_lines (if length l > tot then sum_list (map length ls) else tot - length l)
          (if ls = [] then False else incomplete) ls
      else \<lparr>ob_lines = l # ls, ob_total_size = tot, ob_last_line_incomplete = incomplete\<rparr>)"

definition append_rest :: "bytes \<Rightarrow> output_buffer \<Rightarrow> output_buffer" where
  "append_rest remaining b =
     (let ends_nl = (remaining \<noteq> [] \<and> last remaining = NL);
          pieces = split_on NL remaining;
          pushed = push_lines ends_nl pieces;
          incomplete = (if \<not> ends_nl \<and> last pieces \<noteq> [] then True else ob_last_line_incomplete b)
      in trim_lines (ob_total_size b + sum_list (map length pushed)) incomplete (ob_lines b @ pushed))"

definition ob_append :: "bytes \<Rightarrow> output_buffer \<Rightarrow> output_buffer" where
  "ob_append d b =
     (if d = [] then b
      else if ob_last_line_incomplete b \<and> ob_lines b \<noteq> [] then
        (if NL \<in> set d then
           (let n = length (takeWhile (\<lambda>c. c \<noteq> NL) d) + 1;
                ls = butlast (ob_lines b) @ [last (ob_lines b) @ take n d]
            in append_rest (drop n d) \<lparr>ob_lines = ls, ob_total_size = ob_total_size b + n, ob_last_line_incomplete = False\<rparr>)
         else b\<lparr>ob_lines := butlast (ob_lines b) @ [last (ob_lines b) @ d], ob_total_size := ob_total_size b + length d\<rparr>)
      else append_rest d b)"

text \<open>Aligning the tail of an oversized chunk: at most three continuation bytes are skipped.\<close>

fun skip_continuation :: "nat \<Rightarrow> nat \<Rightarrow> bytes \<Rightarrow> nat" where
  "skip_continuation 0 offset l = offset"
| "skip_continuation (Suc k) offset l =
     (if offset < length l \<and> (l ! offset) AND 0xC0 = 0x80 then skip_continuation k (offset + 1) l else offset)"

fun recent_chunks :: "nat \<Rightarrow> nat \<Rightarrow> bytes list \<Rightarrow> bytes list" where
  "recent_chunks max_bytes tot [] = []"
| "recent_chunks max_bytes tot (l # ls) =
     (if tot + length l > max_bytes then
        (if tot = 0 \<and> length l > max_bytes then
           (let offset = skip_continuation 3 (length l - max_bytes) l
            in if offset < length l then [drop offset l] else [])
         else [])
      else l # recent_chunks max_bytes (tot + length l) ls)"

definition get_recent :: "nat \<Rightarrow> output_buffer \<Rightarrow> bytes" where
  "get_recent max_bytes b =
     (if max_bytes = 0 then [] else concat (rev (recent_chunks max_bytes 0 (rev (ob_lines b)))))"

section \<open>UTF-8\<close>

definition seq_len :: "u8 \<Rightarrow> nat option" where
  "seq_len b =
     (if b AND 0xE0 = 0xC0 then Some 2 else if b AND 0xF0 = 0xE0 then Some 3
      else if b AND 0xF8 = 0xF0 then Some 4 else None)"

fun split_scan :: "bytes \<Rightarrow> nat list \<Rightarrow> nat" where
  "split_scan buf [] = length buf"
| "split_scan buf (i # js) =
     (let b = buf ! i in
      if b AND 0x80 = 0 then length buf
      else if b AND 0xC0 = 0x80 then split_scan buf js
      else case seq_len b of
             None \<Rightarrow> length buf
           | Some n \<Rightarrow> if length buf - i \<ge> n then length buf else i)"

definition find_utf8_split_point :: "bytes \<Rightarrow> nat" where
  "find_utf8_split_point buf =
     (if buf = [] then 0 else split_scan buf (rev [length buf - 3..<length buf]))"

definition cont_byte :: "u8 \<Rightarrow> bool" where
  "cont_byte b = (0x80 \<le> b \<and> b \<le> 0xBF)"

text \<open>The well-formed sequences of Unicode, table 3-7: the lead byte gives the length, some lead
  bytes restrict the second byte.\<close>

definition lead_len :: "u8 \<Rightarrow> nat option" where
  "lead_len b =
     (if b < 0x80 then Some 1 else if 0xC2 \<le> b \<and> b \<le> 0xDF then Some 2
      else if 0xE0 \<le> b \<and> b \<le> 0xEF then Some 3 else if 0xF0 \<le> b \<and> b \<le> 0xF4 then Some 4 else None)"

definition second_ok :: "u8 \<Rightarrow> u8 \<Rightarrow> bool" where
  "second_ok b0 b1 =
     ((b0 = 0xE0 \<longrightarrow> 0xA0 \<le> b1) \<and> (b0 = 0xED \<longrightarrow> b1 \<le> 0x9F) \<and> (b0 = 0xF0 \<longrightarrow> 0x90 \<le> b1) \<and> (b0 = 0xF4 \<longrightarrow> b1 \<le> 0x8F))"

definition utf8_char_len :: "bytes \<Rightarrow> nat option" where
  "utf8_char_len bs =
     (case bs of
        [] \<Rightarrow> None
      | b0 # r \<Rightarrow>
          (case lead_len b0 of
             None \<Rightarrow> None
           | Some n \<Rightarrow>
               if n \<le> length bs \<and> list_all cont_byte (take (n - 1) r) \<and> (n > 1 \<longrightarrow> second_ok b0 (hd r))
               then Some n else None))"

lemma lead_len_range: "lead_len b = Some n \<Longrightarrow> 0 < n \<and> n \<le> 4"
  by (auto simp: lead_len_def split: if_splits)

lemma utf8_char_len_pos: "utf8_char_len bs = Some n \<Longrightarrow> 0 < n \<and> n \<le> length bs \<and> n \<le> 4"
  using lead_len_range by (force simp: utf8_char_len_def split: list.splits option.splits if_splits)

function valid_utf8 :: "bytes \<Rightarrow> bool" where
  "valid_utf8 bs =
     (if bs = [] then True
      else case utf8_char_len bs of None \<Rightarrow> False | Some n \<Rightarrow> valid_utf8 (drop n bs))"
  by pat_completeness auto
termination
  by (relation "measure length") (auto dest!: utf8_char_len_pos)

declare valid_utf8.simps [simp del]

record utf8_chunk_accumulator =
  ua_remainder :: bytes

definition push_chunk :: "bytes \<Rightarrow> utf8_chunk_accumulator \<Rightarrow> bytes option \<times> utf8_chunk_accumulator" where
  "push_chunk data0 a =
     (if data0 = [] then (None, a)
      else let had_remainder = (ua_remainder a \<noteq> []);
               d = (if had_remainder then ua_remainder a @ data0 else data0);
               a1 = (if had_remainder then a\<lparr>ua_remainder := []\<rparr> else a);
               split = find_utf8_split_point d
           in if split = length d then (Some d, a1)
              else if \<not> had_remainder \<and> split > 0 \<and> \<not> valid_utf8 (take split d) then (Some d, a1)
              else (if take split d = [] then None else Some (take split d), a1\<lparr>ua_remainder := drop split d\<rparr>))"

definition finish_chunks :: "utf8_chunk_accumulator \<Rightarrow> bytes option \<times> utf8_chunk_accumulator" where
  "finish_chunks a =
     (if ua_remainder a = [] then (None, a) else (Some (ua_remainder a), a\<lparr>ua_remainder := []\<rparr>))"

section \<open>The buffer is the line split of a suffix of the output\<close>

definition full_line :: "bytes \<Rightarrow> bool" where
  "full_line l = (l \<noteq> [] \<and> last l = NL \<and> NL \<notin> set (butlast l))"

definition part_line :: "bytes \<Rightarrow> bool" where
  "part_line l = (l \<noteq> [] \<and> NL \<notin> set l)"

definition lines_ok :: "bool \<Rightarrow> bytes list \<Rightarrow> bool" where
  "lines_ok incomplete ls =
     (list_all full_line (butlast ls) \<and>
      (if ls = [] then \<not> incomplete else if incomplete then part_line (last ls) else full_line (last ls)))"

lemma full_line_snoc: "NL \<notin> set l \<Longrightarrow> full_line (l @ [NL])"
  by (simp add: full_line_def)

lemma concat_push_lines: "(e \<Longrightarrow> last ps = []) \<Longrightarrow> concat (push_lines e ps) = join_on NL ps"
  by (induction e ps rule: push_lines.induct) auto

lemma push_lines_ok:
  assumes "\<And>l. l \<in> set ps \<Longrightarrow> NL \<notin> set l" and "e \<Longrightarrow> last ps = []" and "ps \<noteq> []"
  shows "lines_ok (last ps \<noteq> []) (push_lines e ps) \<or> (push_lines e ps = [] \<and> last ps = [])"
  using assms
proof (induction e ps rule: push_lines.induct)
  case (3 e l l' ls)
  have IH: "lines_ok (last (l' # ls) \<noteq> []) (push_lines e (l' # ls)) \<or> (push_lines e (l' # ls) = [] \<and> last (l' # ls) = [])"
    using 3 by simp
  have "full_line (l @ [NL])" using 3 by (intro full_line_snoc) simp
  then show ?case using IH by (auto simp: lines_ok_def)
qed (auto simp: lines_ok_def part_line_def)

lemma lines_ok_append:
  assumes "lines_ok False xs" and "lines_ok e ys"
  shows "lines_ok e (xs @ ys)"
  using assms by (cases "ys = []"; cases xs rule: rev_cases) (auto simp: lines_ok_def butlast_append)

lemma lines_ok_drop: "lines_ok e ls \<Longrightarrow> lines_ok (if drop k ls = [] then False else e) (drop k ls)"
  by (cases "ls = []") (auto simp: lines_ok_def butlast_drop list_all_iff dest: in_set_dropD)

lemma trim_lines_spec:
  assumes "tot = length (concat ls)" and "ls = [] \<Longrightarrow> \<not> e"
  shows "\<exists>k. trim_lines tot e ls =
           \<lparr>ob_lines = drop k ls, ob_total_size = length (concat (drop k ls)),
            ob_last_line_incomplete = (if drop k ls = [] then False else e)\<rparr> \<and>
         length (concat (drop k ls)) \<le> MAX_OUTPUT_BUFFER_SIZE \<and> length (drop k ls) \<le> MAX_BUFFER_LINES \<and>
         (tot \<le> MAX_OUTPUT_BUFFER_SIZE \<and> length ls \<le> MAX_BUFFER_LINES \<longrightarrow> k = 0)"
  using assms
proof (induction tot e ls rule: trim_lines.induct)
  case (1 tot e)
  then show ?case by (intro exI [of _ 0]) simp
next
  case (2 tot e l ls)
  show ?case
  proof (cases "tot > MAX_OUTPUT_BUFFER_SIZE \<or> length (l # ls) > MAX_BUFFER_LINES")
    case True
    from 2(1) [OF this] 2(2)
    obtain k where k: "trim_lines (length (concat ls)) (if ls = [] then False else e) ls =
           \<lparr>ob_lines = drop k ls, ob_total_size = length (concat (drop k ls)),
            ob_last_line_incomplete = (if drop k ls = [] then False else if ls = [] then False else e)\<rparr>"
      "length (concat (drop k ls)) \<le> MAX_OUTPUT_BUFFER_SIZE" "length (drop k ls) \<le> MAX_BUFFER_LINES"
      by (auto simp: length_concat)
    have "trim_lines tot e (l # ls) = trim_lines (length (concat ls)) (if ls = [] then False else e) ls"
      using True 2(2) by (simp add: length_concat)
    with k True 2(2) show ?thesis
      by (intro exI [of _ "Suc k"]) (auto simp del: trim_lines.simps)
  next
    case False
    with 2 show ?thesis by (intro exI [of _ 0]) auto
  qed
qed

lemma lines_ok_count: "lines_ok e ls \<Longrightarrow> length ls = count_list (concat ls) NL + of_bool e"
proof (induction ls)
  case (Cons l ls)
  have full: "full_line k \<Longrightarrow> count_list k NL = 1" for k
    by (cases k rule: rev_cases) (auto simp: full_line_def)
  show ?case
  proof (cases "ls = []")
    case True
    with Cons.prems full [of l] show ?thesis
      by (auto simp: lines_ok_def part_line_def split: if_splits)
  next
    case False
    then have "lines_ok e ls" and "full_line l"
      using Cons.prems by (auto simp: lines_ok_def)
    then show ?thesis using Cons.IH full [of l] by simp
  qed
qed (simp add: lines_ok_def)

definition ob_ok :: "output_buffer \<Rightarrow> bool" where
  "ob_ok b =
     (ob_total_size b = length (concat (ob_lines b)) \<and>
      lines_ok (ob_last_line_incomplete b) (ob_lines b) \<and>
      length (ob_lines b) \<le> MAX_BUFFER_LINES \<and>
      length (concat (butlast (ob_lines b))) \<le> MAX_OUTPUT_BUFFER_SIZE)"

text \<open>What one append does to the stored bytes: a suffix of the old contents followed by the new
  data, all of it as long as it fits.\<close>

definition ob_step :: "bytes \<Rightarrow> bytes \<Rightarrow> output_buffer \<Rightarrow> bool" where
  "ob_step old d b' =
     (suffix (concat (ob_lines b')) (old @ d) \<and>
      (length (old @ d) \<le> MAX_OUTPUT_BUFFER_SIZE \<and> count_list (old @ d) NL < MAX_BUFFER_LINES \<longrightarrow>
       concat (ob_lines b') = old @ d))"

lemma suffix_concat_drop: "suffix (concat (drop k ls)) (concat ls)"
  by (metis append_take_drop_id concat_append suffix_def)

lemma append_rest_ok:
  assumes tot: "ob_total_size b = length (concat (ob_lines b))" and ok: "lines_ok False (ob_lines b)"
    and inc: "\<not> ob_last_line_incomplete b"
  shows "ob_ok (append_rest r b) \<and> ob_step (concat (ob_lines b)) r (append_rest r b) \<and>
         ob_total_size (append_rest r b) \<le> MAX_OUTPUT_BUFFER_SIZE"
proof -
  define e where "e = (r \<noteq> [] \<and> last r = NL)"
  define ps where "ps = push_lines e (split_on NL r)"
  define inc' where "inc' = (last (split_on NL r) \<noteq> [])"
  have e: "e \<Longrightarrow> last (split_on NL r) = []"
    by (simp add: e_def split_on_last_nil)
  have cat: "concat ps = r"
    unfolding ps_def by (subst concat_push_lines) (auto simp: join_split e)
  have "lines_ok inc' ps \<or> (ps = [] \<and> \<not> inc')"
    unfolding ps_def inc'_def using push_lines_ok [of "split_on NL r" e, OF split_on_pieces e split_on_ne] by auto
  then have ok': "lines_ok inc' (ob_lines b @ ps)"
    using lines_ok_append [OF ok] ok by auto
  have inc_eq: "(if \<not> e \<and> last (split_on NL r) \<noteq> [] then True else ob_last_line_incomplete b) = inc'"
    using e inc by (auto simp: inc'_def)
  have run: "append_rest r b = trim_lines (length (concat (ob_lines b @ ps))) inc' (ob_lines b @ ps)"
    using inc_eq by (simp add: append_rest_def Let_def e_def [symmetric] ps_def [symmetric] tot length_concat)
  have "ob_lines b @ ps = [] \<Longrightarrow> \<not> inc'"
    using ok' by (simp add: lines_ok_def)
  then obtain k where k: "append_rest r b =
       \<lparr>ob_lines = drop k (ob_lines b @ ps), ob_total_size = length (concat (drop k (ob_lines b @ ps))),
        ob_last_line_incomplete = (if drop k (ob_lines b @ ps) = [] then False else inc')\<rparr>"
     "length (concat (drop k (ob_lines b @ ps))) \<le> MAX_OUTPUT_BUFFER_SIZE"
     "length (drop k (ob_lines b @ ps)) \<le> MAX_BUFFER_LINES"
     "length (concat (ob_lines b @ ps)) \<le> MAX_OUTPUT_BUFFER_SIZE \<and> length (ob_lines b @ ps) \<le> MAX_BUFFER_LINES \<longrightarrow> k = 0"
    using trim_lines_spec [OF refl, of "ob_lines b @ ps" inc'] unfolding run by blast
  have cat2: "concat (ob_lines b @ ps) = concat (ob_lines b) @ r"
    by (simp add: cat)
  have "length (concat (butlast ls)) \<le> length (concat ls)" for ls :: "bytes list"
    by (cases ls rule: rev_cases) auto
  from this [of "drop k (ob_lines b @ ps)"] k have "ob_ok (append_rest r b)"
    using lines_ok_drop [OF ok', of k] by (simp add: ob_ok_def)
  moreover have "length (ob_lines b @ ps) \<le> count_list (concat (ob_lines b) @ r) NL + 1"
    using lines_ok_count [OF ok'] by (simp only: cat2) simp
  then have "ob_step (concat (ob_lines b)) r (append_rest r b)"
    unfolding ob_step_def cat2 [symmetric] using k suffix_concat_drop [of k "ob_lines b @ ps"] by (auto simp del: concat_append)
  ultimately show ?thesis using k by simp
qed

lemma position_lt: "NL \<in> set d \<Longrightarrow> length (takeWhile (\<lambda>c. c \<noteq> NL) d) < length d"
  using takeWhile_eq_all_conv [of "\<lambda>c. c \<noteq> NL" d] takeWhile_eq_take [of "\<lambda>c. c \<noteq> NL" d]
  by (metis leI take_all)

lemma position_split:
  assumes "NL \<in> set d"
  shows "\<exists>w. take (length (takeWhile (\<lambda>c. c \<noteq> NL) d) + 1) d = w @ [NL] \<and> NL \<notin> set w"
proof -
  let ?n = "length (takeWhile (\<lambda>c. c \<noteq> NL) d)"
  have lt: "?n < length d"
    using assms by (rule position_lt)
  then have "d ! ?n = NL"
    using nth_length_takeWhile [of "\<lambda>c. c \<noteq> NL" d] by auto
  then have "take (?n + 1) d = takeWhile (\<lambda>c. c \<noteq> NL) d @ [NL]"
    using lt by (simp add: take_Suc_conv_app_nth takeWhile_eq_take [symmetric])
  moreover have "NL \<notin> set (takeWhile (\<lambda>c. c \<noteq> NL) d)"
    by (auto dest: set_takeWhileD)
  ultimately show ?thesis by blast
qed

lemma ob_append_ok:
  assumes "ob_ok b"
  shows "ob_ok (ob_append d b) \<and> ob_step (concat (ob_lines b)) d (ob_append d b)"
proof (cases "d = [] \<or> \<not> ob_last_line_incomplete b \<or> ob_lines b = []")
  case True
  show ?thesis
  proof (cases "d = []")
    case True
    then show ?thesis using assms by (simp add: ob_append_def ob_step_def)
  next
    case d: False
    then have inc: "\<not> ob_last_line_incomplete b"
      using True assms by (cases "ob_lines b = []") (simp_all add: ob_ok_def lines_ok_def)
    then have "ob_append d b = append_rest d b"
      using d by (simp add: ob_append_def)
    moreover have "ob_total_size b = length (concat (ob_lines b))" "lines_ok False (ob_lines b)"
      using assms inc by (simp_all add: ob_ok_def)
    ultimately show ?thesis using append_rest_ok [OF _ _ inc] by simp
  qed
next
  case False
  then have d: "d \<noteq> []" and inc: "ob_last_line_incomplete b"
    by auto
  from False obtain ls l where ls: "ob_lines b = ls @ [l]"
    by (cases "ob_lines b" rule: rev_cases) auto
  have ok: "list_all full_line ls" "part_line l" "ob_total_size b = length (concat ls) + length l"
       "Suc (length ls) \<le> MAX_BUFFER_LINES" "length (concat ls) \<le> MAX_OUTPUT_BUFFER_SIZE"
    using assms inc ls by (auto simp: ob_ok_def lines_ok_def)
  show ?thesis
  proof (cases "NL \<in> set d")
    case True
    define n where "n = length (takeWhile (\<lambda>c. c \<noteq> NL) d) + 1"
    obtain w where w: "take n d = w @ [NL]" "NL \<notin> set w"
      using position_split [OF True] by (auto simp: n_def)
    define b1 where "b1 = \<lparr>ob_lines = ls @ [l @ take n d], ob_total_size = ob_total_size b + n, ob_last_line_incomplete = False\<rparr>"
    have run: "ob_append d b = append_rest (drop n d) b1"
      using d inc ls True by (simp add: ob_append_def Let_def b1_def n_def)
    have "n = length (take n d)"
      using position_lt [OF True] by (simp add: n_def)
    then have "ob_total_size b1 = length (concat (ob_lines b1))"
      using ok(3) by (simp add: b1_def)
    moreover have "full_line (l @ take n d)"
      using ok(2) w full_line_snoc [of "l @ w"] by (simp add: part_line_def)
    then have "lines_ok False (ob_lines b1)"
      using ok(1) by (simp add: b1_def lines_ok_def)
    ultimately have "ob_ok (append_rest (drop n d) b1) \<and> ob_step (concat (ob_lines b1)) (drop n d) (append_rest (drop n d) b1)"
      using append_rest_ok [of b1 "drop n d"] by (simp add: b1_def)
    moreover have "concat (ob_lines b1) @ drop n d = concat (ob_lines b) @ d"
      by (simp add: b1_def ls)
    ultimately show ?thesis
      unfolding run ob_step_def by simp
  next
    case nl: False
    then have "ob_append d b = b\<lparr>ob_lines := ls @ [l @ d], ob_total_size := ob_total_size b + length d\<rparr>"
      using d inc ls by (simp add: ob_append_def)
    then show ?thesis
      using ok inc nl d ls by (auto simp: ob_ok_def ob_step_def lines_ok_def part_line_def)
  qed
qed

definition ob_after :: "bytes list \<Rightarrow> output_buffer" where
  "ob_after ds = fold ob_append ds ob_new"

lemma ob_after_snoc: "ob_after (ds @ [d]) = ob_append d (ob_after ds)"
  by (simp add: ob_after_def)

lemma output_buffer_inv:
  "ob_ok (ob_after ds) \<and> suffix (concat (ob_lines (ob_after ds))) (concat ds) \<and>
   (length (concat ds) \<le> MAX_OUTPUT_BUFFER_SIZE \<and> count_list (concat ds) NL < MAX_BUFFER_LINES \<longrightarrow>
    concat (ob_lines (ob_after ds)) = concat ds)"
proof (induction ds rule: rev_induct)
  case Nil
  then show ?case by (simp add: ob_after_def ob_new_def ob_ok_def lines_ok_def)
next
  case (snoc d ds)
  then have st: "ob_ok (ob_after (ds @ [d]))" "ob_step (concat (ob_lines (ob_after ds))) d (ob_after (ds @ [d]))"
    using ob_append_ok [of "ob_after ds" d] by (auto simp: ob_after_snoc)
  have "suffix (concat (ob_lines (ob_after ds)) @ d) (concat ds @ d)"
    using snoc by (simp add: suffix_def)
  then show ?case
    using st snoc by (auto simp: ob_step_def intro: suffix_order.trans)
qed

lemma output_buffer_suffix: "suffix (concat (ob_lines (ob_after ds))) (concat ds)"
  using output_buffer_inv by blast

text \<open>The scroll-back buffer after any sequence of appends holds exactly the line split of a suffix
  of everything appended, with \<open>total_size\<close> the number of bytes held; nothing is dropped while the
  output fits into the limits; there are never more than \<open>MAX_BUFFER_LINES\<close> lines, and all lines but
  the last together never exceed \<open>MAX_OUTPUT_BUFFER_SIZE\<close>.\<close>

theorem output_buffer_history:
  "suffix (concat (ob_lines (ob_after ds))) (concat ds) \<and>
   ob_total_size (ob_after ds) = length (concat (ob_lines (ob_after ds))) \<and>
   lines_ok (ob_last_line_incomplete (ob_after ds)) (ob_lines (ob_after ds)) \<and>
   length (ob_lines (ob_after ds)) \<le> MAX_BUFFER_LINES \<and>
   length (concat (butlast (ob_lines (ob_after ds)))) \<le> MAX_OUTPUT_BUFFER_SIZE \<and>
   (length (concat ds) \<le> MAX_OUTPUT_BUFFER_SIZE \<and> count_list (concat ds) NL < MAX_BUFFER_LINES \<longrightarrow>
    concat (ob_lines (ob_after ds)) = concat ds)"
  using output_buffer_inv [of ds] by (simp add: ob_ok_def)

theorem output_buffer_history_witness:
  "concat (ob_lines (ob_after [[97], [98, 10, 99]])) = [97, 98, 10, 99]"
  using output_buffer_history [of "[[97], [98, 10, 99]]"]
  by (simp add: MAX_OUTPUT_BUFFER_SIZE_def MAX_BUFFER_LINES_def)

text \<open>An append without a newline to an unterminated line returns before the trimming loop: the
  buffer then grows past \<open>MAX_OUTPUT_BUFFER_SIZE\<close> without bound.\<close>

lemma unterminated_line_grows:
  assumes "NL \<notin> set d" and "d \<noteq> []" and "length d \<le> MAX_OUTPUT_BUFFER_SIZE"
  shows "ob_total_size (ob_after (replicate (Suc n) d)) = Suc n * length d"
proof -
  have sp: "split_on NL x = [x]" if "NL \<notin> set x" for x
    using that by (induction x) auto
  have nl: "last d \<noteq> NL"
    using assms last_in_set [of d] by metis
  have one: "ob_append d ob_new = \<lparr>ob_lines = [d], ob_total_size = length d, ob_last_line_incomplete = True\<rparr>"
    using assms nl by (auto simp: ob_append_def ob_new_def append_rest_def Let_def sp MAX_BUFFER_LINES_def)
  have "ob_after (replicate (Suc n) d) =
          \<lparr>ob_lines = [concat (replicate (Suc n) d)], ob_total_size = Suc n * length d, ob_last_line_incomplete = True\<rparr>"
  proof (induction n)
    case 0
    then show ?case using one by (simp add: ob_after_def)
  next
    case (Suc n)
    have "ob_after (replicate (Suc (Suc n)) d) = ob_append d (ob_after (replicate (Suc n) d))"
      by (metis ob_after_snoc replicate_Suc replicate_append_same)
    then show ?case
      using Suc assms by (simp add: ob_append_def) (metis append.assoc append_replicate_commute concat_append concat_replicate_trivial concat.simps replicate_append_same append_Nil2)
  qed
  then show ?thesis by simp
qed

section \<open>Replay\<close>

lemma skip_continuation_ge: "offset \<le> skip_continuation k offset l"
  by (induction k offset l rule: skip_continuation.induct) (auto intro: order_trans [rotated])

lemma recent_chunks_bound:
  "tot \<le> max_bytes \<Longrightarrow> tot + length (concat (recent_chunks max_bytes tot ls)) \<le> max_bytes"
proof (induction max_bytes tot ls rule: recent_chunks.induct)
  case (2 max_bytes tot l ls)
  have "length l - skip_continuation 3 (length l - max_bytes) l \<le> max_bytes"
    using skip_continuation_ge [of "length l - max_bytes" 3 l] by linarith
  with 2 show ?case by (auto simp: Let_def)
qed simp

lemma recent_chunks_suffix: "suffix (concat (rev (recent_chunks max_bytes tot ls))) (concat (rev ls))"
proof (induction max_bytes tot ls rule: recent_chunks.induct)
  case (2 max_bytes tot l ls)
  have "suffix (drop k l) (concat (rev ls) @ l)" for k
    by (meson suffix_appendI suffix_drop)
  with 2 show ?case by (auto simp: Let_def)
qed simp

lemma recent_chunks_all: "tot + length (concat ls) \<le> max_bytes \<Longrightarrow> recent_chunks max_bytes tot ls = ls"
  by (induction max_bytes tot ls rule: recent_chunks.induct) auto

lemma length_concat_rev: "length (concat (rev xs)) = length (concat xs)"
  by (simp add: length_concat rev_map [symmetric])

lemma get_recent_le: "length (get_recent max_bytes b) \<le> max_bytes"
  using recent_chunks_bound [of 0 max_bytes "rev (ob_lines b)"] by (simp add: get_recent_def length_concat_rev)

lemma get_recent_suffix: "suffix (get_recent max_bytes b) (concat (ob_lines b))"
  using recent_chunks_suffix [of max_bytes 0 "rev (ob_lines b)"] by (simp add: get_recent_def)

lemma get_recent_suffix_history: "suffix (get_recent max_bytes (ob_after ds)) (concat ds)"
  using get_recent_suffix output_buffer_suffix by (rule suffix_order.trans)

lemma get_recent_all:
  "length (concat (ob_lines b)) \<le> max_bytes \<Longrightarrow> get_recent max_bytes b = concat (ob_lines b)"
  using recent_chunks_all [of 0 "rev (ob_lines b)" max_bytes]
  by (cases "max_bytes = 0") (simp_all add: get_recent_def length_concat_rev del: concat_eq_Nil_conv)

text \<open>The replay of a reconnecting client is a suffix of the stored output of at most
  \<open>max_bytes\<close> bytes, and all of the stored output when that fits.\<close>

theorem get_recent_spec:
  "length (get_recent max_bytes (ob_after ds)) \<le> max_bytes \<and>
   suffix (get_recent max_bytes (ob_after ds)) (concat ds) \<and>
   (length (concat ds) \<le> max_bytes \<longrightarrow>
    get_recent max_bytes (ob_after ds) = concat (ob_lines (ob_after ds)))"
  using get_recent_le get_recent_suffix_history get_recent_all [of "ob_after ds" max_bytes]
    suffix_length_le [OF output_buffer_suffix [of ds]]
  by (meson order_trans)

theorem get_recent_spec_witness:
  "get_recent 100 (ob_after [[97], [98, 10, 99]]) = concat (ob_lines (ob_after [[97], [98, 10, 99]]))"
  using get_recent_spec [of 100 "[[97], [98, 10, 99]]"] by simp

section \<open>No code point is cut\<close>

lemma all_u8: "list_all (\<lambda>n. P (word_of_nat n)) [0..<256] \<Longrightarrow> P (b :: u8)"
proof -
  assume all: "list_all (\<lambda>n. P (word_of_nat n)) [0..<256]"
  have "unat b \<in> set [0..<256]"
    using unsigned_less [of b, where 'a = nat] by simp
  then have "P (word_of_nat (unat b))"
    using all unfolding list_all_iff by (rule bspec [rotated])
  then show ?thesis by simp
qed

lemma cont_byte_mask: "0x80 \<le> b \<and> b \<le> 0xBF \<longrightarrow> b AND 0x80 \<noteq> 0 \<and> b AND 0xC0 = 0x80" for b :: u8
  by (rule all_u8) code_simp

lemma lead_mask:
  "case lead_len b of
     None \<Rightarrow> True
   | Some n \<Rightarrow> if n = 1 then b AND 0x80 = 0
               else n > 1 \<and> b AND 0x80 \<noteq> 0 \<and> b AND 0xC0 \<noteq> 0x80 \<and> seq_len b = Some n" for b :: u8
  by (rule all_u8) code_simp

lemma utf8_char_len_append: "utf8_char_len x = Some n \<Longrightarrow> utf8_char_len (x @ y) = Some n"
  using lead_len_range by (fastforce simp: utf8_char_len_def hd_append split: list.splits option.splits if_splits)

lemma utf8_char_len_prefix: "utf8_char_len (x @ y) = Some n \<Longrightarrow> n \<le> length x \<Longrightarrow> utf8_char_len x = Some n"
  using lead_len_range by (fastforce simp: utf8_char_len_def hd_append Cons_eq_append_conv split: list.splits option.splits if_splits)

text \<open>The shape of a character: the lead byte announces the length to the scanner, the others are
  continuation bytes.\<close>

definition char_shape :: "bytes \<Rightarrow> nat \<Rightarrow> bool" where
  "char_shape bs n =
     ((if n = 1 then hd bs AND 0x80 = 0
       else n > 1 \<and> hd bs AND 0x80 \<noteq> 0 \<and> hd bs AND 0xC0 \<noteq> 0x80 \<and> seq_len (hd bs) = Some n) \<and>
      list_all (\<lambda>b. b AND 0x80 \<noteq> 0 \<and> b AND 0xC0 = 0x80) (take (n - 1) (tl bs)))"

lemma utf8_char_shape: "utf8_char_len bs = Some n \<Longrightarrow> char_shape bs n"
proof -
  assume len: "utf8_char_len bs = Some n"
  then obtain b0 r where bs: "bs = b0 # r" and lead: "lead_len b0 = Some n" and cont: "list_all cont_byte (take (n - 1) r)"
    by (auto simp: utf8_char_len_def split: list.splits option.splits if_splits)
  have "list_all (\<lambda>b. b AND 0x80 \<noteq> 0 \<and> b AND 0xC0 = 0x80) (take (n - 1) r)"
    using cont cont_byte_mask by (auto simp: list_all_iff cont_byte_def)
  then show ?thesis
    using lead_mask [of b0] lead by (cases "n = 1") (simp_all add: bs char_shape_def)
qed

lemma split_scan_skip:
  "(\<And>i. i \<in> set js \<Longrightarrow> buf ! i AND 0x80 \<noteq> 0 \<and> buf ! i AND 0xC0 = 0x80) \<Longrightarrow>
   split_scan buf (js @ ks) = split_scan buf ks"
  by (induction js) (auto simp: Let_def)

lemma split_point_char:
  assumes shape: "char_shape c n" and n: "0 < n" "n \<le> 4" "n \<le> length c" and m: "0 < m" "m \<le> n"
  shows "find_utf8_split_point (v @ take m c) = (if m < n then length v else length v + m)"
proof -
  define buf where "buf = v @ take m c"
  define start where "start = length buf - 3"
  have len: "length buf = length v + m"
    using n m by (simp add: buf_def)
  have lead: "buf ! length v = hd c"
    using n m by (cases c) (auto simp: buf_def nth_append hd_conv_nth)
  have cont: "buf ! i AND 0x80 \<noteq> 0 \<and> buf ! i AND 0xC0 = 0x80" if i: "length v < i" "i < length v + m" for i
  proof -
    obtain j where j: "i = length v + Suc j" "Suc j < m"
      using i by (metis add_Suc_right less_imp_Suc_add nat_add_left_cancel_less)
    then have "buf ! i = take (n - 1) (tl c) ! j" and "j < length (take (n - 1) (tl c))"
      using n m by (auto simp: buf_def nth_append nth_tl)
    then show ?thesis
      using shape unfolding char_shape_def list_all_length by metis
  qed
  have run: "find_utf8_split_point buf = split_scan buf (rev [start..<length buf])"
    using len m by (auto simp: find_utf8_split_point_def start_def)
  show ?thesis
  proof (cases "start \<le> length v")
    case False
    then have "m = 4" "n = 4"
      using len n m by (auto simp: start_def)
    moreover have "split_scan buf (rev [start..<length buf] @ []) = split_scan buf []"
      using False len by (intro split_scan_skip cont) auto
    ultimately show ?thesis using run len by (simp add: buf_def)
  next
    case True
    have "[start..<length buf] = [start..<length v] @ [length v] @ [Suc (length v)..<length v + m]"
      using True len m upt_add_eq_append [of start "length v" m] upt_conv_Cons [of "length v" "length v + m"] by simp
    then have "rev [start..<length buf] = rev [Suc (length v)..<length v + m] @ length v # rev [start..<length v]"
      by simp
    moreover have "split_scan buf (rev [Suc (length v)..<length v + m] @ length v # rev [start..<length v]) =
                   split_scan buf (length v # rev [start..<length v])"
      by (intro split_scan_skip cont) auto
    ultimately show ?thesis
      using shape m n len lead run by (auto simp: buf_def [symmetric] char_shape_def Let_def split: if_splits)
  qed
qed

lemma valid_utf8_Nil [simp]: "valid_utf8 []"
  by (simp add: valid_utf8.simps)

lemma valid_utf8_step:
  assumes "utf8_char_len bs = Some n"
  shows "valid_utf8 bs = valid_utf8 (drop n bs)"
  using assms utf8_char_len_pos [OF assms] by (subst valid_utf8.simps) auto

text \<open>Every prefix of a well-formed string is a well-formed string followed by a proper (possibly
  empty) prefix of a character.\<close>

definition part_char :: "bytes \<Rightarrow> bytes \<Rightarrow> bool" where
  "part_char p y = (p = [] \<or> (utf8_char_len p = None \<and> (\<exists>n. utf8_char_len (p @ y) = Some n \<and> length p < n)))"

lemma valid_prefix:
  "valid_utf8 (x @ y) \<Longrightarrow> \<exists>v p. x = v @ p \<and> valid_utf8 v \<and> valid_utf8 (p @ y) \<and> part_char p y \<and>
     (v = [] \<or> (\<exists>v' c. v = v' @ c \<and> utf8_char_len c = Some (length c)))"
proof (induction "length x" arbitrary: x rule: less_induct)
  case less
  show ?case
  proof (cases "utf8_char_len x")
    case None
    show ?thesis
    proof (cases "x = []")
      case True
      then show ?thesis using less.prems by (auto simp: part_char_def)
    next
      case False
      then obtain n where n: "utf8_char_len (x @ y) = Some n"
        using less.prems by (subst (asm) valid_utf8.simps) (auto split: option.splits)
      then have "length x < n"
        using None utf8_char_len_prefix [OF n] by (cases "n \<le> length x") auto
      then show ?thesis
        using less.prems None n by (intro exI [of _ "[]"] exI [of _ x]) (simp add: part_char_def)
    qed
  next
    case (Some n)
    note pos = utf8_char_len_pos [OF Some]
    have "valid_utf8 (drop n x @ y)"
      using less.prems valid_utf8_step [OF utf8_char_len_append [OF Some, of y]] pos by simp
    moreover have "length (drop n x) < length x" using pos by auto
    ultimately obtain v p where vp: "drop n x = v @ p" "valid_utf8 v" "valid_utf8 (p @ y)" "part_char p y"
       "v = [] \<or> (\<exists>v' c. v = v' @ c \<and> utf8_char_len c = Some (length c))"
      using less.hyps [of "drop n x"] by blast
    have ch: "utf8_char_len (take n x) = Some n"
      using utf8_char_len_prefix [of "take n x" "drop n x" n] Some pos by simp
    have "valid_utf8 (take n x @ v)"
      using valid_utf8_step [OF utf8_char_len_append [OF ch, of v]] vp(2) pos by simp
    moreover have "x = (take n x @ v) @ p"
      using vp(1) by (metis append.assoc append_take_drop_id)
    moreover have "\<exists>v' c. take n x @ v = v' @ c \<and> utf8_char_len c = Some (length c)"
      using vp(5) ch pos by (metis append.assoc append_Nil append_Nil2 length_take min.absorb2)
    ultimately show ?thesis using vp by blast
  qed
qed

lemma split_point_valid_prefix:
  assumes "valid_utf8 (x @ y)"
  shows "\<exists>p. find_utf8_split_point x = length x - length p \<and> suffix p x \<and> length p \<le> 3 \<and>
             valid_utf8 (take (find_utf8_split_point x) x) \<and> valid_utf8 (p @ y) \<and> part_char p y"
proof -
  obtain v p where vp: "x = v @ p" "valid_utf8 v" "valid_utf8 (p @ y)" "part_char p y"
     "v = [] \<or> (\<exists>v' c. v = v' @ c \<and> utf8_char_len c = Some (length c))"
    using valid_prefix [OF assms] by blast
  have "find_utf8_split_point x = length v \<and> length p \<le> 3"
  proof (cases "p = []")
    case True
    then show ?thesis
    proof (cases "v = []")
      case False
      then obtain v' c where c: "v = v' @ c" "utf8_char_len c = Some (length c)"
        using vp(5) by blast
      then show ?thesis
        using split_point_char [OF utf8_char_shape [OF c(2)], of "length c" v'] utf8_char_len_pos [OF c(2)] vp(1) True
        by simp
    qed (use vp True in \<open>simp add: find_utf8_split_point_def\<close>)
  next
    case False
    then obtain n where n: "utf8_char_len (p @ y) = Some n" "length p < n"
      using vp(4) by (auto simp: part_char_def)
    then show ?thesis
      using split_point_char [OF utf8_char_shape [OF n(1)], of "length p" v] utf8_char_len_pos [OF n(1)] vp(1) False
      by auto
  qed
  then show ?thesis
    using vp by (intro exI [of _ p]) (simp add: suffix_def)
qed

lemma split_scan_range:
  "(\<And>i. i \<in> set js \<Longrightarrow> length buf - 3 \<le> i \<and> i < length buf) \<Longrightarrow>
   length buf - 3 \<le> split_scan buf js \<and> split_scan buf js \<le> length buf"
  by (induction js) (auto simp: Let_def less_imp_le split: option.splits)

lemma split_point_range:
  "length buf - 3 \<le> find_utf8_split_point buf \<and> find_utf8_split_point buf \<le> length buf"
  using split_scan_range [of "rev [length buf - 3..<length buf]" buf] by (simp add: find_utf8_split_point_def)

definition emitted :: "bytes option \<Rightarrow> bytes list" where
  "emitted o1 = (case o1 of None \<Rightarrow> [] | Some c \<Rightarrow> [c])"

fun push_all :: "bytes list \<Rightarrow> utf8_chunk_accumulator \<Rightarrow> bytes list \<times> utf8_chunk_accumulator" where
  "push_all [] a = ([], a)"
| "push_all (d # ds) a =
     (let (o1, a1) = push_chunk d a; (os, a2) = push_all ds a1 in (emitted o1 @ os, a2))"

lemma push_chunk_bytes:
  assumes "push_chunk d a = (o1, a')"
  shows "concat (emitted o1) @ ua_remainder a' = ua_remainder a @ d \<and>
         (length (ua_remainder a) \<le> 3 \<longrightarrow> length (ua_remainder a') \<le> 3)"
  using assms split_point_range [of d] split_point_range [of "ua_remainder a @ d"]
  by (auto simp: push_chunk_def emitted_def Let_def append_assoc [symmetric] simp del: take_append drop_append append_assoc split: if_splits)

lemma push_chunk_valid:
  assumes run: "push_chunk d a = (o1, a')" and v: "valid_utf8 (ua_remainder a @ d @ y)"
    and part: "part_char (ua_remainder a) (d @ y)"
  shows "list_all valid_utf8 (emitted o1) \<and> valid_utf8 (ua_remainder a' @ y) \<and> part_char (ua_remainder a') y"
proof (cases "d = []")
  case True
  then show ?thesis using run v part by (auto simp: push_chunk_def emitted_def)
next
  case False
  define x where "x = ua_remainder a @ d"
  have xd: "(if ua_remainder a \<noteq> [] then ua_remainder a @ d else d) = x"
    by (simp add: x_def)
  obtain p where p: "find_utf8_split_point x = length x - length p" "suffix p x"
     "valid_utf8 (take (find_utf8_split_point x) x)" "valid_utf8 (p @ y)" "part_char p y"
    using split_point_valid_prefix [of x y] v by (auto simp: x_def)
  have drp: "drop (find_utf8_split_point x) x = p"
    using p(1,2) by (auto simp: suffix_def)
  show ?thesis
  proof (cases "find_utf8_split_point x = length x")
    case True
    then have "o1 = Some x" "ua_remainder a' = []"
      using run False by (auto simp: push_chunk_def Let_def xd)
    moreover have "p = []" using True drp by simp
    ultimately show ?thesis using p True by (simp add: emitted_def part_char_def)
  next
    case ne: False
    then have "o1 = (if take (find_utf8_split_point x) x = [] then None else Some (take (find_utf8_split_point x) x))"
       "ua_remainder a' = p"
      using run False p(3) drp by (auto simp: push_chunk_def Let_def xd)
    then show ?thesis using p by (simp add: emitted_def)
  qed
qed

text \<open>The UTF-8 accumulator neither loses nor reorders a byte: what it emits followed by what it
  holds back is what it was given, it never holds back more than three bytes; and if the stream is
  (so far) UTF-8 text, however the reads cut it, every chunk it emits is well-formed UTF-8 by itself,
  with nothing held back once the text is complete.\<close>

theorem utf8_chunks:
  assumes "push_all ds \<lparr>ua_remainder = []\<rparr> = (os, a)"
  shows "concat os @ ua_remainder a = concat ds \<and> length (ua_remainder a) \<le> 3 \<and>
         (\<forall>rest. valid_utf8 (concat ds @ rest) \<longrightarrow>
            list_all valid_utf8 os \<and> (rest = [] \<longrightarrow> ua_remainder a = []))"
proof -
  have bytes: "concat os @ ua_remainder a = ua_remainder a0 @ concat ds \<and> length (ua_remainder a) \<le> 3"
    if "push_all ds a0 = (os, a)" "length (ua_remainder a0) \<le> 3" for ds os a a0
    using that
  proof (induction ds arbitrary: a0 os)
    case (Cons d ds)
    obtain o1 a1 where 1: "push_chunk d a0 = (o1, a1)" by (cases "push_chunk d a0")
    obtain os2 where 2: "push_all ds a1 = (os2, a)" "os = emitted o1 @ os2"
      using Cons.prems 1 by (auto split: prod.splits)
    show ?case
      using Cons.IH [OF 2(1)] push_chunk_bytes [OF 1] Cons.prems 2(2) by auto
  qed auto
  have valid: "list_all valid_utf8 os \<and> valid_utf8 (ua_remainder a @ rest) \<and> part_char (ua_remainder a) rest"
    if "push_all ds a0 = (os, a)" "valid_utf8 (ua_remainder a0 @ concat ds @ rest)"
       "part_char (ua_remainder a0) (concat ds @ rest)" for ds os a a0 rest
    using that
  proof (induction ds arbitrary: a0 os)
    case (Cons d ds)
    obtain o1 a1 where 1: "push_chunk d a0 = (o1, a1)" by (cases "push_chunk d a0")
    obtain os2 where 2: "push_all ds a1 = (os2, a)" "os = emitted o1 @ os2"
      using Cons.prems 1 by (auto split: prod.splits)
    show ?case
      using Cons.IH [OF 2(1)] push_chunk_valid [OF 1, of "concat ds @ rest"] Cons.prems 2(2) by auto
  qed auto
  have none: "part_char p [] \<Longrightarrow> p = []" for p
    by (auto simp: part_char_def)
  have "part_char [] y" for y by (simp add: part_char_def)
  then show ?thesis
    using bytes [OF assms] valid [OF assms] none by auto
qed

theorem utf8_chunks_witness:
  "push_all [[0x61, 0xE2], [0x82], [0xAC, 0x62]] \<lparr>ua_remainder = []\<rparr>
     = ([[0x61], [0xE2, 0x82, 0xAC, 0x62]], \<lparr>ua_remainder = []\<rparr>) \<and>
   list_all valid_utf8 [[0x61], [0xE2, 0x82, 0xAC, 0x62]]"
proof -
  have run: "push_all [[0x61, 0xE2], [0x82], [0xAC, 0x62]] \<lparr>ua_remainder = []\<rparr>
     = ([[0x61], [0xE2, 0x82, 0xAC, 0x62]], \<lparr>ua_remainder = []\<rparr>)"
    by code_simp
  have "valid_utf8 (concat [[0x61, 0xE2], [0x82], [0xAC, 0x62]] @ [])"
    by code_simp
  then show ?thesis using run utf8_chunks [OF run] by blast
qed

end
