(* ===== verification/Password_Storage.thy ===== *)
theory Password_Storage
  imports Terminal_Buffer
begin

text \<open>
  How passwords are kept, \<open>libs/hbb_common/src/password_security.rs\<close>,
  \<open>libs/hbb_common/src/config/permanent_password.rs\<close> and the permanent-password part of
  \<open>libs/hbb_common/src/config.rs\<close> (the desktop build).

  \<^item> A \<open>&str\<close> is its UTF-8 bytes.
  \<^item> The cryptography (\<open>secretbox::seal\<close>/\<open>open\<close>, base64, SHA-256 of the libraries) is a record of
    functions and an argument of every operation; what is relied on is the predicate \<open>crypto_ok\<close>:
    opening undoes sealing under the same nonce and key, sealing adds the tag's length, base64
    decoding undoes encoding, whose output is ASCII and has four characters for three bytes.
  \<^item> The machine's identity (\<open>get_uuid\<close>, the existing key pair) is a record; random nonces and
    generated passwords are arguments.
\<close>

section \<open>Libraries\<close>

definition KEYBYTES :: nat where "KEYBYTES = 32"
definition NONCEBYTES :: nat where "NONCEBYTES = 24"
definition MACBYTES :: nat where "MACBYTES = 16"

lemmas crypto_sizes = KEYBYTES_def NONCEBYTES_def MACBYTES_def

record crypto =
  cr_seal :: "bytes \<Rightarrow> bytes \<Rightarrow> bytes \<Rightarrow> bytes"
  cr_open :: "bytes \<Rightarrow> bytes \<Rightarrow> bytes \<Rightarrow> bytes option"
  cr_encode :: "bytes \<Rightarrow> bytes"
  cr_decode :: "bytes \<Rightarrow> bytes option"
  cr_sha256 :: "bytes \<Rightarrow> bytes"

record machine =
  mc_uuid :: bytes
  mc_key_pair :: "(bytes \<times> bytes) option"

definition crypto_ok :: "crypto \<Rightarrow> bool" where
  "crypto_ok cr =
     ((\<forall>d n k. length n = NONCEBYTES \<longrightarrow> length k = KEYBYTES \<longrightarrow>
         cr_open cr (cr_seal cr d n k) n k = Some d \<and> length (cr_seal cr d n k) = length d + MACBYTES) \<and>
      (\<forall>x. cr_decode cr (cr_encode cr x) = Some x \<and> length (cr_encode cr x) = 4 * ((length x + 2) div 3) \<and>
         list_all (\<lambda>b. b < 0x80) (cr_encode cr x)) \<and>
      (\<forall>x. length (cr_sha256 cr x) = 32))"

text \<open>\<open>String::from_utf8_lossy\<close>: every maximal invalid piece becomes U+FFFD.\<close>

definition bad_len :: "bytes \<Rightarrow> nat" where
  "bad_len bs =
     (case bs of
        [] \<Rightarrow> 0
      | b0 # r \<Rightarrow>
          (case lead_len b0 of
             None \<Rightarrow> 1
           | Some n \<Rightarrow>
               if r = [] \<or> \<not> (cont_byte (hd r) \<and> second_ok b0 (hd r)) then 1
               else 1 + length (takeWhile cont_byte (take (n - 1) r))))"

lemma bad_len_pos: "bs \<noteq> [] \<Longrightarrow> 0 < bad_len bs"
  by (auto simp: bad_len_def neq_Nil_conv split: option.splits)

function from_utf8_lossy :: "bytes \<Rightarrow> bytes" where
  "from_utf8_lossy bs =
     (if bs = [] then []
      else case utf8_char_len bs of
        Some n \<Rightarrow> take n bs @ from_utf8_lossy (drop n bs)
      | None \<Rightarrow> [0xEF, 0xBF, 0xBD] @ from_utf8_lossy (drop (bad_len bs) bs))"
  by pat_completeness auto
termination
  by (relation "measure length") (auto dest: utf8_char_len_pos simp: bad_len_pos)

declare from_utf8_lossy.simps [simp del]

lemma from_utf8_lossy_valid: "valid_utf8 bs \<Longrightarrow> from_utf8_lossy bs = bs"
proof (induction bs rule: from_utf8_lossy.induct)
  case (1 bs)
  show ?case
  proof (cases "bs = []")
    case False
    with 1(3) obtain n where n: "utf8_char_len bs = Some n" by (subst (asm) valid_utf8.simps) (auto split: option.splits)
    with 1(3) have "valid_utf8 (drop n bs)" by (simp add: valid_utf8_step)
    with 1(1,2) False n have "from_utf8_lossy (drop n bs) = drop n bs" by simp
    with False n show ?thesis by (subst from_utf8_lossy.simps) simp
  qed (simp add: from_utf8_lossy.simps)
qed

lemma utf8_char_ascii: "b < 0x80 \<Longrightarrow> utf8_char_len (b # bs) = Some 1"
  by (simp add: utf8_char_len_def lead_len_def)

lemma valid_utf8_ascii: "list_all (\<lambda>b. b < 0x80) bs \<Longrightarrow> valid_utf8 bs"
  by (induction bs) (auto simp: valid_utf8_step [OF utf8_char_ascii])

text \<open>\<open>s.chars().count()\<close>: the bytes that begin a character.\<close>

definition chars_count :: "bytes \<Rightarrow> nat" where
  "chars_count s = length (filter (\<lambda>b. \<not> cont_byte b) s)"

lemma chars_count_le: "chars_count s \<le> length s"
  by (simp add: chars_count_def)

definition resize0 :: "nat \<Rightarrow> bytes \<Rightarrow> bytes" where
  "resize0 n v = take n (v @ replicate n 0)"

lemma length_resize0 [simp]: "length (resize0 n v) = n"
  by (simp add: resize0_def)

definition starts_with :: "bytes \<Rightarrow> bytes \<Rightarrow> bool" where
  "starts_with pre v = (take (length pre) v = pre)"

section \<open>Sealed values: \<open>password_security.rs\<close>\<close>

definition VERSION_LEN :: nat where "VERSION_LEN = 2"
definition FORMAT_V1 :: u8 where "FORMAT_V1 = 1"
definition V00 :: bytes where "V00 = [0x30, 0x30]"
definition V01 :: bytes where "V01 = [0x30, 0x31]"

definition open_secretbox_payload :: "crypto \<Rightarrow> bytes \<Rightarrow> bytes \<Rightarrow> bytes option" where
  "open_secretbox_payload cr d key =
     (let v1 = (if d \<noteq> [] \<and> hd d = FORMAT_V1 \<and> length d \<ge> 1 + NONCEBYTES + MACBYTES
                then cr_open cr (drop (1 + NONCEBYTES) d) (take NONCEBYTES (drop 1 d)) key else None)
      in case v1 of
           Some decrypted \<Rightarrow> Some decrypted
         | None \<Rightarrow> cr_open cr d (replicate NONCEBYTES 0) key)"

text \<open>\<open>symmetric_crypt(data, true)\<close> with the nonce it draws, and \<open>symmetric_crypt(data, false)\<close>.\<close>

definition symmetric_encrypt :: "crypto \<Rightarrow> machine \<Rightarrow> bytes \<Rightarrow> bytes \<Rightarrow> bytes option" where
  "symmetric_encrypt cr mc nonce d =
     Some (FORMAT_V1 # nonce @ cr_seal cr d nonce (resize0 KEYBYTES (mc_uuid mc)))"

definition symmetric_decrypt :: "crypto \<Rightarrow> machine \<Rightarrow> bytes \<Rightarrow> bytes option" where
  "symmetric_decrypt cr mc d =
     (case open_secretbox_payload cr d (resize0 KEYBYTES (mc_uuid mc)) of
        Some v \<Rightarrow> Some v
      | None \<Rightarrow>
          (case mc_key_pair mc of
             Some (sk, pk) \<Rightarrow>
               if pk \<noteq> mc_uuid mc then open_secretbox_payload cr d (resize0 KEYBYTES pk) else None
           | None \<Rightarrow> None))"

definition encrypt_val :: "crypto \<Rightarrow> machine \<Rightarrow> bytes \<Rightarrow> bytes \<Rightarrow> bytes option" where
  "encrypt_val cr mc nonce v = (if v \<noteq> [] then map_option (cr_encode cr) (symmetric_encrypt cr mc nonce v) else None)"

definition decrypt_val :: "crypto \<Rightarrow> machine \<Rightarrow> bytes \<Rightarrow> bytes option" where
  "decrypt_val cr mc v = (if v \<noteq> [] then Option.bind (cr_decode cr v) (symmetric_decrypt cr mc) else None)"

definition is_encrypted :: "crypto \<Rightarrow> bytes \<Rightarrow> bool" where
  "is_encrypted cr v =
     (if length v \<le> VERSION_LEN \<or> \<not> starts_with V00 v then False
      else case cr_decode cr (drop VERSION_LEN v) of
             Some decoded \<Rightarrow> length decoded \<ge> MACBYTES
           | None \<Rightarrow> False)"

definition encrypt_str_or_original :: "crypto \<Rightarrow> machine \<Rightarrow> bytes \<Rightarrow> bytes \<Rightarrow> bytes \<Rightarrow> nat \<Rightarrow> bytes" where
  "encrypt_str_or_original cr mc nonce s version max_len =
     (if is_encrypted cr s then s
      else if chars_count s > max_len then []
      else if version = V00 then
        (case encrypt_val cr mc nonce s of Some e \<Rightarrow> version @ e | None \<Rightarrow> s)
      else s)"

definition decrypt_str_or_original :: "crypto \<Rightarrow> machine \<Rightarrow> bytes \<Rightarrow> bytes \<Rightarrow> bytes \<times> bool \<times> bool" where
  "decrypt_str_or_original cr mc s current_version =
     (let plain = (if length s > VERSION_LEN \<and> starts_with V00 s then decrypt_val cr mc (drop VERSION_LEN s) else None)
      in case plain of
           Some v \<Rightarrow> (from_utf8_lossy v, True, V00 \<noteq> current_version)
         | None \<Rightarrow> (s, False, s \<noteq> [] \<and> \<not> is_encrypted cr s))"

definition encrypt_vec_or_original :: "crypto \<Rightarrow> machine \<Rightarrow> bytes \<Rightarrow> bytes \<Rightarrow> bytes \<Rightarrow> nat \<Rightarrow> bytes" where
  "encrypt_vec_or_original cr mc nonce v version max_len =
     (if is_encrypted cr v then v
      else if length v > max_len then []
      else if version = V00 then
        (case encrypt_val cr mc nonce v of Some e \<Rightarrow> version @ e | None \<Rightarrow> v)
      else v)"

definition decrypt_vec_or_original :: "crypto \<Rightarrow> machine \<Rightarrow> bytes \<Rightarrow> bytes \<Rightarrow> bytes \<times> bool \<times> bool" where
  "decrypt_vec_or_original cr mc v current_version =
     (let version = from_utf8_lossy (take VERSION_LEN v);
          plain = (if length v > VERSION_LEN \<and> version = V00 then decrypt_val cr mc (drop VERSION_LEN v) else None)
      in case plain of
           Some p \<Rightarrow> (p, True, version \<noteq> current_version)
         | None \<Rightarrow> (v, False, v \<noteq> [] \<and> \<not> is_encrypted cr v))"

section \<open>The permanent password: \<open>permanent_password.rs\<close>\<close>

definition PASSWORD_ENC_VERSION :: bytes where "PASSWORD_ENC_VERSION = V00"
definition PERMANENT_PASSWORD_ENC_VERSION :: bytes where "PERMANENT_PASSWORD_ENC_VERSION = V01"
definition PERMANENT_PASSWORD_HASH_PREFIX :: bytes where "PERMANENT_PASSWORD_HASH_PREFIX = V00"
definition HBBS_PRESET_PASSWORD_HASH_PREFIX :: bytes where "HBBS_PRESET_PASSWORD_HASH_PREFIX = V00"
definition PERMANENT_PASSWORD_H1_LEN :: nat where "PERMANENT_PASSWORD_H1_LEN = 32"
definition ENCRYPT_MAX_LEN :: nat where "ENCRYPT_MAX_LEN = 128"

lemmas password_consts = VERSION_LEN_def FORMAT_V1_def V00_def V01_def PASSWORD_ENC_VERSION_def
  PERMANENT_PASSWORD_ENC_VERSION_def PERMANENT_PASSWORD_HASH_PREFIX_def HBBS_PRESET_PASSWORD_HASH_PREFIX_def
  PERMANENT_PASSWORD_H1_LEN_def ENCRYPT_MAX_LEN_def

definition compute_permanent_password_h1 :: "crypto \<Rightarrow> bytes \<Rightarrow> bytes \<Rightarrow> bytes" where
  "compute_permanent_password_h1 cr password salt = take PERMANENT_PASSWORD_H1_LEN (cr_sha256 cr (password @ salt))"

definition encode_permanent_password_storage_from_h1 :: "crypto \<Rightarrow> bytes \<Rightarrow> bytes" where
  "encode_permanent_password_storage_from_h1 cr h1 = PERMANENT_PASSWORD_HASH_PREFIX @ cr_encode cr h1"

definition encrypt_permanent_password_storage :: "crypto \<Rightarrow> machine \<Rightarrow> bytes \<Rightarrow> bytes \<Rightarrow> bytes option" where
  "encrypt_permanent_password_storage cr mc nonce storage =
     (if chars_count storage > ENCRYPT_MAX_LEN then None
      else map_option (\<lambda>e. PERMANENT_PASSWORD_ENC_VERSION @ cr_encode cr e) (symmetric_encrypt cr mc nonce storage))"

definition encode_permanent_password_encrypted_storage_from_h1 :: "crypto \<Rightarrow> machine \<Rightarrow> bytes \<Rightarrow> bytes \<Rightarrow> bytes option" where
  "encode_permanent_password_encrypted_storage_from_h1 cr mc nonce h1 =
     encrypt_permanent_password_storage cr mc nonce (encode_permanent_password_storage_from_h1 cr h1)"

definition strip_prefix :: "bytes \<Rightarrow> bytes \<Rightarrow> bytes option" where
  "strip_prefix pre s = (if starts_with pre s then Some (drop (length pre) s) else None)"

definition decode_password_h1_after_prefix :: "crypto \<Rightarrow> bytes \<Rightarrow> bytes \<Rightarrow> bytes option" where
  "decode_password_h1_after_prefix cr storage pre =
     (case strip_prefix pre storage of
        None \<Rightarrow> None
      | Some encoded \<Rightarrow>
          (case cr_decode cr encoded of
             None \<Rightarrow> None
           | Some v \<Rightarrow> if length v \<noteq> PERMANENT_PASSWORD_H1_LEN then None else Some v))"

definition decode_permanent_password_h1_from_hashed_storage :: "crypto \<Rightarrow> bytes \<Rightarrow> bytes option" where
  "decode_permanent_password_h1_from_hashed_storage cr storage =
     decode_password_h1_after_prefix cr storage PERMANENT_PASSWORD_HASH_PREFIX"

definition decode_preset_password_h1_from_storage :: "crypto \<Rightarrow> bytes \<Rightarrow> bytes option" where
  "decode_preset_password_h1_from_storage cr storage =
     decode_password_h1_after_prefix cr storage HBBS_PRESET_PASSWORD_HASH_PREFIX"

definition decrypt_permanent_password_str_or_original :: "crypto \<Rightarrow> machine \<Rightarrow> bytes \<Rightarrow> bytes \<times> bool \<times> bool" where
  "decrypt_permanent_password_str_or_original cr mc storage =
     (let plain = (if length storage > VERSION_LEN \<and> starts_with PERMANENT_PASSWORD_ENC_VERSION storage
                   then Option.bind (cr_decode cr (drop VERSION_LEN storage)) (symmetric_decrypt cr mc) else None)
      in case plain of
           Some v \<Rightarrow> (from_utf8_lossy v, True, False)
         | None \<Rightarrow> (storage, False, storage \<noteq> []))"

definition decode_permanent_password_h1_from_storage :: "crypto \<Rightarrow> machine \<Rightarrow> bytes \<Rightarrow> bytes option" where
  "decode_permanent_password_h1_from_storage cr mc storage =
     (if starts_with PERMANENT_PASSWORD_ENC_VERSION storage then
        (case decrypt_permanent_password_str_or_original cr mc storage of
           (hashed_storage, decrypted, _) \<Rightarrow>
             if \<not> decrypted then None else decode_permanent_password_h1_from_hashed_storage cr hashed_storage)
      else None)"

definition local_permanent_password_storage_is_usable_for_auth :: "crypto \<Rightarrow> machine \<Rightarrow> bytes \<Rightarrow> bytes \<Rightarrow> bool" where
  "local_permanent_password_storage_is_usable_for_auth cr mc storage salt =
     (if storage = [] then False
      else if decode_permanent_password_h1_from_storage cr mc storage \<noteq> None then salt \<noteq> []
      else if starts_with PERMANENT_PASSWORD_ENC_VERSION storage \<and>
              fst (snd (decrypt_permanent_password_str_or_original cr mc storage)) then False
      else (case decrypt_str_or_original cr mc storage PASSWORD_ENC_VERSION of
              (_, decrypted, looks_like_plaintext) \<Rightarrow>
                \<not> (starts_with PASSWORD_ENC_VERSION storage \<and> \<not> decrypted \<and> \<not> looks_like_plaintext)))"

definition preset_permanent_password_storage_is_usable_for_auth :: "crypto \<Rightarrow> bytes \<Rightarrow> bytes \<Rightarrow> bool" where
  "preset_permanent_password_storage_is_usable_for_auth cr storage salt =
     (if storage = [] then False else if salt = [] then True
      else decode_preset_password_h1_from_storage cr storage \<noteq> None)"

definition preset_permanent_password_storage_matches_plain :: "crypto \<Rightarrow> bytes \<Rightarrow> bytes \<Rightarrow> bytes \<Rightarrow> bool" where
  "preset_permanent_password_storage_matches_plain cr storage salt inp =
     (if storage = [] \<or> inp = [] then False
      else if salt = [] then storage = inp
      else case decode_preset_password_h1_from_storage cr storage of
             None \<Rightarrow> False
           | Some stored_h1 \<Rightarrow> compute_permanent_password_h1 cr inp salt = stored_h1)"

definition password_is_empty_or_not_hashed :: "crypto \<Rightarrow> machine \<Rightarrow> bytes \<Rightarrow> bool" where
  "password_is_empty_or_not_hashed cr mc storage =
     (if storage = [] then True
      else if decode_permanent_password_h1_from_storage cr mc storage \<noteq> None then False
      else if starts_with PERMANENT_PASSWORD_ENC_VERSION storage then False
      else (case decrypt_str_or_original cr mc storage PASSWORD_ENC_VERSION of
              (_, decrypted, looks_like_plaintext) \<Rightarrow> decrypted \<or> looks_like_plaintext))"

section \<open>The configuration: \<open>config.rs\<close>\<close>

record config =
  cf_id :: bytes
  cf_enc_id :: bytes
  cf_password :: bytes
  cf_salt :: bytes

record trusted_device =
  td_hwid :: bytes
  td_time :: int
  td_id :: string
  td_name :: string
  td_platform :: string

text \<open>The process-wide configuration, the file it is stored in and the trusted devices.\<close>

record config_state =
  cs_config :: config
  cs_disk :: config
  cs_trusted :: "trusted_device list"

text \<open>What the random generators deliver to one operation: the nonces of the password and of the
  stored forms, and a generated salt.\<close>

record randomness =
  rnd_nonce :: bytes
  rnd_store_password :: bytes
  rnd_store_id :: bytes
  rnd_salt :: bytes

definition keep_encrypted_storage_if_plaintext_unchanged :: "crypto \<Rightarrow> machine \<Rightarrow> bytes \<Rightarrow> bytes \<Rightarrow> bytes \<Rightarrow> bytes" where
  "keep_encrypted_storage_if_plaintext_unchanged cr mc nonce plain stored =
     (case decrypt_str_or_original cr mc stored PASSWORD_ENC_VERSION of
        (stored_plain, encrypted, _) \<Rightarrow>
          if encrypted \<and> stored_plain = plain then stored
          else encrypt_str_or_original cr mc nonce plain PASSWORD_ENC_VERSION ENCRYPT_MAX_LEN)"

definition ensure_permanent_password_hash_salt :: "config \<Rightarrow> string + unit" where
  "ensure_permanent_password_hash_salt c =
     (if cf_salt c = [] then Inl ''Permanent password hash storage requires a non-empty salt'' else Inr ())"

definition ensure_permanent_password_salt :: "bytes \<Rightarrow> config \<Rightarrow> config" where
  "ensure_permanent_password_salt auto_password c = (if cf_salt c = [] then c\<lparr>cf_salt := auto_password\<rparr> else c)"

definition validate_or_decrypt_permanent_password_storage :: "crypto \<Rightarrow> machine \<Rightarrow> config \<Rightarrow> (string + unit) \<times> config" where
  "validate_or_decrypt_permanent_password_storage cr mc c =
     (if cf_password c = [] then (Inr (), c)
      else if starts_with PASSWORD_ENC_VERSION (cf_password c) then
        (case decrypt_str_or_original cr mc (cf_password c) PASSWORD_ENC_VERSION of
           (plain, decrypted, should_store) \<Rightarrow>
             if decrypted then (Inr (), c\<lparr>cf_password := plain\<rparr>)
             else if \<not> should_store then (Inl ''Invalid permanent password encrypted hash storage'', c)
             else (Inr (), c))
      else
        (case decrypt_permanent_password_str_or_original cr mc (cf_password c) of
           (decrypted_storage, decrypted, _) \<Rightarrow>
             if decrypted then
               (case ensure_permanent_password_hash_salt c of
                  Inl err \<Rightarrow> (Inl err, c)
                | Inr _ \<Rightarrow>
                    if decode_permanent_password_h1_from_hashed_storage cr decrypted_storage \<noteq> None then (Inr (), c)
                    else (Inl ''Invalid permanent password encrypted hash storage'', c))
             else (Inr (), c)))"

definition prepare_config_for_store :: "crypto \<Rightarrow> machine \<Rightarrow> config \<Rightarrow> config" where
  "prepare_config_for_store cr mc c =
     (case validate_or_decrypt_permanent_password_storage cr mc c of
        (Inr _, c1) \<Rightarrow> c1
      | (Inl _, c1) \<Rightarrow> c1\<lparr>cf_password := [], cf_salt := []\<rparr>)"

definition store_config :: "crypto \<Rightarrow> machine \<Rightarrow> randomness \<Rightarrow> config_state \<Rightarrow> config_state" where
  "store_config cr mc rnd cs =
     (let c0 = prepare_config_for_store cr mc (cs_config cs);
          c1 = (if cf_password c0 \<noteq> [] \<and> decode_permanent_password_h1_from_storage cr mc (cf_password c0) = None
                then c0\<lparr>cf_password := keep_encrypted_storage_if_plaintext_unchanged cr mc (rnd_store_password rnd)
                                        (cf_password c0) (cf_password (cs_disk cs))\<rparr>
                else c0);
          c2 = (case decrypt_str_or_original cr mc (cf_enc_id c1) PASSWORD_ENC_VERSION of
                  (stored_id, encrypted, _) \<Rightarrow>
                    if \<not> encrypted \<or> stored_id \<noteq> cf_id c1
                    then c1\<lparr>cf_enc_id := encrypt_str_or_original cr mc (rnd_store_id rnd) (cf_id c1) PASSWORD_ENC_VERSION ENCRYPT_MAX_LEN\<rparr>
                    else c1)
      in cs\<lparr>cs_disk := c2\<lparr>cf_id := []\<rparr>\<rparr>)"

text \<open>\<open>Config::load\<close>: \<open>gen_ids\<close> are the results of the up to three calls of \<open>gen_id\<close>.\<close>

fun first_some :: "'a option list \<Rightarrow> 'a option" where
  "first_some [] = None"
| "first_some (Some x # _) = Some x"
| "first_some (None # xs) = first_some xs"

definition load_config :: "crypto \<Rightarrow> machine \<Rightarrow> randomness \<Rightarrow> bytes option list \<Rightarrow> config_state \<Rightarrow> config_state" where
  "load_config cr mc rnd gen_ids cs =
     (let c0 = snd (validate_or_decrypt_permanent_password_storage cr mc (cs_disk cs));
          (c1, id_valid, store1) =
            (case decrypt_str_or_original cr mc (cf_enc_id c0) PASSWORD_ENC_VERSION of
               (i, encrypted, store2) \<Rightarrow>
                 if encrypted then (c0\<lparr>cf_id := i\<rparr>, True, store2)
                 else if cf_id c0 \<noteq> [] \<and> cf_enc_id c0 = [] \<and>
                         \<not> fst (snd (decrypt_str_or_original cr mc (cf_id c0) PASSWORD_ENC_VERSION))
                 then (c0, True, True) else (c0, False, False));
          (c2, store3) =
            (if id_valid then (c1, store1)
             else case first_some (take 3 gen_ids) of Some i \<Rightarrow> (c1\<lparr>cf_id := i\<rparr>, True) | None \<Rightarrow> (c1, store1));
          cs1 = cs\<lparr>cs_config := c2\<rparr>
      in if store3 then store_config cr mc rnd cs1 else cs1)"

definition clear_trusted_devices :: "config_state \<Rightarrow> config_state" where
  "clear_trusted_devices cs = cs\<lparr>cs_trusted := []\<rparr>"

definition compute_permanent_password_storage_for_update ::
  "crypto \<Rightarrow> machine \<Rightarrow> randomness \<Rightarrow> config \<Rightarrow> bytes \<Rightarrow> bytes option \<times> config" where
  "compute_permanent_password_storage_for_update cr mc rnd c password =
     (let c1 = ensure_permanent_password_salt (rnd_salt rnd) c;
          h1 = compute_permanent_password_h1 cr password (cf_salt c1)
      in (encode_permanent_password_encrypted_storage_from_h1 cr mc (rnd_nonce rnd) h1, c1))"

text \<open>\<open>disabled\<close> is the built-in option, \<open>preset\<close> the storage and salt of the hard settings.\<close>

definition set_permanent_password ::
  "crypto \<Rightarrow> machine \<Rightarrow> randomness \<Rightarrow> bool \<Rightarrow> bytes \<times> bytes \<Rightarrow> bytes \<Rightarrow> config_state \<Rightarrow> bool \<times> config_state" where
  "set_permanent_password cr mc rnd disabled preset password cs =
     (if disabled then (False, cs)
      else if preset_permanent_password_storage_matches_plain cr (fst preset) (snd preset) password \<and>
              cf_password (cs_config cs) = [] then (True, cs)
      else case (if password = [] then (Some [], cs_config cs)
                 else compute_permanent_password_storage_for_update cr mc rnd (cs_config cs) password) of
        (None, c1) \<Rightarrow> (False, cs\<lparr>cs_config := c1\<rparr>)
      | (Some stored, c1) \<Rightarrow>
          if stored = cf_password c1 then (True, cs\<lparr>cs_config := c1\<rparr>)
          else (True, clear_trusted_devices (store_config cr mc rnd (cs\<lparr>cs_config := c1\<lparr>cf_password := stored\<rparr>\<rparr>))))"

definition apply_permanent_password_storage_for_sync ::
  "crypto \<Rightarrow> machine \<Rightarrow> bytes \<Rightarrow> bytes \<Rightarrow> config \<Rightarrow> (string + bool) \<times> config" where
  "apply_permanent_password_storage_for_sync cr mc storage salt c =
     (if storage = [] then
        (if cf_password c = [] \<and> (salt = [] \<or> cf_salt c = salt) then (Inr False, c)
         else (Inr True, c\<lparr>cf_password := [], cf_salt := (if salt \<noteq> [] then salt else cf_salt c)\<rparr>))
      else if salt = [] then (Inl ''Refusing to persist permanent password storage without salt'', c)
      else if decode_permanent_password_h1_from_storage cr mc storage = None then
        (Inl ''Invalid permanent password storage sync payload'', c)
      else if cf_password c = storage \<and> cf_salt c = salt then (Inr False, c)
      else (Inr True, c\<lparr>cf_password := storage, cf_salt := salt\<rparr>))"

definition set_permanent_password_storage_for_sync ::
  "crypto \<Rightarrow> machine \<Rightarrow> randomness \<Rightarrow> bytes \<Rightarrow> bytes \<Rightarrow> config_state \<Rightarrow> (string + bool) \<times> config_state" where
  "set_permanent_password_storage_for_sync cr mc rnd storage salt cs =
     (case apply_permanent_password_storage_for_sync cr mc storage salt (cs_config cs) of
        (Inl err, c) \<Rightarrow> (Inl err, cs\<lparr>cs_config := c\<rparr>)
      | (Inr changed, c) \<Rightarrow>
          if \<not> changed then (Inr False, cs\<lparr>cs_config := c\<rparr>)
          else (Inr True, clear_trusted_devices (store_config cr mc rnd (cs\<lparr>cs_config := c\<rparr>))))"

definition has_usable_preset_password :: "crypto \<Rightarrow> bytes \<times> bytes \<Rightarrow> bool" where
  "has_usable_preset_password cr preset = preset_permanent_password_storage_is_usable_for_auth cr (fst preset) (snd preset)"

definition has_permanent_password :: "crypto \<Rightarrow> machine \<Rightarrow> bytes \<times> bytes \<Rightarrow> config \<Rightarrow> bool" where
  "has_permanent_password cr mc preset c =
     (if cf_password c \<noteq> [] then local_permanent_password_storage_is_usable_for_auth cr mc (cf_password c) (cf_salt c)
      else has_usable_preset_password cr preset)"

definition is_using_preset_password :: "crypto \<Rightarrow> bytes \<times> bytes \<Rightarrow> config \<Rightarrow> bool" where
  "is_using_preset_password cr preset c = (cf_password c = [] \<and> has_usable_preset_password cr preset)"

definition has_local_permanent_password :: "crypto \<Rightarrow> machine \<Rightarrow> config \<Rightarrow> bool" where
  "has_local_permanent_password cr mc c =
     local_permanent_password_storage_is_usable_for_auth cr mc (cf_password c) (cf_salt c)"

definition set_salt :: "crypto \<Rightarrow> machine \<Rightarrow> randomness \<Rightarrow> bytes \<Rightarrow> config_state \<Rightarrow> config_state" where
  "set_salt cr mc rnd salt cs =
     (if salt = cf_salt (cs_config cs) then cs
      else if \<not> password_is_empty_or_not_hashed cr mc (cf_password (cs_config cs)) \<and> cf_salt (cs_config cs) \<noteq> [] then cs
      else store_config cr mc rnd (cs\<lparr>cs_config := (cs_config cs)\<lparr>cf_salt := salt\<rparr>\<rparr>))"

definition get_salt :: "crypto \<Rightarrow> machine \<Rightarrow> randomness \<Rightarrow> config_state \<Rightarrow> bytes \<times> config_state" where
  "get_salt cr mc rnd cs =
     (if cf_salt (cs_config cs) = [] then (rnd_salt rnd, set_salt cr mc rnd (rnd_salt rnd) cs)
      else (cf_salt (cs_config cs), cs))"

definition get_effective_permanent_password_salt ::
  "crypto \<Rightarrow> machine \<Rightarrow> randomness \<Rightarrow> bytes \<times> bytes \<Rightarrow> config_state \<Rightarrow> bytes \<times> config_state" where
  "get_effective_permanent_password_salt cr mc rnd preset cs =
     (let c = cs_config cs in
      if cf_password c \<noteq> [] then
        (if local_permanent_password_storage_is_usable_for_auth cr mc (cf_password c) (cf_salt c)
         then get_salt cr mc rnd cs else ([], cs))
      else if snd preset \<noteq> [] then
        (if preset_permanent_password_storage_is_usable_for_auth cr (fst preset) (snd preset) then (snd preset, cs) else ([], cs))
      else get_salt cr mc rnd cs)"

section \<open>Sealing and opening\<close>

lemma crypto_open_seal:
  assumes "crypto_ok cr" "length n = NONCEBYTES" "length k = KEYBYTES"
  shows "cr_open cr (cr_seal cr d n k) n k = Some d" "length (cr_seal cr d n k) = length d + MACBYTES"
  using assms by (auto simp: crypto_ok_def)

lemma crypto_base64:
  assumes "crypto_ok cr"
  shows "cr_decode cr (cr_encode cr x) = Some x" "length (cr_encode cr x) = 4 * ((length x + 2) div 3)"
    "list_all (\<lambda>b. b < 0x80) (cr_encode cr x)"
  using assms by (simp_all add: crypto_ok_def)

definition sealed :: "crypto \<Rightarrow> machine \<Rightarrow> bytes \<Rightarrow> bytes \<Rightarrow> bytes" where
  "sealed cr mc nonce d = FORMAT_V1 # nonce @ cr_seal cr d nonce (resize0 KEYBYTES (mc_uuid mc))"

lemma symmetric_encrypt_sealed: "symmetric_encrypt cr mc nonce d = Some (sealed cr mc nonce d)"
  by (simp add: symmetric_encrypt_def sealed_def)

lemma symmetric_decrypt_sealed:
  assumes "crypto_ok cr" "length nonce = NONCEBYTES"
  shows "symmetric_decrypt cr mc (sealed cr mc nonce d) = Some d"
  using crypto_open_seal [OF assms(1,2), of "resize0 KEYBYTES (mc_uuid mc)" d] assms(2)
  by (simp add: symmetric_decrypt_def open_secretbox_payload_def sealed_def)

lemma length_sealed:
  assumes "crypto_ok cr" "length nonce = NONCEBYTES"
  shows "length (sealed cr mc nonce d) = 1 + NONCEBYTES + length d + MACBYTES"
  using crypto_open_seal [OF assms, of "resize0 KEYBYTES (mc_uuid mc)" d] assms(2) by (simp add: sealed_def)

lemma encode_sealed_nonempty:
  assumes "crypto_ok cr" "length nonce = NONCEBYTES"
  shows "cr_encode cr (sealed cr mc nonce d) \<noteq> []"
  using crypto_base64(2) [OF assms(1), of "sealed cr mc nonce d"] length_sealed [OF assms, of mc d]
  by (auto simp: crypto_sizes)

lemma starts_with_append [simp]: "starts_with p (p @ v)"
  by (simp add: starts_with_def)

lemma is_encrypted_sealed:
  assumes "crypto_ok cr" "length nonce = NONCEBYTES"
  shows "is_encrypted cr (V00 @ cr_encode cr (sealed cr mc nonce d))"
  using crypto_base64(1) [OF assms(1)] length_sealed [OF assms, of mc d] encode_sealed_nonempty [OF assms, of mc d]
    starts_with_append [of V00]
  by (auto simp: is_encrypted_def VERSION_LEN_def V00_def)

lemma decrypt_str_sealed:
  assumes "crypto_ok cr" "length nonce = NONCEBYTES"
  shows "decrypt_str_or_original cr mc (V00 @ cr_encode cr (sealed cr mc nonce d)) v = (from_utf8_lossy d, True, V00 \<noteq> v)"
  using crypto_base64(1) [OF assms(1)] encode_sealed_nonempty [OF assms, of mc d] symmetric_decrypt_sealed [OF assms]
    starts_with_append [of V00]
  by (auto simp: decrypt_str_or_original_def decrypt_val_def VERSION_LEN_def V00_def)

lemma decrypt_vec_sealed:
  assumes "crypto_ok cr" "length nonce = NONCEBYTES"
  shows "decrypt_vec_or_original cr mc (V00 @ cr_encode cr (sealed cr mc nonce d)) v = (d, True, V00 \<noteq> v)"
proof -
  have "from_utf8_lossy V00 = V00" by (intro from_utf8_lossy_valid valid_utf8_ascii) (simp add: V00_def)
  then show ?thesis
    using crypto_base64(1) [OF assms(1)] encode_sealed_nonempty [OF assms, of mc d] symmetric_decrypt_sealed [OF assms]
    by (auto simp: decrypt_vec_or_original_def decrypt_val_def VERSION_LEN_def V00_def)
qed

text \<open>A value that does not look encrypted is sealed; one that does is left alone.\<close>

lemma encrypt_str_sealed:
  assumes "\<not> is_encrypted cr s" "s \<noteq> []" "chars_count s \<le> max_len"
  shows "encrypt_str_or_original cr mc nonce s V00 max_len = V00 @ cr_encode cr (sealed cr mc nonce s)"
  using assms by (simp add: encrypt_str_or_original_def encrypt_val_def symmetric_encrypt_sealed)

lemma encrypt_vec_sealed:
  assumes "\<not> is_encrypted cr s" "s \<noteq> []" "length s \<le> max_len"
  shows "encrypt_vec_or_original cr mc nonce s V00 max_len = V00 @ cr_encode cr (sealed cr mc nonce s)"
  using assms by (simp add: encrypt_vec_or_original_def encrypt_val_def symmetric_encrypt_sealed)

text \<open>Values sealed under the key pair, and values of the format before \<open>FORMAT_V1\<close>, still open.\<close>

lemma fallback_to_key_pair:
  assumes "crypto_ok cr" "mc_key_pair mc = Some (sk, pk)" "open_secretbox_payload cr (sealed cr (mc\<lparr>mc_uuid := pk\<rparr>) nonce d) (resize0 KEYBYTES (mc_uuid mc)) = None"
    and "length nonce = NONCEBYTES" "pk \<noteq> mc_uuid mc"
  shows "symmetric_decrypt cr mc (sealed cr (mc\<lparr>mc_uuid := pk\<rparr>) nonce d) = Some d"
  using assms crypto_open_seal [OF assms(1,4), of "resize0 KEYBYTES pk" d]
  by (simp add: symmetric_decrypt_def open_secretbox_payload_def sealed_def)

lemma legacy_opens:
  assumes "crypto_ok cr" "d = cr_seal cr x (replicate NONCEBYTES 0) (resize0 KEYBYTES (mc_uuid mc))"
    and "hd d \<noteq> FORMAT_V1 \<or> cr_open cr (drop (1 + NONCEBYTES) d) (take NONCEBYTES (drop 1 d)) (resize0 KEYBYTES (mc_uuid mc)) = None"
  shows "symmetric_decrypt cr mc d = Some x"
  using assms(3) crypto_open_seal [OF assms(1), of "replicate NONCEBYTES 0" "resize0 KEYBYTES (mc_uuid mc)" x]
  by (auto simp: symmetric_decrypt_def open_secretbox_payload_def assms(2) Let_def)

section \<open>The permanent password\<close>

lemma h1_length [simp]: "crypto_ok cr \<Longrightarrow> length (compute_permanent_password_h1 cr pw salt) = 32"
  by (simp add: compute_permanent_password_h1_def crypto_ok_def PERMANENT_PASSWORD_H1_LEN_def)

definition h1_storage :: "crypto \<Rightarrow> machine \<Rightarrow> bytes \<Rightarrow> bytes \<Rightarrow> bytes" where
  "h1_storage cr mc nonce h1 = V01 @ cr_encode cr (sealed cr mc nonce (V00 @ cr_encode cr h1))"

lemma encode_h1_storage:
  assumes "crypto_ok cr" "length h1 = 32"
  shows "encode_permanent_password_encrypted_storage_from_h1 cr mc nonce h1 = Some (h1_storage cr mc nonce h1)"
proof -
  have "length (V00 @ cr_encode cr h1) \<le> ENCRYPT_MAX_LEN"
    using crypto_base64(2) [OF assms(1), of h1] assms(2) by (simp add: password_consts)
  then have "chars_count (V00 @ cr_encode cr h1) \<le> ENCRYPT_MAX_LEN"
    using chars_count_le [of "V00 @ cr_encode cr h1"] by simp
  then show ?thesis
    by (simp add: encode_permanent_password_encrypted_storage_from_h1_def encrypt_permanent_password_storage_def
        encode_permanent_password_storage_from_h1_def symmetric_encrypt_sealed h1_storage_def
        PERMANENT_PASSWORD_HASH_PREFIX_def PERMANENT_PASSWORD_ENC_VERSION_def)
qed

lemma decrypt_h1_storage:
  assumes "crypto_ok cr" "length nonce = NONCEBYTES"
  shows "decrypt_permanent_password_str_or_original cr mc (h1_storage cr mc nonce h1) = (V00 @ cr_encode cr h1, True, False)"
proof -
  have "list_all (\<lambda>b. b < 0x80) (V00 @ cr_encode cr h1)" using crypto_base64(3) [OF assms(1), of h1] by (simp add: V00_def)
  then have "from_utf8_lossy (V00 @ cr_encode cr h1) = V00 @ cr_encode cr h1"
    by (intro from_utf8_lossy_valid valid_utf8_ascii)
  then show ?thesis
    using crypto_base64(1) [OF assms(1)] encode_sealed_nonempty [OF assms, of mc "V00 @ cr_encode cr h1"]
      symmetric_decrypt_sealed [OF assms] starts_with_append [of V01]
    by (auto simp: decrypt_permanent_password_str_or_original_def h1_storage_def VERSION_LEN_def V01_def
        PERMANENT_PASSWORD_ENC_VERSION_def)
qed

lemma decode_hashed_storage:
  assumes "crypto_ok cr" "length h1 = 32"
  shows "decode_permanent_password_h1_from_hashed_storage cr (V00 @ cr_encode cr h1) = Some h1"
  using crypto_base64(1) [OF assms(1)] assms(2)
  by (simp add: decode_permanent_password_h1_from_hashed_storage_def decode_password_h1_after_prefix_def strip_prefix_def
      PERMANENT_PASSWORD_HASH_PREFIX_def PERMANENT_PASSWORD_H1_LEN_def)

lemma decode_h1_storage:
  assumes "crypto_ok cr" "length nonce = NONCEBYTES" "length h1 = 32"
  shows "decode_permanent_password_h1_from_storage cr mc (h1_storage cr mc nonce h1) = Some h1"
  using decrypt_h1_storage [OF assms(1,2), of mc h1] decode_hashed_storage [OF assms(1,3)]
  by (simp add: decode_permanent_password_h1_from_storage_def h1_storage_def PERMANENT_PASSWORD_ENC_VERSION_def)

lemma h1_storage_prefix [simp]: "h1_storage cr mc nonce h1 \<noteq> []" "\<not> starts_with V00 (h1_storage cr mc nonce h1)"
  by (simp_all add: h1_storage_def starts_with_def V00_def V01_def)

text \<open>A configuration with hashed storage passes validation unchanged, is stored as it is and is
  loaded as it was stored.\<close>

lemma validate_h1_storage:
  assumes "crypto_ok cr" "length nonce = NONCEBYTES" "length h1 = 32" "cf_password c = h1_storage cr mc nonce h1" "cf_salt c \<noteq> []"
  shows "validate_or_decrypt_permanent_password_storage cr mc c = (Inr (), c)"
  using assms(4,5) decrypt_h1_storage [OF assms(1,2), of mc h1] decode_hashed_storage [OF assms(1,3)]
  by (simp add: validate_or_decrypt_permanent_password_storage_def PASSWORD_ENC_VERSION_def ensure_permanent_password_hash_salt_def)

lemma store_h1_storage:
  assumes "crypto_ok cr" "length nonce = NONCEBYTES" "length h1 = 32"
    and "cf_password (cs_config cs) = h1_storage cr mc nonce h1" "cf_salt (cs_config cs) \<noteq> []"
  shows "cf_password (cs_disk (store_config cr mc rnd cs)) = h1_storage cr mc nonce h1 \<and>
    cf_salt (cs_disk (store_config cr mc rnd cs)) = cf_salt (cs_config cs)"
  using assms(4) validate_h1_storage [OF assms] decode_h1_storage [OF assms(1-3), of mc]
  by (simp add: store_config_def prepare_config_for_store_def Let_def split: prod.splits)

lemma store_config_memory [simp]: "cs_config (store_config cr mc rnd cs) = cs_config cs" "cs_trusted (store_config cr mc rnd cs) = cs_trusted cs"
  by (simp_all add: store_config_def Let_def)

lemma load_h1_storage:
  assumes "crypto_ok cr" "length nonce = NONCEBYTES" "length h1 = 32"
    and "cf_password (cs_disk cs) = h1_storage cr mc nonce h1" "cf_salt (cs_disk cs) \<noteq> []"
  shows "cf_password (cs_config (load_config cr mc rnd ids cs)) = h1_storage cr mc nonce h1 \<and>
    cf_salt (cs_config (load_config cr mc rnd ids cs)) = cf_salt (cs_disk cs)"
  using assms(4) validate_h1_storage [OF assms]
  by (auto simp: load_config_def Let_def split: prod.splits option.splits)

text \<open>A value that does not look encrypted comes back from its sealed form, unchanged and marked
  as decrypted, on the machine that sealed it; a sealed value is never sealed again, and is
  recognised as sealed without the key.\<close>

theorem sealed_value_roundtrip:
  assumes "crypto_ok cr" "length nonce = NONCEBYTES" "valid_utf8 s" "s \<noteq> []" "\<not> is_encrypted cr s" "length s \<le> max_len"
  shows "let e = encrypt_str_or_original cr mc nonce s V00 max_len in
     decrypt_str_or_original cr mc e cur = (s, True, V00 \<noteq> cur) \<and>
     decrypt_vec_or_original cr mc (encrypt_vec_or_original cr mc nonce s V00 max_len) cur = (s, True, V00 \<noteq> cur) \<and>
     is_encrypted cr e \<and> encrypt_str_or_original cr mc' nonce' e version max_len' = e \<and>
     encrypt_vec_or_original cr mc' nonce' e version max_len' = e"
proof -
  have "chars_count s \<le> max_len" using assms(6) chars_count_le [of s] by simp
  note e = encrypt_str_sealed [OF assms(5,4) this] encrypt_vec_sealed [OF assms(5,4,6)]
  show ?thesis
    using is_encrypted_sealed [OF assms(1,2)]
    by (simp add: e decrypt_str_sealed [OF assms(1,2)] decrypt_vec_sealed [OF assms(1,2)] from_utf8_lossy_valid assms(3)
        encrypt_str_or_original_def [of _ _ nonce'] encrypt_vec_or_original_def [of _ _ nonce'] Let_def)
qed

text \<open>What an accepted change of the permanent password leaves in memory and on disk.\<close>

lemma set_permanent_password_effect:
  assumes "crypto_ok cr" "length (rnd_nonce rnd) = NONCEBYTES" "rnd_salt rnd \<noteq> []" "pw \<noteq> []"
    and "set_permanent_password cr mc rnd False preset pw cs = (ok, cs')"
    and "cf_password (cs_config cs') \<noteq> cf_password (cs_config cs)"
  shows "ok \<and> cf_salt (cs_config cs') \<noteq> [] \<and> (cf_salt (cs_config cs) \<noteq> [] \<longrightarrow> cf_salt (cs_config cs') = cf_salt (cs_config cs)) \<and>
    cf_password (cs_config cs') = h1_storage cr mc (rnd_nonce rnd) (compute_permanent_password_h1 cr pw (cf_salt (cs_config cs'))) \<and>
    cf_password (cs_disk cs') = cf_password (cs_config cs') \<and> cf_salt (cs_disk cs') = cf_salt (cs_config cs') \<and> cs_trusted cs' = []"
proof -
  define c1 where "c1 = ensure_permanent_password_salt (rnd_salt rnd) (cs_config cs)"
  define h1 where "h1 = compute_permanent_password_h1 cr pw (cf_salt c1)"
  define st where "st = h1_storage cr mc (rnd_nonce rnd) h1"
  have len: "length h1 = 32" using assms(1) by (simp add: h1_def)
  have salt: "cf_salt c1 \<noteq> []" "cf_salt (cs_config cs) \<noteq> [] \<longrightarrow> cf_salt c1 = cf_salt (cs_config cs)" "cf_password c1 = cf_password (cs_config cs)"
    using assms(3) by (auto simp: c1_def ensure_permanent_password_salt_def)
  have upd: "compute_permanent_password_storage_for_update cr mc rnd (cs_config cs) pw = (Some st, c1)"
    using encode_h1_storage [OF assms(1) len] by (simp add: compute_permanent_password_storage_for_update_def c1_def h1_def st_def Let_def)
  define cs1 where "cs1 = cs\<lparr>cs_config := c1\<lparr>cf_password := st\<rparr>\<rparr>"
  have cs': "ok" "cs' = clear_trusted_devices (store_config cr mc rnd cs1)"
    using assms(4-6) upd salt(3) by (auto simp: set_permanent_password_def cs1_def split: if_splits)
  have c: "cs_config cs' = c1\<lparr>cf_password := st\<rparr>" "cs_trusted cs' = []" by (simp_all add: cs' clear_trusted_devices_def cs1_def)
  have "cf_password (cs_disk cs') = st \<and> cf_salt (cs_disk cs') = cf_salt c1"
    using store_h1_storage [OF assms(1,2) len, of cs1] salt(1) by (simp add: cs' clear_trusted_devices_def st_def cs1_def)
  with cs' c salt show ?thesis by (simp add: st_def h1_def)
qed

lemma h1_storage_usable:
  assumes "crypto_ok cr" "length nonce = NONCEBYTES" "length h1 = 32" "cf_password c = h1_storage cr mc nonce h1" "cf_salt c \<noteq> []"
  shows "has_permanent_password cr mc preset c" "\<not> password_is_empty_or_not_hashed cr mc (cf_password c)"
    "local_permanent_password_storage_is_usable_for_auth cr mc (cf_password c) (cf_salt c)"
  using decode_h1_storage [OF assms(1-3), of mc] assms(4,5)
  by (simp_all add: has_permanent_password_def local_permanent_password_storage_is_usable_for_auth_def password_is_empty_or_not_hashed_def)

text \<open>Setting a permanent password stores its salted hash, under a salt that is never empty and
  never changed by the update; the stored form is usable for logins, does not pass for a plain
  password, survives a restart, and the update forgets the trusted devices.\<close>

theorem permanent_password_persisted:
  assumes "crypto_ok cr" "length (rnd_nonce rnd) = NONCEBYTES" "rnd_salt rnd \<noteq> []" "pw \<noteq> []"
    and "set_permanent_password cr mc rnd False preset pw cs = (ok, cs')"
    and "cf_password (cs_config cs') \<noteq> cf_password (cs_config cs)"
  shows "let c = cs_config cs'; d = cs_config (load_config cr mc rnd' ids cs') in
     ok \<and> cf_salt c \<noteq> [] \<and> (cf_salt (cs_config cs) \<noteq> [] \<longrightarrow> cf_salt c = cf_salt (cs_config cs)) \<and>
     decode_permanent_password_h1_from_storage cr mc (cf_password c) = Some (compute_permanent_password_h1 cr pw (cf_salt c)) \<and>
     has_permanent_password cr mc preset c \<and> \<not> password_is_empty_or_not_hashed cr mc (cf_password c) \<and>
     cf_password d = cf_password c \<and> cf_salt d = cf_salt c \<and> cs_trusted cs' = []"
proof -
  note ef = set_permanent_password_effect [OF assms]
  have len: "length (compute_permanent_password_h1 cr pw (cf_salt (cs_config cs'))) = 32" using assms(1) by simp
  show ?thesis
    using ef decode_h1_storage [OF assms(1,2) len, of mc] h1_storage_usable [OF assms(1,2) len, of "cs_config cs'" mc]
      load_h1_storage [OF assms(1,2) len, of cs' mc rnd' ids]
    by (simp add: Let_def)
qed

section \<open>An instance of the libraries\<close>

text \<open>Base64 in full, and stand-ins for the other two: a box that carries half the key as its tag and
  a digest that keeps the first 32 bytes.  They satisfy \<open>crypto_ok\<close>.\<close>

definition b64_char :: "nat \<Rightarrow> u8" where
  "b64_char v = word_of_nat (if v < 26 then 65 + v else if v < 52 then 71 + v else if v < 62 then v - 4 else if v = 62 then 43 else 47)"

definition b64_val :: "u8 \<Rightarrow> nat option" where
  "b64_val b =
     (let n = unat b in
      if 65 \<le> n \<and> n \<le> 90 then Some (n - 65) else if 97 \<le> n \<and> n \<le> 122 then Some (n - 71)
      else if 48 \<le> n \<and> n \<le> 57 then Some (n + 4) else if n = 43 then Some 62 else if n = 47 then Some 63 else None)"

abbreviation PAD :: u8 where "PAD \<equiv> 61"

fun b64_encode :: "bytes \<Rightarrow> bytes" where
  "b64_encode [] = []"
| "b64_encode [a] = [b64_char (unat a div 4), b64_char (unat a mod 4 * 16), PAD, PAD]"
| "b64_encode [a, b] = [b64_char (unat a div 4), b64_char (unat a mod 4 * 16 + unat b div 16), b64_char (unat b mod 16 * 4), PAD]"
| "b64_encode (a # b # c # r) =
     b64_char (unat a div 4) # b64_char (unat a mod 4 * 16 + unat b div 16) #
     b64_char (unat b mod 16 * 4 + unat c div 64) # b64_char (unat c mod 64) # b64_encode r"

definition b64_quad :: "nat \<Rightarrow> nat \<Rightarrow> nat \<Rightarrow> nat \<Rightarrow> bytes" where
  "b64_quad p q r s = [word_of_nat (p * 4 + q div 16), word_of_nat (q mod 16 * 16 + r div 4), word_of_nat (r mod 4 * 64 + s)]"

fun b64_decode :: "bytes \<Rightarrow> bytes option" where
  "b64_decode [] = Some []"
| "b64_decode (p # q # r # s # t) =
     (case (b64_val p, b64_val q) of
        (Some p', Some q') \<Rightarrow>
          (if r = PAD \<and> s = PAD \<and> t = [] then Some (take 1 (b64_quad p' q' 0 0))
           else case b64_val r of
             None \<Rightarrow> None
           | Some r' \<Rightarrow>
               if s = PAD \<and> t = [] then Some (take 2 (b64_quad p' q' r' 0))
               else case (b64_val s, b64_decode t) of
                 (Some s', Some t') \<Rightarrow> Some (b64_quad p' q' r' s' @ t')
               | _ \<Rightarrow> None)
      | _ \<Rightarrow> None)"
| "b64_decode _ = None"

lemma b64_alphabet: "list_all (\<lambda>v. b64_val (b64_char v) = Some v \<and> b64_char v \<noteq> PAD \<and> b64_char v < 0x80) [0..<64]"
  by code_simp

lemma b64_char_simps:
  assumes "v < 64"
  shows "b64_val (b64_char v) = Some v" "b64_char v \<noteq> PAD" "b64_char v < 0x80"
  using b64_alphabet assms by (auto simp: list_all_iff simp del: upt_rec_numeral)

lemma b64_bounds:
  "unat (a :: u8) div 4 < 64" "unat (a :: u8) mod 4 * 16 + unat (b :: u8) div 16 < 64"
  "unat (a :: u8) mod 4 * 16 < 64" "unat (b :: u8) mod 16 * 4 < 64" "unat (b :: u8) mod 16 * 4 + unat (c :: u8) div 64 < 64"
  "unat (c :: u8) mod 64 < 64"
  using unsigned_less [of a, where 'a = nat] unsigned_less [of b, where 'a = nat] unsigned_less [of c, where 'a = nat]
  by simp_all

lemma b64_quad_recompose:
  "b64_quad (unat a div 4) (unat a mod 4 * 16 + unat b div 16) (unat b mod 16 * 4 + unat c div 64) (unat c mod 64) = [a, b, c]"
proof -
  have join: "(x * k + y) div k = x \<and> (x * k + y) mod k = y" if "y < k" for x y k :: nat
    using that by simp
  have "unat b div 16 < 16" "unat c div 64 < 4"
    using unsigned_less [of b, where 'a = nat] unsigned_less [of c, where 'a = nat] by simp_all
  from this [THEN join] have
    "unat a div 4 * 4 + (unat a mod 4 * 16 + unat b div 16) div 16 = unat a"
    "(unat a mod 4 * 16 + unat b div 16) mod 16 * 16 + (unat b mod 16 * 4 + unat c div 64) div 4 = unat b"
    "(unat b mod 16 * 4 + unat c div 64) mod 4 * 64 + unat c mod 64 = unat c"
    by simp_all
  then show ?thesis by (simp only: b64_quad_def of_nat_unat ucast_id)
qed

lemma b64_roundtrip: "b64_decode (b64_encode x) = Some x"
proof (induction x rule: b64_encode.induct)
  case (2 a)
  have "b64_quad (unat a div 4) (unat a mod 4 * 16) 0 0 = [a, 0, 0]" using b64_quad_recompose [of a 0 0] by simp
  then show ?case by (simp add: b64_char_simps b64_bounds)
next
  case (3 a b)
  have "b64_quad (unat a div 4) (unat a mod 4 * 16 + unat b div 16) (unat b mod 16 * 4) 0 = [a, b, 0]"
    using b64_quad_recompose [of a b 0] by simp
  then show ?case by (simp add: b64_char_simps b64_bounds)
next
  case (4 a b c r)
  then show ?case by (simp add: b64_char_simps b64_bounds b64_quad_recompose)
qed simp

lemma b64_shape: "length (b64_encode x) = 4 * ((length x + 2) div 3) \<and> list_all (\<lambda>b. b < 0x80) (b64_encode x)"
proof (induction x rule: b64_encode.induct)
  case (4 a b c r)
  have "(5 + length r) div 3 = (length r + 2) div 3 + 1" by presburger
  with 4 show ?case by (simp add: b64_char_simps b64_bounds)
qed (simp_all add: b64_char_simps b64_bounds)

definition sample_crypto :: crypto where
  "sample_crypto = \<lparr>cr_seal = (\<lambda>d n k. take 16 k @ d),
     cr_open = (\<lambda>c n k. if take 16 c = take 16 k then Some (drop 16 c) else None),
     cr_encode = b64_encode, cr_decode = b64_decode, cr_sha256 = resize0 32\<rparr>"

lemma sample_crypto_ok: "crypto_ok sample_crypto"
  by (simp add: crypto_ok_def sample_crypto_def crypto_sizes b64_roundtrip b64_shape)

definition sample_machine :: machine where
  "sample_machine = \<lparr>mc_uuid = [1, 2, 3], mc_key_pair = None\<rparr>"

definition sample_rnd :: randomness where
  "sample_rnd = \<lparr>rnd_nonce = replicate 24 7, rnd_store_password = replicate 24 8, rnd_store_id = replicate 24 9, rnd_salt = [115, 97]\<rparr>"

definition empty_config :: config where
  "empty_config = \<lparr>cf_id = [], cf_enc_id = [], cf_password = [], cf_salt = []\<rparr>"

definition empty_config_state :: config_state where
  "empty_config_state = \<lparr>cs_config = empty_config, cs_disk = empty_config, cs_trusted = [\<lparr>td_hwid = [1], td_time = 0, td_id = ''1'', td_name = [], td_platform = []\<rparr>]\<rparr>"

theorem sealed_value_roundtrip_witness:
  "decrypt_str_or_original sample_crypto sample_machine
     (encrypt_str_or_original sample_crypto sample_machine (replicate 24 7) [112, 119] V00 128) V00 = ([112, 119], True, False)"
proof -
  have "valid_utf8 [112, 119]" by (intro valid_utf8_ascii) simp
  then show ?thesis
    using sealed_value_roundtrip [OF sample_crypto_ok, of "replicate 24 7" "[112, 119]" 128 sample_machine V00]
    by (simp add: is_encrypted_def VERSION_LEN_def NONCEBYTES_def Let_def)
qed

theorem permanent_password_persisted_witness:
  "let cs' = snd (set_permanent_password sample_crypto sample_machine sample_rnd False ([], []) [112, 119] empty_config_state) in
   cf_salt (cs_config cs') = [115, 97] \<and>
   decode_permanent_password_h1_from_storage sample_crypto sample_machine (cf_password (cs_config cs')) =
     Some (compute_permanent_password_h1 sample_crypto [112, 119] [115, 97]) \<and> cs_trusted cs' = []"
proof -
  define r where "r = set_permanent_password sample_crypto sample_machine sample_rnd False ([], []) [112, 119] empty_config_state"
  have "cf_password (cs_config (snd (set_permanent_password sample_crypto sample_machine sample_rnd False ([], []) [112, 119] empty_config_state))) \<noteq> [] \<and>
    cf_salt (cs_config (snd (set_permanent_password sample_crypto sample_machine sample_rnd False ([], []) [112, 119] empty_config_state))) = [115, 97]"
    by code_simp
  then have "cf_password (cs_config (snd r)) \<noteq> cf_password (cs_config empty_config_state)" "cf_salt (cs_config (snd r)) = [115, 97]"
    by (simp_all add: r_def empty_config_state_def empty_config_def)
  with permanent_password_persisted [OF sample_crypto_ok, of sample_rnd "[112, 119]" sample_machine "([], [])" empty_config_state "fst r" "snd r"]
  show ?thesis by (simp add: r_def sample_rnd_def NONCEBYTES_def Let_def)
qed

end
