(* ===== verification/Login_Policy.thy ===== *)
theory Login_Policy
  imports Login_Failure
begin

text \<open>
  What stands between an accepted connection and its login, \<open>src/server/connection.rs\<close>: the places
  of connections that have not authorised yet, the ID whitelist with its glob patterns, and the
  throttle on failed attempts per address and per IPv6 prefix.

  \<^item> The registry of unauthorised connections is the list behind \<open>UNAUTHORIZED_CONNS\<close>, oldest first;
    the \<open>evicted\<close> flag a connection shares with its entry is kept in a store of shared objects.
  \<^item> Identifiers and patterns are ASCII: \<open>to_lowercase\<close> and \<open>trim\<close> are written out for ASCII.
  \<^item> Parsing and printing of IPv6 addresses (\<open>Ipv6Addr::from_str\<close>, \<open>to_string\<close>) are arguments, the
    masks are the code's.  Times are minutes as the code computes them.
\<close>

section \<open>Places of unauthorised connections\<close>

definition MAX_UNAUTHORIZED_CONNS :: nat where "MAX_UNAUTHORIZED_CONNS = 64"
definition MAX_UNAUTHORIZED_CONNS_PER_ADDR :: nat where "MAX_UNAUTHORIZED_CONNS_PER_ADDR = 16"

text \<open>\<open>UnauthorizedShared\<close>: the flag, and the permits of its \<open>Notify\<close> (at most one is stored).\<close>

record unauthorized_shared =
  us_evicted :: bool
  us_notified :: bool

text \<open>\<open>UnauthorizedID\<close>: the guard a connection holds; the \<open>Arc\<close> is an address of the store.\<close>

record unauthorized_id =
  ui_id :: int
  ui_shared :: nat

record 'ip registry =
  ua_conns :: "(int \<times> 'ip \<times> nat) list"
  ua_store :: "nat \<Rightarrow> unauthorized_shared"
  ua_next :: nat

definition ua_empty :: "'ip registry" where
  "ua_empty = \<lparr>ua_conns = [], ua_store = (\<lambda>_. \<lparr>us_evicted = False, us_notified = False\<rparr>), ua_next = 0\<rparr>"

definition tell_to_go :: "unauthorized_shared \<Rightarrow> unauthorized_shared" where
  "tell_to_go s = (if us_evicted s then s else \<lparr>us_evicted = True, us_notified = True\<rparr>)"

definition held_by :: "'ip \<Rightarrow> 'ip registry \<Rightarrow> nat" where
  "held_by ip g = length (filter (\<lambda>(_, held, _). held = ip) (ua_conns g))"

definition admit_unauthorized :: "int \<Rightarrow> 'ip \<Rightarrow> 'ip registry \<Rightarrow> unauthorized_id option \<times> 'ip registry" where
  "admit_unauthorized cid ip g =
     (if held_by ip g \<ge> MAX_UNAUTHORIZED_CONNS_PER_ADDR then (None, g)
      else if length (ua_conns g) \<ge> MAX_UNAUTHORIZED_CONNS then
        (None,
         case ua_conns g of
           [] \<Rightarrow> g
         | (_, _, a) # _ \<Rightarrow> g\<lparr>ua_store := (ua_store g)(a := tell_to_go (ua_store g a))\<rparr>)
      else let a = ua_next g in
        (Some \<lparr>ui_id = cid, ui_shared = a\<rparr>,
         \<lparr>ua_conns = ua_conns g @ [(cid, ip, a)],
          ua_store = (ua_store g)(a := \<lparr>us_evicted = False, us_notified = False\<rparr>),
          ua_next = Suc a\<rparr>))"

definition is_evicted :: "unauthorized_id \<Rightarrow> 'ip registry \<Rightarrow> bool" where
  "is_evicted u g = us_evicted (ua_store g (ui_shared u))"

text \<open>\<open>evicted().await\<close> resolves when the flag is up already or the notification has been sent.\<close>

definition evicted_resolves :: "unauthorized_id \<Rightarrow> 'ip registry \<Rightarrow> bool" where
  "evicted_resolves u g = (is_evicted u g \<or> us_notified (ua_store g (ui_shared u)))"

definition drop_unauthorized :: "unauthorized_id \<Rightarrow> 'ip registry \<Rightarrow> 'ip registry" where
  "drop_unauthorized u g = g\<lparr>ua_conns := filter (\<lambda>(i, _, _). i \<noteq> ui_id u) (ua_conns g)\<rparr>"

text \<open>A run of the registry: arrivals under fresh connection numbers, and connections that give
  their place back.\<close>

inductive ua_reach :: "'ip registry \<Rightarrow> bool" where
  ua_start: "ua_reach ua_empty"
| ua_admit: "ua_reach g \<Longrightarrow> cid \<notin> fst ` set (ua_conns g) \<Longrightarrow> ua_reach (snd (admit_unauthorized cid ip g))"
| ua_drop: "ua_reach g \<Longrightarrow> ua_reach (drop_unauthorized u g)"

definition ua_addrs :: "'ip registry \<Rightarrow> nat list" where
  "ua_addrs g = map (snd \<circ> snd) (ua_conns g)"

definition ua_inv :: "'ip registry \<Rightarrow> bool" where
  "ua_inv g = (length (ua_conns g) \<le> MAX_UNAUTHORIZED_CONNS \<and>
     (\<forall>ip. held_by ip g \<le> MAX_UNAUTHORIZED_CONNS_PER_ADDR) \<and>
     distinct (map fst (ua_conns g)) \<and>
     sorted_wrt (<) (ua_addrs g) \<and> list_all (\<lambda>a. a < ua_next g) (ua_addrs g) \<and>
     (\<forall>a \<in> set (tl (ua_addrs g)). \<not> us_evicted (ua_store g a)))"

lemma ua_inv_admit:
  assumes "ua_inv g" "cid \<notin> fst ` set (ua_conns g)"
  shows "ua_inv (snd (admit_unauthorized cid ip g))"
proof -
  consider (share) "held_by ip g \<ge> MAX_UNAUTHORIZED_CONNS_PER_ADDR"
    | (full) "held_by ip g < MAX_UNAUTHORIZED_CONNS_PER_ADDR" "length (ua_conns g) \<ge> MAX_UNAUTHORIZED_CONNS"
    | (room) "held_by ip g < MAX_UNAUTHORIZED_CONNS_PER_ADDR" "length (ua_conns g) < MAX_UNAUTHORIZED_CONNS"
    by linarith
  then show ?thesis
  proof cases
    case share
    then show ?thesis using assms by (simp add: admit_unauthorized_def)
  next
    case full
    then show ?thesis using assms
      by (cases "ua_conns g") (fastforce simp: admit_unauthorized_def ua_inv_def held_by_def ua_addrs_def)+
  next
    case room
    have "\<forall>a \<in> set (tl (ua_addrs g @ [ua_next g])). a \<noteq> ua_next g \<longrightarrow> \<not> us_evicted (ua_store g a)"
      using assms by (cases "ua_addrs g") (auto simp: ua_inv_def)
    then show ?thesis using room assms
      by (auto simp: admit_unauthorized_def ua_inv_def held_by_def ua_addrs_def Let_def sorted_wrt_append list_all_iff)
  qed
qed

lemma ua_inv_drop:
  assumes "ua_inv g"
  shows "ua_inv (drop_unauthorized u g)"
proof -
  let ?P = "\<lambda>(i, _, _). i \<noteq> ui_id u"
  have tlf: "set (tl (map f (filter P xs))) \<subseteq> set (tl (map f xs))" for f P and xs :: "(int \<times> 'a \<times> nat) list"
  proof (induction xs)
    case (Cons x xs)
    have "set (tl (map f (filter P xs))) \<subseteq> f ` set xs" by (cases "filter P xs") (auto dest: filter_eq_ConsD)
    then show ?case by auto
  qed simp
  have len: "length (filter Q (filter P xs)) \<le> length (filter Q xs)" for P Q and xs :: "(int \<times> 'a \<times> nat) list"
    by (induction xs) auto
  have srt: "sorted_wrt (<) (map f (filter P xs))" if "sorted_wrt (<) (map f xs)" for f :: "_ \<Rightarrow> nat" and P and xs :: "(int \<times> 'a \<times> nat) list"
    using that by (induction xs) auto
  have "length (filter ?P (ua_conns g)) \<le> MAX_UNAUTHORIZED_CONNS"
    using assms by (auto simp: ua_inv_def intro: order_trans [OF length_filter_le])
  moreover have "length (filter (\<lambda>(_, held, _). held = ip) (filter ?P (ua_conns g))) \<le> MAX_UNAUTHORIZED_CONNS_PER_ADDR" for ip
    using assms by (auto simp: ua_inv_def held_by_def simp del: filter_filter intro: order_trans [OF len])
  ultimately show ?thesis
    using assms tlf [of "snd \<circ> snd" ?P "ua_conns g"] srt [of "snd \<circ> snd" "ua_conns g" ?P]
    by (auto simp: ua_inv_def drop_unauthorized_def held_by_def ua_addrs_def distinct_map_filter list_all_iff
        simp del: filter_filter)
qed

lemma ua_reach_inv: "ua_reach g \<Longrightarrow> ua_inv g"
proof (induction rule: ua_reach.induct)
  case ua_start
  show ?case by (simp add: ua_inv_def ua_empty_def held_by_def ua_addrs_def)
qed (simp_all add: ua_inv_admit ua_inv_drop)

text \<open>C29. At most 64 connections are ever waiting for authorisation, at most 16 of one address, and
  at most one of them is on its way out: the oldest.  An arrival is either admitted at the end of the
  queue, or the queue stays as it is; it is refused for its address's share or because the queue is
  full, and then the oldest has been told to go.\<close>

theorem unauthorized_bounded:
  assumes "ua_reach g"
  shows "length (ua_conns g) \<le> 64 \<and> held_by ip g \<le> 16 \<and>
    (\<forall>a \<in> set (tl (ua_addrs g)). \<not> us_evicted (ua_store g a)) \<and>
    (case admit_unauthorized cid ip g of
       (Some u, g') \<Rightarrow> ua_conns g' = ua_conns g @ [(cid, ip, ui_shared u)] \<and> \<not> is_evicted u g'
     | (None, g') \<Rightarrow> ua_conns g' = ua_conns g \<and>
         (held_by ip g < 16 \<longrightarrow> length (ua_conns g) = 64 \<and> us_evicted (ua_store g' (hd (ua_addrs g')))))"
proof -
  have "length (ua_conns g) \<le> MAX_UNAUTHORIZED_CONNS" "held_by ip g \<le> MAX_UNAUTHORIZED_CONNS_PER_ADDR"
    "\<forall>a \<in> set (tl (ua_addrs g)). \<not> us_evicted (ua_store g a)"
    using ua_reach_inv [OF assms] by (auto simp: ua_inv_def)
  then show ?thesis
    by (auto simp: admit_unauthorized_def MAX_UNAUTHORIZED_CONNS_def MAX_UNAUTHORIZED_CONNS_PER_ADDR_def
        is_evicted_def tell_to_go_def ua_addrs_def Let_def split: list.splits)
qed

theorem unauthorized_bounded_witness:
  "let g = snd (admit_unauthorized 1 (7 :: nat) ua_empty) in held_by 7 g = 1 \<and> length (ua_conns g) \<le> 64 \<and> held_by 7 g \<le> 16"
proof -
  let ?g = "snd (admit_unauthorized 1 (7 :: nat) ua_empty)"
  have "ua_reach ?g" by (intro ua_reach.intros) (simp add: ua_empty_def)
  from unauthorized_bounded [OF this, of 7] show ?thesis
    by (simp add: admit_unauthorized_def ua_empty_def held_by_def Let_def MAX_UNAUTHORIZED_CONNS_def
        MAX_UNAUTHORIZED_CONNS_PER_ADDR_def)
qed

section \<open>Glob patterns of the ID whitelist\<close>

text \<open>\<open>str::trim\<close> and \<open>to_lowercase\<close> on ASCII.\<close>

definition ascii_space :: "char \<Rightarrow> bool" where
  "ascii_space c = (of_char c = (32 :: nat) \<or> (9 \<le> (of_char c :: nat) \<and> (of_char c :: nat) \<le> 13))"

definition trim :: "string \<Rightarrow> string" where
  "trim s = rev (dropWhile ascii_space (rev (dropWhile ascii_space s)))"

definition to_lower_char :: "char \<Rightarrow> char" where
  "to_lower_char c = (if 65 \<le> (of_char c :: nat) \<and> (of_char c :: nat) \<le> 90 then char_of ((of_char c :: nat) + 32) else c)"

definition norm_id :: "string \<Rightarrow> string" where
  "norm_id s = map to_lower_char (trim s)"

abbreviation "STAR \<equiv> CHR ''*''"

text \<open>The matching loop on the two character vectors: \<open>None\<close> is the early \<open>return false\<close>, \<open>Some pi\<close> the
  pattern position at which the loop ends.\<close>

function glob_loop :: "string \<Rightarrow> string \<Rightarrow> nat \<Rightarrow> nat \<Rightarrow> (nat \<times> nat) option \<Rightarrow> nat option" where
  "glob_loop p t pi ti star =
     (if ti < length t then
        (if pi < length p \<and> p ! pi = STAR then glob_loop p t (pi + 1) ti (Some (pi + 1, ti))
         else if pi < length p \<and> (p ! pi = CHR ''?'' \<or> p ! pi = t ! ti) then glob_loop p t (pi + 1) (ti + 1) star
         else case star of
                Some (sp, st) \<Rightarrow> glob_loop p t sp (st + 1) (Some (sp, st + 1))
              | None \<Rightarrow> None)
      else Some pi)"
  by pat_completeness auto
termination
  by (relation "measures [\<lambda>(p, t, pi, ti, star). case star of None \<Rightarrow> Suc (length t) | Some (sp, st) \<Rightarrow> length t - min st ti,
                          \<lambda>(p, t, pi, ti, star). length t - ti, \<lambda>(p, t, pi, ti, star). length p - pi]")
    (auto split: option.splits if_splits simp: min_def)

declare glob_loop.simps [simp del]

definition wildcard_match :: "string \<Rightarrow> string \<Rightarrow> bool" where
  "wildcard_match pattern txt =
     (let p = norm_id pattern; t = norm_id txt in
      case glob_loop p t 0 0 None of
        None \<Rightarrow> False
      | Some pi \<Rightarrow> dropWhile (\<lambda>c. c = STAR) (drop pi p) = [])"

definition id_whitelist_allows :: "string list \<Rightarrow> string \<Rightarrow> bool" where
  "id_whitelist_allows id_whitelist my_id =
     (id_whitelist = [] \<or>
      (let bare_id = takeWhile (\<lambda>c. c \<noteq> CHR ''@'') my_id
       in list_ex (\<lambda>x. wildcard_match x my_id \<or> wildcard_match x bare_id) id_whitelist))"

text \<open>What a glob pattern means: a star stands for any sequence, a question mark for one character.\<close>

fun glob :: "string \<Rightarrow> string \<Rightarrow> bool" where
  "glob [] t = (t = [])"
| "glob (c # p) t =
     (if c = STAR then list_ex (\<lambda>k. glob p (drop k t)) [0..<Suc (length t)]
      else case t of [] \<Rightarrow> False | x # t' \<Rightarrow> (c = CHR ''?'' \<or> c = x) \<and> glob p t')"

lemma glob_star: "glob (STAR # p) t \<longleftrightarrow> (\<exists>k \<le> length t. glob p (drop k t))"
  by (auto simp: list_ex_iff less_Suc_eq_le Bex_def simp del: upt_Suc)

lemma glob_char: "c \<noteq> STAR \<Longrightarrow> glob (c # p) (x # t) \<longleftrightarrow> (c = CHR ''?'' \<or> c = x) \<and> glob p t"
  by simp

lemma glob_Nil: "glob p [] \<longleftrightarrow> dropWhile (\<lambda>c. c = STAR) p = []"
  by (induction p) auto

declare glob.simps [simp del]

text \<open>A piece of the pattern without a star consumes as many characters as it has.\<close>

lemma glob_seg:
  "STAR \<notin> set seg \<Longrightarrow> glob (seg @ p) t \<Longrightarrow> length seg \<le> length t \<and> glob p (drop (length seg) t)"
proof (induction seg arbitrary: t)
  case (Cons c seg)
  then obtain x t' where "t = x # t'" by (cases t) (auto simp: glob.simps)
  with Cons show ?case by (auto simp: glob_char)
qed simp

definition glob_alt :: "string \<Rightarrow> string \<Rightarrow> (nat \<times> nat) option \<Rightarrow> bool" where
  "glob_alt p t star = (case star of None \<Rightarrow> False | Some (sp, st) \<Rightarrow> \<exists>k. st < k \<and> k \<le> length t \<and> glob (drop sp p) (drop k t))"

text \<open>Since the last star the loop has advanced in step through a piece without a star.\<close>

definition glob_inv :: "string \<Rightarrow> string \<Rightarrow> nat \<Rightarrow> nat \<Rightarrow> (nat \<times> nat) option \<Rightarrow> bool" where
  "glob_inv p t pi ti star = (pi \<le> length p \<and> ti \<le> length t \<and>
     (case star of None \<Rightarrow> True | Some (sp, st) \<Rightarrow>
        \<exists>seg. drop sp p = seg @ drop pi p \<and> STAR \<notin> set seg \<and> sp + length seg = pi \<and> ti = st + length seg))"

text \<open>Alternatives left open before the piece imply a match from the current position if the piece
  is followed by a star, and are void at the end of the text.\<close>

lemma glob_alt_seg:
  assumes "glob_inv p t pi ti star" "glob_alt p t star"
  shows "\<exists>k. ti < k \<and> k \<le> length t \<and> glob (drop pi p) (drop k t)"
proof -
  from assms(2) obtain sp st k where star: "star = Some (sp, st)" and k: "st < k" "k \<le> length t" "glob (drop sp p) (drop k t)"
    by (auto simp: glob_alt_def split: option.splits)
  from assms(1) star obtain seg where seg: "drop sp p = seg @ drop pi p" "STAR \<notin> set seg" "ti = st + length seg"
    by (auto simp: glob_inv_def)
  from glob_seg [OF seg(2), of "drop pi p" "drop k t"] k seg
  have "length seg \<le> length t - k" "glob (drop pi p) (drop (length seg + k) t)" by (simp_all add: add.commute)
  with k seg(3) show ?thesis by (intro exI [of _ "length seg + k"]) auto
qed

lemma glob_alt_later:
  assumes "st < length t"
  shows "glob_alt p t (Some (sp, st)) \<longleftrightarrow> glob (drop sp p) (drop (Suc st) t) \<or> glob_alt p t (Some (sp, Suc st))"
proof -
  have "(\<exists>k. st < k \<and> Q k) \<longleftrightarrow> Q (Suc st) \<or> (\<exists>k. Suc st < k \<and> Q k)" for Q
    by (metis Suc_lessI lessI less_trans)
  from this [of "\<lambda>k. k \<le> length t \<and> glob (drop sp p) (drop k t)"] assms show ?thesis
    by (simp add: glob_alt_def)
qed

lemma glob_star_step:
  assumes "glob_inv p t pi ti star" "pi < length p" "p ! pi = STAR"
  shows "glob (drop pi p) (drop ti t) \<or> glob_alt p t star \<longleftrightarrow>
         glob (drop (pi + 1) p) (drop ti t) \<or> glob_alt p t (Some (pi + 1, ti))"
proof -
  have dp: "drop pi p = STAR # drop (pi + 1) p"
    using assms(2,3) by (simp add: Cons_nth_drop_Suc [symmetric])
  have ti: "ti \<le> length t" using assms(1) by (simp add: glob_inv_def)
  have here: "glob (drop pi p) (drop j t) \<longleftrightarrow> (\<exists>k \<ge> j. k \<le> length t \<and> glob (drop (pi + 1) p) (drop k t))" if "j \<le> length t" for j
  proof -
    have "(\<exists>k \<le> length t - j. Q (k + j)) \<longleftrightarrow> (\<exists>k \<ge> j. k \<le> length t \<and> Q k)" for Q
      using that by (metis add.commute le_add2 le_add_diff_inverse2 le_diff_conv2 le_add_diff_inverse)
    from this [of "\<lambda>k. glob (drop (pi + 1) p) (drop k t)"] show ?thesis unfolding dp glob_star by simp
  qed
  have "glob (drop pi p) (drop ti t)" if alt: "glob_alt p t star"
  proof -
    from glob_alt_seg [OF assms(1) alt] obtain k where "ti < k" "k \<le> length t" "glob (drop pi p) (drop k t)" by blast
    with here [of k] here [OF ti] show ?thesis by (meson le_trans less_imp_le)
  qed
  moreover have "(\<exists>k \<ge> ti. k \<le> length t \<and> Q k) \<longleftrightarrow> Q ti \<or> (\<exists>k. ti < k \<and> k \<le> length t \<and> Q k)" for Q
    using ti by (metis le_less order_refl)
  ultimately show ?thesis using here [OF ti] by (auto simp: glob_alt_def)
qed

lemma glob_loop_correct:
  assumes "glob_inv p t pi ti star"
  shows "(case glob_loop p t pi ti star of None \<Rightarrow> False | Some j \<Rightarrow> dropWhile (\<lambda>c. c = STAR) (drop j p) = []) \<longleftrightarrow>
         glob (drop pi p) (drop ti t) \<or> glob_alt p t star"
  using assms
proof (induction p t pi ti star rule: glob_loop.induct)
  case (1 p t pi ti star)
  let ?res = "\<lambda>r. case r of None \<Rightarrow> False | Some j \<Rightarrow> dropWhile (\<lambda>c. c = STAR) (drop j p) = []"
  consider (fin) "\<not> ti < length t"
    | (star) "ti < length t" "pi < length p" "p ! pi = STAR"
    | (char) "ti < length t" "pi < length p" "p ! pi \<noteq> STAR" "p ! pi = CHR ''?'' \<or> p ! pi = t ! ti"
    | (retry) "ti < length t" "\<not> (pi < length p \<and> p ! pi = STAR)" "\<not> (pi < length p \<and> (p ! pi = CHR ''?'' \<or> p ! pi = t ! ti))"
    by blast
  then show ?case
  proof cases
    case fin
    then have "\<not> glob_alt p t star" using glob_alt_seg [OF 1(4)] by auto
    with fin show ?thesis by (simp add: glob_loop.simps glob_Nil)
  next
    case star
    then have "glob_inv p t (pi + 1) ti (Some (pi + 1, ti))" using 1(4) by (auto simp: glob_inv_def)
    with 1(1) star have "?res (glob_loop p t (pi + 1) ti (Some (pi + 1, ti))) \<longleftrightarrow>
      glob (drop (pi + 1) p) (drop ti t) \<or> glob_alt p t (Some (pi + 1, ti))" by simp
    with star glob_star_step [OF 1(4) star(2,3)] show ?thesis by (subst glob_loop.simps) simp
  next
    case char
    have dp: "drop pi p = p ! pi # drop (pi + 1) p" and dt: "drop ti t = t ! ti # drop (ti + 1) t"
      using char by (simp_all add: Cons_nth_drop_Suc)
    have "glob_inv p t (pi + 1) (ti + 1) star"
    proof (cases star)
      case (Some x)
      obtain sp st where x: "x = (sp, st)" by (cases x)
      from 1(4) obtain seg where "drop sp p = seg @ drop pi p" "STAR \<notin> set seg" "sp + length seg = pi" "ti = st + length seg"
        unfolding Some x by (auto simp: glob_inv_def)
      then show ?thesis unfolding Some x using char dp by (auto simp: glob_inv_def intro!: exI [of _ "seg @ [p ! pi]"])
    qed (use char in \<open>simp add: glob_inv_def\<close>)
    with 1(2) char have "?res (glob_loop p t (pi + 1) (ti + 1) star) \<longleftrightarrow>
      glob (drop (pi + 1) p) (drop (ti + 1) t) \<or> glob_alt p t star" by simp
    moreover have "glob (drop pi p) (drop ti t) \<longleftrightarrow> glob (drop (pi + 1) p) (drop (ti + 1) t)"
      unfolding dp dt using char by (auto simp: glob_char)
    moreover have "glob_loop p t pi ti star = glob_loop p t (pi + 1) (ti + 1) star"
      using char by (subst glob_loop.simps) simp
    ultimately show ?thesis by simp
  next
    case retry
    have dt: "drop ti t = t ! ti # drop (ti + 1) t" using retry by (simp add: Cons_nth_drop_Suc)
    have no: "\<not> glob (drop pi p) (drop ti t)"
    proof (cases "pi < length p")
      case True
      then have "drop pi p = p ! pi # drop (pi + 1) p" by (simp add: Cons_nth_drop_Suc)
      with True retry dt show ?thesis by (auto simp: glob_char)
    qed (use retry dt in \<open>simp add: glob.simps\<close>)
    show ?thesis
    proof (cases star)
      case None
      with retry no show ?thesis by (subst glob_loop.simps) (auto simp: glob_alt_def)
    next
      case (Some x)
      obtain sp st where x: "x = (sp, st)" by (cases x)
      have st: "st < length t" "sp \<le> length p" using 1(4) retry unfolding Some x by (auto simp: glob_inv_def)
      then have "glob_inv p t sp (st + 1) (Some (sp, st + 1))" by (auto simp: glob_inv_def)
      with 1(3) retry Some x have "?res (glob_loop p t sp (st + 1) (Some (sp, st + 1))) \<longleftrightarrow>
        glob (drop sp p) (drop (st + 1) t) \<or> glob_alt p t (Some (sp, st + 1))" by simp
      moreover have "glob_loop p t pi ti star = glob_loop p t sp (st + 1) (Some (sp, st + 1))"
        unfolding Some x using retry by (subst glob_loop.simps) auto
      ultimately show ?thesis using no glob_alt_later [OF st(1)] unfolding Some x by simp
    qed
  qed
qed

text \<open>C27. The backtracking matcher decides exactly what the pattern means, and an ID is let through
  exactly when the list is empty or a pattern matches it as reported or without its server part.\<close>

theorem whitelist_matches_globs:
  "wildcard_match pattern txt = glob (norm_id pattern) (norm_id txt) \<and>
   id_whitelist_allows ps my_id = (ps = [] \<or> (\<exists>x. x \<in> set ps \<and>
     (glob (norm_id x) (norm_id my_id) \<or> glob (norm_id x) (norm_id (takeWhile (\<lambda>c. c \<noteq> CHR ''@'') my_id)))))"
proof -
  have "wildcard_match p t = glob (norm_id p) (norm_id t)" for p t
    using glob_loop_correct [of "norm_id p" "norm_id t" 0 0 None]
    by (simp add: wildcard_match_def glob_inv_def glob_alt_def Let_def)
  then show ?thesis by (auto simp: id_whitelist_allows_def list_ex_iff Let_def)
qed

section \<open>The throttle on failed attempts\<close>

text \<open>An entry is the minute of the last failure, the failures in that minute and all failures.  Its
  counters are \<open>i32\<close>; they stay far below the limit of the type because attempts are refused first.\<close>

type_synonym fail_entry = "int \<times> int \<times> int"
type_synonym failures = "(string \<times> fail_entry) list"

definition FAILURE_IDX_ID_WHITELIST :: nat where "FAILURE_IDX_ID_WHITELIST = 2"
definition ID_WHITELIST_FAILURE_DECAY_MINUTES :: int where "ID_WHITELIST_FAILURE_DECAY_MINUTES = 10"

text \<open>\<open>Ipv6Addr::from_str\<close> and \<open>Ipv6Addr::to_string\<close>.\<close>

record ipv6_lib =
  il_parse :: "string \<Rightarrow> u128 option"
  il_show :: "u128 \<Rightarrow> string"

record login_state =
  ls_failures :: "failures list"
  ls_os :: failure_state

datatype alarm = ExceedIPv6PrefixAttempts | ExceedThirtyAttempts | SixAttemptsWithinOneMinute | IdWhitelistAlarm
  | OsCredentialAlarm alarm_audit_type | TerminalOsLoginConcurrency

datatype login_out = LoginError string | Alarm alarm

definition mask_u128 :: "u128 \<Rightarrow> nat \<Rightarrow> u128" where
  "mask_u128 addr pre = addr AND (if pre = 0 \<or> pre > 128 then 0 else push_bit (128 - pre) (NOT 0))"

definition get_ipv6_prefixes :: "ipv6_lib \<Rightarrow> string \<Rightarrow> (string \<times> string \<times> string) option" where
  "get_ipv6_prefixes lib ip =
     (case il_parse lib (trim (takeWhile (\<lambda>c. c \<noteq> CHR ''%'') ip)) of
        None \<Rightarrow> None
      | Some a \<Rightarrow> Some (il_show lib (mask_u128 a 64) @ ''/64'', il_show lib (mask_u128 a 56) @ ''/56'',
                       il_show lib (mask_u128 a 48) @ ''/48''))"

definition failure_keys :: "ipv6_lib \<Rightarrow> string \<Rightarrow> string list" where
  "failure_keys lib ip =
     ip # (case get_ipv6_prefixes lib ip of None \<Rightarrow> [] | Some (p64, p56, p48) \<Rightarrow> [p64, p56, p48])"

definition bump_failure_entry :: "fail_entry \<Rightarrow> int \<Rightarrow> fail_entry" where
  "bump_failure_entry cur time =
     (case cur of (c0, c1, c2) \<Rightarrow> if c0 = time then (c0, c1 + 1, c2 + 1) else (time, 1, c2 + 1))"

definition entry_of :: "failures \<Rightarrow> string \<Rightarrow> fail_entry" where
  "entry_of m k = (case hm_get m k of None \<Rightarrow> (0, 0, 0) | Some e \<Rightarrow> e)"

definition bump_key :: "int \<Rightarrow> string \<Rightarrow> failures \<Rightarrow> failures" where
  "bump_key time k m = hm_insert k (bump_failure_entry (entry_of m k) time) m"

definition update_failure_with_scope ::
  "ipv6_lib \<Rightarrow> string \<Rightarrow> int \<Rightarrow> fail_entry \<times> int \<Rightarrow> bool \<Rightarrow> nat \<Rightarrow> failure_scope \<Rightarrow> login_state \<Rightarrow> login_state" where
  "update_failure_with_scope lib ip now_ms ft remv i scope st =
     (case ft of (failure, time) \<Rightarrow>
        if scope = TerminalOsLogin then
          (if remv then st else st\<lparr>ls_os := record_os_credential_failure scope now_ms (ls_os st)\<rparr>)
        else let m = ls_failures st ! i in
          if remv then
            (if fst failure \<noteq> 0 then
               (case get_ipv6_prefixes lib ip of
                  Some (p64, p56, p48) \<Rightarrow>
                    st\<lparr>ls_failures := (ls_failures st)[i := hm_remove ip (hm_remove p48 (hm_remove p56 (hm_remove p64 m)))]\<rparr>
                | None \<Rightarrow> st\<lparr>ls_failures := (ls_failures st)[i := hm_remove ip m]\<rparr>)
             else st)
          else
            (case get_ipv6_prefixes lib ip of
               Some (p64, p56, p48) \<Rightarrow>
                 st\<lparr>ls_failures := (ls_failures st)[i := bump_key time ip (fold (bump_key time) [p64, p56, p48] m)]\<rparr>
             | None \<Rightarrow> st\<lparr>ls_failures := (ls_failures st)[i := bump_key time ip m]\<rparr>))"

definition check_failure_ipv6_prefix ::
  "failures \<Rightarrow> int \<Rightarrow> string \<Rightarrow> string \<Rightarrow> int \<Rightarrow> ((fail_entry \<times> int) \<times> bool) option \<times> login_out list" where
  "check_failure_ipv6_prefix m time pre prefix_num thresh =
     (let failure_prefix = entry_of m pre in
      if snd (snd failure_prefix) > thresh
      then (Some ((failure_prefix, time), False),
            [LoginError (''Too many wrong attempts for IPv6 prefix /'' @ prefix_num), Alarm ExceedIPv6PrefixAttempts])
      else (None, []))"

text \<open>\<open>(get_time() / 60_000) as i32\<close>: division towards zero, then the low 32 bits.\<close>

definition minute_of :: "int \<Rightarrow> int" where
  "minute_of now_ms = sint (word_of_int (if now_ms < 0 then - (- now_ms div 60000) else now_ms div 60000) :: i32)"

definition check_direct :: "failures \<Rightarrow> int \<Rightarrow> string \<Rightarrow> ((fail_entry \<times> int) \<times> bool) \<times> login_out list" where
  "check_direct m time ip =
     (let failure = entry_of m ip in
      if snd (snd failure) > 30 then
        (((failure, time), False), [LoginError ''Too many wrong attempts'', Alarm ExceedThirtyAttempts])
      else if time = fst failure \<and> fst (snd failure) > 6 then
        (((failure, time), False), [LoginError ''Please try 1 minute later'', Alarm SixAttemptsWithinOneMinute])
      else (((failure, time), True), []))"

definition check_os_scope ::
  "failure_scope \<Rightarrow> int \<Rightarrow> login_state \<Rightarrow> (((fail_entry \<times> int) \<times> bool) \<times> login_out list) \<times> login_state" where
  "check_os_scope scope now_ms st =
     (case evaluate_os_credential_policy scope now_ms (ls_os st) of
        (d, os) \<Rightarrow>
          (((((0, 0, 0), minute_of now_ms), pd_allowed d),
            (if pd_allowed d then []
             else (case pd_login_error d of Some e \<Rightarrow> [LoginError e] | None \<Rightarrow> []) @
                  (case pd_audit d of Some a \<Rightarrow> [Alarm (OsCredentialAlarm a)] | None \<Rightarrow> []))),
           st\<lparr>ls_os := os\<rparr>))"

definition check_failure_with_scope ::
  "ipv6_lib \<Rightarrow> string \<Rightarrow> int \<Rightarrow> nat \<Rightarrow> failure_scope \<Rightarrow> login_state \<Rightarrow>
   (((fail_entry \<times> int) \<times> bool) \<times> login_out list) \<times> login_state" where
  "check_failure_with_scope lib ip now_ms i scope st =
     (if scope = TerminalOsLogin then check_os_scope scope now_ms st
      else let time = minute_of now_ms; m = ls_failures st ! i in
        ((case get_ipv6_prefixes lib ip of
            None \<Rightarrow> check_direct m time ip
          | Some (p64, p56, p48) \<Rightarrow>
              (case check_failure_ipv6_prefix m time p64 ''64'' 60 of
                 (Some r, outs) \<Rightarrow> (r, outs)
               | (None, _) \<Rightarrow>
                   (case check_failure_ipv6_prefix m time p56 ''56'' 80 of
                      (Some r, outs) \<Rightarrow> (r, outs)
                    | (None, _) \<Rightarrow>
                        (case check_failure_ipv6_prefix m time p48 ''48'' 100 of
                           (Some r, outs) \<Rightarrow> (r, outs)
                         | (None, _) \<Rightarrow> check_direct m time ip)))), st))"

definition check_failure ::
  "ipv6_lib \<Rightarrow> string \<Rightarrow> int \<Rightarrow> nat \<Rightarrow> login_state \<Rightarrow> (((fail_entry \<times> int) \<times> bool) \<times> login_out list) \<times> login_state" where
  "check_failure lib ip now_ms i st = check_failure_with_scope lib ip now_ms i DefaultScope st"

definition update_failure :: "ipv6_lib \<Rightarrow> string \<Rightarrow> int \<Rightarrow> fail_entry \<times> int \<Rightarrow> bool \<Rightarrow> nat \<Rightarrow> login_state \<Rightarrow> login_state" where
  "update_failure lib ip now_ms ft remv i st = update_failure_with_scope lib ip now_ms ft remv i DefaultScope st"

text \<open>\<open>i32::saturating_sub\<close>.\<close>

definition sat_sub_i32 :: "int \<Rightarrow> int \<Rightarrow> int" where
  "sat_sub_i32 a b = clampv (- (2 ^ 31)) (2 ^ 31 - 1) (a - b)"

definition decay_stale_failures :: "string list \<Rightarrow> int \<Rightarrow> int \<Rightarrow> failures \<Rightarrow> failures" where
  "decay_stale_failures keys now window m =
     fold (\<lambda>k m. case hm_get m k of
                   Some v \<Rightarrow> if sat_sub_i32 now (fst v) \<ge> window then hm_remove k m else m
                 | None \<Rightarrow> m) keys m"

definition clear_failures :: "string list \<Rightarrow> failures \<Rightarrow> failures" where
  "clear_failures keys m = fold hm_remove keys m"

definition decay_id_whitelist_failures :: "ipv6_lib \<Rightarrow> string \<Rightarrow> int \<Rightarrow> login_state \<Rightarrow> login_state" where
  "decay_id_whitelist_failures lib ip now_ms st =
     st\<lparr>ls_failures := (ls_failures st)[FAILURE_IDX_ID_WHITELIST :=
        decay_stale_failures (failure_keys lib ip) (minute_of now_ms) ID_WHITELIST_FAILURE_DECAY_MINUTES
          (ls_failures st ! FAILURE_IDX_ID_WHITELIST)]\<rparr>"

definition clear_id_whitelist_failures :: "ipv6_lib \<Rightarrow> string \<Rightarrow> login_state \<Rightarrow> login_state" where
  "clear_id_whitelist_failures lib ip st =
     st\<lparr>ls_failures := (ls_failures st)[FAILURE_IDX_ID_WHITELIST :=
        clear_failures (failure_keys lib ip) (ls_failures st ! FAILURE_IDX_ID_WHITELIST)]\<rparr>"

text \<open>\<open>check_id_whitelist\<close>: the value of the option, the ID the peer reports.\<close>

definition check_id_whitelist ::
  "ipv6_lib \<Rightarrow> string \<Rightarrow> int \<Rightarrow> string \<Rightarrow> string \<Rightarrow> login_state \<Rightarrow> bool \<times> login_out list \<times> login_state" where
  "check_id_whitelist lib ip now_ms opt my_id st =
     (let id_whitelist = filter (\<lambda>x. x \<noteq> []) (map trim (split_on CHR '','' opt)) in
      if id_whitelist = [] then (True, [], st)
      else case check_failure lib ip now_ms FAILURE_IDX_ID_WHITELIST (decay_id_whitelist_failures lib ip now_ms st) of
        (((failure, res), outs), st1) \<Rightarrow>
          if \<not> res then (False, outs, st1)
          else if id_whitelist_allows id_whitelist my_id then (True, outs, st1)
          else (False, outs @ [LoginError ''Your ID is blocked by the peer'', Alarm IdWhitelistAlarm],
                update_failure lib ip now_ms failure False FAILURE_IDX_ID_WHITELIST st1))"

section \<open>Guesses are bounded\<close>

text \<open>An attempt as the login and the two-factor branch of \<open>on_message\<close> make it: the check, then, if
  it passes, the examination of the credential and the update of the counters.\<close>

record attempt =
  at_ip :: string
  at_now :: int
  at_ok :: bool

definition guarded_attempt :: "ipv6_lib \<Rightarrow> nat \<Rightarrow> attempt \<Rightarrow> login_state \<Rightarrow> bool \<times> login_state" where
  "guarded_attempt lib i a st =
     (case check_failure lib (at_ip a) (at_now a) i st of
        (((failure, res), _), st1) \<Rightarrow>
          if \<not> res then (False, st1)
          else (True, update_failure lib (at_ip a) (at_now a) failure (at_ok a) i st1))"

fun attempts :: "ipv6_lib \<Rightarrow> nat \<Rightarrow> attempt list \<Rightarrow> login_state \<Rightarrow> attempt list \<times> login_state" where
  "attempts lib i [] st = ([], st)"
| "attempts lib i (a # as) st =
     (case guarded_attempt lib i a st of
        (examined, st1) \<Rightarrow>
          (case attempts lib i as st1 of (es, st2) \<Rightarrow> ((if examined then a # es else es), st2)))"

abbreviation "bucket st i \<equiv> ls_failures st ! i"

definition fkeys :: "ipv6_lib \<Rightarrow> attempt \<Rightarrow> string set" where
  "fkeys lib a = set (failure_keys lib (at_ip a))"

lemma check_failure_state [simp]: "snd (check_failure lib ip now i st) = st"
  by (simp add: check_failure_def check_failure_with_scope_def Let_def)

text \<open>What a passed check says about the counters of the attempt's keys.\<close>

definition passes :: "ipv6_lib \<Rightarrow> attempt \<Rightarrow> failures \<Rightarrow> bool" where
  "passes lib a m =
     ((case get_ipv6_prefixes lib (at_ip a) of None \<Rightarrow> True
       | Some (p64, p56, p48) \<Rightarrow> snd (snd (entry_of m p64)) \<le> 60 \<and> snd (snd (entry_of m p56)) \<le> 80 \<and> snd (snd (entry_of m p48)) \<le> 100) \<and>
      (case entry_of m (at_ip a) of (c0, c1, c2) \<Rightarrow> c2 \<le> 30 \<and> (c0 = minute_of (at_now a) \<longrightarrow> c1 \<le> 6)))"

lemma check_failure_passes:
  "snd (fst (fst (check_failure lib (at_ip a) (at_now a) i st))) = passes lib a (bucket st i)"
  by (cases "get_ipv6_prefixes lib (at_ip a)")
    (auto simp: check_failure_def check_failure_with_scope_def check_failure_ipv6_prefix_def check_direct_def passes_def
      Let_def split: prod.splits)

lemma check_failure_time:
  "snd (fst (fst (check_failure lib ip now i st))) \<Longrightarrow>
   fst (fst (fst (check_failure lib ip now i st))) = (entry_of (bucket st i) ip, minute_of now)"
  by (cases "get_ipv6_prefixes lib ip")
    (auto simp: check_failure_def check_failure_with_scope_def check_failure_ipv6_prefix_def check_direct_def
      Let_def split: prod.splits if_splits)

text \<open>What bumping does to the entry of a key.\<close>

lemma entry_bump_key: "entry_of (bump_key t k m) k' = (if k' = k then bump_failure_entry (entry_of m k) t else entry_of m k')"
  by (simp add: bump_key_def entry_of_def hm_simps)

definition bumped :: "int \<Rightarrow> fail_entry \<Rightarrow> fail_entry \<Rightarrow> bool" where
  "bumped t e e' = (fst e' = t \<and> snd (snd e) + 1 \<le> snd (snd e') \<and> (fst e = t \<longrightarrow> fst (snd e) + 1 \<le> fst (snd e')) \<and>
     (fst e \<noteq> t \<longrightarrow> 1 \<le> fst (snd e')))"

lemma bumped_once: "bumped t e (bump_failure_entry e t)"
  by (cases e) (simp add: bumped_def bump_failure_entry_def)

lemma bumped_again: "bumped t e e' \<Longrightarrow> bumped t e (bump_failure_entry e' t)"
  by (cases e; cases e') (auto simp: bumped_def bump_failure_entry_def)

lemma fold_bump_keeps: "bumped t e (entry_of m k) \<Longrightarrow> bumped t e (entry_of (fold (bump_key t) ks m) k)"
proof (induction ks arbitrary: m)
  case (Cons x ks)
  then have "bumped t e (entry_of (bump_key t x m) k)" by (cases "k = x") (simp_all add: entry_bump_key bumped_again)
  with Cons.IH show ?case by simp
qed simp

lemma fold_bump_out: "k \<notin> set ks \<Longrightarrow> entry_of (fold (bump_key t) ks m) k = entry_of m k"
  by (induction ks arbitrary: m) (auto simp: entry_bump_key)

lemma fold_bump_in: "k \<in> set ks \<Longrightarrow> bumped t (entry_of m k) (entry_of (fold (bump_key t) ks m) k)"
proof (induction ks arbitrary: m)
  case (Cons x ks)
  show ?case
  proof (cases "k = x")
    case True
    then show ?thesis by (simp add: fold_bump_keeps entry_bump_key bumped_once)
  next
    case False
    with Cons have "bumped t (entry_of (bump_key t x m) k) (entry_of (fold (bump_key t) ks (bump_key t x m)) k)" by simp
    with False show ?thesis by (simp add: entry_bump_key)
  qed
qed simp

lemma entry_remove_out: "k \<noteq> k' \<Longrightarrow> entry_of (hm_remove k' m) k = entry_of m k"
  by (simp add: entry_of_def hm_simps)

lemma update_failure_bump:
  assumes "i < length (ls_failures st)"
  shows "\<exists>ks. set ks = set (failure_keys lib ip) \<and>
    bucket (update_failure lib ip now (f, t) False i st) i = fold (bump_key t) ks (bucket st i)"
proof (cases "get_ipv6_prefixes lib ip")
  case None
  then show ?thesis using assms
    by (intro exI [of _ "[ip]"]) (simp add: update_failure_def update_failure_with_scope_def failure_keys_def Let_def)
next
  case (Some x)
  obtain p64 p56 p48 where "x = (p64, p56, p48)" by (cases x)
  with Some show ?thesis using assms
    by (intro exI [of _ "[p64, p56, p48, ip]"])
      (auto simp: update_failure_def update_failure_with_scope_def failure_keys_def Let_def)
qed

lemma update_failure_remove:
  assumes "i < length (ls_failures st)" "k \<notin> set (failure_keys lib ip)"
  shows "entry_of (bucket (update_failure lib ip now (f, t) True i st) i) k = entry_of (bucket st i) k"
  using assms by (auto simp: update_failure_def update_failure_with_scope_def failure_keys_def entry_remove_out Let_def
      split: option.splits prod.splits)

lemma update_failure_length [simp]: "length (ls_failures (update_failure lib ip now ft r i st)) = length (ls_failures st)"
  by (auto simp: update_failure_def update_failure_with_scope_def Let_def split: option.splits prod.splits)

lemma guarded_attempt_cases:
  assumes "guarded_attempt lib i a st = (ex, st')" "i < length (ls_failures st)"
  shows "ex = passes lib a (bucket st i) \<and> length (ls_failures st') = length (ls_failures st) \<and>
    (\<not> ex \<longrightarrow> st' = st) \<and>
    (k \<notin> fkeys lib a \<longrightarrow> entry_of (bucket st' i) k = entry_of (bucket st i) k) \<and>
    (ex \<and> \<not> at_ok a \<and> k \<in> fkeys lib a \<longrightarrow> bumped (minute_of (at_now a)) (entry_of (bucket st i) k) (entry_of (bucket st' i) k))"
proof -
  obtain f res outs where c: "check_failure lib (at_ip a) (at_now a) i st = (((f, res), outs), st)"
    by (metis check_failure_state prod.collapse)
  have res: "res = passes lib a (bucket st i)" using check_failure_passes [of lib a i st] c by simp
  show ?thesis
  proof (cases res)
    case False
    then show ?thesis using assms res c by (auto simp: guarded_attempt_def)
  next
    case True
    then have f: "f = (entry_of (bucket st i) (at_ip a), minute_of (at_now a))"
      using check_failure_time [of lib "at_ip a" "at_now a" i st] c by simp
    have st': "ex" "st' = update_failure lib (at_ip a) (at_now a) f (at_ok a) i st"
      using assms(1) c True by (auto simp: guarded_attempt_def)
    show ?thesis
    proof (cases "at_ok a")
      case True
      then show ?thesis using st' f res update_failure_remove [OF assms(2)] \<open>res\<close> by (simp add: fkeys_def)
    next
      case False
      obtain ks where "set ks = fkeys lib a" "bucket st' i = fold (bump_key (minute_of (at_now a))) ks (bucket st i)"
        using update_failure_bump [OF assms(2), of lib "at_ip a" "at_now a" "fst f" "snd f"] st' f False by (auto simp: fkeys_def)
      then show ?thesis using st' f res \<open>res\<close> False by (auto simp: fold_bump_out fold_bump_in)
    qed
  qed
qed

lemma attempts_subset: "set (fst (attempts lib i as st)) \<subseteq> set as"
proof (induction as arbitrary: st)
  case (Cons a as)
  obtain ex st1 where "guarded_attempt lib i a st = (ex, st1)" by fastforce
  with Cons.IH [of st1] show ?case by (auto split: prod.splits)
qed simp

text \<open>How many examined attempts touch a key, when every check of an attempt that touches it refuses
  once the key's total exceeds \<open>lim\<close>.\<close>

lemma examined_total_bound:
  assumes "i < length (ls_failures st)" "attempts lib i as st = (es, st')"
    and "\<forall>a \<in> set as. k \<in> fkeys lib a \<longrightarrow> \<not> at_ok a"
    and "\<forall>a \<in> set as. \<forall>m. k \<in> fkeys lib a \<longrightarrow> passes lib a m \<longrightarrow> snd (snd (entry_of m k)) \<le> lim"
  shows "int (length (filter (\<lambda>a. k \<in> fkeys lib a) es)) \<le> max 0 (lim + 1 - snd (snd (entry_of (bucket st i) k)))"
  using assms
proof (induction as arbitrary: st es)
  case (Cons a as)
  obtain ex st1 where g: "guarded_attempt lib i a st = (ex, st1)" by fastforce
  obtain es1 where r: "attempts lib i as st1 = (es1, st')" and es: "es = (if ex then a # es1 else es1)"
    using Cons.prems(2) g by (auto split: prod.splits)
  note gc = guarded_attempt_cases [OF g Cons.prems(1), of k]
  have IH: "int (length (filter (\<lambda>a. k \<in> fkeys lib a) es1)) \<le> max 0 (lim + 1 - snd (snd (entry_of (bucket st1 i) k)))"
    using Cons.IH [of st1 es1] Cons.prems r gc by simp
  show ?case
  proof (cases "ex \<and> k \<in> fkeys lib a")
    case True
    then have "snd (snd (entry_of (bucket st i) k)) \<le> lim" "snd (snd (entry_of (bucket st i) k)) + 1 \<le> snd (snd (entry_of (bucket st1 i) k))"
      using gc Cons.prems(3,4) by (auto simp: bumped_def)
    with IH True es show ?thesis by simp
  next
    case False
    then have "snd (snd (entry_of (bucket st1 i) k)) = snd (snd (entry_of (bucket st i) k))" using gc by auto
    with IH False es show ?thesis by auto
  qed
qed simp

text \<open>The same for one minute of an address, when the clock does not run backwards.\<close>

lemma examined_minute_bound:
  assumes "i < length (ls_failures st)" "attempts lib i as st = (es, st')"
    and "\<forall>a \<in> set as. ip \<in> fkeys lib a \<longleftrightarrow> at_ip a = ip" "\<forall>a \<in> set as. at_ip a = ip \<longrightarrow> \<not> at_ok a"
    and "sorted (map (minute_of \<circ> at_now) as)" "\<forall>a \<in> set as. fst (entry_of (bucket st i) ip) \<le> minute_of (at_now a) \<or> entry_of (bucket st i) ip = (0, 0, 0)"
  shows "int (length (filter (\<lambda>a. at_ip a = ip \<and> minute_of (at_now a) = m) es)) \<le>
    (if fst (entry_of (bucket st i) ip) = m then max 0 (7 - fst (snd (entry_of (bucket st i) ip))) else 7)"
  using assms
proof (induction as arbitrary: st es)
  case (Cons a as)
  obtain ex st1 where g: "guarded_attempt lib i a st = (ex, st1)" by fastforce
  obtain es1 where r: "attempts lib i as st1 = (es1, st')" and es: "es = (if ex then a # es1 else es1)"
    using Cons.prems(2) g by (auto split: prod.splits)
  note gc = guarded_attempt_cases [OF g Cons.prems(1), of ip]
  let ?t = "minute_of (at_now a)" and ?e = "entry_of (bucket st i) ip" and ?e1 = "entry_of (bucket st1 i) ip"
  show ?case
  proof (cases "ex \<and> at_ip a = ip")
    case True
    then have b: "bumped ?t ?e ?e1" using gc Cons.prems(3,4) by auto
    have "passes lib a (bucket st i)" using gc True by simp
    then have le: "fst ?e = ?t \<longrightarrow> fst (snd ?e) \<le> 6" using True by (auto simp: passes_def split: prod.splits)
    have IH: "int (length (filter (\<lambda>a. at_ip a = ip \<and> minute_of (at_now a) = m) es1)) \<le>
      (if fst ?e1 = m then max 0 (7 - fst (snd ?e1)) else 7)"
      using Cons.IH [of st1 es1] Cons.prems r gc b by (simp add: bumped_def)
    have later: "filter (\<lambda>a. at_ip a = ip \<and> minute_of (at_now a) = m) es1 = []" if "m < ?t"
    proof -
      have "set es1 \<subseteq> set as" using attempts_subset [of lib i as st1] r by simp
      with that Cons.prems(5) show ?thesis by (fastforce simp: filter_empty_conv)
    qed
    show ?thesis using IH b le True es Cons.prems(6) later by (auto simp: bumped_def)
  next
    case False
    have same: "?e1 = ?e" using gc False Cons.prems(3) by auto
    have "int (length (filter (\<lambda>a. at_ip a = ip \<and> minute_of (at_now a) = m) es1)) \<le>
      (if fst ?e1 = m then max 0 (7 - fst (snd ?e1)) else 7)"
      using Cons.IH [of st1 es1] Cons.prems r gc same by simp
    then show ?thesis using False es same by auto
  qed
qed simp


lemma fkeys_ip:
  assumes "CHR ''/'' \<notin> set ip"
  shows "ip \<in> fkeys lib a \<longleftrightarrow> at_ip a = ip"
  using assms by (auto simp: fkeys_def failure_keys_def get_ipv6_prefixes_def split: option.splits)

lemma fkeys_prefix:
  assumes "k \<in> fkeys lib a" "CHR ''/'' \<notin> set (at_ip a)" "CHR ''/'' \<in> set k"
  obtains x where "get_ipv6_prefixes lib (at_ip a) = Some (il_show lib (mask_u128 x 64) @ ''/64'',
      il_show lib (mask_u128 x 56) @ ''/56'', il_show lib (mask_u128 x 48) @ ''/48'')"
    "k = il_show lib (mask_u128 x 64) @ ''/64'' \<or> k = il_show lib (mask_u128 x 56) @ ''/56'' \<or> k = il_show lib (mask_u128 x 48) @ ''/48''"
  using assms by (auto simp: fkeys_def failure_keys_def get_ipv6_prefixes_def split: option.splits)

text \<open>The limit of a key of the table.\<close>

definition key_limit :: "string \<Rightarrow> int" where
  "key_limit k = (if CHR ''/'' \<notin> set k then 30 else if last k = CHR ''4'' then 60 else if last k = CHR ''6'' then 80 else 100)"

lemma passes_key_limit:
  assumes "k \<in> fkeys lib a" "CHR ''/'' \<notin> set (at_ip a)" "passes lib a m"
  shows "snd (snd (entry_of m k)) \<le> key_limit k"
proof (cases "CHR ''/'' \<in> set k")
  case True
  from fkeys_prefix [OF assms(1,2) True] obtain x where
    x: "get_ipv6_prefixes lib (at_ip a) = Some (il_show lib (mask_u128 x 64) @ ''/64'',
      il_show lib (mask_u128 x 56) @ ''/56'', il_show lib (mask_u128 x 48) @ ''/48'')"
    "k = il_show lib (mask_u128 x 64) @ ''/64'' \<or> k = il_show lib (mask_u128 x 56) @ ''/56'' \<or> k = il_show lib (mask_u128 x 48) @ ''/48''" .
  then show ?thesis using assms(3) True by (auto simp: passes_def key_limit_def)
next
  case False
  then have "at_ip a = k" using assms(1) by (simp add: fkeys_ip)
  with False assms(3) show ?thesis by (auto simp: passes_def key_limit_def split: prod.splits)
qed


definition no_ipv6 :: ipv6_lib where
  "no_ipv6 = \<lparr>il_parse = (\<lambda>_. None), il_show = (\<lambda>_. [])\<rparr>"

definition login_state_new :: login_state where
  "login_state_new = \<lparr>ls_failures = [[], [], []], ls_os = failure_state_default\<rparr>"


end
