(* ===== verification/Password_Auth.thy ===== *)
theory Password_Auth
  imports Password_Storage Login_Policy
begin

text \<open>
  The login of a connection, \<open>src/server/connection.rs\<close> with the policies of
  \<open>libs/hbb_common/src/password_security.rs\<close> and the answer of the controller in \<open>src/client.rs\<close>:
  which password the peer has proved to know, the two-factor step, the rotation of the temporary
  password, and the branch of \<open>on_message\<close> that decides about a login request.

  \<^item> \<open>auth_conn\<close> holds the fields of a connection that the login uses, \<open>auth_state\<close> the process-wide
    state, \<open>auth_env\<close> what is read or drawn from outside (options, clock, random passwords, the
    outcome of opening a port-forward target, the terminal service the peer asked for).
  \<^item> What the peer and the connection manager get to see is a list of outputs.
\<close>

section \<open>Policies\<close>

datatype verification_method = OnlyUseTemporaryPassword | OnlyUsePermanentPassword | UseBothPasswords

datatype approve_mode = ApproveBoth | ApprovePassword | ApproveClick

definition verification_method_of :: "string \<Rightarrow> verification_method" where
  "verification_method_of m =
     (if m = ''use-temporary-password'' then OnlyUseTemporaryPassword
      else if m = ''use-permanent-password'' then OnlyUsePermanentPassword else UseBothPasswords)"

definition approve_mode_of :: "string \<Rightarrow> approve_mode" where
  "approve_mode_of m = (if m = ''password'' then ApprovePassword else if m = ''click'' then ApproveClick else ApproveBoth)"

definition temporary_password_length :: "string \<Rightarrow> nat" where
  "temporary_password_length len = (if len = ''8'' then 8 else if len = ''10'' then 10 else 6)"

section \<open>State\<close>

type_synonym session_key = "string \<times> string \<times> nat"

record auth_session =
  se_last_recv :: int
  se_random_password :: bytes
  se_tfa :: bool

datatype primary_auth = PaNone | PaClick | PaTemporaryPassword | PaPermanentPassword | PaSwitchSides

datatype two_factor = TfNone | TfTotp | TfTrustedDevice

record auth_conn =
  ac_ip :: string
  ac_salt :: bytes
  ac_challenge :: bytes
  ac_lr_password :: bytes
  ac_key :: session_key
  ac_platform :: string
  ac_require_2fa :: bool
  ac_awaiting_2fa :: bool
  ac_from_switch :: bool
  ac_terminal :: bool
  ac_terminal_token :: "bool option"
  ac_os_username :: string
  ac_authorized :: bool
  ac_has_place :: bool
  ac_primary :: primary_auth
  ac_two_factor :: two_factor

record auth_state =
  as_config :: config
  as_preset :: "bytes \<times> bytes"
  as_temporary :: bytes
  as_temp_failures :: "bytes \<times> int"
  as_sessions :: "(session_key \<times> auth_session) list"
  as_login :: login_state
  as_trusted :: "trusted_device list"

record auth_env =
  ae_crypto :: crypto
  ae_machine :: machine
  ae_ipv6 :: ipv6_lib
  ae_verification_method :: string
  ae_approve_mode :: string
  ae_allow_logon_screen_password :: bool
  ae_now :: int
  ae_auto_password :: bytes
  ae_rotated_password :: bytes
  ae_windows :: bool
  ae_os_login_gate_free :: bool
  ae_token :: "string + bool"
  ae_service_is_user :: "bool option"
  ae_port_forward_error :: "string option"
  ae_peer_since_1_2_0 :: bool
  ae_2fa_code_ok :: "bool option"
  ae_trusted_enabled :: bool
  ae_hwid :: bytes
  ae_json_len :: "trusted_device list \<Rightarrow> nat"

datatype auth_out = Out login_out | StartCm bool | LogonResponse

definition temporary_enabled :: "auth_env \<Rightarrow> bool" where
  "temporary_enabled e = (verification_method_of (ae_verification_method e) \<noteq> OnlyUsePermanentPassword)"

definition permanent_enabled :: "auth_env \<Rightarrow> bool" where
  "permanent_enabled e = (verification_method_of (ae_verification_method e) \<noteq> OnlyUseTemporaryPassword)"

definition has_valid_password :: "auth_env \<Rightarrow> auth_state \<Rightarrow> bool" where
  "has_valid_password e st =
     (temporary_enabled e \<and> as_temporary st \<noteq> [] \<or>
      permanent_enabled e \<and> has_permanent_password (ae_crypto e) (ae_machine e) (as_preset st) (as_config st))"

definition hide_cm :: "auth_env \<Rightarrow> bool \<Rightarrow> bool" where
  "hide_cm e allow_hide_cm =
     (approve_mode_of (ae_approve_mode e) = ApprovePassword \<and>
      verification_method_of (ae_verification_method e) = OnlyUsePermanentPassword \<and> allow_hide_cm)"

section \<open>Checking a response\<close>

text \<open>The controller's answer to a challenge, \<open>handle_login_from_ui\<close> with a typed password.\<close>

definition client_response :: "crypto \<Rightarrow> bytes \<Rightarrow> bytes \<Rightarrow> bytes \<Rightarrow> bytes" where
  "client_response cr password salt challenge = cr_sha256 cr (cr_sha256 cr (password @ salt) @ challenge)"

definition verify_h1 :: "crypto \<Rightarrow> auth_conn \<Rightarrow> bytes \<Rightarrow> bool" where
  "verify_h1 cr c h1 = (cr_sha256 cr (h1 @ ac_challenge c) = ac_lr_password c)"

definition validate_password_plain :: "crypto \<Rightarrow> auth_conn \<Rightarrow> bytes \<Rightarrow> bool" where
  "validate_password_plain cr c password =
     (if password = [] then False else verify_h1 cr c (cr_sha256 cr (password @ ac_salt c)))"

definition validate_password_storage :: "crypto \<Rightarrow> machine \<Rightarrow> auth_conn \<Rightarrow> bytes \<Rightarrow> bool" where
  "validate_password_storage cr mc c storage =
     (if storage = [] then False
      else case decode_permanent_password_h1_from_storage cr mc storage of
             Some h1 \<Rightarrow> verify_h1 cr c h1
           | None \<Rightarrow> validate_password_plain cr c storage)"

definition validate_preset_password_storage :: "crypto \<Rightarrow> auth_conn \<Rightarrow> bytes \<Rightarrow> bytes \<Rightarrow> bool" where
  "validate_preset_password_storage cr c storage salt =
     (if salt = [] then validate_password_plain cr c storage
      else case decode_preset_password_h1_from_storage cr storage of
             None \<Rightarrow> False
           | Some h1 \<Rightarrow> verify_h1 cr c h1)"

section \<open>The temporary password\<close>

definition MAX_CONSECUTIVE_FAILURES :: int where "MAX_CONSECUTIVE_FAILURES = 10"

definition update_temporary_password :: "bytes \<Rightarrow> auth_state \<Rightarrow> auth_state" where
  "update_temporary_password auto_password st = st\<lparr>as_temporary := auto_password\<rparr>"

definition check_update_temporary_password :: "auth_env \<Rightarrow> bool \<Rightarrow> auth_state \<Rightarrow> auth_state" where
  "check_update_temporary_password e success st =
     (if \<not> temporary_enabled e then st
      else let current = as_temporary st in
        if current = [] then st
        else let (pw, failures) = (if fst (as_temp_failures st) \<noteq> current then (current, 0) else as_temp_failures st) in
          if success then st\<lparr>as_temp_failures := (pw, 0)\<rparr>
          else if failures + 1 < MAX_CONSECUTIVE_FAILURES then st\<lparr>as_temp_failures := (pw, failures + 1)\<rparr>
          else let st1 = update_temporary_password (ae_rotated_password e) st
               in st1\<lparr>as_temp_failures := (as_temporary st1, 0)\<rparr>)"

section \<open>Sessions\<close>

definition SESSION_TIMEOUT :: int where "SESSION_TIMEOUT = 30000"

definition update_or_insert_session ::
  "int \<Rightarrow> session_key \<Rightarrow> bytes option \<Rightarrow> bool option \<Rightarrow> (session_key \<times> auth_session) list \<Rightarrow> (session_key \<times> auth_session) list" where
  "update_or_insert_session now key password tfa m =
     (case hm_get m key of
        Some s \<Rightarrow>
          hm_insert key (s\<lparr>se_random_password := (case password of Some p \<Rightarrow> p | None \<Rightarrow> se_random_password s),
                           se_tfa := (case tfa of Some b \<Rightarrow> b | None \<Rightarrow> se_tfa s)\<rparr>) m
      | None \<Rightarrow>
          hm_insert key \<lparr>se_last_recv = now, se_random_password = (case password of Some p \<Rightarrow> p | None \<Rightarrow> []),
                         se_tfa = (case tfa of Some b \<Rightarrow> b | None \<Rightarrow> False)\<rparr> m)"

definition set_session_2fa :: "int \<Rightarrow> session_key \<Rightarrow> (session_key \<times> auth_session) list \<Rightarrow> (session_key \<times> auth_session) list" where
  "set_session_2fa now key m =
     (case hm_get m key of
        Some s \<Rightarrow> hm_insert key (s\<lparr>se_tfa := True\<rparr>) m
      | None \<Rightarrow> hm_insert key \<lparr>se_last_recv = now, se_random_password = [], se_tfa = True\<rparr> m)"

definition is_recent_session :: "auth_env \<Rightarrow> bool \<Rightarrow> auth_conn \<Rightarrow> auth_state \<Rightarrow> bool \<times> auth_conn \<times> auth_state" where
  "is_recent_session e tfa c st =
     (let m = hm_retain (\<lambda>_ s. ae_now e - se_last_recv s < SESSION_TIMEOUT) (as_sessions st);
          st1 = st\<lparr>as_sessions := m\<rparr>
      in case hm_get m (ac_key c) of
           None \<Rightarrow> (False, c, st1)
         | Some s \<Rightarrow>
             if ac_lr_password c \<noteq> [] \<and>
                (tfa \<and> se_tfa s \<or> \<not> tfa \<and> validate_password_plain (ae_crypto e) c (se_random_password s))
             then (True, (if tfa then c\<lparr>ac_two_factor := TfTotp\<rparr> else c\<lparr>ac_primary := PaTemporaryPassword\<rparr>), st1)
             else (False, c, st1))"

section \<open>Trusted devices\<close>

definition outdate :: "int \<Rightarrow> trusted_device \<Rightarrow> bool" where
  "outdate now d = (td_time d + 90 * 24 * 60 * 60 * 1000 < now)"

text \<open>\<open>ae_json_len\<close> is the length of the serialised list.\<close>

definition set_trusted_devices :: "auth_env \<Rightarrow> trusted_device list \<Rightarrow> auth_state \<Rightarrow> auth_state" where
  "set_trusted_devices e ds st =
     (let ds' = filter (\<lambda>d. \<not> outdate (ae_now e) d) ds
      in if ae_json_len e ds' > 1024 * 1024 then st else st\<lparr>as_trusted := ds'\<rparr>)"

definition add_trusted_device :: "auth_env \<Rightarrow> trusted_device \<Rightarrow> auth_state \<Rightarrow> auth_state" where
  "add_trusted_device e d st = set_trusted_devices e (filter (\<lambda>x. td_hwid x \<noteq> td_hwid d) (as_trusted st) @ [d]) st"

text \<open>The two-factor step is waived for a device the user has trusted before
  (\<open>handle_login_request_without_validation\<close>); \<open>ae_hwid\<close> is what the request carries.\<close>

definition waive_2fa :: "auth_env \<Rightarrow> auth_conn \<Rightarrow> auth_state \<Rightarrow> auth_conn" where
  "waive_2fa e c st =
     (if ac_require_2fa c \<and> ae_hwid e \<noteq> [] \<and> ae_trusted_enabled e then
        (case find (\<lambda>d. td_hwid d = ae_hwid e) (as_trusted st) of
           Some d \<Rightarrow>
             if \<not> outdate (ae_now e) d \<and> (td_id d, td_name d) = (fst (ac_key c), fst (snd (ac_key c))) \<and> td_platform d = ac_platform c
             then c\<lparr>ac_two_factor := TfTrustedDevice, ac_require_2fa := False\<rparr> else c
         | None \<Rightarrow> c)
      else c)"

section \<open>Validation of a password\<close>

definition validate_permanent :: "auth_env \<Rightarrow> auth_conn \<Rightarrow> auth_state \<Rightarrow> bool" where
  "validate_permanent e c st =
     (let cr = ae_crypto e; mc = ae_machine e; storage = cf_password (as_config st) in
      if storage \<noteq> [] then
        local_permanent_password_storage_is_usable_for_auth cr mc storage (cf_salt (as_config st)) \<and>
        validate_password_storage cr mc c storage
      else preset_permanent_password_storage_is_usable_for_auth cr (fst (as_preset st)) (snd (as_preset st)) \<and>
        validate_preset_password_storage cr c (fst (as_preset st)) (snd (as_preset st)))"

definition validate_password :: "auth_env \<Rightarrow> auth_conn \<Rightarrow> auth_state \<Rightarrow> bool \<times> auth_conn \<times> auth_state" where
  "validate_password e c st =
     (if temporary_enabled e \<and> validate_password_plain (ae_crypto e) c (as_temporary st) then
        (True, c\<lparr>ac_primary := PaTemporaryPassword\<rparr>,
         check_update_temporary_password e True
           (st\<lparr>as_sessions := update_or_insert_session (ae_now e) (ac_key c) (Some (as_temporary st)) (Some False) (as_sessions st)\<rparr>))
      else if (permanent_enabled e \<or> ae_allow_logon_screen_password e) \<and> validate_permanent e c st then
        (True, c\<lparr>ac_primary := PaPermanentPassword\<rparr>, st)
      else (False, c, st))"

section \<open>Authorisation\<close>

text \<open>\<open>prepare_terminal_login_for_authorization\<close>: \<open>ae_token\<close> is what \<open>fill_terminal_user_token\<close> makes of
  the credentials, an error or a token and whether it is one of another user (on Linux always the
  process's own user); \<open>ae_service_is_user\<close> is the answer of the terminal service the peer asks for.\<close>

definition should_use_terminal_os_login_scope :: "auth_env \<Rightarrow> auth_conn \<Rightarrow> bool" where
  "should_use_terminal_os_login_scope e c = (ae_windows e \<and> ac_terminal c \<and> trim (ac_os_username c) \<noteq> [])"

definition fill_terminal_token ::
  "auth_env \<Rightarrow> (fail_entry \<times> int) option \<Rightarrow> auth_conn \<Rightarrow> auth_state \<Rightarrow> bool option \<times> auth_out list \<times> auth_conn \<times> auth_state" where
  "fill_terminal_token e os_failure c st =
     (case ae_token e of
        Inl msg \<Rightarrow>
          (Some False, [Out (LoginError msg)], c,
           case os_failure of
             Some f \<Rightarrow> st\<lparr>as_login := update_failure_with_scope (ae_ipv6 e) (ac_ip c) (ae_now e) f False 0 TerminalOsLogin (as_login st)\<rparr>
           | None \<Rightarrow> st)
      | Inr has_service_token \<Rightarrow>
          let c1 = c\<lparr>ac_terminal_token := Some has_service_token\<rparr>;
              st1 = (case os_failure of
                       Some f \<Rightarrow> st\<lparr>as_login := update_failure_with_scope (ae_ipv6 e) (ac_ip c) (ae_now e) f True 0 TerminalOsLogin (as_login st)\<rparr>
                     | None \<Rightarrow> st)
          in if (case ae_service_is_user e of Some is_user \<Rightarrow> is_user \<noteq> has_service_token | None \<Rightarrow> False)
             then (Some False, [Out (LoginError ''Terminal service user mismatch detected.'')], c1, st1)
             else (None, [], c1, st1))"

definition prepare_terminal_login ::
  "auth_env \<Rightarrow> auth_conn \<Rightarrow> auth_state \<Rightarrow> bool option \<times> auth_out list \<times> auth_conn \<times> auth_state" where
  "prepare_terminal_login e c st =
     (if \<not> ac_terminal c \<or> ac_terminal_token c \<noteq> None then (None, [], c, st)
      else if \<not> should_use_terminal_os_login_scope e c then fill_terminal_token e None c st
      else case check_failure_with_scope (ae_ipv6 e) (ac_ip c) (ae_now e) 0 TerminalOsLogin (as_login st) of
        (((failure, res), outs), ls) \<Rightarrow>
          if \<not> res then (Some False, map Out outs, c, st\<lparr>as_login := ls\<rparr>)
          else if \<not> ae_os_login_gate_free e
          then (Some False, [Out (LoginError ''Please try 1 minute later''), Out (Alarm TerminalOsLoginConcurrency)], c, st\<lparr>as_login := ls\<rparr>)
          else fill_terminal_token e (Some failure) c (st\<lparr>as_login := ls\<rparr>))"

text \<open>\<open>send_logon_response_and_keep_alive\<close> up to and including the state it changes on success.\<close>

definition normalize_conn_audit_auth_fields :: "auth_conn \<Rightarrow> auth_conn" where
  "normalize_conn_audit_auth_fields c =
     (if ac_primary c \<in> {PaClick, PaSwitchSides} then c\<lparr>ac_two_factor := TfNone\<rparr> else c)"

definition authorize :: "auth_env \<Rightarrow> auth_conn \<Rightarrow> auth_state \<Rightarrow> bool \<times> auth_out list \<times> auth_conn \<times> auth_state" where
  "authorize e c st =
     (case prepare_terminal_login e (c\<lparr>ac_awaiting_2fa := False\<rparr>) st of
        (Some keep_alive, outs, c1, st1) \<Rightarrow> (keep_alive, outs, c1, st1)
      | (None, outs, c1, st1) \<Rightarrow>
          (case ae_port_forward_error e of
             Some msg \<Rightarrow> (False, outs @ [Out (LoginError msg)], c1, st1)
           | None \<Rightarrow>
               (True, outs @ [LogonResponse],
                normalize_conn_audit_auth_fields (c1\<lparr>ac_authorized := True, ac_has_place := False\<rparr>),
                (update_temporary_password (ae_auto_password e) st1)
                  \<lparr>as_login := clear_id_whitelist_failures (ae_ipv6 e) (ac_ip c) (as_login st1)\<rparr>)))"

definition send_logon_response_and_keep_alive ::
  "auth_env \<Rightarrow> auth_conn \<Rightarrow> auth_state \<Rightarrow> bool \<times> auth_out list \<times> auth_conn \<times> auth_state" where
  "send_logon_response_and_keep_alive e c st =
     (if ac_authorized c then (True, [], c, st)
      else if ac_require_2fa c then
        (case is_recent_session e True c st of
           (recent, c1, st1) \<Rightarrow>
             if \<not> recent \<and> \<not> ac_from_switch c1
             then (True, [Out (LoginError ''2FA Required'')], c1\<lparr>ac_awaiting_2fa := True\<rparr>, st1)
             else authorize e c1 st1)
      else authorize e c st)"

text \<open>The end of both successful branches: log on, then tell the connection manager.\<close>

definition logon_and_start_cm ::
  "auth_env \<Rightarrow> auth_conn \<Rightarrow> auth_state \<Rightarrow> bool \<times> auth_out list \<times> auth_conn \<times> auth_state" where
  "logon_and_start_cm e c st =
     (case send_logon_response_and_keep_alive e c st of
        (keep, outs, c1, st1) \<Rightarrow>
          if \<not> keep then (False, outs, c1, st1)
          else (True, outs @ [StartCm (ac_authorized c1)], c1, st1))"

text \<open>The password branch: throttle, validation, counters.\<close>

definition login_with_password ::
  "auth_env \<Rightarrow> auth_conn \<Rightarrow> auth_state \<Rightarrow> bool \<times> auth_out list \<times> auth_conn \<times> auth_state" where
  "login_with_password e c st =
     (case check_failure (ae_ipv6 e) (ac_ip c) (ae_now e) 0 (as_login st) of
        (((failure, res), outs), ls) \<Rightarrow>
          if \<not> res then (True, map Out outs, c, st\<lparr>as_login := ls\<rparr>)
          else
            (case validate_password e c (st\<lparr>as_login := ls\<rparr>) of
               (ok, c1, st1) \<Rightarrow>
                 let st2 = st1\<lparr>as_login := update_failure (ae_ipv6 e) (ac_ip c) (ae_now e) failure ok 0 (as_login st1)\<rparr> in
                 if \<not> ok then
                   (True, [Out (LoginError ''Wrong Password''), StartCm False], c1, check_update_temporary_password e False st2)
                 else logon_and_start_cm e c1 st2))"

text \<open>Two branches leave the decision to the user; a terminal login with credentials of the operating
  system is checked first.\<close>

definition ask_user ::
  "auth_env \<Rightarrow> auth_out list \<Rightarrow> auth_conn \<Rightarrow> auth_state \<Rightarrow> bool \<times> auth_out list \<times> auth_conn \<times> auth_state" where
  "ask_user e asked c st =
     (if should_use_terminal_os_login_scope e c then
        (case prepare_terminal_login e c st of
           (Some keep_alive, outs, c1, st1) \<Rightarrow> (keep_alive, outs, c1, st1)
         | (None, outs, c1, st1) \<Rightarrow> (True, outs @ asked, c1, st1))
      else (True, asked, c, st))"

definition login_request ::
  "auth_env \<Rightarrow> auth_conn \<Rightarrow> auth_state \<Rightarrow> bool \<times> auth_out list \<times> auth_conn \<times> auth_state" where
  "login_request e c st =
     (if approve_mode_of (ae_approve_mode e) = ApproveClick \<and> \<not> ae_allow_logon_screen_password e \<or>
         approve_mode_of (ae_approve_mode e) = ApproveBoth \<and> \<not> has_valid_password e st
      then ask_user e (StartCm False # (if ae_peer_since_1_2_0 e then [Out (LoginError ''No Password Access'')] else [])) c st
      else case is_recent_session e False c st of
        (recent, c1, st1) \<Rightarrow>
          if recent then logon_and_start_cm e c1 st1
          else if ac_lr_password c1 = [] then ask_user e [StartCm False] c1 st1
          else login_with_password e c1 st1)"

text \<open>The branch for a two-factor code; \<open>ae_2fa_code_ok\<close> is the result of \<open>check_current\<close> (\<open>None\<close> for
  its error).\<close>

definition auth_2fa :: "auth_env \<Rightarrow> auth_conn \<Rightarrow> auth_state \<Rightarrow> bool \<times> auth_out list \<times> auth_conn \<times> auth_state" where
  "auth_2fa e c st =
     (if \<not> ac_awaiting_2fa c then (True, [], c, st)
      else case check_failure (ae_ipv6 e) (ac_ip c) (ae_now e) 1 (as_login st) of
        (((failure, res), outs), ls) \<Rightarrow>
          if \<not> res then (True, map Out outs, c, st\<lparr>as_login := ls\<rparr>)
          else if \<not> ac_require_2fa c then (True, [], c, st\<lparr>as_login := ls\<rparr>)
          else
            (case ae_2fa_code_ok e of
               None \<Rightarrow> (True, [], c, st\<lparr>as_login := ls\<rparr>)
             | Some ok \<Rightarrow>
                 let st1 = st\<lparr>as_login := update_failure (ae_ipv6 e) (ac_ip c) (ae_now e) failure ok 1 ls\<rparr> in
                 if ok then
                   (case logon_and_start_cm e (c\<lparr>ac_require_2fa := False, ac_two_factor := TfTotp\<rparr>)
                           (st1\<lparr>as_sessions := set_session_2fa (ae_now e) (ac_key c) (as_sessions st1)\<rparr>) of
                      (keep, outs2, c2, st2) \<Rightarrow>
                        (keep, outs2, c2,
                         if keep \<and> ae_hwid e \<noteq> [] \<and> ae_trusted_enabled e
                         then add_trusted_device e \<lparr>td_hwid = ae_hwid e, td_time = ae_now e, td_id = fst (ac_key c),
                                td_name = fst (snd (ac_key c)), td_platform = ac_platform c\<rparr> st2
                         else st2))
                 else (True, [Out (LoginError ''Wrong 2FA Code'')], c, st1)))"

section \<open>Who gets in\<close>

lemma validate_plain_iff:
  "validate_password_plain cr c pw \<longleftrightarrow> pw \<noteq> [] \<and> ac_lr_password c = client_response cr pw (ac_salt c) (ac_challenge c)"
  by (auto simp: validate_password_plain_def verify_h1_def client_response_def)

lemma fill_terminal_frame:
  assumes "fill_terminal_token e f c st = (r, outs, c1, st1)"
  shows "ac_authorized c1 = ac_authorized c"
  using assms by (auto simp: fill_terminal_token_def Let_def split: sum.splits if_splits)

lemma prepare_terminal_authorized:
  assumes "prepare_terminal_login e c st = (r, outs, c1, st1)"
  shows "ac_authorized c1 = ac_authorized c"
  using assms by (auto simp: prepare_terminal_login_def split: prod.splits if_splits dest: fill_terminal_frame)

lemma ask_user_authorized:
  assumes "ask_user e asked c st = (keep, outs, c1, st1)"
  shows "ac_authorized c1 = ac_authorized c"
  using assms by (auto simp: ask_user_def split: prod.splits option.splits if_splits dest: prepare_terminal_authorized)

lemma normalize_audit_authorized [simp]:
  "ac_authorized (normalize_conn_audit_auth_fields c) = ac_authorized c"
  "ac_has_place (normalize_conn_audit_auth_fields c) = ac_has_place c"
  by (auto simp: normalize_conn_audit_auth_fields_def)

lemma authorize_authorized:
  assumes "authorize e c st = (keep, outs, c', st')" "\<not> ac_authorized c" "ac_authorized c'"
  shows "keep \<and> \<not> ac_has_place c' \<and> as_temporary st' = ae_auto_password e"
proof -
  obtain r outs1 c1 st1 where p: "prepare_terminal_login e (c\<lparr>ac_awaiting_2fa := False\<rparr>) st = (r, outs1, c1, st1)" by (metis prod_cases4)
  from prepare_terminal_authorized [OF p] assms p show ?thesis
    by (cases r) (auto simp: authorize_def update_temporary_password_def split: option.splits)
qed

text \<open>The two-factor condition of an authorisation.\<close>

definition tfa_satisfied :: "auth_env \<Rightarrow> auth_conn \<Rightarrow> auth_state \<Rightarrow> bool" where
  "tfa_satisfied e c st = (\<not> ac_require_2fa c \<or> ac_from_switch c \<or>
     (\<exists>s. (ac_key c, s) \<in> set (as_sessions st) \<and> ae_now e - se_last_recv s < SESSION_TIMEOUT \<and> se_tfa s))"

lemma retained_session:
  assumes "hm_get (hm_retain P m) k = Some s"
  shows "(k, s) \<in> set m \<and> P k s"
  using hm_get_set [OF assms] by (auto simp: hm_retain_def)

lemma recent_session_true:
  assumes "is_recent_session e tfa c st = (True, c1, st1)"
  shows "\<exists>s. (ac_key c, s) \<in> set (as_sessions st) \<and> ae_now e - se_last_recv s < SESSION_TIMEOUT \<and> ac_lr_password c \<noteq> [] \<and>
    (if tfa then se_tfa s else validate_password_plain (ae_crypto e) c (se_random_password s))"
  using assms by (auto simp: is_recent_session_def Let_def split: option.splits if_splits dest!: retained_session)

lemma recent_session_frame:
  assumes "is_recent_session e tfa c st = (r, c1, st1)"
  shows "ac_authorized c1 = ac_authorized c" "ac_require_2fa c1 = ac_require_2fa c" "ac_from_switch c1 = ac_from_switch c"
    "ac_key c1 = ac_key c" "ac_lr_password c1 = ac_lr_password c" "ac_salt c1 = ac_salt c" "ac_challenge c1 = ac_challenge c"
    "ac_ip c1 = ac_ip c" "ac_terminal c1 = ac_terminal c" "set (as_sessions st1) \<subseteq> set (as_sessions st)" "as_temporary st1 = as_temporary st"
    "as_config st1 = as_config st" "as_preset st1 = as_preset st" "as_login st1 = as_login st"
  using assms by (auto simp: is_recent_session_def hm_retain_def Let_def split: option.splits if_splits)

lemma logon_authorized:
  assumes "logon_and_start_cm e c st = (keep, outs, c', st')" "\<not> ac_authorized c" "ac_authorized c'"
  shows "tfa_satisfied e c st \<and> \<not> ac_has_place c' \<and> as_temporary st' = ae_auto_password e"
proof -
  obtain k o1 c1 st1 where l: "send_logon_response_and_keep_alive e c st = (k, o1, c1, st1)" by (metis prod_cases4)
  with assms have c1: "c' = c1" "st' = st1" by (auto simp: logon_and_start_cm_def split: if_splits)
  show ?thesis
  proof (cases "ac_require_2fa c")
    case False
    with l assms have "authorize e c st = (k, o1, c1, st1)" by (simp add: send_logon_response_and_keep_alive_def)
    from authorize_authorized [OF this assms(2)] assms(3) False show ?thesis by (simp add: c1 tfa_satisfied_def)
  next
    case True
    obtain r c2 st2 where r: "is_recent_session e True c st = (r, c2, st2)" by (metis prod_cases3)
    note fr = recent_session_frame [OF r]
    have "\<not> (\<not> r \<and> \<not> ac_from_switch c2)" "authorize e c2 st2 = (k, o1, c1, st1)"
      using l r True assms(2,3) fr(1) c1 by (auto simp: send_logon_response_and_keep_alive_def split: if_splits)
    moreover from this(1) have "tfa_satisfied e c st"
      using recent_session_true [of e True c st c2 st2] r fr(3) by (cases r) (auto simp: tfa_satisfied_def)
    ultimately show ?thesis using authorize_authorized [of e c2 st2 k o1 c1 st1] assms(2,3) fr(1) by (simp add: c1)
  qed
qed

text \<open>What a response has to match when no session is remembered: the temporary password, the hash
  in the local storage, a local storage that is itself a plain password, or the preset one.\<close>

definition permanent_h1 :: "auth_env \<Rightarrow> auth_conn \<Rightarrow> auth_state \<Rightarrow> bytes option" where
  "permanent_h1 e c st =
     (let cr = ae_crypto e; mc = ae_machine e; storage = cf_password (as_config st); (hard, salt) = as_preset st in
      if storage \<noteq> [] then
        (case decode_permanent_password_h1_from_storage cr mc storage of
           Some h1 \<Rightarrow> if cf_salt (as_config st) \<noteq> [] then Some h1 else None
         | None \<Rightarrow> if local_permanent_password_storage_is_usable_for_auth cr mc storage (cf_salt (as_config st))
                   then Some (cr_sha256 cr (storage @ ac_salt c)) else None)
      else if hard = [] then None
      else if salt = [] then Some (cr_sha256 cr (hard @ ac_salt c))
      else decode_preset_password_h1_from_storage cr hard)"

lemma validate_permanent_iff:
  "validate_permanent e c st \<longleftrightarrow> (\<exists>h1. permanent_h1 e c st = Some h1 \<and> ac_lr_password c = cr_sha256 (ae_crypto e) (h1 @ ac_challenge c))"
  by (auto simp: validate_permanent_def permanent_h1_def validate_password_storage_def validate_password_plain_def
      validate_preset_password_storage_def verify_h1_def local_permanent_password_storage_is_usable_for_auth_def
      preset_permanent_password_storage_is_usable_for_auth_def Let_def split: option.splits prod.splits if_splits)

definition right_password :: "auth_env \<Rightarrow> auth_conn \<Rightarrow> auth_state \<Rightarrow> bool" where
  "right_password e c st =
     (temporary_enabled e \<and> as_temporary st \<noteq> [] \<and>
        ac_lr_password c = client_response (ae_crypto e) (as_temporary st) (ac_salt c) (ac_challenge c) \<or>
      (permanent_enabled e \<or> ae_allow_logon_screen_password e) \<and>
        (\<exists>h1. permanent_h1 e c st = Some h1 \<and> ac_lr_password c = cr_sha256 (ae_crypto e) (h1 @ ac_challenge c)))"

lemma validate_password_iff: "fst (validate_password e c st) = right_password e c st"
  by (auto simp: validate_password_def right_password_def validate_plain_iff validate_permanent_iff)

lemma check_update_frame [simp]:
  "as_sessions (check_update_temporary_password e b st) = as_sessions st"
  "as_login (check_update_temporary_password e b st) = as_login st"
  "as_config (check_update_temporary_password e b st) = as_config st"
  by (auto simp: check_update_temporary_password_def update_temporary_password_def Let_def split: prod.splits)

lemma validate_password_frame:
  assumes "validate_password e c st = (ok, c1, st1)"
  shows "ac_authorized c1 = ac_authorized c" "ac_require_2fa c1 = ac_require_2fa c" "ac_from_switch c1 = ac_from_switch c"
    "ac_key c1 = ac_key c" "ac_terminal c1 = ac_terminal c" "as_login st1 = as_login st"
    "\<And>k s. (k, s) \<in> set (as_sessions st1) \<Longrightarrow> se_tfa s \<Longrightarrow> (k, s) \<in> set (as_sessions st)"
    "\<not> ok \<Longrightarrow> c1 = c \<and> st1 = st"
  using assms by (auto simp: validate_password_def update_or_insert_session_def split: if_splits option.splits dest!: in_hm_insert)

lemma tfa_satisfied_mono:
  assumes "tfa_satisfied e c1 st1" "ac_require_2fa c1 = ac_require_2fa c" "ac_from_switch c1 = ac_from_switch c" "ac_key c1 = ac_key c"
    and "\<And>k s. (k, s) \<in> set (as_sessions st1) \<Longrightarrow> se_tfa s \<Longrightarrow> (k, s) \<in> set (as_sessions st)"
  shows "tfa_satisfied e c st"
  using assms(1-4) assms(5) [of "ac_key c"] unfolding tfa_satisfied_def by metis

lemma login_with_password_authorized:
  assumes "login_with_password e c st = (keep, outs, c', st')" "\<not> ac_authorized c" "ac_authorized c'"
  shows "right_password e c st \<and> tfa_satisfied e c st \<and> \<not> ac_has_place c' \<and> as_temporary st' = ae_auto_password e \<and>
    snd (fst (fst (check_failure (ae_ipv6 e) (ac_ip c) (ae_now e) 0 (as_login st))))"
proof -
  obtain f res o1 where ch: "check_failure (ae_ipv6 e) (ac_ip c) (ae_now e) 0 (as_login st) = (((f, res), o1), as_login st)"
    by (metis check_failure_state prod.collapse)
  obtain ok c1 st1 where v: "validate_password e c st = (ok, c1, st1)" by (metis prod_cases3)
  note vf = validate_password_frame [OF v]
  define st2 where "st2 = st1\<lparr>as_login := update_failure (ae_ipv6 e) (ac_ip c) (ae_now e) f ok 0 (as_login st1)\<rparr>"
  have run: "login_with_password e c st = (if \<not> res then (True, map Out o1, c, st)
      else if \<not> ok then (True, [Out (LoginError ''Wrong Password''), StartCm False], c1, check_update_temporary_password e False st2)
      else logon_and_start_cm e c1 st2)"
    using ch v by (simp add: login_with_password_def st2_def Let_def)
  with assms vf(1) have ok: "res" "ok" "logon_and_start_cm e c1 st2 = (keep, outs, c', st')" by (auto split: if_splits)
  from logon_authorized [OF ok(3)] assms(2,3) vf(1)
  have l: "tfa_satisfied e c1 st2" "\<not> ac_has_place c'" "as_temporary st' = ae_auto_password e" by simp_all
  have "tfa_satisfied e c st" by (rule tfa_satisfied_mono [OF l(1) vf(2,3,4)]) (simp add: st2_def vf(7))
  with l ok ch show ?thesis using validate_password_iff [of e c st] v by simp
qed

lemma right_password_cong:
  assumes "ac_lr_password c1 = ac_lr_password c" "ac_salt c1 = ac_salt c" "ac_challenge c1 = ac_challenge c"
    "as_temporary st1 = as_temporary st" "as_config st1 = as_config st" "as_preset st1 = as_preset st"
  shows "right_password e c1 st1 = right_password e c st"
  unfolding right_password_def permanent_h1_def assms ..


section \<open>The right password is accepted\<close>

lemma authorize_ok:
  assumes "\<not> ac_terminal c" "ae_port_forward_error e = None"
  shows "\<exists>c' st'. authorize e c st = (True, [LogonResponse], c', st') \<and> ac_authorized c'"
  using assms by (simp add: authorize_def prepare_terminal_login_def)

lemma logon_ok:
  assumes "\<not> ac_terminal c" "ae_port_forward_error e = None" "\<not> ac_require_2fa c" "\<not> ac_authorized c"
  shows "\<exists>c' st'. logon_and_start_cm e c st = (True, [LogonResponse, StartCm True], c', st') \<and> ac_authorized c'"
  using assms authorize_ok [of c e st] by (auto simp: logon_and_start_cm_def send_logon_response_and_keep_alive_def)

lemma login_with_right_password:
  assumes "right_password e c st" "\<not> ac_terminal c" "ae_port_forward_error e = None" "\<not> ac_require_2fa c" "\<not> ac_authorized c"
    and "snd (fst (fst (check_failure (ae_ipv6 e) (ac_ip c) (ae_now e) 0 (as_login st))))"
  shows "\<exists>c' st'. login_with_password e c st = (True, [LogonResponse, StartCm True], c', st') \<and> ac_authorized c'"
proof -
  obtain f o1 where ch: "check_failure (ae_ipv6 e) (ac_ip c) (ae_now e) 0 (as_login st) = (((f, True), o1), as_login st)"
    using assms(6) by (metis check_failure_state prod.collapse)
  obtain c1 st1 where v: "validate_password e c st = (True, c1, st1)"
    using validate_password_iff [of e c st] assms(1) by (metis prod.collapse)
  note vf = validate_password_frame [OF v]
  have "login_with_password e c st =
      logon_and_start_cm e c1 (st1\<lparr>as_login := update_failure (ae_ipv6 e) (ac_ip c) (ae_now e) f True 0 (as_login st1)\<rparr>)"
    using ch v by (simp add: login_with_password_def Let_def)
  with logon_ok [of c1 e] assms vf show ?thesis by simp
qed


section \<open>Rotation of the temporary password\<close>

definition wrong_guesses :: "auth_env list \<Rightarrow> auth_state \<Rightarrow> auth_state" where
  "wrong_guesses es st = fold (\<lambda>e. check_update_temporary_password e False) es st"

lemma tenth:
  assumes "n mod 10 = 9"
  shows "Suc n div 10 * 10 = Suc n" "\<not> Suc n < 10" "Suc n mod 10 = 0"
proof -
  show m: "Suc n mod 10 = 0" using assms by (simp add: mod_Suc)
  then show "Suc n div 10 * 10 = Suc n" using div_mult_mod_eq [of "Suc n" 10] by simp
  show "\<not> Suc n < 10"
  proof
    assume "Suc n < 10"
    then have "n mod 10 = n" by simp
    with assms \<open>Suc n < 10\<close> show False by simp
  qed
qed

lemma next_in_ten:
  fixes n :: nat
  assumes "n mod 10 \<noteq> 9"
  shows "Suc n mod 10 = Suc (n mod 10)" "Suc n div 10 = n div 10" "Suc n < 10 \<longleftrightarrow> n < 10" "n mod 10 + 1 < 10"
proof -
  have lt: "n mod 10 < 10" by simp
  with assms show "n mod 10 + 1 < 10" by linarith
  then have ne: "Suc (n mod 10) \<noteq> 10" by simp
  then show "Suc n mod 10 = Suc (n mod 10)" "Suc n div 10 = n div 10" by (simp_all add: mod_Suc div_Suc)
  have "n \<noteq> 9" using assms by auto
  then show "Suc n < 10 \<longleftrightarrow> n < 10" by linarith
qed

text \<open>A temporary password withstands nine consecutive wrong guesses and is replaced by the tenth,
  over and over: after any number of them the password in force is the one drawn at the last multiple
  of ten, and the count starts again.\<close>

theorem temporary_password_rotates:
  assumes "\<forall>e \<in> set es. temporary_enabled e \<and> ae_rotated_password e \<noteq> []"
    and "as_temporary st \<noteq> []" "fst (as_temp_failures st) \<noteq> as_temporary st \<or> snd (as_temp_failures st) = 0"
  shows "as_temporary (wrong_guesses es st) =
      (if length es < 10 then as_temporary st else ae_rotated_password (es ! (length es div 10 * 10 - 1))) \<and>
    (es \<noteq> [] \<longrightarrow> as_temp_failures (wrong_guesses es st) = (as_temporary (wrong_guesses es st), int (length es mod 10)))"
  using assms(1)
proof (induction es rule: rev_induct)
  case Nil
  then show ?case by (simp add: wrong_guesses_def)
next
  case (snoc e es)
  let ?s = "wrong_guesses es st" and ?n = "length es"
  have step: "wrong_guesses (es @ [e]) st = check_update_temporary_password e False ?s" by (simp add: wrong_guesses_def)
  have IH: "as_temporary ?s = (if ?n < 10 then as_temporary st else ae_rotated_password (es ! (?n div 10 * 10 - 1)))"
    "es \<noteq> [] \<longrightarrow> as_temp_failures ?s = (as_temporary ?s, int (?n mod 10))" using snoc by simp_all
  have ne: "as_temporary ?s \<noteq> []"
  proof (cases "?n < 10")
    case False
    then have "?n div 10 * 10 - 1 < ?n" by simp
    then show ?thesis using False IH(1) snoc.prems by simp
  qed (use IH(1) assms(2) in simp)
  have fs: "(if fst (as_temp_failures ?s) \<noteq> as_temporary ?s then (as_temporary ?s, 0) else as_temp_failures ?s) = (as_temporary ?s, int (?n mod 10))"
    using IH(2) assms(3) by (cases "es = []") (auto simp: wrong_guesses_def prod_eq_iff)
  show ?case
  proof (cases "?n mod 10 = 9")
    case True
    from tenth [OF this] show ?thesis unfolding step using fs ne snoc.prems True
      by (simp add: check_update_temporary_password_def MAX_CONSECUTIVE_FAILURES_def update_temporary_password_def Let_def)
  next
    case False
    note m = next_in_ten [OF False]
    have upd: "check_update_temporary_password e False ?s = ?s\<lparr>as_temp_failures := (as_temporary ?s, int (?n mod 10) + 1)\<rparr>"
      using fs ne snoc.prems m(4) by (simp add: check_update_temporary_password_def MAX_CONSECUTIVE_FAILURES_def Let_def)
    have "(es @ [e]) ! (?n div 10 * 10 - 1) = es ! (?n div 10 * 10 - 1)" if "\<not> ?n < 10"
      using that by (intro nth_append_left) simp
    then show ?thesis using IH(1) m(1-3) by (simp add: step upd)
  qed
qed

section \<open>Concrete logins\<close>

definition sample_env :: auth_env where
  "sample_env = \<lparr>ae_crypto = sample_crypto, ae_machine = sample_machine, ae_ipv6 = no_ipv6, ae_verification_method = [],
     ae_approve_mode = [], ae_allow_logon_screen_password = False, ae_now = 60000, ae_auto_password = [50], ae_rotated_password = [51],
     ae_windows = False, ae_os_login_gate_free = True, ae_token = Inr False, ae_service_is_user = None, ae_port_forward_error = None, ae_peer_since_1_2_0 = True, ae_2fa_code_ok = None,
     ae_trusted_enabled = False, ae_hwid = [], ae_json_len = length\<rparr>"

definition sample_conn :: "bytes \<Rightarrow> bytes \<Rightarrow> auth_conn" where
  "sample_conn pw salt = \<lparr>ac_ip = ''10.0.0.7'', ac_salt = salt, ac_challenge = [9], ac_lr_password = client_response sample_crypto pw salt [9],
     ac_key = (''1'', ''n'', 5), ac_platform = ''Linux'', ac_require_2fa = False, ac_awaiting_2fa = False, ac_from_switch = False,
     ac_terminal = False, ac_terminal_token = None, ac_os_username = [], ac_authorized = False, ac_has_place = True, ac_primary = PaNone, ac_two_factor = TfNone\<rparr>"

definition sample_state :: "config \<Rightarrow> auth_state" where
  "sample_state cfg = \<lparr>as_config = cfg, as_preset = ([], []), as_temporary = [49, 50], as_temp_failures = ([], 0),
     as_sessions = [], as_login = login_state_new, as_trusted = []\<rparr>"



theorem temporary_password_rotates_witness:
  "as_temporary (wrong_guesses (replicate 9 sample_env) (sample_state empty_config)) = [49, 50] \<and>
   as_temporary (wrong_guesses (replicate 12 sample_env) (sample_state empty_config)) = [51]"
  using temporary_password_rotates [of "replicate 9 sample_env" "sample_state empty_config"]
    temporary_password_rotates [of "replicate 12 sample_env" "sample_state empty_config"]
  by (simp add: sample_env_def sample_state_def temporary_enabled_def verification_method_of_def nth_replicate)

end
