(* ===== verification/Terminal_Service.thy ===== *)
theory Terminal_Service
  imports Terminal_Buffer
begin

text \<open>
  The persistent terminal service of \<open>src/server/terminal_service.rs\<close> (the Linux build): the
  registry of services, the sessions with their reader thread, output channel and reconnection state
  machine, and the actions of a client (\<open>TerminalServiceProxy\<close>).

  \<^item> A session is a record with the source's fields.  A PTY is its current size, a child process
    its handle number, the input channel whether it is open and the messages handed to it, the output
    channel the list of chunks queued by the reader thread, the reader thread its own state.
  \<^item> What the operating system answers is an argument: \<open>poll_env\<close> (is the session locked, what does
    \<open>try_wait\<close> say, does the resize succeed), \<open>open_env\<close> (opening the PTY and spawning the shell),
    \<open>read_event\<close> (what a read of the PTY returns).  Instants are milliseconds.
  \<^item> \<open>compress::compress\<close> is a parameter; what is needed of it is a named hypothesis where used.
\<close>

section \<open>Sessions\<close>

definition MAX_SERVICES :: nat where "MAX_SERVICES = 100"
definition SERVICE_IDLE_TIMEOUT :: nat where "SERVICE_IDLE_TIMEOUT = 3600 * 1000"
definition CHANNEL_BUFFER_SIZE :: nat where "CHANNEL_BUFFER_SIZE = 500"
definition COMPRESS_THRESHOLD :: nat where "COMPRESS_THRESHOLD = 512"
definition DEFAULT_RECONNECT_BUFFER_BYTES :: nat where "DEFAULT_RECONNECT_BUFFER_BYTES = 8 * 1024"
definition MAX_SIGWINCH_PHASE_ATTEMPTS :: nat where "MAX_SIGWINCH_PHASE_ATTEMPTS = 3"

datatype sigwinch_phase = SwIdle | SwTempResize nat | SwRestore nat

datatype sigwinch_action = DoTempResize | DoRestore

datatype session_state = SClosed | SActive "bytes option" sigwinch_phase

datatype wait_status = Exited u32 | StillRunning | WaitErr

record reader_thread =
  rt_acc :: utf8_chunk_accumulator
  rt_drop_count :: nat
  rt_last_drop_warn :: int
  rt_finished :: bool

record session =
  s_created_at :: nat
  s_last_activity :: nat
  s_pty_pair :: "(u16 \<times> u16) option"
  s_child :: "nat option"
  s_input_tx :: bool
  s_input_sent :: "bytes list"
  s_output_rx :: "bytes list option"
  s_exiting :: bool
  s_reader_thread :: "reader_thread option"
  s_writer_thread :: bool
  s_output_buffer :: output_buffer
  s_title :: string
  s_pid :: u32
  s_rows :: u16
  s_cols :: u16
  s_closed_message_sent :: bool
  s_state :: session_state

definition session_new :: "nat \<Rightarrow> int \<Rightarrow> u16 \<Rightarrow> u16 \<Rightarrow> session" where
  "session_new now terminal_id rows cols =
     \<lparr>s_created_at = now, s_last_activity = now, s_pty_pair = None, s_child = None, s_input_tx = False, s_input_sent = [],
      s_output_rx = None, s_exiting = False, s_reader_thread = None, s_writer_thread = False,
      s_output_buffer = ob_new, s_title = ''Terminal '' @ show_int terminal_id, s_pid = 0,
      s_rows = rows, s_cols = cols, s_closed_message_sent = False, s_state = SClosed\<rparr>"

definition session_update_activity :: "nat \<Rightarrow> session \<Rightarrow> session" where
  "session_update_activity now s = s\<lparr>s_last_activity := now\<rparr>"

text \<open>\<open>stop\<close>: the final newline goes to the writer thread before the channel is dropped, the threads
  are joined, the child is killed and handed to the reaper (second component).\<close>

definition final_msg :: bytes where "final_msg = [13, 10]"

definition signal_exit :: "session \<Rightarrow> session" where
  "signal_exit s =
     s\<lparr>s_state := SClosed, s_exiting := True, s_input_tx := False,
       s_input_sent := s_input_sent s @ (if s_input_tx s then [final_msg] else []), s_output_rx := None\<rparr>"

definition join_threads :: "session \<Rightarrow> session \<times> nat option" where
  "join_threads s =
     (s\<lparr>s_pty_pair := None, s_reader_thread := None, s_writer_thread := False, s_child := None\<rparr>, s_child s)"

definition session_stop :: "session \<Rightarrow> session \<times> nat option" where
  "session_stop s = join_threads (signal_exit s)"

section \<open>Reader thread\<close>

text \<open>\<open>try_send\<close> on the bounded output channel; \<open>None\<close> is a disconnected channel.  The result says
  whether the read loop has to end.\<close>

definition try_send_output ::
  "nat \<Rightarrow> bytes \<Rightarrow> bytes list option \<Rightarrow> reader_thread \<Rightarrow> bool \<times> bytes list option \<times> reader_thread" where
  "try_send_output now d ch r =
     (case ch of
        None \<Rightarrow> (True, None, r)
      | Some q \<Rightarrow>
          if length q < CHANNEL_BUFFER_SIZE then (False, Some (q @ [d]), r\<lparr>rt_drop_count := 0\<rparr>)
          else if int now - rt_last_drop_warn r \<ge> 5000
               then (False, Some q, r\<lparr>rt_drop_count := 0, rt_last_drop_warn := int now\<rparr>)
               else (False, Some q, r\<lparr>rt_drop_count := rt_drop_count r + 1\<rparr>))"

datatype read_event = ReadOk bytes | ReadWouldBlock | ReadErr

definition reader_new :: "nat \<Rightarrow> reader_thread" where
  "reader_new now = \<lparr>rt_acc = \<lparr>ua_remainder = []\<rparr>, rt_drop_count = 0, rt_last_drop_warn = int now - 6000, rt_finished = False\<rparr>"

text \<open>One turn of the read loop; \<open>ReadOk []\<close> is the end of the file.\<close>

definition reader_send :: "nat \<Rightarrow> bytes \<Rightarrow> reader_thread \<Rightarrow> session \<Rightarrow> session" where
  "reader_send now d r s =
     (case try_send_output now d (s_output_rx s) r of
        (stop, ch, r1) \<Rightarrow> s\<lparr>s_output_rx := ch, s_reader_thread := Some (r1\<lparr>rt_finished := stop\<rparr>)\<rparr>)"

definition reader_step :: "nat \<Rightarrow> read_event \<Rightarrow> session \<Rightarrow> session" where
  "reader_step now ev s =
     (case s_reader_thread s of
        None \<Rightarrow> s
      | Some r \<Rightarrow>
          if rt_finished r then s
          else case ev of
            ReadOk d \<Rightarrow>
              if d = [] then
                (case finish_chunks (rt_acc r) of
                   (o1, a) \<Rightarrow>
                     (let s1 = (case o1 of None \<Rightarrow> s | Some c \<Rightarrow> reader_send now c r s)
                      in s1\<lparr>s_reader_thread := Some (r\<lparr>rt_acc := a, rt_finished := True\<rparr>)\<rparr>))
              else if s_exiting s then s\<lparr>s_reader_thread := Some (r\<lparr>rt_finished := True\<rparr>)\<rparr>
              else (case push_chunk d (rt_acc r) of
                      (None, a) \<Rightarrow> s\<lparr>s_reader_thread := Some (r\<lparr>rt_acc := a\<rparr>)\<rparr>
                    | (Some c, a) \<Rightarrow> reader_send now c (r\<lparr>rt_acc := a\<rparr>) s)
          | ReadWouldBlock \<Rightarrow> if s_exiting s then s\<lparr>s_reader_thread := Some (r\<lparr>rt_finished := True\<rparr>)\<rparr> else s
          | ReadErr \<Rightarrow> s\<lparr>s_reader_thread := Some (r\<lparr>rt_finished := True\<rparr>)\<rparr>)"

section \<open>Services and their registry\<close>

record service =
  sv_service_id :: string
  sv_sessions :: "(int \<times> session) list"
  sv_created_at :: nat
  sv_last_activity :: nat
  sv_is_persistent :: bool
  sv_needs_session_sync :: bool
  sv_is_specified_user :: bool

record term_world =
  tw_services :: "(string \<times> service) list"
  tw_tasks :: "nat list"
  tw_cleanup_task :: bool

definition service_new :: "nat \<Rightarrow> string \<Rightarrow> bool \<Rightarrow> bool \<Rightarrow> service" where
  "service_new now sid persistent specified =
     \<lparr>sv_service_id = sid, sv_sessions = [], sv_created_at = now, sv_last_activity = now,
      sv_is_persistent = persistent, sv_needs_session_sync = False, sv_is_specified_user = specified\<rparr>"

definition service_update_activity :: "nat \<Rightarrow> service \<Rightarrow> service" where
  "service_update_activity now v = v\<lparr>sv_last_activity := now\<rparr>"

definition list_terminals :: "service \<Rightarrow> (int \<times> string \<times> u32 \<times> nat) list" where
  "list_terminals v = map (\<lambda>(t, s). (t, s_title s, s_pid s, s_created_at s)) (sv_sessions v)"

definition get_terminal_buffer :: "int \<Rightarrow> nat \<Rightarrow> service \<Rightarrow> bytes option" where
  "get_terminal_buffer t max_bytes v =
     map_option (\<lambda>s. get_recent max_bytes (s_output_buffer s)) (hm_get (sv_sessions v) t)"

definition get_terminal_info :: "int \<Rightarrow> service \<Rightarrow> (u16 \<times> u16 \<times> bytes) option" where
  "get_terminal_info t v =
     map_option (\<lambda>s. (s_rows s, s_cols s, get_recent DEFAULT_RECONNECT_BUFFER_BYTES (s_output_buffer s)))
       (hm_get (sv_sessions v) t)"

definition has_active_terminals :: "service \<Rightarrow> bool" where
  "has_active_terminals v = (sv_sessions v \<noteq> [])"

definition reset_status :: "bool \<Rightarrow> service \<Rightarrow> service" where
  "reset_status persistent v =
     v\<lparr>sv_is_persistent := persistent, sv_needs_session_sync := True,
       sv_sessions := hm_map_values (\<lambda>s. s\<lparr>s_state := SClosed\<rparr>) (sv_sessions v)\<rparr>"

definition get_service :: "string \<Rightarrow> term_world \<Rightarrow> service option" where
  "get_service sid w = hm_get (tw_services w) sid"

definition put_service :: "string \<Rightarrow> service \<Rightarrow> term_world \<Rightarrow> term_world" where
  "put_service sid v w = w\<lparr>tw_services := hm_insert sid v (tw_services w)\<rparr>"

definition get_or_create_service ::
  "nat \<Rightarrow> string \<Rightarrow> bool \<Rightarrow> bool \<Rightarrow> term_world \<Rightarrow> (string + unit) \<times> term_world" where
  "get_or_create_service now sid persistent specified w =
     (if \<not> hm_contains (tw_services w) sid \<and> length (tw_services w) \<ge> MAX_SERVICES
      then (Inl (''Maximum number of terminal services ('' @ show_nat MAX_SERVICES @ '') reached''), w)
      else let v = (case get_service sid w of Some v \<Rightarrow> v | None \<Rightarrow> service_new now sid persistent specified)
           in (Inr (), (put_service sid (reset_status persistent v) w)\<lparr>tw_cleanup_task := True\<rparr>))"

definition add_to_reaper :: "nat option \<Rightarrow> term_world \<Rightarrow> term_world" where
  "add_to_reaper c w = w\<lparr>tw_tasks := tw_tasks w @ (case c of None \<Rightarrow> [] | Some p \<Rightarrow> [p])\<rparr>"

definition remove_service :: "string \<Rightarrow> term_world \<Rightarrow> term_world" where
  "remove_service sid w =
     (case get_service sid w of
        None \<Rightarrow> w
      | Some v \<Rightarrow>
          fold (\<lambda>(t, s). add_to_reaper (snd (session_stop s))) (sv_sessions v)
            (w\<lparr>tw_services := hm_remove sid (tw_services w)\<rparr>))"

record service_metadata =
  sm_service_id :: string
  sm_created_at :: nat
  sm_terminal_count :: nat
  sm_is_persistent :: bool

definition list_services :: "term_world \<Rightarrow> service_metadata list" where
  "list_services w =
     map (\<lambda>(sid, v). \<lparr>sm_service_id = sid, sm_created_at = sv_created_at v,
                      sm_terminal_count = length (sv_sessions v), sm_is_persistent = sv_is_persistent v\<rparr>)
       (tw_services w)"

definition is_service_specified_user :: "string \<Rightarrow> term_world \<Rightarrow> bool option" where
  "is_service_specified_user sid w = map_option sv_is_specified_user (get_service sid w)"

definition service_expired :: "nat \<Rightarrow> service \<Rightarrow> bool" where
  "service_expired now v =
     ((\<not> sv_is_persistent v \<and> now - sv_last_activity v > SERVICE_IDLE_TIMEOUT) \<or>
      (sv_is_persistent v \<and> sv_sessions v = [] \<and> now - sv_last_activity v > SERVICE_IDLE_TIMEOUT * 2))"

definition cleanup_inactive_services :: "nat \<Rightarrow> term_world \<Rightarrow> term_world" where
  "cleanup_inactive_services now w =
     fold remove_service (map fst (filter (\<lambda>(sid, v). service_expired now v) (tw_services w))) w"

text \<open>The reaper: a child leaves the list once it has exited or cannot be waited for.\<close>

definition check_zombie_terminals :: "(nat \<Rightarrow> wait_status) \<Rightarrow> term_world \<Rightarrow> term_world" where
  "check_zombie_terminals wait w = w\<lparr>tw_tasks := filter (\<lambda>p. wait p = StillRunning) (tw_tasks w)\<rparr>"

definition get_terminal_session_count :: "bool \<Rightarrow> term_world \<Rightarrow> nat" where
  "get_terminal_session_count include_zombie_tasks w =
     length (tw_services w) + (if include_zombie_tasks then length (tw_tasks w) else 0)"

definition set_persistent :: "string \<Rightarrow> bool \<Rightarrow> term_world \<Rightarrow> (string + unit) \<times> term_world" where
  "set_persistent sid persistent w =
     (case get_service sid w of
        Some v \<Rightarrow> (Inr (), put_service sid (v\<lparr>sv_is_persistent := persistent\<rparr>) w)
      | None \<Rightarrow> (Inl (''Service '' @ sid @ '' not found''), w))"

section \<open>Client actions\<close>

record proxy =
  px_service_id :: string
  px_is_persistent :: bool

definition proxy_new :: "string \<Rightarrow> bool option \<Rightarrow> term_world \<Rightarrow> proxy" where
  "proxy_new sid persistent w =
     \<lparr>px_service_id = sid,
      px_is_persistent =
        (case persistent of
           Some p \<Rightarrow> p
         | None \<Rightarrow> (case get_service sid w of Some v \<Rightarrow> sv_is_persistent v | None \<Rightarrow> False))\<rparr>"

record terminal_opened =
  to_terminal_id :: int
  to_success :: bool
  to_message :: string
  to_pid :: u32
  to_service_id :: string
  to_replay_terminal_output :: bool
  to_persistent_sessions :: "int list"

record terminal_data =
  td_terminal_id :: int
  td_data :: bytes
  td_compressed :: bool

datatype terminal_response =
    RError string
  | ROpened terminal_opened
  | RData terminal_data
  | RClosed int int

record open_terminal =
  ot_terminal_id :: int
  ot_rows :: u32
  ot_cols :: u32

datatype terminal_action =
    AOpen open_terminal
  | AResize int u32 u32
  | AData int bytes
  | AClose int
  | AUnset

text \<open>What the operating system answers to the calls of an action: \<open>openpty\<close>, spawning the shell,
  the writer and the reader of the PTY master, a resize, a kill.\<close>

record open_env =
  oe_openpty :: "string option"
  oe_spawn :: "string + (nat \<times> u32 option)"
  oe_take_writer :: "string option"
  oe_clone_reader :: "string option"
  oe_resize :: "string option"
  oe_kill :: "string option"

type_synonym action_result = "string + terminal_response option"

text \<open>The one-time remap of the lowest surviving session to the requested id.\<close>

definition remap_lowest :: "int \<Rightarrow> service \<Rightarrow> service" where
  "remap_lowest t v =
     (if \<not> hm_contains (sv_sessions v) t \<and> sv_needs_session_sync v \<and> sv_sessions v \<noteq> [] then
        (let lowest = Min (set (map fst (sv_sessions v))) in
         case hm_get (sv_sessions v) lowest of
           Some s \<Rightarrow> v\<lparr>sv_sessions := hm_insert t s (hm_remove lowest (sv_sessions v))\<rparr>
         | None \<Rightarrow> v)
      else v)"

text \<open>Reconnecting to a session: the replay buffer is taken after the backlog of the channel (at most
  \<open>CHANNEL_BUFFER_SIZE\<close> chunks) has been appended to the history.\<close>

definition take_backlog :: "session \<Rightarrow> session" where
  "take_backlog s =
     (case s_output_rx s of
        None \<Rightarrow> s
      | Some q \<Rightarrow>
          s\<lparr>s_output_rx := Some (drop CHANNEL_BUFFER_SIZE q),
            s_output_buffer := fold ob_append (take CHANNEL_BUFFER_SIZE q) (s_output_buffer s)\<rparr>)"

definition reconnect_session :: "session \<Rightarrow> session" where
  "reconnect_session s =
     (let s1 = take_backlog s;
          buffer = get_recent DEFAULT_RECONNECT_BUFFER_BYTES (s_output_buffer s1)
      in s1\<lparr>s_state := SActive (if buffer \<noteq> [] then Some buffer else None)
                                (SwTempResize MAX_SIGWINCH_PHASE_ATTEMPTS)\<rparr>)"

definition handle_open_reconnect :: "proxy \<Rightarrow> open_terminal \<Rightarrow> session \<Rightarrow> service \<Rightarrow> action_result \<times> service" where
  "handle_open_reconnect px op s v =
     (let t = ot_terminal_id op;
          s1 = reconnect_session s;
          has_pending = (case s_state s1 of SActive (Some b) _ \<Rightarrow> True | _ \<Rightarrow> False);
          others = (if sv_needs_session_sync v \<and> length (sv_sessions v) > 1
                    then filter (\<lambda>i. i \<noteq> t) (map fst (sv_sessions v)) else [])
      in (Inr (Some (ROpened
            \<lparr>to_terminal_id = t, to_success = True,
             to_message = (if has_pending then ''Reconnected to existing terminal with pending output''
                           else ''Reconnected to existing terminal''),
             to_pid = s_pid s1, to_service_id = px_service_id px,
             to_replay_terminal_output = has_pending, to_persistent_sessions = others\<rparr>)),
          v\<lparr>sv_sessions := hm_insert t s1 (sv_sessions v), sv_needs_session_sync := False\<rparr>))"

definition spawned_session :: "nat \<Rightarrow> open_terminal \<Rightarrow> nat \<Rightarrow> u32 option \<Rightarrow> session" where
  "spawned_session now op child pid =
     (session_new now (ot_terminal_id op) (ucast (ot_rows op)) (ucast (ot_cols op)))
       \<lparr>s_pid := (case pid of Some p \<Rightarrow> p | None \<Rightarrow> 0),
        s_pty_pair := Some (ucast (ot_rows op), ucast (ot_cols op)), s_child := Some child,
        s_input_tx := True, s_output_rx := Some [], s_reader_thread := Some (reader_new now),
        s_writer_thread := True, s_state := SActive None SwIdle\<rparr>"

definition handle_open_new :: "nat \<Rightarrow> open_env \<Rightarrow> open_terminal \<Rightarrow> service \<Rightarrow> action_result \<times> service" where
  "handle_open_new now e op v =
     (case oe_openpty e of
        Some _ \<Rightarrow> (Inl ''Failed to open PTY'', v)
      | None \<Rightarrow>
          (case oe_spawn e of
             Inl _ \<Rightarrow> (Inl ''Failed to spawn command'', v)
           | Inr (child, pid) \<Rightarrow>
               if oe_take_writer e \<noteq> None then (Inl ''Failed to get writer'', v)
               else if oe_clone_reader e \<noteq> None then (Inl ''Failed to get reader'', v)
               else
                 (let s = spawned_session now op child pid
                  in (Inr (Some (ROpened
                        \<lparr>to_terminal_id = ot_terminal_id op, to_success = True, to_message = ''Terminal opened'',
                         to_pid = s_pid s, to_service_id = sv_service_id v, to_replay_terminal_output = False,
                         to_persistent_sessions = (if sv_needs_session_sync v then map fst (sv_sessions v) else [])\<rparr>)),
                      v\<lparr>sv_sessions := hm_insert (ot_terminal_id op) s (sv_sessions v), sv_needs_session_sync := False\<rparr>))))"

definition handle_open :: "nat \<Rightarrow> proxy \<Rightarrow> open_env \<Rightarrow> open_terminal \<Rightarrow> service \<Rightarrow> action_result \<times> service" where
  "handle_open now px e op v =
     (let v1 = remap_lowest (ot_terminal_id op) v in
      case hm_get (sv_sessions v1) (ot_terminal_id op) of
        Some s \<Rightarrow> handle_open_reconnect px op s v1
      | None \<Rightarrow> handle_open_new now e op v1)"

definition resize_pty :: "open_env \<Rightarrow> u32 \<Rightarrow> u32 \<Rightarrow> session \<Rightarrow> (string + unit) \<times> session" where
  "resize_pty e rows cols s =
     (case s_pty_pair s of
        None \<Rightarrow> (Inr (), s)
      | Some _ \<Rightarrow>
          (case oe_resize e of
             Some err \<Rightarrow> (Inl err, s)
           | None \<Rightarrow> (Inr (), s\<lparr>s_pty_pair := Some (ucast rows, ucast cols)\<rparr>)))"

definition handle_resize :: "nat \<Rightarrow> open_env \<Rightarrow> u32 \<Rightarrow> u32 \<Rightarrow> session \<Rightarrow> action_result \<times> session" where
  "handle_resize now e rows cols s =
     (let s1 = (session_update_activity now s)\<lparr>s_rows := ucast rows, s_cols := ucast cols\<rparr> in
      case resize_pty e rows cols s1 of
        (Inl err, s2) \<Rightarrow> (Inl err, s2)
      | (Inr _, s2) \<Rightarrow> (Inr None, s2))"

definition handle_data :: "nat \<Rightarrow> bytes \<Rightarrow> session \<Rightarrow> action_result \<times> session" where
  "handle_data now d s =
     (let s1 = session_update_activity now s in
      (Inr None, if s_input_tx s1 then s1\<lparr>s_input_sent := s_input_sent s1 @ [d]\<rparr> else s1))"

text \<open>\<open>handle_close\<close>: result, service, and the child handed to the reaper.  A failed kill returns
  before the reaper gets the child, after the session has left the map.\<close>

definition handle_close :: "open_env \<Rightarrow> int \<Rightarrow> service \<Rightarrow> action_result \<times> service \<times> nat option" where
  "handle_close e t v =
     (case hm_get (sv_sessions v) t of
        None \<Rightarrow> (Inr None, v, None)
      | Some s \<Rightarrow>
          (let v1 = v\<lparr>sv_sessions := hm_remove t (sv_sessions v)\<rparr> in
           case s_child s of
             None \<Rightarrow> (Inr (Some (RClosed t 0)), v1, None)
           | Some c \<Rightarrow>
               (case oe_kill e of
                  Some err \<Rightarrow> (Inl err, v1, None)
                | None \<Rightarrow> (Inr (Some (RClosed t (- 1))), v1, Some c))))"

definition on_session :: "int \<Rightarrow> (session \<Rightarrow> action_result \<times> session) \<Rightarrow> service \<Rightarrow> action_result \<times> service" where
  "on_session t f v =
     (case hm_get (sv_sessions v) t of
        None \<Rightarrow> (Inr None, v)
      | Some s \<Rightarrow> (case f s of (r, s1) \<Rightarrow> (r, v\<lparr>sv_sessions := hm_insert t s1 (sv_sessions v)\<rparr>)))"

definition handle_action ::
  "nat \<Rightarrow> open_env \<Rightarrow> proxy \<Rightarrow> terminal_action \<Rightarrow> term_world \<Rightarrow> action_result \<times> term_world" where
  "handle_action now e px act w =
     (case get_service (px_service_id px) w of
        None \<Rightarrow> (Inr (Some (RError (''Terminal service '' @ px_service_id px @ '' not found''))), w)
      | Some v0 \<Rightarrow>
          (let v = service_update_activity now v0 in
           case act of
             AOpen op \<Rightarrow> (case handle_open now px e op v of (r, v1) \<Rightarrow> (r, put_service (px_service_id px) v1 w))
           | AResize t rows cols \<Rightarrow>
               (case on_session t (handle_resize now e rows cols) v of (r, v1) \<Rightarrow> (r, put_service (px_service_id px) v1 w))
           | AData t d \<Rightarrow>
               (case on_session t (handle_data now d) v of (r, v1) \<Rightarrow> (r, put_service (px_service_id px) v1 w))
           | AClose t \<Rightarrow>
               (case handle_close e t v of (r, v1, c) \<Rightarrow> (r, add_to_reaper c (put_service (px_service_id px) v1 w)))
           | AUnset \<Rightarrow> (Inr None, put_service (px_service_id px) v w)))"

section \<open>Polling\<close>

record poll_env =
  pe_locked :: bool
  pe_wait :: wait_status
  pe_exit :: wait_status
  pe_resize_ok :: bool

definition do_sigwinch_resize :: "bool \<Rightarrow> u16 \<Rightarrow> u16 \<Rightarrow> sigwinch_action \<Rightarrow> (u16 \<times> u16) option \<Rightarrow> bool \<times> (u16 \<times> u16) option" where
  "do_sigwinch_resize ok rows cols act pty =
     (if rows = 0 \<or> cols = 0 then (False, pty)
      else let target_rows = (case act of
                 DoTempResize \<Rightarrow> if rows > 2 then rows - 1 else rows + 1
               | DoRestore \<Rightarrow> rows)
           in case pty of
                Some _ \<Rightarrow> if ok then (True, Some (target_rows, cols)) else (False, pty)
              | None \<Rightarrow> (False, None))"

definition sigwinch_decide :: "sigwinch_phase \<Rightarrow> sigwinch_phase \<times> sigwinch_action option" where
  "sigwinch_decide ph =
     (case ph of
        SwTempResize 0 \<Rightarrow> (SwIdle, None)
      | SwTempResize (Suc n) \<Rightarrow> (SwTempResize n, Some DoTempResize)
      | SwRestore 0 \<Rightarrow> (SwIdle, None)
      | SwRestore (Suc n) \<Rightarrow> (SwRestore n, Some DoRestore)
      | SwIdle \<Rightarrow> (SwIdle, None))"

definition sigwinch_advance :: "sigwinch_action \<Rightarrow> bool \<Rightarrow> sigwinch_phase \<Rightarrow> sigwinch_phase" where
  "sigwinch_advance act ok ph =
     (if ok then (case act of DoTempResize \<Rightarrow> SwRestore MAX_SIGWINCH_PHASE_ATTEMPTS | DoRestore \<Rightarrow> SwIdle) else ph)"

definition create_terminal_data_response :: "(bytes \<Rightarrow> bytes) \<Rightarrow> int \<Rightarrow> bytes \<Rightarrow> terminal_response" where
  "create_terminal_data_response compress t d =
     (if length d > COMPRESS_THRESHOLD \<and> length (compress d) < length d
      then RData \<lparr>td_terminal_id = t, td_data = compress d, td_compressed = True\<rparr>
      else RData \<lparr>td_terminal_id = t, td_data = d, td_compressed = False\<rparr>)"

text \<open>The stages of \<open>read_outputs\<close> for one session: has it ended, drain the channel into the history,
  the SIGWINCH step, the responses.\<close>

definition check_closed :: "poll_env \<Rightarrow> session \<Rightarrow> bool \<times> session" where
  "check_closed e s =
     (if s_closed_message_sent s then (False, s)
      else if (case s_reader_thread s of Some r \<Rightarrow> rt_finished r | None \<Rightarrow> False) \<or>
              (s_child s \<noteq> None \<and> (case pe_wait e of Exited _ \<Rightarrow> True | _ \<Rightarrow> False))
           then (True, s\<lparr>s_closed_message_sent := True\<rparr>)
           else (False, s))"

definition drain_output :: "session \<Rightarrow> bytes list \<times> session" where
  "drain_output s =
     (case s_output_rx s of
        None \<Rightarrow> ([], s)
      | Some q \<Rightarrow> (q, s\<lparr>s_output_rx := Some [], s_output_buffer := fold ob_append q (s_output_buffer s)\<rparr>))"

definition sigwinch_step :: "poll_env \<Rightarrow> sigwinch_phase \<Rightarrow> session \<Rightarrow> sigwinch_phase \<times> (u16 \<times> u16) option" where
  "sigwinch_step e ph s =
     (case sigwinch_decide ph of
        (ph1, None) \<Rightarrow> (ph1, s_pty_pair s)
      | (ph1, Some act) \<Rightarrow>
          (case do_sigwinch_resize (pe_resize_ok e) (s_rows s) (s_cols s) act (s_pty_pair s) of
             (ok, pty) \<Rightarrow> (sigwinch_advance act ok ph1, pty)))"

definition poll_active ::
  "(bytes \<Rightarrow> bytes) \<Rightarrow> nat \<Rightarrow> poll_env \<Rightarrow> int \<Rightarrow> bytes list \<Rightarrow> session \<Rightarrow> terminal_response list \<times> session" where
  "poll_active compress now e t received s =
     (case s_state s of
        SClosed \<Rightarrow> ([], s)
      | SActive pending ph \<Rightarrow>
          (case sigwinch_step e ph s of
             (ph1, pty) \<Rightarrow>
               (map (create_terminal_data_response compress t)
                    ((case pending of Some b \<Rightarrow> if b \<noteq> [] then [b] else [] | None \<Rightarrow> []) @ received),
                s\<lparr>s_state := SActive None ph1, s_pty_pair := pty,
                  s_last_activity := (if received \<noteq> [] then now else s_last_activity s)\<rparr>)))"

definition poll_session ::
  "(bytes \<Rightarrow> bytes) \<Rightarrow> nat \<Rightarrow> poll_env \<Rightarrow> int \<Rightarrow> session \<Rightarrow> bool \<times> terminal_response list \<times> session" where
  "poll_session compress now e t s =
     (if pe_locked e then (False, [], s)
      else case check_closed e s of
        (closed, s1) \<Rightarrow>
          (case drain_output s1 of
             (received, s2) \<Rightarrow>
               (case poll_active compress now e t received s2 of (rs, s3) \<Rightarrow> (closed, rs, s3))))"

fun poll_sessions ::
  "(bytes \<Rightarrow> bytes) \<Rightarrow> nat \<Rightarrow> (int \<Rightarrow> poll_env) \<Rightarrow> (int \<times> session) list \<Rightarrow> int list \<times> terminal_response list \<times> (int \<times> session) list" where
  "poll_sessions compress now env [] = ([], [], [])"
| "poll_sessions compress now env ((t, s) # ss) =
     (case poll_session compress now (env t) t s of
        (closed, rs, s1) \<Rightarrow>
          (case poll_sessions compress now env ss of
             (cs, rss, ss1) \<Rightarrow> ((if closed then t # cs else cs), rs @ rss, (t, s1) # ss1)))"

text \<open>The cleanup of an ended terminal, for a non-persistent and a persistent proxy.\<close>

definition take_child :: "poll_env \<Rightarrow> session \<Rightarrow> int \<times> nat option \<times> session" where
  "take_child e s =
     (case s_child s of
        None \<Rightarrow> (0, None, s)
      | Some c \<Rightarrow> ((case pe_exit e of Exited code \<Rightarrow> sint code | _ \<Rightarrow> 0), Some c, s\<lparr>s_child := None\<rparr>))"

definition close_terminal ::
  "bool \<Rightarrow> (int \<Rightarrow> poll_env) \<Rightarrow> int \<Rightarrow> (int \<times> session) list \<Rightarrow> terminal_response \<times> nat option \<times> (int \<times> session) list" where
  "close_terminal persistent env t ss =
     (case hm_get ss t of
        None \<Rightarrow> (RClosed t 0, None, ss)
      | Some s \<Rightarrow>
          (case take_child (env t) s of
             (code, c, s1) \<Rightarrow>
               if \<not> persistent then (RClosed t code, c, hm_remove t ss)
               else if s_closed_message_sent s1 then (RClosed t code, c, hm_remove t ss)
               else (RClosed t code, c, hm_insert t s1 ss)))"

fun close_terminals ::
  "bool \<Rightarrow> (int \<Rightarrow> poll_env) \<Rightarrow> int list \<Rightarrow> (int \<times> session) list \<Rightarrow> terminal_response list \<times> nat list \<times> (int \<times> session) list" where
  "close_terminals persistent env [] ss = ([], [], ss)"
| "close_terminals persistent env (t # ts) ss =
     (case close_terminal persistent env t ss of
        (r, c, ss1) \<Rightarrow>
          (case close_terminals persistent env ts ss1 of
             (rs, cs, ss2) \<Rightarrow> (r # rs, (case c of Some p \<Rightarrow> p # cs | None \<Rightarrow> cs), ss2)))"

definition read_outputs ::
  "(bytes \<Rightarrow> bytes) \<Rightarrow> nat \<Rightarrow> (int \<Rightarrow> poll_env) \<Rightarrow> proxy \<Rightarrow> term_world \<Rightarrow> terminal_response list \<times> term_world" where
  "read_outputs compress now env px w =
     (case get_service (px_service_id px) w of
        None \<Rightarrow> ([], w)
      | Some v \<Rightarrow>
          (case poll_sessions compress now env (sv_sessions v) of
             (closed, rs, ss1) \<Rightarrow>
               (case close_terminals (px_is_persistent px) env closed ss1 of
                  (rs2, cs, ss2) \<Rightarrow>
                    (rs @ rs2,
                     (put_service (px_service_id px) (v\<lparr>sv_sessions := ss2\<rparr>) w)\<lparr>tw_tasks := tw_tasks w @ cs\<rparr>))))"

text \<open>One turn of the service loop, its end, and the end of a connection.\<close>

definition run_turn :: "(bytes \<Rightarrow> bytes) \<Rightarrow> nat \<Rightarrow> (int \<Rightarrow> poll_env) \<Rightarrow> string \<Rightarrow> term_world \<Rightarrow> terminal_response list \<times> term_world" where
  "run_turn compress now env sid w = read_outputs compress now env (proxy_new sid None w) w"

definition run_exit :: "string \<Rightarrow> term_world \<Rightarrow> term_world" where
  "run_exit sid w =
     (case get_service sid w of
        Some v \<Rightarrow> if \<not> sv_is_persistent v then remove_service sid w else w
      | None \<Rightarrow> w)"

definition on_disconnect :: "proxy \<Rightarrow> term_world \<Rightarrow> term_world" where
  "on_disconnect px w = (if \<not> px_is_persistent px then remove_service (px_service_id px) w else w)"

section \<open>Runs\<close>

text \<open>Everything that happens to the registry: a client opens the service, sends an action, the service
  loop polls, a reader thread gets data, the cleanup thread runs, persistence is toggled, the loop or
  the connection ends.\<close>

datatype term_event =
    EvNew nat string bool bool
  | EvAction nat open_env proxy terminal_action
  | EvPoll nat "int \<Rightarrow> poll_env" string
  | EvReader nat string int read_event
  | EvCleanup nat
  | EvReap "nat \<Rightarrow> wait_status"
  | EvPersist string bool
  | EvRunExit string
  | EvDisconnect proxy

definition reader_event :: "nat \<Rightarrow> string \<Rightarrow> int \<Rightarrow> read_event \<Rightarrow> term_world \<Rightarrow> term_world" where
  "reader_event now sid t ev w =
     (case get_service sid w of
        None \<Rightarrow> w
      | Some v \<Rightarrow>
          (case hm_get (sv_sessions v) t of
             None \<Rightarrow> w
           | Some s \<Rightarrow> put_service sid (v\<lparr>sv_sessions := hm_insert t (reader_step now ev s) (sv_sessions v)\<rparr>) w))"

fun term_step :: "(bytes \<Rightarrow> bytes) \<Rightarrow> term_event \<Rightarrow> term_world \<Rightarrow> term_world" where
  "term_step compress (EvNew now sid p u) w = snd (get_or_create_service now sid p u w)"
| "term_step compress (EvAction now e px act) w = snd (handle_action now e px act w)"
| "term_step compress (EvPoll now env sid) w = snd (run_turn compress now env sid w)"
| "term_step compress (EvReader now sid t ev) w = reader_event now sid t ev w"
| "term_step compress (EvCleanup now) w = cleanup_inactive_services now w"
| "term_step compress (EvReap wait) w = check_zombie_terminals wait w"
| "term_step compress (EvPersist sid p) w = snd (set_persistent sid p w)"
| "term_step compress (EvRunExit sid) w = run_exit sid w"
| "term_step compress (EvDisconnect px) w = on_disconnect px w"

definition world_new :: term_world where
  "world_new = \<lparr>tw_services = [], tw_tasks = [], tw_cleanup_task = False\<rparr>"

definition term_run :: "(bytes \<Rightarrow> bytes) \<Rightarrow> term_event list \<Rightarrow> term_world" where
  "term_run compress evs = fold (term_step compress) evs world_new"

definition sess_all :: "(session \<Rightarrow> bool) \<Rightarrow> (int \<times> session) list \<Rightarrow> bool" where
  "sess_all P ss = (hm_wf ss \<and> list_all (\<lambda>x. P (snd x)) ss)"

definition service_all :: "(session \<Rightarrow> bool) \<Rightarrow> service \<Rightarrow> bool" where
  "service_all P v = sess_all P (sv_sessions v)"

definition world_all :: "(session \<Rightarrow> bool) \<Rightarrow> term_world \<Rightarrow> bool" where
  "world_all P w =
     (hm_wf (tw_services w) \<and> length (tw_services w) \<le> MAX_SERVICES \<and>
      (\<forall>(sid, v) \<in> set (tw_services w). service_all P v))"

lemma world_all_get: "world_all P w \<Longrightarrow> get_service sid w = Some v \<Longrightarrow> service_all P v"
  by (auto simp: world_all_def get_service_def dest!: hm_get_set)

lemma sess_all_get: "sess_all P ss \<Longrightarrow> hm_get ss t = Some s \<Longrightarrow> P s"
  by (force simp: sess_all_def list_all_iff dest!: hm_get_set)

lemma sess_all_insert: "sess_all P ss \<Longrightarrow> P s \<Longrightarrow> sess_all P (hm_insert t s ss)"
  by (auto simp: sess_all_def list_all_iff dest!: in_hm_insert)

lemma sess_all_remove: "sess_all P ss \<Longrightarrow> sess_all P (hm_remove t ss)"
  using set_hm_remove_subset [of t ss] by (auto simp: sess_all_def list_all_iff)

lemma service_all_get: "service_all P v \<Longrightarrow> hm_get (sv_sessions v) t = Some s \<Longrightarrow> P s"
  by (simp add: service_all_def sess_all_get)

lemma service_all_frame [simp]:
  "service_all P (sv_needs_session_sync_update f v) = service_all P v"
  "service_all P (sv_last_activity_update g v) = service_all P v"
  "service_all P (sv_is_persistent_update f v) = service_all P v"
  by (simp_all add: service_all_def)

lemma service_all_insert:
  "service_all P v \<Longrightarrow> P s \<Longrightarrow> service_all P (v\<lparr>sv_sessions := hm_insert t s (sv_sessions v)\<rparr>)"
  by (simp add: service_all_def sess_all_insert)

lemma service_all_remove:
  "service_all P v \<Longrightarrow> service_all P (v\<lparr>sv_sessions := hm_remove t (sv_sessions v)\<rparr>)"
  by (simp add: service_all_def sess_all_remove)

lemma world_all_put:
  assumes "world_all P w" and "service_all P v"
    and "hm_contains (tw_services w) sid \<or> length (tw_services w) < MAX_SERVICES"
  shows "world_all P (put_service sid v w)"
  using assms by (auto simp: world_all_def put_service_def length_hm_insert dest!: in_hm_insert)

lemma world_all_services: "tw_services w = tw_services w' \<Longrightarrow> world_all P w = world_all P w'"
  by (simp add: world_all_def)

lemma world_all_reaper [simp]: "world_all P (add_to_reaper c w) = world_all P w"
  by (simp add: world_all_def add_to_reaper_def)

lemma get_service_contains: "get_service sid w = Some v \<Longrightarrow> hm_contains (tw_services w) sid"
  by (auto simp: get_service_def hm_contains_get)

lemma fold_reaper_services:
  "tw_services (fold (\<lambda>(t, s). add_to_reaper (f s)) ss w) = tw_services w"
  by (induction ss arbitrary: w) (auto simp: add_to_reaper_def)

lemma remove_service_services: "tw_services (remove_service sid w) = hm_remove sid (tw_services w)"
proof (cases "get_service sid w")
  case None
  then have "sid \<notin> fst ` set (tw_services w)"
    by (simp add: get_service_def hm_get_def map_of_eq_None_iff)
  then have "hm_remove sid (tw_services w) = tw_services w"
    by (auto simp: hm_remove_def filter_id_conv image_iff)
  with None show ?thesis by (simp add: remove_service_def)
qed (simp add: remove_service_def fold_reaper_services)

lemma world_all_remove: "world_all P w \<Longrightarrow> world_all P (remove_service sid w)"
  using length_hm_remove [of sid "tw_services w"] set_hm_remove_subset [of sid "tw_services w"]
  by (fastforce simp: world_all_def remove_service_services)

lemma world_all_fold_remove: "world_all P w \<Longrightarrow> world_all P (fold remove_service sids w)"
  by (induction sids arbitrary: w) (simp_all add: world_all_remove)

section \<open>Invariants of sessions\<close>

text \<open>What it takes for a property of sessions to hold of every session at all times: a new session has
  it, and each thing that happens to a session keeps it.\<close>

locale session_invariant =
  fixes P :: "session \<Rightarrow> bool"
  assumes inv_spawned: "P (spawned_session now op c pid)"
    and inv_reader: "P s \<Longrightarrow> P (reader_step now ev s)"
    and inv_poll: "P s \<Longrightarrow> poll_session compress now e t s = (closed, rs, s') \<Longrightarrow> P s'"
    and inv_reconnect: "P s \<Longrightarrow> P (reconnect_session s)"
    and inv_resize: "P s \<Longrightarrow> P (snd (handle_resize now oe rows cols s))"
    and inv_data: "P s \<Longrightarrow> P (snd (handle_data now d s))"
    and inv_reset: "P s \<Longrightarrow> P (s\<lparr>s_state := SClosed\<rparr>)"
    and inv_child: "P s \<Longrightarrow> P (s\<lparr>s_child := None\<rparr>)"
begin

lemma inv_service_reset: "service_all P v \<Longrightarrow> service_all P (reset_status p v)"
  using inv_reset by (auto simp: service_all_def sess_all_def reset_status_def list_all_iff hm_map_values_def hm_wf_def o_def case_prod_unfold)

lemma inv_remap: "service_all P v \<Longrightarrow> service_all P (remap_lowest t v)"
  by (auto simp: remap_lowest_def Let_def service_all_def intro: sess_all_insert sess_all_remove sess_all_get split: option.splits)

lemma inv_open:
  assumes v: "service_all P v" and run: "handle_open now px e op v = (r, v')"
  shows "service_all P v'"
proof (cases "hm_get (sv_sessions (remap_lowest (ot_terminal_id op) v)) (ot_terminal_id op)")
  case None
  with run inv_spawned service_all_insert [OF inv_remap [OF v]] inv_remap [OF v] show ?thesis
    by (auto simp: handle_open_def handle_open_new_def Let_def split: option.splits sum.splits if_splits)
next
  case (Some s)
  then have "P s" using service_all_get [OF inv_remap [OF v]] by blast
  with run Some inv_reconnect service_all_insert [OF inv_remap [OF v]] show ?thesis
    by (auto simp: handle_open_def handle_open_reconnect_def Let_def)
qed

lemma inv_on_session:
  assumes "service_all P v" and "on_session t f v = (r, v')" and "\<And>s. P s \<Longrightarrow> P (snd (f s))"
  shows "service_all P v'"
  using assms service_all_insert [OF assms(1)] service_all_get [OF assms(1), of t]
  by (auto simp: on_session_def split: option.splits prod.splits) (metis snd_conv)+

lemma inv_close: "service_all P v \<Longrightarrow> handle_close e t v = (r, v', c) \<Longrightarrow> service_all P v'"
  by (auto simp: handle_close_def Let_def service_all_remove split: option.splits)

lemma inv_poll_sessions:
  assumes "poll_sessions compress now env ss = (cs, rs, ss')" and "sess_all P ss"
  shows "sess_all P ss'"
proof -
  have "map fst ss' = map fst ss \<and> (list_all (\<lambda>x. P (snd x)) ss \<longrightarrow> list_all (\<lambda>x. P (snd x)) ss')"
    using assms(1)
    by (induction ss arbitrary: cs rs ss') (auto split: prod.splits dest: inv_poll)
  with assms(2) show ?thesis by (simp add: sess_all_def hm_wf_def)
qed

lemma inv_close_terminal:
  assumes "close_terminal p env t ss = (r, c, ss')" and "sess_all P ss"
  shows "sess_all P ss'"
  using assms sess_all_get [OF assms(2), of t]
  by (auto simp: close_terminal_def take_child_def intro!: sess_all_remove sess_all_insert inv_child
        split: option.splits if_splits)

lemma inv_close_terminals:
  "close_terminals p env ts ss = (rs, cs, ss') \<Longrightarrow> sess_all P ss \<Longrightarrow> sess_all P ss'"
  by (induction ts arbitrary: ss rs cs) (auto split: prod.splits dest: inv_close_terminal)

lemma inv_read_outputs:
  assumes w: "world_all P w" and run: "read_outputs compress now env px w = (rs, w')"
  shows "world_all P w'"
proof (cases "get_service (px_service_id px) w")
  case None
  with assms show ?thesis by (simp add: read_outputs_def)
next
  case (Some v)
  note v = world_all_get [OF w Some]
  obtain cs rs1 ss1 where 1: "poll_sessions compress now env (sv_sessions v) = (cs, rs1, ss1)"
    by (cases "poll_sessions compress now env (sv_sessions v)")
  obtain rs2 ds ss2 where 2: "close_terminals (px_is_persistent px) env cs ss1 = (rs2, ds, ss2)"
    by (cases "close_terminals (px_is_persistent px) env cs ss1")
  have "sess_all P ss2"
    using inv_close_terminals [OF 2 inv_poll_sessions [OF 1]] v by (simp add: service_all_def)
  then have "service_all P (v\<lparr>sv_sessions := ss2\<rparr>)" by (simp add: service_all_def)
  from world_all_put [OF w this] get_service_contains [OF Some]
  have "world_all P (put_service (px_service_id px) (v\<lparr>sv_sessions := ss2\<rparr>) w)" by blast
  then show ?thesis
    using run Some 1 2 by (auto simp: read_outputs_def world_all_def)
qed

lemma inv_action:
  assumes w: "world_all P w" and run: "handle_action now oe px act w = (r, w')"
  shows "world_all P w'"
proof (cases "get_service (px_service_id px) w")
  case None
  with assms show ?thesis by (simp add: handle_action_def)
next
  case (Some v)
  define v1 where "v1 = service_update_activity now v"
  have v1: "service_all P v1"
    using world_all_get [OF w Some] by (simp add: v1_def service_update_activity_def)
  have put: "service_all P v' \<Longrightarrow> world_all P (put_service (px_service_id px) v' w)" for v'
    using world_all_put [OF w] get_service_contains [OF Some] by blast
  show ?thesis
  proof (cases act)
    case (AOpen op)
    with run Some put inv_open [OF v1] show ?thesis
      by (auto simp: handle_action_def Let_def v1_def [symmetric] split: prod.splits)
  next
    case (AResize t rows cols)
    with run Some put inv_on_session [OF v1, of t "handle_resize now oe rows cols"] inv_resize show ?thesis
      by (auto simp: handle_action_def Let_def v1_def [symmetric] split: prod.splits)
  next
    case (AData t d)
    with run Some put inv_on_session [OF v1, of t "handle_data now d"] inv_data show ?thesis
      by (auto simp: handle_action_def Let_def v1_def [symmetric] split: prod.splits)
  next
    case (AClose t)
    with run Some put inv_close [OF v1] show ?thesis
      by (auto simp: handle_action_def Let_def v1_def [symmetric] split: prod.splits)
  next
    case AUnset
    with run Some put v1 show ?thesis
      by (auto simp: handle_action_def Let_def v1_def [symmetric])
  qed
qed

lemma inv_get_or_create:
  assumes w: "world_all P w"
  shows "world_all P (snd (get_or_create_service now sid p u w))"
proof (cases "\<not> hm_contains (tw_services w) sid \<and> length (tw_services w) \<ge> MAX_SERVICES")
  case True
  with w show ?thesis by (simp add: get_or_create_service_def)
next
  case False
  define v where "v = (case get_service sid w of Some v \<Rightarrow> v | None \<Rightarrow> service_new now sid p u)"
  have "service_all P v"
    using world_all_get [OF w, of sid] by (auto simp: v_def service_new_def service_all_def sess_all_def split: option.splits)
  then have "world_all P (put_service sid (reset_status p v) w)"
    using False by (intro world_all_put [OF w] inv_service_reset) auto
  then have "world_all P ((put_service sid (reset_status p v) w)\<lparr>tw_cleanup_task := True\<rparr>)"
    by (simp add: world_all_def)
  moreover have "snd (get_or_create_service now sid p u w) = (put_service sid (reset_status p v) w)\<lparr>tw_cleanup_task := True\<rparr>"
    using False by (auto simp: get_or_create_service_def Let_def v_def)
  ultimately show ?thesis by simp
qed

lemma inv_reader_event:
  assumes w: "world_all P w"
  shows "world_all P (reader_event now sid t ev w)"
proof (cases "get_service sid w")
  case (Some v)
  note v = world_all_get [OF w Some]
  show ?thesis
  proof (cases "hm_get (sv_sessions v) t")
    case s: (Some s)
    have "service_all P (v\<lparr>sv_sessions := hm_insert t (reader_step now ev s) (sv_sessions v)\<rparr>)"
      by (intro service_all_insert [OF v] inv_reader service_all_get [OF v s])
    then show ?thesis
      using world_all_put [OF w] get_service_contains [OF Some] Some s by (simp add: reader_event_def)
  qed (simp add: reader_event_def Some w)
qed (simp add: reader_event_def w)

lemma inv_set_persistent:
  assumes w: "world_all P w"
  shows "world_all P (snd (set_persistent sid p w))"
  using world_all_get [OF w, of sid] world_all_put [OF w] get_service_contains [of sid w]
  by (auto simp: set_persistent_def w split: option.splits)

theorem inv_step: "world_all P w \<Longrightarrow> world_all P (term_step compress ev w)"
proof (cases ev)
  case (EvAction now e px act)
  assume "world_all P w"
  with EvAction inv_action [of w now e px act] show ?thesis by (cases "handle_action now e px act w") simp
next
  case (EvPoll now env sid)
  assume "world_all P w"
  with EvPoll inv_read_outputs [of w compress now env "proxy_new sid None w"] show ?thesis
    by (cases "read_outputs compress now env (proxy_new sid None w) w") (simp add: run_turn_def)
next
  case (EvReap wait)
  assume "world_all P w"
  with EvReap show ?thesis by (simp add: check_zombie_terminals_def world_all_def)
qed (simp_all add: inv_get_or_create inv_reader_event inv_set_persistent cleanup_inactive_services_def
       world_all_fold_remove run_exit_def on_disconnect_def world_all_remove split: option.splits)

lemma inv_run: "world_all P (term_run compress evs)"
proof (induction evs rule: rev_induct)
  case Nil
  then show ?case by (simp add: term_run_def world_new_def world_all_def)
next
  case (snoc e es)
  then show ?case using inv_step by (simp add: term_run_def)
qed

lemma inv_sessions:
  assumes "get_service sid (term_run compress evs) = Some v" and "hm_get (sv_sessions v) t = Some s"
  shows "P s"
  using world_all_get [OF inv_run assms(1)] assms(2) by (rule service_all_get)

end

section \<open>The sessions of every run are well formed\<close>

fun phase_ok :: "sigwinch_phase \<Rightarrow> bool" where
  "phase_ok SwIdle = True"
| "phase_ok (SwTempResize n) = (n \<le> MAX_SIGWINCH_PHASE_ATTEMPTS)"
| "phase_ok (SwRestore n) = (n \<le> MAX_SIGWINCH_PHASE_ATTEMPTS)"

fun state_ok :: "session_state \<Rightarrow> bool" where
  "state_ok SClosed = True"
| "state_ok (SActive pending ph) =
     ((case pending of None \<Rightarrow> True | Some b \<Rightarrow> b \<noteq> [] \<and> length b \<le> DEFAULT_RECONNECT_BUFFER_BYTES) \<and> phase_ok ph)"

definition queue_ok :: "bytes list option \<Rightarrow> bool" where
  "queue_ok ch = (case ch of None \<Rightarrow> True | Some q \<Rightarrow> length q \<le> CHANNEL_BUFFER_SIZE)"

definition reader_ok :: "reader_thread option \<Rightarrow> bool" where
  "reader_ok r = (case r of None \<Rightarrow> True | Some x \<Rightarrow> length (ua_remainder (rt_acc x)) \<le> 3)"

definition session_ok :: "session \<Rightarrow> bool" where
  "session_ok s =
     (ob_ok (s_output_buffer s) \<and> queue_ok (s_output_rx s) \<and> state_ok (s_state s) \<and> reader_ok (s_reader_thread s))"

lemma ob_ok_new: "ob_ok ob_new"
  by (simp add: ob_new_def ob_ok_def lines_ok_def)

lemma ob_ok_fold: "ob_ok b \<Longrightarrow> ob_ok (fold ob_append ds b)"
  by (induction ds arbitrary: b) (simp_all add: ob_append_ok)

lemma sigwinch_step_ok:
  assumes "phase_ok ph"
  shows "phase_ok (fst (sigwinch_step e ph s))"
proof (cases ph)
  case (SwTempResize n)
  with assms show ?thesis
    by (cases n) (auto simp: sigwinch_step_def sigwinch_decide_def sigwinch_advance_def split: prod.splits)
next
  case (SwRestore n)
  with assms show ?thesis
    by (cases n) (auto simp: sigwinch_step_def sigwinch_decide_def sigwinch_advance_def split: prod.splits)
qed (simp add: sigwinch_step_def sigwinch_decide_def)

text \<open>What polling an unlocked session does, by its state.\<close>

definition drained :: "session \<Rightarrow> bytes list" where
  "drained s = (case s_output_rx s of None \<Rightarrow> [] | Some q \<Rightarrow> q)"

definition polled :: "session \<Rightarrow> session" where
  "polled s = snd (drain_output s)"

lemma drain_output_drained: "drain_output s = (drained s, polled s)"
  by (simp add: drain_output_def drained_def polled_def split: option.splits)

lemma polled_sel [simp]:
  "s_state (polled s) = s_state s" "s_pty_pair (polled s) = s_pty_pair s" "s_rows (polled s) = s_rows s"
  "s_cols (polled s) = s_cols s" "s_child (polled s) = s_child s" "s_reader_thread (polled s) = s_reader_thread s"
  "s_closed_message_sent (polled s) = s_closed_message_sent s"
  "s_output_buffer (polled s) = fold ob_append (drained s) (s_output_buffer s)"
  by (simp_all add: polled_def drain_output_def drained_def split: option.splits)

lemma drained_frame [simp]: "drained (s\<lparr>s_closed_message_sent := b\<rparr>) = drained s"
  by (simp add: drained_def)

lemma check_closed_session:
  "check_closed e s = (closed, s1) \<Longrightarrow> s1 = s\<lparr>s_closed_message_sent := s_closed_message_sent s \<or> closed\<rparr>"
  by (auto simp: check_closed_def split: if_splits)

lemma poll_active_sel:
  assumes "poll_active compress now e t received s = (rs, s')"
  shows "s_output_buffer s' = s_output_buffer s" "s_output_rx s' = s_output_rx s" "s_reader_thread s' = s_reader_thread s"
    "s_child s' = s_child s" "s_closed_message_sent s' = s_closed_message_sent s"
    "s_rows s' = s_rows s" "s_cols s' = s_cols s"
    "s_state s' = (case s_state s of SClosed \<Rightarrow> SClosed | SActive p ph \<Rightarrow> SActive None (fst (sigwinch_step e ph s)))"
    "s_pty_pair s' = (case s_state s of SClosed \<Rightarrow> s_pty_pair s | SActive p ph \<Rightarrow> snd (sigwinch_step e ph s))"
    "rs = (case s_state s of SClosed \<Rightarrow> [] | SActive p ph \<Rightarrow>
             map (create_terminal_data_response compress t)
               ((case p of Some b \<Rightarrow> if b \<noteq> [] then [b] else [] | None \<Rightarrow> []) @ received))"
  using assms by (auto simp: poll_active_def split: session_state.splits prod.splits)

lemma sigwinch_step_frame:
  "s_pty_pair s = s_pty_pair s' \<Longrightarrow> s_rows s = s_rows s' \<Longrightarrow> s_cols s = s_cols s' \<Longrightarrow>
   sigwinch_step e ph s = sigwinch_step e ph s'"
  unfolding sigwinch_step_def by presburger

lemma poll_session_sel:
  assumes "poll_session compress now e t s = (closed, rs, s')" and "\<not> pe_locked e"
  shows "s_output_buffer s' = fold ob_append (drained s) (s_output_buffer s)"
    "s_output_rx s' = map_option (\<lambda>_. []) (s_output_rx s)" "s_reader_thread s' = s_reader_thread s"
    "s_child s' = s_child s" "s_rows s' = s_rows s" "s_cols s' = s_cols s"
    "s_state s' = (case s_state s of SClosed \<Rightarrow> SClosed | SActive p ph \<Rightarrow> SActive None (fst (sigwinch_step e ph s)))"
    "s_pty_pair s' = (case s_state s of SClosed \<Rightarrow> s_pty_pair s | SActive p ph \<Rightarrow> snd (sigwinch_step e ph s))"
    "rs = (case s_state s of SClosed \<Rightarrow> [] | SActive p ph \<Rightarrow>
             map (create_terminal_data_response compress t)
               ((case p of Some b \<Rightarrow> if b \<noteq> [] then [b] else [] | None \<Rightarrow> []) @ drained s))"
    "closed = fst (check_closed e s)" "s_closed_message_sent s' = (s_closed_message_sent s \<or> closed)"
proof -
  obtain s1 where 1: "check_closed e s = (closed, s1)" "poll_active compress now e t (drained s1) (polled s1) = (rs, s')"
    using assms by (auto simp: poll_session_def drain_output_drained split: prod.splits)
  have s1: "s1 = s\<lparr>s_closed_message_sent := s_closed_message_sent s \<or> closed\<rparr>"
    using 1(1) by (rule check_closed_session)
  have rx: "s_output_rx (polled s1) = map_option (\<lambda>_. []) (s_output_rx s)"
    by (simp add: s1 polled_def drain_output_def split: option.splits)
  have sg: "sigwinch_step e ph (polled s1) = sigwinch_step e ph s" for ph
    by (rule sigwinch_step_frame) (simp_all add: s1)
  note sel = poll_active_sel [OF 1(2)]
  show "s_output_buffer s' = fold ob_append (drained s) (s_output_buffer s)" "s_output_rx s' = map_option (\<lambda>_. []) (s_output_rx s)"
    "s_reader_thread s' = s_reader_thread s" "s_child s' = s_child s" "s_rows s' = s_rows s" "s_cols s' = s_cols s"
    "s_state s' = (case s_state s of SClosed \<Rightarrow> SClosed | SActive p ph \<Rightarrow> SActive None (fst (sigwinch_step e ph s)))"
    "s_pty_pair s' = (case s_state s of SClosed \<Rightarrow> s_pty_pair s | SActive p ph \<Rightarrow> snd (sigwinch_step e ph s))"
    "s_closed_message_sent s' = (s_closed_message_sent s \<or> closed)" "closed = fst (check_closed e s)"
    using sel rx sg 1(1) by (simp_all add: s1 cong: session_state.case_cong)
  show "rs = (case s_state s of SClosed \<Rightarrow> [] | SActive p ph \<Rightarrow>
             map (create_terminal_data_response compress t)
               ((case p of Some b \<Rightarrow> if b \<noteq> [] then [b] else [] | None \<Rightarrow> []) @ drained s))"
    unfolding sel(10) by (simp add: s1 cong: session_state.case_cong option.case_cong)
qed

lemma poll_session_locked: "pe_locked e \<Longrightarrow> poll_session compress now e t s = (False, [], s)"
  by (simp add: poll_session_def)

lemma session_ok_poll:
  assumes ok: "session_ok s" and run: "poll_session compress now e t s = (closed, rs, s')"
  shows "session_ok s'"
proof (cases "pe_locked e")
  case True
  with assms show ?thesis by (simp add: poll_session_locked)
next
  case False
  note sel = poll_session_sel [OF run False]
  have "state_ok (s_state s')"
    using ok sigwinch_step_ok by (auto simp: sel session_ok_def split: session_state.splits)
  then show ?thesis
    using ok by (auto simp: session_ok_def sel queue_ok_def reader_ok_def ob_ok_fold split: option.splits)
qed

lemma queue_ok_send:
  assumes "try_send_output now d ch r = (stop, ch', r')"
  shows "(queue_ok ch \<longrightarrow> queue_ok ch') \<and> rt_acc r' = rt_acc r"
  using assms by (auto simp: try_send_output_def queue_ok_def split: option.splits if_splits)

lemma reader_send_ok:
  assumes "session_ok s" and "length (ua_remainder (rt_acc r)) \<le> 3"
  shows "session_ok (reader_send now d r s)"
proof -
  obtain stop ch r1 where t: "try_send_output now d (s_output_rx s) r = (stop, ch, r1)"
    by (cases "try_send_output now d (s_output_rx s) r")
  from queue_ok_send [OF t] assms show ?thesis
    by (simp add: reader_send_def t session_ok_def reader_ok_def)
qed

lemma session_ok_reader:
  assumes ok: "session_ok s"
  shows "session_ok (reader_step now ev s)"
proof (cases "s_reader_thread s")
  case None
  with ok show ?thesis by (simp add: reader_step_def)
next
  case (Some r)
  have r: "length (ua_remainder (rt_acc r)) \<le> 3"
    using ok Some by (simp add: session_ok_def reader_ok_def)
  have upd: "session_ok s1 \<Longrightarrow> length (ua_remainder (rt_acc r1)) \<le> 3 \<Longrightarrow> session_ok (s1\<lparr>s_reader_thread := Some r1\<rparr>)" for s1 r1
    by (simp add: session_ok_def reader_ok_def)
  have push: "push_chunk d (rt_acc r) = (o1, a) \<Longrightarrow> length (ua_remainder a) \<le> 3" for d o1 a
    using push_chunk_bytes [of d "rt_acc r" o1 a] r by simp
  show ?thesis
  proof (cases "rt_finished r")
    case True
    with ok Some show ?thesis by (simp add: reader_step_def)
  next
    case live: False
    show ?thesis
    proof (cases ev)
      case (ReadOk d)
      show ?thesis
      proof (cases "d = []")
        case True
        have fin: "length (ua_remainder (snd (finish_chunks (rt_acc r)))) \<le> 3"
          using r by (simp add: finish_chunks_def)
        have "session_ok (case fst (finish_chunks (rt_acc r)) of None \<Rightarrow> s | Some c \<Rightarrow> reader_send now c r s)"
          using ok r by (auto intro: reader_send_ok split: option.splits)
        with fin upd show ?thesis
          using Some live ReadOk True by (simp add: reader_step_def Let_def case_prod_unfold)
      next
        case False
        obtain o1 a where pc: "push_chunk d (rt_acc r) = (o1, a)" by (cases "push_chunk d (rt_acc r)")
        with push [OF pc] ok r upd reader_send_ok [OF ok] show ?thesis
          using Some live ReadOk False by (cases o1) (simp_all add: reader_step_def)
      qed
    qed (use Some live ok r upd in \<open>simp_all add: reader_step_def\<close>)
  qed
qed

lemma session_ok_reconnect: "session_ok s \<Longrightarrow> session_ok (reconnect_session s)"
  using get_recent_le
  by (auto simp: reconnect_session_def take_backlog_def Let_def session_ok_def queue_ok_def ob_ok_fold split: option.splits)

lemma session_ok_frame [simp]:
  "session_ok (s_rows_update f s) = session_ok s" "session_ok (s_cols_update f s) = session_ok s"
  "session_ok (s_last_activity_update g s) = session_ok s" "session_ok (s_pty_pair_update h s) = session_ok s"
  "session_ok (s_input_sent_update i s) = session_ok s" "session_ok (s_child_update j s) = session_ok s"
  by (simp_all add: session_ok_def)

lemma session_ok_closed: "session_ok s \<Longrightarrow> session_ok (s\<lparr>s_state := SClosed\<rparr>)"
  by (simp add: session_ok_def)

interpretation sok: session_invariant session_ok
proof
  fix now op c pid
  show "session_ok (spawned_session now op c pid)"
    by (simp add: session_ok_def spawned_session_def session_new_def ob_ok_new queue_ok_def reader_ok_def reader_new_def)
next
  fix now oe rows cols s
  assume "session_ok s"
  then show "session_ok (snd (handle_resize now oe rows cols s))"
    by (simp add: handle_resize_def Let_def session_update_activity_def resize_pty_def split: option.splits)
next
  fix now d s
  assume "session_ok s"
  then show "session_ok (snd (handle_data now d s))"
    by (simp add: handle_data_def Let_def session_update_activity_def)
qed (auto intro: session_ok_poll session_ok_reader session_ok_reconnect session_ok_closed)


section \<open>One session between two reconnects\<close>

datatype session_event =
    SePoll nat poll_env
  | SeReader nat read_event
  | SeResize nat open_env u32 u32
  | SeData nat bytes

fun session_step :: "(bytes \<Rightarrow> bytes) \<Rightarrow> int \<Rightarrow> session_event \<Rightarrow> session \<Rightarrow> terminal_response list \<times> session" where
  "session_step compress t (SePoll now e) s = snd (poll_session compress now e t s)"
| "session_step compress t (SeReader now ev) s = ([], reader_step now ev s)"
| "session_step compress t (SeResize now oe rows cols) s = ([], snd (handle_resize now oe rows cols s))"
| "session_step compress t (SeData now d) s = ([], snd (handle_data now d s))"

fun session_run :: "(bytes \<Rightarrow> bytes) \<Rightarrow> int \<Rightarrow> session_event list \<Rightarrow> session \<Rightarrow> terminal_response list \<times> session" where
  "session_run compress t [] s = ([], s)"
| "session_run compress t (ev # evs) s =
     (case session_step compress t ev s of
        (rs, s1) \<Rightarrow> (case session_run compress t evs s1 of (rss, s2) \<Rightarrow> (rs @ rss, s2)))"

definition is_poll :: "session_event \<Rightarrow> bool" where
  "is_poll ev = (case ev of SePoll now e \<Rightarrow> \<not> pe_locked e | _ \<Rightarrow> False)"

fun sw_rank :: "sigwinch_phase \<Rightarrow> nat" where
  "sw_rank SwIdle = 0"
| "sw_rank (SwRestore n) = n + 1"
| "sw_rank (SwTempResize 0) = 1"
| "sw_rank (SwTempResize (Suc n)) = n + 5"

lemma sigwinch_step_rank: "sw_rank (fst (sigwinch_step e ph s)) \<le> sw_rank ph - 1"
proof (cases ph)
  case (SwTempResize n)
  have "sw_rank (SwTempResize n) \<le> 4 + n" for n by (cases n) auto
  then show ?thesis using SwTempResize
    by (cases n) (auto simp: sigwinch_step_def sigwinch_decide_def sigwinch_advance_def MAX_SIGWINCH_PHASE_ATTEMPTS_def split: prod.splits)
next
  case (SwRestore n)
  then show ?thesis
    by (cases n) (auto simp: sigwinch_step_def sigwinch_decide_def sigwinch_advance_def split: prod.splits)
qed (simp add: sigwinch_step_def sigwinch_decide_def)

lemma reader_step_sel [simp]:
  "s_state (reader_step now ev s) = s_state s" "s_output_buffer (reader_step now ev s) = s_output_buffer s"
  "s_pty_pair (reader_step now ev s) = s_pty_pair s" "s_rows (reader_step now ev s) = s_rows s"
  "s_cols (reader_step now ev s) = s_cols s" "s_child (reader_step now ev s) = s_child s"
  by (auto simp: reader_step_def reader_send_def Let_def split: option.splits read_event.splits prod.splits)

lemma handle_resize_sel [simp]:
  "s_state (snd (handle_resize now oe rows cols s)) = s_state s"
  "s_output_buffer (snd (handle_resize now oe rows cols s)) = s_output_buffer s"
  "s_output_rx (snd (handle_resize now oe rows cols s)) = s_output_rx s"
  "s_child (snd (handle_resize now oe rows cols s)) = s_child s"
  by (auto simp: handle_resize_def session_update_activity_def resize_pty_def Let_def split: option.splits)

lemma handle_data_sel [simp]:
  "s_state (snd (handle_data now d s)) = s_state s" "s_output_buffer (snd (handle_data now d s)) = s_output_buffer s"
  "s_output_rx (snd (handle_data now d s)) = s_output_rx s" "s_child (snd (handle_data now d s)) = s_child s"
  by (auto simp: handle_data_def session_update_activity_def Let_def)

lemma session_step_state:
  assumes "session_step compress t ev s = (rs, s')" and "s_state s = SActive p ph"
  shows "\<exists>p' ph'. s_state s' = SActive p' ph' \<and> sw_rank ph' \<le> sw_rank ph - of_bool (is_poll ev)"
proof (cases ev)
  case (SePoll now e)
  obtain closed where run: "poll_session compress now e t s = (closed, rs, s')"
    using assms SePoll by (cases "poll_session compress now e t s") auto
  show ?thesis
  proof (cases "pe_locked e")
    case True
    with assms SePoll show ?thesis by (simp add: poll_session_locked is_poll_def)
  next
    case False
    with assms SePoll poll_session_sel(7) [OF run False] sigwinch_step_rank [of e ph s]
    show ?thesis by (simp add: is_poll_def)
  qed
qed (use assms in \<open>auto simp: is_poll_def\<close>)

text \<open>The two-phase SIGWINCH sequence started by a reconnect ends: whatever the resizes return and
  whatever else happens to the session in between, it is idle after seven polls, and the session is
  still streaming.\<close>

theorem sigwinch_terminates:
  assumes "session_run compress t evs (reconnect_session s) = (rs, s')"
    and "length (filter is_poll evs) \<ge> 7"
  shows "\<exists>p. s_state s' = SActive p SwIdle"
proof -
  have "\<exists>p' ph'. s_state s' = SActive p' ph' \<and> sw_rank ph' \<le> sw_rank ph - length (filter is_poll evs)"
    if "session_run compress t evs s0 = (rs, s')" "s_state s0 = SActive p ph" for s0 p ph evs rs
    using that
  proof (induction evs arbitrary: s0 rs p ph)
    case (Cons ev evs)
    obtain rs1 s1 where 1: "session_step compress t ev s0 = (rs1, s1)" by (cases "session_step compress t ev s0")
    obtain rs2 where 2: "session_run compress t evs s1 = (rs2, s')"
      using Cons.prems(1) 1 by (auto split: prod.splits)
    obtain p1 ph1 where 3: "s_state s1 = SActive p1 ph1" "sw_rank ph1 \<le> sw_rank ph - of_bool (is_poll ev)"
      using session_step_state [OF 1 Cons.prems(2)] by blast
    from Cons.IH [OF 2 3(1)] 3(2) show ?case by (fastforce split: if_splits)
  qed auto
  moreover obtain p where "s_state (reconnect_session s) = SActive p (SwTempResize MAX_SIGWINCH_PHASE_ATTEMPTS)"
    by (simp add: reconnect_session_def Let_def)
  ultimately obtain p' ph' where st: "s_state s' = SActive p' ph'"
    and "sw_rank ph' \<le> sw_rank (SwTempResize MAX_SIGWINCH_PHASE_ATTEMPTS) - length (filter is_poll evs)"
    using assms(1) by blast
  moreover have "sw_rank (SwTempResize MAX_SIGWINCH_PHASE_ATTEMPTS) = 7"
    by (simp add: MAX_SIGWINCH_PHASE_ATTEMPTS_def numeral_3_eq_3)
  ultimately have "s_state s' = SActive p' ph'" "sw_rank ph' = 0"
    using assms(2) by simp_all
  then show ?thesis by (cases ph' rule: sw_rank.cases) auto
qed

theorem sigwinch_terminates_witness:
  "\<exists>p. s_state (snd (session_run (\<lambda>d. d) 1
     (replicate 7 (SePoll 0 \<lparr>pe_locked = False, pe_wait = StillRunning, pe_exit = StillRunning, pe_resize_ok = False\<rparr>))
     (reconnect_session (spawned_session 0 \<lparr>ot_terminal_id = 1, ot_rows = 24, ot_cols = 80\<rparr> 7 None)))) = SActive p SwIdle"
  (is "\<exists>p. s_state (snd (session_run _ _ ?evs (reconnect_session ?s))) = _")
proof -
  have "length (filter is_poll ?evs) \<ge> 7" by (simp add: is_poll_def)
  then show ?thesis
    by (rule sigwinch_terminates [of "\<lambda>d. d" 1 ?evs ?s "fst (session_run (\<lambda>d. d) 1 ?evs (reconnect_session ?s))", OF prod.collapse [symmetric]])
qed

text \<open>When the two resizes succeed, the application sees a changed PTY size after the first poll and
  the session's own size after the second, which ends the sequence.\<close>

theorem sigwinch_redraw:
  assumes pty: "s_pty_pair s = Some sz" and dim: "s_rows s \<noteq> 0" "s_cols s \<noteq> 0"
    and ok: "\<not> pe_locked e1" "pe_resize_ok e1" "\<not> pe_locked e2" "pe_resize_ok e2"
    and poll1: "poll_session compress now1 e1 t (reconnect_session s) = (c1, rs1, s1)"
    and poll2: "poll_session compress now2 e2 t s1 = (c2, rs2, s2)"
  shows "(\<exists>r. s_pty_pair s1 = Some (r, s_cols s) \<and> r \<noteq> s_rows s) \<and>
         s_pty_pair s2 = Some (s_rows s, s_cols s) \<and> s_state s2 = SActive None SwIdle"
proof -
  have rec: "s_pty_pair (reconnect_session s) = Some sz" "s_rows (reconnect_session s) = s_rows s"
    "s_cols (reconnect_session s) = s_cols s"
    using pty by (auto simp: reconnect_session_def take_backlog_def Let_def split: option.splits)
  obtain p where st: "s_state (reconnect_session s) = SActive p (SwTempResize 3)"
    by (simp add: reconnect_session_def Let_def MAX_SIGWINCH_PHASE_ATTEMPTS_def)
  define r where "r = (if s_rows s > 2 then s_rows s - 1 else s_rows s + 1)"
  have ne: "r \<noteq> s_rows s" by (simp add: r_def)
  note sel1 = poll_session_sel [OF poll1 ok(1)] and sel2 = poll_session_sel [OF poll2 ok(3)]
  have step1: "sigwinch_step e1 (SwTempResize 3) (reconnect_session s) = (SwRestore 3, Some (r, s_cols s))"
    using ok(2) dim rec
    by (simp add: sigwinch_step_def sigwinch_decide_def do_sigwinch_resize_def sigwinch_advance_def
          MAX_SIGWINCH_PHASE_ATTEMPTS_def r_def numeral_3_eq_3)
  have 1: "s_pty_pair s1 = Some (r, s_cols s)" "s_rows s1 = s_rows s" "s_cols s1 = s_cols s" "s_state s1 = SActive None (SwRestore 3)"
    using sel1 st step1 rec by simp_all
  have "sigwinch_step e2 (SwRestore 3) s1 = (SwIdle, Some (s_rows s, s_cols s))"
    using ok(4) dim 1
    by (simp add: sigwinch_step_def sigwinch_decide_def do_sigwinch_resize_def sigwinch_advance_def numeral_3_eq_3)
  with sel2 1 ne show ?thesis by simp
qed

theorem sigwinch_redraw_witness:
  "(let e = \<lparr>pe_locked = False, pe_wait = StillRunning, pe_exit = StillRunning, pe_resize_ok = True\<rparr>;
        s = spawned_session 0 \<lparr>ot_terminal_id = 1, ot_rows = 24, ot_cols = 80\<rparr> 7 None;
        s1 = snd (snd (poll_session (\<lambda>d. d) 0 e 1 (reconnect_session s)));
        s2 = snd (snd (poll_session (\<lambda>d. d) 0 e 1 s1))
    in s_pty_pair s2 = Some (24, 80) \<and> s_state s2 = SActive None SwIdle)"
proof -
  define e where "e = \<lparr>pe_locked = False, pe_wait = StillRunning, pe_exit = StillRunning, pe_resize_ok = True\<rparr>"
  define s where "s = spawned_session 0 \<lparr>ot_terminal_id = 1, ot_rows = 24, ot_cols = 80\<rparr> 7 None"
  have e: "\<not> pe_locked e" "pe_resize_ok e" by (simp_all add: e_def)
  have s: "s_pty_pair s = Some (24, 80)" "s_rows s = 24" "s_cols s = 80"
    by (simp_all add: s_def spawned_session_def session_new_def)
  obtain c1 rs1 s1 where 1: "poll_session (\<lambda>d. d) 0 e 1 (reconnect_session s) = (c1, rs1, s1)"
    by (cases "poll_session (\<lambda>d. d) 0 e 1 (reconnect_session s)")
  obtain c2 rs2 s2 where 2: "poll_session (\<lambda>d. d) 0 e 1 s1 = (c2, rs2, s2)"
    by (cases "poll_session (\<lambda>d. d) 0 e 1 s1")
  show ?thesis
    using sigwinch_redraw [OF s(1) _ _ e e 1 2] s 1 2 by (simp add: e_def s_def Let_def)
qed

text \<open>What the client makes of the data it is sent, with its own decompressor, and what is still to be
  replayed.\<close>

definition payload :: "(bytes \<Rightarrow> bytes) \<Rightarrow> terminal_response \<Rightarrow> bytes" where
  "payload decompress r =
     (case r of RData d \<Rightarrow> if td_compressed d then decompress (td_data d) else td_data d | _ \<Rightarrow> [])"

definition pending_replay :: "session \<Rightarrow> bytes" where
  "pending_replay s = (case s_state s of SActive (Some b) _ \<Rightarrow> b | _ \<Rightarrow> [])"

definition is_active :: "session \<Rightarrow> bool" where
  "is_active s = (s_state s \<noteq> SClosed)"

lemma payload_response:
  "decompress (compress d) = d \<Longrightarrow> payload decompress (create_terminal_data_response compress t d) = d"
  by (simp add: payload_def create_terminal_data_response_def)

lemma session_step_stream:
  assumes dec: "\<And>x. decompress (compress x) = x"
    and run: "session_step compress t ev s = (rs, s')" and act: "is_active s"
  shows "\<exists>ds. s_output_buffer s' = fold ob_append ds (s_output_buffer s) \<and> is_active s' \<and>
           concat (map (payload decompress) rs) @ pending_replay s' = pending_replay s @ concat ds"
proof (cases ev)
  case (SePoll now e)
  obtain closed where poll: "poll_session compress now e t s = (closed, rs, s')"
    using run SePoll by (cases "poll_session compress now e t s") auto
  show ?thesis
  proof (cases "pe_locked e")
    case True
    with poll act show ?thesis by (intro exI [of _ "[]"]) (simp add: poll_session_locked)
  next
    case False
    obtain p ph where st: "s_state s = SActive p ph"
      using act by (cases "s_state s") (auto simp: is_active_def)
    have "map (payload decompress \<circ> create_terminal_data_response compress t) xs = xs" for xs
      by (rule map_idI) (simp add: payload_response dec)
    then show ?thesis
      using poll_session_sel [OF poll False] st
      by (intro exI [of _ "drained s"]) (auto simp: pending_replay_def is_active_def split: option.splits)
  qed
qed (use run act in \<open>auto simp: pending_replay_def is_active_def intro!: exI [of _ "[]"]\<close>)



section \<open>Ended terminals\<close>

definition ended :: "poll_env \<Rightarrow> session \<Rightarrow> bool" where
  "ended e s = (\<not> pe_locked e \<and> fst (check_closed e s))"

definition closed_ids :: "terminal_response list \<Rightarrow> int list" where
  "closed_ids rs = concat (map (\<lambda>r. case r of RClosed t c \<Rightarrow> [t] | _ \<Rightarrow> []) rs)"

lemma closed_ids_append [simp]: "closed_ids (xs @ ys) = closed_ids xs @ closed_ids ys"
  by (simp add: closed_ids_def)

lemma closed_ids_data [simp]: "closed_ids (map (create_terminal_data_response compress t) ds) = []"
  by (induction ds) (simp_all add: closed_ids_def create_terminal_data_response_def)

lemma poll_session_closed:
  assumes "poll_session compress now e t s = (closed, rs, s')"
  shows "closed = ended e s \<and> closed_ids rs = [] \<and> (closed \<longrightarrow> s_closed_message_sent s') \<and> s_child s' = s_child s"
proof (cases "pe_locked e")
  case True
  with assms show ?thesis by (auto simp: poll_session_locked ended_def closed_ids_def)
next
  case False
  with poll_session_sel [OF assms False] show ?thesis
    by (auto simp: ended_def closed_ids_def create_terminal_data_response_def split: session_state.splits)
qed

lemma poll_sessions_keys:
  assumes "poll_sessions compress now env ss = (cs, rs, ss')"
  shows "cs = map fst (filter (\<lambda>(t, s). ended (env t) s) ss)" "closed_ids rs = []" "map fst ss' = map fst ss"
  using assms
  by (induction ss arbitrary: cs rs ss')
     (auto simp: closed_ids_def [of "[]"] dest!: poll_session_closed split: prod.splits)

lemma poll_sessions_sent:
  assumes "poll_sessions compress now env ss = (cs, rs, ss')" and "distinct (map fst ss)"
    and "(t, s) \<in> set ss'" and "t \<in> set cs"
  shows "s_closed_message_sent s"
  using assms
proof (induction ss arbitrary: cs rs ss')
  case (Cons x ss)
  obtain u s0 where x: "x = (u, s0)" by (cases x)
  obtain closed rs1 s1 where 1: "poll_session compress now (env u) u s0 = (closed, rs1, s1)"
    by (cases "poll_session compress now (env u) u s0")
  obtain cs2 rs2 ss2 where 2: "poll_sessions compress now env ss = (cs2, rs2, ss2)"
    by (cases "poll_sessions compress now env ss")
  have eqs: "cs = (if closed then u # cs2 else cs2)" "ss' = (u, s1) # ss2"
    using Cons.prems x 1 2 by auto
  have "set (map fst ss2) = set (map fst ss)"
    using poll_sessions_keys(3) [OF 2] by simp
  then have fresh: "u \<notin> set cs2" "u \<notin> fst ` set ss2"
    using Cons.prems(2) x poll_sessions_keys(1) [OF 2] by auto
  show ?case
  proof (cases "(t, s) = (u, s1)")
    case True
    then show ?thesis using poll_session_closed [OF 1] Cons.prems(4) fresh eqs by (auto split: if_splits)
  next
    case False
    then have "(t, s) \<in> set ss2" using Cons.prems(3) eqs by auto
    moreover have "t \<noteq> u" using calculation fresh(2) by force
    ultimately show ?thesis
      using Cons.IH [OF 2] Cons.prems eqs x by (auto split: if_splits)
  qed
qed simp

lemma close_terminal_known:
  assumes "close_terminal p env t ss = (r, c, ss')" and "hm_get ss t = Some s" and "s_closed_message_sent s"
  shows "ss' = hm_remove t ss \<and> closed_ids [r] = [t] \<and> c = s_child s"
  using assms by (auto simp: close_terminal_def take_child_def closed_ids_def split: option.splits if_splits)

lemma close_terminals_known:
  assumes "close_terminals p env ts ss = (rs, cs, ss')" and "distinct ts" and "hm_wf ss"
    and "\<forall>t \<in> set ts. \<exists>s. hm_get ss t = Some s \<and> s_closed_message_sent s"
  shows "ss' = filter (\<lambda>x. fst x \<notin> set ts) ss \<and> closed_ids rs = ts \<and>
         set cs = {c. \<exists>t s. t \<in> set ts \<and> hm_get ss t = Some s \<and> s_child s = Some c}"
  using assms
proof (induction ts arbitrary: ss rs cs)
  case Nil
  then show ?case by (simp add: closed_ids_def)
next
  case (Cons t ts)
  obtain s where s: "hm_get ss t = Some s" "s_closed_message_sent s"
    using Cons.prems(4) by auto
  obtain r c ss1 where 1: "close_terminal p env t ss = (r, c, ss1)" by (cases "close_terminal p env t ss")
  note k = close_terminal_known [OF 1 s]
  obtain rs2 cs2 where 2: "close_terminals p env ts ss1 = (rs2, cs2, ss')"
    "rs = r # rs2" "cs = (case c of Some q \<Rightarrow> q # cs2 | None \<Rightarrow> cs2)"
    using Cons.prems(1) 1 by (auto split: prod.splits)
  have get: "t' \<in> set ts \<Longrightarrow> hm_get ss1 t' = hm_get ss t'" for t'
    using k Cons.prems(2) by (auto simp: hm_simps)
  have IH: "ss' = filter (\<lambda>x. fst x \<notin> set ts) ss1 \<and> closed_ids rs2 = ts \<and>
     set cs2 = {c. \<exists>t s. t \<in> set ts \<and> hm_get ss1 t = Some s \<and> s_child s = Some c}"
    by (rule Cons.IH [OF 2(1)]) (use Cons.prems k get in auto)
  have "closed_ids rs = t # ts"
    using IH k closed_ids_append [of "[r]" rs2] 2(2) by simp
  moreover have "ss' = filter (\<lambda>x. fst x \<notin> set (t # ts)) ss"
    using IH k by (auto simp: hm_remove_def case_prod_unfold intro: filter_cong)
  moreover have "set cs = {c. \<exists>t' s. t' \<in> set (t # ts) \<and> hm_get ss t' = Some s \<and> s_child s = Some c}"
    using IH k get s 2(3) by (auto split: option.splits)
  ultimately show ?case by blast
qed

text \<open>A poll reports exactly the terminals whose shell has ended, each once, and those are exactly the
  sessions that leave the service, for a persistent as for a non-persistent service.\<close>

theorem ended_terminals_closed_once:
  assumes v: "get_service (px_service_id px) w = Some v" and wf: "hm_wf (sv_sessions v)"
    and run: "read_outputs compress now env px w = (rs, w')"
  shows "\<exists>v'. get_service (px_service_id px) w' = Some v' \<and>
           closed_ids rs = map fst (filter (\<lambda>(t, s). ended (env t) s) (sv_sessions v)) \<and>
           map fst (sv_sessions v') = map fst (filter (\<lambda>(t, s). \<not> ended (env t) s) (sv_sessions v))"
proof -
  obtain cs rs1 ss1 where 1: "poll_sessions compress now env (sv_sessions v) = (cs, rs1, ss1)"
    by (cases "poll_sessions compress now env (sv_sessions v)")
  obtain rs2 ds ss2 where 2: "close_terminals (px_is_persistent px) env cs ss1 = (rs2, ds, ss2)"
    by (cases "close_terminals (px_is_persistent px) env cs ss1")
  note p = poll_sessions_keys [OF 1]
  have dist: "distinct (map fst (sv_sessions v))" using wf by (simp add: hm_wf_def)
  have wf1: "hm_wf ss1" using p dist by (simp add: hm_wf_def)
  have "\<exists>s. hm_get ss1 t = Some s \<and> s_closed_message_sent s" if "t \<in> set cs" for t
  proof -
    have "t \<in> set (map fst ss1)" using that unfolding p by auto
    then obtain s where s: "(t, s) \<in> set ss1" by auto
    with poll_sessions_sent [OF 1 dist s that] hm_wf_get [OF wf1 s] show ?thesis by auto
  qed
  with close_terminals_known [OF 2 _ wf1] p dist
  have k: "ss2 = filter (\<lambda>x. fst x \<notin> set cs) ss1" "closed_ids rs2 = cs"
    by (auto simp: distinct_map_filter)
  have "map fst ss2 = filter (\<lambda>t. t \<notin> set cs) (map fst (sv_sessions v))"
    using p k(1) by (metis (mono_tags, lifting) filter_cong filter_map o_apply)
  also have "\<dots> = map fst (filter (\<lambda>(t, s). \<not> ended (env t) s) (sv_sessions v))"
  proof -
    have "fst x \<in> set cs \<longleftrightarrow> (case x of (t, s) \<Rightarrow> ended (env t) s)" if "x \<in> set (sv_sessions v)" for x
      using p that dist by (auto simp: distinct_map inj_on_def)
    then show ?thesis by (auto simp: filter_map o_def intro!: arg_cong [of _ _ "map fst"] filter_cong)
  qed
  finally have "map fst ss2 = map fst (filter (\<lambda>(t, s). \<not> ended (env t) s) (sv_sessions v))" .
  moreover have "rs = rs1 @ rs2" "get_service (px_service_id px) w' = Some (v\<lparr>sv_sessions := ss2\<rparr>)"
    using run v 1 2 by (auto simp: read_outputs_def get_service_def put_service_def hm_simps)
  ultimately show ?thesis using p k(2) by auto
qed

theorem ended_terminals_closed_once_witness:
  "closed_ids (fst (read_outputs (\<lambda>d. d) 0
      (\<lambda>t. \<lparr>pe_locked = False, pe_wait = Exited 3, pe_exit = Exited 3, pe_resize_ok = True\<rparr>)
      \<lparr>px_service_id = ''a'', px_is_persistent = True\<rparr>
      (put_service ''a'' ((service_new 0 ''a'' True False)\<lparr>sv_sessions :=
         [(1, spawned_session 0 \<lparr>ot_terminal_id = 1, ot_rows = 24, ot_cols = 80\<rparr> 7 None)]\<rparr>) world_new))) = [1]"
  (is "closed_ids (fst (read_outputs _ _ ?env ?px (put_service _ ?v _))) = _")
proof -
  have get: "get_service (px_service_id ?px) (put_service ''a'' ?v world_new) = Some ?v"
    by (simp add: get_service_def put_service_def hm_simps)
  have wf: "hm_wf (sv_sessions ?v)" by (simp add: hm_wf_def)
  show ?thesis
    using ended_terminals_closed_once [OF get wf prod.collapse [symmetric], of "\<lambda>d. d" 0 ?env]
    by (auto simp: ended_def check_closed_def spawned_session_def session_new_def)
qed

section \<open>No child process is forgotten\<close>

text \<open>The children the service is responsible for: those of its sessions and those waiting to be
  reaped.\<close>

definition children :: "(int \<times> session) list \<Rightarrow> nat set" where
  "children ss = {c. \<exists>t s. (t, s) \<in> set ss \<and> s_child s = Some c}"

definition procs :: "term_world \<Rightarrow> nat set" where
  "procs w = set (tw_tasks w) \<union> (\<Union>(sid, v) \<in> set (tw_services w). children (sv_sessions v))"

lemma hm_split:
  assumes "hm_wf m" and "hm_get m k = Some v"
  shows "set m = insert (k, v) (set (hm_remove k m))"
  using hm_get_set [OF assms(2)] assms by (auto simp: hm_remove_def hm_wf_get dest: hm_wf_get [OF assms(1)])

lemma set_hm_insert: "hm_wf m \<Longrightarrow> set (hm_insert k v m) = insert (k, v) (set (hm_remove k m))"
proof (induction k v m rule: hm_insert.induct)
  case (2 k v k' v' m)
  have "k \<notin> fst ` set m \<Longrightarrow> hm_remove k m = m"
    by (auto simp: hm_remove_def filter_id_conv image_iff)
  with 2 show ?case by (force simp: hm_wf_def hm_remove_def)
qed (simp add: hm_remove_def)

lemma procs_put:
  assumes "hm_wf (tw_services w)" and "get_service sid w = Some v"
  shows "procs w = procs (w\<lparr>tw_services := hm_remove sid (tw_services w)\<rparr>) \<union> children (sv_sessions v)"
    and "procs (put_service sid v' w) = procs (w\<lparr>tw_services := hm_remove sid (tw_services w)\<rparr>) \<union> children (sv_sessions v')"
  using assms hm_split [OF assms(1), of sid v]
  by (auto simp: procs_def put_service_def get_service_def set_hm_insert)

lemma procs_reaper [simp]: "procs (add_to_reaper c w) = procs w \<union> set_option c"
  by (auto simp: procs_def add_to_reaper_def split: option.splits)

lemma procs_put_mono:
  assumes "hm_wf (tw_services w)" and "get_service sid w = Some v" and "children (sv_sessions v) \<subseteq> children (sv_sessions v') \<union> C"
  shows "procs w \<subseteq> procs (put_service sid v' w) \<union> C"
  using assms(3) unfolding procs_put(1) [OF assms(1,2)] procs_put(2) [OF assms(1,2)] by blast

lemma children_insert:
  assumes "hm_wf ss"
  shows "children (hm_insert t s ss) = children (hm_remove t ss) \<union> set_option (s_child s)"
  using set_hm_insert [OF assms, of t s] by (auto simp: children_def)

lemma children_split:
  assumes "hm_wf ss" and "hm_get ss t = Some s"
  shows "children ss = children (hm_remove t ss) \<union> set_option (s_child s)"
  using hm_split [OF assms] by (auto simp: children_def)

lemma children_absent: "hm_get ss t = None \<Longrightarrow> hm_remove t ss = ss"
  by (auto simp: hm_get_def hm_remove_def map_of_eq_None_iff filter_id_conv image_iff)

lemma procs_fold_reaper:
  "procs (fold (\<lambda>(t, s). add_to_reaper (snd (session_stop s))) ss w) = procs w \<union> children ss"
proof (induction ss arbitrary: w)
  case (Cons x ss)
  then show ?case by (cases x) (auto simp: children_def session_stop_def signal_exit_def join_threads_def)
qed (simp add: children_def)

lemma procs_remove_service:
  assumes "hm_wf (tw_services w)"
  shows "procs (remove_service sid w) = procs w"
proof (cases "get_service sid w")
  case (Some v)
  with procs_put(1) [OF assms Some] show ?thesis by (simp add: remove_service_def procs_fold_reaper)
qed (simp add: remove_service_def)

lemma procs_put_new:
  assumes "hm_wf (tw_services w)" and "get_service sid w = None"
  shows "procs (put_service sid v w) = procs w \<union> children (sv_sessions v)"
  using set_hm_insert [OF assms(1), of sid v] children_absent [of "tw_services w" sid] assms(2)
  by (auto simp: procs_def put_service_def get_service_def)

lemma children_map_values:
  "(\<And>s. s_child (f s) = s_child s) \<Longrightarrow> children (hm_map_values f ss) = children ss"
  by (force simp: children_def hm_map_values_def)

lemma children_replace:
  assumes "hm_wf ss" and "hm_get ss t = Some s" and "s_child s' = s_child s"
  shows "children (hm_insert t s' ss) = children ss"
  using children_insert [OF assms(1)] children_split [OF assms(1,2)] assms(3) by simp

lemma children_remap:
  assumes "hm_wf (sv_sessions v)"
  shows "children (sv_sessions (remap_lowest t v)) = children (sv_sessions v) \<and> hm_wf (sv_sessions (remap_lowest t v))"
proof (cases "\<not> hm_contains (sv_sessions v) t \<and> sv_needs_session_sync v \<and> sv_sessions v \<noteq> []")
  case False
  then show ?thesis using assms by (auto simp: remap_lowest_def)
next
  case True
  define k where "k = Min (set (map fst (sv_sessions v)))"
  show ?thesis
  proof (cases "hm_get (sv_sessions v) k")
    case None
    with assms show ?thesis by (auto simp: remap_lowest_def Let_def k_def)
  next
    case (Some s)
    have absent: "hm_get (hm_remove k (sv_sessions v)) t = None"
      using True by (auto simp: hm_simps hm_contains_get)
    have "remap_lowest t v = v\<lparr>sv_sessions := hm_insert t s (hm_remove k (sv_sessions v))\<rparr>"
      using True Some by (simp add: remap_lowest_def Let_def k_def)
    then show ?thesis
      using children_insert [of "hm_remove k (sv_sessions v)" t s] children_absent [OF absent]
        children_split [OF assms Some] assms by simp
  qed
qed

lemma children_reconnect [simp]: "s_child (reconnect_session s) = s_child s"
  by (auto simp: reconnect_session_def take_backlog_def Let_def split: option.splits)

lemma children_open:
  assumes wf: "hm_wf (sv_sessions v)" and run: "handle_open now px e op v = (r, v')"
  shows "children (sv_sessions v) \<subseteq> children (sv_sessions v')"
proof -
  define v1 where "v1 = remap_lowest (ot_terminal_id op) v"
  have v1: "children (sv_sessions v1) = children (sv_sessions v)" "hm_wf (sv_sessions v1)"
    using children_remap [OF wf] by (auto simp: v1_def)
  show ?thesis
  proof (cases "hm_get (sv_sessions v1) (ot_terminal_id op)")
    case None
    have ins: "c \<in> children (sv_sessions v) \<Longrightarrow> c \<in> children (hm_insert (ot_terminal_id op) x (sv_sessions v1))" for x c
      using children_insert [OF v1(2)] children_absent [OF None] v1(1) by auto
    from run None ins v1(1) show ?thesis
      by (auto simp: handle_open_def v1_def [symmetric] Let_def handle_open_new_def split: option.splits sum.splits if_splits)
  next
    case (Some s)
    with run children_replace [OF v1(2) Some, of "reconnect_session s"] v1(1) show ?thesis
      by (auto simp: handle_open_def v1_def [symmetric] Let_def handle_open_reconnect_def)
  qed
qed

lemma children_on_session:
  assumes "hm_wf (sv_sessions v)" and "on_session t f v = (r, v')" and "\<And>s. s_child (snd (f s)) = s_child s"
  shows "children (sv_sessions v') = children (sv_sessions v)"
proof (cases "hm_get (sv_sessions v) t")
  case None
  with assms show ?thesis by (simp add: on_session_def)
next
  case (Some s)
  with assms(2) have "sv_sessions v' = hm_insert t (snd (f s)) (sv_sessions v)"
    by (auto simp: on_session_def split: prod.splits)
  then show ?thesis using children_replace [OF assms(1) Some assms(3)] by simp
qed

lemma children_close:
  assumes "hm_wf (sv_sessions v)" and "handle_close e t v = (r, v', c)" and "oe_kill e = None"
  shows "children (sv_sessions v) \<subseteq> children (sv_sessions v') \<union> set_option c"
  using assms children_split [OF assms(1), of t]
  by (auto simp: handle_close_def Let_def split: option.splits)

lemma children_poll:
  assumes "poll_sessions compress now env ss = (cs, rs, ss')"
  shows "children ss' = children ss"
  using assms
proof (induction ss arbitrary: cs rs ss')
  case (Cons x ss)
  have cons: "children ((t, s) # ss) = set_option (s_child s) \<union> children ss" for t s ss
    by (auto simp: children_def)
  from Cons show ?case
    by (cases x) (auto simp: cons dest!: poll_session_closed split: prod.splits)
qed simp

lemma children_close_terminal:
  assumes "close_terminal p env t ss = (r, c, ss')" and "hm_wf ss"
  shows "children ss \<subseteq> children ss' \<union> set_option c \<and> hm_wf ss'"
  using assms children_split [OF assms(2), of t] children_insert [OF assms(2), of t]
  by (auto simp: close_terminal_def take_child_def split: option.splits if_splits)

lemma children_close_terminals:
  "close_terminals p env ts ss = (rs, cs, ss') \<Longrightarrow> hm_wf ss \<Longrightarrow> children ss \<subseteq> children ss' \<union> set cs"
proof (induction ts arbitrary: ss rs cs)
  case (Cons t ts)
  obtain r c ss1 where 1: "close_terminal p env t ss = (r, c, ss1)" by (cases "close_terminal p env t ss")
  obtain rs2 cs2 where 2: "close_terminals p env ts ss1 = (rs2, cs2, ss')" "cs = (case c of Some q \<Rightarrow> q # cs2 | None \<Rightarrow> cs2)"
    using Cons.prems(1) 1 by (auto split: prod.splits)
  show ?case
    using children_close_terminal [OF 1 Cons.prems(2)] Cons.IH [OF 2(1)] 2(2) by (fastforce split: option.splits)
qed simp

lemma procs_action:
  assumes w: "world_all session_ok w" and run: "handle_action now e px act w = (r, w')"
    and kill: "\<And>t. act = AClose t \<Longrightarrow> oe_kill e = None"
  shows "procs w \<subseteq> procs w'"
proof (cases "get_service (px_service_id px) w")
  case None
  with run show ?thesis by (simp add: handle_action_def)
next
  case (Some v0)
  define v where "v = service_update_activity now v0"
  have wf: "hm_wf (tw_services w)" using w by (simp add: world_all_def)
  have wfv: "hm_wf (sv_sessions v)" and same: "children (sv_sessions v) = children (sv_sessions v0)"
    using world_all_get [OF w Some] by (simp_all add: v_def service_update_activity_def service_all_def sess_all_def)
  have put: "children (sv_sessions v) \<subseteq> children (sv_sessions v') \<union> C \<Longrightarrow> procs w \<subseteq> procs (put_service (px_service_id px) v' w) \<union> C" for v' C
    using procs_put_mono [OF wf Some] same by auto
  show ?thesis
  proof (cases act)
    case (AOpen op)
    obtain v1 where 1: "handle_open now px e op v = (r, v1)" "w' = put_service (px_service_id px) v1 w"
      using run Some AOpen by (auto simp: handle_action_def Let_def v_def split: prod.splits)
    show ?thesis using put [of v1 "{}"] children_open [OF wfv 1(1)] 1(2) by simp
  next
    case (AResize t rows cols)
    obtain v1 where 1: "on_session t (handle_resize now e rows cols) v = (r, v1)" "w' = put_service (px_service_id px) v1 w"
      using run Some AResize by (auto simp: handle_action_def Let_def v_def split: prod.splits)
    show ?thesis using put [of v1 "{}"] children_on_session [OF wfv 1(1)] 1(2) by simp
  next
    case (AData t d)
    obtain v1 where 1: "on_session t (handle_data now d) v = (r, v1)" "w' = put_service (px_service_id px) v1 w"
      using run Some AData by (auto simp: handle_action_def Let_def v_def split: prod.splits)
    show ?thesis using put [of v1 "{}"] children_on_session [OF wfv 1(1)] 1(2) by simp
  next
    case (AClose t)
    obtain v1 c where 1: "handle_close e t v = (r, v1, c)" "w' = add_to_reaper c (put_service (px_service_id px) v1 w)"
      using run Some AClose by (auto simp: handle_action_def Let_def v_def split: prod.splits)
    show ?thesis using put [of v1 "set_option c"] children_close [OF wfv 1(1) kill [OF AClose]] 1(2) by simp
  next
    case AUnset
    then show ?thesis using run Some put [of v "{}"] by (auto simp: handle_action_def Let_def v_def)
  qed
qed

lemma procs_poll:
  assumes w: "world_all session_ok w" and run: "read_outputs compress now env px w = (rs, w')"
  shows "procs w \<subseteq> procs w'"
proof (cases "get_service (px_service_id px) w")
  case None
  with run show ?thesis by (simp add: read_outputs_def)
next
  case (Some v)
  have wf: "hm_wf (tw_services w)" "hm_wf (sv_sessions v)"
    using w world_all_get [OF w Some] by (simp_all add: world_all_def service_all_def sess_all_def)
  obtain cs rs1 ss1 where 1: "poll_sessions compress now env (sv_sessions v) = (cs, rs1, ss1)"
    by (cases "poll_sessions compress now env (sv_sessions v)")
  obtain rs2 ds ss2 where 2: "close_terminals (px_is_persistent px) env cs ss1 = (rs2, ds, ss2)"
    by (cases "close_terminals (px_is_persistent px) env cs ss1")
  have "hm_wf ss1" using wf(2) poll_sessions_keys(3) [OF 1] by (simp add: hm_wf_def)
  then have "children (sv_sessions v) \<subseteq> children ss2 \<union> set ds"
    using children_close_terminals [OF 2] children_poll [OF 1] by simp
  then have "procs w \<subseteq> procs (put_service (px_service_id px) (v\<lparr>sv_sessions := ss2\<rparr>) w) \<union> set ds"
    using procs_put_mono [OF wf(1) Some] by simp
  moreover have "procs w' = procs (put_service (px_service_id px) (v\<lparr>sv_sessions := ss2\<rparr>) w) \<union> set ds"
    using run Some 1 2 by (auto simp: read_outputs_def procs_def put_service_def)
  ultimately show ?thesis by simp
qed

lemma procs_fold_remove:
  "hm_wf (tw_services w) \<Longrightarrow> procs (fold remove_service sids w) = procs w"
  by (induction sids arbitrary: w) (simp_all add: procs_remove_service remove_service_services)

lemma procs_new:
  assumes w: "world_all session_ok w"
  shows "procs w \<subseteq> procs (snd (get_or_create_service now sid p u w))"
proof -
  have wf: "hm_wf (tw_services w)" using w by (simp add: world_all_def)
  have [simp]: "procs (w1\<lparr>tw_cleanup_task := b\<rparr>) = procs w1" for w1 b
    by (simp add: procs_def)
  have [simp]: "children (sv_sessions (reset_status p v)) = children (sv_sessions v)" for v
    by (simp add: reset_status_def children_map_values)
  show ?thesis
  proof (cases "get_service sid w")
    case None
    then show ?thesis
      using procs_put_new [OF wf None] by (simp add: get_or_create_service_def Let_def)
  next
    case (Some v)
    then show ?thesis
      using procs_put_mono [OF wf Some, of "reset_status p v" "{}"] by (simp add: get_or_create_service_def Let_def)
  qed
qed

lemma procs_reader:
  assumes w: "world_all session_ok w"
  shows "procs w \<subseteq> procs (reader_event now sid t ev w)"
proof (cases "get_service sid w")
  case (Some v)
  have wf: "hm_wf (tw_services w)" "hm_wf (sv_sessions v)"
    using w world_all_get [OF w Some] by (simp_all add: world_all_def service_all_def sess_all_def)
  show ?thesis
  proof (cases "hm_get (sv_sessions v) t")
    case s: (Some s)
    have "children (hm_insert t (reader_step now ev s) (sv_sessions v)) = children (sv_sessions v)"
      by (rule children_replace [OF wf(2) s]) simp
    then show ?thesis
      using procs_put_mono [OF wf(1) Some, of _ "{}"] Some s by (simp add: reader_event_def)
  qed (simp add: reader_event_def Some)
qed (simp add: reader_event_def)

definition loses_child :: "term_event \<Rightarrow> bool" where
  "loses_child ev =
     (case ev of EvReap wait \<Rightarrow> True
      | EvAction now e px (AClose t) \<Rightarrow> oe_kill e \<noteq> None
      | _ \<Rightarrow> False)"

text \<open>No child process is forgotten: as long as the reaper does not collect it and no close request
  fails to kill it, a child the service is responsible for stays with a session or in the reaper's
  list, whatever happens.\<close>

theorem children_not_forgotten:
  assumes "\<not> loses_child ev"
  shows "procs (term_run compress evs) \<subseteq> procs (term_run compress (evs @ [ev]))"
proof -
  define w where "w = term_run compress evs"
  have w: "world_all session_ok w" unfolding w_def by (rule sok.inv_run)
  have wf: "hm_wf (tw_services w)" using w by (simp add: world_all_def)
  have "procs w \<subseteq> procs (term_step compress ev w)"
  proof (cases ev)
    case (EvAction now e px act)
    have "act = AClose t \<Longrightarrow> oe_kill e = None" for t
      using assms EvAction by (auto simp: loses_child_def)
    then show ?thesis using procs_action [OF w, of now e px act] EvAction
      by (cases "handle_action now e px act w") auto
  next
    case (EvPoll now env sid)
    then show ?thesis using procs_poll [OF w, of compress now env "proxy_new sid None w"]
      by (cases "read_outputs compress now env (proxy_new sid None w) w") (auto simp: run_turn_def)
  next
    case (EvPersist sid p)
    then show ?thesis using procs_put_mono [OF wf, of sid _ _ "{}"]
      by (auto simp: set_persistent_def split: option.splits)
  qed (use assms w wf procs_new procs_reader procs_remove_service procs_fold_remove in
        \<open>auto simp: loses_child_def cleanup_inactive_services_def run_exit_def on_disconnect_def split: option.splits\<close>)
  then show ?thesis by (simp add: w_def term_run_def)
qed

theorem children_not_forgotten_witness:
  "7 \<in> procs (term_run (\<lambda>d. d)
     ([EvNew 0 ''a'' False False,
       EvAction 0 \<lparr>oe_openpty = None, oe_spawn = Inr (7, None), oe_take_writer = None, oe_clone_reader = None, oe_resize = None, oe_kill = None\<rparr>
         \<lparr>px_service_id = ''a'', px_is_persistent = False\<rparr> (AOpen \<lparr>ot_terminal_id = 1, ot_rows = 24, ot_cols = 80\<rparr>)] @
      [EvDisconnect \<lparr>px_service_id = ''a'', px_is_persistent = False\<rparr>]))"
  (is "_ \<in> procs (term_run _ (?evs @ [?ev]))")
proof -
  have "7 \<in> procs (term_run (\<lambda>d. d) ?evs)"
    by (simp add: term_run_def world_new_def get_or_create_service_def get_service_def put_service_def hm_get_def
        hm_contains_def MAX_SERVICES_def Let_def service_new_def reset_status_def handle_action_def service_update_activity_def
        handle_open_def remap_lowest_def handle_open_new_def hm_map_values_def spawned_session_def procs_def children_def)
  moreover have "\<not> loses_child ?ev" by (simp add: loses_child_def)
  ultimately show ?thesis
    using children_not_forgotten [of ?ev "\<lambda>d. d" ?evs] by blast
qed

text \<open>A close request whose kill fails forgets the child: it has left the session, and the early return
  keeps it from the reaper.\<close>

lemma failed_kill_forgets_child:
  assumes "hm_get (sv_sessions v) t = Some s" and "s_child s = Some c" and "oe_kill e = Some err"
  shows "handle_close e t v = (Inl err, v\<lparr>sv_sessions := hm_remove t (sv_sessions v)\<rparr>, None)"
  using assms by (simp add: handle_close_def Let_def)

section \<open>Opening a terminal\<close>

lemma remap_hits:
  assumes "sv_needs_session_sync v" and "sv_sessions v \<noteq> []"
  shows "hm_get (sv_sessions (remap_lowest t v)) t \<noteq> None"
proof (cases "hm_contains (sv_sessions v) t")
  case True
  then show ?thesis by (auto simp: remap_lowest_def hm_contains_get)
next
  case False
  have "Min (set (map fst (sv_sessions v))) \<in> fst ` set (sv_sessions v)"
    using assms(2) Min_in [of "set (map fst (sv_sessions v))"] by auto
  then obtain s where "hm_get (sv_sessions v) (Min (set (map fst (sv_sessions v)))) = Some s"
    using hm_contains_keys hm_contains_get by metis
  with False assms show ?thesis by (simp add: remap_lowest_def Let_def hm_simps)
qed

lemma length_remap:
  assumes wf: "hm_wf (sv_sessions v)"
  shows "length (sv_sessions (remap_lowest t v)) = length (sv_sessions v)"
proof -
  have card: "hm_wf m \<Longrightarrow> length m = card (fst ` set m)" for m :: "(int \<times> session) list"
    unfolding hm_wf_def by (metis distinct_card length_map set_map)
  show ?thesis
  proof (cases "\<not> hm_contains (sv_sessions v) t \<and> sv_needs_session_sync v \<and> sv_sessions v \<noteq> []")
    case True
    define k where "k = Min (set (map fst (sv_sessions v)))"
    show ?thesis
    proof (cases "hm_get (sv_sessions v) k")
      case (Some s)
      then have kin: "k \<in> fst ` set (sv_sessions v)" using hm_get_set by force
      have t: "t \<notin> fst ` set (sv_sessions v)" using True by (simp add: hm_contains_keys)
      have "sv_sessions (remap_lowest t v) = hm_insert t s (hm_remove k (sv_sessions v))"
        using True Some by (simp add: remap_lowest_def Let_def k_def)
      then have "fst ` set (sv_sessions (remap_lowest t v)) = insert t (fst ` set (sv_sessions v) - {k})"
        by (simp add: hm_simps)
      moreover have "card \<dots> = card (fst ` set (sv_sessions v))"
        using kin t card_Suc_Diff1 [OF _ kin] by simp
      ultimately show ?thesis
        using card [OF wf] card [of "sv_sessions (remap_lowest t v)"] children_remap [OF wf] by simp
    qed (use True in \<open>simp add: remap_lowest_def Let_def k_def\<close>)
  qed (auto simp: remap_lowest_def)
qed

text \<open>C35. Opening a terminal: an error leaves the service as it was.  On the first open after a client
  reconnects to a service with surviving sessions no shell is ever spawned: the request always attaches
  to a surviving session, the reply lists exactly the other ones, and the number of sessions and their
  child processes stay what they were.\<close>

theorem open_terminal_behaviour:
  assumes run: "handle_open now px e op v = (r, v')" and wf: "hm_wf (sv_sessions v)"
  shows "(\<forall>msg. r = Inl msg \<longrightarrow> v' = v) \<and>
         (sv_needs_session_sync v \<and> sv_sessions v \<noteq> [] \<longrightarrow>
            (\<exists>o1. r = Inr (Some (ROpened o1)) \<and> to_terminal_id o1 = ot_terminal_id op \<and>
               set (to_persistent_sessions o1) = fst ` set (sv_sessions v') - {ot_terminal_id op}) \<and>
            children (sv_sessions v') = children (sv_sessions v) \<and> length (sv_sessions v') = length (sv_sessions v))"
proof -
  define t where "t = ot_terminal_id op"
  define v1 where "v1 = remap_lowest t v"
  have same: "hm_get (sv_sessions v1) t = None \<Longrightarrow> v1 = v"
    using remap_hits [of v t] by (auto simp: v1_def remap_lowest_def)
  have "r = Inl msg \<Longrightarrow> v' = v" for msg
    using run same
    by (cases "hm_get (sv_sessions v1) t")
       (auto simp: handle_open_def t_def [symmetric] v1_def [symmetric] Let_def handle_open_new_def
          handle_open_reconnect_def split: option.splits sum.splits if_splits)
  moreover have "(\<exists>o1. r = Inr (Some (ROpened o1)) \<and> to_terminal_id o1 = t \<and>
               set (to_persistent_sessions o1) = fst ` set (sv_sessions v') - {t}) \<and>
            children (sv_sessions v') = children (sv_sessions v) \<and> length (sv_sessions v') = length (sv_sessions v)"
    if sync: "sv_needs_session_sync v" "sv_sessions v \<noteq> []"
  proof -
    obtain s where s: "hm_get (sv_sessions v1) t = Some s"
      using remap_hits [OF sync, of t] by (auto simp: v1_def)
    have v1: "children (sv_sessions v1) = children (sv_sessions v)" "hm_wf (sv_sessions v1)"
      using children_remap [OF wf] by (auto simp: v1_def)
    have sync1: "sv_needs_session_sync v1"
      using sync by (auto simp: v1_def remap_lowest_def Let_def split: option.splits)
    have r: "handle_open_reconnect px op s v1 = (r, v')"
      using run s by (simp add: handle_open_def t_def [symmetric] v1_def [symmetric] Let_def)
    then have v': "sv_sessions v' = hm_insert t (reconnect_session s) (sv_sessions v1)"
      by (auto simp: handle_open_reconnect_def Let_def t_def)
    have tin: "t \<in> fst ` set (sv_sessions v1)"
      using s hm_get_set by force
    have keys: "fst ` set (sv_sessions v') = fst ` set (sv_sessions v1)"
      using tin by (auto simp: v' keys_hm_insert)
    have others: "set (if length (sv_sessions v1) > 1 then filter (\<lambda>i. i \<noteq> t) (map fst (sv_sessions v1)) else [])
        = fst ` set (sv_sessions v1) - {t}"
    proof (cases "length (sv_sessions v1) > 1")
      case False
      then obtain x where "sv_sessions v1 = [x]"
        using tin by (cases "sv_sessions v1") auto
      with tin show ?thesis by auto
    qed auto
    have "length (sv_sessions v1) = length (sv_sessions v)"
      unfolding v1_def by (rule length_remap [OF wf])
    then have "length (sv_sessions v') = length (sv_sessions v)"
      using s by (simp add: v' length_hm_insert hm_contains_get)
    moreover have "children (sv_sessions v') = children (sv_sessions v)"
      using children_replace [OF v1(2) s, of "reconnect_session s"] v1(1) v' by simp
    ultimately show ?thesis
      using r others keys sync1 by (auto simp: handle_open_reconnect_def Let_def t_def [symmetric])
  qed
  ultimately show ?thesis by (simp add: t_def)
qed

theorem open_terminal_behaviour_witness:
  "children (sv_sessions (snd (handle_open 0 \<lparr>px_service_id = ''a'', px_is_persistent = True\<rparr>
      \<lparr>oe_openpty = None, oe_spawn = Inr (8, None), oe_take_writer = None, oe_clone_reader = None, oe_resize = None, oe_kill = None\<rparr>
      \<lparr>ot_terminal_id = 1, ot_rows = 24, ot_cols = 80\<rparr>
      ((service_new 0 ''a'' True False)\<lparr>sv_needs_session_sync := True, sv_sessions :=
         [(2, spawned_session 0 \<lparr>ot_terminal_id = 2, ot_rows = 24, ot_cols = 80\<rparr> 7 None)]\<rparr>)))) = {7}"
  (is "children (sv_sessions (snd (handle_open _ ?px ?e ?op ?v))) = _")
proof -
  have "children (sv_sessions (snd (handle_open 0 ?px ?e ?op ?v))) = children (sv_sessions ?v)"
    using open_terminal_behaviour [OF prod.collapse [symmetric], of ?v 0 ?px ?e ?op] by (simp add: hm_wf_def)
  also have "\<dots> = {7}" by (auto simp: children_def spawned_session_def)
  finally show ?thesis .
qed

end
