(* ===== verification/Fs_Path.thy ===== *)
theory Fs_Path
  imports Prelude "HOL-Library.Sublist"
begin

text \<open>
  The path checks of file transfer, \<open>libs/base/src/fs.rs\<close> (the Unix build): an untrusted relative
  name is checked for traversal and for symbolic links before it is joined to the base directory.

  A path is its text.  \<open>Path::components\<close> and \<open>PathBuf::push\<close>/\<open>join\<close> of the standard library are
  written out; \<open>std::fs::symlink_metadata\<close> is the argument \<open>meta\<close>.  What the checks achieve is stated
  on \<open>lex_resolve\<close>, the names a path walks through once empty and \<open>.\<close> segments are dropped and \<open>..\<close>
  steps back.
\<close>

section \<open>Paths\<close>

definition SLASH :: char where "SLASH = CHR ''/''"

datatype component = RootDir | CurDir | ParentDir | Normal string

definition is_absolute :: "string \<Rightarrow> bool" where
  "is_absolute p = (case p of c # _ \<Rightarrow> c = SLASH | [] \<Rightarrow> False)"

definition segments :: "string \<Rightarrow> string list" where
  "segments p = filter (\<lambda>x. x \<noteq> []) (split_on SLASH p)"

definition seg_component :: "string \<Rightarrow> component" where
  "seg_component x = (if x = ''..'' then ParentDir else if x = ''.'' then CurDir else Normal x)"

text \<open>\<open>components\<close> keeps a \<open>.\<close> only at the very beginning.\<close>

definition path_components :: "string \<Rightarrow> component list" where
  "path_components p =
     (if is_absolute p then RootDir # map seg_component (filter (\<lambda>x. x \<noteq> ''.'') (segments p))
      else case segments p of
             [] \<Rightarrow> []
           | x # xs \<Rightarrow> seg_component x # map seg_component (filter (\<lambda>y. y \<noteq> ''.'') xs))"

definition path_push :: "string \<Rightarrow> string \<Rightarrow> string" where
  "path_push p x =
     (if is_absolute x then x
      else if p = [] \<or> last p = SLASH then p @ x else p @ [SLASH] @ x)"

text \<open>Where a path leads, text only: the stack of names it walks through.\<close>

definition lex_step :: "string \<Rightarrow> string list \<Rightarrow> string list" where
  "lex_step x st = (if x = ''.'' then st else if x = ''..'' then butlast st else st @ [x])"

definition lex_resolve :: "string \<Rightarrow> string list" where
  "lex_resolve p = fold lex_step (segments p) []"

section \<open>Checks\<close>

datatype fs_meta = MetaFile | MetaSymlink | MetaNotFound | MetaErr string

definition validate_file_name_no_traversal :: "string \<Rightarrow> string + unit" where
  "validate_file_name_no_traversal name =
     (if CHR 0x00 \<in> set name then Inl ''file name contains null bytes''
      else if ''..'' \<in> set (segments name) then Inl ''path traversal detected in file name''
      else if is_absolute name then Inl ''absolute path detected in file name''
      else Inr ())"

definition validate_fs_path_argument :: "string \<Rightarrow> string \<Rightarrow> string + unit" where
  "validate_fs_path_argument path arg_name =
     (if path = [] then Inl (arg_name @ '' cannot be empty'')
      else if CHR 0x00 \<in> set path then Inl (arg_name @ '' contains null bytes'')
      else Inr ())"

fun check_components :: "(string \<Rightarrow> fs_meta) \<Rightarrow> string \<Rightarrow> component list \<Rightarrow> string + unit" where
  "check_components meta current [] = Inr ()"
| "check_components meta current (Normal x # cs) =
     (let next = path_push current x in
      case meta next of
        MetaSymlink \<Rightarrow> Inl ''symlink path component is not allowed''
      | MetaErr err \<Rightarrow> Inl (''failed to validate path component '' @ next @ '': '' @ err)
      | _ \<Rightarrow> check_components meta next cs)"
| "check_components meta current (CurDir # cs) = check_components meta current cs"
| "check_components meta current (c # cs) = Inl ''invalid file name component''"

definition validate_no_symlink_components :: "(string \<Rightarrow> fs_meta) \<Rightarrow> string \<Rightarrow> string \<Rightarrow> string + unit" where
  "validate_no_symlink_components meta base name =
     (if name = [] then Inr () else check_components meta base (path_components name))"

definition job_join :: "string \<Rightarrow> string \<Rightarrow> string" where
  "job_join p name = (if name = [] then p else path_push p name)"

definition join_validated_path :: "(string \<Rightarrow> fs_meta) \<Rightarrow> string \<Rightarrow> string \<Rightarrow> string + string" where
  "join_validated_path meta base name =
     (case validate_file_name_no_traversal name of
        Inl e \<Rightarrow> Inl e
      | Inr _ \<Rightarrow>
          (case validate_no_symlink_components meta base name of
             Inl e \<Rightarrow> Inl e
           | Inr _ \<Rightarrow> Inr (job_join base name)))"

section \<open>What a validated path is\<close>

definition plain_segments :: "string \<Rightarrow> string list" where
  "plain_segments name = filter (\<lambda>x. x \<noteq> ''.'') (segments name)"

lemma segments_Nil [simp]: "segments [] = []"
  by (simp add: segments_def)

lemma segments_sep: "segments (p @ SLASH # q) = segments p @ segments q"
  by (simp add: segments_def split_on_append_sep)

lemma segments_push:
  assumes "\<not> is_absolute x"
  shows "segments (path_push p x) = segments p @ segments x"
proof (cases "p = []")
  case False
  then obtain q c where p: "p = q @ [c]" by (cases p rule: rev_cases) auto
  have "segments (q @ [SLASH]) = segments q" using segments_sep [of q "[]"] by simp
  then show ?thesis using assms p segments_sep [of q x] segments_sep [of "q @ [c]" x]
    by (auto simp: path_push_def)
qed (use assms in \<open>simp add: path_push_def\<close>)

lemma lex_steps_plain: "''..'' \<notin> set xs \<Longrightarrow> fold lex_step xs st = st @ filter (\<lambda>x. x \<noteq> ''.'') xs"
  by (induction xs arbitrary: st) (auto simp: lex_step_def)

lemma check_components_skip:
  "check_components meta cur (map seg_component (filter (\<lambda>x. x \<noteq> ''.'') xs)) =
   check_components meta cur (map seg_component xs)"
  by (induction xs arbitrary: cur) (auto simp: seg_component_def Let_def split: fs_meta.splits)

lemma check_relative:
  assumes "\<not> is_absolute name"
  shows "check_components meta base (path_components name) = check_components meta base (map seg_component (segments name))"
proof (cases "segments name")
  case (Cons x xs)
  have "check_components meta cur (seg_component x # map seg_component (filter (\<lambda>y. y \<noteq> ''.'') xs)) =
        check_components meta cur (seg_component x # map seg_component xs)" for cur
    by (auto simp: seg_component_def Let_def check_components_skip split: fs_meta.splits)
  with Cons assms show ?thesis by (simp add: path_components_def)
qed (use assms in \<open>simp add: path_components_def\<close>)

lemma segment_shape: "x \<in> set (segments p) \<Longrightarrow> x \<noteq> [] \<and> SLASH \<notin> set x"
  by (auto simp: segments_def dest: split_on_pieces)

lemma checked_no_symlink:
  assumes "check_components meta cur (map seg_component xs) = Inr ()" and "''..'' \<notin> set xs"
    and "\<And>x. x \<in> set xs \<Longrightarrow> x \<noteq> [] \<and> SLASH \<notin> set x"
    and "prefix ys (filter (\<lambda>x. x \<noteq> ''.'') xs)" and "ys \<noteq> []"
  shows "meta (foldl path_push cur ys) \<in> {MetaFile, MetaNotFound}"
  using assms
proof (induction xs arbitrary: cur ys)
  case (Cons x xs)
  show ?case
  proof (cases "x = ''.''")
    case True
    with Cons.prems show ?thesis by (intro Cons.IH) (auto simp: seg_component_def)
  next
    case False
    then have nx: "seg_component x = Normal x" using Cons.prems(2) by (auto simp: seg_component_def)
    obtain zs where ys: "ys = x # zs" "prefix zs (filter (\<lambda>x. x \<noteq> ''.'') xs)"
      using Cons.prems(4,5) False by (cases ys) auto
    have m: "meta (path_push cur x) \<in> {MetaFile, MetaNotFound}"
       "check_components meta (path_push cur x) (map seg_component xs) = Inr ()"
      using Cons.prems(1) nx by (auto simp: Let_def split: fs_meta.splits)
    show ?thesis
    proof (cases "zs = []")
      case True
      with ys m show ?thesis by simp
    next
      case nz: False
      then have "meta (foldl path_push (path_push cur x) zs) \<in> {MetaFile, MetaNotFound}"
        using Cons.prems m(2) ys by (intro Cons.IH) auto
      with ys show ?thesis by simp
    qed
  qed
qed simp

text \<open>C19. A path that \<open>join_validated_path\<close> hands out stays beneath the base directory: it resolves to the
  base followed by the plain segments of the name, none of which is \<open>..\<close> or contains a separator, the
  name has no null byte, and at the time of the check neither the target nor any directory on the way
  from the base was a symbolic link.\<close>

theorem validated_path_contained:
  assumes "join_validated_path meta base name = Inr p"
  shows "lex_resolve p = lex_resolve base @ plain_segments name \<and>
         (\<forall>x \<in> set (plain_segments name). x \<noteq> [] \<and> x \<noteq> ''..'' \<and> SLASH \<notin> set x) \<and>
         CHR 0x00 \<notin> set name \<and>
         (\<forall>ys. prefix ys (plain_segments name) \<and> ys \<noteq> [] \<longrightarrow>
            meta (foldl path_push base ys) \<in> {MetaFile, MetaNotFound})"
proof -
  have v: "validate_file_name_no_traversal name = Inr ()" "validate_no_symlink_components meta base name = Inr ()"
     and p: "p = job_join base name"
    using assms by (auto simp: join_validated_path_def split: sum.splits)
  have nm: "CHR 0x00 \<notin> set name" "''..'' \<notin> set (segments name)" "\<not> is_absolute name"
    using v(1) by (auto simp: validate_file_name_no_traversal_def split: if_splits)
  have "segments p = segments base @ segments name"
    using p nm(3) by (cases "name = []") (simp_all add: job_join_def segments_push)
  then have "lex_resolve p = lex_resolve base @ plain_segments name"
    using nm(2) by (simp add: lex_resolve_def plain_segments_def lex_steps_plain)
  moreover have "\<forall>x \<in> set (plain_segments name). x \<noteq> [] \<and> x \<noteq> ''..'' \<and> SLASH \<notin> set x"
    using nm(2) segment_shape by (auto simp: plain_segments_def)
  moreover have "check_components meta base (map seg_component (segments name)) = Inr ()"
    using v(2) nm(3) by (cases "name = []") (simp_all add: validate_no_symlink_components_def check_relative)
  then have "\<forall>ys. prefix ys (plain_segments name) \<and> ys \<noteq> [] \<longrightarrow>
            meta (foldl path_push base ys) \<in> {MetaFile, MetaNotFound}"
    using checked_no_symlink [of meta base "segments name"] nm(2) segment_shape
    unfolding plain_segments_def by blast
  ultimately show ?thesis using nm(1) by blast
qed

theorem validated_path_contained_witness:
  "lex_resolve ''/home/u/in/a/b'' = lex_resolve ''/home/u/in'' @ [''a'', ''b'']"
proof -
  have "join_validated_path (\<lambda>_. MetaNotFound) ''/home/u/in'' ''a/./b'' = Inr ''/home/u/in/a/./b''"
    by code_simp
  from validated_path_contained [OF this] show ?thesis
    by (simp add: lex_resolve_def plain_segments_def segments_def SLASH_def lex_step_def)
qed

end
