(* ===== verification/Fs_Transfer.thy ===== *)
theory Fs_Transfer
  imports Fs_Path
begin

text \<open>
  File transfer jobs, \<open>libs/base/src/fs.rs\<close> (the Unix build): a reading job turns files into blocks, a
  writing job turns blocks into files, with overwrite detection, resuming and skipping.

  \<^item> The file system is the contents and modification time of each path.  A \<open>DataStream\<close> is an open
    file at a position, or a memory buffer at a position.  Directories are not represented
    (\<open>create_dir_all\<close> is best effort in the code and its failure shows as a failing \<open>File::create\<close>).
  \<^item> Whether an operating-system call fails is an argument (\<open>io_env\<close>, \<open>read_err\<close>);
    \<open>symlink_metadata\<close> is \<open>meta\<close>; \<open>compress\<close>, \<open>decompress\<close> and the JSON text of a digest are
    parameters.
  \<^item> Byte counters are unbounded, the sums over peer-supplied sizes wrap at 64 bits.
\<close>

section \<open>Data\<close>

record file_entry =
  fe_name :: string
  fe_size :: nat
  fe_modified_time :: nat

datatype job_type = JGeneric | JPrinter

definition job_type_from_i32 :: "int \<Rightarrow> job_type" where
  "job_type_from_i32 v = (if v = 1 then JPrinter else JGeneric)"

definition job_type_into_i32 :: "job_type \<Rightarrow> int" where
  "job_type_into_i32 t = (case t of JGeneric \<Rightarrow> 0 | JPrinter \<Rightarrow> 1)"

datatype data_source = FilePath string | MemoryCursor bytes nat

datatype data_stream = FileStream string nat | BufStream bytes nat

record file_digest =
  dg_size :: nat
  dg_modified :: nat

record transfer_job =
  tj_id :: int
  tj_type :: job_type
  tj_remote :: string
  tj_data_source :: data_source
  tj_show_hidden :: bool
  tj_is_remote :: bool
  tj_is_last_job :: bool
  tj_is_resume :: bool
  tj_file_num :: int
  tj_files :: "file_entry list"
  tj_conn_id :: int
  tj_data_stream :: "data_stream option"
  tj_total_size :: nat
  tj_finished_size :: nat
  tj_transferred :: nat
  tj_enable_overwrite_detection :: bool
  tj_file_confirmed :: bool
  tj_file_skipped :: bool
  tj_file_is_waiting :: bool
  tj_default_overwrite_strategy :: "bool option"
  tj_digest :: file_digest

record file_block =
  blk_id :: int
  blk_file_num :: int
  blk_data :: bytes
  blk_compressed :: bool

text \<open>Modification times are in nanoseconds since the epoch.\<close>

definition NANOS :: nat where "NANOS = 1000000000"

record fs_state =
  fs_content :: "string \<Rightarrow> bytes option"
  fs_mtime :: "string \<Rightarrow> nat"

record io_env =
  ie_sync :: "string option"
  ie_create :: "string option"
  ie_remove :: "string option"
  ie_write :: "string option"
  ie_rename_ok :: bool
  ie_digest_ok :: bool

text \<open>The cast \<open>as usize\<close> of an \<open>i32\<close>.\<close>

definition usize_of :: "int \<Rightarrow> nat" where
  "usize_of n = (if n < 0 then nat (n + 2 ^ 64) else nat n)"

definition sum_u64 :: "nat list \<Rightarrow> nat" where
  "sum_u64 ns = sum_list ns mod 2 ^ 64"

section \<open>Names\<close>

definition get_ext :: "string \<Rightarrow> string" where
  "get_ext name = (if CHR ''.'' \<in> set name then rev (takeWhile (\<lambda>c. c \<noteq> CHR ''.'') (rev name)) else [])"

definition is_compressed_file :: "string \<Rightarrow> bool" where
  "is_compressed_file name =
     (get_ext name \<in> set [''xz'', ''gz'', ''zip'', ''7z'', ''rar'', ''bz2'', ''tgz'', ''png'', ''jpg''])"

fun validate_names :: "file_entry list \<Rightarrow> string + unit" where
  "validate_names [] = Inr ()"
| "validate_names (f # fs) =
     (if fe_name f = [] then Inl ''empty file name in multi-file transfer''
      else case validate_file_name_no_traversal (fe_name f) of Inl e \<Rightarrow> Inl e | Inr _ \<Rightarrow> validate_names fs)"

definition validate_transfer_file_names :: "file_entry list \<Rightarrow> string + unit" where
  "validate_transfer_file_names fs =
     (if length fs = 1 \<and> fe_name (hd fs) = [] then Inr () else validate_names fs)"

fun validate_links :: "(string \<Rightarrow> fs_meta) \<Rightarrow> string \<Rightarrow> file_entry list \<Rightarrow> string + unit" where
  "validate_links meta base [] = Inr ()"
| "validate_links meta base (f # fs) =
     (case validate_no_symlink_components meta base (fe_name f) of Inl e \<Rightarrow> Inl e | Inr _ \<Rightarrow> validate_links meta base fs)"

section \<open>Creating a job\<close>

definition default_job :: transfer_job where
  "default_job =
     \<lparr>tj_id = 0, tj_type = JGeneric, tj_remote = [], tj_data_source = FilePath [], tj_show_hidden = False,
      tj_is_remote = False, tj_is_last_job = False, tj_is_resume = False, tj_file_num = 0, tj_files = [],
      tj_conn_id = 0, tj_data_stream = None, tj_total_size = 0, tj_finished_size = 0, tj_transferred = 0,
      tj_enable_overwrite_detection = False, tj_file_confirmed = False, tj_file_skipped = False,
      tj_file_is_waiting = False, tj_default_overwrite_strategy = None,
      tj_digest = \<lparr>dg_size = 0, dg_modified = 0\<rparr>\<rparr>"

definition new_write :: "int \<Rightarrow> job_type \<Rightarrow> string \<Rightarrow> data_source \<Rightarrow> int \<Rightarrow> bool \<Rightarrow> bool \<Rightarrow> bool \<Rightarrow> transfer_job" where
  "new_write i ty remote src file_num show_hidden is_remote detect =
     default_job\<lparr>tj_id := i, tj_type := ty, tj_remote := remote, tj_data_source := src, tj_file_num := file_num,
       tj_show_hidden := show_hidden, tj_is_remote := is_remote, tj_enable_overwrite_detection := detect\<rparr>"

text \<open>\<open>new_read\<close>: the list of files below the path (\<open>get_recursive_files\<close>) is an argument.\<close>

definition new_read ::
  "(string + file_entry list) \<Rightarrow> int \<Rightarrow> job_type \<Rightarrow> string \<Rightarrow> data_source \<Rightarrow> int \<Rightarrow> bool \<Rightarrow> bool \<Rightarrow> bool \<Rightarrow> string + transfer_job" where
  "new_read listing i ty remote src file_num show_hidden is_remote detect =
     (case src of
        FilePath p \<Rightarrow>
          (case listing of
             Inl e \<Rightarrow> Inl e
           | Inr fs \<Rightarrow> Inr ((new_write i ty remote src file_num show_hidden is_remote detect)
                              \<lparr>tj_files := fs, tj_total_size := sum_u64 (map fe_size fs)\<rparr>))
      | MemoryCursor c pos \<Rightarrow>
          Inr ((new_write i ty remote src file_num show_hidden is_remote detect)\<lparr>tj_total_size := length c\<rparr>))"

definition set_files :: "(string \<Rightarrow> fs_meta) \<Rightarrow> file_entry list \<Rightarrow> transfer_job \<Rightarrow> (string + unit) \<times> transfer_job" where
  "set_files meta fs j =
     (case validate_transfer_file_names fs of
        Inl e \<Rightarrow> (Inl e, j)
      | Inr _ \<Rightarrow>
          (case (case tj_data_source j of FilePath base \<Rightarrow> validate_links meta base fs | MemoryCursor _ _ \<Rightarrow> Inr ()) of
             Inl e \<Rightarrow> (Inl e, j)
           | Inr _ \<Rightarrow> (Inr (), j\<lparr>tj_total_size := sum_u64 (map fe_size fs), tj_files := fs\<rparr>)))"

definition set_digest :: "nat \<Rightarrow> nat \<Rightarrow> transfer_job \<Rightarrow> transfer_job" where
  "set_digest sz modified j = j\<lparr>tj_digest := \<lparr>dg_size = sz, dg_modified = modified\<rparr>\<rparr>"

definition resolve_entry_path :: "(string \<Rightarrow> fs_meta) \<Rightarrow> transfer_job \<Rightarrow> string \<Rightarrow> string \<Rightarrow> string option" where
  "resolve_entry_path meta j base name =
     (if tj_type j = JGeneric then
        (case join_validated_path meta base name of Inr p \<Rightarrow> Some p | Inl _ \<Rightarrow> None)
      else Some (job_join base name))"

definition download_path :: "string \<Rightarrow> string" where "download_path p = p @ ''.download''"
definition digest_path :: "string \<Rightarrow> string" where "digest_path p = p @ ''.digest''"

text \<open>The entry the job is at, resolved, when there is one: shared by \<open>modify_time\<close> and
  \<open>remove_download_file\<close>.\<close>

definition current_entry :: "(string \<Rightarrow> fs_meta) \<Rightarrow> transfer_job \<Rightarrow> (file_entry \<times> string) option" where
  "current_entry meta j =
     (if tj_type j = JPrinter then None
      else case tj_data_source j of
             MemoryCursor _ _ \<Rightarrow> None
           | FilePath p \<Rightarrow>
               (let n = usize_of (tj_file_num j) in
                if n < length (tj_files j) then
                  (case resolve_entry_path meta j p (fe_name (tj_files j ! n)) of
                     Some path \<Rightarrow> Some (tj_files j ! n, path)
                   | None \<Rightarrow> None)
                else None))"

definition fs_remove :: "string \<Rightarrow> fs_state \<Rightarrow> fs_state" where
  "fs_remove p fs = fs\<lparr>fs_content := (fs_content fs)(p := None)\<rparr>"

definition fs_put :: "string \<Rightarrow> bytes \<Rightarrow> fs_state \<Rightarrow> fs_state" where
  "fs_put p d fs = fs\<lparr>fs_content := (fs_content fs)(p := Some d)\<rparr>"

definition fs_rename :: "string \<Rightarrow> string \<Rightarrow> fs_state \<Rightarrow> fs_state" where
  "fs_rename p q fs =
     (case fs_content fs p of
        None \<Rightarrow> fs
      | Some d \<Rightarrow> fs\<lparr>fs_content := (fs_content fs)(p := None, q := Some d)\<rparr>)"

definition modify_time :: "(string \<Rightarrow> fs_meta) \<Rightarrow> io_env \<Rightarrow> transfer_job \<Rightarrow> fs_state \<Rightarrow> fs_state" where
  "modify_time meta e j fs =
     (case current_entry meta j of
        None \<Rightarrow> fs
      | Some (entry, path) \<Rightarrow>
          (let fs1 = fs_remove (digest_path path) fs;
               fs2 = (if ie_rename_ok e then fs_rename (download_path path) path fs1 else fs1)
           in if fs_content fs2 path \<noteq> None
              then fs2\<lparr>fs_mtime := (fs_mtime fs2)(path := fe_modified_time entry * NANOS)\<rparr> else fs2))"

definition remove_download_file :: "(string \<Rightarrow> fs_meta) \<Rightarrow> transfer_job \<Rightarrow> fs_state \<Rightarrow> fs_state" where
  "remove_download_file meta j fs =
     (case current_entry meta j of
        None \<Rightarrow> fs
      | Some (entry, path) \<Rightarrow> fs_remove (digest_path path) (fs_remove (download_path path) fs))"

definition set_finished_size_on_resume :: "transfer_job \<Rightarrow> transfer_job" where
  "set_finished_size_on_resume j =
     (if tj_is_resume j \<and> tj_file_num j > 0
      then j\<lparr>tj_finished_size := sum_u64 (map fe_size (take (usize_of (tj_file_num j)) (tj_files j)))\<rparr> else j)"

section \<open>Writing\<close>

definition write_at :: "nat \<Rightarrow> bytes \<Rightarrow> bytes \<Rightarrow> bytes" where
  "write_at pos d c = take pos (c @ replicate (pos - length c) 0) @ d @ drop (pos + length d) c"

definition stream_write :: "bytes \<Rightarrow> data_stream \<Rightarrow> fs_state \<Rightarrow> data_stream \<times> fs_state" where
  "stream_write d s fs =
     (case s of
        FileStream p pos \<Rightarrow>
          (FileStream p (pos + length d),
           fs_put p (write_at pos d (case fs_content fs p of Some c \<Rightarrow> c | None \<Rightarrow> [])) fs)
      | BufStream c pos \<Rightarrow> (BufStream (write_at pos d c) (pos + length d), fs))"

text \<open>The target of the current file: its \<open>.download\<close> name and, but for printer jobs, its digest.\<close>

definition write_target :: "(string \<Rightarrow> fs_meta) \<Rightarrow> transfer_job \<Rightarrow> string \<Rightarrow> string \<Rightarrow> string + (string \<times> string option)" where
  "write_target meta j p name =
     (if tj_type j = JPrinter then Inr (p, None)
      else case join_validated_path meta p name of
             Inl err \<Rightarrow> Inl err
           | Inr path \<Rightarrow> Inr (download_path path, Some (digest_path path)))"

definition create_target ::
  "io_env \<Rightarrow> (file_digest \<Rightarrow> bytes) \<Rightarrow> string \<Rightarrow> string option \<Rightarrow> transfer_job \<Rightarrow> fs_state \<Rightarrow> string option \<times> transfer_job \<times> fs_state" where
  "create_target e djson path dp j fs =
     (let has_digest = (case dp of Some q \<Rightarrow> fs_content fs q \<noteq> None | None \<Rightarrow> False);
          fs1 = (case dp of Some q \<Rightarrow> fs_remove q fs | None \<Rightarrow> fs)
      in if has_digest \<and> ie_remove e \<noteq> None then (ie_remove e, j, fs)
         else case ie_create e of
                Some err \<Rightarrow> (Some err, j, fs1)
              | None \<Rightarrow>
                  (let fs2 = fs_put path [] fs1;
                       fs3 = (case dp of Some q \<Rightarrow> if ie_digest_ok e then fs_put q (djson (tj_digest j)) fs2 else fs2 | None \<Rightarrow> fs2)
                   in (None, j\<lparr>tj_data_stream := Some (FileStream path 0)\<rparr>, fs3)))"

definition open_for_write ::
  "(string \<Rightarrow> fs_meta) \<Rightarrow> io_env \<Rightarrow> (file_digest \<Rightarrow> bytes) \<Rightarrow> string \<Rightarrow> int \<Rightarrow> transfer_job \<Rightarrow> fs_state \<Rightarrow> string option \<times> transfer_job \<times> fs_state" where
  "open_for_write meta e djson p n j fs =
     (let fs1 = modify_time meta e j fs in
      if (case tj_data_stream j of Some (FileStream _ _) \<Rightarrow> True | _ \<Rightarrow> False) \<and> ie_sync e \<noteq> None then (ie_sync e, j, fs1)
      else let j1 = j\<lparr>tj_file_num := n\<rparr> in
        case write_target meta j1 p (fe_name (tj_files j1 ! usize_of n)) of
          Inl err \<Rightarrow> (Some err, j1, fs1)
        | Inr (path, dp) \<Rightarrow> create_target e djson path dp j1 fs1)"

definition prepare_stream ::
  "(string \<Rightarrow> fs_meta) \<Rightarrow> io_env \<Rightarrow> (file_digest \<Rightarrow> bytes) \<Rightarrow> int \<Rightarrow> transfer_job \<Rightarrow> fs_state \<Rightarrow> string option \<times> transfer_job \<times> fs_state" where
  "prepare_stream meta e djson n j fs =
     (case tj_data_source j of
        FilePath p \<Rightarrow>
          if usize_of n \<ge> length (tj_files j) then (Some ''Wrong file number'', j, fs)
          else if usize_of n \<noteq> usize_of (tj_file_num j) \<or> tj_data_stream j = None
               then open_for_write meta e djson p n j fs
               else (None, j, fs)
      | MemoryCursor c pos \<Rightarrow>
          (None, if tj_data_stream j = None then j\<lparr>tj_data_stream := Some (BufStream c pos)\<rparr> else j, fs))"

definition write_block ::
  "(bytes \<Rightarrow> bytes) \<Rightarrow> io_env \<Rightarrow> file_block \<Rightarrow> transfer_job \<Rightarrow> fs_state \<Rightarrow> string option \<times> transfer_job \<times> fs_state" where
  "write_block decompress e b j fs =
     (let d = (if blk_compressed b then decompress (blk_data b) else blk_data b) in
      case tj_data_stream j of
        None \<Rightarrow> (Some (if blk_compressed b then ''data stream is None'' else ''file is None''), j, fs)
      | Some s \<Rightarrow>
          (case ie_write e of
             Some err \<Rightarrow> (Some err, j, fs)
           | None \<Rightarrow>
               (case stream_write d s fs of
                  (s1, fs1) \<Rightarrow>
                    (None,
                     j\<lparr>tj_data_stream := Some s1, tj_finished_size := tj_finished_size j + length d,
                       tj_transferred := tj_transferred j + length (blk_data b)\<rparr>, fs1))))"

definition job_write ::
  "(string \<Rightarrow> fs_meta) \<Rightarrow> (bytes \<Rightarrow> bytes) \<Rightarrow> (file_digest \<Rightarrow> bytes) \<Rightarrow> io_env \<Rightarrow> file_block \<Rightarrow> transfer_job \<Rightarrow> fs_state \<Rightarrow>
   string option \<times> transfer_job \<times> fs_state" where
  "job_write meta decompress djson e b j fs =
     (if blk_id b \<noteq> tj_id j then (Some ''Wrong id'', j, fs)
      else case prepare_stream meta e djson (blk_file_num b) j fs of
             (Some err, j1, fs1) \<Rightarrow> (Some err, j1, fs1)
           | (None, j1, fs1) \<Rightarrow> write_block decompress e b j1 fs1)"

section \<open>Reading\<close>

definition reset_for_next :: "transfer_job \<Rightarrow> transfer_job" where
  "reset_for_next j = j\<lparr>tj_file_num := tj_file_num j + 1, tj_file_confirmed := False, tj_file_is_waiting := False\<rparr>"

definition open_data_stream :: "(string \<Rightarrow> string option) \<Rightarrow> transfer_job \<Rightarrow> (string + bool) \<times> transfer_job" where
  "open_data_stream open_err j =
     (case tj_data_source j of
        FilePath p \<Rightarrow>
          (let n = usize_of (tj_file_num j) in
           if n \<ge> length (tj_files j) then (Inr True, j\<lparr>tj_data_stream := None\<rparr>)
           else if tj_data_stream j \<noteq> None then (Inr False, j)
           else let path = job_join p (fe_name (tj_files j ! n)) in
             case open_err path of
               None \<Rightarrow> (Inr False, j\<lparr>tj_data_stream := Some (FileStream path 0), tj_file_confirmed := False, tj_file_is_waiting := False\<rparr>)
             | Some err \<Rightarrow> (Inl err, reset_for_next j))
      | MemoryCursor c pos \<Rightarrow>
          (Inr False,
           if tj_data_stream j = None
           then j\<lparr>tj_data_stream := Some (BufStream c pos), tj_data_source := MemoryCursor [] 0\<rparr> else j))"

definition needs_confirm :: "transfer_job \<Rightarrow> bool" where
  "needs_confirm j =
     (tj_type j = JGeneric \<and> tj_enable_overwrite_detection j \<and> \<not> tj_file_confirmed j \<and> \<not> tj_file_is_waiting j)"

text \<open>\<open>init_data_stream_for_cm\<close>; \<open>digest\<close> is what \<open>get_current_digest\<close> returns.  \<open>init_data_stream\<close> sends
  the same digest on the stream instead of returning it.\<close>

definition init_data_stream_for_cm ::
  "(string \<Rightarrow> string option) \<Rightarrow> (string + nat \<times> nat) \<Rightarrow> transfer_job \<Rightarrow> (string + (nat \<times> nat) option) \<times> transfer_job" where
  "init_data_stream_for_cm open_err dig j =
     (case open_data_stream open_err j of
        (Inl e, j1) \<Rightarrow> (Inl e, j1)
      | (Inr True, j1) \<Rightarrow> (Inr None, j1)
      | (Inr False, j1) \<Rightarrow>
          if needs_confirm j1 then
            (case (case tj_data_stream j1 of
                     None \<Rightarrow> Inl ''file is None''
                   | Some (BufStream _ _) \<Rightarrow> Inl ''No digest for buf stream''
                   | Some (FileStream _ _) \<Rightarrow> dig) of
               Inl e \<Rightarrow> (Inl e, j1)
             | Inr d \<Rightarrow> (Inr (Some d), j1\<lparr>tj_file_is_waiting := True\<rparr>))
          else (Inr None, j1))"

definition BUF_SIZE :: nat where "BUF_SIZE = 128 * 1024"

text \<open>The read loop: the \<open>i\<close>-th read returns at least one byte as long as there are bytes left and room
  in the buffer, how many is up to the operating system (\<open>chunk\<close>); it returns none at the end.\<close>

definition read_len :: "nat \<Rightarrow> bytes \<Rightarrow> bytes \<Rightarrow> nat" where
  "read_len k buf rest = min (max 1 k) (min (length rest) (BUF_SIZE - length buf))"

lemma read_len_zero: "length buf < BUF_SIZE \<Longrightarrow> read_len k buf rest = 0 \<longleftrightarrow> rest = []"
  by (auto simp: read_len_def min_def max_def)

lemma read_len_le: "read_len k buf rest \<le> length rest" "read_len k buf rest \<le> BUF_SIZE - length buf"
  by (simp_all add: read_len_def)

function fill_buf :: "(nat \<Rightarrow> nat) \<Rightarrow> nat \<Rightarrow> bytes \<Rightarrow> bytes \<Rightarrow> bytes \<times> bytes" where
  "fill_buf chunk i buf rest =
     (let n = read_len (chunk i) buf rest in
      if n = 0 then (buf, rest)
      else if length buf + n = BUF_SIZE then (buf @ take n rest, drop n rest)
      else fill_buf chunk (i + 1) (buf @ take n rest) (drop n rest))"
  by pat_completeness auto
termination
  by (relation "measure (\<lambda>(chunk, i, buf, rest). length rest)") (auto simp: read_len_def)

declare fill_buf.simps [simp del]

definition stream_rest :: "fs_state \<Rightarrow> data_stream \<Rightarrow> bytes" where
  "stream_rest fs s =
     (case s of
        FileStream p pos \<Rightarrow> drop pos (case fs_content fs p of Some c \<Rightarrow> c | None \<Rightarrow> [])
      | BufStream c pos \<Rightarrow> drop pos c)"

definition stream_advance :: "nat \<Rightarrow> data_stream \<Rightarrow> data_stream" where
  "stream_advance n s = (case s of FileStream p pos \<Rightarrow> FileStream p (pos + n) | BufStream c pos \<Rightarrow> BufStream c (pos + n))"

definition file_name_of :: "string \<Rightarrow> string" where
  "file_name_of p =
     (case rev (path_components p) of Normal x # _ \<Rightarrow> x | _ \<Rightarrow> [])"

definition block_name :: "transfer_job \<Rightarrow> string \<Rightarrow> nat \<Rightarrow> string" where
  "block_name j p n =
     (if length (tj_files j) = 1 \<and> fe_name (tj_files j ! n) = [] then file_name_of p else fe_name (tj_files j ! n))"

definition encode_block :: "(bytes \<Rightarrow> bytes) \<Rightarrow> bool \<Rightarrow> bytes \<Rightarrow> bytes \<times> bool" where
  "encode_block compress tryc buf =
     (if tryc \<and> length (compress buf) < length buf then (compress buf, True) else (buf, False))"

definition read_stream ::
  "(bytes \<Rightarrow> bytes) \<Rightarrow> (nat \<Rightarrow> nat) \<Rightarrow> bool \<Rightarrow> bool \<Rightarrow> data_stream \<Rightarrow> fs_state \<Rightarrow> transfer_job \<Rightarrow> file_block option \<times> transfer_job" where
  "read_stream compress chunk is_file tryc s fs j =
     (let buf = fst (fill_buf chunk 0 [] (stream_rest fs s)) in
      if buf = [] then
        (if \<not> is_file then (None, j\<lparr>tj_data_stream := None\<rparr>)
         else (Some \<lparr>blk_id = tj_id j, blk_file_num = tj_file_num j, blk_data = [], blk_compressed = False\<rparr>,
               (reset_for_next j)\<lparr>tj_data_stream := None\<rparr>))
      else case encode_block compress tryc buf of
             (d, z) \<Rightarrow>
               (Some \<lparr>blk_id = tj_id j, blk_file_num = tj_file_num j, blk_data = d, blk_compressed = z\<rparr>,
                j\<lparr>tj_data_stream := Some (stream_advance (length buf) s),
                  tj_finished_size := tj_finished_size j + length buf, tj_transferred := tj_transferred j + length d\<rparr>))"

definition job_read ::
  "(bytes \<Rightarrow> bytes) \<Rightarrow> (nat \<Rightarrow> nat) \<Rightarrow> string option \<Rightarrow> transfer_job \<Rightarrow> fs_state \<Rightarrow> (string + file_block option) \<times> transfer_job" where
  "job_read compress chunk read_err j fs =
     (if tj_type j = JGeneric \<and> tj_enable_overwrite_detection j \<and> \<not> tj_file_confirmed j then (Inr None, j)
      else let n = usize_of (tj_file_num j) in
        if (case tj_data_source j of FilePath _ \<Rightarrow> n \<ge> length (tj_files j) | MemoryCursor _ _ \<Rightarrow> False)
        then (Inr None, j\<lparr>tj_data_stream := None\<rparr>)
        else case tj_data_stream j of
          None \<Rightarrow> (Inl ''data stream is None'', j)
        | Some s \<Rightarrow>
            (case read_err of
               Some err \<Rightarrow> (Inl err, (reset_for_next j)\<lparr>tj_data_stream := None\<rparr>)
             | None \<Rightarrow>
                 (case tj_data_source j of
                    FilePath p \<Rightarrow>
                      (case read_stream compress chunk True (\<not> is_compressed_file (block_name j p n)) s fs j of (b, j1) \<Rightarrow> (Inr b, j1))
                  | MemoryCursor _ _ \<Rightarrow>
                      (case read_stream compress chunk False False s fs j of (b, j1) \<Rightarrow> (Inr b, j1)))))"

section \<open>Confirmation\<close>

definition set_file_confirmed :: "bool \<Rightarrow> transfer_job \<Rightarrow> transfer_job" where
  "set_file_confirmed c j = j\<lparr>tj_file_confirmed := c, tj_file_skipped := False\<rparr>"

definition set_file_is_waiting :: "bool \<Rightarrow> transfer_job \<Rightarrow> transfer_job" where
  "set_file_is_waiting c j = j\<lparr>tj_file_is_waiting := c\<rparr>"

definition set_overwrite_strategy :: "bool option \<Rightarrow> transfer_job \<Rightarrow> transfer_job" where
  "set_overwrite_strategy s j = j\<lparr>tj_default_overwrite_strategy := s\<rparr>"

definition job_skipped :: "transfer_job \<Rightarrow> bool" where
  "job_skipped j = (tj_file_skipped j \<and> length (tj_files j) = 1)"

definition job_completed :: "transfer_job \<Rightarrow> bool" where
  "job_completed j = (\<not> tj_enable_overwrite_detection j \<or> (\<not> tj_file_confirmed j \<and> \<not> tj_file_is_waiting j))"

definition job_error :: "transfer_job \<Rightarrow> string option" where
  "job_error j = (if job_skipped j then Some ''skipped'' else None)"

definition set_file_skipped :: "transfer_job \<Rightarrow> transfer_job" where
  "set_file_skipped j =
     (let j1 = set_file_is_waiting False (set_file_confirmed False (j\<lparr>tj_data_stream := None\<rparr>))
      in j1\<lparr>tj_file_num := tj_file_num j1 + 1, tj_file_skipped := True\<rparr>)"

text \<open>Seeking to a resume offset; \<open>open_err\<close> says whether opening fails, \<open>seek_ok\<close> whether seeking
  succeeds.\<close>

definition set_stream_offset ::
  "(string \<Rightarrow> fs_meta) \<Rightarrow> (string \<Rightarrow> string option) \<Rightarrow> bool \<Rightarrow> nat \<Rightarrow> nat \<Rightarrow> fs_state \<Rightarrow> transfer_job \<Rightarrow> transfer_job" where
  "set_stream_offset meta open_err seek_ok n offset fs j =
     (if n \<ge> length (tj_files j) then j
      else case tj_data_source j of
        MemoryCursor _ _ \<Rightarrow> j
      | FilePath p \<Rightarrow>
          (case resolve_entry_path meta j p (fe_name (tj_files j ! n)) of
             None \<Rightarrow> j
           | Some path \<Rightarrow>
               (let target = (if fs_content fs (download_path path) \<noteq> None \<and> fs_content fs (digest_path path) \<noteq> None
                              then Some (download_path path)
                              else if fs_content fs path \<noteq> None then Some path else None)
                in case target of
                     None \<Rightarrow> j
                   | Some t \<Rightarrow>
                       if open_err t = None \<and> seek_ok
                       then j\<lparr>tj_data_stream := Some (FileStream t offset), tj_transferred := tj_transferred j + offset,
                              tj_finished_size := tj_finished_size j + offset\<rparr>
                       else j)))"

datatype confirm_union = CSkip bool | COffsetBlk nat | CNone

definition confirm ::
  "(string \<Rightarrow> fs_meta) \<Rightarrow> (string \<Rightarrow> string option) \<Rightarrow> bool \<Rightarrow> int \<Rightarrow> confirm_union \<Rightarrow> fs_state \<Rightarrow> transfer_job \<Rightarrow> transfer_job" where
  "confirm meta open_err seek_ok n u fs j =
     (if tj_file_num j \<noteq> n then j
      else case u of
        CSkip s \<Rightarrow> if s then set_file_skipped j else set_file_confirmed True j
      | COffsetBlk offset \<Rightarrow>
          (let j1 = set_file_confirmed True j in
           if offset > 0 then set_stream_offset meta open_err seek_ok (usize_of n) offset fs j1 else j1)
      | CNone \<Rightarrow> j)"

section \<open>Jobs of a connection\<close>

datatype file_msg =
    MError int string int
  | MBlock file_block
  | MDone int int
  | MDigest int int nat nat bool

text \<open>\<open>init_data_stream\<close> with its caller \<open>init_jobs\<close>: the digest, or the error, goes out as a message.\<close>

definition init_job :: "(string \<Rightarrow> string option) \<Rightarrow> (string + nat \<times> nat) \<Rightarrow> transfer_job \<Rightarrow> file_msg list \<times> transfer_job" where
  "init_job open_err dig j =
     (if tj_is_last_job j then ([], j)
      else case init_data_stream_for_cm open_err dig j of
             (Inl e, j1) \<Rightarrow> ([MError (tj_id j1) e (tj_file_num j1)], j1)
           | (Inr None, j1) \<Rightarrow> ([], j1)
           | (Inr (Some (last_modified, sz)), j1) \<Rightarrow>
               ([MDigest (tj_id j1) (tj_file_num j1) last_modified sz (tj_is_resume j1)], j1))"

fun init_jobs :: "(string \<Rightarrow> string option) \<Rightarrow> (transfer_job \<Rightarrow> string + nat \<times> nat) \<Rightarrow> transfer_job list \<Rightarrow> file_msg list \<times> transfer_job list" where
  "init_jobs open_err dig [] = ([], [])"
| "init_jobs open_err dig (j # js) =
     (case init_job open_err (dig j) j of
        (ms, j1) \<Rightarrow> (case init_jobs open_err dig js of (mss, js1) \<Rightarrow> (ms @ mss, j1 # js1)))"

text \<open>One read of a job: its messages, and whether the job is finished.\<close>

definition read_job :: "(bytes \<Rightarrow> bytes) \<Rightarrow> (nat \<Rightarrow> nat) \<Rightarrow> string option \<Rightarrow> fs_state \<Rightarrow> transfer_job \<Rightarrow> file_msg list \<times> bool \<times> transfer_job" where
  "read_job compress chunk read_err fs j =
     (case job_read compress chunk read_err j fs of
        (Inl e, j1) \<Rightarrow> ([MError (tj_id j1) e (tj_file_num j1)], False, j1)
      | (Inr (Some b), j1) \<Rightarrow> ([MBlock b], False, j1)
      | (Inr None, j1) \<Rightarrow>
          if job_completed j1 then
            (case job_error j1 of
               Some e \<Rightarrow> ([MError (tj_id j1) e (tj_file_num j1)], True, j1)
             | None \<Rightarrow> ([MDone (tj_id j1) (tj_file_num j1)], True, j1))
          else ([], False, j1))"

fun remove_job :: "int \<Rightarrow> transfer_job list \<Rightarrow> transfer_job list" where
  "remove_job i [] = []"
| "remove_job i (j # js) = (if tj_id j = i then js else j # remove_job i js)"

definition get_job :: "int \<Rightarrow> transfer_job list \<Rightarrow> transfer_job option" where
  "get_job i js = find (\<lambda>j. tj_id j = i) js"

text \<open>Only the first job that is not a leftover of the last session is served in a turn.\<close>

fun read_first ::
  "(bytes \<Rightarrow> bytes) \<Rightarrow> (nat \<Rightarrow> nat) \<Rightarrow> string option \<Rightarrow> fs_state \<Rightarrow> transfer_job list \<Rightarrow> file_msg list \<times> int list \<times> transfer_job list" where
  "read_first compress chunk read_err fs [] = ([], [], [])"
| "read_first compress chunk read_err fs (j # js) =
     (if tj_is_last_job j then
        (case read_first compress chunk read_err fs js of (ms, fin, js1) \<Rightarrow> (ms, fin, j # js1))
      else case read_job compress chunk read_err fs j of
             (ms, done, j1) \<Rightarrow> (ms, (if done then [tj_id j1] else []), j1 # js))"

definition handle_read_jobs ::
  "(bytes \<Rightarrow> bytes) \<Rightarrow> (nat \<Rightarrow> nat) \<Rightarrow> (string \<Rightarrow> string option) \<Rightarrow> (transfer_job \<Rightarrow> string + nat \<times> nat) \<Rightarrow> string option \<Rightarrow> fs_state \<Rightarrow>
   transfer_job list \<Rightarrow> file_msg list \<times> transfer_job list" where
  "handle_read_jobs compress chunk open_err dig read_err fs js =
     (case init_jobs open_err dig js of
        (ms, js1) \<Rightarrow>
          (case read_first compress chunk read_err fs js1 of
             (ms2, fin, js2) \<Rightarrow> (ms @ ms2, fold remove_job fin js2)))"

section \<open>Overwrite check of the receiving side\<close>

record transfer_digest =
  td_id :: int
  td_file_num :: int
  td_last_modified :: nat
  td_file_size :: nat
  td_is_identical :: bool
  td_transferred_size :: nat

datatype digest_check_result = IsSame | NeedConfirm transfer_digest | NoSuchFile

text \<open>\<open>parse\<close> reads the JSON of a digest file.\<close>

definition resumable :: "(bytes \<Rightarrow> file_digest option) \<Rightarrow> bool \<Rightarrow> string \<Rightarrow> transfer_digest \<Rightarrow> fs_state \<Rightarrow> nat option" where
  "resumable parse is_resume path d fs =
     (if is_resume then
        (case (fs_content fs (digest_path path), fs_content fs (download_path path)) of
           (Some dg, Some part) \<Rightarrow>
             (case parse dg of
                Some l \<Rightarrow>
                  if dg_modified l = td_last_modified d \<and> dg_size l = td_file_size d \<and> length part > 0 then Some (length part) else None
              | None \<Rightarrow> None)
         | _ \<Rightarrow> None)
      else None)"

definition is_write_need_confirmation ::
  "(bytes \<Rightarrow> file_digest option) \<Rightarrow> bool \<Rightarrow> string \<Rightarrow> transfer_digest \<Rightarrow> fs_state \<Rightarrow> digest_check_result" where
  "is_write_need_confirmation parse is_resume path d fs =
     (case resumable parse is_resume path d fs of
        Some n \<Rightarrow> NeedConfirm \<lparr>td_id = td_id d, td_file_num = td_file_num d, td_last_modified = td_last_modified d,
                    td_file_size = td_file_size d, td_is_identical = True, td_transferred_size = n\<rparr>
      | None \<Rightarrow>
          (case fs_content fs path of
             Some c \<Rightarrow> NeedConfirm \<lparr>td_id = td_id d, td_file_num = td_file_num d, td_last_modified = fs_mtime fs path div NANOS,
                         td_file_size = length c,
                         td_is_identical = (td_last_modified d * NANOS = fs_mtime fs path \<and> td_file_size d = length c),
                         td_transferred_size = 0\<rparr>
           | None \<Rightarrow> NoSuchFile))"

section \<open>Writing stays inside\<close>

text \<open>A path belongs to an entry when it is the entry's joined path or one of its two side files.\<close>

definition entry_path :: "string \<Rightarrow> file_entry list \<Rightarrow> string \<Rightarrow> bool" where
  "entry_path base fs q =
     (\<exists>f \<in> set fs. validate_file_name_no_traversal (fe_name f) = Inr () \<and>
        q \<in> {job_join base (fe_name f), download_path (job_join base (fe_name f)), digest_path (job_join base (fe_name f))})"

definition write_job_ok :: "string \<Rightarrow> file_entry list \<Rightarrow> transfer_job \<Rightarrow> bool" where
  "write_job_ok base fs j =
     (tj_type j = JGeneric \<and> tj_data_source j = FilePath base \<and> tj_files j = fs \<and>
      (\<forall>q pos. tj_data_stream j = Some (FileStream q pos) \<longrightarrow> entry_path base fs q))"

definition changed :: "fs_state \<Rightarrow> fs_state \<Rightarrow> string set" where
  "changed fs fs' = {q. fs_content fs' q \<noteq> fs_content fs q}"

lemma changed_trans: "changed fs fs'' \<subseteq> changed fs fs' \<union> changed fs' fs''"
  by (auto simp: changed_def)

lemma changed_remove: "changed fs (fs_remove p fs) \<subseteq> {p}"
  by (auto simp: changed_def fs_remove_def)

lemma changed_put: "changed fs (fs_put p d fs) \<subseteq> {p}"
  by (auto simp: changed_def fs_put_def)

lemma changed_rename: "changed fs (fs_rename p q fs) \<subseteq> {p, q}"
  by (auto simp: changed_def fs_rename_def split: option.splits)

lemma validated_join:
  assumes "join_validated_path meta base name = Inr path"
  shows "path = job_join base name \<and> validate_file_name_no_traversal name = Inr ()"
  using assms by (auto simp: join_validated_path_def split: sum.splits)

lemma modify_time_changed:
  assumes "current_entry meta j = Some (f, path)"
  shows "changed fs (modify_time meta e j fs) \<subseteq> {path, download_path path, digest_path path}"
proof -
  let ?fs1 = "fs_remove (digest_path path) fs"
  let ?fs2 = "if ie_rename_ok e then fs_rename (download_path path) path ?fs1 else ?fs1"
  have "changed fs (modify_time meta e j fs) = changed fs ?fs2"
    using assms by (simp add: modify_time_def Let_def changed_def)
  also have "\<dots> \<subseteq> {path, download_path path, digest_path path}"
    using changed_trans [of fs ?fs2 ?fs1] changed_remove [of fs "digest_path path"]
      changed_rename [of ?fs1 "download_path path" path] by (auto simp: changed_def split: if_splits)
  finally show ?thesis .
qed

lemma current_entry_path:
  assumes "current_entry meta j = Some (f, path)" and "write_job_ok base fs j"
  shows "f \<in> set fs \<and> path = job_join base (fe_name f) \<and> validate_file_name_no_traversal (fe_name f) = Inr ()"
  using assms validated_join [of meta base "fe_name f"]
  by (auto simp: current_entry_def write_job_ok_def resolve_entry_path_def Let_def validated_join
        split: if_splits option.splits sum.splits)

lemma modify_time_inside:
  assumes "write_job_ok base files j" and "q \<in> changed fs (modify_time meta e j fs)"
  shows "entry_path base files q"
proof (cases "current_entry meta j")
  case None
  with assms(2) show ?thesis by (simp add: modify_time_def changed_def)
next
  case (Some fp)
  obtain f path where fp: "current_entry meta j = Some (f, path)" using Some by (cases fp) auto
  from current_entry_path [OF fp assms(1)] modify_time_changed [OF fp, of fs e] assms(2)
  show ?thesis unfolding entry_path_def by blast
qed

lemma open_for_write_inside:
  assumes ok: "write_job_ok base files j" and n: "usize_of n < length files"
    and run: "open_for_write meta e djson base n j fs = (err, j', fs')"
  shows "write_job_ok base files j' \<and> (\<forall>q \<in> changed fs fs'. entry_path base files q)"
proof -
  define fs1 where "fs1 = modify_time meta e j fs"
  have c1: "q \<in> changed fs fs1 \<Longrightarrow> entry_path base files q" for q
    using modify_time_inside [OF ok] by (simp add: fs1_def)
  define f where "f = files ! usize_of n"
  have f: "f \<in> set files" using n by (simp add: f_def)
  have jf: "tj_files j = files" "tj_type j = JGeneric" "tj_data_source j = FilePath base"
    using ok by (simp_all add: write_job_ok_def)
  define j1 where "j1 = j\<lparr>tj_file_num := n\<rparr>"
  have j1: "write_job_ok base files j1" "tj_files j1 = files" using ok by (simp_all add: j1_def write_job_ok_def)
  show ?thesis
  proof (cases "(case tj_data_stream j of Some (FileStream _ _) \<Rightarrow> True | _ \<Rightarrow> False) \<and> ie_sync e \<noteq> None")
    case True
    then show ?thesis using run ok c1 by (auto simp: open_for_write_def fs1_def [symmetric])
  next
    case False
    then have run1: "(case write_target meta j1 base (fe_name f) of
          Inl err \<Rightarrow> (Some err, j1, fs1)
        | Inr (path, dp) \<Rightarrow> create_target e djson path dp j1 fs1) = (err, j', fs')"
      using run j1(2) by (simp add: open_for_write_def fs1_def [symmetric] j1_def [symmetric] f_def Let_def split: if_splits)
    show ?thesis
    proof (cases "join_validated_path meta base (fe_name f)")
      case (Inl x)
      then show ?thesis using run1 j1 c1 jf by (auto simp: write_target_def j1_def)
    next
      case (Inr path)
      note p = validated_join [OF Inr]
      have in_entry: "entry_path base files (download_path path)" "entry_path base files (digest_path path)"
        using f p by (auto simp: entry_path_def)
      have run2: "create_target e djson (download_path path) (Some (digest_path path)) j1 fs1 = (err, j', fs')"
        using run1 Inr jf by (simp add: write_target_def j1_def)
      have "changed fs1 fs' \<subseteq> {download_path path, digest_path path}"
        using run2 by (auto simp: create_target_def Let_def changed_def fs_remove_def fs_put_def split: if_splits option.splits)
      then have "\<forall>q \<in> changed fs fs'. entry_path base files q"
        using changed_trans [of fs fs' fs1] c1 in_entry by blast
      moreover have "j' = j1 \<or> j' = j1\<lparr>tj_data_stream := Some (FileStream (download_path path) 0)\<rparr>"
        using run2 by (auto simp: create_target_def Let_def split: if_splits option.splits)
      then have "write_job_ok base files j'"
        using j1 in_entry by (auto simp: write_job_ok_def)
      ultimately show ?thesis by blast
    qed
  qed
qed

lemma job_write_inside:
  assumes ok: "write_job_ok base files j" and run: "job_write meta decompress djson e b j fs = (err, j', fs')"
  shows "write_job_ok base files j' \<and> (\<forall>q \<in> changed fs fs'. entry_path base files q)"
proof -
  obtain err1 j1 fs1 where prep: "prepare_stream meta e djson (blk_file_num b) j fs = (err1, j1, fs1)"
    by (cases "prepare_stream meta e djson (blk_file_num b) j fs")
  have 1: "write_job_ok base files j1 \<and> (\<forall>q \<in> changed fs fs1. entry_path base files q)"
    using prep ok open_for_write_inside [OF ok, of "blk_file_num b" meta e djson fs err1 j1 fs1]
    by (auto simp: prepare_stream_def write_job_ok_def changed_def split: if_splits)
  show ?thesis
  proof (cases "blk_id b \<noteq> tj_id j \<or> err1 \<noteq> None")
    case True
    then show ?thesis using run prep 1 ok by (auto simp: job_write_def changed_def split: if_splits)
  next
    case False
    then have wb: "write_block decompress e b j1 fs1 = (err, j', fs')"
      using run prep by (auto simp: job_write_def)
    have "write_job_ok base files j' \<and> (\<forall>q \<in> changed fs1 fs'. entry_path base files q)"
      using wb 1
      by (auto simp: write_block_def stream_write_def Let_def write_job_ok_def changed_def fs_put_def
            split: option.splits data_stream.splits if_splits)
    with 1 changed_trans [of fs fs' fs1] show ?thesis by blast
  qed
qed

text \<open>A writing job at work: blocks arrive, each with its own answers of the operating system.\<close>

fun write_blocks ::
  "(bytes \<Rightarrow> bytes) \<Rightarrow> (file_digest \<Rightarrow> bytes) \<Rightarrow> ((string \<Rightarrow> fs_meta) \<times> io_env \<times> file_block) list \<Rightarrow> transfer_job \<Rightarrow> fs_state \<Rightarrow>
   string option list \<times> transfer_job \<times> fs_state" where
  "write_blocks decompress djson [] j fs = ([], j, fs)"
| "write_blocks decompress djson ((meta, e, b) # bs) j fs =
     (case job_write meta decompress djson e b j fs of
        (err, j1, fs1) \<Rightarrow>
          (case write_blocks decompress djson bs j1 fs1 of (errs, j2, fs2) \<Rightarrow> (err # errs, j2, fs2)))"

lemma side_file_segments:
  assumes "''..'' \<notin> set (segments name)" and "SLASH \<notin> set suf" and "length suf > 2"
  shows "''..'' \<notin> set (segments (name @ suf))"
proof -
  have "butlast (split_on SLASH name) = [] \<or> set (butlast (split_on SLASH name)) \<subseteq> set (split_on SLASH name)"
    by (auto dest: in_set_butlastD)
  moreover have "last (split_on SLASH name) @ suf \<noteq> ''..''"
    using assms(3) by (metis One_nat_def Suc_1 length_append list.size(3) list.size(4) add_0 not_add_less2 plus_1_eq_Suc numeral_2_eq_2 add.commute)
  ultimately show ?thesis
    using assms(1) by (auto simp: segments_def split_on_append_plain [OF assms(2)] dest: in_set_butlastD)
qed

lemma lex_resolve_join:
  assumes "''..'' \<notin> set (segments name)" and "\<not> is_absolute name"
  shows "lex_resolve (path_push base name) = lex_resolve base @ plain_segments name"
  using assms by (simp add: lex_resolve_def segments_push lex_steps_plain plain_segments_def)

lemma entry_path_beneath:
  assumes "entry_path base files q"
  shows "\<exists>f \<in> set files.
     (fe_name f = [] \<and> q \<in> {base, download_path base, digest_path base}) \<or>
     (fe_name f \<noteq> [] \<and> (\<exists>segs. lex_resolve q = lex_resolve base @ segs \<and> ''..'' \<notin> set segs))"
proof -
  obtain f where f: "f \<in> set files" "validate_file_name_no_traversal (fe_name f) = Inr ()"
     "q \<in> {job_join base (fe_name f), download_path (job_join base (fe_name f)), digest_path (job_join base (fe_name f))}"
    using assms by (auto simp: entry_path_def)
  show ?thesis
  proof (cases "fe_name f = []")
    case True
    with f show ?thesis by (auto simp: job_join_def)
  next
    case False
    have nm: "''..'' \<notin> set (segments (fe_name f))" "\<not> is_absolute (fe_name f)"
      using f(2) by (auto simp: validate_file_name_no_traversal_def split: if_splits)
    have suf: "q \<in> {path_push base (fe_name f), path_push base (fe_name f @ ''.download''), path_push base (fe_name f @ ''.digest'')}"
      using f(3) False nm(2) by (auto simp: job_join_def download_path_def digest_path_def path_push_def is_absolute_def split: list.splits if_splits)
    have abs: "\<not> is_absolute (fe_name f @ x)" for x
      using nm(2) False by (cases "fe_name f") (auto simp: is_absolute_def)
    have seg: "''..'' \<notin> set (segments (fe_name f @ ''.download''))" "''..'' \<notin> set (segments (fe_name f @ ''.digest''))"
      using side_file_segments [OF nm(1), of "''.download''"] side_file_segments [OF nm(1), of "''.digest''"]
      by (simp_all add: SLASH_def)
    have "\<exists>segs. lex_resolve q = lex_resolve base @ segs \<and> ''..'' \<notin> set segs"
      using suf lex_resolve_join [OF nm] lex_resolve_join [OF seg(1) abs] lex_resolve_join [OF seg(2) abs] nm(1) seg
      by (auto simp: plain_segments_def)
    with f(1) False show ?thesis by blast
  qed
qed



section \<open>A file arrives as it was sent\<close>

lemma fill_buf_spec:
  "length buf < BUF_SIZE \<Longrightarrow>
   fill_buf chunk i buf rest = (buf @ take (BUF_SIZE - length buf) rest, drop (BUF_SIZE - length buf) rest)"
proof (induction chunk i buf rest rule: fill_buf.induct)
  case (1 chunk i buf rest)
  define n where "n = read_len (chunk i) buf rest"
  have n: "n \<le> length rest" "n \<le> BUF_SIZE - length buf" by (simp_all add: n_def read_len_le)
  have unfold: "fill_buf chunk i buf rest =
      (if n = 0 then (buf, rest)
       else if length buf + n = BUF_SIZE then (buf @ take n rest, drop n rest)
       else fill_buf chunk (i + 1) (buf @ take n rest) (drop n rest))"
    by (subst fill_buf.simps) (simp add: n_def Let_def)
  show ?case
  proof (cases "n = 0")
    case True
    then have "rest = []" using read_len_zero [OF "1.prems"] by (simp add: n_def)
    with True unfold show ?thesis by simp
  next
    case nz: False
    show ?thesis
    proof (cases "length buf + n = BUF_SIZE")
      case True
      moreover have "BUF_SIZE - length buf = n" using True by linarith
      ultimately show ?thesis using unfold nz by simp
    next
      case False
      have "fill_buf chunk i buf rest = fill_buf chunk (i + 1) (buf @ take n rest) (drop n rest)"
        using nz False unfold by simp
      also have "\<dots> = ((buf @ take n rest) @ take (BUF_SIZE - (length buf + n)) (drop n rest), drop (BUF_SIZE - (length buf + n)) (drop n rest))"
        using "1.IH" [OF n_def nz False] n False "1.prems" by (simp add: min_def)
      also have "\<dots> = (buf @ take (BUF_SIZE - length buf) rest, drop (BUF_SIZE - length buf) rest)"
      proof -
        define m where "m = BUF_SIZE - (length buf + n)"
        have m: "BUF_SIZE - length buf = n + m" using n by (simp add: m_def)
        have d: "drop m (drop n rest) = drop (n + m) rest" by (simp add: add.commute)
        show ?thesis unfolding m m_def [symmetric] d by (simp add: take_add)
      qed
      finally show ?thesis .
    qed
  qed
qed

lemma BUF_SIZE_pos: "0 < BUF_SIZE"
  by (simp add: BUF_SIZE_def)

text \<open>The sender: it reads until the file number moves on.\<close>

fun read_file :: "(bytes \<Rightarrow> bytes) \<Rightarrow> (nat \<Rightarrow> nat) \<Rightarrow> nat \<Rightarrow> transfer_job \<Rightarrow> fs_state \<Rightarrow> file_block list \<times> transfer_job" where
  "read_file compress chunk 0 j fs = ([], j)"
| "read_file compress chunk (Suc n) j fs =
     (case job_read compress chunk None j fs of
        (Inr (Some b), j1) \<Rightarrow>
          if tj_file_num j1 \<noteq> tj_file_num j then ([b], j1)
          else (case read_file compress chunk n j1 fs of (bs, j2) \<Rightarrow> (b # bs, j2))
      | (_, j1) \<Rightarrow> ([], j1))"

definition sending :: "transfer_job \<Rightarrow> bool" where
  "sending j =
     ((tj_type j = JGeneric \<and> tj_enable_overwrite_detection j \<longrightarrow> tj_file_confirmed j) \<and>
      (\<exists>p. tj_data_source j = FilePath p) \<and> usize_of (tj_file_num j) < length (tj_files j))"

definition block_payload :: "(bytes \<Rightarrow> bytes) \<Rightarrow> file_block \<Rightarrow> bytes" where
  "block_payload decompress b = (if blk_compressed b then decompress (blk_data b) else blk_data b)"

lemma job_read_data:
  assumes s: "sending j" "tj_data_stream j = Some (FileStream src pos)" and c: "fs_content fs src = Some c" and more_data: "pos < length c"
  shows "\<exists>b. job_read compress chunk None j fs =
     (Inr (Some b), j\<lparr>tj_data_stream := Some (FileStream src (pos + length (take BUF_SIZE (drop pos c)))),
        tj_finished_size := tj_finished_size j + length (take BUF_SIZE (drop pos c)),
        tj_transferred := tj_transferred j + length (blk_data b)\<rparr>) \<and>
     blk_id b = tj_id j \<and> blk_file_num b = tj_file_num j \<and>
     (\<forall>decompress. (\<forall>x. decompress (compress x) = x) \<longrightarrow> block_payload decompress b = take BUF_SIZE (drop pos c))"
proof -
  obtain p where p: "tj_data_source j = FilePath p" using s by (auto simp: sending_def)
  define tryc where "tryc = (\<not> is_compressed_file (block_name j p (usize_of (tj_file_num j))))"
  define buf where "buf = take BUF_SIZE (drop pos c)"
  have fill: "fst (fill_buf chunk 0 [] (stream_rest fs (FileStream src pos))) = buf"
    using fill_buf_spec [of "[]" chunk 0 "drop pos c"] BUF_SIZE_pos c by (simp add: stream_rest_def buf_def)
  have ne: "buf \<noteq> []" using more_data BUF_SIZE_pos by (simp add: buf_def)
  obtain d z where dz: "encode_block compress tryc buf = (d, z)" by (cases "encode_block compress tryc buf")
  have run: "job_read compress chunk None j fs = (Inr (Some \<lparr>blk_id = tj_id j, blk_file_num = tj_file_num j, blk_data = d, blk_compressed = z\<rparr>),
     j\<lparr>tj_data_stream := Some (FileStream src (pos + length buf)), tj_finished_size := tj_finished_size j + length buf,
       tj_transferred := tj_transferred j + length d\<rparr>)"
    using s p ne dz by (auto simp: job_read_def sending_def read_stream_def fill Let_def tryc_def [symmetric] stream_advance_def)
  have "block_payload decompress \<lparr>blk_id = tj_id j, blk_file_num = tj_file_num j, blk_data = d, blk_compressed = z\<rparr> = buf"
    if "\<forall>x. decompress (compress x) = x" for decompress
    using that dz by (auto simp: block_payload_def encode_block_def split: if_splits)
  with run show ?thesis unfolding buf_def by (intro exI conjI) auto
qed

lemma job_read_end:
  assumes s: "sending j" "tj_data_stream j = Some (FileStream src pos)" and c: "fs_content fs src = Some c" and fin: "length c \<le> pos"
  shows "job_read compress chunk None j fs =
     (Inr (Some \<lparr>blk_id = tj_id j, blk_file_num = tj_file_num j, blk_data = [], blk_compressed = False\<rparr>),
      (reset_for_next j)\<lparr>tj_data_stream := None\<rparr>)"
proof -
  have "fst (fill_buf chunk 0 [] (stream_rest fs (FileStream src pos))) = []"
    using fill_buf_spec [of "[]" chunk 0 "drop pos c"] BUF_SIZE_pos c fin by (simp add: stream_rest_def)
  with s show ?thesis by (auto simp: job_read_def sending_def read_stream_def Let_def split: data_source.splits)
qed

lemma read_file_spec:
  assumes "sending j" "tj_data_stream j = Some (FileStream src pos)" "fs_content fs src = Some c"
    and "pos \<le> length c" and "length c - pos < n" and "\<forall>x. decompress (compress x) = x"
    and "read_file compress chunk n j fs = (bs, j')"
  shows "bs \<noteq> [] \<and> concat (map (block_payload decompress) bs) = drop pos c \<and>
         (\<forall>b \<in> set bs. blk_id b = tj_id j \<and> blk_file_num b = tj_file_num j) \<and>
         tj_file_num j' = tj_file_num j + 1 \<and> tj_finished_size j' = tj_finished_size j + (length c - pos) \<and>
         tj_transferred j' = tj_transferred j + (\<Sum>b \<leftarrow> bs. length (blk_data b)) \<and> tj_data_stream j' = None"
  using assms
proof (induction n arbitrary: j pos bs)
  case (Suc n)
  show ?case
  proof (cases "pos < length c")
    case False
    with Suc.prems job_read_end [OF Suc.prems(1-3), of compress chunk] show ?thesis
      by (auto simp: reset_for_next_def block_payload_def)
  next
    case True
    define k where "k = length (take BUF_SIZE (drop pos c))"
    have k: "0 < k" "k \<le> length c - pos" using True BUF_SIZE_pos by (auto simp: k_def)
    obtain b where b: "job_read compress chunk None j fs =
        (Inr (Some b), j\<lparr>tj_data_stream := Some (FileStream src (pos + k)), tj_finished_size := tj_finished_size j + k,
           tj_transferred := tj_transferred j + length (blk_data b)\<rparr>)"
       "blk_id b = tj_id j" "blk_file_num b = tj_file_num j" "block_payload decompress b = take BUF_SIZE (drop pos c)"
      using job_read_data [OF Suc.prems(1-3) True, of compress chunk] Suc.prems(6) unfolding k_def by blast
    define j1 where "j1 = j\<lparr>tj_data_stream := Some (FileStream src (pos + k)), tj_finished_size := tj_finished_size j + k,
           tj_transferred := tj_transferred j + length (blk_data b)\<rparr>"
    obtain bs2 where bs2: "read_file compress chunk n j1 fs = (bs2, j')" "bs = b # bs2"
      using Suc.prems(7) b(1) by (auto simp: j1_def split: prod.splits)
    have j1: "sending j1" "tj_data_stream j1 = Some (FileStream src (pos + k))"
      using Suc.prems(1) by (simp_all add: j1_def sending_def)
    have IH: "bs2 \<noteq> [] \<and> concat (map (block_payload decompress) bs2) = drop (pos + k) c \<and>
         (\<forall>b \<in> set bs2. blk_id b = tj_id j1 \<and> blk_file_num b = tj_file_num j1) \<and>
         tj_file_num j' = tj_file_num j1 + 1 \<and> tj_finished_size j' = tj_finished_size j1 + (length c - (pos + k)) \<and>
         tj_transferred j' = tj_transferred j1 + (\<Sum>b \<leftarrow> bs2. length (blk_data b)) \<and> tj_data_stream j' = None"
      using Suc.prems k by (intro Suc.IH [OF j1 Suc.prems(3) _ _ Suc.prems(6) bs2(1)]) auto
    have "take BUF_SIZE (drop pos c) @ drop (pos + k) c = drop pos c"
      unfolding k_def by (metis append_take_drop_id drop_drop length_take take_all_iff add.commute nat_le_linear min.absorb1 min.absorb2 drop_all take_all)
    with IH b bs2(2) k True show ?thesis by (auto simp: j1_def)
  qed
qed simp

text \<open>The receiver, when no call of the operating system fails.\<close>

definition io_ok :: "io_env \<Rightarrow> bool" where
  "io_ok e = (ie_sync e = None \<and> ie_create e = None \<and> ie_remove e = None \<and> ie_write e = None \<and> ie_rename_ok e)"

lemma write_at_end: "write_at (length c) d c = c @ d"
  by (simp add: write_at_def)

lemma write_block_append:
  assumes "tj_data_stream j = Some (FileStream dl (length c))" and "fs_content fs dl = Some c" and "io_ok e"
  shows "write_block decompress e b j fs =
     (None, j\<lparr>tj_data_stream := Some (FileStream dl (length (c @ block_payload decompress b))),
        tj_finished_size := tj_finished_size j + length (block_payload decompress b),
        tj_transferred := tj_transferred j + length (blk_data b)\<rparr>,
      fs_put dl (c @ block_payload decompress b) fs)"
  using assms by (simp add: write_block_def stream_write_def write_at_end block_payload_def io_ok_def Let_def)

lemma write_blocks_append:
  assumes "tj_data_stream j = Some (FileStream dl (length c))" and "fs_content fs dl = Some c" and "io_ok e"
    and "tj_data_source j = FilePath p" and "usize_of n < length (tj_files j)" and "tj_file_num j = n"
    and "\<forall>b \<in> set bs. blk_id b = tj_id j \<and> blk_file_num b = n"
    and "write_blocks decompress djson (map (\<lambda>b. (meta, e, b)) bs) j fs = (errs, j', fs')"
  shows "list_all (\<lambda>x. x = None) errs \<and> fs_content fs' dl = Some (c @ concat (map (block_payload decompress) bs)) \<and>
         (\<forall>q. q \<noteq> dl \<longrightarrow> fs_content fs' q = fs_content fs q) \<and>
         tj_finished_size j' = tj_finished_size j + length (concat (map (block_payload decompress) bs)) \<and>
         tj_transferred j' = tj_transferred j + (\<Sum>b \<leftarrow> bs. length (blk_data b)) \<and>
         tj_type j' = tj_type j \<and> tj_data_source j' = FilePath p \<and> tj_files j' = tj_files j \<and> tj_file_num j' = n"
  using assms
proof (induction bs arbitrary: j c fs errs)
  case (Cons b bs)
  define j1 where "j1 = j\<lparr>tj_data_stream := Some (FileStream dl (length (c @ block_payload decompress b))),
        tj_finished_size := tj_finished_size j + length (block_payload decompress b),
        tj_transferred := tj_transferred j + length (blk_data b)\<rparr>"
  define fs1 where "fs1 = fs_put dl (c @ block_payload decompress b) fs"
  have "job_write meta decompress djson e b j fs = (None, j1, fs1)"
    using Cons.prems write_block_append [OF Cons.prems(1-3), of decompress b]
    by (simp add: job_write_def prepare_stream_def j1_def fs1_def)
  then obtain errs2 where 2: "write_blocks decompress djson (map (\<lambda>b. (meta, e, b)) bs) j1 fs1 = (errs2, j', fs')" "errs = None # errs2"
    using Cons.prems(8) by (auto split: prod.splits)
  have same: "tj_data_source j1 = tj_data_source j" "tj_files j1 = tj_files j" "tj_file_num j1 = tj_file_num j" "tj_id j1 = tj_id j" "tj_type j1 = tj_type j"
    by (simp_all add: j1_def)
  have "fs_content fs1 dl = Some (c @ block_payload decompress b)" "\<forall>q. q \<noteq> dl \<longrightarrow> fs_content fs1 q = fs_content fs q"
    by (simp_all add: fs1_def fs_put_def)
  moreover have "tj_data_stream j1 = Some (FileStream dl (length (c @ block_payload decompress b)))" by (simp add: j1_def)
  ultimately have "list_all (\<lambda>x. x = None) errs2 \<and> fs_content fs' dl = Some ((c @ block_payload decompress b) @ concat (map (block_payload decompress) bs)) \<and>
         (\<forall>q. q \<noteq> dl \<longrightarrow> fs_content fs' q = fs_content fs1 q) \<and>
         tj_finished_size j' = tj_finished_size j1 + length (concat (map (block_payload decompress) bs)) \<and>
         tj_transferred j' = tj_transferred j1 + (\<Sum>b \<leftarrow> bs. length (blk_data b)) \<and>
         tj_type j' = tj_type j1 \<and> tj_data_source j' = FilePath p \<and> tj_files j' = tj_files j1 \<and> tj_file_num j' = n"
    using Cons.prems same by (intro Cons.IH [OF _ _ Cons.prems(3) _ _ _ _ 2(1)]) auto
  then show ?case
    using 2(2) same by (auto simp: j1_def fs1_def fs_put_def)
qed simp

lemma open_for_write_fresh:
  assumes "io_ok e" and "tj_type j = JGeneric" and "tj_data_stream j = None"
    and "join_validated_path meta p (fe_name (tj_files j ! usize_of n)) = Inr path"
  shows "\<exists>fs1. open_for_write meta e djson p n j fs =
     (None, j\<lparr>tj_file_num := n, tj_data_stream := Some (FileStream (download_path path) 0)\<rparr>, fs1) \<and>
     fs_content fs1 (download_path path) = Some []"
  using assms
  by (auto simp: open_for_write_def create_target_def write_target_def io_ok_def Let_def fs_put_def download_path_def digest_path_def)

text \<open>C21. A file arrives as it was sent: with a decompressor that inverts the compressor, the blocks a
  sender reads from a file, however the operating system cuts the reads, make a receiver for which no
  call fails end up with exactly that file's contents under the validated path (first in the side
  file, then, when the next file starts or the job ends, in place), and both ends count the same bytes.
  The sender needs no more reads than there are bytes, plus one for the end.\<close>

theorem file_transfer_roundtrip:
  assumes dec: "\<forall>x. decompress (compress x) = x"
    and snd: "sending js" "tj_data_stream js = Some (FileStream src 0)" "fs_content fss src = Some c"
    and reads: "read_file compress chunk (Suc (length c)) js fss = (bs, js')"
    and rcv: "tj_id jr = tj_id js" "tj_type jr = JGeneric" "tj_data_source jr = FilePath p" "tj_data_stream jr = None"
      "usize_of (tj_file_num js) < length (tj_files jr)"
      "join_validated_path meta p (fe_name (tj_files jr ! usize_of (tj_file_num js))) = Inr path"
    and io: "io_ok e"
    and writes: "write_blocks decompress djson (map (\<lambda>b. (meta, e, b)) bs) jr fsr = (errs, jr', fsr')"
  shows "list_all (\<lambda>x. x = None) errs \<and>
         fs_content fsr' (download_path path) = Some c \<and>
         fs_content (modify_time meta e jr' fsr') path = Some c \<and>
         tj_file_num js' = tj_file_num js + 1 \<and>
         tj_finished_size js' - tj_finished_size js = length c \<and>
         tj_finished_size jr' - tj_finished_size jr = length c \<and>
         tj_transferred js' - tj_transferred js = tj_transferred jr' - tj_transferred jr"
proof -
  have r: "bs \<noteq> []" "concat (map (block_payload decompress) bs) = c"
     "\<forall>b \<in> set bs. blk_id b = tj_id js \<and> blk_file_num b = tj_file_num js"
     "tj_file_num js' = tj_file_num js + 1" "tj_finished_size js' = tj_finished_size js + length c"
     "tj_transferred js' = tj_transferred js + (\<Sum>b \<leftarrow> bs. length (blk_data b))"
    using read_file_spec [OF snd _ _ dec reads] by auto
  obtain b bs2 where bs: "bs = b # bs2" using r(1) by (cases bs) auto
  define n where "n = tj_file_num js"
  obtain fs1 where fs1: "open_for_write meta e djson p n jr fsr =
     (None, jr\<lparr>tj_file_num := n, tj_data_stream := Some (FileStream (download_path path) 0)\<rparr>, fs1)"
     "fs_content fs1 (download_path path) = Some []"
    using open_for_write_fresh [OF io rcv(2,4,6)] by (auto simp: n_def)
  define j1 where "j1 = jr\<lparr>tj_file_num := n, tj_data_stream := Some (FileStream (download_path path) 0)\<rparr>"
  have prep: "prepare_stream meta e djson n jr fsr = (None, j1, fs1)"
    using rcv fs1(1) by (simp add: prepare_stream_def n_def j1_def)
  have "prepare_stream meta e djson n j1 fs1 = (None, j1, fs1)"
    using rcv by (simp add: prepare_stream_def n_def j1_def)
  then have "job_write meta decompress djson e b jr fsr = job_write meta decompress djson e b j1 fs1"
    using r(3) rcv(1) bs prep by (simp add: job_write_def n_def j1_def)
  then have "write_blocks decompress djson (map (\<lambda>b. (meta, e, b)) bs) j1 fs1 = (errs, jr', fsr')"
    using writes bs by simp
  from write_blocks_append [OF _ _ io _ _ _ _ this, of "download_path path" "[]" p n]
  have w: "list_all (\<lambda>x. x = None) errs" "fs_content fsr' (download_path path) = Some c"
     "tj_finished_size jr' = tj_finished_size jr + length c" "tj_transferred jr' = tj_transferred jr + (\<Sum>b \<leftarrow> bs. length (blk_data b))"
     "tj_type jr' = JGeneric" "tj_data_source jr' = FilePath p" "tj_files jr' = tj_files jr" "tj_file_num jr' = n"
    using fs1(2) rcv r by (auto simp: j1_def n_def)
  have "current_entry meta jr' = Some (tj_files jr ! usize_of n, path)"
    using w rcv by (simp add: current_entry_def resolve_entry_path_def n_def)
  then have "fs_content (modify_time meta e jr' fsr') path = Some c"
    using w(2) io by (auto simp: modify_time_def Let_def fs_rename_def fs_remove_def io_ok_def download_path_def digest_path_def)
  with w r show ?thesis by simp
qed

theorem file_transfer_roundtrip_witness:
  "let js = default_job\<lparr>tj_id := 1, tj_data_source := FilePath ''/out'', tj_files := [\<lparr>fe_name = ''a'', fe_size = 2, fe_modified_time = 5\<rparr>],
               tj_data_stream := Some (FileStream ''/out/a'' 0)\<rparr>;
       jr = (new_write 1 JGeneric [] (FilePath ''/in'') 0 False True False)\<lparr>tj_files := tj_files js\<rparr>;
       e = \<lparr>ie_sync = None, ie_create = None, ie_remove = None, ie_write = None, ie_rename_ok = True, ie_digest_ok = True\<rparr>;
       fss = \<lparr>fs_content = [''/out/a'' \<mapsto> [8, 9]], fs_mtime = (\<lambda>_. 0)\<rparr>;
       fsr = \<lparr>fs_content = Map.empty, fs_mtime = (\<lambda>_. 0)\<rparr>;
       bs = fst (read_file (\<lambda>d. d) (\<lambda>_. 1) 3 js fss)
   in fs_content (snd (snd (write_blocks (\<lambda>d. d) (\<lambda>d. []) (map (\<lambda>b. (\<lambda>_. MetaNotFound, e, b)) bs) jr fsr))) ''/in/a.download'' = Some [8, 9]"
proof -
  define js where "js = default_job\<lparr>tj_id := 1, tj_data_source := FilePath ''/out'', tj_files := [\<lparr>fe_name = ''a'', fe_size = 2, fe_modified_time = 5\<rparr>],
               tj_data_stream := Some (FileStream ''/out/a'' 0)\<rparr>"
  define jr where "jr = (new_write 1 JGeneric [] (FilePath ''/in'') 0 False True False)\<lparr>tj_files := tj_files js\<rparr>"
  define e where "e = \<lparr>ie_sync = None, ie_create = None, ie_remove = None, ie_write = None, ie_rename_ok = True, ie_digest_ok = True\<rparr>"
  define fss where "fss = \<lparr>fs_content = [''/out/a'' \<mapsto> [8 :: u8, 9]], fs_mtime = (\<lambda>_. 0 :: nat)\<rparr>"
  define fsr where "fsr = \<lparr>fs_content = (Map.empty :: string \<Rightarrow> bytes option), fs_mtime = (\<lambda>_. 0 :: nat)\<rparr>"
  let ?meta = "\<lambda>_ :: string. MetaNotFound"
  let ?bs = "fst (read_file (\<lambda>d. d) (\<lambda>_. 1) 3 js fss)"
  let ?w = "write_blocks (\<lambda>d. d) (\<lambda>d. []) (map (\<lambda>b. (?meta, e, b)) ?bs) jr fsr"
  have js: "sending js" "tj_data_stream js = Some (FileStream ''/out/a'' 0)" "fs_content fss ''/out/a'' = Some [8, 9]"
    by (simp_all add: js_def sending_def default_job_def usize_of_def fss_def)
  have jr: "tj_id jr = tj_id js" "tj_type jr = JGeneric" "tj_data_source jr = FilePath ''/in''" "tj_data_stream jr = None"
      "usize_of (tj_file_num js) < length (tj_files jr)"
    by (simp_all add: jr_def js_def new_write_def default_job_def usize_of_def)
  have path: "join_validated_path ?meta ''/in'' ''a'' = Inr ''/in/a''" by code_simp
  then have pj: "join_validated_path ?meta ''/in'' (fe_name (tj_files jr ! usize_of (tj_file_num js))) = Inr ''/in/a''"
    by (simp add: jr_def js_def new_write_def default_job_def usize_of_def)
  have io: "io_ok e" by (simp add: e_def io_ok_def)
  have reads: "read_file (\<lambda>d. d) (\<lambda>_. 1) (Suc (length [8 :: u8, 9])) js fss = (?bs, snd (read_file (\<lambda>d. d) (\<lambda>_. 1) 3 js fss))"
    by (simp add: numeral_3_eq_3 del: read_file.simps)
  have "?w = (fst ?w, fst (snd ?w), snd (snd ?w))" by simp
  from file_transfer_roundtrip [of "\<lambda>d. d" "\<lambda>d. d", OF _ js reads jr pj io this]
  show ?thesis
    by (simp add: download_path_def js_def jr_def e_def fss_def fsr_def Let_def)
qed

text \<open>The first block of a file runs \<open>modify_time\<close> for the file the job is already at: a side file left
  over from an interrupted transfer replaces the destination file before anything has been received.\<close>

lemma stale_download_promoted:
  assumes "current_entry meta j = Some (f, path)" and "fs_content fs (download_path path) = Some old" and "ie_rename_ok e"
  shows "fs_content (modify_time meta e j fs) path = Some old"
  using assms
  by (auto simp: modify_time_def Let_def fs_rename_def fs_remove_def download_path_def digest_path_def)

section \<open>Nothing is sent unconfirmed\<close>

datatype send_event =
    SInit "string \<Rightarrow> string option" "string + nat \<times> nat"
  | SRead "nat \<Rightarrow> nat" "string option" fs_state
  | SConfirm "string \<Rightarrow> fs_meta" "string \<Rightarrow> string option" bool int confirm_union fs_state

fun send_step :: "(bytes \<Rightarrow> bytes) \<Rightarrow> send_event \<Rightarrow> transfer_job \<Rightarrow> file_msg list \<times> transfer_job" where
  "send_step compress (SInit open_err dig) j = init_job open_err dig j"
| "send_step compress (SRead chunk read_err fs) j = (case read_job compress chunk read_err fs j of (ms, done, j1) \<Rightarrow> (ms, j1))"
| "send_step compress (SConfirm meta open_err seek_ok n u fs) j = ([], confirm meta open_err seek_ok n u fs j)"

fun send_run :: "(bytes \<Rightarrow> bytes) \<Rightarrow> send_event list \<Rightarrow> transfer_job \<Rightarrow> file_msg list \<times> transfer_job" where
  "send_run compress [] j = ([], j)"
| "send_run compress (ev # evs) j =
     (case send_step compress ev j of
        (ms, j1) \<Rightarrow> (case send_run compress evs j1 of (mss, j2) \<Rightarrow> (ms @ mss, j2)))"

text \<open>The file numbers the peer has answered with anything but a skip.\<close>

definition confirms :: "send_event \<Rightarrow> int set" where
  "confirms ev = (case ev of SConfirm meta open_err seek_ok n u fs \<Rightarrow> (case u of CSkip s \<Rightarrow> if s then {} else {n} | COffsetBlk k \<Rightarrow> {n} | CNone \<Rightarrow> {}) | _ \<Rightarrow> {})"

definition detecting :: "transfer_job \<Rightarrow> bool" where
  "detecting j = (tj_type j = JGeneric \<and> tj_enable_overwrite_detection j)"

lemma open_data_stream_confirmed:
  assumes "open_data_stream open_err j = (r, j1)"
  shows "detecting j1 = detecting j \<and> (tj_file_confirmed j1 \<longrightarrow> tj_file_confirmed j \<and> tj_file_num j1 = tj_file_num j)"
  using assms
  by (auto simp: open_data_stream_def Let_def detecting_def reset_for_next_def split: data_source.splits if_splits option.splits)

lemma init_job_confirmed:
  assumes "init_job open_err dig j = (ms, j1)"
  shows "detecting j1 = detecting j \<and> (tj_file_confirmed j1 \<longrightarrow> tj_file_confirmed j \<and> tj_file_num j1 = tj_file_num j) \<and> MBlock b \<notin> set ms"
proof (cases "tj_is_last_job j")
  case True
  with assms show ?thesis by (auto simp: init_job_def)
next
  case False
  obtain r j0 where o: "open_data_stream open_err j = (r, j0)" by (cases "open_data_stream open_err j")
  obtain r1 j2 where i: "init_data_stream_for_cm open_err dig j = (r1, j2)" by (cases "init_data_stream_for_cm open_err dig j")
  have "j2 = j0 \<or> j2 = j0\<lparr>tj_file_is_waiting := True\<rparr>"
    using i o by (auto simp: init_data_stream_for_cm_def split: sum.splits bool.splits if_splits)
  moreover have "j1 = j2 \<and> MBlock b \<notin> set ms"
    using assms False i by (auto simp: init_job_def split: sum.splits option.splits)
  ultimately show ?thesis using open_data_stream_confirmed [OF o] by (auto simp: detecting_def)
qed

lemma read_stream_confirmed:
  assumes "read_stream compress chunk is_file tryc s fs j = (ob, j1)"
  shows "detecting j1 = detecting j \<and> (tj_file_confirmed j1 \<longrightarrow> tj_file_confirmed j \<and> tj_file_num j1 = tj_file_num j) \<and>
         (\<forall>b. ob = Some b \<longrightarrow> blk_file_num b = tj_file_num j)"
  using assms
  by (auto simp: read_stream_def Let_def detecting_def reset_for_next_def split: if_splits prod.splits)

lemma job_read_confirmed:
  assumes "job_read compress chunk read_err j fs = (r, j1)"
  shows "detecting j1 = detecting j \<and> (tj_file_confirmed j1 \<longrightarrow> tj_file_confirmed j \<and> tj_file_num j1 = tj_file_num j) \<and>
         (\<forall>b. r = Inr (Some b) \<longrightarrow> blk_file_num b = tj_file_num j \<and> (detecting j \<longrightarrow> tj_file_confirmed j))"
proof (cases "detecting j \<and> \<not> tj_file_confirmed j")
  case True
  with assms show ?thesis by (auto simp: job_read_def detecting_def)
next
  case False
  show ?thesis
  proof (cases "tj_data_stream j")
    case None
    with assms False show ?thesis by (auto simp: job_read_def detecting_def Let_def split: if_splits)
  next
    case (Some s)
    show ?thesis
    proof (cases "read_err = None \<and> \<not> (case tj_data_source j of FilePath _ \<Rightarrow> usize_of (tj_file_num j) \<ge> length (tj_files j) | MemoryCursor _ _ \<Rightarrow> False)")
      case True
      with assms False Some obtain f z ob where "read_stream compress chunk f z s fs j = (ob, j1)" "r = Inr ob"
        by (auto simp: job_read_def detecting_def Let_def split: data_source.splits prod.splits if_splits)
      with read_stream_confirmed [OF this(1)] False show ?thesis by auto
    next
      case err: False
      with assms False Some show ?thesis
        by (auto simp: job_read_def detecting_def Let_def reset_for_next_def split: if_splits option.splits)
    qed
  qed
qed

lemma confirm_confirmed:
  assumes "j1 = confirm meta open_err seek_ok n u fs j"
  shows "detecting j1 = detecting j \<and>
         (tj_file_confirmed j1 \<longrightarrow> (tj_file_confirmed j \<and> tj_file_num j1 = tj_file_num j) \<or>
            tj_file_num j1 \<in> confirms (SConfirm meta open_err seek_ok n u fs))"
proof -
  have off: "detecting (set_stream_offset meta open_err seek_ok m k fs j0) = detecting j0 \<and>
       tj_file_num (set_stream_offset meta open_err seek_ok m k fs j0) = tj_file_num j0" for m k j0
    by (auto simp: set_stream_offset_def Let_def detecting_def split: data_source.splits option.splits)
  show ?thesis
    using assms off
    by (auto simp: confirm_def confirms_def set_file_skipped_def set_file_confirmed_def set_file_is_waiting_def Let_def detecting_def
          split: confirm_union.splits if_splits)
qed

text \<open>C22. With overwrite detection on, no block of a file is sent before the peer has confirmed that very
  file: every block of a generic job carries the number of a file whose confirmation (not a skip) has
  arrived earlier, however initialisation, reads and confirmations interleave.\<close>

theorem unconfirmed_never_sent:
  assumes "detecting j" and "\<not> tj_file_confirmed j" and "send_run compress evs j = (ms, j')" and "MBlock b \<in> set ms"
  shows "blk_file_num b \<in> (\<Union>ev \<in> set evs. confirms ev)"
proof -
  have "blk_file_num b \<in> C \<union> (\<Union>ev \<in> set evs. confirms ev)"
    if "detecting j" "tj_file_confirmed j \<longrightarrow> tj_file_num j \<in> C" "send_run compress evs j = (ms, j')" "MBlock b \<in> set ms" for j C ms evs
    using that
  proof (induction evs arbitrary: j C ms)
    case (Cons ev evs)
    obtain ms1 j1 where 1: "send_step compress ev j = (ms1, j1)" by (cases "send_step compress ev j")
    obtain ms2 where 2: "send_run compress evs j1 = (ms2, j')" "ms = ms1 @ ms2"
      using Cons.prems(3) 1 by (auto split: prod.splits)
    have st: "detecting j1" "tj_file_confirmed j1 \<longrightarrow> tj_file_num j1 \<in> C \<union> confirms ev"
       "MBlock b \<in> set ms1 \<Longrightarrow> blk_file_num b \<in> C"
    proof -
      have "detecting j1 \<and> (tj_file_confirmed j1 \<longrightarrow> tj_file_num j1 \<in> C \<union> confirms ev) \<and> (MBlock b \<in> set ms1 \<longrightarrow> blk_file_num b \<in> C)"
      proof (cases ev)
        case (SInit open_err dig)
        with 1 init_job_confirmed [of open_err dig j ms1 j1 b] Cons.prems show ?thesis by auto
      next
        case (SRead chunk read_err fs)
        obtain r j2 where r: "job_read compress chunk read_err j fs = (r, j2)" by (cases "job_read compress chunk read_err j fs")
        have "j1 = j2" "MBlock b \<in> set ms1 \<Longrightarrow> r = Inr (Some b)"
          using 1 SRead r by (auto simp: read_job_def split: sum.splits option.splits if_splits)
        with job_read_confirmed [OF r] Cons.prems show ?thesis by auto
      next
        case (SConfirm meta open_err seek_ok n u fs)
        with 1 confirm_confirmed [of j1 meta open_err seek_ok n u fs j] Cons.prems show ?thesis by auto
      qed
      then show "detecting j1" "tj_file_confirmed j1 \<longrightarrow> tj_file_num j1 \<in> C \<union> confirms ev"
       "MBlock b \<in> set ms1 \<Longrightarrow> blk_file_num b \<in> C" by blast+
    qed
    show ?case
      using Cons.IH [OF st(1,2) 2(1)] st(3) Cons.prems(4) 2(2) by auto
  qed simp
  from this [of j "{}"] assms show ?thesis by simp
qed

theorem unconfirmed_never_sent_witness:
  "let j = default_job\<lparr>tj_data_source := FilePath ''/out'', tj_files := [\<lparr>fe_name = ''a'', fe_size = 2, fe_modified_time = 5\<rparr>],
             tj_enable_overwrite_detection := True\<rparr>;
       fs = \<lparr>fs_content = [''/out/a'' \<mapsto> [8, 9]], fs_mtime = (\<lambda>_. 0)\<rparr>;
       evs = [SInit (\<lambda>_. None) (Inr (5, 2)), SConfirm (\<lambda>_. MetaFile) (\<lambda>_. None) True 0 (CSkip False) fs, SRead (\<lambda>_. 1) None fs]
   in \<exists>b. MBlock b \<in> set (fst (send_run (\<lambda>d. d) evs j)) \<and> blk_file_num b \<in> (\<Union>ev \<in> set evs. confirms ev)"
proof -
  define j where "j = default_job\<lparr>tj_data_source := FilePath ''/out'', tj_files := [\<lparr>fe_name = ''a'', fe_size = 2, fe_modified_time = 5\<rparr>],
             tj_enable_overwrite_detection := True\<rparr>"
  define fs where "fs = \<lparr>fs_content = [''/out/a'' \<mapsto> [8 :: u8, 9]], fs_mtime = (\<lambda>_. 0 :: nat)\<rparr>"
  define evs where "evs = [SInit (\<lambda>_. None) (Inr (5, 2)), SConfirm (\<lambda>_. MetaFile) (\<lambda>_. None) True 0 (CSkip False) fs, SRead (\<lambda>_. 1) None fs]"
  define j1 where "j1 = j\<lparr>tj_data_stream := Some (FileStream ''/out/a'' 0), tj_file_is_waiting := True\<rparr>"
  define j2 where "j2 = set_file_confirmed True j1"
  have j: "detecting j" "\<not> tj_file_confirmed j" by (simp_all add: j_def default_job_def detecting_def)
  have 1: "init_job (\<lambda>_. None) (Inr (5, 2)) j = ([MDigest 0 0 5 2 False], j1)"
    by (simp add: init_job_def init_data_stream_for_cm_def open_data_stream_def needs_confirm_def Let_def j_def j1_def default_job_def
        usize_of_def job_join_def path_push_def is_absolute_def SLASH_def)
  have 2: "confirm (\<lambda>_. MetaFile) (\<lambda>_. None) True 0 (CSkip False) fs j1 = j2"
    by (simp add: confirm_def j2_def j1_def j_def default_job_def)
  have "sending j2" "tj_data_stream j2 = Some (FileStream ''/out/a'' 0)" "fs_content fs ''/out/a'' = Some [8, 9]"
    by (simp_all add: j2_def j1_def j_def default_job_def set_file_confirmed_def sending_def usize_of_def fs_def)
  then obtain b j3 where 3: "job_read (\<lambda>d. d) (\<lambda>_. 1) None j2 fs = (Inr (Some b), j3)"
    using job_read_data [of j2 "''/out/a''" 0 fs "[8, 9]" "\<lambda>d. d" "\<lambda>_. 1"] by auto
  have run: "send_run (\<lambda>d. d) evs j = ([MDigest 0 0 5 2 False, MBlock b], j3)"
    using 1 2 3 by (simp add: evs_def read_job_def)
  from unconfirmed_never_sent [OF j run] have "blk_file_num b \<in> (\<Union>ev \<in> set evs. confirms ev)" by simp
  then show ?thesis
    unfolding Let_def j_def [symmetric] fs_def [symmetric] evs_def [symmetric] using run by auto
qed

end
