(* ===== verification/Common_Lib.thy ===== *)
theory Common_Lib
  imports Prelude
begin

text \<open>
  Two codecs of \<open>libs/hbb_common/src/lib.rs\<close>: \<open>AddrMangle\<close>, the time-dependent encoding under which
  socket addresses travel through address-rewriting routers, and the version numbers the two ends of a
  connection compare.

  The \<open>u128\<close> of the encoding is a \<open>nat\<close> (all values stay below 2 to the 83rd power when encoding); the
  subtractions of \<open>decode\<close>, which can go below zero on foreign bytes, wrap as in a release build and
  are reduced to the width they are cast to.
\<close>

section \<open>Socket addresses\<close>

datatype socket_addr = V4 u8 u8 u8 u8 u16 | V6 bytes u16

definition v6_loopback :: bytes where
  "v6_loopback = replicate 15 0 @ [1]"

text \<open>\<open>Ipv6Addr::to_ipv4\<close>: the compatible and the mapped addresses.\<close>

definition v6_to_ipv4 :: "bytes \<Rightarrow> (u8 \<times> u8 \<times> u8 \<times> u8) option" where
  "v6_to_ipv4 ip =
     (if take 10 ip = replicate 10 0 \<and> (take 2 (drop 10 ip) = [0, 0] \<or> take 2 (drop 10 ip) = [0xFF, 0xFF])
      then (case drop 12 ip of [a, b, c, d] \<Rightarrow> Some (a, b, c, d) | _ \<Rightarrow> None) else None)"

definition try_into_v4 :: "socket_addr \<Rightarrow> socket_addr" where
  "try_into_v4 addr =
     (case addr of
        V6 ip port \<Rightarrow>
          if ip \<noteq> v6_loopback
          then (case v6_to_ipv4 ip of Some (a, b, c, d) \<Rightarrow> V4 a b c d port | None \<Rightarrow> addr)
          else addr
      | V4 _ _ _ _ _ \<Rightarrow> addr)"

section \<open>Little-endian numbers\<close>

fun le_bytes :: "nat \<Rightarrow> nat \<Rightarrow> bytes" where
  "le_bytes 0 n = []"
| "le_bytes (Suc k) n = word_of_nat n # le_bytes k (n div 256)"

fun le_value :: "bytes \<Rightarrow> nat" where
  "le_value [] = 0"
| "le_value (b # bs) = unat b + 256 * le_value bs"

lemma length_le_bytes [simp]: "length (le_bytes k n) = k"
  by (induction k arbitrary: n) simp_all

lemma le_value_bytes: "le_value (le_bytes k n) = n mod 256 ^ k"
proof (induction k arbitrary: n)
  case (Suc k)
  have "unat (word_of_nat n :: u8) = n mod 256"
    by (simp add: unsigned_of_nat take_bit_eq_mod)
  then show ?case using Suc by (simp add: mod_mult2_eq)
qed simp

lemma le_bytes_value: "length bs = k \<Longrightarrow> le_bytes k (le_value bs) = bs"
proof (induction bs arbitrary: k)
  case (Cons b bs)
  have "unat b < 256" using unsigned_less [of b, where 'a = nat] by simp
  then have "(unat b + 256 * le_value bs) div 256 = le_value bs" by simp
  moreover have "(word_of_nat (unat b + 256 * le_value bs) :: u8) = b"
  proof -
    have "(256 :: u8) = 0" by simp
    then have "256 * x = (0 :: u8)" for x by (metis mult_zero_left)
    then show ?thesis by simp
  qed
  ultimately show ?case using Cons by auto
qed simp

lemma le_value_zeros: "le_value (bs @ replicate n 0) = le_value bs"
proof (induction bs)
  case Nil
  show ?case by (induction n) simp_all
qed simp

definition trim_zeros :: "bytes \<Rightarrow> bytes" where
  "trim_zeros bs = rev (dropWhile (\<lambda>b. b = 0) (rev bs))"

lemma trim_zeros_split: "\<exists>n. bs = trim_zeros bs @ replicate n 0"
proof -
  have "takeWhile (\<lambda>b. b = 0) (rev bs) = replicate (length (takeWhile (\<lambda>b. b = 0) (rev bs))) 0"
    by (auto simp: replicate_length_same dest: set_takeWhileD intro!: replicate_length_same [symmetric])
  then have "rev bs = replicate (length (takeWhile (\<lambda>b. b = 0) (rev bs))) 0 @ dropWhile (\<lambda>b. b = 0) (rev bs)"
    by (metis takeWhile_dropWhile_id)
  then show ?thesis
    unfolding trim_zeros_def by (metis rev_append rev_replicate rev_rev_ident)
qed

section \<open>Mangling\<close>

definition mangle :: "nat \<Rightarrow> nat \<Rightarrow> nat \<Rightarrow> nat" where
  "mangle tm ip port = push_bit 49 (ip + tm) OR push_bit 17 tm OR (port + (tm AND 0xFFFF))"

definition addr_encode :: "u32 \<Rightarrow> socket_addr \<Rightarrow> bytes" where
  "addr_encode tm addr0 =
     (case try_into_v4 addr0 of
        V4 a b c d port \<Rightarrow> trim_zeros (le_bytes 16 (mangle (unat tm) (le_value [a, b, c, d]) (unat port)))
      | V6 ip port \<Rightarrow> ip @ le_bytes 2 (unat port))"

text \<open>\<open>any_listen\<close> stands for \<open>Config::get_any_listen_addr(false)\<close>.\<close>

definition unmangle :: "nat \<Rightarrow> socket_addr" where
  "unmangle number =
     (let tm = drop_bit 17 number AND 0xFFFFFFFF;
          ip = le_bytes 4 (nat ((int (drop_bit 49 number) - int tm) mod 2 ^ 32));
          port = (int (number AND 0xFFFFFF) - int (tm AND 0xFFFF)) mod 2 ^ 16
      in V4 (ip ! 0) (ip ! 1) (ip ! 2) (ip ! 3) (word_of_int port))"

definition addr_decode :: "socket_addr \<Rightarrow> bytes \<Rightarrow> socket_addr" where
  "addr_decode any_listen bs =
     (if length bs > 16 then
        (if length bs \<noteq> 18 then any_listen
         else V6 (take 16 bs) (word_of_nat (le_value (drop 16 bs))))
      else unmangle (le_value (bs @ replicate (16 - length bs) 0)))"

lemma or_push: "b < 2 ^ n \<Longrightarrow> push_bit n a OR b = a * 2 ^ n + (b :: nat)"
proof -
  assume b: "b < 2 ^ n"
  have "push_bit n a AND b = 0"
  proof (rule bit_eqI)
    fix i
    show "bit (push_bit n a AND b) i \<longleftrightarrow> bit (0 :: nat) i"
      using b by (auto simp: bit_simps) (metis bit_take_bit_iff leD take_bit_nat_eq_self)
  qed
  then show ?thesis
    by (simp add: disjunctive_add_eq_or [symmetric] push_bit_eq_mult)
qed

lemma and_low: "a AND 0xFFFF = a mod 2 ^ 16" "a AND 0xFFFFFF = a mod 2 ^ 24" "a AND 0xFFFFFFFF = a mod 2 ^ 32" for a :: nat
  using take_bit_eq_mask [of 16 a] take_bit_eq_mask [of 24 a] take_bit_eq_mask [of 32 a]
  by (simp_all add: mask_eq_exp_minus_1 take_bit_eq_mod)

lemma mangle_sum:
  assumes "tm < 2 ^ 32" and "ip < 2 ^ 32" and "port < 2 ^ 16"
  shows "mangle tm ip port = (ip + tm) * 2 ^ 49 + tm * 2 ^ 17 + (port + tm mod 2 ^ 16)"
proof -
  have low: "port + tm mod 2 ^ 16 < 2 ^ 17"
    using assms(3) mod_less_divisor [of "2 ^ 16" tm] by simp
  have mid: "tm * 2 ^ 17 + (port + tm mod 2 ^ 16) < 2 ^ 49"
    using assms(1) low by simp
  show ?thesis
    unfolding mangle_def and_low or_push [OF low] or_push [OF mid] by simp
qed

lemma unmangle_mangle:
  assumes tm: "tm < 2 ^ 32" and ip: "length ip = 4" and port: "port < 2 ^ 16"
  shows "unmangle (mangle tm (le_value ip) port) = V4 (ip ! 0) (ip ! 1) (ip ! 2) (ip ! 3) (word_of_nat port)"
proof -
  have lt: "le_value bs < 256 ^ length bs" for bs
    by (metis le_value_bytes le_bytes_value mod_less_divisor zero_less_numeral zero_less_power)
  then have ip_lt: "le_value ip < 2 ^ 32" using lt [of ip] ip by simp
  define v where "v = mangle tm (le_value ip) port"
  define low where "low = port + tm mod 2 ^ 16"
  have v: "v = (le_value ip + tm) * 2 ^ 49 + tm * 2 ^ 17 + low"
    using mangle_sum [OF tm ip_lt port] by (simp add: v_def low_def)
  have low: "low < 2 ^ 17" using port mod_less_divisor [of "2 ^ 16" tm] by (simp add: low_def)
  have d49: "drop_bit 49 v = le_value ip + tm"
    using tm low by (simp add: v drop_bit_eq_div)
  have "drop_bit 17 v = (le_value ip + tm) * 2 ^ 32 + tm"
    using low by (simp add: v drop_bit_eq_div)
  then have "drop_bit 17 v mod 2 ^ 32 = tm"
    using tm by (metis add.commute mod_less mod_mult_self1)
  then have tm': "drop_bit 17 v AND 0xFFFFFFFF = tm"
    by (simp only: and_low)
  have "int (v mod 2 ^ 24) mod 2 ^ 16 = int low mod 2 ^ 16"
  proof -
    have "v mod 2 ^ 24 mod 2 ^ 16 = v mod 2 ^ 16" by (simp add: mod_mod_cancel)
    also have "\<dots> = low mod 2 ^ 16"
    proof -
      have "v = 2 ^ 16 * ((le_value ip + tm) * 2 ^ 33 + tm * 2) + low" by (simp add: v)
      then show ?thesis by (metis mod_mult_self4)
    qed
    finally show ?thesis by (metis of_nat_mod of_nat_numeral of_nat_power)
  qed
  then have "(int (v mod 2 ^ 24) - int (tm mod 2 ^ 16)) mod 2 ^ 16 = (int low - int (tm mod 2 ^ 16)) mod 2 ^ 16"
    by (metis mod_diff_left_eq)
  also have "\<dots> = int port" using port by (simp add: low_def)
  finally have pt: "(int (v AND 0xFFFFFF) - int (tm AND 0xFFFF)) mod 2 ^ 16 = int port"
    by (simp add: and_low)
  have "nat ((int (drop_bit 49 v) - int tm) mod 2 ^ 32) = le_value ip"
    using ip_lt by (simp add: d49)
  then have "le_bytes 4 (nat ((int (drop_bit 49 v) - int tm) mod 2 ^ 32)) = ip"
    using le_bytes_value [OF ip] by simp
  then show ?thesis
    unfolding v_def [symmetric] unmangle_def Let_def tm' pt by simp
qed

definition addr_ok :: "socket_addr \<Rightarrow> bool" where
  "addr_ok addr = (case addr of V4 _ _ _ _ _ \<Rightarrow> True | V6 ip _ \<Rightarrow> length ip = 16)"

text \<open>Mangling an address at any time and unmangling it gives the address back, an IPv4-compatible or
  IPv4-mapped IPv6 address (but for the loopback) as its IPv4 form.\<close>

theorem addr_mangle_roundtrip:
  assumes "addr_ok addr"
  shows "addr_decode any_listen (addr_encode tm addr) = try_into_v4 addr"
proof -
  have tm: "unat tm < 2 ^ 32" using unsigned_less [of tm, where 'a = nat] by simp
  have v6: "addr_decode any_listen (ip @ le_bytes 2 (unat port)) = V6 ip port" if "length ip = 16" for ip and port :: u16
  proof -
    have "unat port < 2 ^ 16" using unsigned_less [of port, where 'a = nat] by simp
    then show ?thesis using that by (simp add: addr_decode_def le_value_bytes del: le_bytes.simps)
  qed
  show ?thesis
  proof (cases "try_into_v4 addr")
    case (V4 a b c d port)
    define n where "n = mangle (unat tm) (le_value [a, b, c, d]) (unat port)"
    obtain z where z: "le_bytes 16 n = trim_zeros (le_bytes 16 n) @ replicate z 0"
      using trim_zeros_split by blast
    have port: "unat port < 2 ^ 16" using unsigned_less [of port, where 'a = nat] by simp
    have u8: "unat x \<le> 255" for x :: u8 using unsigned_less [of x, where 'a = nat] by simp
    have ip: "le_value [a, b, c, d] < 2 ^ 32" using u8 [of a] u8 [of b] u8 [of c] u8 [of d] by simp
    have "n < 256 ^ 16"
      unfolding n_def mangle_sum [OF tm ip port] using tm ip port mod_less_divisor [of "2 ^ 16" "unat tm"] by simp
    then have val: "le_value (trim_zeros (le_bytes 16 n) @ replicate k 0) = n" for k
      using le_value_zeros [of "trim_zeros (le_bytes 16 n)"] le_value_bytes [of 16 n] z by (metis mod_less)
    have "length (trim_zeros (le_bytes 16 n)) \<le> 16"
      by (metis z length_append length_le_bytes le_add1)
    then have "addr_decode any_listen (trim_zeros (le_bytes 16 n)) = unmangle n"
      by (simp add: addr_decode_def val del: le_bytes.simps)
    also have "\<dots> = V4 a b c d port"
      unfolding n_def using unmangle_mangle [OF tm, of "[a, b, c, d]", OF _ port] by simp
    finally show ?thesis using V4 by (simp add: addr_encode_def n_def)
  next
    case (V6 ip port)
    then have "length ip = 16"
      using assms by (auto simp: try_into_v4_def addr_ok_def split: socket_addr.splits if_splits option.splits)
    with V6 v6 show ?thesis by (simp add: addr_encode_def)
  qed
qed

theorem addr_mangle_roundtrip_witness:
  "addr_decode (V4 0 0 0 0 0) (addr_encode 305419896 (V4 192 168 16 32 21116)) = V4 192 168 16 32 21116"
  using addr_mangle_roundtrip [of "V4 192 168 16 32 21116" "V4 0 0 0 0 0" 305419896]
  by (simp add: addr_ok_def try_into_v4_def)

section \<open>Versions\<close>

definition is_digit :: "char \<Rightarrow> bool" where
  "is_digit c = (48 \<le> (of_char c :: nat) \<and> (of_char c :: nat) < 58)"

text \<open>\<open>str::parse::<i64>\<close>: an optional sign, at least one digit, and a value that fits.\<close>

definition parse_i64 :: "string \<Rightarrow> int option" where
  "parse_i64 s =
     (let (neg, ds) = (case s of c # r \<Rightarrow> if c = CHR ''-'' then (True, r) else if c = CHR ''+'' then (False, r) else (False, s)
                       | [] \<Rightarrow> (False, []));
          v = (if neg then - int (read_digits ds) else int (read_digits ds))
      in if ds \<noteq> [] \<and> list_all is_digit ds \<and> - (2 ^ 63) \<le> v \<and> v < 2 ^ 63 then Some v else None)"

definition parse_or_0 :: "string \<Rightarrow> int" where
  "parse_or_0 s = (case parse_i64 s of Some v \<Rightarrow> v | None \<Rightarrow> 0)"

text \<open>\<open>get_version_number\<close>; the intermediate values are unbounded (the code works in \<open>i64\<close>, which only
  version texts with more than six parts can overflow).\<close>

definition main_number :: "string \<Rightarrow> int" where
  "main_number v =
     (let (n, last) = foldl (\<lambda>(n, last) x. (n * 1000 + parse_or_0 x, parse_or_0 x)) (0, 0) (split_on (CHR ''.'') v)
      in n - last + last * 10)"

definition get_version_number :: "string \<Rightarrow> int" where
  "get_version_number v =
     (case split_on (CHR ''-'') v of
        a # b # _ \<Rightarrow> main_number a + parse_or_0 b
      | [a] \<Rightarrow> main_number a
      | [] \<Rightarrow> 0)"

definition rposition :: "char \<Rightarrow> string \<Rightarrow> nat option" where
  "rposition c s = (if c \<in> set s then Some (length (takeWhile (\<lambda>x. x \<noteq> c) (rev s))) else None)"

definition parse_i32_ok :: "string \<Rightarrow> bool" where
  "parse_i32_ok s = (case parse_i64 s of Some v \<Rightarrow> - (2 ^ 31) \<le> v \<and> v < 2 ^ 31 | None \<Rightarrow> False)"

definition get_version_from_url :: "string \<Rightarrow> string" where
  "get_version_from_url url =
     (let n = length url in
      case rposition (CHR ''-'') url of
        None \<Rightarrow> []
      | Some a \<Rightarrow>
          (case rposition (CHR ''.'') url of
             None \<Rightarrow> []
           | Some b \<Rightarrow>
               if a > b then
                 (if parse_i32_ok (drop (n - b) url) then drop (n - a) url
                  else take (a - b - 1) (drop (n - a) url))
               else drop (n - a) url))"

lemma parse_show_nat: "n < 2 ^ 63 \<Longrightarrow> parse_i64 (show_nat n) = Some (int n)"
proof -
  assume n: "n < 2 ^ 63"
  have digits: "list_all is_digit (show_nat n)"
    using show_nat_digits by (auto simp: list_all_iff is_digit_def)
  have ne: "show_nat n \<noteq> []" by (subst show_nat.simps) simp
  then obtain c r where cr: "show_nat n = c # r" by (cases "show_nat n") auto
  have "is_digit c" using digits cr by simp
  then have "c \<noteq> CHR ''-''" "c \<noteq> CHR ''+''" by (auto simp: is_digit_def)
  then show ?thesis
    using cr digits read_show_nat [of n] n by (simp add: parse_i64_def)
qed

lemma show_nat_plain: "CHR ''.'' \<notin> set (show_nat n)" "CHR ''-'' \<notin> set (show_nat n)"
  using show_nat_digits [of "CHR ''.''" n] show_nat_digits [of "CHR ''-''" n] by auto

definition version_text :: "nat \<Rightarrow> nat \<Rightarrow> nat \<Rightarrow> nat \<Rightarrow> string" where
  "version_text a b c p = show_nat a @ ''.'' @ show_nat b @ ''.'' @ show_nat c @ (if p = 0 then [] else ''-'' @ show_nat p)"

lemma main_number_text:
  assumes "a < 2 ^ 63" "b < 2 ^ 63" "c < 2 ^ 63"
  shows "main_number (show_nat a @ ''.'' @ show_nat b @ ''.'' @ show_nat c) = int (1000000 * a + 1000 * b + 10 * c)"
proof -
  have "split_on (CHR ''.'') (show_nat a @ ''.'' @ show_nat b @ ''.'' @ show_nat c) = [show_nat a, show_nat b, show_nat c]"
    using split_on_append_sep [of "CHR ''.''" "show_nat a" "show_nat b @ ''.'' @ show_nat c"]
      split_on_append_sep [of "CHR ''.''" "show_nat b" "show_nat c"]
    by (simp add: split_on_single show_nat_plain)
  then show ?thesis
    using assms by (simp add: main_number_def parse_or_0_def parse_show_nat)
qed

lemma version_number_text:
  assumes "a < 2 ^ 63" "b < 2 ^ 63" "c < 2 ^ 63" "p < 2 ^ 63"
  shows "get_version_number (version_text a b c p) = int (1000000 * a + 1000 * b + 10 * c + p)"
proof -
  let ?m = "show_nat a @ ''.'' @ show_nat b @ ''.'' @ show_nat c"
  have m: "CHR ''-'' \<notin> set ?m" by (simp add: show_nat_plain)
  show ?thesis
  proof (cases "p = 0")
    case True
    with split_on_single [OF m] main_number_text [OF assms(1-3)] show ?thesis
      by (simp add: get_version_number_def version_text_def)
  next
    case False
    have "split_on (CHR ''-'') (?m @ CHR ''-'' # show_nat p) = [?m, show_nat p]"
      using split_on_append_sep [of "CHR ''-''" ?m "show_nat p"] split_on_single [OF m] by (simp add: split_on_single show_nat_plain)
    with False main_number_text [OF assms(1-3)] assms(4) show ?thesis
      by (simp add: get_version_number_def version_text_def parse_or_0_def parse_show_nat)
  qed
qed

text \<open>Version numbers compare as the versions do: for texts of the form major.minor.last with an
  optional patch number, with a minor part below 1000, a last part below 100 and a patch below 10, the
  order of the numbers is the lexicographic order of the parts.\<close>

theorem version_order:
  assumes "a < 1000000" "b < 1000" "c < 100" "p < 10" "a' < 1000000" "b' < 1000" "c' < 100" "p' < 10"
  shows "get_version_number (version_text a b c p) < get_version_number (version_text a' b' c' p') \<longleftrightarrow>
         a < a' \<or> (a = a' \<and> (b < b' \<or> (b = b' \<and> (c < c' \<or> (c = c' \<and> p < p')))))"
  using assms by (simp add: version_number_text) linarith

theorem version_order_witness:
  "get_version_number (version_text 1 1 9 0) < get_version_number (version_text 1 1 10 0)"
  using version_order [of 1 1 9 0 1 1 10 0] by simp

end
