(* ===== verification/Remove_Log.thy ===== *)
theory Remove_Log
  imports Fs_Path "HOL-Library.Sublist"
begin

text \<open>
  The log of removed files and directories of a connection, \<open>src/server/connection.rs\<close>,
  \<open>FileRemoveLogControl\<close>: removals are recorded, directories in a directory that is removed too are
  dropped, and what is recorded one second after the last removal goes to the connection manager.
  \<open>on_remove_file\<close> and \<open>on_remove_dir\<close> also return an entry, which the file handlers of the connection do not use.

  A path is its text, two paths are compared by their components as \<open>PathBuf\<close> does; the JSON of a log
  entry is the record it is made from.  Times are milliseconds.
\<close>

section \<open>Operations\<close>

text \<open>\<open>Path::parent\<close> on components: none for the root and for the empty path.\<close>

definition parent_components :: "component list \<Rightarrow> component list option" where
  "parent_components cs = (if cs = [] \<or> last cs = RootDir then None else Some (butlast cs))"

definition direct_child :: "string \<Rightarrow> string \<Rightarrow> bool" where
  "direct_child parent child = (parent_components (path_components child) = Some (path_components parent))"

record removed_file =
  rf_id :: int
  rf_path :: string
  rf_file_num :: int

record removed_dir =
  rd_id :: int
  rd_path :: string
  rd_recursive :: bool

record file_action_log =
  fl_id :: int
  fl_conn_id :: int
  fl_path :: string
  fl_dir :: bool

record remove_log =
  rl_conn_id :: int
  rl_instant :: int
  rl_files :: "removed_file list"
  rl_dirs :: "removed_dir list"

definition remove_log_new :: "int \<Rightarrow> int \<Rightarrow> remove_log" where
  "remove_log_new now conn_id = \<lparr>rl_conn_id = conn_id, rl_instant = now, rl_files = [], rl_dirs = []\<rparr>"

definition file_log :: "int \<Rightarrow> removed_file \<Rightarrow> file_action_log" where
  "file_log conn_id f = \<lparr>fl_id = rf_id f, fl_conn_id = conn_id, fl_path = rf_path f, fl_dir = False\<rparr>"

definition dir_log :: "int \<Rightarrow> removed_dir \<Rightarrow> file_action_log" where
  "dir_log conn_id d = \<lparr>fl_id = rd_id d, fl_conn_id = conn_id, fl_path = rd_path d, fl_dir = True\<rparr>"

definition on_remove_file :: "int \<Rightarrow> removed_file \<Rightarrow> remove_log \<Rightarrow> file_action_log \<times> remove_log" where
  "on_remove_file now f l = (file_log (rl_conn_id l) f, l\<lparr>rl_instant := now, rl_files := rl_files l @ [f]\<rparr>)"

definition on_remove_dir :: "int \<Rightarrow> removed_dir \<Rightarrow> remove_log \<Rightarrow> file_action_log \<times> remove_log" where
  "on_remove_dir now d l =
     (let files = filter (\<lambda>f. \<not> direct_child (rf_path f) (rd_path d)) (rl_files l);
          dirs = filter (\<lambda>x. \<not> direct_child (rd_path d) (rd_path x)) (rl_dirs l);
          dirs1 = (if \<not> list_ex (\<lambda>x. direct_child (rd_path x) (rd_path d)) dirs then dirs @ [d] else dirs)
      in (dir_log (rl_conn_id l) d, l\<lparr>rl_instant := now, rl_files := files, rl_dirs := dirs1\<rparr>))"

definition on_timer :: "int \<Rightarrow> remove_log \<Rightarrow> file_action_log list \<times> remove_log" where
  "on_timer now l =
     (if (now - rl_instant l) div 1000 < 1 then ([], l)
      else (map (file_log (rl_conn_id l)) (rl_files l) @ map (dir_log (rl_conn_id l)) (rl_dirs l),
            l\<lparr>rl_files := [], rl_dirs := []\<rparr>))"

datatype removal = RemovedFile int removed_file | RemovedDir int removed_dir | LogTick int

definition log_step :: "removal \<Rightarrow> remove_log \<Rightarrow> file_action_log list \<times> remove_log" where
  "log_step r l =
     (case r of
        RemovedFile now f \<Rightarrow> ([], snd (on_remove_file now f l))
      | RemovedDir now d \<Rightarrow> ([], snd (on_remove_dir now d l))
      | LogTick now \<Rightarrow> on_timer now l)"

fun log_run :: "removal list \<Rightarrow> remove_log \<Rightarrow> file_action_log list \<times> remove_log" where
  "log_run [] l = ([], l)"
| "log_run (r # rs) l = (case log_step r l of (xs, l1) \<Rightarrow> (case log_run rs l1 of (ys, l2) \<Rightarrow> (xs @ ys, l2)))"

section \<open>Paths\<close>

lemma parent_length: "parent_components cs = Some ps \<Longrightarrow> length cs = Suc (length ps)"
  by (auto simp: parent_components_def split: if_splits)

lemma direct_child_length: "direct_child p c \<Longrightarrow> length (path_components c) = Suc (length (path_components p))"
  by (auto simp: direct_child_def dest: parent_length)

lemma direct_child_irrefl [simp]: "\<not> direct_child p p"
  by (auto dest: direct_child_length)

lemma direct_child_asym: "direct_child p c \<Longrightarrow> \<not> direct_child c p"
  by (auto dest!: direct_child_length)

definition covers :: "string \<Rightarrow> string \<Rightarrow> bool" where
  "covers p c = prefix (path_components p) (path_components c)"

lemma covers_refl [simp]: "covers p p"
  by (simp add: covers_def)

lemma covers_trans: "covers a b \<Longrightarrow> covers b c \<Longrightarrow> covers a c"
  unfolding covers_def by (rule prefix_order.trans)

lemma direct_child_covers: "direct_child p c \<Longrightarrow> covers p c"
  using prefixeq_butlast [of "path_components c"] by (simp add: direct_child_def parent_components_def covers_def split: if_splits)

section \<open>What is reported\<close>

lemmas log_defs = log_step_def on_remove_file_def on_remove_dir_def on_timer_def

text \<open>A removed directory is accounted for by an entry reported so far or still recorded of a directory that
  contains it, a removed file by its own entry or by a removed directory below its path.\<close>

definition dir_done :: "file_action_log list \<Rightarrow> remove_log \<Rightarrow> removed_dir \<Rightarrow> bool" where
  "dir_done ys l d = ((\<exists>x \<in> set (rl_dirs l). covers (rd_path x) (rd_path d)) \<or>
     (\<exists>x. dir_log (rl_conn_id l) x \<in> set ys \<and> covers (rd_path x) (rd_path d)))"

definition file_done :: "file_action_log list \<Rightarrow> remove_log \<Rightarrow> removal list \<Rightarrow> removed_file \<Rightarrow> bool" where
  "file_done ys l rs f = (f \<in> set (rl_files l) \<or> file_log (rl_conn_id l) f \<in> set ys \<or>
     (\<exists>t d. RemovedDir t d \<in> set rs \<and> direct_child (rf_path f) (rd_path d)))"

lemma log_step_conn: "rl_conn_id (snd (log_step r l)) = rl_conn_id l"
  by (simp add: log_defs Let_def split: removal.split)

lemma dir_done_step:
  assumes "dir_done ys l d" "log_step r l = (xs, l1)"
  shows "dir_done (ys @ xs) l1 d"
proof -
  have id: "rl_conn_id l1 = rl_conn_id l" using log_step_conn [of r l] assms(2) by simp
  consider (held) x where "x \<in> set (rl_dirs l)" "covers (rd_path x) (rd_path d)"
    | (told) x where "dir_log (rl_conn_id l) x \<in> set ys" "covers (rd_path x) (rd_path d)"
    using assms(1) by (auto simp: dir_done_def)
  then show ?thesis
  proof cases
    case held
    show ?thesis
    proof (cases r)
      case (RemovedDir now d')
      with assms(2) have l1: "l1 = snd (on_remove_dir now d' l)" by (simp add: log_step_def)
      show ?thesis
      proof (cases "direct_child (rd_path d') (rd_path x)")
        case True
        have c: "covers (rd_path d') (rd_path d)" using direct_child_covers [OF True] held(2) by (rule covers_trans)
        show ?thesis
        proof (cases "\<exists>y \<in> set (rl_dirs l). \<not> direct_child (rd_path d') (rd_path y) \<and> direct_child (rd_path y) (rd_path d')")
          case True
          then obtain y where y: "y \<in> set (rl_dirs l)" "\<not> direct_child (rd_path d') (rd_path y)" "direct_child (rd_path y) (rd_path d')" by blast
          then have "y \<in> set (rl_dirs l1)" by (auto simp: l1 on_remove_dir_def Let_def)
          with covers_trans [OF direct_child_covers [OF y(3)] c] show ?thesis by (auto simp: dir_done_def)
        next
          case False
          then have "d' \<in> set (rl_dirs l1)" by (auto simp: l1 on_remove_dir_def Let_def list_ex_iff)
          with c show ?thesis by (auto simp: dir_done_def)
        qed
      next
        case False
        with held(1) have "x \<in> set (rl_dirs l1)" by (auto simp: l1 on_remove_dir_def Let_def)
        with held(2) show ?thesis by (auto simp: dir_done_def)
      qed
    next
      case (LogTick now)
      have "dir_log (rl_conn_id l) x \<in> set xs \<or> x \<in> set (rl_dirs l1)"
        using assms(2) held(1) LogTick by (auto simp: log_defs split: if_splits)
      with held(2) id show ?thesis by (auto simp: dir_done_def)
    qed (use assms(2) held in \<open>auto simp: log_defs dir_done_def\<close>)
  qed (auto simp: dir_done_def id)
qed

lemma dir_done_new: "dir_done ys (snd (log_step (RemovedDir now d) l)) d"
  by (auto simp: log_defs dir_done_def Let_def list_ex_iff dest: direct_child_covers)

lemma file_done_step:
  assumes "file_done ys l rs f" "log_step r l = (xs, l1)"
  shows "file_done (ys @ xs) l1 (rs @ [r]) f"
proof -
  have "rl_conn_id l1 = rl_conn_id l" using log_step_conn [of r l] assms(2) by simp
  with assms show ?thesis
    by (cases r; cases "\<exists>t d. r = RemovedDir t d \<and> direct_child (rf_path f) (rd_path d)")
      (auto simp: log_defs file_done_def Let_def split: if_splits)
qed

lemma log_run_snoc: "log_run (rs @ [r]) l = (case log_run rs l of (ys, l1) \<Rightarrow> (case log_step r l1 of (xs, l2) \<Rightarrow> (ys @ xs, l2)))"
  by (induction rs arbitrary: l) (auto split: prod.splits)

lemma log_run_accounts:
  assumes "log_run rs (remove_log_new now i) = (ys, l)"
  shows "rl_conn_id l = i \<and> (\<forall>t d. RemovedDir t d \<in> set rs \<longrightarrow> dir_done ys l d) \<and> (\<forall>t f. RemovedFile t f \<in> set rs \<longrightarrow> file_done ys l rs f)"
  using assms
proof (induction rs arbitrary: ys l rule: rev_induct)
  case Nil
  then show ?case by (auto simp: remove_log_new_def)
next
  case (snoc r rs)
  obtain ys1 l1 where r1: "log_run rs (remove_log_new now i) = (ys1, l1)" by (metis surj_pair)
  obtain xs l2 where s: "log_step r l1 = (xs, l2)" by (metis surj_pair)
  with snoc.prems r1 have e: "ys = ys1 @ xs" "l = l2" by (simp_all add: log_run_snoc)
  note ih = snoc.IH [OF r1]
  have "dir_done ys l d" if "RemovedDir t d \<in> set (rs @ [r])" for t d
  proof (cases "RemovedDir t d \<in> set rs")
    case False
    with that have "r = RemovedDir t d" by simp
    with dir_done_new [of ys t d l1] s e show ?thesis by simp
  qed (use ih dir_done_step [OF _ s] e in auto)
  moreover have "file_done ys l (rs @ [r]) f" if "RemovedFile t f \<in> set (rs @ [r])" for t f
  proof (cases "RemovedFile t f \<in> set rs")
    case False
    with that have "r = RemovedFile t f" by simp
    with s e show ?thesis by (auto simp: log_defs file_done_def)
  qed (use ih file_done_step [OF _ s] e in auto)
  moreover have "rl_conn_id l = i" using ih log_step_conn [of r l1] s e by simp
  ultimately show ?case by blast
qed

text \<open>Once a timer tick finds the log a second old, the connection manager has been told of every removed
  directory or of a removed directory that contains it, and of every removed file, except one
  whose path is the parent of a directory removed later.\<close>

theorem removals_reported:
  assumes "log_run rs (remove_log_new now i) = (ys, l)" "tick - rl_instant l \<ge> 1000"
    and "log_run (rs @ [LogTick tick]) (remove_log_new now i) = (zs, l')"
  shows "(RemovedDir t d \<in> set rs \<longrightarrow> (\<exists>x. dir_log i x \<in> set zs \<and> covers (rd_path x) (rd_path d))) \<and>
    (RemovedFile t f \<in> set rs \<longrightarrow> file_log i f \<in> set zs \<or> (\<exists>t' d'. RemovedDir t' d' \<in> set rs \<and> direct_child (rf_path f) (rd_path d')))"
proof -
  note a = log_run_accounts [OF assms(1)]
  have "(tick - rl_instant l) div 1000 \<ge> 1" using assms(2) by linarith
  then have z: "zs = ys @ map (file_log i) (rl_files l) @ map (dir_log i) (rl_dirs l)"
    using assms(1,3) a by (auto simp: log_run_snoc log_step_def on_timer_def)
  have "\<exists>x. dir_log i x \<in> set zs \<and> covers (rd_path x) (rd_path d)" if "dir_done ys l d"
    using that a by (auto simp: dir_done_def z)
  moreover have "file_log i f \<in> set zs \<or> (\<exists>t' d'. RemovedDir t' d' \<in> set rs \<and> direct_child (rf_path f) (rd_path d'))" if "file_done ys l rs f"
    using that a by (auto simp: file_done_def z)
  ultimately show ?thesis using a by blast
qed

text \<open>The files of a removed directory are not dropped from the record as its directories are: \<open>on_remove_dir\<close> calls
  \<open>direct_child\<close> with the file as the parent.\<close>

lemma files_of_removed_dir_stay:
  assumes "f \<in> set (rl_files l)" "direct_child (rd_path d) (rf_path f)"
  shows "f \<in> set (rl_files (snd (on_remove_dir now d l)))"
  using assms direct_child_asym by (auto simp: on_remove_dir_def Let_def)

definition sample_removals :: "removal list" where
  "sample_removals =
     [RemovedFile 0 \<lparr>rf_id = 1, rf_path = ''/a/b'', rf_file_num = 0\<rparr>, RemovedDir 1 \<lparr>rd_id = 3, rd_path = ''/a/c'', rd_recursive = True\<rparr>,
      RemovedDir 2 \<lparr>rd_id = 2, rd_path = ''/a'', rd_recursive = True\<rparr>]"

lemma sample_log:
  "fst (log_run (sample_removals @ [LogTick 2000]) (remove_log_new 0 9)) =
     [\<lparr>fl_id = 1, fl_conn_id = 9, fl_path = ''/a/b'', fl_dir = False\<rparr>, \<lparr>fl_id = 2, fl_conn_id = 9, fl_path = ''/a'', fl_dir = True\<rparr>]"
  "rl_instant (snd (log_run sample_removals (remove_log_new 0 9))) = 2"
  by code_simp+

theorem removals_reported_witness:
  "\<exists>x. dir_log 9 x \<in> set (fst (log_run (sample_removals @ [LogTick 2000]) (remove_log_new 0 9))) \<and> covers (rd_path x) ''/a/c''"
proof -
  obtain ys l where r: "log_run sample_removals (remove_log_new 0 9) = (ys, l)" by (metis surj_pair)
  obtain zs l' where z: "log_run (sample_removals @ [LogTick 2000]) (remove_log_new 0 9) = (zs, l')" by (metis surj_pair)
  have "2000 - rl_instant l \<ge> 1000" using sample_log(2) r by simp
  from removals_reported [OF r this z, of 1 "\<lparr>rd_id = 3, rd_path = ''/a/c'', rd_recursive = True\<rparr>"] z show ?thesis
    by (simp add: sample_removals_def)
qed

end
