(* ===== verification/Plain_Forward.thy ===== *)
theory Plain_Forward
  imports Prelude "HOL-Library.Sublist"
begin

text \<open>
  The relay of a port forward that is not multiplexed, \<open>src/server/connection.rs\<close>,
  \<open>try_port_forward_loop\<close>: after the login the connection leaves its message loop, the stream of the peer
  becomes raw and the loop copies bytes between it and the socket of the target.

  An event is one branch of the \<open>select!\<close> with what the sockets answered: what was read, and the error
  of the send that follows, if any.  Times are milliseconds.
\<close>

definition H1 :: int where "H1 = 3600000"

datatype forward_read = ReadData bytes | ReadErr string | ReadEnd

datatype forward_event =
    FwCmClose
  | FwCmWindowClosed
  | FwCmErr string
  | FwCmOther
  | FwTarget forward_read "string option"
  | FwPeer forward_read "string option"
  | FwTimer
  | FwConsole bool

record forward_state =
  fw_last_recv :: int
  fw_to_peer :: "bytes list"
  fw_to_target :: "bytes list"

definition relay_read ::
  "(bytes \<Rightarrow> forward_state \<Rightarrow> forward_state) \<Rightarrow> string \<Rightarrow> int \<Rightarrow> forward_read \<Rightarrow> string option \<Rightarrow> forward_state \<Rightarrow> string option \<times> forward_state" where
  "relay_read put reset now r send_err s =
     (case r of
        ReadEnd \<Rightarrow> (Some reset, s)
      | ReadErr err \<Rightarrow> (Some err, s\<lparr>fw_last_recv := now\<rparr>)
      | ReadData d \<Rightarrow>
          (case send_err of
             Some err \<Rightarrow> (Some err, s\<lparr>fw_last_recv := now\<rparr>)
           | None \<Rightarrow> (None, put d (s\<lparr>fw_last_recv := now\<rparr>))))"

text \<open>One turn of the loop: the error it ends with, if any.\<close>

definition forward_step :: "int \<Rightarrow> forward_event \<Rightarrow> forward_state \<Rightarrow> string option \<times> forward_state" where
  "forward_step now ev s =
     (case ev of
        FwCmClose \<Rightarrow> (Some ''Close requested from connection manager'', s)
      | FwCmWindowClosed \<Rightarrow> (Some ''Connection manager window closed'', s)
      | FwCmErr e \<Rightarrow> (Some e, s)
      | FwCmOther \<Rightarrow> (None, s)
      | FwTarget r send_err \<Rightarrow>
          relay_read (\<lambda>d. fw_to_peer_update (\<lambda>ds. ds @ [d])) ''Forward reset by the peer'' now r send_err s
      | FwPeer r send_err \<Rightarrow>
          relay_read (\<lambda>d. fw_to_target_update (\<lambda>ds. ds @ [d])) ''Stream reset by the peer'' now r send_err s
      | FwTimer \<Rightarrow> (if now - fw_last_recv s \<ge> H1 then Some ''Timeout'' else None, s)
      | FwConsole mine \<Rightarrow> (if mine then Some ''Closed manually by the web console'' else None, s))"

fun forward_loop :: "(int \<times> forward_event) list \<Rightarrow> forward_state \<Rightarrow> string option \<times> forward_state" where
  "forward_loop [] s = (None, s)"
| "forward_loop ((now, ev) # evs) s =
     (case forward_step now ev s of
        (Some err, s1) \<Rightarrow> (Some err, s1)
      | (None, s1) \<Rightarrow> forward_loop evs s1)"

text \<open>Without a socket there is nothing to relay.\<close>

definition try_port_forward_loop ::
  "bool \<Rightarrow> int \<Rightarrow> (int \<times> forward_event) list \<Rightarrow> string option \<times> forward_state" where
  "try_port_forward_loop socket now evs =
     (let s = \<lparr>fw_last_recv = now, fw_to_peer = [], fw_to_target = []\<rparr> in
      if socket then forward_loop evs s else (None, s))"

section \<open>The relay is transparent\<close>

definition target_data :: "(int \<times> forward_event) list \<Rightarrow> bytes list" where
  "target_data evs = List.map_filter (\<lambda>(_, ev). case ev of FwTarget (ReadData d) _ \<Rightarrow> Some d | _ \<Rightarrow> None) evs"

definition peer_data :: "(int \<times> forward_event) list \<Rightarrow> bytes list" where
  "peer_data evs = List.map_filter (\<lambda>(_, ev). case ev of FwPeer (ReadData d) _ \<Rightarrow> Some d | _ \<Rightarrow> None) evs"

definition data_event :: "forward_event \<Rightarrow> bool" where
  "data_event ev = (case ev of FwTarget r _ \<Rightarrow> r \<noteq> ReadEnd | FwPeer r _ \<Rightarrow> r \<noteq> ReadEnd | _ \<Rightarrow> False)"

lemma data_simps [simp]:
  "target_data [] = []" "peer_data [] = []"
  "target_data ((now, ev) # evs) = (case ev of FwTarget (ReadData d) _ \<Rightarrow> [d] | _ \<Rightarrow> []) @ target_data evs"
  "peer_data ((now, ev) # evs) = (case ev of FwPeer (ReadData d) _ \<Rightarrow> [d] | _ \<Rightarrow> []) @ peer_data evs"
  by (auto simp: target_data_def peer_data_def List.map_filter_simps split: forward_event.splits forward_read.splits)

lemma forward_step_goes_on:
  assumes "forward_step now ev s = (None, s1)"
  shows "fw_to_peer s1 = fw_to_peer s @ target_data [(now, ev)]" "fw_to_target s1 = fw_to_target s @ peer_data [(now, ev)]"
    "fw_last_recv s1 = (if data_event ev then now else fw_last_recv s)"
  using assms
  by (auto simp: forward_step_def relay_read_def data_event_def split: forward_event.splits forward_read.splits option.splits if_splits)

lemma forward_step_ends:
  assumes "forward_step now ev s = (Some err, s1)"
  shows "fw_to_peer s1 = fw_to_peer s" "fw_to_target s1 = fw_to_target s"
  using assms
  by (auto simp: forward_step_def relay_read_def split: forward_event.splits forward_read.splits option.splits if_splits)

lemma forward_loop_relays:
  assumes "forward_loop evs s = (r, s')"
  shows "\<exists>evs1. prefix evs1 evs \<and> fw_to_peer s' = fw_to_peer s @ target_data evs1 \<and>
    fw_to_target s' = fw_to_target s @ peer_data evs1 \<and> (r = None \<longrightarrow> evs1 = evs)"
  using assms
proof (induction evs arbitrary: s)
  case (Cons x evs)
  obtain now ev where x: "x = (now, ev)" by force
  obtain r1 s1 where st: "forward_step now ev s = (r1, s1)" by force
  show ?case
  proof (cases r1)
    case None
    with Cons.prems x st have "forward_loop evs s1 = (r, s')" by simp
    from Cons.IH [OF this] obtain evs1 where "prefix evs1 evs" "fw_to_peer s' = fw_to_peer s1 @ target_data evs1"
      "fw_to_target s' = fw_to_target s1 @ peer_data evs1" "r = None \<longrightarrow> evs1 = evs" by auto
    with forward_step_goes_on [OF st [unfolded None]] x show ?thesis by (intro exI [of _ "x # evs1"]) simp
  next
    case (Some err)
    with Cons.prems x st have "r = Some err" "s' = s1" by simp_all
    with forward_step_ends [OF st [unfolded Some]] show ?thesis by (intro exI [of _ "[]"]) simp
  qed
qed (auto intro: exI [of _ "[]"])

text \<open>A plain port forward hands over the bytes of each side in order, unchanged and without loss up to
  the event that ends it: for some prefix of the events, which is all of them while the loop runs,
  the peer was sent exactly what the target gave and the target exactly what the peer sent.  While
  the loop runs, a tick of its timer ends it exactly when nothing was read for an hour.\<close>

theorem plain_forward_relays:
  assumes "try_port_forward_loop True now0 evs = (r, s)"
  shows "(\<exists>evs1. prefix evs1 evs \<and> fw_to_peer s = target_data evs1 \<and> fw_to_target s = peer_data evs1 \<and> (r = None \<longrightarrow> evs1 = evs)) \<and>
    (r = None \<longrightarrow> fst (forward_step now FwTimer s) = (if now - last (now0 # map fst (filter (data_event \<circ> snd) evs)) \<ge> H1 then Some ''Timeout'' else None))"
proof -
  have lp: "forward_loop evs \<lparr>fw_last_recv = now0, fw_to_peer = [], fw_to_target = []\<rparr> = (r, s)"
    using assms by (simp add: try_port_forward_loop_def)
  have "fw_last_recv s' = last (fw_last_recv s0 # map fst (filter (data_event \<circ> snd) evs))"
    if "forward_loop evs s0 = (None, s')" for s0 s'
    using that
  proof (induction evs arbitrary: s0)
    case (Cons x evs)
    obtain t ev where x: "x = (t, ev)" by force
    obtain r1 s1 where st: "forward_step t ev s0 = (r1, s1)" by force
    with Cons.prems x have "r1 = None" "forward_loop evs s1 = (None, s')" by (auto split: option.splits)
    with Cons.IH [OF this(2)] forward_step_goes_on(3) [of t ev s0 s1] st x show ?case by simp
  qed simp
  from this [of "\<lparr>fw_last_recv = now0, fw_to_peer = [], fw_to_target = []\<rparr>" s] forward_loop_relays [OF lp] lp
  show ?thesis by (auto simp: forward_step_def)
qed

theorem plain_forward_relays_witness:
  "try_port_forward_loop True 0 [(1, FwTarget (ReadData [1, 2]) None), (2, FwPeer (ReadData [3]) None), (9, FwTimer)] =
     (None, \<lparr>fw_last_recv = 2, fw_to_peer = [[1, 2]], fw_to_target = [[3]]\<rparr>) \<and>
   fst (forward_step 3600002 FwTimer \<lparr>fw_last_recv = 2, fw_to_peer = [[1, 2]], fw_to_target = [[3]]\<rparr>) = Some ''Timeout''"
proof -
  let ?evs = "[(1, FwTarget (ReadData [1, 2]) None), (2, FwPeer (ReadData [3]) None), (9, FwTimer)]"
  let ?s = "\<lparr>fw_last_recv = 2, fw_to_peer = [[1, 2]], fw_to_target = [[3]]\<rparr>"
  have r: "try_port_forward_loop True 0 ?evs = (None, ?s)"
    by (simp add: try_port_forward_loop_def forward_step_def relay_read_def H1_def)
  from plain_forward_relays [OF r, of 3600002] r show ?thesis by (simp add: data_event_def H1_def)
qed

end
