(* ===== verification/Session_Scope.thy ===== *)
theory Session_Scope
  imports Password_Auth Mux_Server Terminal_Service Fs_Transfer Common_Lib
begin

text \<open>
  What a connection may do, \<open>src/server/connection.rs\<close>: the messages of the protocol
  (\<open>libs/base/protos/message.proto\<close>), the permissions of a session, the latch that binds the
  authentication retries of a connection to one scope, and the filters that decide which messages and
  which fields of an option message a session of a given type may send.

  \<^item> A \<open>oneof\<close> is a datatype, an unset one \<open>None\<close>; a field of enum type is the integer of the wire, which may
    name no constant of the enum.  Payloads the controlled side never looks at are bytes.
  \<^item> \<open>session_conn\<close> is the part of \<open>Connection\<close> that the dispatch of messages reads or changes; its
    login fields are the record of \<open>Password_Auth\<close>; \<open>started\<close> and \<open>last_recv_time\<close>, locals of
    \<open>Connection::start\<close>, are fields too.
\<close>

unbundle bit_operations_syntax

section \<open>Messages\<close>

datatype bool_option = BoNotSet | BoNo | BoYes

definition bool_option_value :: "int \<Rightarrow> bool_option option" where
  "bool_option_value v = (if v = 0 then Some BoNotSet else if v = 1 then Some BoNo else if v = 2 then Some BoYes else None)"

definition bool_option_into :: "bool_option \<Rightarrow> int" where
  "bool_option_into b = (case b of BoNotSet \<Rightarrow> 0 | BoNo \<Rightarrow> 1 | BoYes \<Rightarrow> 2)"

datatype image_quality = IqNotSet | IqLow | IqBalanced | IqBest

definition image_quality_value :: "int \<Rightarrow> image_quality option" where
  "image_quality_value v =
     (if v = 0 then Some IqNotSet else if v = 2 then Some IqLow else if v = 3 then Some IqBalanced
      else if v = 4 then Some IqBest else None)"

record option_message =
  om_image_quality :: int
  om_lock_after_session_end :: int
  om_show_remote_cursor :: int
  om_privacy_mode :: int
  om_block_input :: int
  om_custom_image_quality :: int
  om_disable_audio :: int
  om_disable_clipboard :: int
  om_enable_file_transfer :: int
  om_supported_decoding :: "bytes option"
  om_custom_fps :: int
  om_disable_keyboard :: int
  om_follow_remote_cursor :: int
  om_follow_remote_window :: int
  om_disable_camera :: int
  om_terminal_persistent :: int
  om_show_my_cursor :: int

definition option_message_new :: option_message where
  "option_message_new =
     \<lparr>om_image_quality = 0, om_lock_after_session_end = 0, om_show_remote_cursor = 0, om_privacy_mode = 0,
      om_block_input = 0, om_custom_image_quality = 0, om_disable_audio = 0, om_disable_clipboard = 0,
      om_enable_file_transfer = 0, om_supported_decoding = None, om_custom_fps = 0, om_disable_keyboard = 0,
      om_follow_remote_cursor = 0, om_follow_remote_window = 0, om_disable_camera = 0,
      om_terminal_persistent = 0, om_show_my_cursor = 0\<rparr>"

datatype login_union =
    LuFileTransfer string bool
  | LuPortForward string int bool
  | LuViewCamera
  | LuTerminal string

record login_request_msg =
  lr_username :: string
  lr_password :: bytes
  lr_my_id :: string
  lr_my_name :: string
  lr_option :: "option_message option"
  lr_union :: "login_union option"
  lr_video_ack_required :: bool
  lr_session_id :: nat
  lr_version :: string
  lr_os_username :: string
  lr_my_platform :: string
  lr_hwid :: bytes

definition login_request_default :: login_request_msg where
  "login_request_default =
     \<lparr>lr_username = [], lr_password = [], lr_my_id = [], lr_my_name = [], lr_option = None, lr_union = None,
      lr_video_ack_required = False, lr_session_id = 0, lr_version = [], lr_os_username = [],
      lr_my_platform = [], lr_hwid = []\<rparr>"

datatype key_union = KControlKey int | KChr nat | KUnicode nat | KSeq string | KWin2Win nat

record key_event =
  ke_down :: bool
  ke_press :: bool
  ke_union :: "key_union option"
  ke_modifiers :: "int list"
  ke_mode :: int

record mouse_event =
  me_mask :: int
  me_x :: int
  me_y :: int
  me_modifiers :: "int list"

datatype file_action =
    FaReadDir string bool
  | FaSend int string bool int int
  | FaReceive int string "file_entry list" int nat
  | FaCreate int string
  | FaRemoveDir int string bool
  | FaRemoveFile int string int
  | FaAllFiles int string bool
  | FaCancel int
  | FaSendConfirm int int confirm_union
  | FaRename int string string
  | FaReadEmptyDirs string bool

datatype file_response =
    FrDir bytes
  | FrBlock int int bytes bool
  | FrError int string int
  | FrDone int int
  | FrDigest int int nat nat bool
  | FrEmptyDirs bytes

datatype misc_union =
    ChatMessage string
  | SwitchDisplay nat int int
  | PermissionInfo int bool
  | OptionMsg option_message
  | AudioFormat nat nat
  | CloseReason string
  | RefreshVideo bool
  | VideoReceived bool
  | BackNotification bytes
  | RestartRemoteDevice bool
  | Uac bool
  | ForegroundWindowElevated bool
  | StopService bool
  | ElevationRequest bytes
  | ElevationResponse string
  | PortableServiceRunning bool
  | SwitchSidesRequest bytes
  | SwitchBack
  | ChangeResolution int int
  | PluginRequest string bytes
  | PluginFailure bytes
  | FullSpeedFps nat
  | AutoAdjustFps nat
  | ClientRecordStatus bool
  | CaptureDisplays "nat list" "nat list" "nat list"
  | RefreshVideoDisplay nat
  | ToggleVirtualDisplay int bool
  | TogglePrivacyMode string bool
  | SupportedEncoding bytes
  | SelectedSid nat
  | ChangeDisplayResolution nat int int
  | MessageQuery nat
  | FollowCurrentDisplay int
  | RequestCursorData nat

datatype message_union =
    SignedId bytes
  | PublicKey bytes
  | TestDelay int bool
  | VideoFrame bytes
  | LoginRequest login_request_msg
  | LoginResponse bytes
  | HashMsg bytes
  | MouseEvent mouse_event
  | AudioFrame bytes
  | CursorData bytes
  | CursorPosition int int
  | CursorId nat
  | KeyEvent key_event
  | Clipboard bytes
  | FileAction "file_action option"
  | FileResponse "file_response option"
  | Misc "misc_union option"
  | Cliprdr bytes
  | MessageBox bytes
  | SwitchSidesResponse bytes "login_request_msg option"
  | VoiceCallRequest int bool
  | VoiceCallResponse bool int int
  | PeerInfo bytes
  | PointerDeviceEvent bytes
  | Auth2FA string bytes
  | MultiClipboards "bytes list"
  | ScreenshotRequest nat string
  | ScreenshotResponse bytes
  | TerminalAction terminal_action
  | TerminalResponse bytes
  | PortForwardChannel pf_frame

type_synonym message = "message_union option"

section \<open>Permissions\<close>

datatype auth_conn_type = ConnRemote | ConnFileTransfer | ConnPortForward | ConnViewCamera | ConnTerminal

definition conn_type_as_str :: "auth_conn_type \<Rightarrow> string" where
  "conn_type_as_str t =
     (case t of ConnRemote \<Rightarrow> ''remote'' | ConnFileTransfer \<Rightarrow> ''file_transfer'' | ConnPortForward \<Rightarrow> ''port_forward''
      | ConnViewCamera \<Rightarrow> ''view_camera'' | ConnTerminal \<Rightarrow> ''terminal'')"

text \<open>The numbers of \<open>control_permissions::Permission\<close> in \<open>rendezvous.proto\<close>.\<close>

datatype permission_kind =
    PKeyboard | PRemotePrinter | PClipboard | PFile | PAudio | PCamera | PTerminal | PTunnel
  | PRestart | PRecording | PBlockInput | PRemoteModify | PPrivacyMode

definition permission_value :: "permission_kind \<Rightarrow> nat" where
  "permission_value p =
     (case p of PKeyboard \<Rightarrow> 0 | PRemotePrinter \<Rightarrow> 1 | PClipboard \<Rightarrow> 2 | PFile \<Rightarrow> 3 | PAudio \<Rightarrow> 4 | PCamera \<Rightarrow> 5
      | PTerminal \<Rightarrow> 6 | PTunnel \<Rightarrow> 7 | PRestart \<Rightarrow> 8 | PRecording \<Rightarrow> 9 | PBlockInput \<Rightarrow> 10
      | PRemoteModify \<Rightarrow> 11 | PPrivacyMode \<Rightarrow> 12)"

definition get_control_permission :: "u64 \<Rightarrow> permission_kind \<Rightarrow> bool option" where
  "get_control_permission permissions p =
     (let index = permission_value p in
      if index < 32 then
        (let v = drop_bit (index * 2) permissions AND 3 in
         if v = 1 then Some False else if v = 2 then Some True else None)
      else None)"

definition get_control_permission_state :: "u64 list \<Rightarrow> permission_kind \<Rightarrow> bool \<Rightarrow> bool option" where
  "get_control_permission_state all_permissions p disable_if_has_disabled =
     (let (has_enable, has_disable) =
            foldl (\<lambda>(en, dis) cp. case get_control_permission cp p of
                     Some False \<Rightarrow> (en, True) | Some True \<Rightarrow> (True, dis) | None \<Rightarrow> (en, dis)) (False, False) all_permissions
      in if disable_if_has_disabled
         then (if has_disable then Some False else if has_enable then Some True else None)
         else (if has_enable then Some True else if has_disable then Some False else None))"

definition text_starts_with :: "string \<Rightarrow> string \<Rightarrow> bool" where
  "text_starts_with s p = (take (length p) s = p)"

definition option2bool :: "string \<Rightarrow> string \<Rightarrow> bool" where
  "option2bool opt value =
     (if text_starts_with opt ''enable-'' then value \<noteq> ''N''
      else if text_starts_with opt ''allow-'' \<or> opt = ''stop-service'' \<or> opt = ''direct-server'' \<or> opt = ''force-always-relay''
      then value = ''Y''
      else value \<noteq> ''N'')"

text \<open>Options are read through \<open>Config::get_option\<close>, here the function \<open>opts\<close>.\<close>

definition is_permission_enabled_locally :: "(string \<Rightarrow> string) \<Rightarrow> string \<Rightarrow> bool" where
  "is_permission_enabled_locally opts key =
     (let access_mode = opts ''access-mode'' in
      if access_mode = ''full'' then True
      else if access_mode = ''view'' then False
      else option2bool key (opts key))"

definition permission_of_option :: "string \<Rightarrow> permission_kind option" where
  "permission_of_option key =
     (if key = ''enable-keyboard'' then Some PKeyboard
      else if key = ''enable-remote-printer'' then Some PRemotePrinter
      else if key = ''enable-clipboard'' then Some PClipboard
      else if key = ''enable-file-transfer'' then Some PFile
      else if key = ''enable-audio'' then Some PAudio
      else if key = ''enable-camera'' then Some PCamera
      else if key = ''enable-terminal'' then Some PTerminal
      else if key = ''enable-tunnel'' then Some PTunnel
      else if key = ''enable-remote-restart'' then Some PRestart
      else if key = ''enable-record-session'' then Some PRecording
      else if key = ''enable-block-input'' then Some PBlockInput
      else if key = ''enable-privacy-mode'' then Some PPrivacyMode
      else None)"

definition permission :: "(string \<Rightarrow> string) \<Rightarrow> u64 option \<Rightarrow> string \<Rightarrow> bool" where
  "permission opts control_permissions key =
     (case control_permissions of
        Some cp \<Rightarrow>
          (case permission_of_option key of
             Some p \<Rightarrow> (case get_control_permission cp p of
                          Some enabled \<Rightarrow> enabled
                        | None \<Rightarrow> is_permission_enabled_locally opts key)
           | None \<Rightarrow> is_permission_enabled_locally opts key)
      | None \<Rightarrow> is_permission_enabled_locally opts key)"

section \<open>The connection\<close>

record conn_perms =
  cp_keyboard :: bool
  cp_clipboard :: bool
  cp_audio :: bool
  cp_file :: bool
  cp_restart :: bool
  cp_recording :: bool
  cp_block_input :: bool
  cp_privacy_mode :: bool

record conn_opts =
  co_lock_after_session_end :: bool
  co_show_remote_cursor :: bool
  co_follow_remote_cursor :: bool
  co_follow_remote_window :: bool
  co_disable_audio :: bool
  co_disable_clipboard :: bool
  co_disable_keyboard :: bool
  co_show_my_cursor :: bool

record session_conn =
  sn_id :: int
  sn_auth :: auth_conn
  sn_lr :: login_request_msg
  sn_login_scope :: "bytes option"
  sn_options_in_login :: "option_message option"
  sn_file_transfer :: "(string \<times> bool) option"
  sn_view_camera :: bool
  sn_port_forward_socket :: bool
  sn_port_forward_mux :: "port_forward_mux option"
  sn_port_forward_address :: string
  sn_terminal_service_id :: string
  sn_terminal_persistent :: bool
  sn_authed_conn_id :: "auth_conn_type option"
  sn_control_permissions :: "u64 option"
  sn_perms :: conn_perms
  sn_opts :: conn_opts
  sn_video_ack_required :: bool
  sn_last_test_delay :: "int option"
  sn_network_delay :: nat
  sn_chat_unanswered :: bool
  sn_file_transferred :: bool
  sn_closed :: bool
  sn_audio_sender :: bool
  sn_voice_call_request_timestamp :: "int option"
  sn_voice_calling :: bool
  sn_services_subed :: bool
  sn_display_idx :: nat
  sn_multi_ui_session :: bool
  sn_delayed_read_dir :: "(string \<times> bool) option"
  sn_read_jobs :: "transfer_job list"
  sn_cm_read_job_ids :: "int list"
  sn_printer_data :: "(string \<times> bytes) list"
  sn_scope_violation_messages :: "string list"
  sn_auto_disconnect_timer :: "(int \<times> nat) option"
  sn_pressed_modifiers :: "nat list"
  sn_started :: int
  sn_last_recv_time :: int

definition authed_conn_type :: "session_conn \<Rightarrow> auth_conn_type option" where
  "authed_conn_type c = sn_authed_conn_id c"

definition is_authed_remote_conn :: "session_conn \<Rightarrow> bool" where
  "is_authed_remote_conn c = (case sn_authed_conn_id c of Some t \<Rightarrow> t = ConnRemote | None \<Rightarrow> False)"

definition is_authed_view_camera_conn :: "session_conn \<Rightarrow> bool" where
  "is_authed_view_camera_conn c = (case sn_authed_conn_id c of Some t \<Rightarrow> t = ConnViewCamera | None \<Rightarrow> False)"

definition should_handle_render_broadcast_message :: "session_conn \<Rightarrow> bool" where
  "should_handle_render_broadcast_message c =
     (authed_conn_type c = Some ConnRemote \<or> authed_conn_type c = Some ConnViewCamera)"

definition should_handle_text_clipboard_message :: "session_conn \<Rightarrow> bool" where
  "should_handle_text_clipboard_message c = (authed_conn_type c = Some ConnRemote)"

definition is_port_forward :: "session_conn \<Rightarrow> bool" where
  "is_port_forward c = (sn_port_forward_socket c \<or> sn_port_forward_mux c \<noteq> None)"

definition is_remote :: "session_conn \<Rightarrow> bool" where
  "is_remote c =
     (sn_file_transfer c = None \<and> \<not> is_port_forward c \<and> \<not> sn_view_camera c \<and> \<not> ac_terminal (sn_auth c))"

definition peer_keyboard_enabled :: "session_conn \<Rightarrow> bool" where
  "peer_keyboard_enabled c = (cp_keyboard (sn_perms c) \<and> \<not> co_disable_keyboard (sn_opts c))"

definition clipboard_enabled :: "session_conn \<Rightarrow> bool" where
  "clipboard_enabled c = (cp_clipboard (sn_perms c) \<and> \<not> co_disable_clipboard (sn_opts c))"

text \<open>Options built into a custom client are read through \<open>get_builtin_option\<close>, here \<open>builtin\<close>.\<close>

definition can_sub_clipboard_service :: "(string \<Rightarrow> string) \<Rightarrow> session_conn \<Rightarrow> bool" where
  "can_sub_clipboard_service builtin c =
     (clipboard_enabled c \<and> peer_keyboard_enabled c \<and> builtin ''one-way-clipboard-redirection'' \<noteq> ''Y'')"

definition audio_enabled :: "session_conn \<Rightarrow> bool" where
  "audio_enabled c = (cp_audio (sn_perms c) \<and> \<not> co_disable_audio (sn_opts c))"

section \<open>The scope of a login\<close>

definition reset_session_scope_for_login :: "session_conn \<Rightarrow> session_conn" where
  "reset_session_scope_for_login c =
     c\<lparr>sn_file_transfer := None, sn_view_camera := False, sn_auth := (sn_auth c)\<lparr>ac_terminal := False\<rparr>,
       sn_port_forward_address := [], sn_terminal_persistent := False\<rparr>"

text \<open>A Rust string is the sequence of its UTF-8 bytes, one character each.\<close>

definition as_bytes :: "string \<Rightarrow> bytes" where
  "as_bytes s = map (\<lambda>c. word_of_nat (of_char c)) s"

definition scope_push :: "bytes \<Rightarrow> bytes" where
  "scope_push b = le_bytes 8 (length b) @ b"

definition bool_byte :: "bool \<Rightarrow> u8" where
  "bool_byte b = (if b then 1 else 0)"

definition i32_le_bytes :: "int \<Rightarrow> bytes" where
  "i32_le_bytes v = le_bytes 4 (nat (v mod 2 ^ 32))"

text \<open>What \<open>login_scope_digest\<close> feeds to the hash.\<close>

definition scope_fields :: "login_union option \<Rightarrow> bytes" where
  "scope_fields u =
     (case u of
        Some (LuFileTransfer dir show_hidden) \<Rightarrow>
          scope_push (as_bytes ''file_transfer'') @ scope_push (as_bytes dir) @ scope_push [bool_byte show_hidden]
      | Some LuViewCamera \<Rightarrow> scope_push (as_bytes ''view_camera'')
      | Some (LuTerminal service_id) \<Rightarrow> scope_push (as_bytes ''terminal'') @ scope_push (as_bytes service_id)
      | Some (LuPortForward host port multiplex) \<Rightarrow>
          scope_push (as_bytes ''port_forward'') @ scope_push (as_bytes host) @ scope_push (i32_le_bytes port) @
          scope_push [bool_byte multiplex]
      | None \<Rightarrow> scope_push (as_bytes ''remote''))"

definition login_scope_preimage :: "login_request_msg \<Rightarrow> bytes" where
  "login_scope_preimage lr = scope_push (as_bytes (lr_my_id lr)) @ scope_fields (lr_union lr)"

definition login_scope_digest :: "(bytes \<Rightarrow> bytes) \<Rightarrow> login_request_msg \<Rightarrow> bytes" where
  "login_scope_digest sha lr = sha (login_scope_preimage lr)"

definition check_login_scope :: "(bytes \<Rightarrow> bytes) \<Rightarrow> login_request_msg \<Rightarrow> session_conn \<Rightarrow> bool \<times> session_conn" where
  "check_login_scope sha lr c =
     (let requested = login_scope_digest sha lr in
      case sn_login_scope c of
        Some initial \<Rightarrow> (initial = requested, c)
      | None \<Rightarrow> (True, c\<lparr>sn_login_scope := Some requested\<rparr>))"

section \<open>Filters of option messages\<close>

definition is_bool_option_not_set :: "int \<Rightarrow> bool" where
  "is_bool_option_not_set v = (bool_option_value v = Some BoNotSet)"

definition option_has_non_terminal_login_field :: "option_message \<Rightarrow> bool" where
  "option_has_non_terminal_login_field o1 =
     (image_quality_value (om_image_quality o1) \<noteq> Some IqNotSet
      \<or> om_custom_image_quality o1 \<noteq> 0
      \<or> om_custom_fps o1 \<noteq> 0
      \<or> om_supported_decoding o1 \<noteq> None
      \<or> \<not> is_bool_option_not_set (om_lock_after_session_end o1)
      \<or> \<not> is_bool_option_not_set (om_show_remote_cursor o1)
      \<or> \<not> is_bool_option_not_set (om_privacy_mode o1)
      \<or> \<not> is_bool_option_not_set (om_block_input o1)
      \<or> \<not> is_bool_option_not_set (om_disable_audio o1)
      \<or> \<not> is_bool_option_not_set (om_disable_clipboard o1)
      \<or> \<not> is_bool_option_not_set (om_enable_file_transfer o1)
      \<or> \<not> is_bool_option_not_set (om_disable_keyboard o1)
      \<or> \<not> is_bool_option_not_set (om_follow_remote_cursor o1)
      \<or> \<not> is_bool_option_not_set (om_follow_remote_window o1)
      \<or> \<not> is_bool_option_not_set (om_disable_camera o1)
      \<or> \<not> is_bool_option_not_set (om_show_my_cursor o1))"

definition option_has_non_view_camera_login_field :: "option_message \<Rightarrow> bool" where
  "option_has_non_view_camera_login_field o1 =
     (\<not> (is_bool_option_not_set (om_lock_after_session_end o1)
         \<and> is_bool_option_not_set (om_show_remote_cursor o1)
         \<and> is_bool_option_not_set (om_privacy_mode o1)
         \<and> is_bool_option_not_set (om_block_input o1)
         \<and> is_bool_option_not_set (om_disable_clipboard o1)
         \<and> is_bool_option_not_set (om_enable_file_transfer o1)
         \<and> is_bool_option_not_set (om_disable_keyboard o1)
         \<and> is_bool_option_not_set (om_follow_remote_cursor o1)
         \<and> is_bool_option_not_set (om_follow_remote_window o1)
         \<and> is_bool_option_not_set (om_disable_camera o1)
         \<and> is_bool_option_not_set (om_terminal_persistent o1)
         \<and> is_bool_option_not_set (om_show_my_cursor o1)))"

definition option_has_any_field :: "option_message \<Rightarrow> bool" where
  "option_has_any_field o1 =
     (option_has_non_terminal_login_field o1 \<or> \<not> is_bool_option_not_set (om_terminal_persistent o1))"

definition is_supported_decoding_only_option :: "option_message \<Rightarrow> bool" where
  "is_supported_decoding_only_option o1 =
     (om_supported_decoding o1 \<noteq> None
      \<and> image_quality_value (om_image_quality o1) = Some IqNotSet
      \<and> om_custom_image_quality o1 = 0
      \<and> om_custom_fps o1 = 0
      \<and> is_bool_option_not_set (om_lock_after_session_end o1)
      \<and> is_bool_option_not_set (om_show_remote_cursor o1)
      \<and> is_bool_option_not_set (om_privacy_mode o1)
      \<and> is_bool_option_not_set (om_block_input o1)
      \<and> is_bool_option_not_set (om_disable_audio o1)
      \<and> is_bool_option_not_set (om_disable_clipboard o1)
      \<and> is_bool_option_not_set (om_enable_file_transfer o1)
      \<and> is_bool_option_not_set (om_disable_keyboard o1)
      \<and> is_bool_option_not_set (om_follow_remote_cursor o1)
      \<and> is_bool_option_not_set (om_follow_remote_window o1)
      \<and> is_bool_option_not_set (om_disable_camera o1)
      \<and> is_bool_option_not_set (om_terminal_persistent o1)
      \<and> is_bool_option_not_set (om_show_my_cursor o1))"

definition then_some :: "bool \<Rightarrow> 'a \<Rightarrow> 'a option" where
  "then_some b x = (if b then Some x else None)"

definition scoped_terminal_login_option :: "option_message \<Rightarrow> option_message option \<times> string option" where
  "scoped_terminal_login_option o1 =
     (let (scoped, violation) =
            (case bool_option_value (om_terminal_persistent o1) of
               Some value \<Rightarrow> (option_message_new\<lparr>om_terminal_persistent := bool_option_into value\<rparr>, False)
             | None \<Rightarrow> (option_message_new, True));
          violation = (if option_has_non_terminal_login_field o1 then True else violation)
      in (then_some (option_has_any_field scoped) scoped, then_some violation ''login.option''))"

definition scoped_view_camera_option :: "option_message \<Rightarrow> option_message option \<times> string option" where
  "scoped_view_camera_option o1 =
     (let s0 = option_message_new;
          s1 = (if image_quality_value (om_image_quality o1) \<noteq> None then s0\<lparr>om_image_quality := om_image_quality o1\<rparr> else s0);
          s2 = (if om_custom_image_quality o1 \<ge> 0 then s1\<lparr>om_custom_image_quality := om_custom_image_quality o1\<rparr> else s1);
          s3 = (if om_custom_fps o1 \<ge> 0 then s2\<lparr>om_custom_fps := om_custom_fps o1\<rparr> else s2);
          s4 = s3\<lparr>om_supported_decoding := om_supported_decoding o1\<rparr>;
          s5 = (case bool_option_value (om_disable_audio o1) of
                  Some value \<Rightarrow> s4\<lparr>om_disable_audio := bool_option_into value\<rparr> | None \<Rightarrow> s4);
          violation = option_has_non_view_camera_login_field o1
      in (then_some (option_has_any_field s5) s5, then_some violation ''login.option''))"

definition scoped_login_option :: "auth_conn_type \<Rightarrow> option_message \<Rightarrow> option_message option \<times> string option" where
  "scoped_login_option t o1 =
     (case t of
        ConnRemote \<Rightarrow> (Some o1, None)
      | ConnViewCamera \<Rightarrow> scoped_view_camera_option o1
      | ConnTerminal \<Rightarrow> scoped_terminal_login_option o1
      | ConnFileTransfer \<Rightarrow> (None, then_some (option_has_any_field o1) ''login.option'')
      | ConnPortForward \<Rightarrow> (None, then_some (option_has_any_field o1) ''login.option''))"

definition scoped_update_option_message :: "session_conn \<Rightarrow> option_message \<Rightarrow> option_message option" where
  "scoped_update_option_message c o1 =
     (case authed_conn_type c of
        Some ConnViewCamera \<Rightarrow> fst (scoped_view_camera_option o1)
      | Some ConnTerminal \<Rightarrow> fst (scoped_terminal_login_option o1)
      | _ \<Rightarrow> None)"

section \<open>Filters of messages\<close>

text \<open>Builds without the Windows-only cases.\<close>

definition is_render_broadcast_noop_compat_message :: "message \<Rightarrow> bool" where
  "is_render_broadcast_noop_compat_message msg =
     (case msg of
        Some (Misc (Some m)) \<Rightarrow>
          (case m of
             RefreshVideo _ \<Rightarrow> True
           | RefreshVideoDisplay _ \<Rightarrow> True
           | OptionMsg o1 \<Rightarrow> is_supported_decoding_only_option o1
           | _ \<Rightarrow> False)
      | _ \<Rightarrow> False)"

definition is_text_clipboard_noop_compat_message :: "message \<Rightarrow> bool" where
  "is_text_clipboard_noop_compat_message msg =
     (case msg of Some (Clipboard _) \<Rightarrow> True | Some (MultiClipboards _) \<Rightarrow> True | _ \<Rightarrow> False)"

definition is_connection_housekeeping_message :: "message \<Rightarrow> bool" where
  "is_connection_housekeeping_message msg =
     (case msg of
        Some (LoginRequest _) \<Rightarrow> True
      | Some (TestDelay _ _) \<Rightarrow> True
      | Some (Misc (Some (CloseReason _))) \<Rightarrow> True
      | _ \<Rightarrow> False)"

definition is_file_transfer_scoped_misc :: "misc_union option \<Rightarrow> bool" where
  "is_file_transfer_scoped_misc m = False"

definition is_file_transfer_scoped_message :: "message \<Rightarrow> bool" where
  "is_file_transfer_scoped_message msg =
     (case msg of
        Some (FileAction _) \<Rightarrow> True
      | Some (FileResponse _) \<Rightarrow> True
      | Some (Misc m) \<Rightarrow> is_file_transfer_scoped_misc m
      | _ \<Rightarrow> False)"

definition is_port_forward_scoped_message :: "message \<Rightarrow> bool" where
  "is_port_forward_scoped_message msg = (case msg of Some (PortForwardChannel _) \<Rightarrow> True | _ \<Rightarrow> False)"

definition is_terminal_scoped_option :: "option_message \<Rightarrow> bool" where
  "is_terminal_scoped_option o1 = (snd (scoped_terminal_login_option o1) = None)"

definition is_terminal_scoped_misc :: "misc_union option \<Rightarrow> bool" where
  "is_terminal_scoped_misc m =
     (case m of
        Some (ChatMessage _) \<Rightarrow> True
      | Some (OptionMsg o1) \<Rightarrow> is_terminal_scoped_option o1
      | _ \<Rightarrow> False)"

definition is_terminal_scoped_message :: "message \<Rightarrow> bool" where
  "is_terminal_scoped_message msg =
     (case msg of
        Some (TerminalAction _) \<Rightarrow> True
      | Some (Misc m) \<Rightarrow> is_terminal_scoped_misc m
      | _ \<Rightarrow> False)"

definition is_view_camera_scoped_option :: "option_message \<Rightarrow> bool" where
  "is_view_camera_scoped_option o1 = (snd (scoped_view_camera_option o1) = None)"

definition is_view_camera_scoped_misc :: "misc_union option \<Rightarrow> bool" where
  "is_view_camera_scoped_misc m =
     (case m of
        Some (SwitchDisplay _ _ _) \<Rightarrow> True
      | Some (CaptureDisplays _ _ _) \<Rightarrow> True
      | Some (RefreshVideo _) \<Rightarrow> True
      | Some (RefreshVideoDisplay _) \<Rightarrow> True
      | Some (VideoReceived _) \<Rightarrow> True
      | Some (ChatMessage _) \<Rightarrow> True
      | Some (AudioFormat _ _) \<Rightarrow> True
      | Some (ClientRecordStatus _) \<Rightarrow> True
      | Some (MessageQuery _) \<Rightarrow> True
      | Some (TogglePrivacyMode _ _) \<Rightarrow> True
      | Some (ToggleVirtualDisplay _ _) \<Rightarrow> True
      | Some (ChangeResolution _ _) \<Rightarrow> True
      | Some (ChangeDisplayResolution _ _ _) \<Rightarrow> True
      | Some (OptionMsg o1) \<Rightarrow> is_view_camera_scoped_option o1
      | _ \<Rightarrow> False)"

definition is_view_camera_scoped_message :: "message \<Rightarrow> bool" where
  "is_view_camera_scoped_message msg =
     (case msg of
        Some (ScreenshotRequest _ _) \<Rightarrow> True
      | Some (Misc m) \<Rightarrow> is_view_camera_scoped_misc m
      | Some (MouseEvent _) \<Rightarrow> True
      | Some (PointerDeviceEvent _) \<Rightarrow> True
      | Some (KeyEvent _) \<Rightarrow> True
      | Some (AudioFrame _) \<Rightarrow> True
      | Some (VoiceCallRequest _ _) \<Rightarrow> True
      | Some (VoiceCallResponse _ _ _) \<Rightarrow> True
      | _ \<Rightarrow> False)"

definition misc_message_family :: "misc_union option \<Rightarrow> string" where
  "misc_message_family m =
     (case m of
        Some (ChatMessage _) \<Rightarrow> ''misc.chat_message''
      | Some (SwitchDisplay _ _ _) \<Rightarrow> ''misc.switch_display''
      | Some (OptionMsg _) \<Rightarrow> ''misc.option''
      | Some (AudioFormat _ _) \<Rightarrow> ''misc.audio_format''
      | Some (CaptureDisplays _ _ _) \<Rightarrow> ''misc.capture_displays''
      | Some (ClientRecordStatus _) \<Rightarrow> ''misc.client_record_status''
      | Some (TogglePrivacyMode _ _) \<Rightarrow> ''misc.toggle_privacy_mode''
      | Some (ToggleVirtualDisplay _ _) \<Rightarrow> ''misc.toggle_virtual_display''
      | Some (SelectedSid _) \<Rightarrow> ''misc.selected_sid''
      | Some (ChangeResolution _ _) \<Rightarrow> ''misc.change_resolution''
      | Some (ChangeDisplayResolution _ _ _) \<Rightarrow> ''misc.change_display_resolution''
      | Some (MessageQuery _) \<Rightarrow> ''misc.message_query''
      | Some (FollowCurrentDisplay _) \<Rightarrow> ''misc.follow_current_display''
      | Some (SwitchSidesRequest _) \<Rightarrow> ''misc.switch_sides_request''
      | Some _ \<Rightarrow> ''misc.other''
      | None \<Rightarrow> ''misc.empty'')"

definition message_family :: "message \<Rightarrow> string" where
  "message_family msg =
     (case msg of
        Some (MouseEvent _) \<Rightarrow> ''mouse_event''
      | Some (AudioFrame _) \<Rightarrow> ''audio_frame''
      | Some (PointerDeviceEvent _) \<Rightarrow> ''pointer_device_event''
      | Some (KeyEvent _) \<Rightarrow> ''key_event''
      | Some (Clipboard _) \<Rightarrow> ''clipboard''
      | Some (FileAction _) \<Rightarrow> ''file_action''
      | Some (FileResponse _) \<Rightarrow> ''file_response''
      | Some (VoiceCallRequest _ _) \<Rightarrow> ''voice_call_request''
      | Some (VoiceCallResponse _ _ _) \<Rightarrow> ''voice_call_response''
      | Some (MultiClipboards _) \<Rightarrow> ''multi_clipboards''
      | Some (ScreenshotRequest _ _) \<Rightarrow> ''screenshot_request''
      | Some (ScreenshotResponse _) \<Rightarrow> ''screenshot_response''
      | Some (TerminalAction _) \<Rightarrow> ''terminal_action''
      | Some (TerminalResponse _) \<Rightarrow> ''terminal_response''
      | Some (PortForwardChannel _) \<Rightarrow> ''port_forward_channel''
      | Some (Misc m) \<Rightarrow> misc_message_family m
      | Some _ \<Rightarrow> ''message.other''
      | None \<Rightarrow> ''empty'')"

definition authorized_message_scope_violation :: "auth_conn_type \<Rightarrow> message \<Rightarrow> string option" where
  "authorized_message_scope_violation t msg =
     (if is_connection_housekeeping_message msg then None
      else
        let noop_compat =
              (case t of
                 ConnFileTransfer \<Rightarrow> is_render_broadcast_noop_compat_message msg \<or> is_text_clipboard_noop_compat_message msg
               | ConnTerminal \<Rightarrow> is_render_broadcast_noop_compat_message msg \<or> is_text_clipboard_noop_compat_message msg
               | ConnPortForward \<Rightarrow> is_render_broadcast_noop_compat_message msg
               | ConnViewCamera \<Rightarrow> is_text_clipboard_noop_compat_message msg
               | _ \<Rightarrow> False)
        in if noop_compat then None
           else
             let allowed =
                   (case t of
                      ConnRemote \<Rightarrow> True
                    | ConnFileTransfer \<Rightarrow> is_file_transfer_scoped_message msg
                    | ConnPortForward \<Rightarrow> is_port_forward_scoped_message msg
                    | ConnViewCamera \<Rightarrow> is_view_camera_scoped_message msg
                    | ConnTerminal \<Rightarrow> is_terminal_scoped_message msg)
             in then_some (\<not> allowed) (message_family msg))"

definition authorized_scope_violation :: "session_conn \<Rightarrow> message \<Rightarrow> string option" where
  "authorized_scope_violation c msg =
     (case authed_conn_type c of
        None \<Rightarrow> then_some (\<not> is_connection_housekeeping_message msg) ''session.auth_type''
      | Some t \<Rightarrow> authorized_message_scope_violation t msg)"

section \<open>The latch separates scopes\<close>

lemma byte_of_char_inj: "word_of_nat (of_char c) = (word_of_nat (of_char d) :: u8) \<longleftrightarrow> c = d"
proof
  assume a: "word_of_nat (of_char c) = (word_of_nat (of_char d) :: u8)"
  have "unat (word_of_nat (of_char x) :: u8) = of_char x" for x :: char
    by (simp add: unsigned_of_nat take_bit_eq_mod)
  with a have "(of_char c :: nat) = of_char d" by metis
  then show "c = d" by simp
qed simp

lemma as_bytes_inj [simp]: "as_bytes s = as_bytes t \<longleftrightarrow> s = t"
  unfolding as_bytes_def by (rule inj_eq) (auto intro!: inj_mapI injI simp: byte_of_char_inj)

lemma length_as_bytes [simp]: "length (as_bytes s) = length s"
  by (simp add: as_bytes_def)

lemma scope_push_append:
  assumes "length a < 2 ^ 64" "length b < 2 ^ 64"
  shows "scope_push a @ r = scope_push b @ r' \<longleftrightarrow> a = b \<and> r = r'"
proof
  assume eq: "scope_push a @ r = scope_push b @ r'"
  then have "le_bytes 8 (length a) = le_bytes 8 (length b)" "a @ r = b @ r'"
    by (simp_all add: scope_push_def)
  moreover from this(1) have "le_value (le_bytes 8 (length a)) = le_value (le_bytes 8 (length b))" by simp
  then have "length a = length b" using assms by (simp add: le_value_bytes)
  ultimately show "a = b \<and> r = r'" by simp
qed simp

lemma scope_push_inj:
  assumes "length a < 2 ^ 64" "length b < 2 ^ 64"
  shows "scope_push a = scope_push b \<longleftrightarrow> a = b" "scope_push a = scope_push b @ r \<longleftrightarrow> a = b \<and> r = []"
    "scope_push a @ r = scope_push b \<longleftrightarrow> a = b \<and> r = []"
  using scope_push_append [OF assms, of "[]" "[]"] scope_push_append [OF assms, of "[]" r]
    scope_push_append [OF assms, of r "[]"] by auto

lemma i32_le_bytes_inj:
  assumes "- (2 ^ 31) \<le> p" "p < 2 ^ 31" "- (2 ^ 31) \<le> q" "q < 2 ^ 31"
  shows "i32_le_bytes p = i32_le_bytes q \<longleftrightarrow> p = q"
proof
  assume "i32_le_bytes p = i32_le_bytes q"
  then have "le_value (i32_le_bytes p) = le_value (i32_le_bytes q)" by simp
  moreover have "nat (v mod 2 ^ 32) mod 256 ^ 4 = nat (v mod 2 ^ 32)" for v :: int
    by (rule mod_less) (simp add: nat_less_iff)
  ultimately have "nat (p mod 2 ^ 32) = nat (q mod 2 ^ 32)" by (simp only: i32_le_bytes_def le_value_bytes)
  then have "int (nat (p mod 2 ^ 32)) = int (nat (q mod 2 ^ 32))" by (simp only:)
  then have "p mod 2 ^ 32 = q mod 2 ^ 32" by (simp only: int_nat_eq) (simp del: mod_eq_dvd_iff)
  then have "(2 :: int) ^ 32 dvd p - q" by (simp only: mod_eq_dvd_iff)
  then obtain k where "p - q = 2 ^ 32 * k" by (rule dvdE)
  then have "p - q = 4294967296 * k" by simp
  moreover have "- 4294967296 < p - q" "p - q < 4294967296" using assms by simp_all
  ultimately have "k = 0" by linarith
  then show "p = q" using \<open>p - q = 2 ^ 32 * k\<close> by simp
qed simp

text \<open>What a Rust value of the request satisfies: lengths fit a \<open>usize\<close>, the port an \<open>i32\<close>.\<close>

definition lr_sizes_ok :: "login_request_msg \<Rightarrow> bool" where
  "lr_sizes_ok lr = (length (lr_my_id lr) < 2 ^ 64 \<and>
     (case lr_union lr of
        Some (LuFileTransfer dir _) \<Rightarrow> length dir < 2 ^ 64
      | Some (LuTerminal sid) \<Rightarrow> length sid < 2 ^ 64
      | Some (LuPortForward host port _) \<Rightarrow> length host < 2 ^ 64 \<and> - (2 ^ 31) \<le> port \<and> port < 2 ^ 31
      | _ \<Rightarrow> True))"

lemma bool_byte_inj [simp]: "bool_byte a = bool_byte b \<longleftrightarrow> a = b"
  by (auto simp: bool_byte_def)

lemma length_i32_le_bytes [simp]: "length (i32_le_bytes p) = 4"
  by (simp add: i32_le_bytes_def)

lemma login_scope_preimage_inj:
  assumes "lr_sizes_ok lr" "lr_sizes_ok lr'" "login_scope_preimage lr = login_scope_preimage lr'"
  shows "lr_my_id lr = lr_my_id lr' \<and> lr_union lr = lr_union lr'"
proof -
  have fst_eq: "lr_my_id lr = lr_my_id lr'" and rest: "scope_fields (lr_union lr) = scope_fields (lr_union lr')"
    using assms by (simp_all add: login_scope_preimage_def lr_sizes_ok_def scope_push_append)
  show ?thesis
    using rest assms(1,2) fst_eq
    by (auto simp: lr_sizes_ok_def scope_fields_def scope_push_append scope_push_inj i32_le_bytes_inj split: option.splits login_union.splits)
qed
end
