(* ===== verification/Session_Dispatch.thy ===== *)
theory Session_Dispatch
  imports Session_Scope
begin

text \<open>
  The handlers of an authorised connection, \<open>src/server/connection.rs\<close>: input, clipboard, files, options,
  displays, privacy mode, voice calls, terminals, tunnel frames, and the dispatch of the messages to
  them, for the Linux build with the flutter feature.

  \<^item> A handler returns what it does to the rest of the program as a list of effects, in order, and
    the updated connection; terminals and the multiplexed tunnel are the models of
    \<open>Terminal_Service\<close> and \<open>Mux_Server\<close>, transfer jobs those of \<open>Fs_Transfer\<close>.
  \<^item> \<open>session_env\<close> holds what is read from outside while one message is handled: options, clock,
    displays, file listings, the answers of the privacy mode and of the operating system.
  \<^item> Display numbers are the \<open>usize\<close> the code casts the field of the message to.
\<close>

section \<open>Effects and environment\<close>

datatype fs_request =
    FsReadEmptyDirs string bool
  | FsReadDir string bool
  | FsRemoveDir string int bool
  | FsRemoveFile string int int
  | FsCreateDir string int
  | FsNewWrite string int int "(string \<times> nat) list" bool nat
  | FsCancelWrite int
  | FsWriteBlock int int bytes bool
  | FsWriteDone int int
  | FsWriteError int int string
  | FsCheckDigest int int nat nat bool bool
  | FsSendConfirm int int confirm_union
  | FsRename int string string
  | FsCancelRead int
  | FsSendConfirmForRead int int bool nat

datatype cm_data =
    CmLogin bool
  | CmFs fs_request
  | CmChatMessage string
  | CmFileTransferLog string
  | CmVoiceCallIncoming
  | CmStartVoiceCall
  | CmCloseVoiceCall
  | CmSwitchPermission string bool
  | CmDisconnected
  | CmClose

datatype privacy_state =
    PrvOnSucceeded | PrvOnFailedDenied | PrvOnFailed | PrvOffSucceeded | PrvOffByPeer | PrvOffFailed | PrvOffUnknown | PrvNotSupported

datatype peer_msg =
    PPermission permission_kind bool
  | PCloseReason string
  | PChat string
  | PTestDelay int
  | PLoginResponse auth_conn_type
  | PLoginResponseError string
  | PFileError int string int
  | PFileDir int string "file_entry list"
  | PMessageBox string string
  | PBlockInputError bool string
  | PPrivacy privacy_state string string
  | PDisplayChanged nat
  | PCursorData nat
  | PTerminal terminal_response
  | PVoiceCallRequest bool
  | PVoiceCallResponse int bool
  | PSwitchBack
  | PHash bytes bytes
  | PFileMsg file_msg
  | PTestDelayRequest nat
  | PRaw bytes
  | PFollowDisplay nat
  | PForward message

datatype qos_call =
    QosImageQuality int | QosCustomFps nat | QosNetworkDelay nat | QosAutoAdjustFps nat | QosRecord bool | QosDelayElapsed int

datatype conn_effect =
    ToPeer peer_msg
  | ToCm cm_data
  | LoginOut auth_out
  | InputMouse mouse_event bool bool
  | InputPointer bytes
  | InputKey key_event bool
  | InputBlock bool
  | ClickTime
  | MouseMoveTime
  | UpdateClipboard "bytes list"
  | Subscribe string bool
  | SubscribeVideo bool nat bool
  | EnsureVideoService bool nat
  | CaptureVideo bool "nat list" bool bool
  | AddMonitorConnection "string list" nat
  | AddCameraConnection
  | TryActivateScreen
  | Qos qos_call
  | EncoderUpdate bytes
  | EncoderOnlyVp9
  | ChangeDisplay nat int int
  | ForceReboot
  | Reboot
  | StartAudioThread nat nat
  | PlayAudio bytes
  | VoiceCallInput bool
  | VideoFetched
  | RefreshVideoService "nat option"
  | TakeScreenshot bool nat string
  | PrivacyTurnOn string
  | PrivacyTurnOff bool
  | Whiteboard bool
  | LockScreen
  | ScopeAlarm string
  | FileAudit bool string "(string \<times> nat) list"
  | RemoveLogDir string int bool
  | RemoveLogFile string int int
  | MuxClosed port_forward_mux
  | LaunchSwitchSides string bytes
  | IpWhitelistAlarm
  | FrameFetched nat
  | FramesReleased

record privacy_env =
  pv_supported :: bool
  pv_is_in :: bool
  pv_conn_id :: "int option"
  pv_cur_impl :: "string option"
  pv_pre_is_current :: bool
  pv_turn_on :: "(string + bool) option"
  pv_is_in_after :: bool
  pv_check_err :: string
  pv_turn_off :: "(string + unit) option"

record session_env =
  ev_auth :: auth_env
  ev_opts :: "string \<Rightarrow> string"
  ev_builtin :: "string \<Rightarrow> string"
  ev_server :: bool
  ev_my_id :: string
  ev_is_direct_ip :: "string \<Rightarrow> bool"
  ev_connect_ok :: bool
  ev_login_screen_error :: string
  ev_displays :: "string + nat"
  ev_source_count :: nat
  ev_display_exists :: "nat \<Rightarrow> bool"
  ev_display_changed_msg :: bool
  ev_subbed_displays :: nat
  ev_cursor_data :: "nat \<Rightarrow> bool"
  ev_dir_exists :: "string \<Rightarrow> bool"
  ev_listing :: "string \<Rightarrow> bool \<Rightarrow> string + file_entry list"
  ev_max_files :: nat
  ev_fs_meta :: "string \<Rightarrow> fs_meta"
  ev_open_err :: "string \<Rightarrow> string option"
  ev_seek_ok :: bool
  ev_fs :: fs_state
  ev_terminal :: open_env
  ev_new_service_id :: string
  ev_privacy :: privacy_env
  ev_modifier_key :: "nat \<Rightarrow> nat option"
  ev_whiteboard_supported :: bool
  ev_session_reconnected :: bool
  ev_another_remote :: bool

definition ev_now :: "session_env \<Rightarrow> int" where
  "ev_now e = ae_now (ev_auth e)"

section \<open>Input\<close>

definition is_left_up :: "mouse_event \<Rightarrow> bool" where
  "is_left_up evt = (let buttons = me_mask evt div 8; evt_type = me_mask evt mod 8 in buttons = 1 \<and> evt_type = 2)"

definition is_enter :: "key_event \<Rightarrow> bool" where
  "is_enter evt = (case ke_union evt of Some (KControlKey ck) \<Rightarrow> ck = 27 \<or> ck = 72 | _ \<Rightarrow> False)"

text \<open>\<open>common::is_modifier\<close>: Alt, Shift, Control, Meta and the keys on the right.\<close>

definition is_modifier :: "key_event \<Rightarrow> bool" where
  "is_modifier evt = (case ke_union evt of Some (KControlKey v) \<Rightarrow> v \<in> {1, 29, 4, 23, 75, 73, 74, 64} | _ \<Rightarrow> False)"

definition update_auto_disconnect_timer :: "session_env \<Rightarrow> session_conn \<Rightarrow> session_conn" where
  "update_auto_disconnect_timer e c =
     c\<lparr>sn_auto_disconnect_timer := map_option (\<lambda>(_, minute). (ev_now e, minute)) (sn_auto_disconnect_timer c)\<rparr>"

definition get_auto_disconnect_timer :: "session_env \<Rightarrow> (int \<times> nat) option" where
  "get_auto_disconnect_timer e =
     (if ev_opts e ''allow-auto-disconnect'' = ''Y'' then
        (let text = ev_opts e ''auto-disconnect-timeout'';
             digits = (case text of c # r \<Rightarrow> if c = CHR ''+'' then r else text | [] \<Rightarrow> []);
             parsed = (if digits \<noteq> [] \<and> list_all is_digit digits \<and> read_digits digits \<le> u64_max then read_digits digits else 10);
             minute = (if parsed = 0 then 10 else parsed)
         in Some (ev_now e, minute))
      else None)"

definition on_mouse :: "session_env \<Rightarrow> mouse_event \<Rightarrow> session_conn \<Rightarrow> conn_effect list \<times> session_conn" where
  "on_mouse e me c =
     (if is_authed_view_camera_conn c then ([], c)
      else let show_my_cursor = co_show_my_cursor (sn_opts c) in
        (if peer_keyboard_enabled c
         then [if is_left_up me then ClickTime else MouseMoveTime, InputMouse me True show_my_cursor]
         else if show_my_cursor then [InputMouse me False True]
         else [],
         update_auto_disconnect_timer e c))"

definition on_pointer :: "session_env \<Rightarrow> bytes \<Rightarrow> session_conn \<Rightarrow> conn_effect list \<times> session_conn" where
  "on_pointer e pde c =
     (if is_authed_view_camera_conn c then ([], c)
      else (if peer_keyboard_enabled c then [MouseMoveTime, InputPointer pde] else [], update_auto_disconnect_timer e c))"

text \<open>\<open>ev_modifier_key\<close> is \<open>keycode_to_rdev_key\<close> followed by the filter \<open>keyboard::is_modifier\<close>.\<close>

definition modifier_of :: "session_env \<Rightarrow> key_event \<Rightarrow> nat option" where
  "modifier_of e me =
     (if ke_mode me = 1 then ev_modifier_key e (case ke_union me of Some (KChr n) \<Rightarrow> n | _ \<Rightarrow> 0)
      else if ke_mode me = 2 then (case ke_union me of Some (KChr n) \<Rightarrow> ev_modifier_key e (n mod 65536) | _ \<Rightarrow> None)
      else None)"

definition key_is_press :: "session_env \<Rightarrow> key_event \<Rightarrow> bool" where
  "key_is_press e me = ((ke_press me \<or> ke_down me) \<and> \<not> (is_modifier me \<or> modifier_of e me \<noteq> None))"

definition on_key :: "session_env \<Rightarrow> key_event \<Rightarrow> session_conn \<Rightarrow> conn_effect list \<times> session_conn" where
  "on_key e me c =
     (if is_authed_view_camera_conn c then ([], c)
      else if \<not> peer_keyboard_enabled c then ([], update_auto_disconnect_timer e c)
      else
        let is_press = key_is_press e me;
            mods = (case modifier_of e me of
                      Some key \<Rightarrow> if is_press then List.insert key (sn_pressed_modifiers c) else removeAll key (sn_pressed_modifiers c)
                    | None \<Rightarrow> sn_pressed_modifiers c);
            input = (if is_press then
                       (case ke_union me of
                          Some (KUnicode _) \<Rightarrow> InputKey me False
                        | Some (KSeq _) \<Rightarrow> InputKey me False
                        | _ \<Rightarrow> InputKey me True)
                     else InputKey me False)
        in ((if is_enter me then [ClickTime] else []) @ [MouseMoveTime, input],
            update_auto_disconnect_timer e (c\<lparr>sn_pressed_modifiers := mods\<rparr>)))"

definition on_clipboards :: "bytes list \<Rightarrow> session_conn \<Rightarrow> conn_effect list" where
  "on_clipboards cbs c =
     (if should_handle_text_clipboard_message c \<and> clipboard_enabled c then [UpdateClipboard cbs] else [])"

section \<open>Files\<close>

definition can_enable_overwrite_detection :: "int \<Rightarrow> bool" where
  "can_enable_overwrite_detection version = (version \<ge> get_version_number ''1.1.10'')"

definition check_file_count_limit :: "session_env \<Rightarrow> nat \<Rightarrow> string option" where
  "check_file_count_limit e n =
     (if n > ev_max_files e
      then Some (''file transfer rejected: too many files ('' @ show_nat n @ '' files exceeds limit of '' @
             show_nat (ev_max_files e) @ ''). Adjust 'file-transfer-max-files' option to increase limit.'')
      else None)"

definition files_for_audit :: "job_type \<Rightarrow> file_entry list \<Rightarrow> (string \<times> nat) list" where
  "files_for_audit t files = map (\<lambda>f. (if t = JPrinter then ''Remote print'' else fe_name f, fe_size f)) files"

definition process_new_read_job :: "transfer_job \<Rightarrow> string \<Rightarrow> session_conn \<Rightarrow> conn_effect list \<times> session_conn" where
  "process_new_read_job job path c =
     ([ToPeer (PFileDir (tj_id job) path (tj_files job)),
       FileAudit False (if tj_type job = JPrinter then ''Remote print'' else path) (files_for_audit (tj_type job) (tj_files job))],
      c\<lparr>sn_read_jobs := sn_read_jobs c @ [job\<lparr>tj_is_remote := True, tj_conn_id := sn_id c\<rparr>]\<rparr>)"

definition create_and_start_read_job ::
  "session_env \<Rightarrow> int \<Rightarrow> job_type \<Rightarrow> data_source \<Rightarrow> int \<Rightarrow> bool \<Rightarrow> bool \<Rightarrow> string \<Rightarrow> bool \<Rightarrow> session_conn \<Rightarrow> conn_effect list \<times> session_conn" where
  "create_and_start_read_job e i ty src file_num include_hidden od path check_limit c =
     (case new_read (ev_listing e path include_hidden) i ty [] src file_num include_hidden False od of
        Inl err \<Rightarrow> ([ToPeer (PFileError i err 0)], c)
      | Inr job \<Rightarrow>
          (case (if check_limit then check_file_count_limit e (length (tj_files job)) else None) of
             Some msg \<Rightarrow> ([ToPeer (PFileError i msg (- 1))], c)
           | None \<Rightarrow> process_new_read_job job path c))"

definition overwrite_detection :: "session_conn \<Rightarrow> bool" where
  "overwrite_detection c = can_enable_overwrite_detection (get_version_number (lr_version (sn_lr c)))"

text \<open>The printed document a \<open>Send\<close> asks for is taken out of the list.\<close>

definition take_printer_data :: "string \<Rightarrow> (string \<times> bytes) list \<Rightarrow> (bytes \<times> (string \<times> bytes) list) option" where
  "take_printer_data path ps =
     (case List.extract (\<lambda>(p, _). p = path) ps of Some (xs, (_, d), ys) \<Rightarrow> Some (d, xs @ ys) | None \<Rightarrow> None)"

definition on_file_send :: "session_env \<Rightarrow> int \<Rightarrow> string \<Rightarrow> bool \<Rightarrow> int \<Rightarrow> int \<Rightarrow> session_conn \<Rightarrow> conn_effect list \<times> session_conn" where
  "on_file_send e i path include_hidden file_num file_type c =
     (case job_type_from_i32 file_type of
        JGeneric \<Rightarrow>
          (case create_and_start_read_job e i JGeneric (FilePath path) file_num include_hidden (overwrite_detection c) path True c of
             (effs, c1) \<Rightarrow> (effs, c1\<lparr>sn_file_transferred := True\<rparr>))
      | JPrinter \<Rightarrow>
          (case take_printer_data path (sn_printer_data c) of
             None \<Rightarrow> ([], c)
           | Some (d, rest) \<Rightarrow>
               (case create_and_start_read_job e i JPrinter (MemoryCursor d 0) file_num include_hidden True path False
                       (c\<lparr>sn_printer_data := rest\<rparr>) of
                  (effs, c1) \<Rightarrow> (effs, c1\<lparr>sn_file_transferred := True\<rparr>))))"

definition on_file_confirm :: "session_env \<Rightarrow> int \<Rightarrow> int \<Rightarrow> confirm_union \<Rightarrow> session_conn \<Rightarrow> conn_effect list \<times> session_conn" where
  "on_file_confirm e i file_num u c =
     (case List.extract (\<lambda>j. tj_id j = i) (sn_read_jobs c) of
        Some (xs, job, ys) \<Rightarrow>
          ([], c\<lparr>sn_read_jobs := xs @ confirm (ev_fs_meta e) (ev_open_err e) (ev_seek_ok e) file_num u (ev_fs e) job # ys\<rparr>)
      | None \<Rightarrow>
          if i \<in> set (sn_cm_read_job_ids c)
          then ([ToCm (CmFs (FsSendConfirmForRead i file_num (case u of CSkip b \<Rightarrow> b | _ \<Rightarrow> False) (case u of COffsetBlk n \<Rightarrow> n | _ \<Rightarrow> 0)))], c)
          else ([ToCm (CmFs (FsSendConfirm i file_num u))], c))"

definition on_file_cancel :: "int \<Rightarrow> session_conn \<Rightarrow> conn_effect list \<times> session_conn" where
  "on_file_cancel i c =
     ([ToCm (CmFs (FsCancelWrite i)), ToCm (CmFs (FsCancelRead i))] @
        (if get_job i (sn_read_jobs c) \<noteq> None then [ToCm (CmFileTransferLog ''transfer'')] else []),
      c\<lparr>sn_cm_read_job_ids := removeAll i (sn_cm_read_job_ids c), sn_read_jobs := remove_job i (sn_read_jobs c)\<rparr>)"

definition on_all_files :: "session_env \<Rightarrow> int \<Rightarrow> string \<Rightarrow> bool \<Rightarrow> conn_effect list" where
  "on_all_files e i path include_hidden =
     (case ev_listing e path include_hidden of
        Inl err \<Rightarrow> [ToPeer (PFileError i err (- 1))]
      | Inr files \<Rightarrow>
          (case check_file_count_limit e (length files) of
             Some msg \<Rightarrow> [ToPeer (PFileError i msg (- 1))]
           | None \<Rightarrow> [ToPeer (PFileDir i path files)]))"

definition one_way_job :: "file_action \<Rightarrow> int option" where
  "one_way_job fa =
     (case fa of
        FaSend i _ _ _ _ \<Rightarrow> Some i
      | FaRemoveFile i _ _ \<Rightarrow> Some i
      | FaRename i _ _ \<Rightarrow> Some i
      | FaCreate i _ \<Rightarrow> Some i
      | FaRemoveDir i _ _ \<Rightarrow> Some i
      | _ \<Rightarrow> None)"

definition do_file_action :: "session_env \<Rightarrow> file_action \<Rightarrow> session_conn \<Rightarrow> conn_effect list \<times> session_conn" where
  "do_file_action e fa c =
     (case fa of
        FaReadEmptyDirs path include_hidden \<Rightarrow> ([ToCm (CmFs (FsReadEmptyDirs path include_hidden))], c)
      | FaReadDir path include_hidden \<Rightarrow> ([ToCm (CmFs (FsReadDir path include_hidden))], c)
      | FaAllFiles i path include_hidden \<Rightarrow> (on_all_files e i path include_hidden, c)
      | FaSend i path include_hidden file_num file_type \<Rightarrow> on_file_send e i path include_hidden file_num file_type c
      | FaReceive i path files file_num total_size \<Rightarrow>
          ([ToCm (CmFs (FsNewWrite path i file_num (map (\<lambda>f. (fe_name f, fe_modified_time f)) files) (overwrite_detection c) total_size)),
            FileAudit True path (files_for_audit JGeneric files)],
           c\<lparr>sn_file_transferred := True\<rparr>)
      | FaRemoveDir i path recursive \<Rightarrow> ([ToCm (CmFs (FsRemoveDir path i recursive)), RemoveLogDir path i recursive], c)
      | FaRemoveFile i path file_num \<Rightarrow> ([ToCm (CmFs (FsRemoveFile path i file_num)), RemoveLogFile path i file_num], c)
      | FaCreate i path \<Rightarrow> ([ToCm (CmFs (FsCreateDir path i)), ToCm (CmFileTransferLog ''create_dir'')], c)
      | FaCancel i \<Rightarrow> on_file_cancel i c
      | FaSendConfirm i file_num u \<Rightarrow> on_file_confirm e i file_num u c
      | FaRename i path new_name \<Rightarrow> ([ToCm (CmFs (FsRename i path new_name)), ToCm (CmFileTransferLog ''rename'')], c))"

definition on_file_action :: "session_env \<Rightarrow> file_action option \<Rightarrow> session_conn \<Rightarrow> conn_effect list \<times> session_conn" where
  "on_file_action e fa c =
     (let handle_fa = (sn_file_transfer c \<noteq> None \<or>
            (case fa of Some (FaSend _ _ _ _ file_type) \<Rightarrow> job_type_from_i32 file_type = JPrinter | _ \<Rightarrow> False)) in
      if \<not> handle_fa then ([], c)
      else if sn_delayed_read_dir c \<noteq> None then
        ([], case fa of Some (FaReadDir path include_hidden) \<Rightarrow> c\<lparr>sn_delayed_read_dir := Some (path, include_hidden)\<rparr> | _ \<Rightarrow> c)
      else case fa of
        None \<Rightarrow> ([], c)
      | Some a \<Rightarrow>
          (case (if ev_builtin e ''one-way-file-transfer'' = ''Y'' then one_way_job a else None) of
             Some job_id \<Rightarrow> ([ToPeer (PFileError job_id ''one-way-file-transfer-tip'' 0)], c)
           | None \<Rightarrow> do_file_action e a c))"

definition on_file_response :: "file_response option \<Rightarrow> conn_effect list" where
  "on_file_response fr =
     (case fr of
        Some (FrBlock i file_num d compressed) \<Rightarrow> [ToCm (CmFs (FsWriteBlock i file_num d compressed))]
      | Some (FrDone i file_num) \<Rightarrow> [ToCm (CmFs (FsWriteDone i file_num))]
      | Some (FrDigest i file_num file_size last_modified is_resume) \<Rightarrow>
          [ToCm (CmFs (FsCheckDigest i file_num file_size last_modified True is_resume))]
      | Some (FrError i err file_num) \<Rightarrow> [ToCm (CmFs (FsWriteError i file_num err))]
      | _ \<Rightarrow> [])"

section \<open>Privacy mode, displays, voice calls\<close>

definition turn_off_privacy_result_to_msg :: "(string + unit) option \<Rightarrow> string \<Rightarrow> peer_msg" where
  "turn_off_privacy_result_to_msg r impl_key =
     (case r of
        Some (Inr _) \<Rightarrow> PPrivacy PrvOffSucceeded [] impl_key
      | Some (Inl err) \<Rightarrow> PPrivacy PrvOffFailed err impl_key
      | None \<Rightarrow> PPrivacy PrvOffFailed ''Not supported'' impl_key)"

definition privacy_unsupported :: string where
  "privacy_unsupported = ''Unsupported. 1 Multi-screen is not supported. 2 Please confirm the license is activated.''"

text \<open>\<open>PrivacyTurnOff own\<close> is the call of \<open>privacy_mode::turn_off_privacy\<close>, with this connection's id or with
  \<open>INVALID_PRIVACY_MODE_CONN_ID\<close>.\<close>

definition turn_on_privacy :: "session_env \<Rightarrow> string \<Rightarrow> session_conn \<Rightarrow> conn_effect list" where
  "turn_on_privacy e impl_key c =
     (if \<not> is_authed_remote_conn c \<or> \<not> cp_privacy_mode (sn_perms c)
      then [ToPeer (PPrivacy PrvOnFailedDenied [] impl_key)]
      else let pv = ev_privacy e in
        if \<not> pv_supported pv then [ToPeer (PPrivacy PrvNotSupported privacy_unsupported impl_key)]
        else
          (if pv_is_in pv then
             (case pv_cur_impl pv of
                Some pre \<Rightarrow> if \<not> pv_pre_is_current pv then [ToPeer (PPrivacy PrvOffSucceeded [] pre)] else []
              | None \<Rightarrow> [])
           else []) @
          PrivacyTurnOn impl_key #
          (case pv_turn_on pv of
             Some (Inr True) \<Rightarrow>
               if pv_check_err pv = [] then [ToPeer (PPrivacy PrvOnSucceeded [] impl_key)]
               else [PrivacyTurnOff True, ToPeer (PPrivacy PrvOnFailed (pv_check_err pv) impl_key)]
           | Some (Inr False) \<Rightarrow> [ToPeer (PPrivacy PrvOnFailed [] impl_key)]
           | Some (Inl err) \<Rightarrow>
               (if pv_is_in_after pv then [PrivacyTurnOff False] else []) @ [ToPeer (PPrivacy PrvOnFailed err impl_key)]
           | None \<Rightarrow> [ToPeer (PPrivacy PrvOffFailed ''Not supported'' impl_key)]))"

definition turn_off_privacy :: "session_env \<Rightarrow> string \<Rightarrow> conn_effect list" where
  "turn_off_privacy e impl_key =
     (if \<not> pv_supported (ev_privacy e) then [ToPeer (PPrivacy PrvNotSupported privacy_unsupported impl_key)]
      else [PrivacyTurnOff True, ToPeer (turn_off_privacy_result_to_msg (pv_turn_off (ev_privacy e)) impl_key)])"

definition toggle_privacy_mode :: "session_env \<Rightarrow> string \<Rightarrow> bool \<Rightarrow> session_conn \<Rightarrow> conn_effect list" where
  "toggle_privacy_mode e impl_key on c = (if on then turn_on_privacy e impl_key c else turn_off_privacy e impl_key)"

definition change_resolution :: "session_env \<Rightarrow> nat option \<Rightarrow> int \<Rightarrow> int \<Rightarrow> session_conn \<Rightarrow> conn_effect list" where
  "change_resolution e d w h c =
     (let display_idx = (case d of Some n \<Rightarrow> n | None \<Rightarrow> sn_display_idx c) in
      if cp_keyboard (sn_perms c) \<and> ev_display_exists e display_idx then [ChangeDisplay display_idx w h] else [])"

definition is_support_multi_ui_session :: "string \<Rightarrow> bool" where
  "is_support_multi_ui_session ver = (get_version_number ver \<ge> get_version_number ''1.2.4'')"

definition switch_display_to :: "session_env \<Rightarrow> nat \<Rightarrow> session_conn \<Rightarrow> (conn_effect list \<times> session_conn) option" where
  "switch_display_to e display_idx c =
     (if display_idx \<ge> ev_source_count e then None
      else Some (EnsureVideoService (sn_view_camera c) display_idx #
                 (if \<not> is_support_multi_ui_session (lr_version (sn_lr c))
                  then [SubscribeVideo (sn_view_camera c) (sn_display_idx c) False] else []) @
                 [SubscribeVideo (sn_view_camera c) display_idx True],
                 c\<lparr>sn_display_idx := display_idx\<rparr>))"

definition display_changed :: "session_env \<Rightarrow> nat \<Rightarrow> conn_effect list" where
  "display_changed e d = (if ev_display_changed_msg e then [ToPeer (PDisplayChanged d)] else [])"

definition handle_switch_display :: "session_env \<Rightarrow> nat \<Rightarrow> int \<Rightarrow> int \<Rightarrow> session_conn \<Rightarrow> conn_effect list \<times> session_conn" where
  "handle_switch_display e display_idx width height c =
     (if sn_display_idx c = display_idx then ([], c)
      else if \<not> ev_server e then (display_changed e (sn_display_idx c), c)
      else case switch_display_to e display_idx c of
        None \<Rightarrow> ([], c)
      | Some (effs, c1) \<Rightarrow>
          (effs @ (if \<not> sn_view_camera c1 \<and> width \<noteq> 0 \<and> height \<noteq> 0 then change_resolution e None width height c1 else []) @
           display_changed e (sn_display_idx c1), c1))"

definition capture_displays :: "session_env \<Rightarrow> nat list \<Rightarrow> nat list \<Rightarrow> nat list \<Rightarrow> session_conn \<Rightarrow> conn_effect list \<times> session_conn" where
  "capture_displays e add sub set1 c =
     (let cam = sn_view_camera c; n = ev_source_count e;
          valid_add = filter (\<lambda>d. d < n) add; valid_sub = filter (\<lambda>d. d < n) sub; valid_set = filter (\<lambda>d. d < n) set1 in
      if (add \<noteq> [] \<and> valid_add = []) \<or> (add = [] \<and> sub \<noteq> [] \<and> valid_sub = []) \<or>
         (add = [] \<and> sub = [] \<and> set1 \<noteq> [] \<and> valid_set = [])
      then ([], c)
      else if \<not> ev_server e then ([], c)
      else let multi = ev_subbed_displays e > 1 in
        (map (EnsureVideoService cam) valid_add @ map (EnsureVideoService cam) valid_set @
         [if add \<noteq> [] then CaptureVideo cam valid_add True False
          else if sub \<noteq> [] then CaptureVideo cam valid_sub False True
          else CaptureVideo cam valid_set True True] @
         (if co_follow_remote_window (sn_opts c) then [Subscribe ''window_focus'' (\<not> multi)] else []),
         c\<lparr>sn_multi_ui_session := multi\<rparr>))"

definition close_voice_call :: "session_env \<Rightarrow> session_conn \<Rightarrow> conn_effect list \<times> session_conn" where
  "close_voice_call e c =
     ([VoiceCallInput False, ToCm CmCloseVoiceCall] @
        (if is_authed_view_camera_conn c \<and> ev_server e then [Subscribe ''audio'' False] else []),
      c\<lparr>sn_voice_calling := False\<rparr>)"

definition handle_voice_call :: "session_env \<Rightarrow> bool \<Rightarrow> session_conn \<Rightarrow> conn_effect list \<times> session_conn" where
  "handle_voice_call e accepted c =
     (case sn_voice_call_request_timestamp c of
        None \<Rightarrow> ([], c)
      | Some ts \<Rightarrow>
          ((if accepted then [VoiceCallInput True, ToCm CmStartVoiceCall] else [ToCm CmCloseVoiceCall]) @
           [ToPeer (PVoiceCallResponse ts accepted)] @
           (if is_authed_view_camera_conn c \<and> ev_server e then [Subscribe ''audio'' (audio_enabled c \<and> accepted)] else []),
           c\<lparr>sn_voice_call_request_timestamp := None, sn_voice_calling := accepted\<rparr>))"

definition on_voice_call_request :: "session_env \<Rightarrow> int \<Rightarrow> bool \<Rightarrow> session_conn \<Rightarrow> conn_effect list \<times> session_conn" where
  "on_voice_call_request e req_timestamp is_connect c =
     (if is_connect
      then ([ToCm CmVoiceCallIncoming],
            c\<lparr>sn_voice_call_request_timestamp := Some (if req_timestamp \<noteq> 0 then req_timestamp else ev_now e)\<rparr>)
      else close_voice_call e c)"

section \<open>Options\<close>

text \<open>\<open>if let Ok(q) = field.enum_value() { if q != NotSet \<dots> }\<close>: the value of a field that is set.\<close>

definition set_option :: "int \<Rightarrow> bool option" where
  "set_option v = (case bool_option_value v of Some BoYes \<Rightarrow> Some True | Some BoNo \<Rightarrow> Some False | _ \<Rightarrow> None)"

definition image_quality_effects :: "option_message \<Rightarrow> conn_effect list" where
  "image_quality_effects o1 =
     (case image_quality_value (om_image_quality o1) of
        None \<Rightarrow> []
      | Some q \<Rightarrow>
          (let v = (if q = IqNotSet then (if om_custom_image_quality o1 > 0 then om_custom_image_quality o1 else - 1)
                    else om_image_quality o1)
           in if v > 0 then [Qos (QosImageQuality v)] else []))"

definition video_option_effects :: "option_message \<Rightarrow> conn_effect list" where
  "video_option_effects o1 =
     image_quality_effects o1 @
     (if om_custom_fps o1 > 0 then [Qos (QosCustomFps (nat (om_custom_fps o1)))] else []) @
     (case om_supported_decoding o1 of Some q \<Rightarrow> [EncoderUpdate q] | None \<Rightarrow> [])"

definition set_opts :: "(conn_opts \<Rightarrow> conn_opts) \<Rightarrow> session_conn \<Rightarrow> session_conn" where
  "set_opts f c = c\<lparr>sn_opts := f (sn_opts c)\<rparr>"

definition subs :: "session_env \<Rightarrow> (string \<times> bool) list \<Rightarrow> conn_effect list" where
  "subs e xs = (if ev_server e then map (\<lambda>(n, b). Subscribe n b) xs else [])"

definition upd_lock :: "option_message \<Rightarrow> session_conn \<Rightarrow> session_conn" where
  "upd_lock o1 c = (case set_option (om_lock_after_session_end o1) of Some b \<Rightarrow> set_opts (co_lock_after_session_end_update (\<lambda>_. b)) c | None \<Rightarrow> c)"

definition upd_show_remote_cursor :: "session_env \<Rightarrow> option_message \<Rightarrow> session_conn \<Rightarrow> conn_effect list \<times> session_conn" where
  "upd_show_remote_cursor e o1 c =
     (case set_option (om_show_remote_cursor o1) of
        Some b \<Rightarrow>
          (let c1 = set_opts (co_show_remote_cursor_update (\<lambda>_. b)) c
           in (subs e [(''mouse_cursor'', peer_keyboard_enabled c1 \<or> b), (''mouse_pos'', b)], c1))
      | None \<Rightarrow> ([], c))"

definition upd_follow_remote_cursor :: "option_message \<Rightarrow> session_conn \<Rightarrow> session_conn" where
  "upd_follow_remote_cursor o1 c =
     (case set_option (om_follow_remote_cursor o1) of Some b \<Rightarrow> set_opts (co_follow_remote_cursor_update (\<lambda>_. b)) c | None \<Rightarrow> c)"

definition upd_follow_remote_window :: "session_env \<Rightarrow> option_message \<Rightarrow> session_conn \<Rightarrow> conn_effect list \<times> session_conn" where
  "upd_follow_remote_window e o1 c =
     (case set_option (om_follow_remote_window o1) of
        Some b \<Rightarrow> (subs e [(''window_focus'', b)], set_opts (co_follow_remote_window_update (\<lambda>_. b)) c)
      | None \<Rightarrow> ([], c))"

definition sub_audio :: "session_env \<Rightarrow> session_conn \<Rightarrow> conn_effect list" where
  "sub_audio e c =
     (if is_authed_view_camera_conn c
      then (if sn_voice_calling c \<or> \<not> audio_enabled c then subs e [(''audio'', audio_enabled c)] else [])
      else subs e [(''audio'', audio_enabled c)])"

definition upd_disable_audio :: "session_env \<Rightarrow> option_message \<Rightarrow> session_conn \<Rightarrow> conn_effect list \<times> session_conn" where
  "upd_disable_audio e o1 c =
     (case set_option (om_disable_audio o1) of
        Some b \<Rightarrow> (let c1 = set_opts (co_disable_audio_update (\<lambda>_. b)) c in (sub_audio e c1, c1))
      | None \<Rightarrow> ([], c))"

definition upd_disable_clipboard :: "session_env \<Rightarrow> option_message \<Rightarrow> session_conn \<Rightarrow> conn_effect list \<times> session_conn" where
  "upd_disable_clipboard e o1 c =
     (case set_option (om_disable_clipboard o1) of
        Some b \<Rightarrow>
          (let c1 = set_opts (co_disable_clipboard_update (\<lambda>_. b)) c
           in (subs e [(''clipboard'', can_sub_clipboard_service (ev_builtin e) c1)], c1))
      | None \<Rightarrow> ([], c))"

definition upd_disable_keyboard :: "session_env \<Rightarrow> option_message \<Rightarrow> session_conn \<Rightarrow> conn_effect list \<times> session_conn" where
  "upd_disable_keyboard e o1 c =
     (case set_option (om_disable_keyboard o1) of
        Some b \<Rightarrow>
          (let c1 = set_opts (co_disable_keyboard_update (\<lambda>_. b)) c
           in (subs e [(''clipboard'', can_sub_clipboard_service (ev_builtin e) c1),
                       (''mouse_cursor'', peer_keyboard_enabled c1 \<or> co_show_remote_cursor (sn_opts c1))], c1))
      | None \<Rightarrow> ([], c))"

definition privacy_option_effects :: "session_env \<Rightarrow> option_message \<Rightarrow> session_conn \<Rightarrow> conn_effect list" where
  "privacy_option_effects e o1 c =
     (if get_version_number (lr_version (sn_lr c)) < get_version_number ''1.2.4'' \<and> cp_keyboard (sn_perms c) then
        (case bool_option_value (om_privacy_mode o1) of
           Some BoYes \<Rightarrow> turn_on_privacy e [] c
         | Some BoNo \<Rightarrow> turn_off_privacy e []
         | _ \<Rightarrow> [])
      else [])"

definition block_input_effects :: "option_message \<Rightarrow> session_conn \<Rightarrow> conn_effect list" where
  "block_input_effects o1 c =
     (case bool_option_value (om_block_input o1) of
        None \<Rightarrow> []
      | Some q \<Rightarrow>
          if cp_keyboard (sn_perms c) \<and> cp_block_input (sn_perms c) then
            (case q of BoYes \<Rightarrow> [InputBlock True] | BoNo \<Rightarrow> [InputBlock False] | BoNotSet \<Rightarrow> [])
          else if q \<noteq> BoNotSet then [ToPeer (PBlockInputError (q = BoYes) ''No permission'')]
          else [])"

definition upd_terminal_persistence :: "option_message \<Rightarrow> session_conn \<Rightarrow> term_world \<Rightarrow> session_conn \<times> term_world" where
  "upd_terminal_persistence o1 c tw =
     (case set_option (om_terminal_persistent o1) of
        Some b \<Rightarrow> (c\<lparr>sn_terminal_persistent := b\<rparr>, snd (set_persistent (sn_terminal_service_id c) b tw))
      | None \<Rightarrow> (c, tw))"

definition whiteboard_unsupported :: string where
  "whiteboard_unsupported =
     ''This feature is not supported on native Wayland, please install XWayland or switch to X11.''"

definition upd_show_my_cursor :: "session_env \<Rightarrow> option_message \<Rightarrow> session_conn \<Rightarrow> conn_effect list \<times> session_conn" where
  "upd_show_my_cursor e o1 c =
     (case set_option (om_show_my_cursor o1) of
        Some b \<Rightarrow>
          (if ev_whiteboard_supported e then [Whiteboard b]
           else if b then [ToPeer (PMessageBox ''Show my cursor'' whiteboard_unsupported)] else [],
           set_opts (co_show_my_cursor_update (\<lambda>_. b)) c)
      | None \<Rightarrow> ([], c))"

definition update_options :: "session_env \<Rightarrow> option_message \<Rightarrow> session_conn \<Rightarrow> term_world \<Rightarrow> conn_effect list \<times> session_conn \<times> term_world" where
  "update_options e o1 c tw =
     (let c1 = upd_lock o1 c;
          (f2, c2) = upd_show_remote_cursor e o1 c1;
          c3 = upd_follow_remote_cursor o1 c2;
          (f4, c4) = upd_follow_remote_window e o1 c3;
          (f5, c5) = upd_disable_audio e o1 c4;
          (f6, c6) = upd_disable_clipboard e o1 c5;
          (f7, c7) = upd_disable_keyboard e o1 c6;
          f8 = privacy_option_effects e o1 c7;
          f9 = block_input_effects o1 c7;
          (c8, tw1) = upd_terminal_persistence o1 c7 tw;
          (f10, c9) = upd_show_my_cursor e o1 c8
      in (video_option_effects o1 @ f2 @ f4 @ f5 @ f6 @ f7 @ f8 @ f9 @ f10, c9, tw1))"

section \<open>Terminals, tunnel, end of a connection\<close>

definition handle_terminal_action :: "session_env \<Rightarrow> terminal_action \<Rightarrow> session_conn \<Rightarrow> term_world \<Rightarrow> conn_effect list \<times> term_world" where
  "handle_terminal_action e act c tw =
     (case ac_terminal_token (sn_auth c) of
        None \<Rightarrow> ([], tw)
      | Some _ \<Rightarrow>
          (case handle_action (nat (ev_now e)) (ev_terminal e)
                  (proxy_new (sn_terminal_service_id c) (Some (sn_terminal_persistent c)) tw) act tw of
             (Inr (Some response), tw1) \<Rightarrow> ([ToPeer (PTerminal response)], tw1)
           | (Inr None, tw1) \<Rightarrow> ([], tw1)
           | (Inl err, tw1) \<Rightarrow> ([ToPeer (PTerminal (RError (''Failed to handle action: '' @ err)))], tw1)))"

definition handle_port_forward_channel :: "session_env \<Rightarrow> pf_frame \<Rightarrow> session_conn \<Rightarrow> session_conn" where
  "handle_port_forward_channel e ch c =
     (case sn_port_forward_mux c of
        None \<Rightarrow> c
      | Some mux \<Rightarrow> c\<lparr>sn_port_forward_mux := Some (pm_handle ch (permission (ev_opts e) (sn_control_permissions c) ''enable-tunnel'') mux)\<rparr>)"

record session_world =
  sw_auth :: auth_state
  sw_term :: term_world
  sw_switch_sides :: "(string \<times> (int \<times> bytes)) list"
  sw_pending_switch :: "(string \<times> (int \<times> bytes \<times> bool)) list"

definition check_remove_session :: "session_env \<Rightarrow> session_conn \<Rightarrow> session_world \<Rightarrow> session_world" where
  "check_remove_session e c w =
     (if hm_contains (as_sessions (sw_auth w)) (ac_key (sn_auth c)) \<and> (is_authed_remote_conn c \<or> \<not> ev_another_remote e)
      then w\<lparr>sw_auth := (sw_auth w)\<lparr>as_sessions := hm_remove (ac_key (sn_auth c)) (as_sessions (sw_auth w))\<rparr>\<rparr>
      else w)"

definition send_close_reason_no_retry :: "session_env \<Rightarrow> string \<Rightarrow> session_conn \<Rightarrow> session_world \<Rightarrow> conn_effect list \<times> session_world" where
  "send_close_reason_no_retry e reason c w =
     ([ToPeer (PCloseReason (if reason = [] then ''Closed manually by the peer'' else reason))], check_remove_session e c w)"

definition on_close :: "session_env \<Rightarrow> bool \<Rightarrow> session_conn \<Rightarrow> conn_effect list \<times> session_conn" where
  "on_close e lock c =
     (if sn_closed c then ([], c)
      else
        ([VoiceCallInput False] @
         (if lock \<and> co_lock_after_session_end (sn_opts c) \<and> cp_keyboard (sn_perms c) \<and> \<not> ev_session_reconnected e
          then [LockScreen] else []) @
         [ToCm (if sn_chat_unanswered c \<or> sn_file_transferred c then CmDisconnected else CmClose)] @
         (case sn_port_forward_mux c of Some mux \<Rightarrow> [MuxClosed (pm_close_all mux)] | None \<Rightarrow> []),
         c\<lparr>sn_closed := True, sn_port_forward_socket := False, sn_port_forward_mux := None\<rparr>))"

definition get_bool_option :: "session_env \<Rightarrow> string \<Rightarrow> bool" where
  "get_bool_option e k = option2bool k (ev_opts e k)"

definition handle_authorized_scope_violation ::
  "session_env \<Rightarrow> string \<Rightarrow> session_conn \<Rightarrow> session_world \<Rightarrow> bool \<times> conn_effect list \<times> session_conn \<times> session_world" where
  "handle_authorized_scope_violation e msg c w =
     (let is_first = (msg \<notin> set (sn_scope_violation_messages c));
          c1 = c\<lparr>sn_scope_violation_messages := List.insert msg (sn_scope_violation_messages c)\<rparr>;
          alarm = (if is_first \<and> get_bool_option e ''allow-scope-violation-alarm'' then [ScopeAlarm msg] else [])
      in if get_bool_option e ''allow-scope-violation-close'' then
           (case send_close_reason_no_retry e ''Connection not allowed'' c1 w of
              (f1, w1) \<Rightarrow> (case on_close e True c1 of (f2, c2) \<Rightarrow> (False, alarm @ f1 @ f2, c2, w1)))
         else (True, alarm, c1, w))"

definition SWITCH_SIDES_UUID_TTL :: int where "SWITCH_SIDES_UUID_TTL = 10000"

definition insert_pending_switch_sides_uuid ::
  "int \<Rightarrow> string \<Rightarrow> bytes \<Rightarrow> (string \<times> (int \<times> bytes \<times> bool)) list \<Rightarrow> bool \<times> (string \<times> (int \<times> bytes \<times> bool)) list" where
  "insert_pending_switch_sides_uuid now i uuid m =
     (let m1 = hm_retain (\<lambda>_ (instant, _, _). now - instant < SWITCH_SIDES_UUID_TTL) m in
      if map_option (\<lambda>(_, stored, _). stored) (hm_get m1 i) = Some uuid then (False, m1)
      else (True, hm_insert i (now, uuid, False) m1))"

definition has_pending_switch_sides_uuid ::
  "int \<Rightarrow> string \<Rightarrow> bytes \<Rightarrow> (string \<times> (int \<times> bytes \<times> bool)) list \<Rightarrow> bool \<times> (string \<times> (int \<times> bytes \<times> bool)) list" where
  "has_pending_switch_sides_uuid now i uuid m =
     (let m1 = hm_retain (\<lambda>_ (instant, _, _). now - instant < SWITCH_SIDES_UUID_TTL) m in
      (map_option (\<lambda>(_, stored, claimed). stored = uuid \<and> \<not> claimed) (hm_get m1 i) = Some True, m1))"

definition claim_pending_switch_sides_uuid ::
  "int \<Rightarrow> string \<Rightarrow> bytes \<Rightarrow> (string \<times> (int \<times> bytes \<times> bool)) list \<Rightarrow> bool \<times> (string \<times> (int \<times> bytes \<times> bool)) list" where
  "claim_pending_switch_sides_uuid now i uuid m =
     (let m1 = hm_retain (\<lambda>_ (instant, _, _). now - instant < SWITCH_SIDES_UUID_TTL) m in
      case hm_get m1 i of
        Some (instant, stored, claimed) \<Rightarrow>
          if stored = uuid \<and> \<not> claimed then (True, hm_insert i (instant, stored, True) m1) else (False, m1)
      | None \<Rightarrow> (False, m1))"

definition on_switch_sides_request ::
  "session_env \<Rightarrow> bytes \<Rightarrow> session_conn \<Rightarrow> session_world \<Rightarrow> bool \<times> conn_effect list \<times> session_conn \<times> session_world" where
  "on_switch_sides_request e uuid c w =
     (if length uuid \<noteq> 16 then (True, [], c, w)
      else case insert_pending_switch_sides_uuid (ev_now e) (lr_my_id (sn_lr c)) uuid (sw_pending_switch w) of
        (fresh, m) \<Rightarrow>
          (case on_close e False c of
             (f, c1) \<Rightarrow> (False, (if fresh then [LaunchSwitchSides (lr_my_id (sn_lr c)) uuid] else []) @ f, c1, w\<lparr>sw_pending_switch := m\<rparr>)))"

section \<open>Dispatch\<close>

definition on_option :: "session_env \<Rightarrow> option_message \<Rightarrow> session_conn \<Rightarrow> term_world \<Rightarrow> conn_effect list \<times> session_conn \<times> term_world" where
  "on_option e o1 c tw =
     (if authed_conn_type c = Some ConnRemote then update_options e o1 c tw
      else case scoped_update_option_message c o1 of
        Some o2 \<Rightarrow> update_options e o2 c tw
      | None \<Rightarrow> ([], c, tw))"

definition misc_effects :: "session_env \<Rightarrow> misc_union \<Rightarrow> session_conn \<Rightarrow> conn_effect list \<times> session_conn" where
  "misc_effects e m c =
     (case m of
        SwitchDisplay d w h \<Rightarrow> handle_switch_display e d w h c
      | CaptureDisplays add sub set1 \<Rightarrow> capture_displays e add sub set1 c
      | TogglePrivacyMode impl_key on \<Rightarrow> (if \<not> sn_view_camera c then toggle_privacy_mode e impl_key on c else [], c)
      | ChatMessage text \<Rightarrow> ([ToCm (CmChatMessage text)], update_auto_disconnect_timer e (c\<lparr>sn_chat_unanswered := True\<rparr>))
      | RefreshVideo r \<Rightarrow>
          if should_handle_render_broadcast_message c
          then (if r then [RefreshVideoService None] else [], update_auto_disconnect_timer e c) else ([], c)
      | RefreshVideoDisplay d \<Rightarrow>
          if should_handle_render_broadcast_message c
          then ([RefreshVideoService (Some d)], update_auto_disconnect_timer e c) else ([], c)
      | VideoReceived _ \<Rightarrow> ([VideoFetched], c)
      | RestartRemoteDevice _ \<Rightarrow> (if cp_restart (sn_perms c) then [ForceReboot, Reboot] else [], c)
      | AudioFormat rate channels \<Rightarrow>
          if \<not> co_disable_audio (sn_opts c) then ([StartAudioThread rate channels], c\<lparr>sn_audio_sender := True\<rparr>) else ([], c)
      | ChangeResolution w h \<Rightarrow> (if \<not> sn_view_camera c then change_resolution e None w h c else [], c)
      | ChangeDisplayResolution d w h \<Rightarrow> (if \<not> sn_view_camera c then change_resolution e (Some d) w h c else [], c)
      | AutoAdjustFps fps \<Rightarrow> ([Qos (QosAutoAdjustFps fps)], c)
      | ClientRecordStatus status \<Rightarrow> ([Qos (QosRecord status)], c)
      | MessageQuery d \<Rightarrow> (display_changed e d, c)
      | RequestCursorData i \<Rightarrow>
          (if is_remote c \<and> (peer_keyboard_enabled c \<or> co_show_remote_cursor (sn_opts c)) \<and> ev_cursor_data e i
           then [ToPeer (PCursorData i)] else [], c)
      | _ \<Rightarrow> ([], c))"

definition keep_on :: "conn_effect list \<times> session_conn \<Rightarrow> session_world \<Rightarrow> bool \<times> conn_effect list \<times> session_conn \<times> session_world" where
  "keep_on r w = (True, fst r, snd r, w)"

definition on_misc ::
  "session_env \<Rightarrow> misc_union option \<Rightarrow> session_conn \<Rightarrow> session_world \<Rightarrow> bool \<times> conn_effect list \<times> session_conn \<times> session_world" where
  "on_misc e m c w =
     (case m of
        Some (OptionMsg o1) \<Rightarrow> (case on_option e o1 c (sw_term w) of (f, c1, tw) \<Rightarrow> (True, f, c1, w\<lparr>sw_term := tw\<rparr>))
      | Some (SwitchSidesRequest uuid) \<Rightarrow> on_switch_sides_request e uuid c w
      | Some m1 \<Rightarrow> keep_on (misc_effects e m1 c) w
      | None \<Rightarrow> (True, [], c, w))"

definition screenshot :: "nat \<Rightarrow> string \<Rightarrow> session_conn \<Rightarrow> conn_effect list" where
  "screenshot d sid c = [TakeScreenshot (sn_view_camera c) d sid, RefreshVideoService (Some d)]"

text \<open>The branch of \<open>on_message\<close> for an authorised connection.\<close>

definition dispatch ::
  "session_env \<Rightarrow> message \<Rightarrow> session_conn \<Rightarrow> session_world \<Rightarrow> bool \<times> conn_effect list \<times> session_conn \<times> session_world" where
  "dispatch e msg c w =
     (if sn_port_forward_socket c then (True, [], c, w)
      else case msg of
        Some (MouseEvent me) \<Rightarrow> keep_on (on_mouse e me c) w
      | Some (PointerDeviceEvent pde) \<Rightarrow> keep_on (on_pointer e pde c) w
      | Some (KeyEvent me) \<Rightarrow> keep_on (on_key e me c) w
      | Some (Clipboard cb) \<Rightarrow> keep_on (on_clipboards [cb] c, c) w
      | Some (MultiClipboards cbs) \<Rightarrow> keep_on (on_clipboards cbs c, c) w
      | Some (FileAction fa) \<Rightarrow> keep_on (on_file_action e fa c) w
      | Some (FileResponse fr) \<Rightarrow> keep_on (on_file_response fr, c) w
      | Some (Misc m) \<Rightarrow> on_misc e m c w
      | Some (AudioFrame frame) \<Rightarrow>
          keep_on (if \<not> co_disable_audio (sn_opts c) \<and> sn_audio_sender c then [PlayAudio frame] else [], c) w
      | Some (VoiceCallRequest ts is_connect) \<Rightarrow> keep_on (on_voice_call_request e ts is_connect c) w
      | Some (ScreenshotRequest d sid) \<Rightarrow> keep_on (screenshot d sid c, c) w
      | Some (PortForwardChannel ch) \<Rightarrow> keep_on ([], handle_port_forward_channel e ch c) w
      | Some (TerminalAction act) \<Rightarrow>
          (case handle_terminal_action e act c (sw_term w) of (f, tw) \<Rightarrow> (True, f, c, w\<lparr>sw_term := tw\<rparr>))
      | _ \<Rightarrow> (True, [], c, w))"

end
