(* ===== verification/Session_Login.thy ===== *)
theory Session_Login
  imports Session_Dispatch
begin

text \<open>
  A connection from its start to its end, \<open>src/server/connection.rs\<close>: the initial permissions, the
  login request with its scope, what follows an authorisation (the type of the session, the tunnel,
  the login options, the services), two-factor codes, the switch of sides and \<open>on_message\<close> as a whole.  The decision about a password is that of \<open>Password_Auth\<close>, the ID
  whitelist that of \<open>Login_Policy\<close>.
\<close>

section \<open>Start of a connection\<close>

definition initial_perms :: "(string \<Rightarrow> string) \<Rightarrow> u64 option \<Rightarrow> conn_perms" where
  "initial_perms opts cp =
     \<lparr>cp_keyboard = permission opts cp ''enable-keyboard'', cp_clipboard = permission opts cp ''enable-clipboard'',
      cp_audio = permission opts cp ''enable-audio'', cp_file = permission opts cp ''enable-file-transfer'',
      cp_restart = permission opts cp ''enable-remote-restart'', cp_recording = permission opts cp ''enable-record-session'',
      cp_block_input = permission opts cp ''enable-block-input'', cp_privacy_mode = permission opts cp ''enable-privacy-mode''\<rparr>"

definition initial_opts :: conn_opts where
  "initial_opts =
     \<lparr>co_lock_after_session_end = False, co_show_remote_cursor = False, co_follow_remote_cursor = False,
      co_follow_remote_window = False, co_disable_audio = False, co_disable_clipboard = False,
      co_disable_keyboard = False, co_show_my_cursor = False\<rparr>"

definition initial_auth :: "string \<Rightarrow> bytes \<Rightarrow> bytes \<Rightarrow> bool \<Rightarrow> auth_conn" where
  "initial_auth ip salt challenge require_2fa =
     \<lparr>ac_ip = ip, ac_salt = salt, ac_challenge = challenge, ac_lr_password = [], ac_key = ([], [], 0), ac_platform = [],
      ac_require_2fa = require_2fa, ac_awaiting_2fa = False, ac_from_switch = False, ac_terminal = False,
      ac_terminal_token = None, ac_os_username = [], ac_authorized = False, ac_has_place = True,
      ac_primary = PaNone, ac_two_factor = TfNone\<rparr>"

definition new_conn :: "int \<Rightarrow> int \<Rightarrow> auth_conn \<Rightarrow> (string \<Rightarrow> string) \<Rightarrow> u64 option \<Rightarrow> session_conn" where
  "new_conn now i a opts cp =
     \<lparr>sn_id = i, sn_auth = a, sn_lr = login_request_default, sn_login_scope = None, sn_options_in_login = None,
      sn_file_transfer = None, sn_view_camera = False, sn_port_forward_socket = False, sn_port_forward_mux = None,
      sn_port_forward_address = [], sn_terminal_service_id = [], sn_terminal_persistent = False,
      sn_authed_conn_id = None, sn_control_permissions = cp, sn_perms = initial_perms opts cp, sn_opts = initial_opts,
      sn_video_ack_required = False, sn_last_test_delay = None, sn_network_delay = 0, sn_chat_unanswered = False,
      sn_file_transferred = False, sn_closed = False, sn_audio_sender = False, sn_voice_call_request_timestamp = None,
      sn_voice_calling = False, sn_services_subed = False, sn_display_idx = 0, sn_multi_ui_session = False,
      sn_delayed_read_dir = None, sn_read_jobs = [], sn_cm_read_job_ids = [], sn_printer_data = [],
      sn_scope_violation_messages = [], sn_auto_disconnect_timer = None, sn_pressed_modifiers = [],
      sn_started = now, sn_last_recv_time = now\<rparr>"

section \<open>The scope a login asks for\<close>

definition handle_login_request_without_validation ::
  "session_env \<Rightarrow> login_request_msg \<Rightarrow> session_conn \<Rightarrow> session_world \<Rightarrow> session_conn" where
  "handle_login_request_without_validation e lr c w =
     (let a = (sn_auth c)\<lparr>ac_lr_password := lr_password lr, ac_key := (lr_my_id lr, lr_my_name lr, lr_session_id lr),
                ac_platform := lr_my_platform lr, ac_os_username := lr_os_username lr\<rparr>
      in c\<lparr>sn_lr := lr,
           sn_options_in_login := (case lr_option lr of Some o1 \<Rightarrow> Some o1 | None \<Rightarrow> sn_options_in_login c),
           sn_auth := waive_2fa ((ev_auth e)\<lparr>ae_hwid := lr_hwid lr\<rparr>) a (sw_auth w),
           sn_video_ack_required := lr_video_ack_required lr\<rparr>)"

text \<open>The match on \<open>lr.union\<close>: an error, or the connection with the scope recorded.\<close>

definition apply_login_scope :: "session_env \<Rightarrow> login_union option \<Rightarrow> session_conn \<Rightarrow> string + session_conn" where
  "apply_login_scope e u c =
     (let allowed = permission (ev_opts e) (sn_control_permissions c) in
      case u of
        Some (LuFileTransfer dir show_hidden) \<Rightarrow>
          if \<not> allowed ''enable-file-transfer'' then Inl ''No permission of file transfer''
          else Inr (c\<lparr>sn_file_transfer := Some (dir, show_hidden)\<rparr>)
      | Some LuViewCamera \<Rightarrow>
          if \<not> allowed ''enable-camera'' then Inl ''No permission of viewing camera''
          else Inr (c\<lparr>sn_view_camera := True\<rparr>)
      | Some (LuTerminal service_id) \<Rightarrow>
          if \<not> allowed ''enable-terminal'' then Inl ''No permission of terminal''
          else Inr (c\<lparr>sn_auth := (sn_auth c)\<lparr>ac_terminal := True\<rparr>,
                 sn_terminal_persistent :=
                   (case sn_options_in_login c of
                      Some o1 \<Rightarrow> bool_option_value (om_terminal_persistent o1) = Some BoYes
                    | None \<Rightarrow> sn_terminal_persistent c),
                 sn_terminal_service_id := service_id\<rparr>)
      | Some (LuPortForward host port _) \<Rightarrow>
          if \<not> allowed ''enable-tunnel'' then Inl ''No permission of IP tunneling''
          else Inr (c\<lparr>sn_port_forward_address := fst (normalize_port_forward_target host port)\<rparr>)
      | None \<Rightarrow>
          if pv_is_in (ev_privacy e) then Inl ''Someone turns on privacy mode, exit'' else Inr c)"

section \<open>After the authorisation\<close>

definition connect_port_forward_error :: "session_env \<Rightarrow> session_conn \<Rightarrow> string option" where
  "connect_port_forward_error e c =
     (if is_port_forward c then None
      else case lr_union (sn_lr c) of
        Some (LuPortForward host port multiplex) \<Rightarrow>
          if multiplex \<or> ev_connect_ok e then None
          else (case normalize_port_forward_target host port of (addr, is_rdp) \<Rightarrow> Some (unreachable_message addr is_rdp))
      | _ \<Rightarrow> None)"

definition connect_port_forward :: "session_conn \<Rightarrow> session_conn" where
  "connect_port_forward c =
     (if is_port_forward c then c
      else case lr_union (sn_lr c) of
        Some (LuPortForward host port multiplex) \<Rightarrow>
          if multiplex then c\<lparr>sn_port_forward_mux := Some (mux_new q_new (sn_port_forward_address c))\<rparr>
          else c\<lparr>sn_port_forward_address := fst (normalize_port_forward_target host port), sn_port_forward_socket := True\<rparr>
      | _ \<Rightarrow> c)"

definition select_conn_type :: "session_conn \<Rightarrow> auth_conn_type" where
  "select_conn_type c =
     (if sn_file_transfer c \<noteq> None then ConnFileTransfer
      else if is_port_forward c then ConnPortForward
      else if sn_view_camera c then ConnViewCamera
      else if ac_terminal (sn_auth c) then ConnTerminal
      else ConnRemote)"

definition update_codec_on_login :: "session_conn \<Rightarrow> conn_effect list" where
  "update_codec_on_login c =
     (case lr_option (sn_lr c) of
        Some o1 \<Rightarrow> (case om_supported_decoding o1 of Some q \<Rightarrow> [EncoderUpdate q] | None \<Rightarrow> [EncoderOnlyVp9])
      | None \<Rightarrow> [EncoderOnlyVp9])"

definition update_scoped_login_options ::
  "session_env \<Rightarrow> session_conn \<Rightarrow> term_world \<Rightarrow> conn_effect list \<times> session_conn \<times> term_world" where
  "update_scoped_login_options e c tw =
     (case sn_options_in_login c of
        None \<Rightarrow> ([], c, tw)
      | Some o1 \<Rightarrow>
          let c1 = c\<lparr>sn_options_in_login := None\<rparr> in
          (case authed_conn_type c1 of
             None \<Rightarrow> ([], c1, tw)
           | Some t \<Rightarrow> (case fst (scoped_login_option t o1) of Some o2 \<Rightarrow> update_options e o2 c1 tw | None \<Rightarrow> ([], c1, tw))))"

definition set_keyboard :: "bool \<Rightarrow> session_conn \<Rightarrow> session_conn" where
  "set_keyboard b c = c\<lparr>sn_perms := (sn_perms c)\<lparr>cp_keyboard := b\<rparr>\<rparr>"

definition init_terminal_service :: "session_env \<Rightarrow> session_conn \<Rightarrow> term_world \<Rightarrow> session_conn \<times> term_world" where
  "init_terminal_service e c tw =
     (case ac_terminal_token (sn_auth c) of
        None \<Rightarrow> (c, tw)
      | Some specified \<Rightarrow>
          let sid = (if sn_terminal_service_id c = [] then ev_new_service_id e else sn_terminal_service_id c)
          in (c\<lparr>sn_terminal_service_id := sid\<rparr>,
              snd (get_or_create_service (nat (ev_now e)) sid (sn_terminal_persistent c) specified tw)))"

definition try_sub_monitor_services :: "session_env \<Rightarrow> session_conn \<Rightarrow> conn_effect list \<times> session_conn" where
  "try_sub_monitor_services e c =
     (if is_remote c \<and> \<not> sn_services_subed c then
        (let c1 = c\<lparr>sn_services_subed := True\<rparr> in
         if ev_server e then
           ([AddMonitorConnection
               ((if \<not> peer_keyboard_enabled c \<and> \<not> co_show_remote_cursor (sn_opts c) then [''mouse_cursor''] else []) @
                (if \<not> co_show_remote_cursor (sn_opts c) then [''mouse_pos''] else []) @
                (if \<not> co_follow_remote_window (sn_opts c) then [''window_focus''] else []) @
                (if \<not> can_sub_clipboard_service (ev_builtin e) c then [''clipboard''] else []) @
                (if \<not> audio_enabled c then [''audio''] else []))
               (sn_display_idx c)],
            c1\<lparr>sn_auto_disconnect_timer := get_auto_disconnect_timer e\<rparr>)
         else ([], c1))
      else ([], c))"

text \<open>The response to the login: for a remote session the displays are enumerated first.\<close>

definition login_response :: "session_env \<Rightarrow> auth_conn_type \<Rightarrow> session_conn \<Rightarrow> bool \<times> conn_effect list \<times> session_conn" where
  "login_response e t c =
     (if sn_file_transfer c \<noteq> None \<or> ac_terminal (sn_auth c) then (False, [ToPeer (PLoginResponse t)], c)
      else if sn_view_camera c then (False, update_codec_on_login c @ [ToPeer (PLoginResponse t)], c)
      else case ev_displays e of
        Inl err \<Rightarrow> (False, TryActivateScreen # update_codec_on_login c @ [ToPeer (PLoginResponseError err)], c)
      | Inr idx \<Rightarrow> (True, TryActivateScreen # update_codec_on_login c @ [ToPeer (PLoginResponse t)], c\<lparr>sn_display_idx := idx\<rparr>))"

text \<open>The services a session starts with; only a Windows build waits for the choice of a user session
  first.\<close>

definition start_services :: "session_env \<Rightarrow> bool \<Rightarrow> session_conn \<Rightarrow> term_world \<Rightarrow> conn_effect list \<times> session_conn \<times> term_world" where
  "start_services e sub_service c tw =
     (case sn_file_transfer c of
        Some (dir, show_hidden) \<Rightarrow>
          ([ToCm (CmFs (FsReadDir (if dir \<noteq> [] \<and> ev_dir_exists e dir then dir else []) show_hidden))], set_keyboard False c, tw)
      | None \<Rightarrow>
          if ac_terminal (sn_auth c) then
            (case init_terminal_service e (set_keyboard False c) tw of (c1, tw1) \<Rightarrow> ([], c1, tw1))
          else if sn_view_camera c then
            ((if ev_server e then [AddCameraConnection] else []) @ [ToPeer (PPermission PKeyboard False)], set_keyboard False c, tw)
          else if sub_service then (case try_sub_monitor_services e c of (f, c1) \<Rightarrow> (f, c1, tw))
          else ([], c, tw))"

text \<open>The rest of \<open>send_logon_response_and_keep_alive\<close> once the connection is authorised.\<close>

definition after_authorized :: "session_env \<Rightarrow> session_conn \<Rightarrow> term_world \<Rightarrow> conn_effect list \<times> session_conn \<times> term_world" where
  "after_authorized e c0 tw =
     (let c1 = connect_port_forward c0; t = select_conn_type c1; c2 = c1\<lparr>sn_authed_conn_id := Some t\<rparr> in
      if is_port_forward c2 then ([ToPeer (PLoginResponse t)], c2, tw)
      else if is_remote c2 \<and> ev_login_screen_error e \<noteq> [] then ([ToPeer (PLoginResponseError (ev_login_screen_error e))], c2, tw)
      else case login_response e t c2 of
        (sub_service, f1, c3) \<Rightarrow>
          (case update_scoped_login_options e c3 tw of
             (f2, c4, tw1) \<Rightarrow>
               (case start_services e sub_service c4 tw1 of (f3, c5, tw2) \<Rightarrow> (f1 @ f2 @ f3, c5, tw2))))"

section \<open>Logins\<close>

definition login_env :: "session_env \<Rightarrow> bytes \<Rightarrow> session_conn \<Rightarrow> session_world \<Rightarrow> auth_env" where
  "login_env e hwid c w =
     (ev_auth e)\<lparr>ae_hwid := hwid,
       ae_peer_since_1_2_0 := (get_version_number (lr_version (sn_lr c)) \<ge> get_version_number ''1.2.0''),
       ae_port_forward_error := connect_port_forward_error e c,
       ae_service_is_user := is_service_specified_user (sn_terminal_service_id c) (sw_term w)\<rparr>"

text \<open>What a decision of \<open>Password_Auth\<close> means for the connection: the outputs in order, with what
  follows an authorisation in the place of the logon response.\<close>

definition expand_outs :: "conn_effect list \<Rightarrow> auth_out list \<Rightarrow> conn_effect list" where
  "expand_outs f outs = concat (map (\<lambda>x. if x = LogonResponse then f else [LoginOut x]) outs)"

definition finish_login ::
  "session_env \<Rightarrow> bool \<times> auth_out list \<times> auth_conn \<times> auth_state \<Rightarrow> session_conn \<Rightarrow> session_world \<Rightarrow>
   bool \<times> conn_effect list \<times> session_conn \<times> session_world" where
  "finish_login e r c w =
     (case r of
        (keep, outs, a, st) \<Rightarrow>
          let c1 = c\<lparr>sn_auth := a\<rparr>; w1 = w\<lparr>sw_auth := st\<rparr> in
          if ac_authorized a \<and> \<not> ac_authorized (sn_auth c) then
            (case after_authorized e c1 (sw_term w1) of (f, c2, tw) \<Rightarrow> (keep, expand_outs f outs, c2, w1\<lparr>sw_term := tw\<rparr>))
          else (keep, expand_outs [] outs, c1, w1))"

definition login_error :: "string \<Rightarrow> conn_effect" where
  "login_error msg = LoginOut (Out (LoginError msg))"

definition on_login_request ::
  "session_env \<Rightarrow> login_request_msg \<Rightarrow> session_conn \<Rightarrow> session_world \<Rightarrow> bool \<times> conn_effect list \<times> session_conn \<times> session_world" where
  "on_login_request e lr c w =
     (case check_login_scope (cr_sha256 (ae_crypto (ev_auth e))) lr c of
        (ok, c1) \<Rightarrow>
          if \<not> ok then (False, [login_error ''Connection not allowed''], c1, w)
          else
            let c2 = handle_login_request_without_validation e lr (c1\<lparr>sn_auth := (sn_auth c1)\<lparr>ac_awaiting_2fa := False\<rparr>\<rparr>) w in
            if ac_authorized (sn_auth c2) then (True, [], c2, w)
            else
              let c3 = reset_session_scope_for_login c2 in
              (case check_id_whitelist (ae_ipv6 (ev_auth e)) (ac_ip (sn_auth c3)) (ev_now e) (ev_opts e ''id-whitelist'')
                      (lr_my_id lr) (as_login (sw_auth w)) of
                 (allowed, outs, ls) \<Rightarrow>
                   let w1 = w\<lparr>sw_auth := (sw_auth w)\<lparr>as_login := ls\<rparr>\<rparr> in
                   if \<not> allowed then (False, map (\<lambda>x. LoginOut (Out x)) outs, c3, w1)
                   else case apply_login_scope e (lr_union lr) c3 of
                     Inl msg \<Rightarrow> (False, [login_error msg], c3, w1)
                   | Inr c4 \<Rightarrow>
                       if \<not> ev_is_direct_ip e (lr_username lr) \<and> lr_username lr \<noteq> ev_my_id e
                       then (False, [login_error ''Offline''], c4, w1)
                       else finish_login e (login_request (login_env e (lr_hwid lr) c4 w1) (sn_auth c4) (sw_auth w1)) c4 w1))"

definition on_auth_2fa ::
  "session_env \<Rightarrow> bytes \<Rightarrow> session_conn \<Rightarrow> session_world \<Rightarrow> bool \<times> conn_effect list \<times> session_conn \<times> session_world" where
  "on_auth_2fa e hwid c w = finish_login e (auth_2fa (login_env e hwid c w) (sn_auth c) (sw_auth w)) c w"

definition on_switch_sides_response ::
  "session_env \<Rightarrow> bytes \<Rightarrow> login_request_msg option \<Rightarrow> session_conn \<Rightarrow> session_world \<Rightarrow>
   bool \<times> conn_effect list \<times> session_conn \<times> session_world" where
  "on_switch_sides_response e uuid lro c w =
     (case lro of
        None \<Rightarrow> (True, [], c, w)
      | Some lr \<Rightarrow>
          let m = hm_retain (\<lambda>_ (instant, _). ev_now e - instant < SWITCH_SIDES_UUID_TTL) (sw_switch_sides w);
              w1 = w\<lparr>sw_switch_sides := hm_remove (lr_my_id lr) m\<rparr>
          in if length uuid \<noteq> 16 then (True, [], c, w1)
             else case hm_get m (lr_my_id lr) of
               None \<Rightarrow> (True, [], c, w1)
             | Some (_, uuid_old) \<Rightarrow>
                 if uuid \<noteq> uuid_old then (True, [], c, w1)
                 else if lr_union lr \<noteq> None then (False, [login_error ''Connection not allowed''], c, w1)
                 else
                   let c1 = handle_login_request_without_validation e lr (reset_session_scope_for_login c) w1 in
                   (case check_id_whitelist (ae_ipv6 (ev_auth e)) (ac_ip (sn_auth c1)) (ev_now e) (ev_opts e ''id-whitelist'')
                           (lr_my_id lr) (as_login (sw_auth w1)) of
                      (allowed, outs, ls) \<Rightarrow>
                        let w2 = w1\<lparr>sw_auth := (sw_auth w1)\<lparr>as_login := ls\<rparr>\<rparr> in
                        if \<not> allowed then (False, map (\<lambda>x. LoginOut (Out x)) outs, c1, w2)
                        else
                          let c2 = c1\<lparr>sn_auth := (sn_auth c1)\<lparr>ac_from_switch := True, ac_primary := PaSwitchSides\<rparr>\<rparr>
                          in finish_login e (logon_and_start_cm (login_env e (lr_hwid lr) c2 w2) (sn_auth c2) (sw_auth w2)) c2 w2))"

definition on_test_delay :: "session_env \<Rightarrow> int \<Rightarrow> bool \<Rightarrow> session_conn \<Rightarrow> conn_effect list \<times> session_conn" where
  "on_test_delay e t from_client c =
     (if from_client then ([ToPeer (PTestDelay t)], c)
      else case sn_last_test_delay c of
        None \<Rightarrow> ([], c)
      | Some tm \<Rightarrow>
          let new_delay = wrap32 (nat (ev_now e - tm))
          in ([Qos (QosNetworkDelay new_delay)], c\<lparr>sn_last_test_delay := None, sn_network_delay := new_delay\<rparr>))"

section \<open>Messages of the peer\<close>

definition on_message ::
  "session_env \<Rightarrow> message \<Rightarrow> session_conn \<Rightarrow> session_world \<Rightarrow> bool \<times> conn_effect list \<times> session_conn \<times> session_world" where
  "on_message e msg c w =
     (case msg of
        Some (Misc (Some (CloseReason _))) \<Rightarrow>
          (case on_close e True c of (f, c1) \<Rightarrow> (False, f, c1, check_remove_session e c1 w))
      | _ \<Rightarrow>
        let authorized = ac_authorized (sn_auth c) in
        if authorized \<and> (case msg of Some (LoginRequest _) \<Rightarrow> True | _ \<Rightarrow> False) then (True, [], c, w)
        else case (if authorized then authorized_scope_violation c msg else None) of
          Some family \<Rightarrow> handle_authorized_scope_violation e family c w
        | None \<Rightarrow>
            (case msg of
               Some (LoginRequest lr) \<Rightarrow> on_login_request e lr c w
             | Some (Auth2FA code hwid) \<Rightarrow> on_auth_2fa e hwid c w
             | Some (TestDelay t from_client) \<Rightarrow> keep_on (on_test_delay e t from_client c) w
             | Some (SwitchSidesResponse uuid lro) \<Rightarrow> on_switch_sides_response e uuid lro c w
             | _ \<Rightarrow> if authorized then dispatch e msg c w else (True, [], c, w)))"

end
