(* ===== verification/Session_Isolation.thy ===== *)
theory Session_Isolation
  imports Session_Login
begin

text \<open>
  Which effects a session may have, and that every handler of \<open>Session_Dispatch\<close> and \<open>Session_Login\<close> stays
  within them: the effects of a message are those of the type of session the connection was
  authorised for, and need the permission the local user granted.
\<close>

section \<open>Allowed effects\<close>

definition pathless :: "fs_request \<Rightarrow> bool" where
  "pathless r = (case r of FsWriteBlock _ _ _ _ \<Rightarrow> True | FsWriteDone _ _ \<Rightarrow> True | FsWriteError _ _ _ \<Rightarrow> True
     | FsCheckDigest _ _ _ _ _ _ \<Rightarrow> True | _ \<Rightarrow> False)"

definition video_session :: "auth_conn_type option \<Rightarrow> bool \<Rightarrow> bool" where
  "video_session t camera = (if camera then t = Some ConnViewCamera else t = Some ConnRemote)"

definition av_session :: "auth_conn_type option \<Rightarrow> bool" where
  "av_session t = (t = Some ConnRemote \<or> t = Some ConnViewCamera)"

definition subscription_allowed :: "auth_conn_type option \<Rightarrow> conn_perms \<Rightarrow> string \<Rightarrow> bool" where
  "subscription_allowed t p name =
     (if name = ''clipboard'' then t = Some ConnRemote \<and> cp_clipboard p \<and> cp_keyboard p
      else if name = ''audio'' then av_session t \<and> cp_audio p
      else t = Some ConnRemote)"

definition peer_msg_allowed :: "auth_conn_type option \<Rightarrow> peer_msg \<Rightarrow> bool" where
  "peer_msg_allowed t m =
     (case m of
        PFileDir _ _ files \<Rightarrow> t = Some ConnFileTransfer \<or> t = Some ConnRemote \<and> files = []
      | PTerminal _ \<Rightarrow> t = Some ConnTerminal
      | PCursorData _ \<Rightarrow> t = Some ConnRemote
      | PDisplayChanged _ \<Rightarrow> av_session t
      | PFileError _ _ _ \<Rightarrow> t = Some ConnFileTransfer \<or> t = Some ConnRemote
      | PBlockInputError _ _ \<Rightarrow> t = Some ConnRemote
      | PMessageBox _ _ \<Rightarrow> t = Some ConnRemote
      | PPrivacy _ _ _ \<Rightarrow> t = Some ConnRemote
      | PLoginResponse t' \<Rightarrow> t = Some t'
      | PFileMsg _ \<Rightarrow> False
      | PRaw _ \<Rightarrow> False
      | PFollowDisplay _ \<Rightarrow> False
      | PForward _ \<Rightarrow> False
      | _ \<Rightarrow> True)"

definition cm_data_allowed :: "auth_conn_type option \<Rightarrow> cm_data \<Rightarrow> bool" where
  "cm_data_allowed t d =
     (case d of
        CmFs r \<Rightarrow> t = Some ConnFileTransfer \<or> t = Some ConnRemote \<and> pathless r
      | CmFileTransferLog _ \<Rightarrow> t = Some ConnFileTransfer
      | CmChatMessage _ \<Rightarrow> av_session t \<or> t = Some ConnTerminal
      | CmVoiceCallIncoming \<Rightarrow> av_session t
      | CmStartVoiceCall \<Rightarrow> av_session t
      | CmCloseVoiceCall \<Rightarrow> av_session t
      | CmSwitchPermission _ _ \<Rightarrow> False
      | _ \<Rightarrow> True)"

definition noperms_cover :: "conn_perms \<Rightarrow> string list \<Rightarrow> bool" where
  "noperms_cover p noperms =
     ((\<not> cp_clipboard p \<or> \<not> cp_keyboard p \<longrightarrow> ''clipboard'' \<in> set noperms) \<and> (\<not> cp_audio p \<longrightarrow> ''audio'' \<in> set noperms))"

fun effect_allowed :: "auth_conn_type option \<Rightarrow> conn_perms \<Rightarrow> conn_effect \<Rightarrow> bool" where
  "effect_allowed t p (ToPeer m) = peer_msg_allowed t m"
| "effect_allowed t p (ToCm d) = cm_data_allowed t d"
| "effect_allowed t p (LoginOut x) = True"
| "effect_allowed t p (InputMouse _ simulate _) = (t = Some ConnRemote \<and> (simulate \<longrightarrow> cp_keyboard p))"
| "effect_allowed t p (InputPointer _) = (t = Some ConnRemote \<and> cp_keyboard p)"
| "effect_allowed t p (InputKey _ _) = (t = Some ConnRemote \<and> cp_keyboard p)"
| "effect_allowed t p (InputBlock _) = (t = Some ConnRemote \<and> cp_keyboard p \<and> cp_block_input p)"
| "effect_allowed t p ClickTime = (t = Some ConnRemote)"
| "effect_allowed t p MouseMoveTime = (t = Some ConnRemote)"
| "effect_allowed t p (UpdateClipboard _) = (t = Some ConnRemote \<and> cp_clipboard p)"
| "effect_allowed t p (Subscribe name b) = (b \<longrightarrow> subscription_allowed t p name)"
| "effect_allowed t p (SubscribeVideo camera _ _) = video_session t camera"
| "effect_allowed t p (EnsureVideoService camera _) = video_session t camera"
| "effect_allowed t p (CaptureVideo camera _ _ _) = video_session t camera"
| "effect_allowed t p (AddMonitorConnection noperms _) = (t = Some ConnRemote \<and> noperms_cover p noperms)"
| "effect_allowed t p AddCameraConnection = (t = Some ConnViewCamera)"
| "effect_allowed t p TryActivateScreen = (t = Some ConnRemote)"
| "effect_allowed t p (Qos q) = (av_session t \<or> (case q of QosNetworkDelay _ \<Rightarrow> True | _ \<Rightarrow> False))"
| "effect_allowed t p (EncoderUpdate _) = av_session t"
| "effect_allowed t p EncoderOnlyVp9 = av_session t"
| "effect_allowed t p (ChangeDisplay _ _ _) = (t = Some ConnRemote \<and> cp_keyboard p)"
| "effect_allowed t p ForceReboot = (t = Some ConnRemote \<and> cp_restart p)"
| "effect_allowed t p Reboot = (t = Some ConnRemote \<and> cp_restart p)"
| "effect_allowed t p (StartAudioThread _ _) = av_session t"
| "effect_allowed t p (PlayAudio _) = av_session t"
| "effect_allowed t p (VoiceCallInput b) = (\<not> b)"
| "effect_allowed t p VideoFetched = av_session t"
| "effect_allowed t p (RefreshVideoService _) = av_session t"
| "effect_allowed t p (TakeScreenshot camera _ _) = video_session t camera"
| "effect_allowed t p (PrivacyTurnOn _) = (t = Some ConnRemote \<and> cp_privacy_mode p)"
| "effect_allowed t p (PrivacyTurnOff _) = (t = Some ConnRemote)"
| "effect_allowed t p (Whiteboard _) = (t = Some ConnRemote)"
| "effect_allowed t p LockScreen = (t = Some ConnRemote \<and> cp_keyboard p)"
| "effect_allowed t p (ScopeAlarm _) = (t \<noteq> None)"
| "effect_allowed t p (FileAudit _ _ _) = (t = Some ConnFileTransfer \<or> t = Some ConnRemote)"
| "effect_allowed t p (RemoveLogDir _ _ _) = (t = Some ConnFileTransfer)"
| "effect_allowed t p (RemoveLogFile _ _ _) = (t = Some ConnFileTransfer)"
| "effect_allowed t p (MuxClosed _) = (t = Some ConnPortForward)"
| "effect_allowed t p (LaunchSwitchSides _ _) = (t = Some ConnRemote)"
| "effect_allowed t p IpWhitelistAlarm = False"
| "effect_allowed t p (FrameFetched _) = False"
| "effect_allowed t p FramesReleased = False"

definition effs_ok :: "session_conn \<Rightarrow> conn_effect list \<Rightarrow> bool" where
  "effs_ok c effs = list_all (effect_allowed (sn_authed_conn_id c) (sn_perms c)) effs"

lemma effs_ok_Nil [simp]: "effs_ok c []"
  by (simp add: effs_ok_def)

lemma effs_ok_Cons [simp]: "effs_ok c (x # xs) \<longleftrightarrow> effect_allowed (sn_authed_conn_id c) (sn_perms c) x \<and> effs_ok c xs"
  by (simp add: effs_ok_def)

lemma effs_ok_append [simp]: "effs_ok c (xs @ ys) \<longleftrightarrow> effs_ok c xs \<and> effs_ok c ys"
  by (simp add: effs_ok_def)

lemma effs_ok_cong: "sn_authed_conn_id c' = sn_authed_conn_id c \<Longrightarrow> sn_perms c' = sn_perms c \<Longrightarrow> effs_ok c' = effs_ok c"
  by (simp add: effs_ok_def fun_eq_iff)

section \<open>Frame\<close>

text \<open>What no handler of an authorised connection changes.\<close>

definition core :: "session_conn \<Rightarrow> _" where
  "core c = (sn_auth c, sn_lr c, sn_login_scope c, sn_file_transfer c, sn_view_camera c, sn_port_forward_socket c,
     sn_port_forward_mux c = None, sn_authed_conn_id c, sn_control_permissions c, sn_perms c)"

definition opts_default :: "session_conn \<Rightarrow> bool" where
  "opts_default c =
     (\<not> co_lock_after_session_end (sn_opts c) \<and> \<not> co_show_remote_cursor (sn_opts c) \<and> \<not> co_follow_remote_cursor (sn_opts c) \<and>
      \<not> co_follow_remote_window (sn_opts c) \<and> \<not> co_disable_clipboard (sn_opts c) \<and> \<not> co_disable_keyboard (sn_opts c) \<and>
      \<not> co_show_my_cursor (sn_opts c))"

definition handled_ok :: "session_conn \<Rightarrow> conn_effect list \<times> session_conn \<Rightarrow> bool" where
  "handled_ok c r = (effs_ok c (fst r) \<and> core (snd r) = core c \<and> (opts_default c \<longrightarrow> opts_default (snd r)))"

named_theorems allowed_defs "what it takes to allow an effect"

lemmas [allowed_defs] = peer_msg_allowed_def cm_data_allowed_def subscription_allowed_def video_session_def av_session_def pathless_def

lemma timer_frame [simp]:
  "core (update_auto_disconnect_timer e c) = core c" "sn_opts (update_auto_disconnect_timer e c) = sn_opts c"
  by (simp_all add: update_auto_disconnect_timer_def core_def)

lemma opts_default_cong: "sn_opts c' = sn_opts c \<Longrightarrow> opts_default c' = opts_default c"
  by (simp add: opts_default_def)

lemma opts_default_timer [simp]: "opts_default (update_auto_disconnect_timer e c) = opts_default c"
  by (simp add: opts_default_def)

lemma on_mouse_ok: "av_session (sn_authed_conn_id c) \<Longrightarrow> handled_ok c (on_mouse e me c)"
  by (auto simp: handled_ok_def on_mouse_def is_authed_view_camera_conn_def peer_keyboard_enabled_def allowed_defs Let_def split: option.splits)

lemma on_pointer_ok: "av_session (sn_authed_conn_id c) \<Longrightarrow> handled_ok c (on_pointer e pde c)"
  by (auto simp: handled_ok_def on_pointer_def is_authed_view_camera_conn_def peer_keyboard_enabled_def allowed_defs split: option.splits)

lemma core_pressed [simp]: "core (c\<lparr>sn_pressed_modifiers := m\<rparr>) = core c" "opts_default (c\<lparr>sn_pressed_modifiers := m\<rparr>) = opts_default c"
  by (simp_all add: core_def opts_default_def)

lemma on_key_ok: "av_session (sn_authed_conn_id c) \<Longrightarrow> handled_ok c (on_key e me c)"
  by (auto simp: handled_ok_def on_key_def is_authed_view_camera_conn_def peer_keyboard_enabled_def allowed_defs Let_def
      split: option.splits key_union.splits)

lemma on_clipboards_ok: "effs_ok c (on_clipboards cbs c)"
  by (auto simp: on_clipboards_def should_handle_text_clipboard_message_def authed_conn_type_def clipboard_enabled_def)

lemma core_files [simp]:
  "core (c\<lparr>sn_read_jobs := js\<rparr>) = core c" "opts_default (c\<lparr>sn_read_jobs := js\<rparr>) = opts_default c"
  "core (c\<lparr>sn_file_transferred := b\<rparr>) = core c" "opts_default (c\<lparr>sn_file_transferred := b\<rparr>) = opts_default c"
  "core (c\<lparr>sn_cm_read_job_ids := is\<rparr>) = core c" "opts_default (c\<lparr>sn_cm_read_job_ids := is\<rparr>) = opts_default c"
  "core (c\<lparr>sn_printer_data := d\<rparr>) = core c" "opts_default (c\<lparr>sn_printer_data := d\<rparr>) = opts_default c"
  "core (c\<lparr>sn_delayed_read_dir := r\<rparr>) = core c" "opts_default (c\<lparr>sn_delayed_read_dir := r\<rparr>) = opts_default c"
  by (simp_all add: core_def opts_default_def)

lemma effs_ok_update [simp]:
  "effs_ok (c\<lparr>sn_printer_data := d\<rparr>) = effs_ok c" "effs_ok (c\<lparr>sn_file_transferred := b\<rparr>) = effs_ok c"
  by (simp_all add: effs_ok_def fun_eq_iff)

lemma read_job_ok:
  assumes "sn_authed_conn_id c = Some ConnFileTransfer \<or> sn_authed_conn_id c = Some ConnRemote \<and> (\<exists>d n. src = MemoryCursor d n)"
  shows "handled_ok c (create_and_start_read_job e i ty src file_num h od path lim c)"
  using assms
  by (auto simp: handled_ok_def create_and_start_read_job_def process_new_read_job_def new_read_def new_write_def default_job_def allowed_defs
      split: sum.splits option.splits data_source.splits if_splits)

lemma handled_ok_transferred:
  assumes "handled_ok c r"
  shows "handled_ok c (fst r, (snd r)\<lparr>sn_file_transferred := True\<rparr>)"
  using assms by (simp add: handled_ok_def)

lemma handled_ok_printer:
  assumes "handled_ok (c\<lparr>sn_printer_data := d\<rparr>) r"
  shows "handled_ok c r"
  using assms by (simp add: handled_ok_def)

lemma on_file_send_ok:
  assumes "sn_authed_conn_id c = Some ConnFileTransfer \<or> sn_authed_conn_id c = Some ConnRemote \<and> job_type_from_i32 ft = JPrinter"
  shows "handled_ok c (on_file_send e i path h n ft c)"
proof (cases "job_type_from_i32 ft")
  case JGeneric
  then have "handled_ok c (create_and_start_read_job e i JGeneric (FilePath path) n h (overwrite_detection c) path True c)"
    using assms by (intro read_job_ok) auto
  from handled_ok_transferred [OF this] JGeneric show ?thesis by (simp add: on_file_send_def split_beta)
next
  case JPrinter
  show ?thesis
  proof (cases "take_printer_data path (sn_printer_data c)")
    case None
    with JPrinter show ?thesis by (simp add: on_file_send_def handled_ok_def)
  next
    case (Some r)
    obtain d rest where r: "r = (d, rest)" by (cases r)
    have "handled_ok (c\<lparr>sn_printer_data := rest\<rparr>) (create_and_start_read_job e i JPrinter (MemoryCursor d 0) n h True path False (c\<lparr>sn_printer_data := rest\<rparr>))"
      using assms by (intro read_job_ok) auto
    from handled_ok_transferred [OF handled_ok_printer [OF this]] JPrinter Some r show ?thesis
      by (simp add: on_file_send_def split_beta)
  qed
qed

lemma do_file_action_ok:
  assumes "sn_authed_conn_id c = Some ConnFileTransfer"
  shows "handled_ok c (do_file_action e fa c)"
proof (cases fa)
  case (FaSend i path h n ft)
  then show ?thesis using assms by (simp add: do_file_action_def on_file_send_ok)
qed (use assms in \<open>auto simp: do_file_action_def handled_ok_def on_all_files_def on_file_cancel_def on_file_confirm_def allowed_defs
       split: sum.splits option.splits\<close>)

lemma on_file_action_ok:
  assumes "sn_authed_conn_id c = Some ConnFileTransfer \<or> sn_authed_conn_id c = Some ConnRemote \<and> sn_file_transfer c = None"
  shows "handled_ok c (on_file_action e fa c)"
proof (cases "sn_authed_conn_id c = Some ConnFileTransfer")
  case True
  then show ?thesis
    by (auto simp: on_file_action_def Let_def do_file_action_ok handled_ok_def [of c "([], _)"] handled_ok_def [of c "([ToPeer _], _)"] allowed_defs
        split: option.splits file_action.splits)
next
  case False
  with assms have r: "sn_authed_conn_id c = Some ConnRemote" "sn_file_transfer c = None" by auto
  then show ?thesis
    by (auto simp: on_file_action_def Let_def do_file_action_def on_file_send_ok handled_ok_def [of c "([], _)"] handled_ok_def [of c "([ToPeer _], _)"] allowed_defs
        split: option.splits file_action.splits)
qed

lemma on_file_response_ok:
  assumes "sn_authed_conn_id c = Some ConnFileTransfer \<or> sn_authed_conn_id c = Some ConnRemote"
  shows "effs_ok c (on_file_response fr)"
  using assms by (auto simp: on_file_response_def allowed_defs split: option.splits file_response.splits)

lemma turn_on_privacy_ok:
  assumes "sn_authed_conn_id c = Some ConnRemote"
  shows "effs_ok c (turn_on_privacy e k c)"
  using assms by (auto simp: turn_on_privacy_def Let_def allowed_defs split: option.splits sum.splits bool.splits)

lemma turn_off_privacy_ok:
  assumes "sn_authed_conn_id c = Some ConnRemote"
  shows "effs_ok c (turn_off_privacy e k)"
  using assms by (auto simp: turn_off_privacy_def turn_off_privacy_result_to_msg_def Let_def allowed_defs split: option.splits sum.splits)

lemma toggle_privacy_ok:
  assumes "sn_authed_conn_id c = Some ConnRemote"
  shows "effs_ok c (toggle_privacy_mode e k on c)"
  using turn_on_privacy_ok [OF assms] turn_off_privacy_ok [OF assms] by (simp add: toggle_privacy_mode_def)

lemma change_resolution_ok:
  assumes "sn_authed_conn_id c = Some ConnRemote"
  shows "effs_ok c (change_resolution e d w h c)"
  using assms by (simp add: change_resolution_def Let_def)

definition video_conn :: "session_conn \<Rightarrow> bool" where
  "video_conn c = (sn_authed_conn_id c = Some (if sn_view_camera c then ConnViewCamera else ConnRemote))"

lemma video_conn_av: "video_conn c \<Longrightarrow> av_session (sn_authed_conn_id c)"
  by (simp add: video_conn_def av_session_def split: if_splits)

lemma core_display [simp]:
  "core (c\<lparr>sn_display_idx := d\<rparr>) = core c" "opts_default (c\<lparr>sn_display_idx := d\<rparr>) = opts_default c"
  "core (c\<lparr>sn_multi_ui_session := b\<rparr>) = core c" "opts_default (c\<lparr>sn_multi_ui_session := b\<rparr>) = opts_default c"
  "core (c\<lparr>sn_voice_calling := b\<rparr>) = core c" "opts_default (c\<lparr>sn_voice_calling := b\<rparr>) = opts_default c"
  "core (c\<lparr>sn_voice_call_request_timestamp := x\<rparr>) = core c" "opts_default (c\<lparr>sn_voice_call_request_timestamp := x\<rparr>) = opts_default c"
  "core (c\<lparr>sn_chat_unanswered := b\<rparr>) = core c" "opts_default (c\<lparr>sn_chat_unanswered := b\<rparr>) = opts_default c"
  "core (c\<lparr>sn_audio_sender := b\<rparr>) = core c" "opts_default (c\<lparr>sn_audio_sender := b\<rparr>) = opts_default c"
  by (simp_all add: core_def opts_default_def)

lemma display_changed_ok: "av_session (sn_authed_conn_id c) \<Longrightarrow> effs_ok c (display_changed e d)"
  by (simp add: display_changed_def allowed_defs)

lemma handle_switch_display_ok:
  assumes "video_conn c"
  shows "handled_ok c (handle_switch_display e d w h c)"
  using assms
  by (auto simp: handle_switch_display_def switch_display_to_def handled_ok_def video_conn_def display_changed_def
      change_resolution_def Let_def allowed_defs split: option.splits if_splits)

lemma effs_ok_map: "effs_ok c (map f xs) \<longleftrightarrow> (\<forall>x \<in> set xs. effect_allowed (sn_authed_conn_id c) (sn_perms c) (f x))"
  by (simp add: effs_ok_def list_all_iff)

lemma capture_displays_ok:
  assumes "video_conn c" "sn_authed_conn_id c = Some ConnViewCamera \<Longrightarrow> opts_default c"
  shows "handled_ok c (capture_displays e add sub set1 c)"
proof (cases "sn_authed_conn_id c = Some ConnViewCamera")
  case True
  with assms have "\<not> co_follow_remote_window (sn_opts c)" "sn_view_camera c"
    by (auto simp: opts_default_def video_conn_def split: if_splits)
  with True show ?thesis
    by (simp add: capture_displays_def handled_ok_def effs_ok_map video_session_def Let_def)
next
  case False
  with assms have "sn_authed_conn_id c = Some ConnRemote" "\<not> sn_view_camera c" by (auto simp: video_conn_def split: if_splits)
  then show ?thesis
    by (simp add: capture_displays_def handled_ok_def effs_ok_map video_session_def subscription_allowed_def Let_def)
qed

lemma close_voice_call_ok: "av_session (sn_authed_conn_id c) \<Longrightarrow> handled_ok c (close_voice_call e c)"
  by (simp add: close_voice_call_def handled_ok_def allowed_defs)

lemma on_voice_call_request_ok: "av_session (sn_authed_conn_id c) \<Longrightarrow> handled_ok c (on_voice_call_request e ts b c)"
  using close_voice_call_ok [of c e] by (auto simp: on_voice_call_request_def handled_ok_def allowed_defs)

section \<open>Options\<close>

lemma core_effs: "core c1 = core c0 \<Longrightarrow> effs_ok c1 = effs_ok c0"
  by (rule effs_ok_cong) (simp_all add: core_def)

lemma core_perms: "core c1 = core c0 \<Longrightarrow> sn_perms c1 = sn_perms c0" "core c1 = core c0 \<Longrightarrow> sn_authed_conn_id c1 = sn_authed_conn_id c0"
  by (simp_all add: core_def)

lemma core_set_opts [simp]: "core (set_opts f c) = core c" "sn_perms (set_opts f c) = sn_perms c" "sn_authed_conn_id (set_opts f c) = sn_authed_conn_id c"
  by (simp_all add: core_def set_opts_def)

lemma core_upd [simp]:
  "core (upd_lock o1 c) = core c"
  "core (snd (upd_show_remote_cursor e o1 c)) = core c"
  "core (upd_follow_remote_cursor o1 c) = core c"
  "core (snd (upd_follow_remote_window e o1 c)) = core c"
  "core (snd (upd_disable_audio e o1 c)) = core c"
  "core (snd (upd_disable_clipboard e o1 c)) = core c"
  "core (snd (upd_disable_keyboard e o1 c)) = core c"
  "core (fst (upd_terminal_persistence o1 c tw)) = core c"
  "core (snd (upd_show_my_cursor e o1 c)) = core c"
  by (simp_all add: upd_lock_def upd_show_remote_cursor_def upd_follow_remote_cursor_def upd_follow_remote_window_def
      upd_disable_audio_def upd_disable_clipboard_def upd_disable_keyboard_def upd_terminal_persistence_def upd_show_my_cursor_def
      Let_def core_def set_opts_def split: option.splits)

lemma sub_audio_ok: "av_session (sn_authed_conn_id c) \<Longrightarrow> effs_ok c (sub_audio e c)"
  by (simp add: sub_audio_def subs_def subscription_allowed_def audio_enabled_def)

lemma video_option_ok: "av_session (sn_authed_conn_id c) \<Longrightarrow> effs_ok c (video_option_effects o1)"
  by (simp add: video_option_effects_def image_quality_effects_def Let_def split: option.splits)

lemma upd_disable_audio_ok:
  assumes "core c1 = core c0" "av_session (sn_authed_conn_id c0)"
  shows "effs_ok c0 (fst (upd_disable_audio e o1 c1))"
  using assms sub_audio_ok [of "set_opts f c1" for f] core_effs [OF assms(1)] core_effs [of "set_opts f c1" c1 for f]
  by (auto simp: upd_disable_audio_def Let_def core_perms [OF assms(1)] split: option.splits)

lemma upd_remote_ok:
  assumes "core c1 = core c0" "sn_authed_conn_id c0 = Some ConnRemote"
  shows "effs_ok c0 (fst (upd_show_remote_cursor e o1 c1))"
    "effs_ok c0 (fst (upd_follow_remote_window e o1 c1))"
    "effs_ok c0 (fst (upd_disable_clipboard e o1 c1))"
    "effs_ok c0 (fst (upd_disable_keyboard e o1 c1))"
    "effs_ok c0 (privacy_option_effects e o1 c1)"
    "effs_ok c0 (block_input_effects o1 c1)"
    "effs_ok c0 (fst (upd_show_my_cursor e o1 c1))"
proof -
  note p = core_perms [OF assms(1)]
  have r: "sn_authed_conn_id c1 = Some ConnRemote" using p(2) assms(2) by simp
  show "effs_ok c0 (fst (upd_show_remote_cursor e o1 c1))" "effs_ok c0 (fst (upd_follow_remote_window e o1 c1))"
    using assms(2) by (auto simp: upd_show_remote_cursor_def upd_follow_remote_window_def subs_def Let_def subscription_allowed_def split: option.splits)
  show "effs_ok c0 (fst (upd_disable_clipboard e o1 c1))" "effs_ok c0 (fst (upd_disable_keyboard e o1 c1))"
    using assms(2) p(1) by (auto simp: upd_disable_clipboard_def upd_disable_keyboard_def subs_def Let_def subscription_allowed_def
        can_sub_clipboard_service_def clipboard_enabled_def peer_keyboard_enabled_def split: option.splits)
  show "effs_ok c0 (privacy_option_effects e o1 c1)"
    using turn_on_privacy_ok [OF r] turn_off_privacy_ok [OF r] core_effs [OF assms(1)]
    by (simp add: privacy_option_effects_def split: option.splits bool_option.splits)
  show "effs_ok c0 (block_input_effects o1 c1)" "effs_ok c0 (fst (upd_show_my_cursor e o1 c1))"
    using assms(2) p(1) by (auto simp: block_input_effects_def upd_show_my_cursor_def allowed_defs split: option.splits bool_option.splits)
qed

lemma update_options_core:
  assumes "update_options e o1 c tw = (f, c', tw')"
  shows "core c' = core c"
  using assms by (auto simp: update_options_def Let_def split_beta)

lemma update_options_remote:
  assumes "update_options e o1 c tw = (f, c', tw')" "sn_authed_conn_id c = Some ConnRemote"
  shows "effs_ok c f"
proof -
  have "av_session (sn_authed_conn_id c)" using assms(2) by (simp add: av_session_def)
  then show ?thesis
    using assms by (auto simp: update_options_def Let_def split_beta upd_remote_ok upd_disable_audio_ok video_option_ok)
qed

text \<open>An option message a limited session can get past the filters.\<close>

definition limited_option :: "option_message \<Rightarrow> bool" where
  "limited_option o1 = (om_lock_after_session_end o1 = 0 \<and> om_show_remote_cursor o1 = 0 \<and> om_privacy_mode o1 = 0 \<and>
     om_block_input o1 = 0 \<and> om_disable_clipboard o1 = 0 \<and> om_disable_keyboard o1 = 0 \<and> om_follow_remote_cursor o1 = 0 \<and>
     om_follow_remote_window o1 = 0 \<and> om_show_my_cursor o1 = 0)"

lemma limited_camera: "fst (scoped_view_camera_option o1) = Some o2 \<Longrightarrow> limited_option o2 \<and> om_terminal_persistent o2 = 0"
  by (auto simp: scoped_view_camera_option_def then_some_def limited_option_def option_message_new_def Let_def
      split: if_splits option.splits)

lemma limited_terminal:
  "fst (scoped_terminal_login_option o1) = Some o2 \<Longrightarrow>
     limited_option o2 \<and> om_disable_audio o2 = 0 \<and> video_option_effects o2 = []"
  by (auto simp: scoped_terminal_login_option_def then_some_def limited_option_def option_message_new_def
      video_option_effects_def image_quality_effects_def image_quality_value_def Let_def split: if_splits option.splits)

lemma set_option_0 [simp]: "set_option 0 = None" "bool_option_value 0 = Some BoNotSet"
  by (simp_all add: set_option_def bool_option_value_def)

lemma update_options_limited:
  assumes "limited_option o1" "update_options e o1 c tw = (f, c', tw')"
  shows "f = video_option_effects o1 @ fst (upd_disable_audio e o1 c)"
    "c' = fst (upd_terminal_persistence o1 (snd (upd_disable_audio e o1 c)) tw)"
    "tw' = snd (upd_terminal_persistence o1 (snd (upd_disable_audio e o1 c)) tw)"
  using assms
  by (auto simp: update_options_def limited_option_def upd_lock_def upd_show_remote_cursor_def upd_follow_remote_cursor_def
      upd_follow_remote_window_def upd_disable_clipboard_def upd_disable_keyboard_def upd_show_my_cursor_def privacy_option_effects_def
      block_input_effects_def Let_def split: prod.splits)

lemma opts_default_audio: "opts_default c \<Longrightarrow> opts_default (snd (upd_disable_audio e o1 c))"
  by (auto simp: upd_disable_audio_def set_opts_def opts_default_def Let_def split: option.splits)

lemma opts_default_persistence [simp]: "opts_default (fst (upd_terminal_persistence o1 c tw)) = opts_default c"
  by (auto simp: upd_terminal_persistence_def opts_default_def split: option.splits)

lemma update_options_limited_opts:
  assumes "limited_option o1" "update_options e o1 c tw = (f, c', tw')" "opts_default c"
  shows "opts_default c'"
  using update_options_limited [OF assms(1,2)] assms(3) by (simp add: opts_default_audio)

section \<open>The dispatch\<close>

text \<open>The state of a connection as the login left it: the fields agree with the scope asked for.\<close>

definition conn_type_of :: "login_union option \<Rightarrow> auth_conn_type" where
  "conn_type_of u =
     (case u of
        None \<Rightarrow> ConnRemote
      | Some (LuFileTransfer _ _) \<Rightarrow> ConnFileTransfer
      | Some LuViewCamera \<Rightarrow> ConnViewCamera
      | Some (LuTerminal _) \<Rightarrow> ConnTerminal
      | Some (LuPortForward _ _ _) \<Rightarrow> ConnPortForward)"

definition scope_recorded :: "session_conn \<Rightarrow> bool" where
  "scope_recorded c =
     (let u = lr_union (sn_lr c) in
      sn_file_transfer c = (case u of Some (LuFileTransfer d h) \<Rightarrow> Some (d, h) | _ \<Rightarrow> None) \<and>
      sn_view_camera c = (u = Some LuViewCamera) \<and>
      ac_terminal (sn_auth c) = (conn_type_of u = ConnTerminal))"

definition conn_ok :: "session_conn \<Rightarrow> bool" where
  "conn_ok c =
     (scope_recorded c \<and>
      sn_authed_conn_id c = (if ac_authorized (sn_auth c) then Some (conn_type_of (lr_union (sn_lr c))) else None) \<and>
      is_port_forward c = (ac_authorized (sn_auth c) \<and> conn_type_of (lr_union (sn_lr c)) = ConnPortForward) \<and>
      (ac_terminal_token (sn_auth c) \<noteq> None \<longrightarrow> sn_authed_conn_id c = Some ConnTerminal) \<and>
      (sn_authed_conn_id c \<noteq> Some ConnRemote \<longrightarrow> opts_default c))"

lemma core_conn_ok:
  assumes "core c' = core c" "conn_ok c" "opts_default c \<Longrightarrow> opts_default c' \<or> sn_authed_conn_id c = Some ConnRemote"
  shows "conn_ok c'"
  using assms by (auto simp: conn_ok_def scope_recorded_def core_def is_port_forward_def)

lemma conn_ok_video:
  assumes "conn_ok c" "av_session (sn_authed_conn_id c)"
  shows "video_conn c"
  using assms by (auto simp: conn_ok_def scope_recorded_def video_conn_def av_session_def conn_type_of_def Let_def
      split: option.splits login_union.splits if_splits)

lemma conn_ok_remote:
  assumes "conn_ok c" "sn_authed_conn_id c = Some ConnRemote"
  shows "sn_file_transfer c = None" "\<not> sn_view_camera c" "sn_port_forward_mux c = None" "ac_terminal_token (sn_auth c) = None" "is_remote c"
  using assms by (auto simp: conn_ok_def scope_recorded_def conn_type_of_def is_port_forward_def is_remote_def Let_def
      split: option.splits login_union.splits if_splits)

lemma conn_ok_token:
  assumes "conn_ok c" "sn_authed_conn_id c \<noteq> Some ConnTerminal"
  shows "ac_terminal_token (sn_auth c) = None"
  using assms by (auto simp: conn_ok_def)

lemma conn_ok_mux:
  assumes "conn_ok c" "sn_authed_conn_id c \<noteq> Some ConnPortForward"
  shows "sn_port_forward_mux c = None" "\<not> sn_port_forward_socket c"
  using assms by (auto simp: conn_ok_def is_port_forward_def split: if_splits)

lemma conn_ok_limited: "conn_ok c \<Longrightarrow> sn_authed_conn_id c \<noteq> Some ConnRemote \<Longrightarrow> opts_default c"
  by (simp add: conn_ok_def)

lemma misc_effects_ok:
  assumes "conn_ok c" "av_session (sn_authed_conn_id c)"
    "sn_authed_conn_id c = Some ConnViewCamera \<Longrightarrow> is_view_camera_scoped_misc (Some m)"
  shows "handled_ok c (misc_effects e m c)"
proof -
  note v = conn_ok_video [OF assms(1,2)]
  have cd: "handled_ok c (capture_displays e a b d c)" for a b d
    using v conn_ok_limited [OF assms(1)] by (intro capture_displays_ok) auto
  have rem: "sn_authed_conn_id c = Some ConnRemote" if "\<not> sn_view_camera c" using v that by (simp add: video_conn_def)
  have base: "handled_ok c ([], c)" by (simp add: handled_ok_def)
  show ?thesis
  proof (cases "sn_authed_conn_id c = Some ConnRemote")
    case True
    then show ?thesis
      by (cases m) (auto simp: misc_effects_def base handle_switch_display_ok [OF v] cd handled_ok_def [of c "(_ # _, _)"]
          handled_ok_def [of c "(toggle_privacy_mode _ _ _ _, _)"] handled_ok_def [of c "(change_resolution _ _ _ _ _, _)"]
          handled_ok_def [of c "(display_changed _ _, _)"] handled_ok_def [of c "([], _)"]
          toggle_privacy_ok change_resolution_ok display_changed_ok [OF assms(2)] allowed_defs)
  next
    case False
    then have vc: "sn_authed_conn_id c = Some ConnViewCamera" "sn_view_camera c"
      using assms(2) v by (auto simp: av_session_def video_conn_def split: if_splits)
    with assms(3) show ?thesis
      by (cases m) (auto simp: misc_effects_def is_view_camera_scoped_misc_def base handle_switch_display_ok [OF v] cd handled_ok_def [of c "(_ # _, _)"]
          handled_ok_def [of c "(display_changed _ _, _)"] handled_ok_def [of c "([], _)"] display_changed_ok [OF assms(2)] allowed_defs)
  qed
qed

text \<open>What the filters let through, type by type.\<close>

lemma violation_none:
  assumes "authorized_message_scope_violation t msg = None" "\<not> is_connection_housekeeping_message msg"
  shows "t = ConnRemote \<or>
    t = ConnFileTransfer \<and> (is_render_broadcast_noop_compat_message msg \<or> is_text_clipboard_noop_compat_message msg \<or> is_file_transfer_scoped_message msg) \<or>
    t = ConnTerminal \<and> (is_render_broadcast_noop_compat_message msg \<or> is_text_clipboard_noop_compat_message msg \<or> is_terminal_scoped_message msg) \<or>
    t = ConnPortForward \<and> (is_render_broadcast_noop_compat_message msg \<or> is_port_forward_scoped_message msg) \<or>
    t = ConnViewCamera \<and> (is_text_clipboard_noop_compat_message msg \<or> is_view_camera_scoped_message msg)"
  using assms by (cases t) (auto simp: authorized_message_scope_violation_def then_some_def Let_def split: if_splits)

lemma render_noop_cases:
  assumes "is_render_broadcast_noop_compat_message msg"
  obtains r where "msg = Some (Misc (Some (RefreshVideo r)))" | d where "msg = Some (Misc (Some (RefreshVideoDisplay d)))"
    | o1 where "msg = Some (Misc (Some (OptionMsg o1)))"
proof -
  obtain u where u: "msg = Some u" using assms by (cases msg) (simp_all add: is_render_broadcast_noop_compat_message_def)
  obtain m where m: "u = Misc m" using assms u by (cases u) (simp_all add: is_render_broadcast_noop_compat_message_def)
  obtain m1 where m1: "m = Some m1" using assms u m by (cases m) (simp_all add: is_render_broadcast_noop_compat_message_def)
  from assms that u m m1 show thesis by (cases m1) (simp_all add: is_render_broadcast_noop_compat_message_def)
qed

lemma clipboard_noop_cases:
  assumes "is_text_clipboard_noop_compat_message msg"
  obtains cb where "msg = Some (Clipboard cb)" | cbs where "msg = Some (MultiClipboards cbs)"
proof -
  obtain u where u: "msg = Some u" using assms by (cases msg) (simp_all add: is_text_clipboard_noop_compat_message_def)
  from assms that u show thesis by (cases u) (simp_all add: is_text_clipboard_noop_compat_message_def)
qed

lemma on_option_ok:
  assumes "conn_ok c" "on_option e o1 c tw = (f, c', tw')"
  shows "effs_ok c f \<and> core c' = core c \<and> (opts_default c \<longrightarrow> opts_default c' \<or> sn_authed_conn_id c = Some ConnRemote)"
proof (cases "sn_authed_conn_id c = Some ConnRemote")
  case True
  with assms(2) have u: "update_options e o1 c tw = (f, c', tw')" by (simp add: on_option_def authed_conn_type_def)
  from update_options_remote [OF u True] update_options_core [OF u] True show ?thesis by simp
next
  case False
  show ?thesis
  proof (cases "scoped_update_option_message c o1")
    case None
    with False assms(2) show ?thesis by (simp add: on_option_def authed_conn_type_def)
  next
    case (Some o2)
    with False assms(2) have u: "update_options e o2 c tw = (f, c', tw')" by (simp add: on_option_def authed_conn_type_def)
    consider "sn_authed_conn_id c = Some ConnViewCamera" "fst (scoped_view_camera_option o1) = Some o2"
      | "sn_authed_conn_id c = Some ConnTerminal" "fst (scoped_terminal_login_option o1) = Some o2"
      using Some by (auto simp: scoped_update_option_message_def authed_conn_type_def split: option.splits auth_conn_type.splits)
    then show ?thesis
    proof cases
      case 1
      from limited_camera [OF 1(2)] have l: "limited_option o2" by simp
      have "av_session (sn_authed_conn_id c)" using 1 by (simp add: av_session_def)
      then have "effs_ok c f" using update_options_limited(1) [OF l u] by (simp add: video_option_ok upd_disable_audio_ok)
      with update_options_core [OF u] update_options_limited_opts [OF l u] show ?thesis by simp
    next
      case 2
      from limited_terminal [OF 2(2)] have l: "limited_option o2" "om_disable_audio o2 = 0" "video_option_effects o2 = []" by simp_all
      then have "f = []" using update_options_limited(1) [OF l(1) u] by (simp add: upd_disable_audio_def)
      with update_options_core [OF u] update_options_limited_opts [OF l(1) u] show ?thesis by simp
    qed
  qed
qed

lemma on_close_ok:
  assumes "conn_ok c"
  shows "effs_ok c (fst (on_close e lock c))" "sn_authed_conn_id (snd (on_close e lock c)) = sn_authed_conn_id c"
    "sn_perms (snd (on_close e lock c)) = sn_perms c"
proof -
  have lk: "sn_authed_conn_id c = Some ConnRemote" if "co_lock_after_session_end (sn_opts c)"
    using conn_ok_limited [OF assms] that by (auto simp: opts_default_def)
  have mx: "sn_authed_conn_id c = Some ConnPortForward" if "sn_port_forward_mux c = Some m" for m
    using conn_ok_mux(1) [OF assms] that by auto
  show "effs_ok c (fst (on_close e lock c))"
    using lk mx by (auto simp: on_close_def cm_data_allowed_def split: option.splits)
  show "sn_authed_conn_id (snd (on_close e lock c)) = sn_authed_conn_id c" "sn_perms (snd (on_close e lock c)) = sn_perms c"
    by (simp_all add: on_close_def)
qed

text \<open>The sessions of all terminal services.\<close>

definition term_sessions :: "term_world \<Rightarrow> (string \<times> (int \<times> session) list) list" where
  "term_sessions tw = map (\<lambda>(sid, v). (sid, sv_sessions v)) (tw_services tw)"

lemma term_sessions_insert:
  "hm_get m sid = Some v \<Longrightarrow> sv_sessions v' = sv_sessions v \<Longrightarrow>
     map (\<lambda>(k, x). (k, sv_sessions x)) (hm_insert sid v' m) = map (\<lambda>(k, x). (k, sv_sessions x)) m"
  by (induction sid v' m rule: hm_insert.induct) (auto simp: hm_get_def split: if_splits)

lemma set_persistent_sessions [simp]: "term_sessions (snd (set_persistent sid b tw)) = term_sessions tw"
  by (auto simp: term_sessions_def set_persistent_def get_service_def put_service_def term_sessions_insert split: option.splits)

lemma update_options_sessions:
  assumes "update_options e o1 c tw = (f, c', tw')"
  shows "term_sessions tw' = term_sessions tw"
  using assms by (auto simp: update_options_def upd_terminal_persistence_def Let_def split_beta split: option.splits)

lemma on_option_sessions:
  assumes "on_option e o1 c tw = (f, c', tw')"
  shows "term_sessions tw' = term_sessions tw"
  using assms update_options_sessions by (auto simp: on_option_def split: if_splits option.splits)

text \<open>What one message on an authorised connection leaves alone, and its outcome.\<close>

definition session_kept :: "session_conn \<Rightarrow> session_conn \<Rightarrow> bool" where
  "session_kept c c' = (sn_auth c' = sn_auth c \<and> sn_lr c' = sn_lr c \<and> sn_login_scope c' = sn_login_scope c \<and>
     sn_control_permissions c' = sn_control_permissions c)"

lemma core_kept: "core c' = core c \<Longrightarrow> session_kept c c'"
  by (simp add: core_def session_kept_def)

lemma session_kept_refl [simp]: "session_kept c c"
  by (simp add: session_kept_def)

lemma on_close_kept: "session_kept c (snd (on_close e lock c))"
  by (simp add: on_close_def session_kept_def)

definition step_ok :: "session_conn \<Rightarrow> session_world \<Rightarrow> bool \<times> conn_effect list \<times> session_conn \<times> session_world \<Rightarrow> bool" where
  "step_ok c w r =
     (case r of (keep, f, c', w') \<Rightarrow>
        effs_ok c f \<and> sn_authed_conn_id c' = sn_authed_conn_id c \<and> sn_perms c' = sn_perms c \<and> (keep \<longrightarrow> conn_ok c') \<and>
        session_kept c c' \<and> (sn_authed_conn_id c \<noteq> Some ConnTerminal \<longrightarrow> term_sessions (sw_term w') = term_sessions (sw_term w)))"

lemma step_ok_nothing [simp]: "conn_ok c \<Longrightarrow> step_ok c w (True, [], c, w)"
  by (simp add: step_ok_def)

lemma keep_on_ok:
  assumes "conn_ok c" "handled_ok c r"
  shows "step_ok c w (keep_on r w)"
  using assms core_conn_ok [of "snd r" c] core_perms [of "snd r" c] core_kept [of "snd r" c] by (simp add: step_ok_def keep_on_def handled_ok_def)

lemma keep_on_effs_ok:
  assumes "conn_ok c" "effs_ok c f"
  shows "step_ok c w (keep_on (f, c) w)"
  using assms by (simp add: step_ok_def keep_on_def)

lemma on_switch_sides_request_ok:
  assumes "conn_ok c" "sn_authed_conn_id c = Some ConnRemote"
  shows "step_ok c w (on_switch_sides_request e uuid c w)"
  using assms on_close_ok [OF assms(1), of e False] on_close_kept [of c e False]
  by (auto simp: on_switch_sides_request_def step_ok_def split: prod.splits)

lemma on_misc_option_ok:
  assumes "conn_ok c"
  shows "step_ok c w (on_misc e (Some (OptionMsg o1)) c w)"
proof -
  obtain f c' tw' where r: "on_option e o1 c (sw_term w) = (f, c', tw')" by (metis prod_cases3)
  from on_option_ok [OF assms r] on_option_sessions [OF r] core_conn_ok [of c' c, OF _ assms] core_perms [of c' c] core_kept [of c' c]
  show ?thesis by (simp add: on_misc_def step_ok_def r)
qed

lemma on_misc_av_ok:
  assumes "conn_ok c" "av_session (sn_authed_conn_id c)"
    "sn_authed_conn_id c = Some ConnViewCamera \<Longrightarrow> is_view_camera_scoped_misc m"
  shows "step_ok c w (on_misc e m c w)"
proof (cases m)
  case None
  with assms(1) show ?thesis by (simp add: on_misc_def)
next
  case (Some m1)
  show ?thesis
  proof (cases "(\<exists>o1. m1 = OptionMsg o1) \<or> (\<exists>u. m1 = SwitchSidesRequest u)")
    case True
    then show ?thesis
    proof
      assume "\<exists>u. m1 = SwitchSidesRequest u"
      then obtain u where u: "m1 = SwitchSidesRequest u" by blast
      with assms(2,3) Some have "sn_authed_conn_id c = Some ConnRemote"
        by (auto simp: av_session_def is_view_camera_scoped_misc_def)
      from on_switch_sides_request_ok [OF assms(1) this] show ?thesis by (simp add: on_misc_def Some u)
    qed (use on_misc_option_ok [OF assms(1)] Some in auto)
  next
    case False
    then have "on_misc e m c w = keep_on (misc_effects e m1 c) w" by (cases m1) (simp_all add: on_misc_def Some)
    with misc_effects_ok [OF assms(1,2)] assms(3) Some show ?thesis by (simp add: keep_on_ok [OF assms(1)])
  qed
qed

lemma dispatch_terminal_ok:
  assumes "conn_ok c" "sn_authed_conn_id c = Some ConnTerminal"
  shows "step_ok c w (dispatch e (Some (TerminalAction act)) c w)"
  using assms conn_ok_mux(2) [OF assms(1)]
  by (auto simp: dispatch_def handle_terminal_action_def step_ok_def allowed_defs split: option.splits prod.splits sum.splits)

lemma dispatch_no_token:
  assumes "conn_ok c" "sn_authed_conn_id c \<noteq> Some ConnTerminal"
  shows "step_ok c w (dispatch e (Some (TerminalAction act)) c w)"
  using assms conn_ok_token [OF assms] by (auto simp: dispatch_def handle_terminal_action_def step_ok_def)

lemma port_forward_frame:
  "core (handle_port_forward_channel e ch c) = core c" "opts_default (handle_port_forward_channel e ch c) = opts_default c"
  by (auto simp: handle_port_forward_channel_def core_def opts_default_def split: option.splits)

lemma dispatch_channel_ok:
  assumes "conn_ok c"
  shows "step_ok c w (dispatch e (Some (PortForwardChannel ch)) c w)"
  using assms keep_on_ok [OF assms, of "([], handle_port_forward_channel e ch c)"]
  by (simp add: dispatch_def handled_ok_def port_forward_frame)

lemma dispatch_clipboard_ok:
  assumes "conn_ok c"
  shows "step_ok c w (dispatch e (Some (Clipboard cb)) c w)" "step_ok c w (dispatch e (Some (MultiClipboards cbs)) c w)"
  using assms by (simp_all add: dispatch_def keep_on_effs_ok on_clipboards_ok)

lemma dispatch_render_ok:
  assumes "conn_ok c" "is_render_broadcast_noop_compat_message msg"
  shows "step_ok c w (dispatch e msg c w)"
proof -
  have h: "handled_ok c (misc_effects e m c)" if "m = RefreshVideo r \<or> m = RefreshVideoDisplay d" for m r d
    using that by (auto simp: misc_effects_def should_handle_render_broadcast_message_def authed_conn_type_def handled_ok_def allowed_defs)
  show ?thesis
    using assms(2)
  proof (cases rule: render_noop_cases)
    case (1 r)
    with assms(1) h show ?thesis by (simp add: dispatch_def on_misc_def keep_on_ok)
  next
    case (2 d)
    with assms(1) h show ?thesis by (simp add: dispatch_def on_misc_def keep_on_ok)
  next
    case (3 o1)
    with assms(1) on_misc_option_ok show ?thesis by (simp add: dispatch_def)
  qed
qed

lemma dispatch_av_ok:
  assumes "conn_ok c" "av_session (sn_authed_conn_id c)"
    "sn_authed_conn_id c = Some ConnViewCamera \<Longrightarrow> is_view_camera_scoped_message msg"
  shows "step_ok c w (dispatch e msg c w)"
proof (cases "sn_port_forward_socket c")
  case True
  with assms(1) show ?thesis by (simp add: dispatch_def)
next
  case False
  note v = conn_ok_video [OF assms(1,2)]
  note rem = conn_ok_remote [OF assms(1)]
  have fa: "handled_ok c (on_file_action e fa c)" if "sn_authed_conn_id c = Some ConnRemote" for fa
    using that rem(1) by (intro on_file_action_ok) simp
  have vc: "sn_authed_conn_id c = Some ConnRemote \<or> sn_authed_conn_id c = Some ConnViewCamera"
    using assms(2) by (simp add: av_session_def)
  have shot: "effs_ok c (screenshot d sid c)" for d sid
    using v by (auto simp: screenshot_def video_conn_def allowed_defs split: if_splits)
  show ?thesis
  proof (cases msg)
    case None
    with assms(1) False show ?thesis by (simp add: dispatch_def)
  next
    case (Some u)
    show ?thesis
    proof (cases u)
      case (Misc m)
      with Some False assms show ?thesis by (simp add: dispatch_def on_misc_av_ok is_view_camera_scoped_message_def)
    next
      case (TerminalAction act)
      with Some assms(1) vc show ?thesis by (auto intro!: dispatch_no_token)
    next
      case (PortForwardChannel ch)
      with Some assms(1) show ?thesis by (simp add: dispatch_channel_ok)
    next
      case (FileAction fa1)
      with Some vc assms(3) have r: "sn_authed_conn_id c = Some ConnRemote" by (auto simp: is_view_camera_scoped_message_def)
      with Some FileAction False assms(1) fa show ?thesis by (simp add: dispatch_def keep_on_ok)
    next
      case (FileResponse fr)
      with Some vc assms(3) have r: "sn_authed_conn_id c = Some ConnRemote" by (auto simp: is_view_camera_scoped_message_def)
      with Some FileResponse False assms(1) show ?thesis by (simp add: dispatch_def keep_on_effs_ok on_file_response_ok)
    qed (use Some False assms in \<open>simp_all add: dispatch_def keep_on_ok keep_on_effs_ok on_mouse_ok on_pointer_ok on_key_ok
           on_clipboards_ok on_voice_call_request_ok shot\<close>)
  qed
qed

lemma dispatch_file_ok:
  assumes "conn_ok c" "sn_authed_conn_id c = Some ConnFileTransfer" "is_file_transfer_scoped_message msg"
  shows "step_ok c w (dispatch e msg c w)"
proof -
  obtain u where u: "msg = Some u" using assms(3) by (cases msg) (simp_all add: is_file_transfer_scoped_message_def)
  have s: "\<not> sn_port_forward_socket c" using conn_ok_mux(2) [OF assms(1)] assms(2) by simp
  show ?thesis
    by (cases u) (use assms u s in \<open>simp_all add: dispatch_def keep_on_ok on_file_action_ok keep_on_effs_ok on_file_response_ok
        is_file_transfer_scoped_message_def is_file_transfer_scoped_misc_def\<close>)
qed

lemma dispatch_terminal_misc_ok:
  assumes "conn_ok c" "sn_authed_conn_id c = Some ConnTerminal" "is_terminal_scoped_message msg"
  shows "step_ok c w (dispatch e msg c w)"
proof -
  obtain u where u: "msg = Some u" using assms(3) by (cases msg) (simp_all add: is_terminal_scoped_message_def)
  have s: "\<not> sn_port_forward_socket c" using conn_ok_mux(2) [OF assms(1)] assms(2) by simp
  have chat: "handled_ok c (misc_effects e (ChatMessage x) c)" for x
    using assms(2) by (simp add: misc_effects_def handled_ok_def allowed_defs)
  have misc: "step_ok c w (on_misc e m c w)" if m: "is_terminal_scoped_misc m" for m
  proof -
    obtain m1 where m1: "m = Some m1" using m by (cases m) (simp_all add: is_terminal_scoped_misc_def)
    show ?thesis
      by (cases m1) (use m m1 assms(1) chat on_misc_option_ok [OF assms(1)] in
          \<open>simp_all add: is_terminal_scoped_misc_def on_misc_def keep_on_ok\<close>)
  qed
  show ?thesis
    by (cases u) (use assms u s misc dispatch_terminal_ok [OF assms(1,2)] in
        \<open>simp_all add: is_terminal_scoped_message_def dispatch_def [of _ "Some (Misc _)"]\<close>)
qed

lemma dispatch_port_forward_ok:
  assumes "conn_ok c" "is_port_forward_scoped_message msg"
  shows "step_ok c w (dispatch e msg c w)"
proof -
  obtain u where u: "msg = Some u" using assms(2) by (cases msg) (simp_all add: is_port_forward_scoped_message_def)
  show ?thesis
    by (cases u) (use assms u dispatch_channel_ok [OF assms(1)] in \<open>simp_all add: is_port_forward_scoped_message_def\<close>)
qed

lemma dispatch_ok:
  assumes "conn_ok c" "sn_authed_conn_id c = Some t" "authorized_message_scope_violation t msg = None"
    "\<not> is_connection_housekeeping_message msg"
  shows "step_ok c w (dispatch e msg c w)"
proof -
  have clip: "step_ok c w (dispatch e msg c w)" if "is_text_clipboard_noop_compat_message msg"
    using that dispatch_clipboard_ok [OF assms(1)] by (cases rule: clipboard_noop_cases) simp_all
  note rnd = dispatch_render_ok [OF assms(1)]
  from violation_none [OF assms(3,4)] show ?thesis
  proof (elim disjE conjE)
    assume "t = ConnRemote"
    then show ?thesis using assms by (intro dispatch_av_ok) (simp_all add: av_session_def)
  next
    assume "t = ConnViewCamera" "is_view_camera_scoped_message msg"
    then show ?thesis using assms by (intro dispatch_av_ok) (simp_all add: av_session_def)
  qed (use assms(1,2) clip rnd in \<open>simp_all add: dispatch_file_ok dispatch_terminal_misc_ok dispatch_port_forward_ok\<close>)
qed

lemma handle_violation_ok:
  assumes "conn_ok c" "sn_authed_conn_id c \<noteq> None"
  shows "step_ok c w (handle_authorized_scope_violation e msg c w)"
proof -
  define c1 where "c1 = c\<lparr>sn_scope_violation_messages := List.insert msg (sn_scope_violation_messages c)\<rparr>"
  have core1: "core c1 = core c" "opts_default c1 = opts_default c" by (simp_all add: c1_def core_def opts_default_def)
  have ok1: "conn_ok c1" by (rule core_conn_ok [OF core1(1) assms(1)]) (simp add: core1(2))
  have effs: "effs_ok c1 = effs_ok c" by (rule core_effs [OF core1(1)])
  note p = core_perms [OF core1(1)]
  show ?thesis
    using on_close_ok [OF ok1, of e True] on_close_kept [of c1 e True] core_kept [OF core1(1)] ok1 effs p assms(2)
    by (auto simp: handle_authorized_scope_violation_def c1_def [symmetric] send_close_reason_no_retry_def check_remove_session_def
        step_ok_def Let_def allowed_defs session_kept_def split: prod.splits)
qed

section \<open>The authorisation\<close>

definition before_login :: "session_conn \<Rightarrow> bool" where
  "before_login c = (scope_recorded c \<and> \<not> is_port_forward c \<and> opts_default c \<and>
     (ac_terminal_token (sn_auth c) \<noteq> None \<longrightarrow> conn_type_of (lr_union (sn_lr c)) = ConnTerminal))"

lemma connected_ok:
  assumes "before_login c" "ac_authorized (sn_auth c)"
  shows "select_conn_type (connect_port_forward c) = conn_type_of (lr_union (sn_lr c))"
    "conn_ok ((connect_port_forward c)\<lparr>sn_authed_conn_id := Some (conn_type_of (lr_union (sn_lr c)))\<rparr>)"
  using assms
  by (auto simp: before_login_def connect_port_forward_def select_conn_type_def scope_recorded_def conn_ok_def conn_type_of_def
      is_port_forward_def opts_default_def Let_def split: option.splits login_union.splits)

lemma connect_frame [simp]:
  "sn_auth (connect_port_forward c) = sn_auth c" "sn_lr (connect_port_forward c) = sn_lr c"
  "sn_login_scope (connect_port_forward c) = sn_login_scope c" "sn_control_permissions (connect_port_forward c) = sn_control_permissions c"
  by (auto simp: connect_port_forward_def split: option.splits login_union.splits)

lemma update_codec_ok: "av_session (sn_authed_conn_id c) \<Longrightarrow> effs_ok c (update_codec_on_login c)"
  by (simp add: update_codec_on_login_def split: option.splits)

lemma login_response_ok:
  assumes "conn_ok c" "sn_authed_conn_id c = Some t" "\<not> is_port_forward c" "login_response e t c = (sub, f, c')"
  shows "effs_ok c f \<and> core c' = core c \<and> opts_default c' = opts_default c \<and> (sub \<longrightarrow> t = ConnRemote)"
proof -
  have rem: "t = ConnRemote" if "sn_file_transfer c = None" "\<not> ac_terminal (sn_auth c)" "\<not> sn_view_camera c"
    using assms(1-3) that by (auto simp: conn_ok_def scope_recorded_def conn_type_of_def Let_def split: if_splits option.splits login_union.splits)
  have cam: "t = ConnViewCamera" if "sn_view_camera c"
    using assms(1-3) that by (auto simp: conn_ok_def scope_recorded_def conn_type_of_def Let_def split: if_splits)
  show ?thesis
    using assms(2,4) rem cam update_codec_ok [of c]
    by (cases "sn_file_transfer c = None") (auto simp: login_response_def peer_msg_allowed_def av_session_def split: if_splits sum.splits)
qed

lemma scoped_login_options_ok:
  assumes "conn_ok c" "update_scoped_login_options e c tw = (f, c', tw')"
  shows "effs_ok c f \<and> core c' = core c \<and> (opts_default c \<longrightarrow> opts_default c' \<or> sn_authed_conn_id c = Some ConnRemote) \<and>
    term_sessions tw' = term_sessions tw"
proof (cases "sn_options_in_login c")
  case None
  with assms show ?thesis by (simp add: update_scoped_login_options_def)
next
  case (Some o1)
  define c1 where "c1 = c\<lparr>sn_options_in_login := None\<rparr>"
  have fr: "core c1 = core c" "opts_default c1 = opts_default c" by (simp_all add: c1_def core_def opts_default_def)
  note p = core_perms [OF fr(1)] and ef = core_effs [OF fr(1)]
  show ?thesis
  proof (cases "sn_authed_conn_id c")
    case None
    with assms Some have "f = []" "c' = c1" "tw' = tw"
      by (auto simp: update_scoped_login_options_def authed_conn_type_def c1_def [symmetric] p Let_def)
    with fr show ?thesis by simp
  next
    case (Some t)
    show ?thesis
    proof (cases "fst (scoped_login_option t o1)")
      case None
      with assms Some \<open>sn_options_in_login c = Some o1\<close> have "f = []" "c' = c1" "tw' = tw"
        by (auto simp: update_scoped_login_options_def authed_conn_type_def c1_def [symmetric] p Let_def)
      with fr show ?thesis by simp
    next
      case (Some o2)
      with assms \<open>sn_authed_conn_id c = Some t\<close> \<open>sn_options_in_login c = Some o1\<close>
      have u: "update_options e o2 c1 tw = (f, c', tw')"
        by (simp add: update_scoped_login_options_def authed_conn_type_def c1_def [symmetric] p Let_def)
      have "effs_ok c1 f \<and> (opts_default c1 \<longrightarrow> opts_default c' \<or> t = ConnRemote)"
      proof (cases t)
        case ConnRemote
        with update_options_remote [OF u] p \<open>sn_authed_conn_id c = Some t\<close> show ?thesis by simp
      next
        case ConnViewCamera
        with limited_camera [of o1 o2] Some have l: "limited_option o2" by (simp add: scoped_login_option_def)
        have "av_session (sn_authed_conn_id c1)" using ConnViewCamera p \<open>sn_authed_conn_id c = Some t\<close> by (simp add: av_session_def)
        with update_options_limited(1) [OF l u] update_options_limited_opts [OF l u] show ?thesis
          by (simp add: video_option_ok upd_disable_audio_ok)
      next
        case ConnTerminal
        with limited_terminal [of o1 o2] Some
        have l: "limited_option o2" "om_disable_audio o2 = 0" "video_option_effects o2 = []" by (simp_all add: scoped_login_option_def)
        with update_options_limited(1) [OF l(1) u] update_options_limited_opts [OF l(1) u] show ?thesis
          by (simp add: upd_disable_audio_def)
      qed (use Some in \<open>simp_all add: scoped_login_option_def\<close>)
      with update_options_core [OF u] update_options_sessions [OF u] fr ef \<open>sn_authed_conn_id c = Some t\<close> show ?thesis by simp
    qed
  qed
qed

lemma effect_allowed_keyboard:
  "t \<noteq> Some ConnRemote \<Longrightarrow> effect_allowed t (p\<lparr>cp_keyboard := b\<rparr>) x = effect_allowed t p x"
  by (cases x) (simp_all add: subscription_allowed_def)

lemma effs_ok_keyboard: "sn_authed_conn_id c \<noteq> Some ConnRemote \<Longrightarrow> effs_ok (set_keyboard b c) f = effs_ok c f"
  by (simp add: effs_ok_def set_keyboard_def effect_allowed_keyboard list_all_iff)

lemma keyboard_ok: "conn_ok c \<Longrightarrow> conn_ok (set_keyboard b c)"
  by (auto simp: conn_ok_def scope_recorded_def set_keyboard_def is_port_forward_def opts_default_def)

lemma init_terminal_frame:
  assumes "init_terminal_service e c tw = (c', tw')"
  shows "core c' = core c" "opts_default c' = opts_default c"
  using assms by (auto simp: init_terminal_service_def core_def opts_default_def Let_def split: option.splits)

lemma sub_monitor_ok:
  assumes "sn_authed_conn_id c = Some ConnRemote"
  shows "handled_ok c (try_sub_monitor_services e c)"
  using assms
  by (auto simp: handled_ok_def try_sub_monitor_services_def Let_def core_def opts_default_def noperms_cover_def
      can_sub_clipboard_service_def clipboard_enabled_def peer_keyboard_enabled_def audio_enabled_def)

text \<open>The end of the authorisation leaves a consistent connection, with effects of its type only.\<close>

lemma start_services_ok:
  assumes "conn_ok c" "sn_authed_conn_id c = Some t" "\<not> is_port_forward c" "sub \<Longrightarrow> t = ConnRemote"
    "start_services e sub c tw = (f, c', tw')"
  shows "conn_ok c' \<and> effs_ok c' f \<and> (\<forall>g. effs_ok c g \<longrightarrow> effs_ok c' g) \<and> session_kept c c' \<and> sn_authed_conn_id c' = Some t \<and>
    (t \<noteq> ConnTerminal \<longrightarrow> term_sessions tw' = term_sessions tw)"
proof -
  have kept: "session_kept c d" if "core d = core c" for d using that by (simp add: session_kept_def core_def)
  have kb: "conn_ok (set_keyboard False c)" "session_kept c (set_keyboard False c)" "sn_authed_conn_id (set_keyboard False c) = sn_authed_conn_id c"
    using keyboard_ok [OF assms(1)] by (simp_all add: session_kept_def set_keyboard_def)
  have ty: "sn_file_transfer c \<noteq> None \<Longrightarrow> t = ConnFileTransfer" "sn_file_transfer c = None \<Longrightarrow> ac_terminal (sn_auth c) \<Longrightarrow> t = ConnTerminal"
    "sn_view_camera c \<Longrightarrow> t = ConnViewCamera"
    using assms(1-3) by (auto simp: conn_ok_def scope_recorded_def conn_type_of_def Let_def split: if_splits option.splits login_union.splits)
  consider (fil) d h where "sn_file_transfer c = Some (d, h)" | (trm) "sn_file_transfer c = None" "ac_terminal (sn_auth c)"
    | (cam) "sn_file_transfer c = None" "\<not> ac_terminal (sn_auth c)" "sn_view_camera c"
    | (rem) "sn_file_transfer c = None" "\<not> ac_terminal (sn_auth c)" "\<not> sn_view_camera c"
    by (cases "sn_file_transfer c") auto
  then show ?thesis
  proof cases
    case fil
    with assms(5) ty(1) kb assms(2) show ?thesis by (auto simp: start_services_def effs_ok_keyboard cm_data_allowed_def)
  next
    case trm
    obtain c1 tw1 where i: "init_terminal_service e (set_keyboard False c) tw = (c1, tw1)" by (metis surj_pair)
    note fr = init_terminal_frame [OF i]
    have t: "t = ConnTerminal" using ty(2) trm by simp
    have "conn_ok c1" by (rule core_conn_ok [OF fr(1) kb(1)]) (simp add: fr(2))
    moreover have "session_kept c c1" "sn_authed_conn_id c1 = Some t" "effs_ok c1 = effs_ok (set_keyboard False c)"
      using fr(1) kb(2,3) assms(2) by (auto simp: session_kept_def core_def intro: core_effs [OF fr(1)])
    ultimately show ?thesis using assms(2,5) t i trm effs_ok_keyboard [of c False] by (auto simp: start_services_def)
  next
    case cam
    with assms(2,5) ty(3) kb show ?thesis by (auto simp: start_services_def effs_ok_keyboard peer_msg_allowed_def)
  next
    case rem
    obtain f1 c1 where s: "try_sub_monitor_services e c = (f1, c1)" by (metis surj_pair)
    have t: "t = ConnRemote" using assms(1-3) rem
      by (auto simp: conn_ok_def scope_recorded_def conn_type_of_def Let_def split: if_splits option.splits login_union.splits)
    with sub_monitor_ok [of c e] assms(2) s have h: "effs_ok c f1" "core c1 = core c" by (simp_all add: handled_ok_def)
    have c1: "conn_ok c1" "session_kept c c1" "effs_ok c1 = effs_ok c" "sn_authed_conn_id c1 = Some t"
      using t assms(2) core_conn_ok [OF h(2) assms(1)] kept [OF h(2)] core_effs [OF h(2)] core_perms(2) [OF h(2)] by simp_all
    from rem s assms(5) have "(f, c', tw') = (if sub then (f1, c1, tw) else ([], c, tw))" by (cases sub) (simp_all add: start_services_def)
    then consider "f = f1" "c' = c1" "tw' = tw" | "f = []" "c' = c" "tw' = tw" by (cases sub) simp_all
    then show ?thesis using c1 h(1) assms(1,2) by cases simp_all
  qed
qed

lemma after_authorized_ok:
  assumes "before_login c" "ac_authorized (sn_auth c)" "after_authorized e c tw = (f, c', tw')"
  shows "conn_ok c' \<and> effs_ok c' f \<and> session_kept c c' \<and>
    (sn_authed_conn_id c' \<noteq> Some ConnTerminal \<longrightarrow> term_sessions tw' = term_sessions tw)"
proof -
  define t where "t = conn_type_of (lr_union (sn_lr c))"
  define c2 where "c2 = (connect_port_forward c)\<lparr>sn_authed_conn_id := Some t\<rparr>"
  have ok2: "conn_ok c2" "select_conn_type (connect_port_forward c) = t"
    using connected_ok [OF assms(1,2)] by (simp_all add: c2_def t_def)
  have kept2: "session_kept c c2" "sn_authed_conn_id c2 = Some t" by (simp_all add: session_kept_def c2_def)
  have run: "after_authorized e c tw =
     (if is_port_forward c2 then ([ToPeer (PLoginResponse t)], c2, tw)
      else if is_remote c2 \<and> ev_login_screen_error e \<noteq> [] then ([ToPeer (PLoginResponseError (ev_login_screen_error e))], c2, tw)
      else case login_response e t c2 of
        (sub_service, f1, c3) \<Rightarrow>
          (case update_scoped_login_options e c3 tw of
             (f2, c4, tw1) \<Rightarrow> (case start_services e sub_service c4 tw1 of (f3, c5, tw2) \<Rightarrow> (f1 @ f2 @ f3, c5, tw2))))"
    unfolding after_authorized_def Let_def ok2(2) c2_def ..
  show ?thesis
  proof (cases "is_port_forward c2 \<or> is_remote c2 \<and> ev_login_screen_error e \<noteq> []")
    case True
    then show ?thesis using assms(3) ok2(1) kept2 unfolding run
      by (auto simp: peer_msg_allowed_def split: if_splits)
  next
    case False
    then have npf: "\<not> is_port_forward c2" by simp
    obtain sub f1 c3 where l: "login_response e t c2 = (sub, f1, c3)" by (metis prod_cases3)
    obtain f2 c4 tw1 where u: "update_scoped_login_options e c3 tw = (f2, c4, tw1)" by (metis prod_cases3)
    obtain f3 c5 tw2 where st: "start_services e sub c4 tw1 = (f3, c5, tw2)" by (metis prod_cases3)
    from login_response_ok [OF ok2(1) kept2(2) npf l]
    have l': "effs_ok c2 f1" "core c3 = core c2" "opts_default c3 = opts_default c2" "sub \<Longrightarrow> t = ConnRemote" by simp_all
    have ok3: "conn_ok c3" by (rule core_conn_ok [OF l'(2) ok2(1)]) (simp add: l'(3))
    from scoped_login_options_ok [OF ok3 u]
    have u': "effs_ok c3 f2" "core c4 = core c3" "opts_default c3 \<longrightarrow> opts_default c4 \<or> sn_authed_conn_id c3 = Some ConnRemote"
      "term_sessions tw1 = term_sessions tw" by simp_all
    have ok4: "conn_ok c4" by (rule core_conn_ok [OF u'(2) ok3]) (use u'(3) in blast)
    have c42: "core c4 = core c2" using l'(2) u'(2) by simp
    have a4: "sn_authed_conn_id c4 = Some t" "\<not> is_port_forward c4" "session_kept c2 c4"
      using c42 kept2(2) npf by (simp_all add: core_def is_port_forward_def session_kept_def)
    from start_services_ok [OF ok4 a4(1,2) l'(4) st]
    have s': "conn_ok c5" "effs_ok c5 f3" "\<And>g. effs_ok c4 g \<Longrightarrow> effs_ok c5 g" "session_kept c4 c5" "sn_authed_conn_id c5 = Some t"
      "t \<noteq> ConnTerminal \<Longrightarrow> term_sessions tw2 = term_sessions tw1" by simp_all
    have "effs_ok c5 f1" using l'(1) core_effs [OF c42] s'(3) by simp
    moreover have "effs_ok c5 f2" using u'(1) core_effs [OF u'(2)] s'(3) by simp
    moreover have "session_kept c c5" using kept2(1) a4(3) s'(4) by (simp add: session_kept_def)
    moreover have "c' = c5" "f = f1 @ f2 @ f3" "tw' = tw2"
      using assms(3) False l u st unfolding run by auto
    ultimately show ?thesis using s' u'(4) by auto
  qed
qed

end
