(* ===== verification/Session_Events.thy ===== *)
theory Session_Events
  imports Session_Isolation Remove_Log Plain_Forward
begin

text \<open>
  The rest of \<open>Connection::start\<close> in \<open>src/server/connection.rs\<close>: the IP whitelist and the opening of a
  connection, the events of the connection manager, messages of the services, the timers, and what
  follows the loop, with the thread that injects the input.

  \<^item> An event names one branch of the \<open>select!\<close> and carries the environment at its time; a branch whose
    condition does not hold changes nothing.  Branches of Windows builds are left out.
  \<^item> What the connection manager answers to a request for files carries the parsed directory; \<open>Inr None\<close>
    is a directory that does not parse.
  \<^item> A failed send ends the connection; the messages of that turn are not reported.
\<close>

section \<open>Opening\<close>

text \<open>\<open>cidr_contains\<close> is \<open>IpCidr::from_str\<close> followed by \<open>contains\<close> of the library, false for a text that does not
  parse.\<close>

definition check_whitelist :: "(string \<Rightarrow> string \<Rightarrow> bool) \<Rightarrow> string \<Rightarrow> string \<Rightarrow> bool" where
  "check_whitelist cidr_contains option_text ip =
     (let whitelist = filter (\<lambda>x. x \<noteq> []) (split_on (CHR '','') option_text) in
      \<not> (whitelist \<noteq> [] \<and> filter (\<lambda>x. x = ''0.0.0.0'') whitelist = [] \<and> filter (\<lambda>x. cidr_contains x ip) whitelist = []))"

definition opening_permissions :: "conn_perms \<Rightarrow> conn_effect list" where
  "opening_permissions p =
     (if \<not> cp_keyboard p then [ToPeer (PPermission PKeyboard False)] else []) @
     (if \<not> cp_clipboard p then [ToPeer (PPermission PClipboard False)] else []) @
     (if \<not> cp_audio p then [ToPeer (PPermission PAudio False)] else []) @
     (if \<not> cp_file p then [ToPeer (PPermission PFile False)] else []) @
     (if \<not> cp_restart p then [ToPeer (PPermission PRestart False)] else []) @
     (if \<not> cp_recording p then [ToPeer (PPermission PRecording False)] else []) @
     (if \<not> cp_block_input p then [ToPeer (PPermission PBlockInput False)] else []) @
     (if \<not> cp_privacy_mode p then [ToPeer (PPermission PPrivacyMode False)] else [])"

text \<open>\<open>window_missing\<close>: this is the server process and \<open>check_process\<close> finds no main window.\<close>

definition conn_on_open :: "session_env \<Rightarrow> (string \<Rightarrow> string \<Rightarrow> bool) \<Rightarrow> bool \<Rightarrow> string \<Rightarrow> session_conn \<Rightarrow> bool \<times> conn_effect list \<times> session_conn" where
  "conn_on_open e cidr_contains window_missing ip c =
     (if \<not> check_whitelist cidr_contains (ev_opts e ''whitelist'') ip
      then (False, [login_error ''Your ip is blocked by the peer'', IpWhitelistAlarm], c)
      else if window_missing \<and> ev_opts e ''allow-only-conn-window-open'' = ''Y''
      then (False, [login_error ''The main window is not open''], c)
      else (True, [ToPeer (PHash (ac_salt (sn_auth c)) (ac_challenge (sn_auth c)))],
            c\<lparr>sn_auth := (sn_auth c)\<lparr>ac_ip := ip\<rparr>\<rparr>))"

definition open_session :: "session_env \<Rightarrow> (string \<Rightarrow> string \<Rightarrow> bool) \<Rightarrow> bool \<Rightarrow> string \<Rightarrow> session_conn \<Rightarrow> bool \<times> conn_effect list \<times> session_conn" where
  "open_session e cidr_contains window_missing ip c =
     (case conn_on_open e cidr_contains window_missing ip c of
        (ok, f, c1) \<Rightarrow> if ok then (True, f @ opening_permissions (sn_perms c1), c1) else (False, f, c1\<lparr>sn_closed := True\<rparr>))"

section \<open>Files read by the connection manager\<close>

definition handle_read_job_init_result ::
  "int \<Rightarrow> string + (string \<times> file_entry list) option \<Rightarrow> session_conn \<Rightarrow> conn_effect list \<times> session_conn" where
  "handle_read_job_init_result i r c =
     (if i \<notin> set (sn_cm_read_job_ids c) then ([], c)
      else
        let stop = c\<lparr>sn_cm_read_job_ids := removeAll i (sn_cm_read_job_ids c)\<rparr> in
        case r of
          Inl err \<Rightarrow> ([ToPeer (PFileError i err 0)], stop)
        | Inr None \<Rightarrow> ([ToPeer (PFileError i ''internal error'' 0)], stop)
        | Inr (Some (path, entries)) \<Rightarrow>
            ([ToPeer (PFileDir i path entries), FileAudit False path (files_for_audit JGeneric entries)],
             c\<lparr>sn_file_transferred := True\<rparr>))"

definition handle_file_block_from_cm :: "int \<Rightarrow> int \<Rightarrow> bytes \<Rightarrow> bool \<Rightarrow> session_conn \<Rightarrow> conn_effect list" where
  "handle_file_block_from_cm i file_num d compressed c =
     (if i \<notin> set (sn_cm_read_job_ids c) then []
      else [ToPeer (PFileMsg (MBlock \<lparr>blk_id = i, blk_file_num = file_num, blk_data = d, blk_compressed = compressed\<rparr>))])"

definition handle_file_read_done :: "int \<Rightarrow> int \<Rightarrow> session_conn \<Rightarrow> conn_effect list \<times> session_conn" where
  "handle_file_read_done i file_num c =
     (if i \<notin> set (sn_cm_read_job_ids c) then ([], c)
      else ([ToPeer (PFileMsg (MDone i file_num))], c\<lparr>sn_cm_read_job_ids := removeAll i (sn_cm_read_job_ids c)\<rparr>))"

definition handle_file_read_error :: "int \<Rightarrow> int \<Rightarrow> string \<Rightarrow> session_conn \<Rightarrow> conn_effect list \<times> session_conn" where
  "handle_file_read_error i file_num err c =
     (if i \<notin> set (sn_cm_read_job_ids c) then ([], c)
      else ([ToPeer (PFileError i err file_num)], c\<lparr>sn_cm_read_job_ids := removeAll i (sn_cm_read_job_ids c)\<rparr>))"

definition handle_file_digest_from_cm :: "int \<Rightarrow> int \<Rightarrow> nat \<Rightarrow> nat \<Rightarrow> bool \<Rightarrow> session_conn \<Rightarrow> conn_effect list" where
  "handle_file_digest_from_cm i file_num last_modified file_size is_resume c =
     (if i \<notin> set (sn_cm_read_job_ids c) then []
      else [ToPeer (PFileMsg (MDigest i file_num last_modified file_size is_resume))])"

definition handle_all_files_result ::
  "int \<Rightarrow> string \<Rightarrow> string + string + string \<times> file_entry list \<Rightarrow> conn_effect list" where
  "handle_all_files_result i path r =
     (case r of
        Inl err \<Rightarrow> [ToPeer (PFileError i err (- 1))]
      | Inr (Inr (p, entries)) \<Rightarrow> [ToPeer (PFileDir i p entries)]
      | Inr (Inl e) \<Rightarrow> [ToPeer (PFileError i (''deserialize failed for '' @ path @ '': '' @ e) (- 1))])"

section \<open>Events of the connection manager\<close>

datatype privacy_off_state = OffSucceeded | OffByPeer | OffUnknown

datatype cm_event =
    CeAuthorize
  | CeClose
  | CeWindowClosed
  | CeErr string
  | CeChat string
  | CeSwitchPermission string bool
  | CeRawMessage bytes
  | CePrivacyModeState privacy_off_state string
  | CeSwitchSidesBack
  | CeVoiceCallResponse bool
  | CeCloseVoiceCall
  | CeReadJobInitResult int int "string + (string \<times> file_entry list) option"
  | CeFileBlock int int bytes bool int
  | CeFileReadDone int int int
  | CeFileReadError int int string int
  | CeFileDigest int int nat nat bool int
  | CeAllFilesResult int int string "string + string + string \<times> file_entry list"

definition switch_privacy_permission :: "session_env \<Rightarrow> bool \<Rightarrow> session_conn \<Rightarrow> conn_effect list \<times> session_conn" where
  "switch_privacy_permission e enabled c =
     (let pv = ev_privacy e;
          done = ([ToPeer (PPermission PPrivacyMode enabled)], c\<lparr>sn_perms := (sn_perms c)\<lparr>cp_privacy_mode := enabled\<rparr>\<rparr>)
      in if \<not> enabled \<and> pv_is_in pv \<and> pv_conn_id pv = Some (sn_id c) then
           (let impl_key = (case pv_cur_impl pv of Some k \<Rightarrow> k | None \<Rightarrow> []) in
            case pv_turn_off pv of
              Some (Inr _) \<Rightarrow> ([PrivacyTurnOff True, ToPeer (PPrivacy PrvOffByPeer [] impl_key)] @ fst done, snd done)
            | r \<Rightarrow> ([PrivacyTurnOff True, ToPeer (turn_off_privacy_result_to_msg r impl_key),
                     ToCm (CmSwitchPermission ''privacy_mode'' (cp_privacy_mode (sn_perms c)))], c))
         else done)"

definition switch_permission :: "session_env \<Rightarrow> string \<Rightarrow> bool \<Rightarrow> session_conn \<Rightarrow> conn_effect list \<times> session_conn" where
  "switch_permission e name enabled c =
     (if name = ''keyboard'' then
        (let c1 = c\<lparr>sn_perms := (sn_perms c)\<lparr>cp_keyboard := enabled\<rparr>\<rparr>
         in (ToPeer (PPermission PKeyboard enabled) #
             subs e [(''clipboard'', can_sub_clipboard_service (ev_builtin e) c1),
                     (''mouse_cursor'', enabled \<or> co_show_remote_cursor (sn_opts c1))], c1))
      else if name = ''clipboard'' then
        (let c1 = c\<lparr>sn_perms := (sn_perms c)\<lparr>cp_clipboard := enabled\<rparr>\<rparr>
         in (ToPeer (PPermission PClipboard enabled) # subs e [(''clipboard'', can_sub_clipboard_service (ev_builtin e) c1)], c1))
      else if name = ''audio'' then
        (let c1 = c\<lparr>sn_perms := (sn_perms c)\<lparr>cp_audio := enabled\<rparr>\<rparr>
         in (ToPeer (PPermission PAudio enabled) # (if ac_authorized (sn_auth c1) then sub_audio e c1 else []), c1))
      else if name = ''file'' then
        ([ToPeer (PPermission PFile enabled)], c\<lparr>sn_perms := (sn_perms c)\<lparr>cp_file := enabled\<rparr>\<rparr>)
      else if name = ''restart'' then
        ([ToPeer (PPermission PRestart enabled)], c\<lparr>sn_perms := (sn_perms c)\<lparr>cp_restart := enabled\<rparr>\<rparr>)
      else if name = ''recording'' then
        ([ToPeer (PPermission PRecording enabled)], c\<lparr>sn_perms := (sn_perms c)\<lparr>cp_recording := enabled\<rparr>\<rparr>)
      else if name = ''block_input'' then
        ([ToPeer (PPermission PBlockInput enabled)], c\<lparr>sn_perms := (sn_perms c)\<lparr>cp_block_input := enabled\<rparr>\<rparr>)
      else if name = ''privacy_mode'' then switch_privacy_permission e enabled c
      else ([], c))"

definition cm_authorize ::
  "session_env \<Rightarrow> session_conn \<Rightarrow> session_world \<Rightarrow> bool \<times> conn_effect list \<times> session_conn \<times> session_world" where
  "cm_authorize e c w =
     (let c1 = c\<lparr>sn_auth := (sn_auth c)\<lparr>ac_primary := PaClick, ac_require_2fa := False\<rparr>\<rparr> in
      case finish_login e (send_logon_response_and_keep_alive (login_env e [] c1 w) (sn_auth c1) (sw_auth w)) c1 w of
        (keep, f, c2, w2) \<Rightarrow> (keep \<and> \<not> sn_port_forward_socket c2, f, c2, w2))"

definition privacy_state_msg :: "privacy_off_state \<Rightarrow> string \<Rightarrow> peer_msg" where
  "privacy_state_msg state impl_key =
     (case state of
        OffSucceeded \<Rightarrow> PPrivacy PrvOffSucceeded [] impl_key
      | OffByPeer \<Rightarrow> PPrivacy PrvOffByPeer [] impl_key
      | OffUnknown \<Rightarrow> PPrivacy PrvOffUnknown [] impl_key)"

text \<open>The answers about files; they carry the connection they are for.\<close>

definition on_cm_file :: "cm_event \<Rightarrow> session_conn \<Rightarrow> conn_effect list \<times> session_conn" where
  "on_cm_file ev c =
     (case ev of
        CeReadJobInitResult i conn_id r \<Rightarrow> if conn_id = sn_id c then handle_read_job_init_result i r c else ([], c)
      | CeFileBlock i file_num d compressed conn_id \<Rightarrow>
          (if conn_id = sn_id c then handle_file_block_from_cm i file_num d compressed c else [], c)
      | CeFileReadDone i file_num conn_id \<Rightarrow> if conn_id = sn_id c then handle_file_read_done i file_num c else ([], c)
      | CeFileReadError i file_num err conn_id \<Rightarrow> if conn_id = sn_id c then handle_file_read_error i file_num err c else ([], c)
      | CeFileDigest i file_num last_modified file_size is_resume conn_id \<Rightarrow>
          (if conn_id = sn_id c then handle_file_digest_from_cm i file_num last_modified file_size is_resume c else [], c)
      | CeAllFilesResult i conn_id path r \<Rightarrow> (if conn_id = sn_id c then handle_all_files_result i path r else [], c)
      | _ \<Rightarrow> ([], c))"

definition on_cm_event ::
  "session_env \<Rightarrow> cm_event \<Rightarrow> session_conn \<Rightarrow> session_world \<Rightarrow> bool \<times> conn_effect list \<times> session_conn \<times> session_world" where
  "on_cm_event e ev c w =
     (case ev of
        CeAuthorize \<Rightarrow> cm_authorize e c w
      | CeClose \<Rightarrow>
          let c1 = c\<lparr>sn_chat_unanswered := False, sn_file_transferred := False\<rparr> in
          (case send_close_reason_no_retry e [] c1 w of
             (f1, w1) \<Rightarrow> (case on_close e True c1 of (f2, c2) \<Rightarrow> (False, f1 @ f2, c2, w1)))
      | CeWindowClosed \<Rightarrow>
          (case on_close e True (c\<lparr>sn_chat_unanswered := False, sn_file_transferred := False\<rparr>) of (f, c1) \<Rightarrow> (False, f, c1, w))
      | CeErr err \<Rightarrow>
          if err \<noteq> ''expected'' then (case on_close e False c of (f, c1) \<Rightarrow> (False, f, c1, w)) else (True, [], c, w)
      | CeChat text \<Rightarrow> (True, [ToPeer (PChat text)], c\<lparr>sn_chat_unanswered := False\<rparr>, w)
      | CeSwitchPermission name enabled \<Rightarrow> keep_on (switch_permission e name enabled c) w
      | CeRawMessage d \<Rightarrow> (True, [ToPeer (PRaw d)], c, w)
      | CePrivacyModeState state impl_key \<Rightarrow> (True, [ToPeer (privacy_state_msg state impl_key)], c, w)
      | CeSwitchSidesBack \<Rightarrow> (True, [ToPeer PSwitchBack], c, w)
      | CeVoiceCallResponse accepted \<Rightarrow> keep_on (handle_voice_call e accepted c) w
      | CeCloseVoiceCall \<Rightarrow>
          (case close_voice_call e c of (f, c1) \<Rightarrow> (True, f @ [ToPeer (PVoiceCallRequest False)], c1, w))
      | _ \<Rightarrow> keep_on (on_cm_file ev c) w)"

text \<open>What the file handlers record in the log of removals.\<close>

definition removals_of :: "int \<Rightarrow> conn_effect list \<Rightarrow> removal list" where
  "removals_of now f = List.map_filter (\<lambda>x. case x of
      RemoveLogDir path i recursive \<Rightarrow> Some (RemovedDir now \<lparr>rd_id = i, rd_path = path, rd_recursive = recursive\<rparr>)
    | RemoveLogFile path i file_num \<Rightarrow> Some (RemovedFile now \<lparr>rf_id = i, rf_path = path, rf_file_num = file_num\<rparr>)
    | _ \<Rightarrow> None) f"

section \<open>Messages of the services\<close>

text \<open>A display of \<open>get_sync_displays\<close>; \<open>da_scaled_less off n\<close> is the comparison \<open>off as f64 * scale < n as f64\<close>.\<close>

record display_area =
  da_x :: int
  da_y :: int
  da_width :: int
  da_height :: int
  da_scaled_less :: "int \<Rightarrow> int \<Rightarrow> bool"

record service_env =
  se_displays :: "display_area list"
  se_is_text :: "bytes \<Rightarrow> bool"
  se_ios :: string
  se_send_ok :: bool

definition display_at :: "display_area list \<Rightarrow> int \<Rightarrow> int \<Rightarrow> nat option" where
  "display_at ds x y =
     map_option fst (find (\<lambda>(_, d). x \<ge> da_x d \<and> y \<ge> da_y d \<and> da_scaled_less d (x - da_x d) (da_width d) \<and>
                            da_scaled_less d (y - da_y d) (da_height d)) (enumerate 0 ds))"

definition handle_cursor_switch_display :: "display_area list \<Rightarrow> int \<Rightarrow> int \<Rightarrow> session_conn \<Rightarrow> conn_effect list" where
  "handle_cursor_switch_display ds x y c =
     (if sn_multi_ui_session c then []
      else case display_at ds x y of
        Some d \<Rightarrow> if sn_display_idx c \<noteq> d then [ToPeer (PFollowDisplay d)] else []
      | None \<Rightarrow> [])"

definition is_support_multi_clipboard :: "string \<Rightarrow> string \<Rightarrow> string \<Rightarrow> bool" where
  "is_support_multi_clipboard ios peer_version peer_platform =
     (let v = get_version_number peer_version in
      if v < get_version_number ''1.3.0'' then False
      else if peer_platform = [] \<or> peer_platform = ios then False
      else if peer_platform = ''Android'' \<and> v < get_version_number ''1.3.3'' then False
      else True)"

definition get_msg_if_not_support_multi_clip :: "service_env \<Rightarrow> string \<Rightarrow> string \<Rightarrow> bytes list \<Rightarrow> message option" where
  "get_msg_if_not_support_multi_clip s version platform cbs =
     (if is_support_multi_clipboard (se_ios s) version platform then None
      else map_option (\<lambda>cb. Some (Clipboard cb)) (find (se_is_text s) cbs))"

text \<open>\<open>rx.recv()\<close>: the age of the message in milliseconds, and the message.\<close>

definition on_service_message ::
  "session_env \<Rightarrow> service_env \<Rightarrow> int \<Rightarrow> message \<Rightarrow> session_conn \<Rightarrow> session_world \<Rightarrow> bool \<times> conn_effect list \<times> session_conn \<times> session_world" where
  "on_service_message e s latency msg c w =
     (let send = (\<lambda>f m. if se_send_ok s then (True, f @ [ToPeer (PForward m)], c, w)
                        else (case on_close e False c of (f1, c1) \<Rightarrow> (False, f @ f1, c1, w)))
      in case msg of
        Some (AudioFrame _) \<Rightarrow> if latency > 1000 then (True, [], c, w) else send [] msg
      | Some (Misc (Some (StopService _))) \<Rightarrow>
          (case send_close_reason_no_retry e [] c w of
             (f1, w1) \<Rightarrow> (case on_close e False c of (f2, c1) \<Rightarrow> (False, f1 @ f2, c1, w1)))
      | Some (PeerInfo _) \<Rightarrow> send [RefreshVideoService None] msg
      | Some (CursorPosition x y) \<Rightarrow>
          send (if co_follow_remote_cursor (sn_opts c) then handle_cursor_switch_display (se_displays s) x y c else []) msg
      | Some (MultiClipboards cbs) \<Rightarrow>
          (case get_msg_if_not_support_multi_clip s (lr_version (sn_lr c)) (lr_my_platform (sn_lr c)) cbs of
             Some m \<Rightarrow> send [] m
           | None \<Rightarrow> send [] msg)
      | _ \<Rightarrow> send [] msg)"

text \<open>\<open>rx_video.recv()\<close>: a frame of display \<open>d\<close>, or another message.\<close>

definition on_video_message ::
  "session_env \<Rightarrow> bool \<Rightarrow> nat option \<Rightarrow> message \<Rightarrow> session_conn \<Rightarrow> session_world \<Rightarrow> bool \<times> conn_effect list \<times> session_conn \<times> session_world" where
  "on_video_message e send_ok d msg c w =
     (let f = (case d of Some n \<Rightarrow> if \<not> sn_video_ack_required c then [FrameFetched n] else [] | None \<Rightarrow> []) in
      if send_ok then (True, f @ [ToPeer (PForward msg)], c, w)
      else (case on_close e False c of (f1, c1) \<Rightarrow> (False, f @ f1, c1, w)))"

section \<open>Timers\<close>

definition LOGIN_GRACE :: int where "LOGIN_GRACE = 180000"

definition SEC30 :: int where "SEC30 = 30000"

definition close_loop ::
  "session_env \<Rightarrow> session_conn \<Rightarrow> session_world \<Rightarrow> bool \<times> conn_effect list \<times> session_conn \<times> session_world" where
  "close_loop e c w = (case on_close e True c of (f, c1) \<Rightarrow> (False, f, c1, w))"

definition unauthorized_evicted ::
  "session_env \<Rightarrow> session_conn \<Rightarrow> session_world \<Rightarrow> bool \<times> conn_effect list \<times> session_conn \<times> session_world" where
  "unauthorized_evicted e c w = (if ac_has_place (sn_auth c) then close_loop e c w else (True, [], c, w))"

definition login_deadline ::
  "session_env \<Rightarrow> session_conn \<Rightarrow> session_world \<Rightarrow> bool \<times> conn_effect list \<times> session_conn \<times> session_world" where
  "login_deadline e c w =
     (if \<not> ac_authorized (sn_auth c) \<and> ev_now e \<ge> sn_started c + LOGIN_GRACE then close_loop e c w else (True, [], c, w))"

definition second_timer ::
  "session_env \<Rightarrow> session_conn \<Rightarrow> session_world \<Rightarrow> bool \<times> conn_effect list \<times> session_conn \<times> session_world" where
  "second_timer e c w =
     (case sn_auto_disconnect_timer c of
        Some (instant, minute) \<Rightarrow>
          if (ev_now e - instant) div 1000 > int minute * 60 then
            (case send_close_reason_no_retry e ''Connection failed due to inactivity'' c w of
               (f1, w1) \<Rightarrow> (case on_close e True c of (f2, c1) \<Rightarrow> (False, f1 @ f2, c1, w1)))
          else (True, [], c, w)
      | None \<Rightarrow> (True, [], c, w))"

definition test_delay_timer ::
  "session_env \<Rightarrow> session_conn \<Rightarrow> session_world \<Rightarrow> bool \<times> conn_effect list \<times> session_conn \<times> session_world" where
  "test_delay_timer e c w =
     (if ev_now e - sn_last_recv_time c \<ge> SEC30 then close_loop e c w
      else
        let (f1, c1) = (if sn_last_test_delay c = None \<and> \<not> (sn_port_forward_socket c \<and> ac_authorized (sn_auth c))
                        then ([ToPeer (PTestDelayRequest (sn_network_delay c))], c\<lparr>sn_last_test_delay := Some (ev_now e)\<rparr>) else ([], c));
            f2 = (if is_authed_remote_conn c1 \<or> sn_view_camera c1
                  then (case sn_last_test_delay c1 of Some t \<Rightarrow> [Qos (QosDelayElapsed (ev_now e - t))] | None \<Rightarrow> []) else [])
        in (True, f1 @ f2, c1, w))"

record read_env =
  re_compress :: "bytes \<Rightarrow> bytes"
  re_chunk :: "nat \<Rightarrow> nat"
  re_digest :: "transfer_job \<Rightarrow> string + nat \<times> nat"
  re_read_err :: "string option"
  re_send_ok :: bool

definition file_timer ::
  "session_env \<Rightarrow> read_env \<Rightarrow> session_conn \<Rightarrow> session_world \<Rightarrow> bool \<times> conn_effect list \<times> session_conn \<times> session_world" where
  "file_timer e r c w =
     (if sn_read_jobs c = [] then (True, [], c, w)
      else
        let log = ToCm (CmFileTransferLog ''transfer'') in
        (case handle_read_jobs (re_compress r) (re_chunk r) (ev_open_err e) (re_digest r) (re_read_err r) (ev_fs e) (sn_read_jobs c) of
           (ms, js) \<Rightarrow>
             if re_send_ok r
             then (True, [log] @ map (\<lambda>m. ToPeer (PFileMsg m)) ms @ (if length js < length (sn_read_jobs c) then [log] else []), c\<lparr>sn_read_jobs := js\<rparr>, w)
             else (case on_close e False c of (f, c1) \<Rightarrow> (False, log # f, c1, w))))"

definition console_close ::
  "session_env \<Rightarrow> bool \<Rightarrow> session_conn \<Rightarrow> session_world \<Rightarrow> bool \<times> conn_effect list \<times> session_conn \<times> session_world" where
  "console_close e mine c w =
     (if mine then
        (case send_close_reason_no_retry e ''Closed manually by web console'' c w of
           (f1, w1) \<Rightarrow> (case on_close e True c of (f2, c1) \<Rightarrow> (False, f1 @ f2, c1, w1)))
      else (True, [], c, w))"

section \<open>After the loop\<close>

text \<open>\<open>None\<close> while the relay of a plain port forward runs; \<open>evs\<close> are its events so far.\<close>

definition end_session ::
  "session_env \<Rightarrow> (int \<times> forward_event) list \<Rightarrow> session_conn \<Rightarrow> session_world \<Rightarrow> (conn_effect list \<times> session_conn \<times> session_world) option" where
  "end_session e evs c w =
     (let f1 = (if pv_conn_id (ev_privacy e) = Some (sn_id c) then [PrivacyTurnOff True] else []) @ [FramesReleased];
          socket = sn_port_forward_socket c;
          c1 = c\<lparr>sn_port_forward_socket := False\<rparr>
      in case fst (try_port_forward_loop socket (ev_now e) evs) of
           Some err \<Rightarrow>
             (case on_close e False c1 of
                (f2, c2) \<Rightarrow> (case on_close e True c2 of (f3, c3) \<Rightarrow> Some (f1 @ f2 @ f3, c3, check_remove_session e c2 w)))
         | None \<Rightarrow>
             if socket then None
             else (case on_close e True c1 of (f2, c2) \<Rightarrow> Some (f1 @ f2, c2, w)))"

section \<open>The input thread\<close>

datatype input_event =
    InMouse mouse_event bool bool
  | InKey key_event bool
  | InPointer bytes
  | InBlock bool
  | InTimeout
  | InDisconnected

datatype input_out =
    HandleMouse mouse_event bool bool
  | HandleKey key_event
  | HandlePointer bytes
  | BlockInput bool
  | BlockInputFailed bool string
  | ClearRemapped

text \<open>What the handlers of a connection send to its thread.\<close>

definition inputs_of :: "conn_effect list \<Rightarrow> input_event list" where
  "inputs_of f = List.map_filter (\<lambda>x. case x of
      InputMouse me simulate show_cursor \<Rightarrow> Some (InMouse me simulate show_cursor)
    | InputKey me press \<Rightarrow> Some (InKey me press)
    | InputPointer p \<Rightarrow> Some (InPointer p)
    | InputBlock b \<Rightarrow> Some (InBlock b)
    | _ \<Rightarrow> None) f"

text \<open>One turn of \<open>handle_input\<close>: \<open>block\<close> is what \<open>platform::block_input\<close> answers; the flag says whether the thread goes
  on.\<close>

definition input_step :: "(bool \<Rightarrow> bool \<times> string) \<Rightarrow> input_event \<Rightarrow> bool \<Rightarrow> bool \<times> input_out list \<times> bool" where
  "input_step block ev block_input_mode =
     (case ev of
        InMouse me simulate show_cursor \<Rightarrow> (True, [HandleMouse me simulate show_cursor], block_input_mode)
      | InKey me press \<Rightarrow>
          (let msg = me\<lparr>ke_press := False\<rparr>; msg1 = (if press then msg\<lparr>ke_down := True\<rparr> else msg)
           in (True, HandleKey msg1 # (if press then [HandleKey (msg1\<lparr>ke_down := False\<rparr>)] else []), block_input_mode))
      | InPointer p \<Rightarrow> (True, [HandlePointer p], block_input_mode)
      | InBlock on \<Rightarrow>
          (case block on of
             (ok, err) \<Rightarrow> if ok then (True, [BlockInput on], on) else (True, [BlockInput on, BlockInputFailed on err], block_input_mode))
      | InTimeout \<Rightarrow> (True, if block_input_mode then [BlockInput True] else [], block_input_mode)
      | InDisconnected \<Rightarrow> (False, (if block_input_mode then [BlockInput True] else []) @ [ClearRemapped], block_input_mode))"

fun handle_input :: "(bool \<Rightarrow> bool \<times> string) \<Rightarrow> input_event list \<Rightarrow> bool \<Rightarrow> input_out list" where
  "handle_input block [] mode = []"
| "handle_input block (ev # evs) mode =
     (case input_step block ev mode of (go_on, outs, mode1) \<Rightarrow> outs @ (if go_on then handle_input block evs mode1 else []))"

section \<open>The subscription to the clipboard\<close>

text \<open>Granting the clipboard or the keyboard to a connection subscribes it to the clipboard service whether
  it is authorised or not; the arm for the sound does check.\<close>

lemma clipboard_before_login:
  assumes "\<not> ac_authorized (sn_auth c)" "ev_server e" "cp_keyboard (sn_perms c)" "\<not> co_disable_keyboard (sn_opts c)"
    "\<not> co_disable_clipboard (sn_opts c)" "ev_builtin e ''one-way-clipboard-redirection'' \<noteq> ''Y''"
  shows "Subscribe ''clipboard'' True \<in> set (fst (switch_permission e ''clipboard'' True c))"
    and "Subscribe ''audio'' True \<notin> set (fst (switch_permission e ''audio'' True c))"
  using assms
  by (simp_all add: switch_permission_def subs_def can_sub_clipboard_service_def clipboard_enabled_def peer_keyboard_enabled_def Let_def)

section \<open>Modifiers and the switch of sides\<close>

text \<open>A key that is a modifier is never a press, so \<open>pressed_modifiers\<close> only loses keys and stays empty.\<close>

lemma pressed_modifiers_shrink: "set (sn_pressed_modifiers (snd (on_key e me c))) \<subseteq> set (sn_pressed_modifiers c)"
  by (auto simp: on_key_def key_is_press_def update_auto_disconnect_timer_def Let_def split: option.splits)

text \<open>A uuid is claimed once while its entry is kept, but only the last uuid of an ID is kept: after another one
  the first is fresh again.\<close>

lemma claimed_once:
  assumes "claim_pending_switch_sides_uuid now i u m = (True, m1)" "hm_wf m"
  shows "fst (claim_pending_switch_sides_uuid now' i u m1) = False \<and> fst (has_pending_switch_sides_uuid now' i u m1) = False"
proof -
  let ?keep = "\<lambda>now m. hm_retain (\<lambda>_ (instant, _, _). now - instant < SWITCH_SIDES_UUID_TTL) m"
  obtain t where m1: "m1 = hm_insert i (t, u, True) (?keep now m)"
    using assms(1) by (auto simp: claim_pending_switch_sides_uuid_def Let_def split: option.splits if_splits)
  have "hm_get m1 i = Some v" if "hm_get (?keep now' m1) i = Some v" for v
    using retained_session [OF that] assms(2) by (auto simp: m1 intro: hm_wf_get)
  then have "hm_get (?keep now' m1) i = None \<or> hm_get (?keep now' m1) i = Some (t, u, True)"
    by (cases "hm_get (?keep now' m1) i") (simp_all add: m1 hm_simps)
  then show ?thesis
    by (auto simp: claim_pending_switch_sides_uuid_def has_pending_switch_sides_uuid_def Let_def)
qed

lemma replayed_after_another:
  "let u1 = replicate 16 1; u2 = replicate 16 2;
       m1 = snd (insert_pending_switch_sides_uuid 0 ''1'' u1 []);
       (claimed, m2) = claim_pending_switch_sides_uuid 1 ''1'' u1 m1;
       m3 = snd (insert_pending_switch_sides_uuid 2 ''1'' u2 m2)
   in claimed \<and> \<not> fst (insert_pending_switch_sides_uuid 2 ''1'' u1 m2) \<and> fst (insert_pending_switch_sides_uuid 3 ''1'' u1 m3)"
  by code_simp

end
