(* ===== verification/Session_Run.thy ===== *)
theory Session_Run
  imports Session_Events
begin

text \<open>
  Runs of a connection, \<open>src/server/connection.rs\<close>: the select loop of \<open>Connection::start\<close> as a sequence of
  messages of the peer, events of the connection manager and ticks, and what holds after any of
  them: the session is the one the login asked for and the options permit, its effects stay in its
  scope, the scope of a connection never changes.
\<close>

section \<open>Decisions about a login\<close>

definition decision_ok :: "auth_conn \<Rightarrow> bool \<times> auth_out list \<times> auth_conn \<times> auth_state \<Rightarrow> bool" where
  "decision_ok a r =
     (case r of (keep, outs, a', st') \<Rightarrow>
        ac_terminal a' = ac_terminal a \<and> (ac_authorized a \<longrightarrow> ac_authorized a') \<and>
        (ac_terminal_token a' \<noteq> ac_terminal_token a \<longrightarrow> ac_terminal a \<and> \<not> ac_authorized a \<and> (ac_authorized a' \<or> \<not> keep)))"

lemma decision_ok_same:
  assumes "ac_terminal a1 = ac_terminal a" "ac_authorized a1 = ac_authorized a" "ac_terminal_token a1 = ac_terminal_token a"
  shows "decision_ok a1 r \<longleftrightarrow> decision_ok a r" "decision_ok a (keep, outs, a1, st)"
  using assms by (auto simp: decision_ok_def)

lemma prepare_terminal_decision:
  assumes "\<not> ae_windows e" "prepare_terminal_login e a st = (r, outs, a1, st1)"
  shows "ac_terminal a1 = ac_terminal a" "ac_authorized a1 = ac_authorized a"
    "ac_terminal_token a1 \<noteq> ac_terminal_token a \<Longrightarrow> ac_terminal a" "r = None \<or> r = Some False"
  using assms
  by (auto simp: prepare_terminal_login_def should_use_terminal_os_login_scope_def fill_terminal_token_def Let_def split: if_splits sum.splits)

lemma normalize_audit_frame [simp]:
  "ac_terminal (normalize_conn_audit_auth_fields a) = ac_terminal a"
  "ac_terminal_token (normalize_conn_audit_auth_fields a) = ac_terminal_token a"
  by (simp_all add: normalize_conn_audit_auth_fields_def)

lemma authorize_decision:
  assumes "\<not> ae_windows e" "\<not> ac_authorized a"
  shows "decision_ok a (authorize e a st)"
proof -
  obtain r outs a1 st1 where p: "prepare_terminal_login e (a\<lparr>ac_awaiting_2fa := False\<rparr>) st = (r, outs, a1, st1)" by (metis prod_cases4)
  from prepare_terminal_decision [OF assms(1) p] p assms(2) show ?thesis
    by (cases r) (auto simp: authorize_def decision_ok_def split: option.splits)
qed

lemma recent_session_token:
  assumes "is_recent_session e tfa a st = (r, a1, st1)"
  shows "ac_terminal_token a1 = ac_terminal_token a"
  using assms by (auto simp: is_recent_session_def Let_def split: option.splits if_splits)

lemma send_logon_decision:
  assumes "\<not> ae_windows e"
  shows "decision_ok a (send_logon_response_and_keep_alive e a st)"
proof -
  obtain r a1 st1 where rs: "is_recent_session e True a st = (r, a1, st1)" by (metis prod_cases3)
  note f = recent_session_frame [OF rs] recent_session_token [OF rs]
  have "decision_ok a (authorize e a1 st1)" if "\<not> ac_authorized a"
    using authorize_decision [OF assms, of a1 st1] that f decision_ok_same(1) [of a1 a] by simp
  then show ?thesis
    using authorize_decision [OF assms] f
    by (auto simp: send_logon_response_and_keep_alive_def rs decision_ok_same(2) decision_ok_def [of a "(_, _, a, _)"]
        decision_ok_def [of a "(_, _, a1\<lparr>ac_awaiting_2fa := True\<rparr>, _)"])
qed

lemma logon_decision:
  assumes "\<not> ae_windows e"
  shows "decision_ok a (logon_and_start_cm e a st)"
  using send_logon_decision [OF assms, of a st] by (auto simp: logon_and_start_cm_def decision_ok_def split: prod.splits)

lemma validate_password_token:
  assumes "validate_password e a st = (ok, a1, st1)"
  shows "ac_terminal_token a1 = ac_terminal_token a"
  using assms by (auto simp: validate_password_def split: if_splits)

lemma login_with_password_decision:
  assumes "\<not> ae_windows e"
  shows "decision_ok a (login_with_password e a st)"
proof -
  obtain f res o1 ls where ch: "check_failure (ae_ipv6 e) (ac_ip a) (ae_now e) 0 (as_login st) = (((f, res), o1), ls)" by (metis surj_pair)
  obtain ok a1 st1 where v: "validate_password e a (st\<lparr>as_login := ls\<rparr>) = (ok, a1, st1)" by (metis prod_cases3)
  note vf = validate_password_frame [OF v] validate_password_token [OF v]
  have "decision_ok a (logon_and_start_cm e a1 s)" for s
    using logon_decision [OF assms, of a1 s] vf decision_ok_same(1) [of a1 a] by simp
  with vf show ?thesis by (auto simp: login_with_password_def ch v Let_def decision_ok_same(2))
qed

lemma ask_user_linux: "\<not> ae_windows e \<Longrightarrow> ask_user e asked a st = (True, asked, a, st)"
  by (simp add: ask_user_def should_use_terminal_os_login_scope_def)

lemma login_request_decision:
  assumes "\<not> ae_windows e"
  shows "decision_ok a (login_request e a st)"
proof -
  obtain r a1 st1 where rs: "is_recent_session e False a st = (r, a1, st1)" by (metis prod_cases3)
  note f = recent_session_frame [OF rs] recent_session_token [OF rs]
  have "decision_ok a (logon_and_start_cm e a1 st1)" "decision_ok a (login_with_password e a1 st1)"
    using logon_decision [OF assms, of a1 st1] login_with_password_decision [OF assms, of a1 st1] f decision_ok_same(1) [of a1 a] by simp_all
  with f show ?thesis by (auto simp: login_request_def rs ask_user_linux [OF assms] decision_ok_same(2))
qed

lemma auth_2fa_decision:
  assumes "\<not> ae_windows e"
  shows "decision_ok a (auth_2fa e a st)"
proof -
  obtain f res o1 ls where ch: "check_failure (ae_ipv6 e) (ac_ip a) (ae_now e) 1 (as_login st) = (((f, res), o1), ls)" by (metis surj_pair)
  have l: "decision_ok a (logon_and_start_cm e (a\<lparr>ac_require_2fa := False, ac_two_factor := TfTotp\<rparr>) s)" for s
    using logon_decision [OF assms, of "a\<lparr>ac_require_2fa := False, ac_two_factor := TfTotp\<rparr>" s]
      decision_ok_same(1) [of "a\<lparr>ac_require_2fa := False, ac_two_factor := TfTotp\<rparr>" a] by simp
  have l2: "decision_ok a (k, o2, a2, s2)" if "logon_and_start_cm e (a\<lparr>ac_require_2fa := False, ac_two_factor := TfTotp\<rparr>) s = (k, o2, a2, s1)" for k o2 a2 s s1 s2
    using l [of s] that by (simp add: decision_ok_def)
  show ?thesis
    by (auto simp: auth_2fa_def ch decision_ok_same(2) Let_def split: option.splits prod.splits dest: l2)
qed

section \<open>One step\<close>

definition scope_permitted :: "(string \<Rightarrow> string) \<Rightarrow> session_conn \<Rightarrow> bool" where
  "scope_permitted opts c =
     (let allowed = permission opts (sn_control_permissions c) in
      case lr_union (sn_lr c) of
        None \<Rightarrow> True
      | Some (LuFileTransfer _ _) \<Rightarrow> allowed ''enable-file-transfer''
      | Some LuViewCamera \<Rightarrow> allowed ''enable-camera''
      | Some (LuTerminal _) \<Rightarrow> allowed ''enable-terminal''
      | Some (LuPortForward _ _ _) \<Rightarrow> allowed ''enable-tunnel'')"

definition session_inv :: "(string \<Rightarrow> string) \<Rightarrow> session_conn \<Rightarrow> bool" where
  "session_inv opts c = (conn_ok c \<and> scope_permitted opts c)"

definition env_ok :: "(string \<Rightarrow> string) \<Rightarrow> session_env \<Rightarrow> bool" where
  "env_ok opts e = (ev_opts e = opts \<and> \<not> ae_windows (ev_auth e))"

definition message_ok ::
  "(string \<Rightarrow> string) \<Rightarrow> session_conn \<Rightarrow> session_world \<Rightarrow> bool \<times> conn_effect list \<times> session_conn \<times> session_world \<Rightarrow> bool" where
  "message_ok opts c w r =
     (case r of (keep, f, c', w') \<Rightarrow>
        (keep \<longrightarrow> session_inv opts c') \<and> effs_ok c' f \<and>
        (sn_authed_conn_id c' \<noteq> Some ConnTerminal \<longrightarrow> term_sessions (sw_term w') = term_sessions (sw_term w)) \<and>
        (sn_login_scope c \<noteq> None \<longrightarrow> sn_login_scope c' = sn_login_scope c) \<and>
        (ac_authorized (sn_auth c) \<longrightarrow> ac_authorized (sn_auth c')))"

lemma step_message_ok:
  assumes "session_inv opts c" "step_ok c w r"
  shows "message_ok opts c w r"
  using assms by (auto simp: step_ok_def message_ok_def session_inv_def session_kept_def scope_permitted_def effs_ok_def split: prod.splits)

lemma before_login_ok: "conn_ok c \<Longrightarrow> \<not> ac_authorized (sn_auth c) \<Longrightarrow> before_login c"
  by (auto simp: conn_ok_def before_login_def)

lemma effs_ok_login: "list_all (\<lambda>x. \<exists>y. x = LoginOut y) f \<Longrightarrow> effs_ok c f"
  unfolding effs_ok_def by (induction f) auto

lemma expand_outs_ok: "effs_ok c f \<Longrightarrow> effs_ok c (expand_outs f outs)"
  by (induction outs) (auto simp: expand_outs_def)

lemma finish_login_ok:
  assumes "session_inv opts c" "decision_ok (sn_auth c) r"
  shows "message_ok opts c w (finish_login e r c w)"
proof -
  obtain keep outs a st where r: "r = (keep, outs, a, st)" by (metis prod_cases4)
  note d = assms(2) [unfolded r decision_ok_def, simplified]
  have ok: "conn_ok c" "scope_permitted opts c" using assms(1) by (simp_all add: session_inv_def)
  define c1 where "c1 = c\<lparr>sn_auth := a\<rparr>"
  show ?thesis
  proof (cases "ac_authorized a \<and> \<not> ac_authorized (sn_auth c)")
    case True
    obtain f c2 tw where af: "after_authorized e c1 (sw_term w) = (f, c2, tw)" by (metis prod_cases3)
    have "before_login c1"
      using ok(1) True d by (auto simp: c1_def before_login_def conn_ok_def scope_recorded_def is_port_forward_def opts_default_def Let_def)
    from after_authorized_ok [OF this _ af] True
    have a: "conn_ok c2" "effs_ok c2 f" "session_kept c1 c2" "sn_authed_conn_id c2 \<noteq> Some ConnTerminal \<longrightarrow> term_sessions tw = term_sessions (sw_term w)"
      by (simp_all add: c1_def)
    have "finish_login e r c w = (keep, expand_outs f outs, c2, w\<lparr>sw_auth := st, sw_term := tw\<rparr>)"
      using True by (simp add: finish_login_def r c1_def [symmetric] af)
    moreover have "scope_permitted opts c2" "sn_login_scope c2 = sn_login_scope c" "ac_authorized (sn_auth c2)"
      using a(3) ok(2) True by (simp_all add: session_kept_def c1_def scope_permitted_def)
    ultimately show ?thesis using a by (simp add: message_ok_def session_inv_def expand_outs_ok)
  next
    case False
    have "conn_ok c1" if keep
      using ok(1) False d that by (auto simp: c1_def conn_ok_def scope_recorded_def is_port_forward_def opts_default_def Let_def)
    moreover have "finish_login e r c w = (keep, expand_outs [] outs, c1, w\<lparr>sw_auth := st\<rparr>)"
      using False by (auto simp: finish_login_def r c1_def Let_def)
    moreover have "scope_permitted opts c1" "sn_login_scope c1 = sn_login_scope c" "ac_authorized (sn_auth c) \<longrightarrow> ac_authorized (sn_auth c1)"
      using ok(2) d by (simp_all add: c1_def scope_permitted_def)
    ultimately show ?thesis by (simp add: message_ok_def session_inv_def expand_outs_ok)
  qed
qed

lemma waive_2fa_frame [simp]:
  "ac_terminal (waive_2fa e a st) = ac_terminal a" "ac_authorized (waive_2fa e a st) = ac_authorized a"
  "ac_terminal_token (waive_2fa e a st) = ac_terminal_token a"
  by (auto simp: waive_2fa_def split: option.splits)

lemma login_frame [simp]:
  "sn_lr (handle_login_request_without_validation e lr c w) = lr"
  "ac_terminal (sn_auth (handle_login_request_without_validation e lr c w)) = ac_terminal (sn_auth c)"
  "ac_authorized (sn_auth (handle_login_request_without_validation e lr c w)) = ac_authorized (sn_auth c)"
  "ac_terminal_token (sn_auth (handle_login_request_without_validation e lr c w)) = ac_terminal_token (sn_auth c)"
  "sn_file_transfer (handle_login_request_without_validation e lr c w) = sn_file_transfer c"
  "sn_view_camera (handle_login_request_without_validation e lr c w) = sn_view_camera c"
  "sn_port_forward_socket (handle_login_request_without_validation e lr c w) = sn_port_forward_socket c"
  "sn_port_forward_mux (handle_login_request_without_validation e lr c w) = sn_port_forward_mux c"
  "sn_authed_conn_id (handle_login_request_without_validation e lr c w) = sn_authed_conn_id c"
  "sn_control_permissions (handle_login_request_without_validation e lr c w) = sn_control_permissions c"
  "sn_login_scope (handle_login_request_without_validation e lr c w) = sn_login_scope c"
  "sn_opts (handle_login_request_without_validation e lr c w) = sn_opts c"
  by (simp_all add: handle_login_request_without_validation_def Let_def)

lemma apply_scope_ok:
  assumes "apply_login_scope e (lr_union (sn_lr c)) c = Inr c'" "ev_opts e = opts"
    "sn_file_transfer c = None" "\<not> sn_view_camera c" "\<not> ac_terminal (sn_auth c)" "\<not> ac_authorized (sn_auth c)"
    "\<not> is_port_forward c" "ac_terminal_token (sn_auth c) = None" "sn_authed_conn_id c = None" "opts_default c"
  shows "session_inv opts c' \<and> sn_login_scope c' = sn_login_scope c \<and> \<not> ac_authorized (sn_auth c')"
proof -
  note defs = session_inv_def conn_ok_def scope_recorded_def scope_permitted_def conn_type_of_def is_port_forward_def opts_default_def Let_def
  show ?thesis
  proof (cases "lr_union (sn_lr c)")
    case None
    with assms(1) have "c' = c" by (simp add: apply_login_scope_def split: if_splits)
    with None assms show ?thesis by (simp add: defs)
  next
    case (Some u)
    show ?thesis
    proof (cases u)
      case (LuFileTransfer d h)
      with Some assms(1,2) have "c' = c\<lparr>sn_file_transfer := Some (d, h)\<rparr>" "permission opts (sn_control_permissions c) ''enable-file-transfer''"
        by (simp_all add: apply_login_scope_def split: if_splits)
      with Some LuFileTransfer assms show ?thesis by (simp add: defs)
    next
      case (LuPortForward h p m)
      with Some assms(1,2) have "c' = c\<lparr>sn_port_forward_address := fst (normalize_port_forward_target h p)\<rparr>"
        "permission opts (sn_control_permissions c) ''enable-tunnel''"
        by (simp_all add: apply_login_scope_def split: if_splits)
      with Some LuPortForward assms show ?thesis by (simp add: defs)
    next
      case LuViewCamera
      with Some assms(1,2) have "c' = c\<lparr>sn_view_camera := True\<rparr>" "permission opts (sn_control_permissions c) ''enable-camera''"
        by (simp_all add: apply_login_scope_def split: if_splits)
      with Some LuViewCamera assms show ?thesis by (simp add: defs)
    next
      case (LuTerminal sid)
      with Some assms(1,2) obtain b where "c' = c\<lparr>sn_auth := (sn_auth c)\<lparr>ac_terminal := True\<rparr>, sn_terminal_persistent := b, sn_terminal_service_id := sid\<rparr>"
        "permission opts (sn_control_permissions c) ''enable-terminal''"
        by (auto simp: apply_login_scope_def split: if_splits)
      with Some LuTerminal assms show ?thesis by (simp add: defs)
    qed
  qed
qed

lemma windows_login_env [simp]: "ae_windows (login_env e hwid c w) = ae_windows (ev_auth e)"
  by (simp add: login_env_def)

lemma unauthorized_state:
  assumes "session_inv opts c" "\<not> ac_authorized (sn_auth c)"
  shows "sn_authed_conn_id c = None" "\<not> is_port_forward c" "ac_terminal_token (sn_auth c) = None" "opts_default c"
  using assms by (auto simp: session_inv_def conn_ok_def)

lemma message_ok_refused:
  assumes "list_all (\<lambda>x. \<exists>y. x = LoginOut y) f" "sn_login_scope c \<noteq> None \<longrightarrow> sn_login_scope c' = sn_login_scope c" "sw_term w' = sw_term w"
    "ac_authorized (sn_auth c) \<longrightarrow> ac_authorized (sn_auth c')"
  shows "message_ok opts c w (False, f, c', w')"
  using assms by (simp add: message_ok_def effs_ok_login)

lemma message_ok_trans:
  assumes "message_ok opts c1 w1 r" "sn_login_scope c \<noteq> None \<longrightarrow> sn_login_scope c1 = sn_login_scope c" "sw_term w1 = sw_term w"
    "ac_authorized (sn_auth c) \<longrightarrow> ac_authorized (sn_auth c1)"
  shows "message_ok opts c w r"
  using assms by (auto simp: message_ok_def split: prod.splits)

lemma login_outs_map: "list_all (\<lambda>x. \<exists>y. x = LoginOut y) (map (\<lambda>x. LoginOut (g x)) outs)"
  by (simp add: list_all_iff)

lemma on_login_request_ok:
  assumes "session_inv opts c" "env_ok opts e" "\<not> ac_authorized (sn_auth c)"
  shows "message_ok opts c w (on_login_request e lr c w)"
proof -
  obtain ok c1 where sc: "check_login_scope (cr_sha256 (ae_crypto (ev_auth e))) lr c = (ok, c1)" by (metis surj_pair)
  have c1: "c1 = c \<or> (sn_login_scope c = None \<and> c1 = c\<lparr>sn_login_scope := Some (login_scope_digest (cr_sha256 (ae_crypto (ev_auth e))) lr)\<rparr>)"
    using sc by (auto simp: check_login_scope_def Let_def split: option.splits)
  define c2 where "c2 = handle_login_request_without_validation e lr (c1\<lparr>sn_auth := (sn_auth c1)\<lparr>ac_awaiting_2fa := False\<rparr>\<rparr>) w"
  define c3 where "c3 = reset_session_scope_for_login c2"
  note u = unauthorized_state [OF assms(1,3)]
  have c1_auth: "sn_auth c1 = sn_auth c" using c1 by auto
  have na: "\<not> ac_authorized (sn_auth c2)" using assms(3) c1_auth by (simp add: c2_def)
  have sc1: "sn_login_scope c \<noteq> None \<longrightarrow> sn_login_scope c1 = sn_login_scope c" using c1 by auto
  have c3: "sn_file_transfer c3 = None" "\<not> sn_view_camera c3" "\<not> ac_terminal (sn_auth c3)" "\<not> ac_authorized (sn_auth c3)"
    "\<not> is_port_forward c3" "ac_terminal_token (sn_auth c3) = None" "sn_authed_conn_id c3 = None" "opts_default c3" "sn_lr c3 = lr"
    "sn_login_scope c3 = sn_login_scope c1"
    using c1 u assms(3) by (auto simp: c3_def c2_def reset_session_scope_for_login_def is_port_forward_def opts_default_def)
  obtain allowed outs ls where wl: "check_id_whitelist (ae_ipv6 (ev_auth e)) (ac_ip (sn_auth c3)) (ev_now e) (ev_opts e ''id-whitelist'')
      (lr_my_id lr) (as_login (sw_auth w)) = (allowed, outs, ls)" by (metis prod_cases3)
  define w1 where "w1 = w\<lparr>sw_auth := (sw_auth w)\<lparr>as_login := ls\<rparr>\<rparr>"
  have run: "on_login_request e lr c w =
     (if \<not> ok then (False, [login_error ''Connection not allowed''], c1, w)
      else if \<not> allowed then (False, map (\<lambda>x. LoginOut (Out x)) outs, c3, w1)
      else case apply_login_scope e (lr_union lr) c3 of
             Inl msg \<Rightarrow> (False, [login_error msg], c3, w1)
           | Inr c4 \<Rightarrow>
               if \<not> ev_is_direct_ip e (lr_username lr) \<and> lr_username lr \<noteq> ev_my_id e then (False, [login_error ''Offline''], c4, w1)
               else finish_login e (login_request (login_env e (lr_hwid lr) c4 w1) (sn_auth c4) (sw_auth w1)) c4 w1)"
    using na unfolding on_login_request_def sc Let_def prod.case c2_def [symmetric] c3_def [symmetric] wl w1_def [symmetric] by simp
  have w1: "sw_term w1 = sw_term w" by (simp add: w1_def)
  have fin: "message_ok opts c w (finish_login e (login_request (login_env e (lr_hwid lr) c4 w1) (sn_auth c4) (sw_auth w1)) c4 w1)"
    if "apply_login_scope e (lr_union lr) c3 = Inr c4" for c4
  proof -
    have c4: "session_inv opts c4" "sn_login_scope c4 = sn_login_scope c3"
      using apply_scope_ok [of e c3 c4 opts] that c3 assms(2) by (simp_all add: env_ok_def)
    have "decision_ok (sn_auth c4) (login_request (login_env e (lr_hwid lr) c4 w1) (sn_auth c4) (sw_auth w1))"
      using assms(2) by (intro login_request_decision) (simp add: env_ok_def)
    from finish_login_ok [OF c4(1) this] show ?thesis
      by (rule message_ok_trans) (use c4(2) c3(10) sc1 w1 assms(3) in auto)
  qed
  have scope4: "sn_login_scope c4 = sn_login_scope c3" if "apply_login_scope e (lr_union lr) c3 = Inr c4" for c4
    using apply_scope_ok [of e c3 c4 opts] that c3 assms(2) by (simp add: env_ok_def)
  show ?thesis
    unfolding run
    using fin scope4 sc1 c3(10) w1 assms(3) by (auto simp: login_error_def login_outs_map intro!: message_ok_refused split: sum.split)
qed

lemma on_auth_2fa_ok:
  assumes "session_inv opts c" "env_ok opts e"
  shows "message_ok opts c w (on_auth_2fa e hwid c w)"
  unfolding on_auth_2fa_def
  using assms by (intro finish_login_ok auth_2fa_decision) (simp_all add: env_ok_def)

lemma switched_inv:
  assumes "session_inv opts c" "ac_authorized (sn_auth c) \<Longrightarrow> sn_authed_conn_id c = Some ConnRemote" "lr_union lr = None"
  shows "session_inv opts (handle_login_request_without_validation e lr (reset_session_scope_for_login c) w)"
proof -
  have ok: "conn_ok c" using assms(1) by (simp add: session_inv_def)
  have authed: "sn_authed_conn_id c = (if ac_authorized (sn_auth c) then Some ConnRemote else None)"
    using assms(2) ok by (auto simp: conn_ok_def)
  have pf: "\<not> is_port_forward c" and tok: "ac_terminal_token (sn_auth c) = None"
    using conn_ok_mux [OF ok] conn_ok_token [OF ok] authed by (simp_all add: is_port_forward_def)
  have opt: "sn_authed_conn_id c \<noteq> Some ConnRemote \<longrightarrow> opts_default c" using conn_ok_limited [OF ok] by blast
  show ?thesis
    using assms(3) authed pf tok opt
    by (simp add: session_inv_def conn_ok_def scope_recorded_def scope_permitted_def reset_session_scope_for_login_def
        is_port_forward_def opts_default_def conn_type_of_def)
qed

lemma session_inv_cong:
  assumes "sn_file_transfer c' = sn_file_transfer c" "sn_view_camera c' = sn_view_camera c" "sn_port_forward_socket c' = sn_port_forward_socket c"
    "sn_port_forward_mux c' = sn_port_forward_mux c" "sn_authed_conn_id c' = sn_authed_conn_id c" "sn_lr c' = sn_lr c"
    "sn_control_permissions c' = sn_control_permissions c" "sn_opts c' = sn_opts c"
    "ac_terminal (sn_auth c') = ac_terminal (sn_auth c)" "ac_authorized (sn_auth c') = ac_authorized (sn_auth c)"
    "ac_terminal_token (sn_auth c') = ac_terminal_token (sn_auth c)"
  shows "session_inv opts c' \<longleftrightarrow> session_inv opts c"
  unfolding session_inv_def conn_ok_def scope_recorded_def scope_permitted_def is_port_forward_def opts_default_def assms ..

lemma session_inv_auth:
  assumes "ac_terminal a = ac_terminal (sn_auth c)" "ac_authorized a = ac_authorized (sn_auth c)"
    "ac_terminal_token a = ac_terminal_token (sn_auth c)"
  shows "session_inv opts (c\<lparr>sn_auth := a\<rparr>) \<longleftrightarrow> session_inv opts c"
  by (rule session_inv_cong) (simp_all add: assms)

lemma on_switch_sides_response_ok:
  assumes "session_inv opts c" "env_ok opts e" "ac_authorized (sn_auth c) \<Longrightarrow> sn_authed_conn_id c = Some ConnRemote"
  shows "message_ok opts c w (on_switch_sides_response e uuid lro c w)"
proof (cases lro)
  case None
  with assms(1) show ?thesis by (simp add: on_switch_sides_response_def message_ok_def)
next
  case (Some lr)
  define m where "m = hm_retain (\<lambda>_ (instant, _). ev_now e - instant < SWITCH_SIDES_UUID_TTL) (sw_switch_sides w)"
  define w1 where "w1 = w\<lparr>sw_switch_sides := hm_remove (lr_my_id lr) m\<rparr>"
  define c1 where "c1 = handle_login_request_without_validation e lr (reset_session_scope_for_login c) w1"
  obtain allowed outs ls where wl: "check_id_whitelist (ae_ipv6 (ev_auth e)) (ac_ip (sn_auth c1)) (ev_now e) (ev_opts e ''id-whitelist'')
      (lr_my_id lr) (as_login (sw_auth w1)) = (allowed, outs, ls)" by (metis prod_cases3)
  define w2 where "w2 = w1\<lparr>sw_auth := (sw_auth w1)\<lparr>as_login := ls\<rparr>\<rparr>"
  define c2 where "c2 = c1\<lparr>sn_auth := (sn_auth c1)\<lparr>ac_from_switch := True, ac_primary := PaSwitchSides\<rparr>\<rparr>"
  have run: "on_switch_sides_response e uuid lro c w =
     (if length uuid \<noteq> 16 then (True, [], c, w1)
      else case hm_get m (lr_my_id lr) of
        None \<Rightarrow> (True, [], c, w1)
      | Some (_, uuid_old) \<Rightarrow>
          if uuid \<noteq> uuid_old then (True, [], c, w1)
          else if lr_union lr \<noteq> None then (False, [login_error ''Connection not allowed''], c, w1)
          else if \<not> allowed then (False, map (\<lambda>x. LoginOut (Out x)) outs, c1, w2)
          else finish_login e (logon_and_start_cm (login_env e (lr_hwid lr) c2 w2) (sn_auth c2) (sw_auth w2)) c2 w2)"
    unfolding on_switch_sides_response_def Some option.case Let_def m_def [symmetric] w1_def [symmetric] c1_def [symmetric] wl prod.case
      w2_def [symmetric] c2_def [symmetric] ..
  have w: "sw_term w1 = sw_term w" "sw_term w2 = sw_term w" by (simp_all add: w1_def w2_def)
  have sc: "sn_login_scope c1 = sn_login_scope c" "sn_login_scope c2 = sn_login_scope c"
    "ac_authorized (sn_auth c1) = ac_authorized (sn_auth c)" "ac_authorized (sn_auth c2) = ac_authorized (sn_auth c)"
    by (simp_all add: c1_def c2_def reset_session_scope_for_login_def)
  have stay: "message_ok opts c w (True, [], c, w1)" using assms(1) w by (simp add: message_ok_def)
  have fin: "message_ok opts c w (finish_login e (logon_and_start_cm (login_env e (lr_hwid lr) c2 w2) (sn_auth c2) (sw_auth w2)) c2 w2)"
    if "lr_union lr = None"
  proof -
    have "session_inv opts c2" unfolding c2_def
      by (subst session_inv_auth) (simp_all add: c1_def switched_inv [OF assms(1,3) that])
    moreover have "decision_ok (sn_auth c2) (logon_and_start_cm (login_env e (lr_hwid lr) c2 w2) (sn_auth c2) (sw_auth w2))"
      using assms(2) by (intro logon_decision) (simp add: env_ok_def)
    ultimately show ?thesis by (intro message_ok_trans [OF finish_login_ok]) (use sc w in auto)
  qed
  show ?thesis
    unfolding run
    using stay fin sc w by (auto simp: login_error_def login_outs_map intro!: message_ok_refused split: option.split)
qed

lemma on_test_delay_ok:
  assumes "session_inv opts c"
  shows "message_ok opts c w (keep_on (on_test_delay e t b c) w)"
proof -
  obtain f c' where r: "on_test_delay e t b c = (f, c')" by (metis surj_pair)
  have "core c' = core c \<and> opts_default c' = opts_default c \<and> effs_ok c f"
    using r by (auto simp: on_test_delay_def core_def opts_default_def allowed_defs Let_def split: if_splits option.splits)
  with core_conn_ok [of c' c] core_effs [of c' c] core_kept [of c' c] assms r show ?thesis
    by (auto simp: message_ok_def keep_on_def session_inv_def session_kept_def scope_permitted_def)
qed

lemma close_message_ok:
  assumes "session_inv opts c"
  shows "message_ok opts c w (False, fst (on_close e lock c), snd (on_close e lock c), check_remove_session e c1 w)"
  using assms on_close_ok [of c e lock] on_close_kept [of c e lock]
  by (auto simp: message_ok_def session_inv_def session_kept_def effs_ok_def check_remove_session_def)

lemma on_message_ok:
  assumes "session_inv opts c" "env_ok opts e"
  shows "message_ok opts c w (on_message e msg c w)"
proof (cases "\<exists>r. msg = Some (Misc (Some (CloseReason r)))")
  case True
  then obtain r where "msg = Some (Misc (Some (CloseReason r)))" by blast
  with close_message_ok [OF assms(1)] show ?thesis by (simp add: on_message_def split_beta)
next
  case False
  have ok: "conn_ok c" using assms(1) by (simp add: session_inv_def)
  have stay: "message_ok opts c w (True, [], c, w)" using assms(1) by (simp add: message_ok_def)
  define v where "v = (if ac_authorized (sn_auth c) then authorized_scope_violation c msg else None)"
  define rest where "rest = (case msg of
               Some (LoginRequest lr) \<Rightarrow> on_login_request e lr c w
             | Some (Auth2FA code hwid) \<Rightarrow> on_auth_2fa e hwid c w
             | Some (TestDelay t from_client) \<Rightarrow> keep_on (on_test_delay e t from_client c) w
             | Some (SwitchSidesResponse uuid lro) \<Rightarrow> on_switch_sides_response e uuid lro c w
             | _ \<Rightarrow> if ac_authorized (sn_auth c) then dispatch e msg c w else (True, [], c, w))"
  have run: "on_message e msg c w =
     (if ac_authorized (sn_auth c) \<and> (case msg of Some (LoginRequest _) \<Rightarrow> True | _ \<Rightarrow> False) then (True, [], c, w)
      else case v of Some family \<Rightarrow> handle_authorized_scope_violation e family c w | None \<Rightarrow> rest)"
  proof -
    have skip: "(case msg of Some (Misc (Some (CloseReason _))) \<Rightarrow> x | _ \<Rightarrow> y) = y" for x y :: "bool \<times> conn_effect list \<times> session_conn \<times> session_world"
    proof (cases msg)
      case (Some u)
      then show ?thesis
      proof (cases u)
        case (Misc m)
        then show ?thesis using Some False by (cases m) (simp, rename_tac m1, case_tac m1, simp_all)
      qed simp_all
    qed simp
    show ?thesis unfolding on_message_def skip Let_def v_def rest_def ..
  qed
  have authed: "sn_authed_conn_id c = Some (conn_type_of (lr_union (sn_lr c)))" if "ac_authorized (sn_auth c)"
    using ok that by (simp add: conn_ok_def)
  have viol: "message_ok opts c w (handle_authorized_scope_violation e fam c w)" if "ac_authorized (sn_auth c)" for fam
    using authed [OF that] by (intro step_message_ok [OF assms(1)] handle_violation_ok [OF ok]) simp
  have disp: "message_ok opts c w (dispatch e msg c w)"
    if "ac_authorized (sn_auth c)" "v = None" "\<not> is_connection_housekeeping_message msg"
    using authed [OF that(1)] that
    by (intro step_message_ok [OF assms(1)] dispatch_ok [OF ok]) (simp_all add: v_def authorized_scope_violation_def authed_conn_type_def)
  have sw: "message_ok opts c w (on_switch_sides_response e uuid lro c w)" if "v = None" "msg = Some (SwitchSidesResponse uuid lro)" for uuid lro
  proof (rule on_switch_sides_response_ok [OF assms])
    assume a: "ac_authorized (sn_auth c)"
    from that a authed [OF a] violation_none [of "conn_type_of (lr_union (sn_lr c))" msg] show "sn_authed_conn_id c = Some ConnRemote"
      by (auto simp: v_def authorized_scope_violation_def authed_conn_type_def is_connection_housekeeping_message_def
          is_render_broadcast_noop_compat_message_def is_text_clipboard_noop_compat_message_def is_file_transfer_scoped_message_def
          is_terminal_scoped_message_def is_port_forward_scoped_message_def is_view_camera_scoped_message_def)
  qed
  have hk: "(\<exists>lr. msg = Some (LoginRequest lr)) \<or> (\<exists>t b. msg = Some (TestDelay t b))" if h: "is_connection_housekeeping_message msg"
  proof -
    obtain u where u: "msg = Some u" using h by (cases msg) (simp_all add: is_connection_housekeeping_message_def)
    show ?thesis
    proof (cases u)
      case (Misc m)
      obtain m1 where m1: "m = Some m1" using h u Misc by (cases m) (simp_all add: is_connection_housekeeping_message_def)
      show ?thesis using h u Misc m1 False by (cases m1) (simp_all add: is_connection_housekeeping_message_def)
    qed (use h u in \<open>simp_all add: is_connection_housekeeping_message_def\<close>)
  qed
  have other: "message_ok opts c w (if ac_authorized (sn_auth c) then dispatch e msg c w else (True, [], c, w))"
    if "v = None" "\<nexists>lr. msg = Some (LoginRequest lr)" "\<nexists>t b. msg = Some (TestDelay t b)"
    using disp stay hk that by (cases "ac_authorized (sn_auth c)") auto
  show ?thesis
  proof (cases v)
    case (Some fam)
    then have "ac_authorized (sn_auth c)" by (simp add: v_def split: if_splits)
    with Some viol stay show ?thesis unfolding run by simp
  next
    case None
    show ?thesis
    proof (cases "ac_authorized (sn_auth c) \<and> (case msg of Some (LoginRequest _) \<Rightarrow> True | _ \<Rightarrow> False)")
      case True
      with stay show ?thesis unfolding run by simp
    next
      case nl: False
      have "message_ok opts c w rest"
      proof (cases msg)
        case None
        with other \<open>v = None\<close> show ?thesis by (simp add: rest_def split del: if_split)
      next
        case (Some u)
        show ?thesis
        proof (cases u)
          case (LoginRequest lr)
          with nl Some have "\<not> ac_authorized (sn_auth c)" by simp
          from on_login_request_ok [OF assms this] Some LoginRequest show ?thesis by (simp add: rest_def)
        next
          case (TestDelay t b)
          with Some on_test_delay_ok [OF assms(1)] show ?thesis by (simp add: rest_def)
        next
          case (Auth2FA code hwid)
          with Some on_auth_2fa_ok [OF assms] show ?thesis by (simp add: rest_def)
        next
          case (SwitchSidesResponse uuid lro)
          with Some sw \<open>v = None\<close> show ?thesis by (simp add: rest_def)
        qed (use Some other \<open>v = None\<close> in \<open>simp_all add: rest_def split del: if_split\<close>)
      qed
      with None stay show ?thesis unfolding run by simp
    qed
  qed
qed

section \<open>Runs\<close>

text \<open>The arms of the select loop.  A connection that has become a plain port forward leaves the loop.\<close>

datatype conn_event =
    PeerMsg session_env message
  | PeerGarbage session_env
  | StreamError session_env
  | StreamEnd session_env
  | CmEvt session_env cm_event
  | Evicted session_env
  | LoginDeadline session_env
  | FileTick session_env read_env
  | ConsoleClose session_env bool
  | VideoMsg session_env bool "nat option" message
  | ServiceMsg session_env service_env int message
  | SecondTick session_env
  | TestDelayTick session_env

definition conn_step ::
  "conn_event \<Rightarrow> session_conn \<Rightarrow> session_world \<Rightarrow> bool \<times> conn_effect list \<times> session_conn \<times> session_world" where
  "conn_step ev c w =
     (case ev of
        PeerMsg e msg \<Rightarrow>
          (case on_message e msg (c\<lparr>sn_last_recv_time := ev_now e\<rparr>) w of
             (keep, f, c1, w1) \<Rightarrow>
               (keep \<and> \<not> (sn_port_forward_socket c1 \<and> ac_authorized (sn_auth c1) \<and> sn_last_test_delay c1 = None), f, c1, w1))
      | PeerGarbage e \<Rightarrow> (True, [], c\<lparr>sn_last_recv_time := ev_now e\<rparr>, w)
      | StreamError e \<Rightarrow> close_loop e c w
      | StreamEnd e \<Rightarrow> close_loop e c w
      | CmEvt e ce \<Rightarrow> on_cm_event e ce c w
      | Evicted e \<Rightarrow> unauthorized_evicted e c w
      | LoginDeadline e \<Rightarrow> login_deadline e c w
      | FileTick e r \<Rightarrow> file_timer e r c w
      | ConsoleClose e mine \<Rightarrow> console_close e mine c w
      | VideoMsg e send_ok d msg \<Rightarrow> on_video_message e send_ok d msg c w
      | ServiceMsg e s latency msg \<Rightarrow> on_service_message e s latency msg c w
      | SecondTick e \<Rightarrow> second_timer e c w
      | TestDelayTick e \<Rightarrow> test_delay_timer e c w)"

fun run_session :: "conn_event list \<Rightarrow> session_conn \<Rightarrow> session_world \<Rightarrow> (session_conn \<times> session_world) option" where
  "run_session [] c w = Some (c, w)"
| "run_session (ev # evs) c w =
     (case conn_step ev c w of (keep, _, c1, w1) \<Rightarrow> if keep then run_session evs c1 w1 else None)"

definition event_env :: "conn_event \<Rightarrow> session_env" where
  "event_env ev =
     (case ev of
        PeerMsg e _ \<Rightarrow> e | PeerGarbage e \<Rightarrow> e | StreamError e \<Rightarrow> e | StreamEnd e \<Rightarrow> e | CmEvt e _ \<Rightarrow> e | Evicted e \<Rightarrow> e
      | LoginDeadline e \<Rightarrow> e | FileTick e _ \<Rightarrow> e | ConsoleClose e _ \<Rightarrow> e | VideoMsg e _ _ _ \<Rightarrow> e
      | ServiceMsg e _ _ _ \<Rightarrow> e | SecondTick e \<Rightarrow> e | TestDelayTick e \<Rightarrow> e)"

definition run_ok :: "(string \<Rightarrow> string) \<Rightarrow> conn_event list \<Rightarrow> bool" where
  "run_ok opts evs = list_all (\<lambda>ev. env_ok opts (event_env ev)) evs"

lemma session_inv_core:
  assumes "core c' = core c" "opts_default c' = opts_default c" "session_inv opts c"
  shows "session_inv opts c'"
  using assms core_conn_ok [of c' c] core_kept [of c' c] by (auto simp: session_inv_def session_kept_def scope_permitted_def)

lemma session_inv_perms: "session_inv opts (c\<lparr>sn_perms := p\<rparr>) \<longleftrightarrow> session_inv opts c"
  by (rule session_inv_cong) simp_all

definition perms_only :: "session_conn \<Rightarrow> conn_effect list \<times> session_conn \<Rightarrow> bool" where
  "perms_only c r = (\<exists>p. snd r = c\<lparr>sn_perms := p\<rparr>)"

lemma perms_only_if: "perms_only c x \<Longrightarrow> perms_only c y \<Longrightarrow> perms_only c (if b then x else y)"
  by simp

lemma perms_only_pair: "perms_only c (f, c\<lparr>sn_perms := p\<rparr>)" "perms_only c (f, c)"
proof -
  show "perms_only c (f, c\<lparr>sn_perms := p\<rparr>)" by (auto simp: perms_only_def)
  have "c = c\<lparr>sn_perms := sn_perms c\<rparr>" by simp
  then show "perms_only c (f, c)" unfolding perms_only_def by (metis snd_conv)
qed

lemma switch_privacy_frame: "perms_only c (switch_privacy_permission e b c)"
  by (simp add: switch_privacy_permission_def Let_def perms_only_pair split: option.split sum.split)

lemma switch_permission_frame: "perms_only c (switch_permission e name b c)"
  unfolding switch_permission_def Let_def by (intro perms_only_if perms_only_pair switch_privacy_frame)

text \<open>What every event keeps: the invariant, and the scope once it is latched.\<close>

definition event_ok :: "(string \<Rightarrow> string) \<Rightarrow> session_conn \<Rightarrow> bool \<times> conn_effect list \<times> session_conn \<times> session_world \<Rightarrow> bool" where
  "event_ok opts c r =
     (case r of (keep, f, c', w') \<Rightarrow>
        (keep \<longrightarrow> session_inv opts c') \<and> (sn_login_scope c \<noteq> None \<longrightarrow> sn_login_scope c' = sn_login_scope c) \<and>
        (ac_authorized (sn_auth c) \<longrightarrow> ac_authorized (sn_auth c')))"

lemma message_event_ok: "message_ok opts c w r \<Longrightarrow> event_ok opts c r"
  by (auto simp: message_ok_def event_ok_def split: prod.splits)

lemma keep_on_event_ok:
  assumes "session_inv opts c" "core (snd r) = core c" "opts_default (snd r) = opts_default c"
  shows "event_ok opts c (keep_on r w)"
  using session_inv_core [OF assms(2,3,1)] core_kept [OF assms(2)] by (simp add: event_ok_def keep_on_def session_kept_def)

lemma cm_authorize_ok:
  assumes "session_inv opts c" "env_ok opts e"
  shows "event_ok opts c (cm_authorize e c w)"
proof -
  define c1 where "c1 = c\<lparr>sn_auth := (sn_auth c)\<lparr>ac_primary := PaClick, ac_require_2fa := False\<rparr>\<rparr>"
  have scope: "sn_login_scope c1 = sn_login_scope c" "ac_authorized (sn_auth c1) = ac_authorized (sn_auth c)" by (simp_all add: c1_def)
  have i: "session_inv opts c1" unfolding c1_def by (subst session_inv_auth) (simp_all add: assms(1))
  have "decision_ok (sn_auth c1) (send_logon_response_and_keep_alive (login_env e [] c1 w) (sn_auth c1) (sw_auth w))"
    using assms(2) by (intro send_logon_decision) (simp add: env_ok_def)
  from message_event_ok [OF finish_login_ok [OF i this]]
  have "event_ok opts c1 (finish_login e (send_logon_response_and_keep_alive (login_env e [] c1 w) (sn_auth c1) (sw_auth w)) c1 w)" .
  then show ?thesis
    using scope by (auto simp: cm_authorize_def c1_def [symmetric] event_ok_def split: prod.splits)
qed

lemma core_times [simp]:
  "core (c\<lparr>sn_last_test_delay := d\<rparr>) = core c" "opts_default (c\<lparr>sn_last_test_delay := d\<rparr>) = opts_default c"
  "core (c\<lparr>sn_last_recv_time := t\<rparr>) = core c" "opts_default (c\<lparr>sn_last_recv_time := t\<rparr>) = opts_default c"
  by (simp_all add: core_def opts_default_def)

lemma on_cm_file_core: "core (snd (on_cm_file ce c)) = core c \<and> opts_default (snd (on_cm_file ce c)) = opts_default c"
  by (simp add: on_cm_file_def handle_read_job_init_result_def handle_file_read_done_def handle_file_read_error_def Let_def
      split: cm_event.split sum.split option.split)

lemma on_close_scope [simp]: "sn_login_scope (snd (on_close e lock c)) = sn_login_scope c" "sn_auth (snd (on_close e lock c)) = sn_auth c"
  using on_close_kept [of c e lock] by (simp_all add: session_kept_def)

lemma on_cm_event_ok:
  assumes "session_inv opts c" "env_ok opts e"
  shows "event_ok opts c (on_cm_event e ce c w)"
proof (cases ce)
  case CeAuthorize
  with cm_authorize_ok [OF assms] show ?thesis by (simp add: on_cm_event_def)
next
  case (CeSwitchPermission name b)
  from switch_permission_frame [of c e name b] obtain p where "snd (switch_permission e name b c) = c\<lparr>sn_perms := p\<rparr>"
    by (auto simp: perms_only_def)
  with CeSwitchPermission assms(1) show ?thesis by (simp add: on_cm_event_def event_ok_def keep_on_def session_inv_perms)
next
  case (CeVoiceCallResponse b)
  have "event_ok opts c (keep_on (handle_voice_call e b c) w)"
    by (intro keep_on_event_ok assms(1)) (simp_all add: handle_voice_call_def core_def opts_default_def split: option.splits)
  with CeVoiceCallResponse show ?thesis by (simp add: on_cm_event_def)
next
  case CeCloseVoiceCall
  have "session_inv opts (c\<lparr>sn_voice_calling := False\<rparr>)" by (rule session_inv_core [OF _ _ assms(1)]) simp_all
  with CeCloseVoiceCall show ?thesis by (simp add: on_cm_event_def event_ok_def close_voice_call_def)
next
  case (CeChat txt1)
  have "session_inv opts (c\<lparr>sn_chat_unanswered := False\<rparr>)" by (rule session_inv_core [OF _ _ assms(1)]) simp_all
  with CeChat show ?thesis by (simp add: on_cm_event_def event_ok_def)
qed (use assms(1) keep_on_event_ok [OF assms(1), of "on_cm_file ce c" w] on_cm_file_core [of ce c]
  in \<open>auto simp: on_cm_event_def event_ok_def send_close_reason_no_retry_def Let_def split_beta\<close>)

lemma closed_event_ok:
  assumes "session_inv opts c"
  shows "event_ok opts c (True, f, c, w)" "event_ok opts c (False, f, snd (on_close e lock c), w)" "event_ok opts c (close_loop e c w)"
  using assms by (simp_all add: event_ok_def close_loop_def split_beta)

lemma timers_ok:
  assumes "session_inv opts c"
  shows "event_ok opts c (unauthorized_evicted e c w)" "event_ok opts c (login_deadline e c w)"
    "event_ok opts c (second_timer e c w)" "event_ok opts c (console_close e mine c w)" "event_ok opts c (on_video_message e send_ok d msg c w)"
  using closed_event_ok [OF assms]
  by (simp_all add: unauthorized_evicted_def login_deadline_def second_timer_def console_close_def on_video_message_def
      send_close_reason_no_retry_def Let_def split_beta split: option.split)

lemma test_delay_timer_ok:
  assumes "session_inv opts c"
  shows "event_ok opts c (test_delay_timer e c w)"
proof -
  have "session_inv opts (c\<lparr>sn_last_test_delay := d\<rparr>)" for d by (rule session_inv_core [OF _ _ assms]) simp_all
  then have "event_ok opts c (True, f, c\<lparr>sn_last_test_delay := d\<rparr>, w)" for f d by (simp add: event_ok_def)
  then show ?thesis using closed_event_ok [OF assms] by (simp add: test_delay_timer_def Let_def)
qed

lemma file_timer_ok:
  assumes "session_inv opts c"
  shows "event_ok opts c (file_timer e r c w)"
proof -
  have "session_inv opts (c\<lparr>sn_read_jobs := js\<rparr>)" for js by (rule session_inv_core [OF _ _ assms]) simp_all
  then have "event_ok opts c (True, f, c\<lparr>sn_read_jobs := js\<rparr>, w)" for f js by (simp add: event_ok_def)
  then show ?thesis using closed_event_ok [OF assms] by (simp add: file_timer_def Let_def split_beta)
qed

lemma service_message_ok:
  assumes "session_inv opts c"
  shows "event_ok opts c (on_service_message e s latency msg c w)"
  using closed_event_ok [OF assms]
  by (simp add: on_service_message_def send_close_reason_no_retry_def Let_def split_beta
      split: option.split message_union.split misc_union.split)

lemma conn_step_ok:
  assumes "session_inv opts c" "env_ok opts (event_env ev)"
  shows "event_ok opts c (conn_step ev c w)"
proof (cases ev)
  case (PeerMsg e msg)
  have i: "session_inv opts (c\<lparr>sn_last_recv_time := t\<rparr>)" for t by (rule session_inv_core [OF _ _ assms(1)]) simp_all
  with PeerMsg message_event_ok [OF on_message_ok [OF i [of "ev_now e"], of e w msg]] assms(2) show ?thesis
    by (auto simp: conn_step_def event_env_def event_ok_def split: prod.splits)
next
  case (PeerGarbage e)
  have "session_inv opts (c\<lparr>sn_last_recv_time := t\<rparr>)" for t by (rule session_inv_core [OF _ _ assms(1)]) simp_all
  with PeerGarbage show ?thesis by (simp add: conn_step_def event_ok_def)
next
  case (CmEvt e ce)
  with on_cm_event_ok [OF assms(1)] assms(2) show ?thesis by (simp add: conn_step_def event_env_def)
qed (use closed_event_ok(3) [OF assms(1)] timers_ok [OF assms(1)] test_delay_timer_ok [OF assms(1)] file_timer_ok [OF assms(1)]
  service_message_ok [OF assms(1)] in \<open>simp_all add: conn_step_def\<close>)

lemma run_session_inv:
  assumes "run_session evs c w = Some (c', w')" "session_inv opts c" "run_ok opts evs"
  shows "session_inv opts c' \<and> (sn_login_scope c \<noteq> None \<longrightarrow> sn_login_scope c' = sn_login_scope c) \<and>
    (ac_authorized (sn_auth c) \<longrightarrow> ac_authorized (sn_auth c'))"
  using assms
proof (induction evs arbitrary: c w)
  case (Cons ev evs)
  obtain keep f c1 w1 where s: "conn_step ev c w = (keep, f, c1, w1)" by (metis prod_cases4)
  with Cons.prems(1) have k: "keep" "run_session evs c1 w1 = Some (c', w')" by (auto split: if_splits)
  from conn_step_ok [OF Cons.prems(2), of ev w] Cons.prems(3) s k
  have c1: "session_inv opts c1" "sn_login_scope c \<noteq> None \<longrightarrow> sn_login_scope c1 = sn_login_scope c"
    "ac_authorized (sn_auth c) \<longrightarrow> ac_authorized (sn_auth c1)"
    by (simp_all add: event_ok_def run_ok_def)
  from Cons.IH [OF k(2) c1(1)] Cons.prems(3) c1(2,3) show ?case by (auto simp: run_ok_def)
qed simp

lemma new_conn_inv: "\<not> ac_authorized a \<Longrightarrow> \<not> ac_terminal a \<Longrightarrow> ac_terminal_token a = None \<Longrightarrow> session_inv opts (new_conn now i a opts' cp)"
  by (simp add: new_conn_def session_inv_def conn_ok_def scope_recorded_def scope_permitted_def is_port_forward_def opts_default_def
      initial_opts_def login_request_default_def conn_type_of_def)

definition start_conn :: "int \<Rightarrow> int \<Rightarrow> string \<Rightarrow> bytes \<Rightarrow> bytes \<Rightarrow> bool \<Rightarrow> (string \<Rightarrow> string) \<Rightarrow> u64 option \<Rightarrow> session_conn" where
  "start_conn now i ip salt challenge require_2fa opts cp = new_conn now i (initial_auth ip salt challenge require_2fa) opts cp"

lemma start_conn_inv: "session_inv opts (start_conn now i ip salt ch tfa opts cp)"
  unfolding start_conn_def by (rule new_conn_inv) (simp_all add: initial_auth_def)

lemma reached_inv:
  assumes "run_session evs (start_conn now i ip salt ch tfa opts cp) w0 = Some (c, w)" "run_ok opts evs"
  shows "session_inv opts c"
  using run_session_inv [OF assms(1) start_conn_inv assms(2)] by simp

section \<open>Isolation of sessions\<close>

text \<open>C3. Whatever happened on a connection before, the effects of a message of the peer are those of the
  type of session it is authorised for, under the permissions in force: input, clipboard writes,
  restarts, resolution changes, screen locks, privacy mode and the subscription to the clipboard only
  in a remote session and only with the permission of the local user, file system requests that
  name a path and directory listings only in a file transfer session, answers of terminals only in a
  terminal session, the camera only in a camera session; before the authorisation nothing but the
  login itself.  Terminal sessions of the machine change only through a terminal session.\<close>

theorem peer_effects_in_scope:
  assumes "run_session evs (start_conn now i ip salt ch tfa opts cp) w0 = Some (c, w)" "run_ok opts evs" "env_ok opts e"
    and "on_message e msg c w = (keep, effs, c', w')"
  shows "list_all (effect_allowed (sn_authed_conn_id c') (sn_perms c')) effs \<and>
    (sn_authed_conn_id c' \<noteq> Some ConnTerminal \<longrightarrow> term_sessions (sw_term w') = term_sessions (sw_term w))"
  using on_message_ok [OF reached_inv [OF assms(1,2)] assms(3), of w msg] assms(4)
  by (simp add: message_ok_def effs_ok_def)


text \<open>A connection starts only from an address of the whitelist.\<close>

lemma open_session_starts:
  assumes "open_session e cidr window_missing ip (new_conn now i (initial_auth [] salt ch tfa) opts cp) = (True, f, c)"
  shows "c = start_conn now i ip salt ch tfa opts cp \<and> check_whitelist cidr (ev_opts e ''whitelist'') ip"
  using assms
  by (auto simp: open_session_def conn_on_open_def start_conn_def new_conn_def initial_auth_def split: if_splits)

lemma quiet_inputs:
  assumes "list_all (effect_allowed t p) effs" "\<not> (t = Some ConnRemote \<and> cp_keyboard p)"
  shows "list_all (\<lambda>ev. \<exists>me b. ev = InMouse me False b) (inputs_of effs)"
  using assms(1)
proof (induction effs)
  case (Cons x effs)
  with assms(2) show ?case by (cases x) (auto simp: inputs_of_def List.map_filter_simps)
qed (simp add: inputs_of_def List.map_filter_simps)

lemma quiet_thread:
  assumes "list_all (\<lambda>ev. \<exists>me b. ev = InMouse me False b) evs"
  shows "list_all (\<lambda>x. \<exists>me b. x = HandleMouse me False b) (handle_input block evs mode)"
  using assms by (induction evs arbitrary: mode) (auto simp: input_step_def)

text \<open>C23. Without the keyboard permission, or in a session that is not a remote one, no message of the peer makes
  the input thread inject a key, a click, a movement or a pointer event or block the local input,
  whatever happened before: at most it draws the peer's cursor.\<close>

theorem no_input_without_permission:
  assumes "run_session evs (start_conn now i ip salt ch tfa opts cp) w0 = Some (c, w)" "run_ok opts evs" "env_ok opts e"
    and "on_message e msg c w = (keep, effs, c', w')"
    and "\<not> (sn_authed_conn_id c' = Some ConnRemote \<and> cp_keyboard (sn_perms c'))"
  shows "list_all (\<lambda>x. \<exists>me b. x = HandleMouse me False b) (handle_input block (inputs_of effs) False)"
proof -
  have "list_all (effect_allowed (sn_authed_conn_id c') (sn_perms c')) effs"
    using on_message_ok [OF reached_inv [OF assms(1,2)] assms(3), of w msg] assms(4) by (simp add: message_ok_def effs_ok_def)
  from quiet_thread [OF quiet_inputs [OF this assms(5)]] show ?thesis .
qed

lemma check_login_scope_again:
  assumes "check_login_scope sha lr c = (True, c1)"
  shows "sn_login_scope c1 = Some (login_scope_digest sha lr)" "check_login_scope sha lr c1 = (True, c1)"
    "c1 = c\<lparr>sn_login_scope := Some (login_scope_digest sha lr)\<rparr>"
  using assms by (auto simp: check_login_scope_def Let_def split: option.splits)

lemma session_inv_scope: "session_inv opts (c\<lparr>sn_login_scope := x\<rparr>) \<longleftrightarrow> session_inv opts c"
  by (rule session_inv_cong) simp_all

lemma login_request_latches:
  assumes "session_inv opts c" "env_ok opts e" "\<not> ac_authorized (sn_auth c)" "on_login_request e lr c w = (True, f, c', w')"
  shows "sn_login_scope c' = Some (login_scope_digest (cr_sha256 (ae_crypto (ev_auth e))) lr)"
proof -
  let ?sha = "cr_sha256 (ae_crypto (ev_auth e))"
  obtain ok c1 where sc: "check_login_scope ?sha lr c = (ok, c1)" by (metis surj_pair)
  with assms(4) have "ok" by (cases ok) (simp_all add: on_login_request_def)
  with sc have sc: "check_login_scope ?sha lr c = (True, c1)" by simp
  note a = check_login_scope_again [OF sc]
  have "on_login_request e lr c w = on_login_request e lr c1 w" unfolding on_login_request_def sc a(2) ..
  with assms(4) have r: "on_login_request e lr c1 w = (True, f, c', w')" by simp
  have i: "session_inv opts c1" "\<not> ac_authorized (sn_auth c1)" using assms(1,3) by (simp_all add: a(3) session_inv_scope)
  from on_login_request_ok [OF i(1) assms(2) i(2), of w lr] r a(1) show ?thesis by (simp add: message_ok_def)
qed

lemma run_session_append:
  "run_session (xs @ ys) c w = (case run_session xs c w of None \<Rightarrow> None | Some (c1, w1) \<Rightarrow> run_session ys c1 w1)"
  by (induction xs arbitrary: c w) (auto split: prod.splits)

text \<open>C5. A connection serves one identity and one scope: after a login request, a later one with another ID or
  another scope - a different type of session, directory, target or terminal service - is refused and
  ends the connection without touching its state, as long as the hash has no collision between the
  two; an authorised connection ignores it.\<close>

theorem login_scope_latched:
  assumes "run_session (evs1 @ PeerMsg e1 (Some (LoginRequest lr1)) # evs2) (start_conn now i ip salt ch tfa opts cp) w0 = Some (c, w)"
    and "run_ok opts (evs1 @ PeerMsg e1 (Some (LoginRequest lr1)) # evs2)"
    and "ae_crypto (ev_auth e2) = ae_crypto (ev_auth e1)"
    and "login_scope_digest (cr_sha256 (ae_crypto (ev_auth e1))) lr2 = login_scope_digest (cr_sha256 (ae_crypto (ev_auth e1))) lr1 \<Longrightarrow>
      login_scope_preimage lr2 = login_scope_preimage lr1"
    and "lr_sizes_ok lr1" "lr_sizes_ok lr2" "lr_my_id lr2 \<noteq> lr_my_id lr1 \<or> lr_union lr2 \<noteq> lr_union lr1"
  shows "on_message e2 (Some (LoginRequest lr2)) c w =
    (if ac_authorized (sn_auth c) then (True, [], c, w) else (False, [login_error ''Connection not allowed''], c, w))"
proof (cases "ac_authorized (sn_auth c)")
  case True
  then show ?thesis by (simp add: on_message_def)
next
  case False
  let ?sha = "cr_sha256 (ae_crypto (ev_auth e1))"
  obtain c1 w1 where r1: "run_session evs1 (start_conn now i ip salt ch tfa opts cp) w0 = Some (c1, w1)"
    and r2: "run_session (PeerMsg e1 (Some (LoginRequest lr1)) # evs2) c1 w1 = Some (c, w)"
    using assms(1) by (auto simp: run_session_append split: option.splits)
  obtain keep f c2 w2 where s: "conn_step (PeerMsg e1 (Some (LoginRequest lr1))) c1 w1 = (keep, f, c2, w2)" by (metis prod_cases4)
  with r2 have k: "keep" "run_session evs2 c2 w2 = Some (c, w)" by (auto split: if_splits)
  have ok: "run_ok opts evs1" "env_ok opts e1" "run_ok opts evs2" using assms(2) by (simp_all add: run_ok_def event_env_def)
  have i1: "session_inv opts c1" by (rule reached_inv [OF r1 ok(1)])
  have i2: "session_inv opts c2" "ac_authorized (sn_auth c1) \<longrightarrow> ac_authorized (sn_auth c2)"
    using conn_step_ok [OF i1, of "PeerMsg e1 (Some (LoginRequest lr1))" w1] s k(1) ok(2) by (simp_all add: event_ok_def event_env_def)
  from run_session_inv [OF k(2) i2(1) ok(3)] False i2(2)
  have n1: "\<not> ac_authorized (sn_auth c1)" and sc: "sn_login_scope c2 \<noteq> None \<longrightarrow> sn_login_scope c = sn_login_scope c2" by auto
  let ?c1 = "c1\<lparr>sn_last_recv_time := ev_now e1\<rparr>"
  have "on_login_request e1 lr1 ?c1 w1 = (True, f, c2, w2)"
    using s k(1) n1 by (auto simp: conn_step_def on_message_def split: prod.splits)
  moreover have "session_inv opts ?c1" by (rule session_inv_core [OF _ _ i1]) simp_all
  ultimately have "sn_login_scope c2 = Some (login_scope_digest ?sha lr1)" using login_request_latches [of opts ?c1] ok(2) n1 by simp
  with sc have "sn_login_scope c = Some (login_scope_digest ?sha lr1)" by simp
  moreover have "login_scope_digest ?sha lr2 \<noteq> login_scope_digest ?sha lr1"
    using login_scope_preimage_inj [OF assms(6,5)] assms(4,7) by auto
  ultimately show ?thesis using False assms(3) by (simp add: on_message_def on_login_request_def check_login_scope_def)
qed

section \<open>Concrete sessions\<close>

definition sample_session_env :: session_env where
  "sample_session_env =
     \<lparr>ev_auth = sample_env, ev_opts = (\<lambda>_. []), ev_builtin = (\<lambda>_. []), ev_server = True, ev_my_id = ''9'',
      ev_is_direct_ip = (\<lambda>_. False), ev_connect_ok = True, ev_login_screen_error = [], ev_displays = Inr 0,
      ev_source_count = 1, ev_display_exists = (\<lambda>d. d = 0), ev_display_changed_msg = False, ev_subbed_displays = 1,
      ev_cursor_data = (\<lambda>_. False), ev_dir_exists = (\<lambda>_. False), ev_listing = (\<lambda>_ _. Inr []), ev_max_files = 100,
      ev_fs_meta = (\<lambda>_. MetaFile), ev_open_err = (\<lambda>_. None), ev_seek_ok = True,
      ev_fs = \<lparr>fs_content = (\<lambda>_. None), fs_mtime = (\<lambda>_. 0)\<rparr>,
      ev_terminal = \<lparr>oe_openpty = None, oe_spawn = Inr (7, None), oe_take_writer = None, oe_clone_reader = None, oe_resize = None, oe_kill = None\<rparr>,
      ev_new_service_id = ''ts'',
      ev_privacy = \<lparr>pv_supported = False, pv_is_in = False, pv_conn_id = None, pv_cur_impl = None, pv_pre_is_current = False,
        pv_turn_on = None, pv_is_in_after = False, pv_check_err = [], pv_turn_off = None\<rparr>,
      ev_modifier_key = (\<lambda>_. None), ev_whiteboard_supported = False, ev_session_reconnected = False, ev_another_remote = False\<rparr>"

definition sample_lr :: "string \<Rightarrow> login_union option \<Rightarrow> bytes \<Rightarrow> login_request_msg" where
  "sample_lr my_id u pw =
     login_request_default\<lparr>lr_username := ''9'', lr_my_id := my_id, lr_union := u, lr_password := pw, lr_version := ''1.4.0''\<rparr>"

definition sample_world :: session_world where
  "sample_world =
     \<lparr>sw_auth = sample_state empty_config, sw_term = \<lparr>tw_services = [], tw_tasks = [], tw_cleanup_task = False\<rparr>,
      sw_switch_sides = [], sw_pending_switch = []\<rparr>"

definition sample_start :: session_conn where
  "sample_start = start_conn 60000 1 ''10.0.0.7'' [] [9] False (\<lambda>_. []) None"

abbreviation right_response :: bytes where
  "right_response \<equiv> client_response sample_crypto [49, 50] [] [9]"

abbreviation sample_event :: "login_request_msg \<Rightarrow> conn_event" where
  "sample_event lr \<equiv> PeerMsg sample_session_env (Some (LoginRequest lr))"

lemma sample_env_ok: "env_ok (\<lambda>_. []) sample_session_env"
  by (simp add: env_ok_def sample_session_env_def sample_env_def)

lemma sample_event_ok: "run_ok (\<lambda>_. []) [sample_event lr]"
  by (simp add: run_ok_def event_env_def sample_env_ok)

lemma sample_run:
  assumes "on_login_request sample_session_env lr sample_start sample_world = (True, f, c, w)" "\<not> sn_port_forward_socket c"
  shows "run_session [sample_event lr] sample_start sample_world = Some (c, w)"
proof -
  have "sample_start\<lparr>sn_last_recv_time := ev_now sample_session_env\<rparr> = sample_start" "\<not> ac_authorized (sn_auth sample_start)"
    by (simp_all add: sample_start_def start_conn_def new_conn_def initial_auth_def ev_now_def sample_session_env_def sample_env_def)
  with assms show ?thesis by (simp add: conn_step_def on_message_def)
qed

lemma sample_right_login:
  "case on_login_request sample_session_env (sample_lr ''1'' None right_response) sample_start sample_world of
     (keep, f, c, w) \<Rightarrow> keep \<and> ac_authorized (sn_auth c) \<and> sn_authed_conn_id c = Some ConnRemote \<and> clipboard_enabled c \<and> \<not> sn_port_forward_socket c"
  by code_simp

lemma sample_empty_login:
  "case on_login_request sample_session_env (sample_lr ''1'' None []) sample_start sample_world of
     (keep, f, c, w) \<Rightarrow> keep \<and> \<not> ac_authorized (sn_auth c) \<and> \<not> sn_port_forward_socket c"
  by code_simp

lemma sample_digest:
  "login_scope_digest (cr_sha256 sample_crypto) (sample_lr ''2'' None []) \<noteq> login_scope_digest (cr_sha256 sample_crypto) (sample_lr ''1'' None [])"
  by code_simp

theorem peer_effects_in_scope_witness:
  "\<exists>c w. run_session [sample_event (sample_lr ''1'' None right_response)] sample_start sample_world = Some (c, w) \<and>
     on_message sample_session_env (Some (Clipboard [65])) c w = (True, [UpdateClipboard [[65]]], c, w) \<and>
     list_all (effect_allowed (sn_authed_conn_id c) (sn_perms c)) [UpdateClipboard [[65]]]"
proof -
  let ?lr = "sample_lr ''1'' None right_response"
  obtain keep f c w where r: "on_login_request sample_session_env ?lr sample_start sample_world = (keep, f, c, w)" by (metis prod_cases4)
  from sample_right_login [unfolded r] have c: "keep" "ac_authorized (sn_auth c)" "sn_authed_conn_id c = Some ConnRemote"
    "clipboard_enabled c" "\<not> sn_port_forward_socket c" by simp_all
  with r have run: "run_session [sample_event ?lr] sample_start sample_world = Some (c, w)" by (intro sample_run) simp_all
  have m: "on_message sample_session_env (Some (Clipboard [65])) c w = (True, [UpdateClipboard [[65]]], c, w)"
    using c by (simp add: on_message_def authorized_scope_violation_def authed_conn_type_def authorized_message_scope_violation_def
        is_connection_housekeeping_message_def then_some_def dispatch_def on_clipboards_def should_handle_text_clipboard_message_def keep_on_def)
  from peer_effects_in_scope [OF run [unfolded sample_start_def] sample_event_ok sample_env_ok m] run m show ?thesis by blast
qed

theorem no_input_without_permission_witness:
  "\<exists>c w. run_session [sample_event (sample_lr ''1'' None [])] sample_start sample_world = Some (c, w) \<and>
     fst (snd (on_message sample_session_env (Some (PointerDeviceEvent [1])) c w)) = [] \<and>
     list_all (\<lambda>x. \<exists>me b. x = HandleMouse me False b) (handle_input (\<lambda>_. (True, [])) (inputs_of []) False)"
proof -
  let ?lr = "sample_lr ''1'' None []"
  obtain keep f c w where r: "on_login_request sample_session_env ?lr sample_start sample_world = (keep, f, c, w)" by (metis prod_cases4)
  from sample_empty_login [unfolded r] have c: "keep" "\<not> ac_authorized (sn_auth c)" "\<not> sn_port_forward_socket c" by simp_all
  with r have run: "run_session [sample_event ?lr] sample_start sample_world = Some (c, w)" by (intro sample_run) simp_all
  have m: "on_message sample_session_env (Some (PointerDeviceEvent [1])) c w = (True, [], c, w)" using c(2) by (simp add: on_message_def)
  have n: "sn_authed_conn_id c = None"
    using reached_inv [OF run [unfolded sample_start_def] sample_event_ok] unauthorized_state(1) c(2) by blast
  from no_input_without_permission [OF run [unfolded sample_start_def] sample_event_ok sample_env_ok m] n run m show ?thesis by simp
qed


theorem login_scope_latched_witness:
  "\<exists>c w. run_session [sample_event (sample_lr ''1'' None [])] sample_start sample_world = Some (c, w) \<and>
     on_message sample_session_env (Some (LoginRequest (sample_lr ''2'' None []))) c w =
       (False, [login_error ''Connection not allowed''], c, w)"
proof -
  let ?lr = "sample_lr ''1'' None []"
  obtain keep f c w where r: "on_login_request sample_session_env ?lr sample_start sample_world = (keep, f, c, w)" by (metis prod_cases4)
  from sample_empty_login [unfolded r] have c: "keep" "\<not> ac_authorized (sn_auth c)" "\<not> sn_port_forward_socket c" by simp_all
  with r have run: "run_session [sample_event ?lr] sample_start sample_world = Some (c, w)" by (intro sample_run) simp_all
  have cr: "cr_sha256 (ae_crypto (ev_auth sample_session_env)) = cr_sha256 sample_crypto" by (simp add: sample_session_env_def sample_env_def)
  have sizes: "lr_sizes_ok (sample_lr ''1'' None [])" "lr_sizes_ok (sample_lr ''2'' None [])"
    "lr_my_id (sample_lr ''2'' None []) \<noteq> lr_my_id (sample_lr ''1'' None []) \<or> lr_union (sample_lr ''2'' None []) \<noteq> lr_union (sample_lr ''1'' None [])"
    by (simp_all add: lr_sizes_ok_def sample_lr_def login_request_default_def)
  have "on_message sample_session_env (Some (LoginRequest (sample_lr ''2'' None []))) c w =
    (if ac_authorized (sn_auth c) then (True, [], c, w) else (False, [login_error ''Connection not allowed''], c, w))"
    by (rule login_scope_latched [where ?evs1.0 = "[]" and ?evs2.0 = "[]" and ?e1.0 = sample_session_env and ?lr1.0 = ?lr and opts = "\<lambda>_. []"
          and now = 60000 and i = 1 and ip = "''10.0.0.7''" and salt = "[]" and ch = "[9]" and tfa = False and cp = None and ?w0.0 = sample_world])
      (use run sizes sample_event_ok sample_digest in \<open>simp_all add: cr flip: sample_start_def\<close>)
  with run c show ?thesis by auto
qed

end
