(* ===== verification/Webrtc_Frame.thy ===== *)
theory Webrtc_Frame
  imports Prelude Common_Lib Bytes_Codec
begin

text \<open>
  Messages over a WebRTC data channel, \<open>libs/hbb_common/src/webrtc.rs\<close>.  A data channel carries
  datagrams of bounded size, so a message is cut into fragments with a one-byte header and put together
  again by the reader; the partial message lives in the stream and survives a cancelled read.

  The stream is a record.  The detached data channel is what was written to it and what its reads
  answer next; the connection state is the sequence of values the watch channel will show, the first of
  them the current one.  A send takes the answers of the library and of the clock as an argument.
\<close>

definition MAX_FRAGMENT_PAYLOAD :: nat where "MAX_FRAGMENT_PAYLOAD = 60000"
definition FRAG_MORE :: u8 where "FRAG_MORE = 1"
definition FRAG_END :: u8 where "FRAG_END = 0"
definition MAX_RECV_MESSAGE :: nat where "MAX_RECV_MESSAGE = MAX_FRAME_LENGTH"

datatype webrtc_state = RtcPending | RtcOpen | RtcClosed string

datatype dc_read = DcRead bytes | DcReadErr string

datatype next_result = NextPending | NextEnd | NextErr string | NextOk bytes

record webrtc_stream =
  rtc_states :: "webrtc_state list"
  rtc_send_timeout :: nat
  rtc_acc :: bytes
  rtc_verified :: bool
  rtc_max :: nat
  rtc_probe :: u64
  rtc_closing :: bool
  rtc_out :: "bytes list"
  rtc_in :: "dc_read list"

section \<open>Settings\<close>

definition rtc_set_max_packet_length :: "nat \<Rightarrow> webrtc_stream \<Rightarrow> webrtc_stream" where
  "rtc_set_max_packet_length n s = s\<lparr>rtc_max := min n MAX_RECV_MESSAGE\<rparr>"

definition rtc_set_key :: "bytes \<Rightarrow> webrtc_stream \<Rightarrow> webrtc_stream" where
  "rtc_set_key _ s = s\<lparr>rtc_verified := True\<rparr>"

definition rtc_is_secured :: "webrtc_stream \<Rightarrow> bool" where
  "rtc_is_secured s = rtc_verified s"

definition close_detached :: "webrtc_stream \<Rightarrow> webrtc_stream" where
  "close_detached s = s\<lparr>rtc_closing := True\<rparr>"

text \<open>\<open>wait_for_connect_result\<close>: the values of the watch channel are looked at until one settles the
  matter; the channel's end is an error.\<close>

fun wait_for_connect_result :: "webrtc_state list \<Rightarrow> (string + unit) \<times> webrtc_state list" where
  "wait_for_connect_result [] = (Inl ''channel closed'', [])"
| "wait_for_connect_result (RtcOpen # r) = (Inr (), RtcOpen # r)"
| "wait_for_connect_result (RtcClosed why # r) =
     (Inl (''WebRTC connection closed: '' @ why), RtcClosed why # r)"
| "wait_for_connect_result (RtcPending # r) = wait_for_connect_result r"

section \<open>Sending\<close>

text \<open>What a write answers: done, refused, or parked for longer than the deadline.\<close>

datatype dc_write = WriteOk | WriteErr string | WriteParked

datatype write_end = WrittenAll | WriteFailed string bool | StillWriting

function write_fragments :: "(nat \<Rightarrow> dc_write) \<Rightarrow> bytes \<Rightarrow> nat \<Rightarrow> nat \<Rightarrow> bytes list \<times> write_end" where
  "write_fragments w d off i =
     (let last = min (off + MAX_FRAGMENT_PAYLOAD) (length d);
          is_last = (last \<ge> length d);
          framed = (if is_last then FRAG_END else FRAG_MORE) # take (last - off) (drop off d)
      in case w i of
           WriteErr e \<Rightarrow> ([], WriteFailed e (0 < i))
         | WriteParked \<Rightarrow> ([], StillWriting)
         | WriteOk \<Rightarrow>
             if is_last then ([framed], WrittenAll)
             else (let (out, r) = write_fragments w d last (Suc i) in (framed # out, r)))"
  by pat_completeness auto
termination
  by (relation "measure (\<lambda>(w, d, off, i). length d - off)") (auto simp: MAX_FRAGMENT_PAYLOAD_def)

declare write_fragments.simps [simp del]

datatype gate_answer = GateOk | GateClosed string | GateTimeout

record send_env =
  se_connect_timeout :: bool
  se_gate :: gate_answer
  se_detach :: "string option"
  se_write :: "nat \<Rightarrow> dc_write"

definition send_bytes_inner :: "send_env \<Rightarrow> bytes \<Rightarrow> webrtc_stream \<Rightarrow> write_end \<times> webrtc_stream" where
  "send_bytes_inner env d s =
     (if length d > MAX_RECV_MESSAGE then (WriteFailed ''Overflow'' False, s)
      else (let (c, sts) = wait_for_connect_result (rtc_states s); s1 = s\<lparr>rtc_states := sts\<rparr>
            in case c of
                 Inl e \<Rightarrow> (WriteFailed e False, s1)
               | Inr _ \<Rightarrow>
                   (case se_detach env of
                      Some e \<Rightarrow> (WriteFailed e False, s1)
                    | None \<Rightarrow>
                        (let (out, r) = write_fragments (se_write env) d 0 0
                         in (r, s1\<lparr>rtc_out := rtc_out s1 @ out\<rparr>)))))"

text \<open>\<open>send_bytes\<close>; \<open>None\<close> is a send that has not returned, which only the branch without a timeout
  allows.\<close>

definition rtc_send_bytes :: "send_env \<Rightarrow> bytes \<Rightarrow> webrtc_stream \<Rightarrow> (string + unit) option \<times> webrtc_stream" where
  "rtc_send_bytes env d s =
     (if rtc_send_timeout s > 0 then
        (if se_connect_timeout env then (Some (Inl ''WebRTC connect timeout''), s)
         else (let (c, sts) = wait_for_connect_result (rtc_states s); s1 = s\<lparr>rtc_states := sts\<rparr>
               in case c of
                    Inl e \<Rightarrow> (Some (Inl e), s1)
                  | Inr _ \<Rightarrow>
                      (case se_gate env of
                         GateClosed e \<Rightarrow> (Some (Inl (''WebRTC send gate closed: '' @ e)), s1)
                       | GateTimeout \<Rightarrow> (Some (Inl ''WebRTC send gate timeout''), s1)
                       | GateOk \<Rightarrow>
                           (case send_bytes_inner env d s1 of
                              (WrittenAll, s2) \<Rightarrow> (Some (Inr ()), s2)
                            | (WriteFailed e desynced, s2) \<Rightarrow>
                                (Some (Inl e), if desynced then close_detached s2 else s2)
                            | (StillWriting, s2) \<Rightarrow> (Some (Inl ''WebRTC send timeout''), close_detached s2)))))
      else
        (case se_gate env of
           GateClosed e \<Rightarrow> (Some (Inl (''WebRTC send gate closed: '' @ e)), s)
         | GateTimeout \<Rightarrow> (None, s)
         | GateOk \<Rightarrow>
             (case send_bytes_inner env d s of
                (WrittenAll, s2) \<Rightarrow> (Some (Inr ()), s2)
              | (WriteFailed e desynced, s2) \<Rightarrow> (Some (Inl e), if desynced then close_detached s2 else s2)
              | (StillWriting, s2) \<Rightarrow> (None, s2))))"

section \<open>Receiving\<close>

definition frag_bad :: "bytes \<Rightarrow> string option" where
  "frag_bad r =
     (if hd r = FRAG_END then None
      else if hd r = FRAG_MORE then
        (if length r > 1 then None else Some ''FRAG_MORE fragment carries no payload'')
      else Some (''fragment header '' @ show_nat (unat (hd r)) @ '' is neither FRAG_END nor FRAG_MORE''))"

text \<open>A fatal read: the partial message is released and the connection closed.\<close>

definition rtc_abort :: "webrtc_stream \<Rightarrow> webrtc_stream" where
  "rtc_abort s = close_detached (s\<lparr>rtc_acc := []\<rparr>)"

function rtc_read_loop :: "webrtc_stream \<Rightarrow> next_result \<times> webrtc_stream" where
  "rtc_read_loop s =
     (case rtc_in s of
        [] \<Rightarrow> (NextPending, s)
      | DcReadErr e # rest \<Rightarrow>
          (NextErr (''data channel read error: '' @ e), rtc_abort (s\<lparr>rtc_in := rest\<rparr>))
      | DcRead r # rest \<Rightarrow>
          (let s1 = s\<lparr>rtc_in := rest, rtc_probe := rtc_probe s + of_nat (length r)\<rparr>
           in if r = [] then (NextEnd, rtc_abort s1)
              else case frag_bad r of
                Some why \<Rightarrow> (NextErr (''WebRTC '' @ why), rtc_abort s1)
              | None \<Rightarrow>
                  if length (rtc_acc s1) + (length r - 1) > rtc_max s1
                  then (NextErr ''WebRTC reassembled message exceeded maximum frame size'', rtc_abort s1)
                  else if hd r = FRAG_END \<and> rtc_acc s1 = [] then (NextOk (tl r), s1)
                  else (let acc = rtc_acc s1 @ tl r
                        in if hd r = FRAG_END then (NextOk acc, s1\<lparr>rtc_acc := []\<rparr>)
                           else rtc_read_loop (s1\<lparr>rtc_acc := acc\<rparr>))))"
  by pat_completeness auto
termination
  by (relation "measure (\<lambda>s. length (rtc_in s))") auto

declare rtc_read_loop.simps [simp del]

text \<open>\<open>next\<close>; \<open>detach\<close> is the answer of fetching the data channel.\<close>

definition rtc_next :: "string option \<Rightarrow> webrtc_stream \<Rightarrow> next_result \<times> webrtc_stream" where
  "rtc_next detach s =
     (let (c, sts) = wait_for_connect_result (rtc_states s); s1 = s\<lparr>rtc_states := sts\<rparr>
      in case c of
           Inl e \<Rightarrow> (NextErr e, close_detached s1)
         | Inr _ \<Rightarrow>
             (case detach of
                Some e \<Rightarrow> (NextErr e, close_detached s1)
              | None \<Rightarrow> rtc_read_loop s1))"

section \<open>The fragments of a message\<close>

text \<open>Reference definition: all pieces but the last are full.\<close>

function fragments :: "bytes \<Rightarrow> bytes list" where
  "fragments d =
     (if length d \<le> MAX_FRAGMENT_PAYLOAD then [FRAG_END # d]
      else (FRAG_MORE # take MAX_FRAGMENT_PAYLOAD d) # fragments (drop MAX_FRAGMENT_PAYLOAD d))"
  by pat_completeness auto
termination
  by (relation "measure length") (auto simp: MAX_FRAGMENT_PAYLOAD_def)

declare fragments.simps [simp del]

lemma fragments_not_Nil [simp]: "fragments d \<noteq> []"
  by (subst fragments.simps) simp

lemma write_fragments_last:
  assumes "off \<le> length d" "length d \<le> off + MAX_FRAGMENT_PAYLOAD"
  shows "write_fragments w d off i =
    (case w i of WriteErr e \<Rightarrow> ([], WriteFailed e (0 < i)) | WriteParked \<Rightarrow> ([], StillWriting)
     | WriteOk \<Rightarrow> ([FRAG_END # drop off d], WrittenAll))"
proof -
  have "min (off + MAX_FRAGMENT_PAYLOAD) (length d) = length d" using assms by simp
  then show ?thesis by (subst write_fragments.simps) (simp add: Let_def split: dc_write.split)
qed

lemma write_fragments_more:
  assumes "off + MAX_FRAGMENT_PAYLOAD < length d"
  shows "write_fragments w d off i =
    (case w i of WriteErr e \<Rightarrow> ([], WriteFailed e (0 < i)) | WriteParked \<Rightarrow> ([], StillWriting)
     | WriteOk \<Rightarrow> (let (out, r) = write_fragments w d (off + MAX_FRAGMENT_PAYLOAD) (Suc i)
                  in ((FRAG_MORE # take MAX_FRAGMENT_PAYLOAD (drop off d)) # out, r)))"
proof -
  have "min (off + MAX_FRAGMENT_PAYLOAD) (length d) = off + MAX_FRAGMENT_PAYLOAD"
    "\<not> length d \<le> off + MAX_FRAGMENT_PAYLOAD" using assms by auto
  then show ?thesis by (subst write_fragments.simps) (simp add: Let_def split: dc_write.split)
qed

lemma fragments_last: "length d \<le> off + MAX_FRAGMENT_PAYLOAD \<Longrightarrow> fragments (drop off d) = [FRAG_END # drop off d]"
  by (subst fragments.simps) auto

lemma fragments_more: "off + MAX_FRAGMENT_PAYLOAD < length d \<Longrightarrow> fragments (drop off d) =
  (FRAG_MORE # take MAX_FRAGMENT_PAYLOAD (drop off d)) # fragments (drop (off + MAX_FRAGMENT_PAYLOAD) d)"
  by (subst fragments.simps) (auto simp: add.commute)

text \<open>Whatever the writes answer, what is on the channel is a beginning of the message's fragments: all of
  them when the loop ended well, and not none when a failure reports the stream as out of step.\<close>

definition written_ok :: "bytes \<Rightarrow> nat \<Rightarrow> nat \<Rightarrow> bytes list \<times> write_end \<Rightarrow> bool" where
  "written_ok d off i x =
     ((snd x = WrittenAll \<longrightarrow> fst x = fragments (drop off d)) \<and>
      (\<exists>rest. fragments (drop off d) = fst x @ rest) \<and>
      (\<forall>e b. snd x = WriteFailed e b \<longrightarrow> (b \<longleftrightarrow> 0 < i \<or> fst x \<noteq> [])))"

lemma write_fragments_outcome: "off \<le> length d \<Longrightarrow> written_ok d off i (write_fragments w d off i)"
proof (induction "length d - off" arbitrary: off i rule: less_induct)
  case less
  show ?case
  proof (cases "length d \<le> off + MAX_FRAGMENT_PAYLOAD")
    case True
    with less.prems show ?thesis
      by (simp add: write_fragments_last fragments_last written_ok_def split: dc_write.split)
  next
    case False
    then have l: "off + MAX_FRAGMENT_PAYLOAD < length d" by simp
    then have "written_ok d (off + MAX_FRAGMENT_PAYLOAD) (Suc i) (write_fragments w d (off + MAX_FRAGMENT_PAYLOAD) (Suc i))"
      by (intro less.hyps) (auto simp: MAX_FRAGMENT_PAYLOAD_def)
    then show ?thesis
      by (simp add: write_fragments_more [OF l] fragments_more [OF l] written_ok_def Let_def case_prod_beta split: dc_write.split) blast
  qed
qed

lemma write_fragments_ok: "(\<And>j. w j = WriteOk) \<Longrightarrow> off \<le> length d \<Longrightarrow>
  write_fragments w d off i = (fragments (drop off d), WrittenAll)"
proof (induction "length d - off" arbitrary: off i rule: less_induct)
  case less
  show ?case
  proof (cases "length d \<le> off + MAX_FRAGMENT_PAYLOAD")
    case False
    then have l: "off + MAX_FRAGMENT_PAYLOAD < length d" by simp
    then have "write_fragments w d (off + MAX_FRAGMENT_PAYLOAD) (Suc i) =
        (fragments (drop (off + MAX_FRAGMENT_PAYLOAD) d), WrittenAll)"
      by (intro less.hyps) (auto simp: MAX_FRAGMENT_PAYLOAD_def less.prems)
    then show ?thesis by (simp add: write_fragments_more [OF l] fragments_more [OF l] less.prems(1))
  qed (simp add: write_fragments_last fragments_last less.prems)
qed

section \<open>Reassembly\<close>

lemma rtc_loop_end:
  assumes "rtc_in s = DcRead (FRAG_END # d) # rest" "length (rtc_acc s) + length d \<le> rtc_max s"
  shows "rtc_read_loop s = (NextOk (rtc_acc s @ d),
    s\<lparr>rtc_in := rest, rtc_probe := rtc_probe s + of_nat (Suc (length d)), rtc_acc := []\<rparr>)"
  using assms by (subst rtc_read_loop.simps) (auto simp: Let_def frag_bad_def)

lemma rtc_loop_more:
  assumes "rtc_in s = DcRead (FRAG_MORE # d) # rest" "d \<noteq> []" "length (rtc_acc s) + length d \<le> rtc_max s"
  shows "rtc_read_loop s = rtc_read_loop
    (s\<lparr>rtc_in := rest, rtc_probe := rtc_probe s + of_nat (Suc (length d)), rtc_acc := rtc_acc s @ d\<rparr>)"
  using assms by (subst rtc_read_loop.simps) (auto simp: Let_def frag_bad_def FRAG_END_def FRAG_MORE_def)

lemma rtc_loop_message:
  assumes "rtc_in s = map DcRead (fragments d) @ rest" "length (rtc_acc s) + length d \<le> rtc_max s"
  shows "\<exists>p. rtc_read_loop s = (NextOk (rtc_acc s @ d), s\<lparr>rtc_in := rest, rtc_probe := p, rtc_acc := []\<rparr>)"
  using assms
proof (induction d arbitrary: s rule: fragments.induct)
  case (1 d)
  show ?case
  proof (cases "length d \<le> MAX_FRAGMENT_PAYLOAD")
    case True
    then have "rtc_in s = DcRead (FRAG_END # d) # rest" using 1(2) by (simp add: fragments.simps)
    from rtc_loop_end [OF this 1(3)] show ?thesis by blast
  next
    case False
    define pre where "pre = take MAX_FRAGMENT_PAYLOAD d"
    define suf where "suf = drop MAX_FRAGMENT_PAYLOAD d"
    define s1 where "s1 = s\<lparr>rtc_in := map DcRead (fragments suf) @ rest,
      rtc_probe := rtc_probe s + of_nat (Suc (length pre)), rtc_acc := rtc_acc s @ pre\<rparr>"
    have d: "d = pre @ suf" by (simp add: pre_def suf_def)
    have "rtc_in s = DcRead (FRAG_MORE # pre) # map DcRead (fragments suf) @ rest"
      using 1(2) False by (subst (asm) fragments.simps) (simp add: pre_def suf_def)
    moreover have "pre \<noteq> []" using False by (auto simp: pre_def MAX_FRAGMENT_PAYLOAD_def)
    ultimately have "rtc_read_loop s = rtc_read_loop s1"
      using 1(3) unfolding s1_def by (intro rtc_loop_more) (auto simp: d)
    moreover have "\<exists>p. rtc_read_loop s1 = (NextOk (rtc_acc s1 @ suf), s1\<lparr>rtc_in := rest, rtc_probe := p, rtc_acc := []\<rparr>)"
    proof -
      have "length (rtc_acc s1) + length suf \<le> rtc_max s1" using 1(3) by (simp add: s1_def d)
      then show ?thesis using 1(1) [of s1] False by (simp add: s1_def suf_def)
    qed
    ultimately show ?thesis by (auto simp: s1_def d)
  qed
qed

text \<open>A read of what has arrived so far either returns, and then what comes later stays unread, or waits,
  and then reading goes on as if everything had been there: a cancelled read loses nothing.\<close>

lemma rtc_loop_prefix:
  "rtc_read_loop s = (r, s') \<Longrightarrow>
   (if r = NextPending
    then rtc_in s' = [] \<and>
      (\<forall>m. rtc_read_loop (s\<lparr>rtc_in := rtc_in s @ m\<rparr>) = rtc_read_loop (s'\<lparr>rtc_in := m\<rparr>))
    else \<forall>m. rtc_read_loop (s\<lparr>rtc_in := rtc_in s @ m\<rparr>) = (r, s'\<lparr>rtc_in := rtc_in s' @ m\<rparr>))"
proof (induction s arbitrary: r s' rule: rtc_read_loop.induct)
  case (1 s)
  show ?case
  proof (cases "rtc_in s")
    case Nil
    then show ?thesis using 1(2) by (subst (asm) rtc_read_loop.simps) auto
  next
    case (Cons a rest)
    show ?thesis
    proof (cases a)
      case (DcReadErr e)
      then show ?thesis using 1(2) Cons
        by (subst (asm) rtc_read_loop.simps, subst rtc_read_loop.simps) (auto simp: rtc_abort_def close_detached_def)
    next
      case (DcRead d)
      define s1 where "s1 = s\<lparr>rtc_in := rest, rtc_probe := rtc_probe s + of_nat (length d)\<rparr>"
      show ?thesis
      proof (cases "d \<noteq> [] \<and> frag_bad d = None \<and> length (rtc_acc s) + (length d - 1) \<le> rtc_max s \<and> hd d \<noteq> FRAG_END")
        case True
        define s2 where "s2 = s1\<lparr>rtc_acc := rtc_acc s1 @ tl d\<rparr>"
        have whole: "rtc_read_loop (s\<lparr>rtc_in := rtc_in s @ m\<rparr>) = rtc_read_loop (s2\<lparr>rtc_in := rtc_in s2 @ m\<rparr>)" for m
          using Cons DcRead True by (cases s) (subst rtc_read_loop.simps, auto simp: Let_def s1_def s2_def)
        have "rtc_read_loop s = rtc_read_loop s2"
          using Cons DcRead True by (subst rtc_read_loop.simps) (auto simp: Let_def s1_def s2_def)
        with 1(2) have "rtc_read_loop s2 = (r, s')" by simp
        moreover have "\<not> length (rtc_acc s1) + (length d - 1) > rtc_max s1" "\<not> (hd d = FRAG_END \<and> rtc_acc s1 = [])"
          using True by (auto simp: s1_def)
        ultimately have "if r = NextPending
            then rtc_in s' = [] \<and> (\<forall>m. rtc_read_loop (s2\<lparr>rtc_in := rtc_in s2 @ m\<rparr>) = rtc_read_loop (s'\<lparr>rtc_in := m\<rparr>))
            else \<forall>m. rtc_read_loop (s2\<lparr>rtc_in := rtc_in s2 @ m\<rparr>) = (r, s'\<lparr>rtc_in := rtc_in s' @ m\<rparr>)"
          using 1(1) [OF Cons DcRead s1_def, of _ r s'] True unfolding s2_def by blast
        then show ?thesis unfolding whole .
      next
        case False
        then show ?thesis using 1(2) Cons DcRead
          by (subst (asm) rtc_read_loop.simps, subst rtc_read_loop.simps)
            (auto simp: Let_def rtc_abort_def close_detached_def split: if_splits option.splits)
      qed
    qed
  qed
qed

text \<open>What one call may take from the channel, and what it leaves behind.\<close>

definition rtc_read_ok :: "webrtc_stream \<Rightarrow> next_result \<times> webrtc_stream \<Rightarrow> bool" where
  "rtc_read_ok s x =
     (rtc_max (snd x) = rtc_max s \<and> rtc_states (snd x) = rtc_states s \<and>
      length (rtc_acc (snd x)) \<le> rtc_max s \<and>
      length (rtc_in s) \<le> length (rtc_in (snd x)) + Suc (rtc_max s - length (rtc_acc s)) \<and>
      (case fst x of
         NextPending \<Rightarrow> rtc_in (snd x) = []
       | NextOk m \<Rightarrow> length m \<le> rtc_max s \<and> rtc_acc (snd x) = [] \<and> length (rtc_in (snd x)) < length (rtc_in s)
       | NextErr e \<Rightarrow> rtc_acc (snd x) = [] \<and> rtc_closing (snd x) \<and> length (rtc_in (snd x)) < length (rtc_in s)
       | NextEnd \<Rightarrow> rtc_acc (snd x) = [] \<and> rtc_closing (snd x) \<and> length (rtc_in (snd x)) < length (rtc_in s)))"

lemma frag_more_adds: "frag_bad d = None \<Longrightarrow> hd d \<noteq> FRAG_END \<Longrightarrow> 1 < length d"
  by (auto simp: frag_bad_def split: if_splits)

lemma rtc_loop_bounds: "length (rtc_acc s) \<le> rtc_max s \<Longrightarrow> rtc_read_ok s (rtc_read_loop s)"
proof (induction s rule: rtc_read_loop.induct)
  case (1 s)
  show ?case
  proof (cases "rtc_in s")
    case Nil
    then show ?thesis using 1(2) by (subst rtc_read_loop.simps) (simp add: rtc_read_ok_def)
  next
    case (Cons a rest)
    show ?thesis
    proof (cases a)
      case (DcReadErr e)
      then show ?thesis using Cons
        by (subst rtc_read_loop.simps) (simp add: rtc_read_ok_def rtc_abort_def close_detached_def)
    next
      case (DcRead d)
      define s1 where "s1 = s\<lparr>rtc_in := rest, rtc_probe := rtc_probe s + of_nat (length d)\<rparr>"
      show ?thesis
      proof (cases "d \<noteq> [] \<and> frag_bad d = None \<and> length (rtc_acc s) + (length d - 1) \<le> rtc_max s \<and> hd d \<noteq> FRAG_END")
        case True
        define s2 where "s2 = s1\<lparr>rtc_acc := rtc_acc s1 @ tl d\<rparr>"
        have "rtc_read_loop s = rtc_read_loop s2"
          using Cons DcRead True by (subst rtc_read_loop.simps) (auto simp: Let_def s1_def s2_def)
        moreover have "rtc_read_ok s2 (rtc_read_loop s2)"
          using 1(1) [OF Cons DcRead s1_def] True unfolding s2_def by (auto simp: s1_def)
        ultimately show ?thesis
          using True frag_more_adds [of d] Cons
          by (auto simp: rtc_read_ok_def s1_def s2_def split: next_result.splits)
      next
        case False
        then show ?thesis using Cons DcRead 1(2)
          by (subst rtc_read_loop.simps)
            (auto simp: rtc_read_ok_def Let_def rtc_abort_def close_detached_def split: option.splits)
      qed
    qed
  qed
qed

section \<open>Messages end to end\<close>

text \<open>The reader: it calls \<open>next\<close> until nothing more has arrived or the stream ended, each time a batch
  of fragments comes in.\<close>

function rtc_drain :: "webrtc_stream \<Rightarrow> next_result list \<times> webrtc_stream" where
  "rtc_drain s =
     (case rtc_read_loop s of
        (NextOk m, s') \<Rightarrow>
          if length (rtc_in s') < length (rtc_in s)
          then (let (rs, s2) = rtc_drain s' in (NextOk m # rs, s2)) else ([], s')
      | (NextPending, s') \<Rightarrow> ([], s')
      | (r, s') \<Rightarrow> ([r], s'))"
  by pat_completeness auto
termination
  by (relation "measure (\<lambda>s. length (rtc_in s))") auto

declare rtc_drain.simps [simp del]

fun rtc_receive :: "dc_read list list \<Rightarrow> webrtc_stream \<Rightarrow> next_result list \<times> webrtc_stream" where
  "rtc_receive [] s = ([], s)"
| "rtc_receive (b # bs) s =
     (let (rs, s1) = rtc_drain (s\<lparr>rtc_in := rtc_in s @ b\<rparr>);
          (rs', s2) = rtc_receive bs s1
      in (rs @ rs', s2))"

text \<open>The writer: one message after the other.\<close>

fun rtc_send_all :: "send_env \<Rightarrow> bytes list \<Rightarrow> webrtc_stream \<Rightarrow> (string + unit) option list \<times> webrtc_stream" where
  "rtc_send_all env [] s = ([], s)"
| "rtc_send_all env (d # ds) s =
     (let (r, s1) = rtc_send_bytes env d s; (rs, s2) = rtc_send_all env ds s1 in (r # rs, s2))"

definition good_env :: "send_env \<Rightarrow> bool" where
  "good_env env = (\<not> se_connect_timeout env \<and> se_gate env = GateOk \<and> se_detach env = None)"

lemma rtc_send_ok:
  assumes "good_env env" "\<And>j. se_write env j = WriteOk" "rtc_states s = RtcOpen # l" "length d \<le> MAX_RECV_MESSAGE"
  shows "rtc_send_bytes env d s = (Some (Inr ()), s\<lparr>rtc_out := rtc_out s @ fragments d\<rparr>)"
  using assms write_fragments_ok [of "se_write env" 0 d 0]
  by (cases s) (simp add: rtc_send_bytes_def send_bytes_inner_def good_env_def)

lemma rtc_send_all_ok:
  assumes "good_env env" "\<And>j. se_write env j = WriteOk" "rtc_states s = RtcOpen # l"
    and "\<forall>d\<in>set ds. length d \<le> MAX_RECV_MESSAGE"
  shows "rtc_send_all env ds s =
    (replicate (length ds) (Some (Inr ())), s\<lparr>rtc_out := rtc_out s @ concat (map fragments ds)\<rparr>)"
  using assms
proof (induction ds arbitrary: s)
  case (Cons d ds)
  then have "rtc_send_bytes env d s = (Some (Inr ()), s\<lparr>rtc_out := rtc_out s @ fragments d\<rparr>)"
    by (intro rtc_send_ok) auto
  moreover have "rtc_send_all env ds (s\<lparr>rtc_out := rtc_out s @ fragments d\<rparr>) =
      (replicate (length ds) (Some (Inr ())), s\<lparr>rtc_out := (rtc_out s @ fragments d) @ concat (map fragments ds)\<rparr>)"
    using Cons(1) [of "s\<lparr>rtc_out := rtc_out s @ fragments d\<rparr>"] Cons.prems by simp
  ultimately show ?case by simp
qed simp

lemma rtc_drain_messages:
  assumes "rtc_in s = map DcRead (concat (map fragments ds))" "rtc_acc s = []"
    and "\<forall>d\<in>set ds. length d \<le> rtc_max s"
  shows "\<exists>p. rtc_drain s = (map NextOk ds, s\<lparr>rtc_in := [], rtc_probe := p\<rparr>)"
  using assms
proof (induction ds arbitrary: s)
  case Nil
  then show ?case
    by (intro exI [of _ "rtc_probe s"]) (subst rtc_drain.simps, subst rtc_read_loop.simps, simp)
next
  case (Cons d ds)
  define rest where "rest = map DcRead (concat (map fragments ds))"
  obtain p where p: "rtc_read_loop s = (NextOk (rtc_acc s @ d), s\<lparr>rtc_in := rest, rtc_probe := p, rtc_acc := []\<rparr>)"
    using rtc_loop_message [of s d rest] Cons.prems by (auto simp: rest_def)
  obtain q where q: "rtc_drain (s\<lparr>rtc_in := rest, rtc_probe := p, rtc_acc := []\<rparr>) =
      (map NextOk ds, s\<lparr>rtc_acc := [], rtc_in := [], rtc_probe := q\<rparr>)"
    using Cons(1) [of "s\<lparr>rtc_in := rest, rtc_probe := p, rtc_acc := []\<rparr>"] Cons.prems by (auto simp: rest_def)
  have "length rest < length (rtc_in s)" using Cons.prems(1) by (simp add: rest_def)
  with p q Cons.prems(2) show ?case
    by (intro exI [of _ q], cases s, subst rtc_drain.simps) simp
qed

lemma rtc_drain_eq: "length (rtc_acc s) \<le> rtc_max s \<Longrightarrow>
  rtc_drain s =
    (case rtc_read_loop s of
       (NextOk m, s') \<Rightarrow> (let (rs, s2) = rtc_drain s' in (NextOk m # rs, s2))
     | (NextPending, s') \<Rightarrow> ([], s')
     | (r, s') \<Rightarrow> ([r], s'))"
  using rtc_loop_bounds [of s]
  by (subst rtc_drain.simps) (auto simp: rtc_read_ok_def split: prod.splits next_result.splits)

lemma rtc_drain_prefix:
  assumes "rtc_drain (s\<lparr>rtc_in := rtc_in s @ m\<rparr>) = (map NextOk ds, s')" "rtc_in s' = []" "length (rtc_acc s) \<le> rtc_max s"
  shows "\<exists>ds1 ds2 s1. rtc_drain s = (map NextOk ds1, s1) \<and> rtc_in s1 = [] \<and> length (rtc_acc s1) \<le> rtc_max s1 \<and>
    rtc_drain (s1\<lparr>rtc_in := m\<rparr>) = (map NextOk ds2, s') \<and> ds = ds1 @ ds2"
  using assms
proof (induction s arbitrary: ds rule: rtc_drain.induct)
  case (1 s)
  obtain r t where rt: "rtc_read_loop s = (r, t)" by (metis surj_pair)
  note b = rtc_loop_bounds [OF 1(4)] and pre = rtc_loop_prefix [OF rt]
  show ?case
  proof (cases r)
    case NextPending
    have "rtc_drain s = ([], t)" using rt NextPending by (subst rtc_drain.simps) simp
    moreover have "rtc_read_loop (s\<lparr>rtc_in := rtc_in s @ m\<rparr>) = rtc_read_loop (t\<lparr>rtc_in := m\<rparr>)"
      using pre NextPending by simp
    moreover have "length (rtc_acc t) \<le> rtc_max t" using b rt by (simp add: rtc_read_ok_def)
    ultimately have "rtc_drain (t\<lparr>rtc_in := m\<rparr>) = (map NextOk ds, s')"
      using 1(2,4) by (simp add: rtc_drain_eq)
    moreover note \<open>rtc_drain s = ([], t)\<close>
    ultimately show ?thesis using b rt NextPending
      by (intro exI [of _ "[]"] exI [of _ ds] exI [of _ t]) (simp add: rtc_read_ok_def)
  next
    case (NextOk d)
    have le: "length (rtc_in t) < length (rtc_in s)" "rtc_acc t = []" "rtc_max t = rtc_max s"
      using b rt NextOk by (auto simp: rtc_read_ok_def)
    have l2: "rtc_read_loop (s\<lparr>rtc_in := rtc_in s @ m\<rparr>) = (NextOk d, t\<lparr>rtc_in := rtc_in t @ m\<rparr>)"
      using pre NextOk by simp
    obtain rs u where u: "rtc_drain (t\<lparr>rtc_in := rtc_in t @ m\<rparr>) = (rs, u)" by (metis surj_pair)
    have "rtc_drain (s\<lparr>rtc_in := rtc_in s @ m\<rparr>) = (NextOk d # rs, u)"
      using l2 le(1) u by (subst rtc_drain.simps) simp
    with 1(2) obtain ds' where ds: "ds = d # ds'" "rs = map NextOk ds'" "u = s'" by (cases ds) auto
    from 1(1) [OF rt [symmetric] NextOk le(1), of ds'] u ds le 1(3)
    obtain ds1 ds2 s1 where "rtc_drain t = (map NextOk ds1, s1)" "rtc_in s1 = []" "length (rtc_acc s1) \<le> rtc_max s1"
      "rtc_drain (s1\<lparr>rtc_in := m\<rparr>) = (map NextOk ds2, s')" "ds' = ds1 @ ds2" by auto
    moreover from this rt NextOk le(1) have "rtc_drain s = (map NextOk (d # ds1), s1)"
      by (subst rtc_drain.simps) simp
    ultimately show ?thesis using ds(1) by (intro exI [of _ "d # ds1"] exI [of _ ds2] exI [of _ s1]) simp
  next
    case NextEnd
    then have "rtc_drain (s\<lparr>rtc_in := rtc_in s @ m\<rparr>) = ([NextEnd], t\<lparr>rtc_in := rtc_in t @ m\<rparr>)"
      using pre by (subst rtc_drain.simps) simp
    with 1(2) show ?thesis by auto
  next
    case (NextErr e)
    then have "rtc_drain (s\<lparr>rtc_in := rtc_in s @ m\<rparr>) = ([NextErr e], t\<lparr>rtc_in := rtc_in t @ m\<rparr>)"
      using pre by (subst rtc_drain.simps) simp
    with 1(2) show ?thesis by auto
  qed
qed

lemma rtc_receive_batches:
  assumes "rtc_drain (s\<lparr>rtc_in := rtc_in s @ concat bs\<rparr>) = (map NextOk ds, s')" "rtc_in s' = []"
    and "rtc_in s = []" "length (rtc_acc s) \<le> rtc_max s" "bs \<noteq> []"
  shows "rtc_receive bs s = (map NextOk ds, s')"
  using assms
proof (induction bs arbitrary: s ds)
  case (Cons b bs)
  obtain ds1 ds2 s1 where 1: "rtc_drain (s\<lparr>rtc_in := b\<rparr>) = (map NextOk ds1, s1)" "rtc_in s1 = []"
      "length (rtc_acc s1) \<le> rtc_max s1" "rtc_drain (s1\<lparr>rtc_in := concat bs\<rparr>) = (map NextOk ds2, s')" "ds = ds1 @ ds2"
    using rtc_drain_prefix [of "s\<lparr>rtc_in := b\<rparr>" "concat bs" ds s'] Cons.prems by auto
  show ?case
  proof (cases "bs = []")
    case True
    have "rtc_drain (s1\<lparr>rtc_in := []\<rparr>) = ([], s1\<lparr>rtc_in := []\<rparr>)"
      by (subst rtc_drain.simps, subst rtc_read_loop.simps) simp
    moreover have "s1\<lparr>rtc_in := []\<rparr> = s1" using 1(2) by (cases s1) simp
    ultimately have "rtc_drain (s1\<lparr>rtc_in := []\<rparr>) = ([], s1)" by simp
    with 1 True Cons.prems(3) show ?thesis by auto
  next
    case False
    then have "rtc_receive bs s1 = (map NextOk ds2, s')" using Cons.IH [of s1 ds2] 1 Cons.prems(2) by simp
    with 1 Cons.prems(3) show ?thesis by simp
  qed
qed simp

text \<open>C17. Messages over a data channel arrive whole and in order.  Whatever messages of at most the
  receiver's limit are sent one after the other, of any size up to the largest frame, with or without a
  send timeout, every send succeeds, and however the fragments on the channel come in, in one batch or in
  many, with the reader giving up waiting between any two of them, the reader gets exactly these messages
  and holds no partial message at the end.\<close>

theorem webrtc_messages_roundtrip:
  assumes "good_env env" "\<And>j. se_write env j = WriteOk"
    and "rtc_states snd_s = RtcOpen # l" "rtc_out snd_s = []"
    and "\<forall>d\<in>set ds. length d \<le> MAX_RECV_MESSAGE \<and> length d \<le> rtc_max rcv_s"
    and "rtc_in rcv_s = []" "rtc_acc rcv_s = []"
    and "concat batches = map DcRead (rtc_out (snd (rtc_send_all env ds snd_s)))" "batches \<noteq> []"
  shows "fst (rtc_send_all env ds snd_s) = replicate (length ds) (Some (Inr ())) \<and>
    fst (rtc_receive batches rcv_s) = map NextOk ds \<and> rtc_acc (snd (rtc_receive batches rcv_s)) = []"
proof -
  have sent: "rtc_send_all env ds snd_s =
      (replicate (length ds) (Some (Inr ())), snd_s\<lparr>rtc_out := concat (map fragments ds)\<rparr>)"
    using rtc_send_all_ok [OF assms(1,2,3), of ds] assms(4,5) by simp
  then have "concat batches = map DcRead (concat (map fragments ds))" using assms(8) by simp
  moreover obtain p where "rtc_drain (rcv_s\<lparr>rtc_in := map DcRead (concat (map fragments ds))\<rparr>) =
      (map NextOk ds, rcv_s\<lparr>rtc_in := [], rtc_probe := p\<rparr>)"
    using rtc_drain_messages [of "rcv_s\<lparr>rtc_in := map DcRead (concat (map fragments ds))\<rparr>" ds] assms(5,7) by auto
  ultimately have "rtc_receive batches rcv_s = (map NextOk ds, rcv_s\<lparr>rtc_in := [], rtc_probe := p\<rparr>)"
    using assms(6,7,9) by (intro rtc_receive_batches) auto
  with sent assms(7) show ?thesis by simp
qed

text \<open>C18. What a peer can make the receiver of a data channel hold is bounded.  Whatever the channel
  delivers, a call of \<open>next\<close> that starts with a partial message within the limit leaves one within the
  limit, returns only messages within it, takes at most one fragment more than the limit has bytes left,
  so a peer cannot keep it busy without being counted, and a malformed, oversized or ended stream leaves
  nothing behind and the connection closed.\<close>

theorem webrtc_receive_bounded:
  assumes "length (rtc_acc s) \<le> rtc_max s" "rtc_next detach s = (r, s')"
  shows "length (rtc_acc s') \<le> rtc_max s' \<and> rtc_max s' = rtc_max s \<and>
    (\<forall>m. r = NextOk m \<longrightarrow> length m \<le> rtc_max s \<and> rtc_acc s' = []) \<and>
    length (rtc_in s) \<le> length (rtc_in s') + Suc (rtc_max s - length (rtc_acc s)) \<and>
    (r = NextEnd \<or> (\<exists>e. r = NextErr e) \<longrightarrow> rtc_closing s' \<and> (rtc_in s' \<noteq> rtc_in s \<longrightarrow> rtc_acc s' = []))"
proof -
  obtain c sts where w: "wait_for_connect_result (rtc_states s) = (c, sts)" by (metis surj_pair)
  show ?thesis
  proof (cases "c = Inr () \<and> detach = None")
    case True
    with assms(2) w have "rtc_read_loop (s\<lparr>rtc_states := sts\<rparr>) = (r, s')" by (simp add: rtc_next_def)
    moreover have "rtc_read_ok (s\<lparr>rtc_states := sts\<rparr>) (rtc_read_loop (s\<lparr>rtc_states := sts\<rparr>))"
      using assms(1) by (intro rtc_loop_bounds) simp
    ultimately show ?thesis by (auto simp: rtc_read_ok_def)
  next
    case False
    with assms w show ?thesis
      by (auto simp: rtc_next_def Let_def close_detached_def split: sum.splits option.splits)
  qed
qed

text \<open>A message on a data channel is sent whole or the connection is closed.  Whatever the library
  and the clock answer, a send that returns success has put all fragments of the message on the channel,
  and one that returns an error has put nothing there, or a beginning of them and then closed the
  connection, so that the next message is never appended to the torso of this one.\<close>

theorem webrtc_send_whole_or_closed:
  assumes "rtc_send_bytes env d s = (Some r, s')"
  shows "(r = Inr () \<longrightarrow> rtc_out s' = rtc_out s @ fragments d) \<and>
    (\<forall>e. r = Inl e \<longrightarrow> rtc_out s' = rtc_out s \<or>
       (rtc_closing s' \<and> (\<exists>pre rest. rtc_out s' = rtc_out s @ pre \<and> fragments d = pre @ rest)))"
proof -
  obtain out r' where w: "write_fragments (se_write env) d 0 0 = (out, r')" by (metis surj_pair)
  have ok: "written_ok d 0 0 (out, r')" using write_fragments_outcome [of 0 d 0 "se_write env"] w by simp
  have inner: "\<exists>q t. send_bytes_inner env d s1 = (q, t) \<and>
      (q = WrittenAll \<longrightarrow> rtc_out t = rtc_out s1 @ fragments d) \<and>
      (\<forall>e. q = WriteFailed e False \<longrightarrow> rtc_out t = rtc_out s1) \<and>
      (\<exists>pre rest. rtc_out t = rtc_out s1 @ pre \<and> fragments d = pre @ rest)" for s1
    using ok w
    by (cases "wait_for_connect_result (rtc_states s1)")
      (auto simp: send_bytes_inner_def written_ok_def Let_def split: sum.splits option.splits)
  show ?thesis
  proof (cases "rtc_send_timeout s > 0")
    case True
    obtain c sts where c: "wait_for_connect_result (rtc_states s) = (c, sts)" by (metis surj_pair)
    show ?thesis
      using assms True c inner [of "s\<lparr>rtc_states := sts\<rparr>"]
      by (auto simp: rtc_send_bytes_def Let_def close_detached_def
          split: if_splits sum.splits gate_answer.splits write_end.splits)
  next
    case False
    then show ?thesis
      using assms inner [of s]
      by (auto simp: rtc_send_bytes_def close_detached_def split: if_splits gate_answer.splits write_end.splits)
  qed
qed

text \<open>Two streams and a message of three fragments.\<close>

definition sample_rtc :: webrtc_stream where
  "sample_rtc = \<lparr>rtc_states = [RtcOpen], rtc_send_timeout = 30000, rtc_acc = [], rtc_verified = False,
     rtc_max = MAX_RECV_MESSAGE, rtc_probe = 0, rtc_closing = False, rtc_out = [], rtc_in = []\<rparr>"

definition sample_send_env :: send_env where
  "sample_send_env = \<lparr>se_connect_timeout = False, se_gate = GateOk, se_detach = None, se_write = (\<lambda>_. WriteOk)\<rparr>"

lemmas sample_rtc_simps = sample_rtc_def sample_send_env_def good_env_def MAX_RECV_MESSAGE_def MAX_FRAME_LENGTH_def

theorem webrtc_messages_roundtrip_witness:
  "\<exists>f1 rest. map DcRead (rtc_out (snd (rtc_send_all sample_send_env [replicate 130000 7, [], [1, 2]] sample_rtc))) = f1 # rest \<and>
     fst (rtc_receive [[f1], rest] sample_rtc) = map NextOk [replicate 130000 7, [], [1, 2]]"
proof -
  let ?ds = "[replicate 130000 7, [], [1, 2]] :: bytes list"
  have "rtc_send_all sample_send_env ?ds sample_rtc =
      (replicate (length ?ds) (Some (Inr ())), sample_rtc\<lparr>rtc_out := rtc_out sample_rtc @ concat (map fragments ?ds)\<rparr>)"
    by (rule rtc_send_all_ok [of _ _ "[]"]) (simp_all add: sample_rtc_simps)
  then have "rtc_out (snd (rtc_send_all sample_send_env ?ds sample_rtc)) \<noteq> []" by (simp add: sample_rtc_simps)
  then obtain f1 rest where f: "map DcRead (rtc_out (snd (rtc_send_all sample_send_env ?ds sample_rtc))) = f1 # rest"
    by (cases "rtc_out (snd (rtc_send_all sample_send_env ?ds sample_rtc))") auto
  have "fst (rtc_send_all sample_send_env ?ds sample_rtc) = replicate (length ?ds) (Some (Inr ())) \<and>
      fst (rtc_receive [[f1], rest] sample_rtc) = map NextOk ?ds \<and> rtc_acc (snd (rtc_receive [[f1], rest] sample_rtc)) = []"
    by (rule webrtc_messages_roundtrip [where l = "[]"]) (use f in \<open>simp_all add: sample_rtc_simps\<close>)
  with f show ?thesis by (intro exI [of _ f1] exI [of _ rest]) simp
qed

theorem webrtc_receive_bounded_witness:
  "rtc_next None (sample_rtc\<lparr>rtc_max := 3, rtc_in := [DcRead [1, 8, 9], DcRead [1, 7, 7]]\<rparr>) =
     (NextErr ''WebRTC reassembled message exceeded maximum frame size'',
      sample_rtc\<lparr>rtc_max := 3, rtc_probe := 6, rtc_closing := True\<rparr>) \<and>
   length (rtc_acc (sample_rtc\<lparr>rtc_max := 3, rtc_probe := 6, rtc_closing := True\<rparr>)) \<le> 3"
proof -
  let ?s = "sample_rtc\<lparr>rtc_max := 3, rtc_in := [DcRead [1, 8, 9], DcRead [1, 7, 7]]\<rparr>"
  have e: "rtc_next None ?s = (NextErr ''WebRTC reassembled message exceeded maximum frame size'',
      sample_rtc\<lparr>rtc_max := 3, rtc_probe := 6, rtc_closing := True\<rparr>)"
    by (simp add: rtc_next_def rtc_read_loop.simps sample_rtc_def frag_bad_def FRAG_END_def FRAG_MORE_def
        rtc_abort_def close_detached_def)
  have "length (rtc_acc ?s) \<le> rtc_max ?s" by (simp add: sample_rtc_def)
  from webrtc_receive_bounded [OF this e] e show ?thesis by simp
qed

theorem webrtc_send_whole_or_closed_witness:
  "\<exists>s'. rtc_send_bytes (sample_send_env\<lparr>se_write := (\<lambda>i. if i = 0 then WriteOk else WriteErr ''reset'')\<rparr>)
       (replicate 60001 7) sample_rtc = (Some (Inl ''reset''), s') \<and> rtc_closing s'"
proof -
  let ?env = "sample_send_env\<lparr>se_write := (\<lambda>i. if i = 0 then WriteOk else WriteErr ''reset'')\<rparr>"
  let ?d = "replicate 60001 7 :: bytes"
  have "write_fragments (se_write ?env) ?d 0 0 =
      ([FRAG_MORE # take MAX_FRAGMENT_PAYLOAD ?d], WriteFailed ''reset'' True)"
    by (subst write_fragments_more, simp add: MAX_FRAGMENT_PAYLOAD_def,
        subst write_fragments_last) (simp_all add: MAX_FRAGMENT_PAYLOAD_def)
  then have e: "rtc_send_bytes ?env ?d sample_rtc = (Some (Inl ''reset''),
      sample_rtc\<lparr>rtc_out := [FRAG_MORE # take MAX_FRAGMENT_PAYLOAD ?d], rtc_closing := True\<rparr>)"
    by (simp add: rtc_send_bytes_def send_bytes_inner_def sample_rtc_simps close_detached_def)
  from webrtc_send_whole_or_closed [OF e] e show ?thesis by (simp add: sample_rtc_def)
qed

end
