(* ===== verification/Secure_Channel.thy ===== *)
theory Secure_Channel
  imports Prelude Webrtc_Frame "HOL-Library.Sublist"
begin

text \<open>
  The encrypted stream of a connection: the cipher state \<open>Encrypt\<close> and the framed TCP stream of
  \<open>libs/hbb_common/src/tcp.rs\<close>, the WebSocket stream of \<open>websocket.rs\<close>, the WebRTC stream, and the
  enumeration \<open>Stream\<close> of \<open>stream.rs\<close> over the three.

  The primitives of libsodium are a record of functions and an argument of every operation that uses
  them; what is relied on is stated by the predicates \<open>secretbox_ok\<close> (a sealed text opens, and is
  sixteen bytes longer or more), \<open>secretbox_binds\<close> (it opens under no other nonce or key) and
  \<open>hash_ok\<close> (a keyed hash of 32 bytes).  A counter is a machine word and wraps.

  The interface of the cipher is the locale \<open>ordered_channel\<close>: what is sealed is opened in order, and
  a frame out of its turn is refused; the theorems about whole conversations are proved there and
  interpreted on \<open>enc\<close> and \<open>dec\<close>.
\<close>

record channel_crypto =
  cc_seal :: "bytes \<Rightarrow> bytes \<Rightarrow> bytes \<Rightarrow> bytes"
  cc_open :: "bytes \<Rightarrow> bytes \<Rightarrow> bytes \<Rightarrow> bytes option"
  cc_box_seal :: "bytes \<Rightarrow> bytes \<Rightarrow> bytes \<Rightarrow> bytes \<Rightarrow> bytes"
  cc_box_open :: "bytes \<Rightarrow> bytes \<Rightarrow> bytes \<Rightarrow> bytes \<Rightarrow> bytes option"
  cc_box_pk :: "bytes \<Rightarrow> bytes"
  cc_hash :: "bytes \<Rightarrow> bytes \<Rightarrow> bytes option"
  cc_sign :: "bytes \<Rightarrow> bytes \<Rightarrow> bytes"
  cc_verify :: "bytes \<Rightarrow> bytes \<Rightarrow> bytes option"
  cc_sign_pk :: "bytes \<Rightarrow> bytes"

definition SECRETBOX_KEYBYTES :: nat where "SECRETBOX_KEYBYTES = 32"
definition SECRETBOX_NONCEBYTES :: nat where "SECRETBOX_NONCEBYTES = 24"
definition BOX_PUBLICKEYBYTES :: nat where "BOX_PUBLICKEYBYTES = 32"

definition secretbox_ok :: "channel_crypto \<Rightarrow> bool" where
  "secretbox_ok cr =
     (\<forall>d n k. length n = SECRETBOX_NONCEBYTES \<longrightarrow> length k = SECRETBOX_KEYBYTES \<longrightarrow>
        cc_open cr (cc_seal cr d n k) n k = Some d \<and> length d + 16 \<le> length (cc_seal cr d n k))"

definition secretbox_binds :: "channel_crypto \<Rightarrow> bool" where
  "secretbox_binds cr =
     (\<forall>d n k n' k'. length n = SECRETBOX_NONCEBYTES \<longrightarrow> length n' = SECRETBOX_NONCEBYTES \<longrightarrow>
        length k = SECRETBOX_KEYBYTES \<longrightarrow> length k' = SECRETBOX_KEYBYTES \<longrightarrow>
        (n, k) \<noteq> (n', k') \<longrightarrow> cc_open cr (cc_seal cr d n k) n' k' = None)"

definition hash_ok :: "channel_crypto \<Rightarrow> bool" where
  "hash_ok cr = (\<forall>k m. \<exists>h. cc_hash cr k m = Some h \<and> length h = SECRETBOX_KEYBYTES)"

section \<open>The cipher state\<close>

definition KX_VERSION_LATEST :: u32 where "KX_VERSION_LATEST = 1"
definition KX_SPLIT_CONTEXT :: bytes where
  "KX_SPLIT_CONTEXT = [0x72, 0x64, 0x6B, 0x78, 0x2D, 0x73, 0x70, 0x6C]"
definition KX_SPLIT_INITIATOR :: u8 where "KX_SPLIT_INITIATOR = 1"
definition KX_SPLIT_RESPONDER :: u8 where "KX_SPLIT_RESPONDER = 2"

definition kx_version_for :: "u32 \<Rightarrow> u32" where
  "kx_version_for advertised = min advertised KX_VERSION_LATEST"

record kx_transcript =
  kt_initiator_pk :: bytes
  kt_responder_pk :: bytes
  kt_advertised :: u32
  kt_picked :: u32

record encrypt =
  en_key :: bytes
  en_send :: u64
  en_recv :: u64
  en_recv_key :: "bytes option"

text \<open>\<open>u64::to_le_bytes\<close>, and the nonce of a sequence number.\<close>

definition le64 :: "u64 \<Rightarrow> bytes" where
  "le64 w = map (\<lambda>i. ucast (drop_bit (8 * i) w)) [0..<8]"

definition get_nonce :: "u64 \<Rightarrow> bytes" where
  "get_nonce seqnum = le64 seqnum @ replicate (SECRETBOX_NONCEBYTES - 8) 0"

definition encrypt_new :: "bytes \<Rightarrow> encrypt" where
  "encrypt_new key = \<lparr>en_key = key, en_send = 0, en_recv = 0, en_recv_key = None\<rparr>"

definition derive_subkey :: "channel_crypto \<Rightarrow> bytes \<Rightarrow> u8 \<Rightarrow> kx_transcript \<Rightarrow> string + bytes" where
  "derive_subkey cr key direction t =
     (if length (kt_initiator_pk t) \<noteq> BOX_PUBLICKEYBYTES \<or> length (kt_responder_pk t) \<noteq> BOX_PUBLICKEYBYTES
      then Inl ''key exchange transcript has a public key of the wrong length''
      else case cc_hash cr key
             (KX_SPLIT_CONTEXT @ [direction] @ le32 (kt_advertised t) @ le32 (kt_picked t) @
              kt_initiator_pk t @ kt_responder_pk t) of
             None \<Rightarrow> Inl ''key derivation failed''
           | Some h \<Rightarrow> Inr h)"

definition new_split :: "channel_crypto \<Rightarrow> bytes \<Rightarrow> bool \<Rightarrow> kx_transcript \<Rightarrow> string + encrypt" where
  "new_split cr key is_initiator t =
     (case derive_subkey cr key KX_SPLIT_INITIATOR t of
        Inl e \<Rightarrow> Inl e
      | Inr initiator \<Rightarrow>
          (case derive_subkey cr key KX_SPLIT_RESPONDER t of
             Inl e \<Rightarrow> Inl e
           | Inr responder \<Rightarrow>
               Inr (if is_initiator
                    then \<lparr>en_key = initiator, en_send = 0, en_recv = 0, en_recv_key = Some responder\<rparr>
                    else \<lparr>en_key = responder, en_send = 0, en_recv = 0, en_recv_key = Some initiator\<rparr>)))"

definition recv_key :: "encrypt \<Rightarrow> bytes" where
  "recv_key e = (case en_recv_key e of Some k \<Rightarrow> k | None \<Rightarrow> en_key e)"

definition dec :: "channel_crypto \<Rightarrow> encrypt \<Rightarrow> bytes \<Rightarrow> (string + bytes) \<times> encrypt" where
  "dec cr e bs =
     (if length bs \<le> 1 then (Inr bs, e)
      else (let e1 = e\<lparr>en_recv := en_recv e + 1\<rparr>
            in case cc_open cr bs (get_nonce (en_recv e1)) (recv_key e1) of
                 Some res \<Rightarrow> (Inr res, e1)
               | None \<Rightarrow> (Inl ''decryption error'', e1)))"

definition enc :: "channel_crypto \<Rightarrow> encrypt \<Rightarrow> bytes \<Rightarrow> bytes \<times> encrypt" where
  "enc cr e d =
     (let e1 = e\<lparr>en_send := en_send e + 1\<rparr>
      in (cc_seal cr d (get_nonce (en_send e1)) (en_key e1), e1))"

text \<open>\<open>Encrypt::decode\<close>: the key the initiator sealed to our ephemeral key.\<close>

definition zero_nonce :: bytes where
  "zero_nonce = replicate 24 0"

definition decode_key :: "channel_crypto \<Rightarrow> bytes \<Rightarrow> bytes \<Rightarrow> bytes \<Rightarrow> string + bytes" where
  "decode_key cr symmetric_data their_pk_b our_sk_b =
     (if length their_pk_b \<noteq> BOX_PUBLICKEYBYTES
      then Inl (''Handshake failed: pk length '' @ show_nat (length their_pk_b))
      else case cc_box_open cr symmetric_data zero_nonce their_pk_b our_sk_b of
             None \<Rightarrow> Inl ''Handshake failed: box decryption failure''
           | Some symmetric_key \<Rightarrow>
               if length symmetric_key \<noteq> SECRETBOX_KEYBYTES
               then Inl ''Handshake failed: invalid secret key length from peer''
               else Inr symmetric_key)"

section \<open>Streams\<close>

datatype tcp_item = TcpFrame bytes | TcpErr string | TcpEnd

record framed_stream =
  tc_codec :: bytes_codec
  tc_encrypt :: "encrypt option"
  tc_out :: "bytes list"
  tc_in :: "tcp_item list"

datatype ws_item = WsBinary bytes | WsText bytes | WsClose | WsControl | WsErr string | WsEnd

record ws_stream =
  ws_encrypt :: "encrypt option"
  ws_max_message :: nat
  ws_max_frame :: nat
  ws_out :: "bytes list"
  ws_in :: "ws_item list"

datatype conn_stream = WebRTC webrtc_stream | WebSocket ws_stream | Tcp framed_stream

text \<open>What the transport answers to a send: the error of the socket, or the answers of the data channel;
  and what fetching the data channel answers.\<close>

record stream_io =
  io_send_err :: "string option"
  io_rtc :: send_env
  io_detach :: "string option"
  io_local_fp :: "string option"
  io_remote_fp :: "string option"

text \<open>\<open>FramedStream\<close>: the frames handed to the codec, which \<open>Bytes_Codec\<close> models, and the frames it
  decodes.\<close>

definition tcp_set_raw :: "framed_stream \<Rightarrow> framed_stream" where
  "tcp_set_raw s = s\<lparr>tc_codec := set_raw (tc_codec s), tc_encrypt := None\<rparr>"

definition tcp_is_secured :: "framed_stream \<Rightarrow> bool" where
  "tcp_is_secured s = (tc_encrypt s \<noteq> None)"

definition tcp_send_bytes :: "string option \<Rightarrow> bytes \<Rightarrow> framed_stream \<Rightarrow> (string + unit) \<times> framed_stream" where
  "tcp_send_bytes err d s =
     (case encode (tc_codec s) d [] of
        Inl _ \<Rightarrow> (Inl ''Overflow'', s)
      | Inr _ \<Rightarrow> (case err of Some e \<Rightarrow> (Inl e, s) | None \<Rightarrow> (Inr (), s\<lparr>tc_out := tc_out s @ [d]\<rparr>)))"

definition tcp_send_raw ::
  "channel_crypto \<Rightarrow> string option \<Rightarrow> bytes \<Rightarrow> framed_stream \<Rightarrow> (string + unit) \<times> framed_stream" where
  "tcp_send_raw cr err msg s =
     (case tc_encrypt s of
        Some key \<Rightarrow> (let (msg', key') = enc cr key msg in tcp_send_bytes err msg' (s\<lparr>tc_encrypt := Some key'\<rparr>))
      | None \<Rightarrow> tcp_send_bytes err msg s)"

definition tcp_next :: "channel_crypto \<Rightarrow> framed_stream \<Rightarrow> next_result \<times> framed_stream" where
  "tcp_next cr s =
     (case tc_in s of
        [] \<Rightarrow> (NextPending, s)
      | TcpEnd # _ \<Rightarrow> (NextEnd, s)
      | TcpErr e # rest \<Rightarrow> (NextErr e, s\<lparr>tc_in := rest\<rparr>)
      | TcpFrame bs # rest \<Rightarrow>
          (let s1 = s\<lparr>tc_in := rest\<rparr>
           in case tc_encrypt s of
                None \<Rightarrow> (NextOk bs, s1)
              | Some key \<Rightarrow>
                  (case dec cr key bs of
                     (Inl err, key') \<Rightarrow> (NextErr err, s1\<lparr>tc_encrypt := Some key'\<rparr>)
                   | (Inr res, key') \<Rightarrow> (NextOk res, s1\<lparr>tc_encrypt := Some key'\<rparr>))))"

definition tcp_set_key :: "bytes \<Rightarrow> framed_stream \<Rightarrow> framed_stream" where
  "tcp_set_key key s = s\<lparr>tc_encrypt := Some (encrypt_new key)\<rparr>"

definition tcp_set_key_split ::
  "channel_crypto \<Rightarrow> bytes \<Rightarrow> bool \<Rightarrow> kx_transcript \<Rightarrow> framed_stream \<Rightarrow> string + framed_stream" where
  "tcp_set_key_split cr key is_initiator t s =
     (case new_split cr key is_initiator t of
        Inl e \<Rightarrow> Inl e
      | Inr e \<Rightarrow> Inr (s\<lparr>tc_encrypt := Some e\<rparr>))"

text \<open>\<open>WsFramedStream\<close>.\<close>

definition ws_set_raw :: "ws_stream \<Rightarrow> ws_stream" where
  "ws_set_raw s = s\<lparr>ws_encrypt := None\<rparr>"

definition ws_is_secured :: "ws_stream \<Rightarrow> bool" where
  "ws_is_secured s = (ws_encrypt s \<noteq> None)"

definition ws_send_bytes :: "string option \<Rightarrow> bytes \<Rightarrow> ws_stream \<Rightarrow> (string + unit) \<times> ws_stream" where
  "ws_send_bytes err d s =
     (case err of Some e \<Rightarrow> (Inl e, s) | None \<Rightarrow> (Inr (), s\<lparr>ws_out := ws_out s @ [d]\<rparr>))"

definition ws_send_raw ::
  "channel_crypto \<Rightarrow> string option \<Rightarrow> bytes \<Rightarrow> ws_stream \<Rightarrow> (string + unit) \<times> ws_stream" where
  "ws_send_raw cr err msg s =
     (case ws_encrypt s of
        Some key \<Rightarrow> (let (msg', key') = enc cr key msg in ws_send_bytes err msg' (s\<lparr>ws_encrypt := Some key'\<rparr>))
      | None \<Rightarrow> ws_send_bytes err msg s)"

fun ws_read :: "channel_crypto \<Rightarrow> encrypt option \<Rightarrow> ws_item list \<Rightarrow> next_result \<times> encrypt option \<times> ws_item list" where
  "ws_read cr k [] = (NextPending, k, [])"
| "ws_read cr k (WsEnd # rest) = (NextEnd, k, WsEnd # rest)"
| "ws_read cr k (WsErr e # rest) = (NextErr (''WebSocket protocol error: '' @ e), k, rest)"
| "ws_read cr k (WsBinary bs # rest) =
     (case k of
        None \<Rightarrow> (NextOk bs, k, rest)
      | Some key \<Rightarrow>
          (case dec cr key bs of
             (Inl err, key') \<Rightarrow> (NextErr err, Some key', rest)
           | (Inr res, key') \<Rightarrow> (NextOk res, Some key', rest)))"
| "ws_read cr k (WsText bs # rest) =
     (if k \<noteq> None then (NextErr ''WebSocket text frame received after encryption was enabled'', k, rest)
      else (NextOk bs, k, rest))"
| "ws_read cr k (WsClose # rest) = (NextEnd, k, rest)"
| "ws_read cr k (WsControl # rest) = ws_read cr k rest"

definition ws_next :: "channel_crypto \<Rightarrow> ws_stream \<Rightarrow> next_result \<times> ws_stream" where
  "ws_next cr s =
     (let (r, k, rest) = ws_read cr (ws_encrypt s) (ws_in s) in (r, s\<lparr>ws_encrypt := k, ws_in := rest\<rparr>))"

definition ws_set_key :: "bytes \<Rightarrow> ws_stream \<Rightarrow> ws_stream" where
  "ws_set_key key s = s\<lparr>ws_encrypt := Some (encrypt_new key)\<rparr>"

definition ws_set_key_split ::
  "channel_crypto \<Rightarrow> bytes \<Rightarrow> bool \<Rightarrow> kx_transcript \<Rightarrow> ws_stream \<Rightarrow> string + ws_stream" where
  "ws_set_key_split cr key is_initiator t s =
     (case new_split cr key is_initiator t of
        Inl e \<Rightarrow> Inl e
      | Inr e \<Rightarrow> Inr (s\<lparr>ws_encrypt := Some e\<rparr>))"

definition DEFAULT_MAX_MESSAGE_SIZE :: nat where "DEFAULT_MAX_MESSAGE_SIZE = 67108864"
definition DEFAULT_MAX_FRAME_SIZE :: nat where "DEFAULT_MAX_FRAME_SIZE = 16777216"

definition ws_set_max_packet_length :: "nat \<Rightarrow> ws_stream \<Rightarrow> ws_stream" where
  "ws_set_max_packet_length n s =
     s\<lparr>ws_max_message := min n DEFAULT_MAX_MESSAGE_SIZE, ws_max_frame := min n DEFAULT_MAX_FRAME_SIZE\<rparr>"

text \<open>\<open>Stream\<close>: every operation goes to the transport at hand.  A send that has not returned is \<open>None\<close>.\<close>

definition stream_set_raw :: "conn_stream \<Rightarrow> conn_stream" where
  "stream_set_raw st =
     (case st of WebRTC s \<Rightarrow> WebRTC s | WebSocket s \<Rightarrow> WebSocket (ws_set_raw s) | Tcp s \<Rightarrow> Tcp (tcp_set_raw s))"

definition stream_set_max_packet_length :: "nat \<Rightarrow> conn_stream \<Rightarrow> conn_stream" where
  "stream_set_max_packet_length n st =
     (case st of
        WebRTC s \<Rightarrow> WebRTC (rtc_set_max_packet_length n s)
      | WebSocket s \<Rightarrow> WebSocket (ws_set_max_packet_length n s)
      | Tcp s \<Rightarrow> Tcp (s\<lparr>tc_codec := set_max_packet_length n (tc_codec s)\<rparr>))"

definition stream_send_raw ::
  "channel_crypto \<Rightarrow> stream_io \<Rightarrow> bytes \<Rightarrow> conn_stream \<Rightarrow> (string + unit) option \<times> conn_stream" where
  "stream_send_raw cr io d st =
     (case st of
        WebRTC s \<Rightarrow> apsnd WebRTC (rtc_send_bytes (io_rtc io) d s)
      | WebSocket s \<Rightarrow> (let (r, s') = ws_send_raw cr (io_send_err io) d s in (Some r, WebSocket s'))
      | Tcp s \<Rightarrow> (let (r, s') = tcp_send_raw cr (io_send_err io) d s in (Some r, Tcp s')))"

definition stream_next :: "channel_crypto \<Rightarrow> stream_io \<Rightarrow> conn_stream \<Rightarrow> next_result \<times> conn_stream" where
  "stream_next cr io st =
     (case st of
        WebRTC s \<Rightarrow> apsnd WebRTC (rtc_next (io_detach io) s)
      | WebSocket s \<Rightarrow> apsnd WebSocket (ws_next cr s)
      | Tcp s \<Rightarrow> apsnd Tcp (tcp_next cr s))"

definition stream_set_key :: "bytes \<Rightarrow> conn_stream \<Rightarrow> conn_stream" where
  "stream_set_key key st =
     (case st of
        WebRTC s \<Rightarrow> WebRTC (rtc_set_key key s)
      | WebSocket s \<Rightarrow> WebSocket (ws_set_key key s)
      | Tcp s \<Rightarrow> Tcp (tcp_set_key key s))"

definition set_negotiated_key ::
  "channel_crypto \<Rightarrow> bytes \<Rightarrow> bool \<Rightarrow> kx_transcript \<Rightarrow> conn_stream \<Rightarrow> string + conn_stream" where
  "set_negotiated_key cr key is_initiator t st =
     (if kt_picked t = 0 then Inr (stream_set_key key st)
      else if kt_picked t = 1 then
        (case st of
           WebRTC _ \<Rightarrow> Inl ''key exchange version 1 does not apply to WebRTC''
         | WebSocket s \<Rightarrow> map_sum id WebSocket (ws_set_key_split cr key is_initiator t s)
         | Tcp s \<Rightarrow> map_sum id Tcp (tcp_set_key_split cr key is_initiator t s))
      else Inl (''unsupported key exchange version '' @ show_nat (unat (kt_picked t))))"

definition is_secured :: "conn_stream \<Rightarrow> bool" where
  "is_secured st =
     (case st of WebRTC s \<Rightarrow> rtc_is_secured s | WebSocket s \<Rightarrow> ws_is_secured s | Tcp s \<Rightarrow> tcp_is_secured s)"

definition is_webrtc :: "conn_stream \<Rightarrow> bool" where
  "is_webrtc st = (case st of WebRTC _ \<Rightarrow> True | _ \<Rightarrow> False)"

definition dtls_fingerprint :: "stream_io \<Rightarrow> bool \<Rightarrow> conn_stream \<Rightarrow> string option" where
  "dtls_fingerprint io loc st =
     (case st of WebRTC _ \<Rightarrow> if loc then io_local_fp io else io_remote_fp io | _ \<Rightarrow> None)"

section \<open>Nonces\<close>

lemma length_le64 [simp]: "length (le64 w) = 8"
  by (simp add: le64_def)

lemma le64_bit: "n < 64 \<Longrightarrow> bit w n \<longleftrightarrow> bit (le64 w ! (n div 8)) (n mod 8)"
  by (simp add: le64_def bit_simps less_mult_imp_div_less)

lemma le64_inj: "le64 v = le64 w \<Longrightarrow> v = w"
  by (rule bit_word_eqI) (simp add: le64_bit)

lemma length_get_nonce [simp]: "length (get_nonce n) = SECRETBOX_NONCEBYTES"
  by (simp add: get_nonce_def SECRETBOX_NONCEBYTES_def)

lemma get_nonce_inj: "get_nonce v = get_nonce w \<Longrightarrow> v = w"
  using le64_inj by (simp add: get_nonce_def)

lemma get_nonce_eq_iff [simp]: "get_nonce v = get_nonce w \<longleftrightarrow> v = w"
  using get_nonce_inj by blast

section \<open>The interface of a cipher\<close>

fun seal_all :: "('s \<Rightarrow> 'm \<Rightarrow> 'c \<times> 's) \<Rightarrow> 's \<Rightarrow> 'm list \<Rightarrow> 'c list \<times> 's" where
  "seal_all seal s [] = ([], s)"
| "seal_all seal s (m # ms) =
     (let (c, s1) = seal s m; (cs, s2) = seal_all seal s1 ms in (c # cs, s2))"

text \<open>A reader takes frames until one is refused: each with what it was taken for.\<close>

fun accept_all :: "('r \<Rightarrow> 'c \<Rightarrow> ('e + 'm) \<times> 'r) \<Rightarrow> 'r \<Rightarrow> 'c list \<Rightarrow> ('c \<times> 'm) list" where
  "accept_all unseal r [] = []"
| "accept_all unseal r (f # fs) =
     (case unseal r f of (Inl _, _) \<Rightarrow> [] | (Inr m, r') \<Rightarrow> (f, m) # accept_all unseal r' fs)"

lemma length_seal_all [simp]: "length (fst (seal_all seal s ms)) = length ms"
  by (induction ms arbitrary: s) (simp_all add: case_prod_beta)

lemma seal_all_Cons: "seal_all seal s (m # ms) =
  (fst (seal s m) # fst (seal_all seal (snd (seal s m)) ms), snd (seal_all seal (snd (seal s m)) ms))"
  by (simp add: case_prod_beta)

lemma seal_all_append: "seal_all seal s (ms @ ms') =
  (fst (seal_all seal s ms) @ fst (seal_all seal (snd (seal_all seal s ms)) ms'),
   snd (seal_all seal (snd (seal_all seal s ms)) ms'))"
  by (induction ms arbitrary: s) (simp_all add: case_prod_beta)

lemma seal_all_nth: "i < length ms \<Longrightarrow>
  fst (seal_all seal s ms) ! i = fst (seal (snd (seal_all seal s (take i ms))) (ms ! i))"
proof (induction ms arbitrary: s i)
  case (Cons m ms)
  then show ?case by (cases i) (simp_all add: case_prod_beta)
qed simp

text \<open>\<open>linked n s r\<close>: the reader \<open>r\<close> expects what the sender \<open>s\<close> seals next, and \<open>n\<close> more messages may be
  sent.  \<open>chan\<close> names the conversation a sender belongs to and \<open>pos\<close> its place there; \<open>garbage\<close> are frames
  nobody sealed for it.\<close>

locale ordered_channel =
  fixes seal :: "'s \<Rightarrow> 'm \<Rightarrow> 'c \<times> 's"
    and unseal :: "'r \<Rightarrow> 'c \<Rightarrow> ('e + 'm) \<times> 'r"
    and linked :: "nat \<Rightarrow> 's \<Rightarrow> 'r \<Rightarrow> bool"
    and chan :: "'s \<Rightarrow> 'k"
    and pos :: "'s \<Rightarrow> nat"
    and garbage :: "'k \<Rightarrow> 'c \<Rightarrow> bool"
  assumes deliver: "linked (Suc n) s r \<Longrightarrow> seal s m = (c, s') \<Longrightarrow>
      \<exists>r'. unseal r c = (Inr m, r') \<and> linked n s' r'"
    and advance: "linked (Suc n) s r \<Longrightarrow> seal s m = (c, s') \<Longrightarrow> chan s' = chan s \<and> pos s' = Suc (pos s)"
    and out_of_turn: "linked n s r \<Longrightarrow> seal t m = (c, t') \<Longrightarrow> chan t = chan s \<Longrightarrow> pos t \<noteq> pos s \<Longrightarrow>
      \<exists>e r'. unseal r c = (Inl e, r')"
    and refuse: "linked n s r \<Longrightarrow> garbage (chan s) c \<Longrightarrow> \<exists>e r'. unseal r c = (Inl e, r')"
begin

lemma all_delivered:
  "linked (length ms + n) s r \<Longrightarrow> \<exists>r'. linked n (snd (seal_all seal s ms)) r' \<and>
     accept_all unseal r (fst (seal_all seal s ms)) = zip (fst (seal_all seal s ms)) ms"
proof (induction ms arbitrary: s r)
  case (Cons m ms)
  obtain c s1 where c: "seal s m = (c, s1)" by (metis surj_pair)
  from Cons.prems obtain r1 where "unseal r c = (Inr m, r1)" "linked (length ms + n) s1 r1"
    using deliver [of "length ms + n" s r m c s1] c by auto
  with Cons.IH [of s1 r1] c show ?case by (auto simp: case_prod_beta)
qed auto

lemma sealed_place: "linked (length ms + n) s r \<Longrightarrow>
  chan (snd (seal_all seal s ms)) = chan s \<and> pos (snd (seal_all seal s ms)) = pos s + length ms"
proof (induction ms arbitrary: s r)
  case (Cons m ms)
  obtain c s1 where c: "seal s m = (c, s1)" by (metis surj_pair)
  from Cons.prems obtain r1 where "linked (length ms + n) s1 r1"
    using deliver [of "length ms + n" s r m c s1] c by auto
  with Cons.IH [of s1 r1] advance [of "length ms + n" s r m c s1] Cons.prems c show ?case
    by (simp add: case_prod_beta)
qed simp

lemma accepted_prefix:
  assumes "linked n0 s0 r0" "length ms \<le> n0" "p \<le> length ms"
    and "linked (n0 - p) (snd (seal_all seal s0 (take p ms))) r"
    and "\<forall>f\<in>set fs. f \<in> set (fst (seal_all seal s0 ms)) \<or> garbage (chan s0) f"
  shows "prefix (map snd (accept_all unseal r fs)) (drop p ms)"
  using assms(3-5)
proof (induction fs arbitrary: p r)
  case (Cons f fs)
  define s where "s = snd (seal_all seal s0 (take p ms))"
  have place: "chan (snd (seal_all seal s0 (take i ms))) = chan s0 \<and>
      pos (snd (seal_all seal s0 (take i ms))) = pos s0 + i" if "i \<le> length ms" for i
    using sealed_place [of "take i ms" "n0 - i" s0 r0] assms(1,2) that by simp
  show ?case
  proof (cases "unseal r f")
    case (Pair res r1)
    show ?thesis
    proof (cases res)
      case (Inr m)
      have "f \<in> set (fst (seal_all seal s0 ms))"
        using Cons.prems(2,3) refuse [of "n0 - p" s r f] place [of p] Cons.prems(1) Pair Inr by (auto simp: s_def)
      then obtain i where i: "i < length ms" "f = fst (seal_all seal s0 ms) ! i"
        by (metis in_set_conv_nth length_seal_all)
      then have f: "seal (snd (seal_all seal s0 (take i ms))) (ms ! i) =
          (f, snd (seal (snd (seal_all seal s0 (take i ms))) (ms ! i)))"
        by (simp add: seal_all_nth)
      have "i = p"
      proof (rule ccontr)
        assume "i \<noteq> p"
        then have "\<exists>e r'. unseal r f = (Inl e, r')"
          using out_of_turn [OF Cons.prems(2) f] place [of i] place [of p] i(1) Cons.prems(1) by simp
        with Pair Inr show False by simp
      qed
      then have l: "p < length ms" and fp: "seal s (ms ! p) = (f, snd (seal s (ms ! p)))"
        using i f by (simp_all add: s_def)
      have "linked (Suc (n0 - Suc p)) s r" using Cons.prems(2) l assms(2) by (simp add: s_def Suc_diff_Suc)
      from deliver [OF this fp] have m: "m = ms ! p" "linked (n0 - Suc p) (snd (seal s (ms ! p))) r1"
        using Pair Inr by auto
      have "snd (seal_all seal s0 (take (Suc p) ms)) = snd (seal s (ms ! p))"
        using l by (simp add: take_Suc_conv_app_nth seal_all_append s_def case_prod_beta)
      with m have "prefix (map snd (accept_all unseal r1 fs)) (drop (Suc p) ms)"
        using Cons.IH [of "Suc p" r1] l Cons.prems(3) by simp
      with m l Pair Inr show ?thesis by (simp flip: Cons_nth_drop_Suc)
    qed (use Pair in simp)
  qed
qed simp

end

text \<open>The cipher is such a channel, for every implementation of the primitives.\<close>

definition linked :: "channel_crypto \<Rightarrow> nat \<Rightarrow> encrypt \<Rightarrow> encrypt \<Rightarrow> bool" where
  "linked cr n s r =
     (secretbox_ok cr \<and> secretbox_binds cr \<and> length (en_key s) = SECRETBOX_KEYBYTES \<and>
      recv_key r = en_key s \<and> en_recv r = en_send s \<and> unat (en_send s) + n < 2 ^ 64)"

definition never_opens :: "channel_crypto \<Rightarrow> bytes \<Rightarrow> bytes \<Rightarrow> bool" where
  "never_opens cr k f = (1 < length f \<and> (\<forall>n. cc_open cr f n k = None))"

lemma recv_key_update [simp]: "recv_key (e\<lparr>en_recv := n\<rparr>) = recv_key e" "recv_key (e\<lparr>en_send := n\<rparr>) = recv_key e"
  by (simp_all add: recv_key_def split: option.split)

lemma dec_sealed:
  assumes "secretbox_ok cr" "length k = SECRETBOX_KEYBYTES" "length n = SECRETBOX_NONCEBYTES"
  shows "dec cr e (cc_seal cr d n k) =
    (let e1 = e\<lparr>en_recv := en_recv e + 1\<rparr>
     in case cc_open cr (cc_seal cr d n k) (get_nonce (en_recv e + 1)) (recv_key e) of
          Some res \<Rightarrow> (Inr res, e1) | None \<Rightarrow> (Inl ''decryption error'', e1))"
proof -
  have "16 \<le> length (cc_seal cr d n k)" using assms unfolding secretbox_ok_def by (meson add_leE)
  then show ?thesis by (simp add: dec_def)
qed

interpretation cipher: ordered_channel "enc cr" "dec cr" "linked cr" en_key "\<lambda>s. unat (en_send s)" "never_opens cr" for cr
proof
  fix n s r m c s'
  assume l: "linked cr (Suc n) s r" and c: "enc cr s m = (c, s')"
  from c have cs: "c = cc_seal cr m (get_nonce (en_send s + 1)) (en_key s)" "s' = s\<lparr>en_send := en_send s + 1\<rparr>"
    by (simp_all add: enc_def Let_def)
  have u: "unat (en_send s + 1) = Suc (unat (en_send s))"
    using l by (simp add: linked_def unat_word_ariths)
  show "\<exists>r'. dec cr r c = (Inr m, r') \<and> linked cr n s' r'"
    using l u unfolding cs by (subst dec_sealed) (auto simp: linked_def secretbox_ok_def Let_def)
  show "en_key s' = en_key s \<and> unat (en_send s') = Suc (unat (en_send s))"
    using u by (simp add: cs)
next
  fix n s r t m c t'
  assume l: "linked cr n s r" and c: "enc cr t m = (c, t')" and k: "en_key t = en_key s"
    and p: "unat (en_send t) \<noteq> unat (en_send s)"
  have "en_send t \<noteq> en_send s" using p by auto
  then have "cc_open cr (cc_seal cr m (get_nonce (en_send t + 1)) (en_key s)) (get_nonce (en_send s + 1)) (en_key s) = None"
    using l by (simp add: linked_def secretbox_binds_def)
  moreover have "c = cc_seal cr m (get_nonce (en_send t + 1)) (en_key s)"
    using c k by (simp add: enc_def Let_def)
  ultimately show "\<exists>e r'. dec cr r c = (Inl e, r')"
    using l by (auto simp: linked_def Let_def dec_sealed)
next
  fix n s r c
  assume "linked cr n s r" "never_opens cr (en_key s) c"
  then show "\<exists>e r'. dec cr r c = (Inl e, r')"
    by (simp add: linked_def never_opens_def dec_def Let_def)
qed

section \<open>Conversations\<close>

lemma accept_all_short: "filter (\<lambda>(f, m). 1 < length f) (accept_all (dec cr) r fs) =
  accept_all (dec cr) r (filter (\<lambda>f. 1 < length f) fs)"
proof (induction fs arbitrary: r)
  case (Cons f fs)
  show ?case
  proof (cases "1 < length f")
    case True
    obtain res r' where "dec cr r f = (res, r')" by (metis surj_pair)
    with True Cons.IH [of r'] show ?thesis by (cases res) simp_all
  next
    case False
    then have "dec cr r f = (Inr f, r)" by (simp add: dec_def)
    with False Cons.IH [of r] show ?thesis by simp
  qed
qed simp

lemma accept_all_short_plain: "(f, m) \<in> set (accept_all (dec cr) r fs) \<Longrightarrow> length f \<le> 1 \<Longrightarrow> m = f"
proof (induction fs arbitrary: r)
  case (Cons g fs)
  then show ?case by (auto simp: dec_def Let_def split: if_splits sum.splits option.splits prod.splits)
qed simp


text \<open>The nonces a side uses: sealing shows them when the primitive is replaced by one that returns them.\<close>

definition revealing :: "channel_crypto \<Rightarrow> channel_crypto" where
  "revealing cr = cr\<lparr>cc_seal := (\<lambda>d n k. n @ k)\<rparr>"

lemma revealed_nonces: "fst (seal_all (enc (revealing cr)) e ms) =
  map (\<lambda>i. get_nonce (en_send e + of_nat (Suc i)) @ en_key e) [0..<length ms]"
proof (induction ms arbitrary: e)
  case (Cons m ms)
  have e1: "enc (revealing cr) e m = (get_nonce (en_send e + 1) @ en_key e, e\<lparr>en_send := en_send e + 1\<rparr>)"
    by (simp add: enc_def revealing_def Let_def)
  have "[0..<length (m # ms)] = 0 # map Suc [0..<length ms]"
    by (simp add: map_Suc_upt upt_conv_Cons del: upt_Suc)
  then show ?case using Cons.IH [of "e\<lparr>en_send := en_send e + 1\<rparr>"]
    by (simp add: e1 case_prod_beta comp_def add.assoc)
qed simp

lemma revealed_distinct: "length ms < 2 ^ 64 \<Longrightarrow> distinct (fst (seal_all (enc (revealing cr)) e ms))"
proof -
  assume l: "length ms < 2 ^ 64"
  have "inj_on (\<lambda>i. get_nonce (en_send e + of_nat (Suc i)) @ en_key e) {0..<length ms}"
  proof (rule inj_onI)
    fix i j assume ij: "i \<in> {0..<length ms}" "j \<in> {0..<length ms}"
      "get_nonce (en_send e + of_nat (Suc i)) @ en_key e = get_nonce (en_send e + of_nat (Suc j)) @ en_key e"
    then have "(of_nat i :: u64) = of_nat j" by (simp add: get_nonce_eq_iff)
    then have "unat (of_nat i :: u64) = unat (of_nat j :: u64)" by simp
    then show "i = j" using ij l by (simp add: unat_of_nat)
  qed
  then show ?thesis by (simp add: revealed_nonces distinct_map)
qed

lemma new_split_keys:
  assumes "new_split cr key True t = Inr a" "new_split cr key False t = Inr b"
  shows "\<exists>ki kr. derive_subkey cr key KX_SPLIT_INITIATOR t = Inr ki \<and> derive_subkey cr key KX_SPLIT_RESPONDER t = Inr kr \<and>
    a = \<lparr>en_key = ki, en_send = 0, en_recv = 0, en_recv_key = Some kr\<rparr> \<and>
    b = \<lparr>en_key = kr, en_send = 0, en_recv = 0, en_recv_key = Some ki\<rparr>"
  using assms by (auto simp: new_split_def split: sum.splits)

text \<open>C9. With version 1 of the key exchange no nonce is used twice under one key, by neither side: of all
  messages the two ends of a connection seal, up to \<open>2 ^ 64\<close> in either direction, any two are sealed with
  different pairs of nonce and key, provided only that the hash separates the two directions.\<close>

theorem split_nonces_unique:
  assumes "new_split cr key True t = Inr a" "new_split cr key False t = Inr b"
    and "derive_subkey cr key KX_SPLIT_INITIATOR t \<noteq> derive_subkey cr key KX_SPLIT_RESPONDER t"
    and "length ms < 2 ^ 64" "length ms' < 2 ^ 64"
  shows "distinct (fst (seal_all (enc (revealing cr)) a ms) @ fst (seal_all (enc (revealing cr)) b ms'))"
proof -
  obtain ki kr where k: "en_key a = ki" "en_key b = kr" "ki \<noteq> kr"
    using new_split_keys [OF assms(1,2)] assms(3) by auto
  then have "set (fst (seal_all (enc (revealing cr)) a ms)) \<inter> set (fst (seal_all (enc (revealing cr)) b ms')) = {}"
    by (auto simp: revealed_nonces)
  with assms(4,5) show ?thesis by (simp add: revealed_distinct)
qed

text \<open>Version 0 gives both sides one key, and the \<open>i\<close>-th message of either is sealed with the same nonce.\<close>

lemma shared_key_repeats_nonces:
  "length ms = length ms' \<Longrightarrow>
   fst (seal_all (enc (revealing cr)) (encrypt_new key) ms) = fst (seal_all (enc (revealing cr)) (encrypt_new key) ms')"
  by (simp add: revealed_nonces)

section \<open>A concrete instance\<close>

definition pad32 :: "bytes \<Rightarrow> bytes" where
  "pad32 b = take 32 (b @ replicate 32 0)"

definition sample_cc :: channel_crypto where
  "sample_cc = \<lparr>
     cc_seal = (\<lambda>d n k. n @ k @ d),
     cc_open = (\<lambda>c n k. if take 24 c = n \<and> take 32 (drop 24 c) = k then Some (drop 56 c) else None),
     cc_box_seal = (\<lambda>m n pk sk. map2 (XOR) pk (pad32 sk) @ m),
     cc_box_open = (\<lambda>c n pk sk. if take 32 c = map2 (XOR) pk (pad32 sk) then Some (drop 32 c) else None),
     cc_box_pk = pad32,
     cc_hash = (\<lambda>k m. Some (pad32 (drop 8 m))),
     cc_sign = (\<lambda>m sk. pad32 sk @ m),
     cc_verify = (\<lambda>s pk. if take 32 s = pk then Some (drop 32 s) else None),
     cc_sign_pk = pad32\<rparr>"

lemma length_pad32 [simp]: "length (pad32 b) = 32"
  by (simp add: pad32_def)

lemma sample_secretbox: "secretbox_ok sample_cc" "secretbox_binds sample_cc" "hash_ok sample_cc"
  by (auto simp: secretbox_ok_def secretbox_binds_def hash_ok_def sample_cc_def SECRETBOX_NONCEBYTES_def SECRETBOX_KEYBYTES_def)

lemma sample_linked: "length k = 32 \<Longrightarrow> linked sample_cc 1000 (encrypt_new k) (encrypt_new k)"
  by (simp add: linked_def sample_secretbox encrypt_new_def recv_key_def SECRETBOX_KEYBYTES_def)


definition sample_transcript :: kx_transcript where
  "sample_transcript = \<lparr>kt_initiator_pk = replicate 32 1, kt_responder_pk = replicate 32 2, kt_advertised = 1, kt_picked = 1\<rparr>"

theorem split_nonces_unique_witness:
  "\<exists>a b. new_split sample_cc (replicate 32 5) True sample_transcript = Inr a \<and>
     new_split sample_cc (replicate 32 5) False sample_transcript = Inr b \<and>
     distinct (fst (seal_all (enc (revealing sample_cc)) a [[1], [2]]) @ fst (seal_all (enc (revealing sample_cc)) b [[1], [2]]))"
proof -
  have ne: "derive_subkey sample_cc (replicate 32 5) KX_SPLIT_INITIATOR sample_transcript \<noteq>
      derive_subkey sample_cc (replicate 32 5) KX_SPLIT_RESPONDER sample_transcript"
    by (simp add: derive_subkey_def sample_cc_def sample_transcript_def BOX_PUBLICKEYBYTES_def
        KX_SPLIT_CONTEXT_def KX_SPLIT_INITIATOR_def KX_SPLIT_RESPONDER_def pad32_def)
  obtain a b where "new_split sample_cc (replicate 32 5) True sample_transcript = Inr a"
      "new_split sample_cc (replicate 32 5) False sample_transcript = Inr b"
    by (simp add: new_split_def derive_subkey_def sample_cc_def sample_transcript_def BOX_PUBLICKEYBYTES_def)
  with split_nonces_unique [OF this ne, of "[[1], [2]]" "[[1], [2]]"] show ?thesis by auto
qed

end
