(* ===== verification/Key_Exchange.thy ===== *)
theory Key_Exchange
  imports Prelude Secure_Channel Login_Policy
begin

text \<open>
  The handshakes that key a stream: the controlled side's \<open>identity_handshake\<close> with the admission of a
  connection around it (\<open>src/server.rs\<close>), the controller's \<open>secure_connection\<close> and the question to the
  user when a connection stays unencrypted (\<open>src/client.rs\<close>), and the exchange with the rendezvous server
  (\<open>key_exchange\<close>, \<open>secure_tcp\<close>, \<open>secure_tcp_required\<close> of \<open>src/common.rs\<close>).

  The protobuf serialisation and base64 are a record of functions, as the primitives are, with the law
  \<open>wire_ok\<close>: what is printed is parsed.  Fresh keys are arguments.  What a stream will receive is in the
  stream; a read that finds nothing is one whose timeout elapses.
\<close>

section \<open>Messages\<close>

datatype hs_message =
    MsgEmpty
  | MsgSignedId bytes
  | MsgPublicKey bytes bytes u32
  | MsgOther nat

datatype rdv_message =
    RdvEmpty
  | RdvKeyExchange "bytes list" u32 bytes
  | RdvOther nat

record id_pk =
  ip_id :: string
  ip_pk :: bytes
  ip_dtls_fingerprint :: string
  ip_kx_version :: u32

record kx_params =
  kp_pk :: bytes
  kp_version :: u32

record wire_format =
  wf_message :: "hs_message \<Rightarrow> bytes"
  wf_parse_message :: "bytes \<Rightarrow> hs_message option"
  wf_id_pk :: "id_pk \<Rightarrow> bytes"
  wf_parse_id_pk :: "bytes \<Rightarrow> id_pk option"
  wf_rdv :: "rdv_message \<Rightarrow> bytes"
  wf_parse_rdv :: "bytes \<Rightarrow> rdv_message option"
  wf_params :: "kx_params \<Rightarrow> bytes"
  wf_parse_params :: "bytes \<Rightarrow> kx_params option"
  wf_decode64 :: "string \<Rightarrow> bytes option"

definition wire_ok :: "wire_format \<Rightarrow> bool" where
  "wire_ok pb =
     ((\<forall>m. wf_parse_message pb (wf_message pb m) = Some m) \<and>
      (\<forall>p. wf_parse_id_pk pb (wf_id_pk pb p) = Some p) \<and>
      (\<forall>m. wf_parse_rdv pb (wf_rdv pb m) = Some m) \<and>
      (\<forall>p. wf_parse_params pb (wf_params pb p) = Some p))"

text \<open>What is relied on of signatures and of the box: a signed text verifies under the signer's key, and the
  box of one key pair opens with the other; public keys have 32 bytes.\<close>

definition handshake_crypto_ok :: "channel_crypto \<Rightarrow> bool" where
  "handshake_crypto_ok cr =
     ((\<forall>m sk. cc_verify cr (cc_sign cr m sk) (cc_sign_pk cr sk) = Some m) \<and>
      (\<forall>m n a b. cc_box_open cr (cc_box_seal cr m n (cc_box_pk cr b) a) n (cc_box_pk cr a) b = Some m) \<and>
      (\<forall>sk. length (cc_box_pk cr sk) = BOX_PUBLICKEYBYTES))"

section \<open>Reading and sending with a deadline\<close>

definition elapsed :: string where "elapsed = ''deadline has elapsed''"

definition timed_send :: "channel_crypto \<Rightarrow> stream_io \<Rightarrow> bytes \<Rightarrow> conn_stream \<Rightarrow> (string + unit) \<times> conn_stream" where
  "timed_send cr io d st =
     (case stream_send_raw cr io d st of
        (None, st') \<Rightarrow> (Inl elapsed, st')
      | (Some r, st') \<Rightarrow> (r, st'))"

definition timed_next ::
  "channel_crypto \<Rightarrow> stream_io \<Rightarrow> conn_stream \<Rightarrow> (string + (string + bytes) option) \<times> conn_stream" where
  "timed_next cr io st =
     (case stream_next cr io st of
        (NextPending, st') \<Rightarrow> (Inl elapsed, st')
      | (NextEnd, st') \<Rightarrow> (Inr None, st')
      | (NextErr e, st') \<Rightarrow> (Inr (Some (Inl e)), st')
      | (NextOk bs, st') \<Rightarrow> (Inr (Some (Inr bs)), st'))"

section \<open>Keys and identities: \<open>common.rs\<close>\<close>

definition get_pk :: "bytes \<Rightarrow> bytes option" where
  "get_pk pk = (if length pk = 32 then Some pk else None)"

definition get_rs_pk :: "wire_format \<Rightarrow> string \<Rightarrow> bytes option" where
  "get_rs_pk pb str_base64 = (case wf_decode64 pb str_base64 of Some pk \<Rightarrow> get_pk pk | None \<Rightarrow> None)"

definition decode_id_pk_dtls ::
  "channel_crypto \<Rightarrow> wire_format \<Rightarrow> bytes \<Rightarrow> bytes \<Rightarrow> string + string \<times> bytes \<times> string \<times> u32" where
  "decode_id_pk_dtls cr pb sgd key =
     (case cc_verify cr sgd key of
        None \<Rightarrow> Inl ''Signature mismatch''
      | Some m \<Rightarrow>
          (case wf_parse_id_pk pb m of
             None \<Rightarrow> Inl ''parse error''
           | Some res \<Rightarrow>
               (case get_pk (ip_pk res) of
                  Some pk \<Rightarrow> Inr (ip_id res, pk, ip_dtls_fingerprint res, ip_kx_version res)
                | None \<Rightarrow> Inl ''Wrong their public length'')))"

definition decode_id_pk :: "channel_crypto \<Rightarrow> wire_format \<Rightarrow> bytes \<Rightarrow> bytes \<Rightarrow> string + string \<times> bytes" where
  "decode_id_pk cr pb sgd key =
     (case decode_id_pk_dtls cr pb sgd key of Inl e \<Rightarrow> Inl e | Inr (i, pk, _, _) \<Rightarrow> Inr (i, pk))"

definition dtls_fingerprint_bound :: "string \<Rightarrow> string \<Rightarrow> bool" where
  "dtls_fingerprint_bound signed_fp actual_fp = (signed_fp \<noteq> [] \<and> signed_fp = actual_fp)"

record kx_random =
  kr_box_sk :: bytes
  kr_key :: bytes

definition create_symmetric_key_msg :: "channel_crypto \<Rightarrow> kx_random \<Rightarrow> bytes \<Rightarrow> bytes \<times> bytes \<times> bytes" where
  "create_symmetric_key_msg cr rnd their_pk_b =
     (cc_box_pk cr (kr_box_sk rnd), cc_box_seal cr (kr_key rnd) zero_nonce their_pk_b (kr_box_sk rnd), kr_key rnd)"

section \<open>The controlled side: \<open>server.rs\<close>\<close>

definition SIGN_PUBLICKEYBYTES :: nat where "SIGN_PUBLICKEYBYTES = 32"
definition SIGN_SECRETKEYBYTES :: nat where "SIGN_SECRETKEYBYTES = 64"

record host_config =
  hc_sk :: bytes
  hc_pk :: bytes
  hc_id :: string
  hc_key_confirmed :: bool
  hc_keys_confirmed :: "(string \<times> bool) list"

definition set_key_confirmed :: "bool \<Rightarrow> host_config \<Rightarrow> host_config" where
  "set_key_confirmed v c =
     (if hc_key_confirmed c = v then c
      else if v then c\<lparr>hc_key_confirmed := True\<rparr>
      else c\<lparr>hc_key_confirmed := False, hc_keys_confirmed := []\<rparr>)"

definition signed_id_message :: "channel_crypto \<Rightarrow> wire_format \<Rightarrow> host_config \<Rightarrow> bytes \<Rightarrow> string \<Rightarrow> u32 \<Rightarrow> bytes" where
  "signed_id_message cr pb c our_pk_b fp advertised =
     wf_message pb (MsgSignedId (cc_sign cr
       (wf_id_pk pb \<lparr>ip_id = hc_id c, ip_pk = our_pk_b, ip_dtls_fingerprint = fp, ip_kx_version = advertised\<rparr>)
       (hc_sk c)))"

definition handle_public_key ::
  "channel_crypto \<Rightarrow> bytes \<Rightarrow> u32 \<Rightarrow> bytes \<Rightarrow> bytes \<Rightarrow> u32 \<Rightarrow> host_config \<Rightarrow> conn_stream \<Rightarrow> (string + unit) \<times> host_config \<times> conn_stream" where
  "handle_public_key cr our_sk_b advertised asymv symv kx c st =
     (if length asymv = BOX_PUBLICKEYBYTES then
        (case decode_key cr symv asymv our_sk_b of
           Inl e \<Rightarrow> (Inl e, c, st)
         | Inr key \<Rightarrow>
             if kx > advertised
             then (Inl (''Handshake failed: key exchange version '' @ show_nat (unat kx) @ '' not offered, '' @
                    show_nat (unat advertised) @ '' was''), c, st)
             else (case set_negotiated_key cr key False
                     \<lparr>kt_initiator_pk = asymv, kt_responder_pk = cc_box_pk cr our_sk_b,
                      kt_advertised = advertised, kt_picked = kx\<rparr> st of
                     Inl e \<Rightarrow> (Inl e, c, st)
                   | Inr st' \<Rightarrow> (Inr (), c, st')))
      else if asymv = [] then (Inr (), set_key_confirmed False c, st)
      else (Inl ''Handshake failed: invalid public sign key length from peer'', c, st))"

text \<open>What the read of the reply gave: a timeout, the stream's end, an error or a message.\<close>

definition identity_reply ::
  "channel_crypto \<Rightarrow> wire_format \<Rightarrow> bytes \<Rightarrow> u32 \<Rightarrow> host_config \<Rightarrow> string + (string + bytes) option \<Rightarrow> conn_stream \<Rightarrow>
   (string + unit) \<times> host_config \<times> conn_stream" where
  "identity_reply cr pb our_sk_b advertised c x st =
     (case x of
        Inl e \<Rightarrow> (Inl e, c, st)
      | Inr None \<Rightarrow> (Inl ''Failed to receive public key'', c, st)
      | Inr (Some (Inl e)) \<Rightarrow> (Inl e, c, st)
      | Inr (Some (Inr bs)) \<Rightarrow>
          (case wf_parse_message pb bs of
             None \<Rightarrow> (Inl ''Handshake failed: invalid message format'', c, st)
           | Some (MsgPublicKey asymv symv kx) \<Rightarrow> handle_public_key cr our_sk_b advertised asymv symv kx c st
           | Some _ \<Rightarrow> (Inr (), c, st)))"

definition identity_handshake ::
  "channel_crypto \<Rightarrow> wire_format \<Rightarrow> stream_io \<Rightarrow> bool \<Rightarrow> bytes \<Rightarrow> host_config \<Rightarrow> conn_stream \<Rightarrow> (string + unit) \<times> host_config \<times> conn_stream" where
  "identity_handshake cr pb io secure our_sk_b c st =
     (if secure \<and> length (hc_pk c) = SIGN_PUBLICKEYBYTES \<and> length (hc_sk c) = SIGN_SECRETKEYBYTES then
        (let fp = (case dtls_fingerprint io True st of Some f \<Rightarrow> f | None \<Rightarrow> []);
             advertised = (if is_webrtc st then 0 else KX_VERSION_LATEST)
         in if is_webrtc st \<and> fp = [] then (Inl ''WebRTC local DTLS fingerprint unavailable'', c, st)
            else
              (case timed_send cr io (signed_id_message cr pb c (cc_box_pk cr our_sk_b) fp advertised) st of
                 (Inl e, st1) \<Rightarrow> (Inl e, c, st1)
               | (Inr _, st1) \<Rightarrow>
                   (let (x, st2) = timed_next cr io st1 in identity_reply cr pb our_sk_b advertised c x st2)))
      else (Inr (), c, st))"

definition MAX_UNAUTHORIZED_MESSAGE :: nat where "MAX_UNAUTHORIZED_MESSAGE = 131072"

text \<open>The connection that starts, or the error; \<open>evicted\<close> says that the eviction wins the race against the
  handshake, whose only change beyond the stream, which is dropped, is its last step.  An error after the
  admission gives the place back.\<close>

definition create_tcp_connection ::
  "channel_crypto \<Rightarrow> wire_format \<Rightarrow> stream_io \<Rightarrow> bool \<Rightarrow> bytes \<Rightarrow> int \<Rightarrow> 'ip \<Rightarrow> string \<Rightarrow> bool \<Rightarrow>
   host_config \<Rightarrow> conn_stream \<Rightarrow> 'ip registry \<Rightarrow> (string + conn_stream \<times> unauthorized_id) \<times> host_config \<times> 'ip registry" where
  "create_tcp_connection cr pb io secure our_sk_b cid ip ip_text evicted c st g =
     (case admit_unauthorized cid ip g of
        (None, g1) \<Rightarrow> (Inl (''too many unauthenticated connections from '' @ ip_text), c, g1)
      | (Some u, g1) \<Rightarrow>
          (let st1 = stream_set_max_packet_length MAX_UNAUTHORIZED_MESSAGE st
           in if evicted
              then (Inl ''evicted to make room for a newer unauthenticated connection'', c, drop_unauthorized u g1)
              else
                  (case identity_handshake cr pb io secure our_sk_b c st1 of
                     (Inl e, c', _) \<Rightarrow> (Inl e, c', drop_unauthorized u g1)
                   | (Inr _, c', st2) \<Rightarrow> (Inr (st2, u), c', g1))))"

section \<open>The controller: \<open>client.rs\<close>\<close>

definition RS_PUB_KEY :: string where
  "RS_PUB_KEY = ''pOjg1dA09pHunbiZa9s9jjap3EnJDn1MbhTksVdDGPo=''"

text \<open>The peer's signing key, if the rendezvous server vouches for it; its vector is also what is returned
  as \<open>option_pk\<close>.\<close>

definition trusted_peer_key ::
  "channel_crypto \<Rightarrow> wire_format \<Rightarrow> string \<Rightarrow> bytes \<Rightarrow> string \<Rightarrow> bytes option" where
  "trusted_peer_key cr pb peer_id signed_id_pk key =
     (if signed_id_pk = [] then None
      else case get_rs_pk pb (if key = [] then RS_PUB_KEY else key) of
             None \<Rightarrow> None
           | Some rs_pk \<Rightarrow>
               (case decode_id_pk cr pb signed_id_pk rs_pk of
                  Inl _ \<Rightarrow> None
                | Inr (i, pk) \<Rightarrow> if i = peer_id then Some pk else None))"

text \<open>\<open>conn.send(..).await?\<close> with no deadline, then the result.\<close>

definition send_then ::
  "channel_crypto \<Rightarrow> wire_format \<Rightarrow> stream_io \<Rightarrow> hs_message \<Rightarrow> 'a \<Rightarrow> conn_stream \<Rightarrow> (string + 'a) option \<times> conn_stream" where
  "send_then cr pb io m x st =
     (case stream_send_raw cr io (wf_message pb m) st of
        (None, st') \<Rightarrow> (None, st')
      | (Some (Inl e), st') \<Rightarrow> (Some (Inl e), st')
      | (Some (Inr _), st') \<Rightarrow> (Some (Inr x), st'))"

definition answer_signed_id ::
  "channel_crypto \<Rightarrow> wire_format \<Rightarrow> stream_io \<Rightarrow> kx_random \<Rightarrow> bytes \<Rightarrow> string \<Rightarrow> u32 \<Rightarrow> 'a \<Rightarrow> conn_stream \<Rightarrow> (string + 'a) \<times> conn_stream" where
  "answer_signed_id cr pb io rnd their_pk_b signed_fp kx x st =
     (let bound = (if is_webrtc st
                   then (case dtls_fingerprint io False st of
                           None \<Rightarrow> Inl ''WebRTC DTLS fingerprint unavailable''
                         | Some actual_fp \<Rightarrow>
                             if dtls_fingerprint_bound signed_fp actual_fp then Inr ()
                             else Inl ''WebRTC DTLS fingerprint not bound to peer identity (possible MITM)'')
                   else Inr ())
      in case bound of
           Inl e \<Rightarrow> (Inl e, st)
         | Inr _ \<Rightarrow>
             (let (asymv, symv, key) = create_symmetric_key_msg cr rnd their_pk_b;
                  picked = (if is_webrtc st then 0 else kx_version_for kx)
              in case timed_send cr io (wf_message pb (MsgPublicKey asymv symv picked)) st of
                   (Inl e, st1) \<Rightarrow> (Inl e, st1)
                 | (Inr _, st1) \<Rightarrow>
                     (case set_negotiated_key cr key True
                        \<lparr>kt_initiator_pk = asymv, kt_responder_pk = their_pk_b, kt_advertised = kx, kt_picked = picked\<rparr> st1 of
                        Inl e \<Rightarrow> (Inl e, st1)
                      | Inr st2 \<Rightarrow> (Inr x, st2))))"

definition secure_connection ::
  "channel_crypto \<Rightarrow> wire_format \<Rightarrow> stream_io \<Rightarrow> kx_random \<Rightarrow> string \<Rightarrow> bytes \<Rightarrow> string \<Rightarrow> conn_stream \<Rightarrow>
   (string + bytes option) option \<times> conn_stream" where
  "secure_connection cr pb io rnd peer_id signed_id_pk key st =
     (case trusted_peer_key cr pb peer_id signed_id_pk key of
        None \<Rightarrow> send_then cr pb io MsgEmpty None st
      | Some sign_pk \<Rightarrow>
          (case timed_next cr io st of
             (Inl e, st1) \<Rightarrow> (Some (Inl e), st1)
           | (Inr None, st1) \<Rightarrow> (Some (Inl ''Reset by the peer''), st1)
           | (Inr (Some (Inl e)), st1) \<Rightarrow> (Some (Inl e), st1)
           | (Inr (Some (Inr bs)), st1) \<Rightarrow>
               (case wf_parse_message pb bs of
                  None \<Rightarrow>
                    if is_webrtc st then (Some (Inl ''WebRTC handshake received a malformed message''), st1)
                    else send_then cr pb io MsgEmpty (Some sign_pk) st1
                | Some (MsgSignedId si) \<Rightarrow>
                    (case decode_id_pk_dtls cr pb si sign_pk of
                       Inl _ \<Rightarrow>
                         if is_webrtc st
                         then (Some (Inl ''WebRTC peer identity could not be verified (refusing unbound channel)''), st1)
                         else send_then cr pb io (MsgPublicKey [] [] 0) (Some sign_pk) st1
                     | Inr (i, their_pk_b, signed_fp, kx) \<Rightarrow>
                         if i = peer_id
                         then apfst Some (answer_signed_id cr pb io rnd their_pk_b signed_fp kx (Some sign_pk) st1)
                         else if is_webrtc st
                         then (Some (Inl ''WebRTC handshake id mismatch (possible MITM)''), st1)
                         else send_then cr pb io MsgEmpty (Some sign_pk) st1)
                | Some _ \<Rightarrow>
                    if is_webrtc st
                    then (Some (Inl ''WebRTC handshake received an unexpected message type''), st1)
                    else send_then cr pb io MsgEmpty (Some sign_pk) st1)))"

text \<open>The answers of the user interface while it is asked whether to go on unencrypted; the channel's end is
  the end of the list.\<close>

datatype ui_data = ContinueInsecureConnection | RejectInsecureConnection | CloseData | OtherData nat

fun confirm_insecure_connection :: "ui_data list \<Rightarrow> bool" where
  "confirm_insecure_connection [] = False"
| "confirm_insecure_connection (ContinueInsecureConnection # _) = True"
| "confirm_insecure_connection (RejectInsecureConnection # _) = False"
| "confirm_insecure_connection (CloseData # _) = False"
| "confirm_insecure_connection (OtherData _ # r) = confirm_insecure_connection r"

text \<open>The guard in front of every session of the controller (\<open>io_loop.rs\<close>, \<open>port_forward.rs\<close>).\<close>

definition session_may_start :: "bool \<Rightarrow> ui_data list \<Rightarrow> conn_stream \<Rightarrow> bool" where
  "session_may_start direct_ip answers st = (is_secured st \<or> direct_ip \<or> confirm_insecure_connection answers)"

section \<open>The rendezvous server: \<open>common.rs\<close>\<close>

definition KX_PARAMS_DOMAIN :: bytes where
  "KX_PARAMS_DOMAIN = [0x72, 0x64, 0x6B, 0x78, 0x2D, 0x70, 0x61, 0x72, 0x61, 0x6D, 0x73]"

definition strip_domain :: "bytes \<Rightarrow> bytes \<Rightarrow> bytes option" where
  "strip_domain pre b = (if take (length pre) b = pre then Some (drop (length pre) b) else None)"

definition signed_kx_params :: "channel_crypto \<Rightarrow> wire_format \<Rightarrow> bytes \<Rightarrow> bytes \<Rightarrow> kx_params option" where
  "signed_kx_params cr pb sgd rs_pk =
     (case cc_verify cr sgd rs_pk of
        None \<Rightarrow> None
      | Some m \<Rightarrow>
          (case strip_domain KX_PARAMS_DOMAIN m of
             None \<Rightarrow> None
           | Some params \<Rightarrow> wf_parse_params pb params))"

definition server_kx_key ::
  "channel_crypto \<Rightarrow> wire_format \<Rightarrow> bytes list \<Rightarrow> u32 \<Rightarrow> bytes \<Rightarrow> bytes \<Rightarrow> string + bytes" where
  "server_kx_key cr pb keys version signed_params rs_pk =
     (if length keys \<noteq> 1 then Inl ''Handshake failed: invalid key exchange message''
      else case cc_verify cr (keys ! 0) rs_pk of
        None \<Rightarrow> Inl ''Signature mismatch in key exchange''
      | Some v \<Rightarrow>
          (case get_pk v of
             None \<Rightarrow> Inl ''Wrong their public length in key exchange''
           | Some their_pk_b \<Rightarrow>
               if (their_pk_b ! 31) AND 0x80 \<noteq> 0 \<or> signed_params \<noteq> [] then
                 (case signed_kx_params cr pb signed_params rs_pk of
                    None \<Rightarrow> Inl ''Missing or invalid signed key exchange parameters''
                  | Some params \<Rightarrow>
                      if kp_pk params \<noteq> their_pk_b \<or> kp_version params \<noteq> version
                      then Inl ''Key exchange version or public key does not match its signature''
                      else Inr their_pk_b)
               else Inr their_pk_b))"

definition key_exchange ::
  "channel_crypto \<Rightarrow> wire_format \<Rightarrow> stream_io \<Rightarrow> kx_random \<Rightarrow> string \<Rightarrow> conn_stream \<Rightarrow> (string + bool) \<times> conn_stream" where
  "key_exchange cr pb io rnd key st =
     (case get_rs_pk pb key of
        None \<Rightarrow> (Inl ''Handshake failed: invalid public key from rendezvous server'', st)
      | Some rs_pk \<Rightarrow>
          (case timed_next cr io st of
             (Inl e, st1) \<Rightarrow> (Inl e, st1)
           | (Inr (Some (Inr bs)), st1) \<Rightarrow>
               (case wf_parse_rdv pb bs of
                  Some (RdvKeyExchange keys version signed_params) \<Rightarrow>
                    (case server_kx_key cr pb keys version signed_params rs_pk of
                       Inl e \<Rightarrow> (Inl e, st1)
                     | Inr their_pk_b \<Rightarrow>
                         (let (asymv, symv, k) = create_symmetric_key_msg cr rnd their_pk_b;
                              picked = kx_version_for version
                          in case timed_send cr io (wf_rdv pb (RdvKeyExchange [asymv, symv] picked [])) st1 of
                               (Inl e, st2) \<Rightarrow> (Inl e, st2)
                             | (Inr _, st2) \<Rightarrow>
                                 (case set_negotiated_key cr k True
                                    \<lparr>kt_initiator_pk = asymv, kt_responder_pk = their_pk_b,
                                     kt_advertised = version, kt_picked = picked\<rparr> st2 of
                                    Inl e \<Rightarrow> (Inl e, st2)
                                  | Inr st3 \<Rightarrow> (Inr True, st3))))
                | _ \<Rightarrow> (Inr False, st1))
           | (Inr _, st1) \<Rightarrow> (Inr False, st1)))"

definition secure_tcp_impl ::
  "channel_crypto \<Rightarrow> wire_format \<Rightarrow> stream_io \<Rightarrow> kx_random \<Rightarrow> bool \<Rightarrow> string \<Rightarrow> conn_stream \<Rightarrow> (string + unit) \<times> conn_stream" where
  "secure_tcp_impl cr pb io rnd use_ws key st =
     (if use_ws then (Inr (), st) else apfst (map_sum (\<lambda>e. e) (\<lambda>_. ())) (key_exchange cr pb io rnd key st))"

definition secure_tcp_required ::
  "channel_crypto \<Rightarrow> wire_format \<Rightarrow> stream_io \<Rightarrow> kx_random \<Rightarrow> bool \<Rightarrow> string \<Rightarrow> conn_stream \<Rightarrow> (string + unit) \<times> conn_stream" where
  "secure_tcp_required cr pb io rnd use_ws key st =
     (if use_ws then (Inr (), st)
      else case key_exchange cr pb io rnd key st of
             (Inl e, st') \<Rightarrow> (Inl e, st')
           | (Inr True, st') \<Rightarrow> (Inr (), st')
           | (Inr False, st') \<Rightarrow> (Inl ''the rendezvous server did not complete the key exchange'', st'))"

section \<open>Streams before the key is set\<close>

text \<open>A TCP or WebSocket stream with no key yet: what was sent on it, what will arrive.\<close>

definition plain :: "conn_stream \<Rightarrow> bool" where
  "plain st =
     (case st of
        WebRTC _ \<Rightarrow> False
      | WebSocket s \<Rightarrow> ws_encrypt s = None
      | Tcp s \<Rightarrow> tc_encrypt s = None \<and> \<not> bc_raw (tc_codec s))"

definition sent :: "conn_stream \<Rightarrow> bytes list" where
  "sent st = (case st of WebRTC s \<Rightarrow> rtc_out s | WebSocket s \<Rightarrow> ws_out s | Tcp s \<Rightarrow> tc_out s)"

definition arriving :: "conn_stream \<Rightarrow> bytes list \<Rightarrow> bool" where
  "arriving st fs =
     (case st of
        WebRTC s \<Rightarrow> rtc_in s = map DcRead fs
      | WebSocket s \<Rightarrow> ws_in s = map WsBinary fs
      | Tcp s \<Rightarrow> tc_in s = map TcpFrame fs)"

definition keyed :: "conn_stream \<Rightarrow> encrypt option" where
  "keyed st = (case st of WebRTC _ \<Rightarrow> None | WebSocket s \<Rightarrow> ws_encrypt s | Tcp s \<Rightarrow> tc_encrypt s)"

lemmas stream_views = plain_def sent_def arriving_def keyed_def

lemma plain_send:
  assumes "plain st" "length d \<le> MAX_FRAME_LENGTH" "io_send_err io = None"
  shows "\<exists>st'. timed_send cr io d st = (Inr (), st') \<and> plain st' \<and> sent st' = sent st @ [d] \<and>
    (\<forall>fs. arriving st' fs = arriving st fs) \<and> is_webrtc st' = is_webrtc st"
proof (cases st)
  case (Tcp s)
  obtain h where h: "encode_head (length d) = Inr h" using encode_head_total [OF assms(2)] by blast
  with assms Tcp show ?thesis
    by (simp add: timed_send_def stream_send_raw_def tcp_send_raw_def tcp_send_bytes_def encode_def stream_views is_webrtc_def)
qed (use assms in \<open>simp_all add: timed_send_def stream_send_raw_def ws_send_raw_def ws_send_bytes_def stream_views is_webrtc_def\<close>)

lemma plain_next:
  assumes "plain st" "arriving st (f # fs)"
  shows "\<exists>st'. timed_next cr io st = (Inr (Some (Inr f)), st') \<and> plain st' \<and> sent st' = sent st \<and>
    arriving st' fs \<and> is_webrtc st' = is_webrtc st"
  using assms
  by (cases st) (simp_all add: timed_next_def stream_next_def tcp_next_def ws_next_def stream_views is_webrtc_def)

lemma plain_split_key:
  assumes "plain st" "kt_picked t = 1" "new_split cr key i t = Inr e"
  shows "\<exists>st'. set_negotiated_key cr key i t st = Inr st' \<and> keyed st' = Some e \<and> sent st' = sent st"
  using assms
  by (cases st) (simp_all add: set_negotiated_key_def tcp_set_key_split_def ws_set_key_split_def stream_views)

lemma plain_not_webrtc: "plain st \<Longrightarrow> \<not> is_webrtc st"
  by (simp add: plain_def is_webrtc_def split: conn_stream.splits)

lemma new_split_linked:
  assumes "secretbox_ok cr" "secretbox_binds cr" "hash_ok cr"
    and "length (kt_initiator_pk t) = BOX_PUBLICKEYBYTES" "length (kt_responder_pk t) = BOX_PUBLICKEYBYTES"
  shows "\<exists>a b. new_split cr key True t = Inr a \<and> new_split cr key False t = Inr b \<and>
    linked cr (2 ^ 64 - 1) a b \<and> linked cr (2 ^ 64 - 1) b a"
proof -
  have d: "\<exists>k. derive_subkey cr key dir t = Inr k \<and> length k = SECRETBOX_KEYBYTES" for dir
    using assms(3-5) unfolding derive_subkey_def hash_ok_def by (auto split: option.splits) (metis option.inject)+
  obtain ki kr where "derive_subkey cr key KX_SPLIT_INITIATOR t = Inr ki" "length ki = SECRETBOX_KEYBYTES"
    "derive_subkey cr key KX_SPLIT_RESPONDER t = Inr kr" "length kr = SECRETBOX_KEYBYTES" using d by blast
  with assms(1,2) show ?thesis by (simp add: new_split_def linked_def recv_key_def)
qed

lemma plain_next_sent: "plain st \<Longrightarrow> sent (snd (timed_next cr io st)) = sent st"
  by (cases st)
    (auto simp: timed_next_def stream_next_def tcp_next_def ws_next_def stream_views Let_def
      split: prod.splits next_result.splits list.splits tcp_item.splits)

lemma negotiated_sent: "set_negotiated_key cr key i t st = Inr st' \<Longrightarrow> sent st' = sent st"
  by (cases st)
    (auto simp: set_negotiated_key_def stream_set_key_def rtc_set_key_def ws_set_key_def tcp_set_key_def
      ws_set_key_split_def tcp_set_key_split_def sent_def split: if_splits sum.splits)

lemma public_key_sent: "sent (snd (snd (handle_public_key cr our_sk adv asymv symv kx c st))) = sent st"
  using negotiated_sent by (auto simp: handle_public_key_def split: sum.splits)

lemma identity_reply_sent: "sent (snd (snd (identity_reply cr pb our_sk adv c x st))) = sent st"
  by (auto simp: identity_reply_def public_key_sent split: sum.split option.split hs_message.split)

section \<open>The handshake of two honest ends\<close>

lemma host_sends_identity:
  assumes "plain st" "io_send_err io = None"
    and "length (hc_pk c) = SIGN_PUBLICKEYBYTES" "length (hc_sk c) = SIGN_SECRETKEYBYTES"
    and "m = signed_id_message cr pb c (cc_box_pk cr our_sk) [] KX_VERSION_LATEST" "length m \<le> MAX_FRAME_LENGTH"
  shows "\<exists>st1. identity_handshake cr pb io True our_sk c st =
      (let (x, st2) = timed_next cr io st1 in identity_reply cr pb our_sk KX_VERSION_LATEST c x st2) \<and>
    plain st1 \<and> sent st1 = sent st @ [m] \<and> (\<forall>fs. arriving st1 fs = arriving st fs) \<and>
    sent (snd (snd (identity_handshake cr pb io True our_sk c st))) = sent st @ [m]"
proof -
  have fp: "dtls_fingerprint io True st = None" and rtc: "\<not> is_webrtc st"
    using plain_not_webrtc [OF assms(1)] by (auto simp: dtls_fingerprint_def is_webrtc_def split: conn_stream.splits)
  obtain st1 where s1: "timed_send cr io m st = (Inr (), st1)" "plain st1" "sent st1 = sent st @ [m]"
      "\<forall>fs. arriving st1 fs = arriving st fs"
    using plain_send [OF assms(1,6,2)] by blast
  have run: "identity_handshake cr pb io True our_sk c st =
      (let (x, st2) = timed_next cr io st1 in identity_reply cr pb our_sk KX_VERSION_LATEST c x st2)"
    using s1(1) assms(3,4) fp rtc unfolding identity_handshake_def assms(5) by simp
  moreover have "sent (snd (snd (identity_handshake cr pb io True our_sk c st))) = sent st @ [m]"
    unfolding run using plain_next_sent [OF s1(2), of cr io] s1(3) by (auto simp: identity_reply_sent split: prod.split)
  ultimately show ?thesis using s1(2-4) by blast
qed

text \<open>The controller on reading a signed identity of the peer it trusts.\<close>

lemma controller_answers:
  assumes "plain st" "io_send_err io = None" "arriving st [wf_message pb (MsgSignedId si)]"
    and "wire_ok pb" "trusted_peer_key cr pb peer signed_id_pk key = Some sign_pk"
    and "decode_id_pk_dtls cr pb si sign_pk = Inr (peer, their_pk, fp, 1)"
    and "create_symmetric_key_msg cr rnd their_pk = (apk, sealed, k)"
    and "m = wf_message pb (MsgPublicKey apk sealed 1)" "length m \<le> MAX_FRAME_LENGTH"
    and "new_split cr k True \<lparr>kt_initiator_pk = apk, kt_responder_pk = their_pk, kt_advertised = 1, kt_picked = 1\<rparr> = Inr e"
  shows "\<exists>st'. secure_connection cr pb io rnd peer signed_id_pk key st = (Some (Inr (Some sign_pk)), st') \<and>
    keyed st' = Some e \<and> sent st' = sent st @ [m]"
proof -
  obtain st1 where s1: "timed_next cr io st = (Inr (Some (Inr (wf_message pb (MsgSignedId si)))), st1)" "plain st1"
      "sent st1 = sent st"
    using plain_next [OF assms(1,3)] by blast
  obtain st2 where s2: "timed_send cr io m st1 = (Inr (), st2)" "plain st2" "sent st2 = sent st1 @ [m]"
    using plain_send [OF s1(2) assms(9,2)] by blast
  obtain st3 where s3: "set_negotiated_key cr k True
      \<lparr>kt_initiator_pk = apk, kt_responder_pk = their_pk, kt_advertised = 1, kt_picked = 1\<rparr> st2 = Inr st3"
      "keyed st3 = Some e" "sent st3 = sent st2"
    using plain_split_key [OF s2(2) _ assms(10)] by auto
  have "answer_signed_id cr pb io rnd their_pk fp 1 (Some sign_pk) st1 = (Inr (Some sign_pk), st3)"
    using s2(1) s3(1) plain_not_webrtc [OF s1(2)] assms(7)
    by (simp add: answer_signed_id_def assms(8) kx_version_for_def KX_VERSION_LATEST_def)
  then have "secure_connection cr pb io rnd peer signed_id_pk key st = (Some (Inr (Some sign_pk)), st3)"
    using s1(1) assms(4-6) by (simp add: secure_connection_def wire_ok_def)
  with s1 s2 s3 show ?thesis by simp
qed

text \<open>The controlled side on reading a key sealed to it.\<close>

lemma host_takes_key:
  assumes "plain st" "handshake_crypto_ok cr" "length (kr_key rnd) = SECRETBOX_KEYBYTES"
    and "create_symmetric_key_msg cr rnd (cc_box_pk cr our_sk) = (apk, sealed, k)"
    and "new_split cr k False
      \<lparr>kt_initiator_pk = apk, kt_responder_pk = cc_box_pk cr our_sk, kt_advertised = 1, kt_picked = 1\<rparr> = Inr e"
  shows "\<exists>st'. handle_public_key cr our_sk KX_VERSION_LATEST apk sealed 1 c st = (Inr (), c, st') \<and>
    keyed st' = Some e \<and> sent st' = sent st"
proof -
  have "decode_key cr sealed apk our_sk = Inr k" "length apk = BOX_PUBLICKEYBYTES"
    using assms(2-4) by (auto simp: create_symmetric_key_msg_def decode_key_def handshake_crypto_ok_def)
  moreover obtain st' where "set_negotiated_key cr k False
      \<lparr>kt_initiator_pk = apk, kt_responder_pk = cc_box_pk cr our_sk, kt_advertised = 1, kt_picked = 1\<rparr> st = Inr st'"
      "keyed st' = Some e" "sent st' = sent st"
    using plain_split_key [OF assms(1) _ assms(5)] by auto
  ultimately show ?thesis by (simp add: handle_public_key_def KX_VERSION_LATEST_def)
qed


section \<open>What a keyed stream proves\<close>

lemma send_keeps:
  "is_secured (snd (stream_send_raw cr io d st)) = is_secured st"
  "is_webrtc (snd (stream_send_raw cr io d st)) = is_webrtc st"
proof -
  have v: "rtc_verified (snd (rtc_send_bytes env d s)) = rtc_verified s" for env s
    by (auto simp: rtc_send_bytes_def send_bytes_inner_def close_detached_def Let_def case_prod_beta
        split: sum.splits option.splits gate_answer.splits write_end.splits prod.splits)
  show "is_secured (snd (stream_send_raw cr io d st)) = is_secured st"
    "is_webrtc (snd (stream_send_raw cr io d st)) = is_webrtc st"
    by (cases st; auto simp: stream_send_raw_def is_secured_def is_webrtc_def rtc_is_secured_def ws_is_secured_def tcp_is_secured_def
        v ws_send_raw_def ws_send_bytes_def tcp_send_raw_def tcp_send_bytes_def case_prod_beta split: option.splits sum.splits)+
qed

lemma rtc_loop_verified: "rtc_verified (snd (rtc_read_loop s)) = rtc_verified s"
proof (induction s rule: rtc_read_loop.induct)
  case (1 s)
  then show ?case
    by (subst rtc_read_loop.simps)
      (auto simp: Let_def rtc_abort_def close_detached_def split: list.splits dc_read.splits option.splits)
qed

lemma ws_read_secured: "ws_read cr k items = (r, k', rest) \<Longrightarrow> (k' \<noteq> None) = (k \<noteq> None)"
  by (induction cr k items rule: ws_read.induct) (auto split: option.splits prod.splits sum.splits if_splits)

lemma stream_next_keeps:
  "is_secured (snd (stream_next cr io st)) = is_secured st"
  "is_webrtc (snd (stream_next cr io st)) = is_webrtc st"
proof -
  have v: "rtc_verified (snd (rtc_next d s)) = rtc_verified s" for d s
    using rtc_loop_verified
    by (auto simp: rtc_next_def close_detached_def Let_def case_prod_beta split: sum.splits option.splits)
  show "is_secured (snd (stream_next cr io st)) = is_secured st"
    using ws_read_secured
    by (cases st) (auto simp: stream_next_def is_secured_def rtc_is_secured_def ws_is_secured_def tcp_is_secured_def
        v ws_next_def tcp_next_def Let_def split: prod.splits list.splits tcp_item.splits option.splits sum.splits)
  show "is_webrtc (snd (stream_next cr io st)) = is_webrtc st"
    by (cases st) (auto simp: stream_next_def is_webrtc_def)
qed

lemma timed_next_keeps: "timed_next cr io st = (x, st') \<Longrightarrow> is_secured st' = is_secured st \<and> is_webrtc st' = is_webrtc st"
  using stream_next_keeps [of cr io st] by (auto simp: timed_next_def split: prod.splits next_result.splits)

lemma timed_next_Ok: "timed_next cr io st = (Inr (Some (Inr bs)), st') \<Longrightarrow> fst (stream_next cr io st) = NextOk bs"
  by (auto simp: timed_next_def split: prod.splits next_result.splits)

lemma timed_send_keeps: "timed_send cr io d st = (x, st') \<Longrightarrow> is_secured st' = is_secured st \<and> is_webrtc st' = is_webrtc st"
  using send_keeps [of cr io d st] by (auto simp: timed_send_def split: prod.splits option.splits)

lemma send_then_keeps: "send_then cr pb io m x st = (r, st') \<Longrightarrow> is_secured st' = is_secured st"
  using send_keeps [of cr io "wf_message pb m" st] by (auto simp: send_then_def split: prod.splits option.splits sum.splits)

lemma send_then_value: "send_then cr pb io m x st = (Some (Inr y), st') \<Longrightarrow> y = x"
  by (auto simp: send_then_def split: prod.splits option.splits sum.splits)

lemma negotiated_secured: "set_negotiated_key cr key i t st = Inr st' \<Longrightarrow> is_secured st'"
  by (cases st)
    (auto simp: set_negotiated_key_def stream_set_key_def rtc_set_key_def ws_set_key_def tcp_set_key_def ws_set_key_split_def
      tcp_set_key_split_def is_secured_def rtc_is_secured_def ws_is_secured_def tcp_is_secured_def split: if_splits sum.splits)

lemma answer_secured:
  assumes "answer_signed_id cr pb io rnd their fp kx x st = (Inr y, st')"
  shows "is_secured st' \<and> y = x \<and> (is_webrtc st \<longrightarrow> fp \<noteq> [] \<and> io_remote_fp io = Some fp)"
  using assms negotiated_secured
  by (cases st)
    (auto simp: answer_signed_id_def dtls_fingerprint_def is_webrtc_def dtls_fingerprint_bound_def Let_def
      split: prod.splits sum.splits option.splits if_splits)

lemma trusted_peer_key_SomeD:
  assumes "trusted_peer_key cr pb peer signed_id_pk key = Some pk"
  shows "\<exists>rs. get_rs_pk pb (if key = [] then RS_PUB_KEY else key) = Some rs \<and> decode_id_pk cr pb signed_id_pk rs = Inr (peer, pk)"
  using assms unfolding trusted_peer_key_def by (auto split: if_splits option.splits sum.splits)

text \<open>The two ways \<open>secure_connection\<close> ends well: it answered a verified identity, or it went on
  unencrypted, which on WebRTC needs that there was no trusted key.\<close>

lemma secure_connection_cases:
  assumes "secure_connection cr pb io rnd peer signed_id_pk key st = (Some (Inr opt), st')"
  obtains (keyed) sign_pk bs si their fp kx st1 where
      "trusted_peer_key cr pb peer signed_id_pk key = Some sign_pk" "fst (stream_next cr io st) = NextOk bs"
      "wf_parse_message pb bs = Some (MsgSignedId si)" "decode_id_pk_dtls cr pb si sign_pk = Inr (peer, their, fp, kx)"
      "is_webrtc st1 = is_webrtc st"
      "answer_signed_id cr pb io rnd their fp kx (Some sign_pk) st1 = (Inr opt, st')"
  | (unkeyed) "is_secured st' = is_secured st" "is_webrtc st \<longrightarrow> opt = None"
proof (cases "trusted_peer_key cr pb peer signed_id_pk key")
  case None
  with assms have "send_then cr pb io MsgEmpty None st = (Some (Inr opt), st')" by (simp add: secure_connection_def)
  from send_then_keeps [OF this] send_then_value [OF this] show thesis by (intro unkeyed) auto
next
  case (Some sign_pk)
  obtain x st1 where n: "timed_next cr io st = (x, st1)" by (metis surj_pair)
  with assms Some obtain bs where x: "x = Inr (Some (Inr bs))"
    by (auto simp: secure_connection_def split: sum.splits option.splits)
  note keep = timed_next_keeps [OF n]
  have fallback: thesis if "\<not> is_webrtc st" "send_then cr pb io m (Some sign_pk) st1 = (Some (Inr opt), st')" for m
    using that send_then_keeps [OF that(2)] keep by (intro unkeyed) auto
  show thesis
  proof (cases "\<exists>si their fp kx. wf_parse_message pb bs = Some (MsgSignedId si) \<and>
      decode_id_pk_dtls cr pb si sign_pk = Inr (peer, their, fp, kx)")
    case True
    then obtain si their fp kx where p: "wf_parse_message pb bs = Some (MsgSignedId si)"
      "decode_id_pk_dtls cr pb si sign_pk = Inr (peer, their, fp, kx)" by blast
    with assms Some n x have "answer_signed_id cr pb io rnd their fp kx (Some sign_pk) st1 = (Inr opt, st')"
      by (simp add: secure_connection_def apfst_def map_prod_def split: prod.splits)
    with p Some keep timed_next_Ok [OF n [unfolded x]] show thesis by (intro keyed) auto
  next
    case False
    with assms Some n x show thesis
      by (auto simp: secure_connection_def intro: fallback split: option.splits hs_message.splits sum.splits if_splits prod.splits)
  qed
qed


text \<open>The controlled side keys its stream only with a key sealed to it.  When \<open>identity_handshake\<close> succeeds
  on a stream that was not keyed and the stream is keyed afterwards, the reply was a public key
  whose sealed part opens, with the ephemeral key made for this connection, to a key of the right length,
  and the version it picks was offered; and the stored confirmation of the server's key is touched only by
  a reply without a key.\<close>

theorem host_keyed_by_sealed_key:
  assumes "identity_handshake cr pb io secure our_sk c st = (Inr (), c', st')" "\<not> is_secured st"
  shows "(is_secured st' \<longrightarrow>
      (\<exists>m bs apk sealed kx key.
         fst (stream_next cr io (snd (stream_send_raw cr io m st))) = NextOk bs \<and> wf_parse_message pb bs = Some (MsgPublicKey apk sealed kx) \<and>
         cc_box_open cr sealed zero_nonce apk our_sk = Some key \<and> length key = SECRETBOX_KEYBYTES \<and>
         kx \<le> (if is_webrtc st then 0 else KX_VERSION_LATEST))) \<and>
    (c' \<noteq> c \<longrightarrow> \<not> is_secured st' \<and> \<not> hc_key_confirmed c' \<and> hc_keys_confirmed c' = [])"
proof (cases "secure \<and> length (hc_pk c) = SIGN_PUBLICKEYBYTES \<and> length (hc_sk c) = SIGN_SECRETKEYBYTES")
  case True
  define fp where "fp = (case dtls_fingerprint io True st of Some f \<Rightarrow> f | None \<Rightarrow> [])"
  define adv where "adv = (if is_webrtc st then 0 else KX_VERSION_LATEST)"
  obtain x st1 where s: "timed_send cr io (signed_id_message cr pb c (cc_box_pk cr our_sk) fp adv) st = (x, st1)"
    by (metis surj_pair)
  obtain y st2 where n: "timed_next cr io st1 = (y, st2)" by (metis surj_pair)
  have ns: "\<not> is_secured st2" using timed_send_keeps [OF s] timed_next_keeps [OF n] assms(2) by simp
  have idr: "identity_reply cr pb our_sk adv c y st2 = (Inr (), c', st')"
    using assms(1) True s n
    by (auto simp: identity_handshake_def Let_def fp_def [symmetric] adv_def [symmetric] split: if_splits sum.splits)
  then obtain bs where y: "y = Inr (Some (Inr bs))"
    by (auto simp: identity_reply_def split: sum.splits option.splits)
  have r: "(case wf_parse_message pb bs of
      None \<Rightarrow> (Inl ''Handshake failed: invalid message format'', c, st2)
    | Some (MsgPublicKey asymv symv kx) \<Rightarrow> handle_public_key cr our_sk adv asymv symv kx c st2
    | Some _ \<Rightarrow> (Inr (), c, st2)) = (Inr (), c', st')"
    using idr y by (simp add: identity_reply_def)
  show ?thesis
  proof (cases "\<exists>apk sealed kx. wf_parse_message pb bs = Some (MsgPublicKey apk sealed kx)")
    case True
    then obtain apk sealed kx where p: "wf_parse_message pb bs = Some (MsgPublicKey apk sealed kx)" by blast
    with r have h: "handle_public_key cr our_sk adv apk sealed kx c st2 = (Inr (), c', st')" by simp
    show ?thesis
    proof (cases "apk = []")
      case True
      with h ns show ?thesis
        by (cases "hc_key_confirmed c") (auto simp: handle_public_key_def BOX_PUBLICKEYBYTES_def set_key_confirmed_def)
    next
      case False
      with h obtain k where k: "decode_key cr sealed apk our_sk = Inr k" "\<not> kx > adv" "c' = c"
        by (auto simp: handle_public_key_def split: if_splits sum.splits)
      have "st1 = snd (stream_send_raw cr io (signed_id_message cr pb c (cc_box_pk cr our_sk) fp adv) st)"
        using s by (auto simp: timed_send_def split: prod.splits option.splits)
      moreover from k(1) have "cc_box_open cr sealed zero_nonce apk our_sk = Some k" "length k = SECRETBOX_KEYBYTES"
        by (auto simp: decode_key_def split: if_splits option.splits)
      ultimately show ?thesis using p timed_next_Ok [OF n [unfolded y]] k(2,3) unfolding adv_def not_less by blast
    qed
  next
    case False
    with r ns show ?thesis by (auto split: option.splits hs_message.splits)
  qed
qed (use assms in \<open>auto simp: identity_handshake_def\<close>)


section \<open>A concrete instance\<close>

text \<open>A serialisation in unary numbers and length-prefixed strings.\<close>

definition put_nat :: "nat \<Rightarrow> bytes" where
  "put_nat n = replicate n 1 @ [0]"

definition take_nat :: "bytes \<Rightarrow> nat \<times> bytes" where
  "take_nat b = (let n = length (takeWhile (\<lambda>x. x = 1) b) in (n, drop (Suc n) b))"

definition put_bytes :: "bytes \<Rightarrow> bytes" where
  "put_bytes b = put_nat (length b) @ b"

definition take_bytes :: "bytes \<Rightarrow> bytes \<times> bytes" where
  "take_bytes b = (let (n, r) = take_nat b in (take n r, drop n r))"

lemma take_put_nat [simp]: "take_nat (put_nat n @ r) = (n, r)"
proof -
  have "takeWhile (\<lambda>x. x = 1) (replicate n 1 @ (0::u8) # r) = replicate n 1"
    by (induction n) auto
  then show ?thesis by (simp add: take_nat_def put_nat_def Let_def)
qed

lemma take_put_bytes [simp]: "take_bytes (put_bytes b @ r) = (b, r)"
  by (simp add: take_bytes_def put_bytes_def)

fun take_bytes_list :: "nat \<Rightarrow> bytes \<Rightarrow> bytes list \<times> bytes" where
  "take_bytes_list 0 b = ([], b)"
| "take_bytes_list (Suc n) b = (let (x, r) = take_bytes b; (xs, r') = take_bytes_list n r in (x # xs, r'))"

lemma take_put_list [simp]: "take_bytes_list (length xs) (concat (map put_bytes xs) @ r) = (xs, r)"
  by (induction xs) simp_all

definition put_string :: "string \<Rightarrow> bytes" where
  "put_string t = put_bytes (map (\<lambda>c. of_nat (of_char c)) t)"

definition take_string :: "bytes \<Rightarrow> string \<times> bytes" where
  "take_string b = (let (x, r) = take_bytes b in (map (\<lambda>x. char_of (unat x)) x, r))"

lemma char_byte: "char_of (unat (of_nat (of_char c) :: u8)) = c"
  by (simp add: unat_of_nat)

lemma take_put_string [simp]: "take_string (put_string t @ r) = (t, r)"
  by (simp add: take_string_def put_string_def comp_def char_byte)

definition sample_pb :: wire_format where
  "sample_pb = \<lparr>
     wf_message = (\<lambda>m. case m of MsgEmpty \<Rightarrow> put_nat 0 | MsgSignedId b \<Rightarrow> put_nat 1 @ put_bytes b
       | MsgPublicKey a b k \<Rightarrow> put_nat 2 @ put_bytes a @ put_bytes b @ put_nat (unat k) | MsgOther n \<Rightarrow> put_nat 3 @ put_nat n),
     wf_parse_message = (\<lambda>b. let (tag, r) = take_nat b in
       if tag = 0 then Some MsgEmpty else if tag = 1 then Some (MsgSignedId (fst (take_bytes r)))
       else if tag = 2 then (let (x, r1) = take_bytes r; (y, r2) = take_bytes r1
              in Some (MsgPublicKey x y (of_nat (fst (take_nat r2)))))
       else Some (MsgOther (fst (take_nat r)))),
     wf_id_pk = (\<lambda>p. put_string (ip_id p) @ put_bytes (ip_pk p) @ put_string (ip_dtls_fingerprint p) @ put_nat (unat (ip_kx_version p))),
     wf_parse_id_pk = (\<lambda>b. let (i, r1) = take_string b; (p, r2) = take_bytes r1; (f, r3) = take_string r2
       in Some \<lparr>ip_id = i, ip_pk = p, ip_dtls_fingerprint = f, ip_kx_version = of_nat (fst (take_nat r3))\<rparr>),
     wf_rdv = (\<lambda>m. case m of RdvEmpty \<Rightarrow> put_nat 0
       | RdvKeyExchange ks v p \<Rightarrow> put_nat 1 @ put_nat (length ks) @ concat (map put_bytes ks) @ put_nat (unat v) @ put_bytes p
       | RdvOther n \<Rightarrow> put_nat 2 @ put_nat n),
     wf_parse_rdv = (\<lambda>b. let (tag, r) = take_nat b in
       if tag = 0 then Some RdvEmpty
       else if tag = 1 then (let (n, r1) = take_nat r; (ks, r2) = take_bytes_list n r1; (v, r3) = take_nat r2
              in Some (RdvKeyExchange ks (of_nat v) (fst (take_bytes r3))))
       else Some (RdvOther (fst (take_nat r)))),
     wf_params = (\<lambda>p. put_bytes (kp_pk p) @ put_nat (unat (kp_version p))),
     wf_parse_params = (\<lambda>b. let (x, r) = take_bytes b in Some \<lparr>kp_pk = x, kp_version = of_nat (fst (take_nat r))\<rparr>),
     wf_decode64 = (\<lambda>t. Some (pad32 (map (\<lambda>c. of_nat (of_char c)) t)))\<rparr>"

lemma take_put_end [simp]: "take_nat (put_nat n) = (n, [])" "take_bytes (put_bytes b) = (b, [])"
  using take_put_nat [of n "[]"] take_put_bytes [of b "[]"] by simp_all

lemma sample_wire_ok: "wire_ok sample_pb"
  by (auto simp: wire_ok_def sample_pb_def Let_def case_prod_beta split: hs_message.split rdv_message.split)

lemma length_map2_xor: "length (map2 f a b) = min (length a) (length b)"
  by simp

lemma sample_handshake_crypto: "handshake_crypto_ok sample_cc"
proof -
  have "map2 (XOR) (pad32 b) (pad32 a) = map2 (XOR) (pad32 a) (pad32 b)" for a b
    by (rule nth_equalityI) (simp_all add: xor.commute)
  then show ?thesis by (simp add: handshake_crypto_ok_def sample_cc_def BOX_PUBLICKEYBYTES_def)
qed

text \<open>A run: the controlled side \<open>sample_host\<close>, vouched for by a rendezvous server with the key of
  \<open>sample_rs\<close>, and a controller.\<close>

definition sample_host :: host_config where
  "sample_host = \<lparr>hc_sk = replicate 64 3, hc_pk = replicate 32 3, hc_id = ''42'', hc_key_confirmed = True, hc_keys_confirmed = []\<rparr>"

definition sample_rs :: string where "sample_rs = ''rs''"

definition sample_vouch :: bytes where
  "sample_vouch = cc_sign sample_cc
     (wf_id_pk sample_pb \<lparr>ip_id = ''42'', ip_pk = replicate 32 3, ip_dtls_fingerprint = [], ip_kx_version = 0\<rparr>)
     (map (\<lambda>c. of_nat (of_char c)) sample_rs)"

definition sample_kx_random :: kx_random where
  "sample_kx_random = \<lparr>kr_box_sk = [7], kr_key = replicate 32 8\<rparr>"

definition sample_io :: stream_io where
  "sample_io = \<lparr>io_send_err = None, io_rtc = sample_send_env, io_detach = None, io_local_fp = None, io_remote_fp = None\<rparr>"

definition sample_tcp :: "bytes list \<Rightarrow> conn_stream" where
  "sample_tcp fs = Tcp \<lparr>tc_codec = codec_new, tc_encrypt = None, tc_out = [], tc_in = map TcpFrame fs\<rparr>"

definition sample_sid :: bytes where
  "sample_sid = cc_sign sample_cc
     (wf_id_pk sample_pb \<lparr>ip_id = ''42'', ip_pk = pad32 [5], ip_dtls_fingerprint = [], ip_kx_version = 1\<rparr>) (replicate 64 3)"

definition sample_reply :: bytes where
  "sample_reply = wf_message sample_pb (MsgPublicKey (pad32 [7]) (cc_box_seal sample_cc (replicate 32 8) zero_nonce (pad32 [5]) [7]) 1)"

lemma length_put [simp]: "length (put_nat n) = Suc n" "length (put_bytes b) = Suc (2 * length b)"
  "length (put_string t) = Suc (2 * length t)"
  by (simp_all add: put_nat_def put_bytes_def put_string_def)

lemma sample_plain: "plain (sample_tcp fs)" "sent (sample_tcp fs) = []" "arriving (sample_tcp fs) gs = (gs = fs)"
  "\<not> is_secured (sample_tcp fs)" "\<not> is_webrtc (sample_tcp fs)"
  by (auto simp: sample_tcp_def stream_views codec_new_def is_secured_def tcp_is_secured_def is_webrtc_def inj_map_eq_map inj_def)

lemma pad32_same: "pad32 (replicate 64 3) = replicate 32 3"
  by (simp add: pad32_def)

lemma sample_identity: "signed_id_message sample_cc sample_pb sample_host (cc_box_pk sample_cc [5]) [] KX_VERSION_LATEST =
    wf_message sample_pb (MsgSignedId sample_sid)"
  "length (wf_message sample_pb (MsgSignedId sample_sid)) \<le> MAX_FRAME_LENGTH"
  by (simp_all add: signed_id_message_def sample_sid_def sample_host_def sample_cc_def KX_VERSION_LATEST_def sample_pb_def
      MAX_FRAME_LENGTH_def)

lemma sample_key_msg: "create_symmetric_key_msg sample_cc sample_kx_random (cc_box_pk sample_cc [5]) =
    (pad32 [7], cc_box_seal sample_cc (replicate 32 8) zero_nonce (pad32 [5]) [7], replicate 32 8)"
  "length sample_reply \<le> MAX_FRAME_LENGTH"
  by (simp_all add: create_symmetric_key_msg_def sample_kx_random_def sample_cc_def sample_reply_def sample_pb_def MAX_FRAME_LENGTH_def)

lemma sample_trust: "trusted_peer_key sample_cc sample_pb ''42'' sample_vouch sample_rs = Some (replicate 32 3)"
proof -
  define sk :: bytes where "sk = map (\<lambda>c. of_nat (of_char c)) sample_rs"
  have "get_rs_pk sample_pb sample_rs = Some (cc_sign_pk sample_cc sk)"
    by (simp add: get_rs_pk_def get_pk_def sample_pb_def sample_cc_def sk_def)
  moreover have "decode_id_pk sample_cc sample_pb sample_vouch (cc_sign_pk sample_cc sk) = Inr (''42'', replicate 32 3)"
    using sample_wire_ok sample_handshake_crypto
    by (simp add: sample_vouch_def sk_def decode_id_pk_def decode_id_pk_dtls_def handshake_crypto_ok_def wire_ok_def get_pk_def)
  moreover have "sample_vouch \<noteq> []" by (simp add: sample_vouch_def sample_cc_def flip: length_greater_0_conv)
  ultimately show ?thesis by (simp add: trusted_peer_key_def sample_rs_def)
qed

lemma sample_handshake_run:
  obtains s_c s_h where
    "secure_connection sample_cc sample_pb sample_io sample_kx_random ''42'' sample_vouch sample_rs
       (sample_tcp [wf_message sample_pb (MsgSignedId sample_sid)]) = (Some (Inr (Some (replicate 32 3))), s_c)"
    "sent s_c = [sample_reply]" "is_secured s_c"
    "identity_handshake sample_cc sample_pb sample_io True [5] sample_host (sample_tcp [sample_reply]) = (Inr (), sample_host, s_h)"
    "sent s_h = [wf_message sample_pb (MsgSignedId sample_sid)]" "is_secured s_h"
proof -
  have io: "io_send_err sample_io = None" by (simp add: sample_io_def)
  obtain e where e: "new_split sample_cc (replicate 32 8) True
      \<lparr>kt_initiator_pk = pad32 [7], kt_responder_pk = pad32 [5], kt_advertised = 1, kt_picked = 1\<rparr> = Inr e"
    by (simp add: new_split_def derive_subkey_def sample_cc_def BOX_PUBLICKEYBYTES_def)
  obtain e' where e': "new_split sample_cc (replicate 32 8) False
      \<lparr>kt_initiator_pk = pad32 [7], kt_responder_pk = pad32 [5], kt_advertised = 1, kt_picked = 1\<rparr> = Inr e'"
    by (simp add: new_split_def derive_subkey_def sample_cc_def BOX_PUBLICKEYBYTES_def)
  have pk: "cc_box_pk sample_cc [5] = pad32 [5]" by (simp add: sample_cc_def)
  have "decode_id_pk_dtls sample_cc sample_pb sample_sid (replicate 32 3) = Inr (''42'', pad32 [5], [], 1)"
  proof -
    have "cc_verify sample_cc sample_sid (replicate 32 3) =
        Some (wf_id_pk sample_pb \<lparr>ip_id = ''42'', ip_pk = pad32 [5], ip_dtls_fingerprint = [], ip_kx_version = 1\<rparr>)"
      by (simp add: sample_sid_def sample_cc_def pad32_same)
    with sample_wire_ok show ?thesis by (simp add: decode_id_pk_dtls_def wire_ok_def get_pk_def)
  qed
  from controller_answers [OF sample_plain(1) io _ sample_wire_ok sample_trust this sample_key_msg(1) [unfolded pk] sample_reply_def sample_key_msg(2) e]
  obtain s_c where c: "secure_connection sample_cc sample_pb sample_io sample_kx_random ''42'' sample_vouch sample_rs
      (sample_tcp [wf_message sample_pb (MsgSignedId sample_sid)]) = (Some (Inr (Some (replicate 32 3))), s_c)"
    "keyed s_c = Some e" "sent s_c = [sample_reply]"
    by (auto simp: sample_plain)
  have host: "length (hc_pk sample_host) = SIGN_PUBLICKEYBYTES" "length (hc_sk sample_host) = SIGN_SECRETKEYBYTES"
    by (simp_all add: sample_host_def SIGN_PUBLICKEYBYTES_def SIGN_SECRETKEYBYTES_def)
  obtain st1 where h: "identity_handshake sample_cc sample_pb sample_io True [5] sample_host (sample_tcp [sample_reply]) =
      (let (x, st2) = timed_next sample_cc sample_io st1 in identity_reply sample_cc sample_pb [5] KX_VERSION_LATEST sample_host x st2)"
      "plain st1" "\<forall>fs. arriving st1 fs = arriving (sample_tcp [sample_reply]) fs"
      "sent (snd (snd (identity_handshake sample_cc sample_pb sample_io True [5] sample_host (sample_tcp [sample_reply])))) =
         [wf_message sample_pb (MsgSignedId sample_sid)]"
    using host_sends_identity [OF sample_plain(1) [of "[sample_reply]"] io host sample_identity(1) [symmetric] sample_identity(2)]
    unfolding sample_plain(2) append_Nil by blast
  have "arriving st1 [sample_reply]" using h(3) by (simp add: sample_plain)
  then obtain st2 where n: "timed_next sample_cc sample_io st1 = (Inr (Some (Inr sample_reply)), st2)" "plain st2"
    using plain_next [OF h(2)] by blast
  obtain s_h where t: "handle_public_key sample_cc [5] KX_VERSION_LATEST (pad32 [7])
      (cc_box_seal sample_cc (replicate 32 8) zero_nonce (pad32 [5]) [7]) 1 sample_host st2 = (Inr (), sample_host, s_h)" "keyed s_h = Some e'"
    using host_takes_key [OF n(2) sample_handshake_crypto _ sample_key_msg(1), of e'] e'
    by (auto simp: sample_kx_random_def SECRETBOX_KEYBYTES_def pk)
  have "identity_handshake sample_cc sample_pb sample_io True [5] sample_host (sample_tcp [sample_reply]) = (Inr (), sample_host, s_h)"
    using h(1) n(1) t(1) sample_wire_ok by (simp add: wire_ok_def sample_reply_def identity_reply_def)
  moreover have "is_secured s_c" "is_secured s_h"
    using c(2) t(2) by (auto simp: keyed_def is_secured_def ws_is_secured_def tcp_is_secured_def split: conn_stream.splits)
  ultimately show thesis using that c h(4) by simp
qed



theorem host_keyed_by_sealed_key_witness:
  "\<exists>s_h. identity_handshake sample_cc sample_pb sample_io True [5] sample_host (sample_tcp [sample_reply]) = (Inr (), sample_host, s_h) \<and>
     is_secured s_h \<and> (\<exists>apk sealed key. cc_box_open sample_cc sealed zero_nonce apk [5] = Some key \<and> length key = SECRETBOX_KEYBYTES)"
proof -
  obtain s_h where r: "identity_handshake sample_cc sample_pb sample_io True [5] sample_host (sample_tcp [sample_reply]) = (Inr (), sample_host, s_h)"
    "is_secured s_h" by (rule sample_handshake_run)
  from host_keyed_by_sealed_key [OF r(1) sample_plain(4)] r show ?thesis by blast
qed


end
