(* ===== verification/Service_Fanout.thy ===== *)
theory Service_Fanout
  imports Prelude
begin

text \<open>
  The services of the controlled side and their subscribers: \<open>src/server/service.rs\<close> (a service keeps the
  connections that listen to it and sends each message to all of them; a newcomer of a service that needs a
  snapshot first gets that), the subscriber \<open>ConnInner\<close> of \<open>src/server/connection.rs\<close>, and the \<open>Server\<close> of
  \<open>src/server.rs\<close>, which holds the connections and the services.

  A connection's two channels are the log of what was put into them; an entry remembers whether it came from
  a snapshot.  Every method takes the service's lock once, so a run is a sequence of method calls; a snapshot
  is a bracket of such calls, with those of other threads between them.
\<close>

section \<open>Subscribers\<close>

datatype fan_msg = FmVideoFrame nat | FmSwitchDisplay nat | FmStopService | FmOther nat

datatype origin = FromSnapshot | Live

record conn_inner =
  ci_id :: int
  ci_tx :: bool
  ci_tx_video :: bool

type_synonym delivery = "int \<times> origin \<times> fan_msg"

definition tx_by_video :: "fan_msg \<Rightarrow> bool" where
  "tx_by_video m = (case m of FmVideoFrame _ \<Rightarrow> True | FmSwitchDisplay _ \<Rightarrow> True | _ \<Rightarrow> False)"

definition conn_send :: "origin \<Rightarrow> fan_msg \<Rightarrow> conn_inner \<Rightarrow> delivery list \<Rightarrow> delivery list" where
  "conn_send org m c l =
     (if (if tx_by_video m then ci_tx_video c else ci_tx c) then l @ [(ci_id c, org, m)] else l)"

section \<open>A service\<close>

record fan_service =
  sv_name :: string
  sv_subscribes :: "(int \<times> conn_inner) list"
  sv_new_subscribes :: "(int \<times> conn_inner) list"
  sv_active :: bool
  sv_need_snapshot :: bool
  sv_options :: "(string \<times> string) list"
  sv_swap :: bool
  sv_log :: "delivery list"

definition SERVICE_OPTION_VALUE_TRUE :: string where "SERVICE_OPTION_VALUE_TRUE = ''1''"
definition SERVICE_OPTION_VALUE_FALSE :: string where "SERVICE_OPTION_VALUE_FALSE = ''0''"

definition fan_service_new :: "string \<Rightarrow> bool \<Rightarrow> fan_service" where
  "fan_service_new name need_snapshot =
     \<lparr>sv_name = name, sv_subscribes = [], sv_new_subscribes = [], sv_active = True,
      sv_need_snapshot = need_snapshot, sv_options = [], sv_swap = False, sv_log = []\<rparr>"

definition send_new_subscribes :: "fan_msg \<Rightarrow> fan_service \<Rightarrow> fan_service" where
  "send_new_subscribes m s =
     s\<lparr>sv_log := fold (conn_send FromSnapshot m) (hm_values (sv_new_subscribes s)) (sv_log s)\<rparr>"

definition swap_new_subscribes :: "fan_service \<Rightarrow> fan_service" where
  "swap_new_subscribes s =
     s\<lparr>sv_subscribes := fold (\<lambda>c m. hm_insert (ci_id c) c m) (hm_values (sv_new_subscribes s)) (sv_subscribes s),
       sv_new_subscribes := []\<rparr>"

definition has_subscribes :: "fan_service \<Rightarrow> bool" where
  "has_subscribes s = (length (sv_subscribes s) > 0 \<or> length (sv_new_subscribes s) > 0)"

definition is_subed :: "int \<Rightarrow> fan_service \<Rightarrow> bool" where
  "is_subed i s = (hm_contains (sv_subscribes s) i \<or> hm_contains (sv_new_subscribes s) i)"

definition on_subscribe :: "conn_inner \<Rightarrow> fan_service \<Rightarrow> fan_service" where
  "on_subscribe c s =
     (if hm_contains (sv_subscribes s) (ci_id c) then s
      else if sv_need_snapshot s then s\<lparr>sv_new_subscribes := hm_insert (ci_id c) c (sv_new_subscribes s)\<rparr>
      else s\<lparr>sv_subscribes := hm_insert (ci_id c) c (sv_subscribes s)\<rparr>)"

definition on_unsubscribe :: "int \<Rightarrow> fan_service \<Rightarrow> fan_service" where
  "on_unsubscribe i s =
     (if hm_contains (sv_subscribes s) i then s\<lparr>sv_subscribes := hm_remove i (sv_subscribes s)\<rparr>
      else s\<lparr>sv_new_subscribes := hm_remove i (sv_new_subscribes s)\<rparr>)"

definition service_join :: "fan_service \<Rightarrow> fan_service" where
  "service_join s = s\<lparr>sv_active := False\<rparr>"

definition service_get_option :: "string \<Rightarrow> fan_service \<Rightarrow> string option" where
  "service_get_option opt s = hm_get (sv_options s) opt"

definition service_set_option :: "string \<Rightarrow> string \<Rightarrow> fan_service \<Rightarrow> fan_service" where
  "service_set_option opt val s = s\<lparr>sv_options := hm_insert opt val (sv_options s)\<rparr>"

definition service_ok :: "fan_service \<Rightarrow> bool" where
  "service_ok s = (sv_active s \<and> has_subscribes s)"

definition is_option_true :: "string \<Rightarrow> fan_service \<Rightarrow> bool" where
  "is_option_true opt s =
     (case service_get_option opt s of Some v \<Rightarrow> v = SERVICE_OPTION_VALUE_TRUE | None \<Rightarrow> False)"

definition set_option_bool :: "string \<Rightarrow> bool \<Rightarrow> fan_service \<Rightarrow> fan_service" where
  "set_option_bool opt val s =
     service_set_option opt (if val then SERVICE_OPTION_VALUE_TRUE else SERVICE_OPTION_VALUE_FALSE) s"

text \<open>Sending: to all, to one, to all but one; a video frame also tells whom it went to.\<close>

definition send_where :: "(int \<Rightarrow> bool) \<Rightarrow> fan_msg \<Rightarrow> fan_service \<Rightarrow> fan_service" where
  "send_where P m s =
     s\<lparr>sv_log := fold (conn_send Live m) (hm_values (hm_retain (\<lambda>i _. P i) (sv_subscribes s))) (sv_log s)\<rparr>"

definition send_shared :: "fan_msg \<Rightarrow> fan_service \<Rightarrow> fan_service" where
  "send_shared m s = s\<lparr>sv_log := fold (conn_send Live m) (hm_values (sv_subscribes s)) (sv_log s)\<rparr>"

definition send_to :: "fan_msg \<Rightarrow> int \<Rightarrow> fan_service \<Rightarrow> fan_service" where
  "send_to m i s =
     (case hm_get (sv_subscribes s) i of
        Some c \<Rightarrow> s\<lparr>sv_log := conn_send Live m c (sv_log s)\<rparr>
      | None \<Rightarrow> s)"

definition send_to_others :: "fan_msg \<Rightarrow> int \<Rightarrow> fan_service \<Rightarrow> fan_service" where
  "send_to_others m i s = send_where (\<lambda>j. j \<noteq> i) m s"

definition send_without :: "fan_msg \<Rightarrow> int \<Rightarrow> fan_service \<Rightarrow> fan_service" where
  "send_without m i s =
     s\<lparr>sv_log := fold (\<lambda>c l. if i \<noteq> ci_id c then conn_send Live m c l else l) (hm_values (sv_subscribes s)) (sv_log s)\<rparr>"

definition send_video_frame_shared :: "fan_msg \<Rightarrow> fan_service \<Rightarrow> int set \<times> fan_service" where
  "send_video_frame_shared m s = (ci_id ` set (hm_values (sv_subscribes s)), send_shared m s)"

text \<open>\<open>snapshot\<close>: the callback runs, with a \<open>ServiceSwap\<close> to send with, only when somebody is new; dropping the
  \<open>ServiceSwap\<close>, after an error too, makes the newcomers subscribers.\<close>

definition snapshot_begin :: "fan_service \<Rightarrow> fan_service" where
  "snapshot_begin s =
     (if length (sv_new_subscribes s) > 0 \<and> \<not> sv_swap s then s\<lparr>sv_swap := True\<rparr> else s)"

definition snapshot_send :: "fan_msg \<Rightarrow> fan_service \<Rightarrow> fan_service" where
  "snapshot_send m s = (if sv_swap s then send_new_subscribes m s else s)"

definition snapshot_drop :: "fan_service \<Rightarrow> fan_service" where
  "snapshot_drop s = (if sv_swap s then (swap_new_subscribes s)\<lparr>sv_swap := False\<rparr> else s)"

section \<open>The service threads\<close>

definition HIBERNATE_TIMEOUT :: nat where "HIBERNATE_TIMEOUT = 30"
definition MAX_ERROR_TIMEOUT :: nat where "MAX_ERROR_TIMEOUT = 1000"

text \<open>One turn of \<open>run\<close> while the service is active: what the callback took and whether it failed; the new
  back-off and the milliseconds slept.\<close>

definition service_run_turn :: "fan_service \<Rightarrow> nat \<Rightarrow> bool \<Rightarrow> nat \<Rightarrow> nat \<times> nat" where
  "service_run_turn s took failed error_timeout =
     (if has_subscribes s \<and> failed then
        (let t = (if took > MAX_ERROR_TIMEOUT then HIBERNATE_TIMEOUT else error_timeout * 2);
             t = (if t > MAX_ERROR_TIMEOUT then MAX_ERROR_TIMEOUT else t)
         in (t, t + HIBERNATE_TIMEOUT))
      else (error_timeout, HIBERNATE_TIMEOUT))"

fun run_loop :: "(fan_service \<times> nat \<times> bool) list \<Rightarrow> nat \<Rightarrow> nat list" where
  "run_loop [] t = []"
| "run_loop ((s, took, failed) # turns) t =
     (if sv_active s then (let (t', slept) = service_run_turn s took failed t in slept # run_loop turns t') else [])"

text \<open>One turn of \<open>repeat\<close>: whether the state is set up and whether this turn sets it up or resets it, and the
  milliseconds slept.\<close>

definition repeat_turn :: "fan_service \<Rightarrow> nat \<Rightarrow> nat \<Rightarrow> bool \<Rightarrow> bool \<Rightarrow> bool \<times> bool \<times> bool \<times> nat" where
  "repeat_turn s interval took failed may_reset =
     (let (init, reset, may, err) =
        (if has_subscribes s then (\<not> may_reset, False, True, if failed then MAX_ERROR_TIMEOUT else 0)
         else if may_reset then (False, True, False, 0)
         else (False, False, False, 0));
          elapsed_ms = took + err
      in (may, init, reset, err + (if elapsed_ms < interval then interval - elapsed_ms else 0)))"

section \<open>The server\<close>

datatype video_source = Monitor | Camera

definition service_name_prefix :: "video_source \<Rightarrow> string" where
  "service_name_prefix v = (case v of Monitor \<Rightarrow> ''monitor'' | Camera \<Rightarrow> ''camera'')"

definition get_service_name :: "video_source \<Rightarrow> nat \<Rightarrow> string" where
  "get_service_name v idx = service_name_prefix v @ show_nat idx"

definition PRIMARY_CAMERA_IDX :: nat where "PRIMARY_CAMERA_IDX = 0"

record server =
  sr_connections :: "(int \<times> conn_inner) list"
  sr_services :: "(string \<times> fan_service) list"
  sr_id_count :: i32

definition name_starts_with :: "string \<Rightarrow> string \<Rightarrow> bool" where
  "name_starts_with pre s = (take (length pre) s = pre)"

definition is_video_service_name :: "string \<Rightarrow> bool" where
  "is_video_service_name name =
     (name_starts_with (service_name_prefix Monitor) name \<or> name_starts_with (service_name_prefix Camera) name)"

definition server_contains :: "string \<Rightarrow> server \<Rightarrow> bool" where
  "server_contains name sr = hm_contains (sr_services sr) name"

definition add_service :: "fan_service \<Rightarrow> server \<Rightarrow> server" where
  "add_service s sr = sr\<lparr>sr_services := hm_insert (sv_name s) s (sr_services sr)\<rparr>"

text \<open>\<open>new_service\<close> is the service the video module makes for a source and an index.\<close>

definition try_add_primary_camera_service :: "bool \<Rightarrow> (video_source \<Rightarrow> nat \<Rightarrow> fan_service) \<Rightarrow> server \<Rightarrow> server" where
  "try_add_primary_camera_service camera_exists new_service sr =
     (if \<not> camera_exists then sr
      else if \<not> server_contains (get_service_name Camera PRIMARY_CAMERA_IDX) sr
      then add_service (new_service Camera PRIMARY_CAMERA_IDX) sr
      else sr)"

definition try_add_monitor_service :: "nat \<Rightarrow> (video_source \<Rightarrow> nat \<Rightarrow> fan_service) \<Rightarrow> server \<Rightarrow> server" where
  "try_add_monitor_service display_idx new_service sr =
     (if \<not> server_contains (get_service_name Monitor display_idx) sr
      then add_service (new_service Monitor display_idx) sr
      else sr)"

definition map_services :: "(string \<Rightarrow> fan_service \<Rightarrow> fan_service) \<Rightarrow> server \<Rightarrow> server" where
  "map_services f sr = sr\<lparr>sr_services := map (\<lambda>(n, s). (n, f n s)) (sr_services sr)\<rparr>"

definition add_camera_connection :: "bool \<Rightarrow> conn_inner \<Rightarrow> server \<Rightarrow> server" where
  "add_camera_connection camera_exists c sr =
     (let sr1 = (if camera_exists
                 then map_services (\<lambda>n s. if n = get_service_name Camera PRIMARY_CAMERA_IDX then on_subscribe c s else s) sr
                 else sr)
      in sr1\<lparr>sr_connections := hm_insert (ci_id c) c (sr_connections sr1)\<rparr>)"

definition add_monitor_connection :: "conn_inner \<Rightarrow> string list \<Rightarrow> nat \<Rightarrow> server \<Rightarrow> server" where
  "add_monitor_connection c noperms display_idx sr =
     (let sr1 = map_services (\<lambda>_ s.
            if is_video_service_name (sv_name s) \<and> sv_name s \<noteq> get_service_name Monitor display_idx then s
            else if sv_name s \<notin> set noperms then on_subscribe c s
            else s) sr
      in sr1\<lparr>sr_connections := hm_insert (ci_id c) c (sr_connections sr1)\<rparr>)"

definition remove_connection :: "conn_inner \<Rightarrow> server \<Rightarrow> server" where
  "remove_connection c sr =
     (let sr1 = map_services (\<lambda>_ s. on_unsubscribe (ci_id c) s) sr
      in sr1\<lparr>sr_connections := hm_remove (ci_id c) (sr_connections sr1)\<rparr>)"

text \<open>The messages that \<open>close_connections\<close> puts into the channels of the connections.\<close>

definition close_connections :: "server \<Rightarrow> delivery list" where
  "close_connections sr = fold (conn_send Live FmStopService) (hm_values (sr_connections sr)) []"

definition server_subscribe :: "string \<Rightarrow> conn_inner \<Rightarrow> bool \<Rightarrow> server \<Rightarrow> server" where
  "server_subscribe name c sub sr =
     map_services (\<lambda>n s.
       if n = name then
         (if is_subed (ci_id c) s = sub then s
          else if sub then on_subscribe c s else on_unsubscribe (ci_id c) s)
       else s) sr"

definition get_new_id :: "server \<Rightarrow> i32 \<times> server" where
  "get_new_id sr = (sr_id_count sr + 1, sr\<lparr>sr_id_count := sr_id_count sr + 1\<rparr>)"

definition set_video_service_opt :: "(video_source \<times> nat) option \<Rightarrow> string \<Rightarrow> string \<Rightarrow> server \<Rightarrow> server" where
  "set_video_service_opt display opt val sr =
     map_services (\<lambda>n s.
       if (case display of Some (v, d) \<Rightarrow> n \<noteq> get_service_name v d | None \<Rightarrow> False) then s
       else if is_video_service_name n then service_set_option opt val s
       else s) sr"

definition get_subbed_displays_count :: "int \<Rightarrow> server \<Rightarrow> nat" where
  "get_subbed_displays_count i sr =
     length (filter (\<lambda>n. is_video_service_name n \<and>
       (case hm_get (sr_services sr) n of Some s \<Rightarrow> is_subed i s | None \<Rightarrow> False)) (map fst (sr_services sr)))"

definition server_capture_displays :: "conn_inner \<Rightarrow> video_source \<Rightarrow> nat list \<Rightarrow> bool \<Rightarrow> bool \<Rightarrow> server \<Rightarrow> server" where
  "server_capture_displays c source displays incl excl sr =
     fold (\<lambda>n sr.
       if is_video_service_name n then
         (if n \<in> set (map (get_service_name source) displays)
          then (if incl then server_subscribe n c True sr else sr)
          else (if excl then server_subscribe n c False sr else sr))
       else sr) (map fst (sr_services sr)) sr"

text \<open>Dropping the server joins every service.\<close>

definition drop_server :: "server \<Rightarrow> server" where
  "drop_server sr = map_services (\<lambda>_ s. service_join s) sr"

section \<open>Who gets a message\<close>

text \<open>A table of subscribers: no id twice, every entry under its own id.\<close>

definition table_ok :: "(int \<times> conn_inner) list \<Rightarrow> bool" where
  "table_ok t = (hm_wf t \<and> (\<forall>(i, c) \<in> set t. ci_id c = i))"

definition service_wf :: "fan_service \<Rightarrow> bool" where
  "service_wf s =
     (table_ok (sv_subscribes s) \<and> table_ok (sv_new_subscribes s) \<and>
      (\<forall>i. \<not> (hm_contains (sv_subscribes s) i \<and> hm_contains (sv_new_subscribes s) i)) \<and>
      (\<not> sv_need_snapshot s \<longrightarrow> sv_new_subscribes s = []))"

definition received :: "int \<Rightarrow> delivery list \<Rightarrow> (origin \<times> fan_msg) list" where
  "received i l = map snd (filter (\<lambda>d. fst d = i) l)"

lemma received_append [simp]: "received i (l @ l') = received i l @ received i l'"
  by (simp add: received_def)

lemma received_conn_send:
  "received i (conn_send org m c l) =
   received i l @ (if ci_id c = i \<and> (if tx_by_video m then ci_tx_video c else ci_tx c) then [(org, m)] else [])"
  by (simp add: conn_send_def received_def)

lemma hm_Cons: "hm_get ((j, c) # t) i = (if i = j then Some c else hm_get t i)" "hm_values ((j, c) # t) = c # hm_values t"
  "hm_values [] = []"
  by (simp_all add: hm_get_def hm_values_def)

lemma table_ok_Nil [simp]: "table_ok []"
  by (simp add: table_ok_def)

lemma table_ok_Cons: "table_ok ((i, c) # t) \<longleftrightarrow> ci_id c = i \<and> \<not> hm_contains t i \<and> table_ok t"
  by (auto simp: table_ok_def hm_wf_def hm_contains_keys)

lemma table_ok_insert: "table_ok t \<Longrightarrow> table_ok (hm_insert (ci_id c) c t)"
  using in_hm_insert by (fastforce simp: table_ok_def)

lemma table_ok_remove: "table_ok t \<Longrightarrow> table_ok (hm_remove i t)"
  using set_hm_remove_subset by (fastforce simp: table_ok_def)

lemma received_fold:
  "table_ok t \<Longrightarrow> received i (fold (conn_send org m) (hm_values t) l) =
   received i l @ (case hm_get t i of
       Some c \<Rightarrow> if (if tx_by_video m then ci_tx_video c else ci_tx c) then [(org, m)] else []
     | None \<Rightarrow> [])"
proof (induction t arbitrary: l)
  case (Cons x t)
  obtain j c where x: "x = (j, c)" by (metis surj_pair)
  with Cons.prems have j: "ci_id c = j" "hm_get t j = None" "table_ok t"
    by (auto simp: table_ok_Cons hm_contains_get)
  with x Cons.IH [OF j(3), of "conn_send org m c l"] show ?case
    by (auto simp: hm_values_def hm_get_def received_conn_send split: option.split)
qed (simp add: hm_values_def hm_get_def)

lemma table_ok_retain: "table_ok t \<Longrightarrow> table_ok (hm_retain P t)"
  by (auto simp: table_ok_def hm_retain_def hm_wf_filter)

lemma hm_get_retain_key: "hm_get (hm_retain (\<lambda>i _. P i) t) i = (if P i then hm_get t i else None)"
  by (induction t) (auto simp: hm_get_def hm_retain_def)

lemma fold_without: "fold (\<lambda>c l. if i \<noteq> ci_id c then f c l else l) cs l = fold f (filter (\<lambda>c. ci_id c \<noteq> i) cs) l"
  by (induction cs arbitrary: l) auto

lemma filter_values: "table_ok t \<Longrightarrow> filter (\<lambda>c. ci_id c \<noteq> i) (hm_values t) = hm_values (hm_retain (\<lambda>j _. j \<noteq> i) t)"
  by (induction t) (auto simp: hm_values_def hm_retain_def table_ok_Cons)

lemma send_without_where: "table_ok (sv_subscribes s) \<Longrightarrow> send_without m i s = send_where (\<lambda>j. j \<noteq> i) m s"
  by (simp add: send_without_def send_where_def fold_without filter_values)

section \<open>Runs of a service\<close>

datatype service_event =
    EvSubscribe conn_inner
  | EvUnsubscribe int
  | EvSnapshotBegin
  | EvSnapshotSend fan_msg
  | EvSnapshotDrop
  | EvSend fan_msg
  | EvSendTo fan_msg int
  | EvSendToOthers fan_msg int
  | EvSendWithout fan_msg int
  | EvSendVideoFrame fan_msg
  | EvSetOption string string
  | EvJoin

fun service_step :: "service_event \<Rightarrow> fan_service \<Rightarrow> fan_service" where
  "service_step (EvSubscribe c) s = on_subscribe c s"
| "service_step (EvUnsubscribe i) s = on_unsubscribe i s"
| "service_step EvSnapshotBegin s = snapshot_begin s"
| "service_step (EvSnapshotSend m) s = snapshot_send m s"
| "service_step EvSnapshotDrop s = snapshot_drop s"
| "service_step (EvSend m) s = send_shared m s"
| "service_step (EvSendTo m i) s = send_to m i s"
| "service_step (EvSendToOthers m i) s = send_to_others m i s"
| "service_step (EvSendWithout m i) s = send_without m i s"
| "service_step (EvSendVideoFrame m) s = snd (send_video_frame_shared m s)"
| "service_step (EvSetOption opt val) s = service_set_option opt val s"
| "service_step EvJoin s = service_join s"

definition service_run :: "service_event list \<Rightarrow> fan_service \<Rightarrow> fan_service" where
  "service_run evs s = fold service_step evs s"

lemmas service_ops = on_subscribe_def on_unsubscribe_def snapshot_begin_def snapshot_send_def snapshot_drop_def
  send_new_subscribes_def swap_new_subscribes_def send_shared_def send_to_def send_to_others_def send_where_def
  send_video_frame_shared_def service_set_option_def service_join_def

lemma swap_table:
  assumes "table_ok t" "table_ok u" "\<forall>i. \<not> (hm_contains u i \<and> hm_contains t i)"
  shows "table_ok (fold (\<lambda>c m. hm_insert (ci_id c) c m) (hm_values t) u) \<and>
    (\<forall>i. hm_get (fold (\<lambda>c m. hm_insert (ci_id c) c m) (hm_values t) u) i =
       (case hm_get t i of Some c \<Rightarrow> Some c | None \<Rightarrow> hm_get u i))"
  using assms
proof (induction t arbitrary: u)
  case (Cons x t)
  obtain j c where x: "x = (j, c)" by (metis surj_pair)
  with Cons.prems have j: "ci_id c = j" "hm_get t j = None" "table_ok t"
    by (auto simp: table_ok_Cons hm_contains_get)
  have "\<forall>i. \<not> (hm_contains (hm_insert j c u) i \<and> hm_contains t i)"
    using Cons.prems(3) j(2) x by (auto simp: hm_contains_get hm_get_insert hm_Cons split: if_splits)
  moreover have "table_ok (hm_insert j c u)" using table_ok_insert [OF Cons.prems(2), of c] j(1) by simp
  ultimately show ?case
    using Cons.IH [OF j(3), of "hm_insert j c u"] j x by (auto simp: hm_Cons hm_get_insert split: option.splits)
qed (simp add: hm_Cons hm_get_Nil)

lemma service_wf_new: "service_wf (fan_service_new name ns)"
  by (simp add: service_wf_def fan_service_new_def hm_contains_get hm_get_Nil)

lemma service_wf_subscribe: "service_wf s \<Longrightarrow> service_wf (on_subscribe c s)"
  by (auto simp: service_wf_def on_subscribe_def table_ok_insert hm_contains_get hm_get_insert hm_get_Nil split: if_splits)

lemma service_wf_unsubscribe: "service_wf s \<Longrightarrow> service_wf (on_unsubscribe i s)"
proof -
  have "hm_remove i [] = []" for i :: int by (simp add: hm_remove_def)
  then show "service_wf s \<Longrightarrow> service_wf (on_unsubscribe i s)"
    by (auto simp: service_wf_def on_unsubscribe_def table_ok_remove hm_contains_get hm_get_remove split: if_splits)
qed

lemma service_wf_drop: "service_wf s \<Longrightarrow> service_wf (snapshot_drop s)"
  using swap_table [of "sv_new_subscribes s" "sv_subscribes s"]
  by (auto simp: service_wf_def snapshot_drop_def swap_new_subscribes_def hm_contains_get hm_get_Nil)

lemma service_wf_step: "service_wf s \<Longrightarrow> service_wf (service_step ev s)"
proof (cases ev)
  case (EvSendWithout m i)
  assume "service_wf s"
  then show ?thesis using EvSendWithout by (simp add: service_wf_def send_without_where send_where_def)
qed (auto simp: service_wf_subscribe service_wf_unsubscribe service_wf_drop,
     auto simp: service_wf_def service_ops split: option.splits)

text \<open>What a step adds to a connection's channels, by where the connection is.\<close>

definition newcomer :: "conn_inner \<Rightarrow> fan_service \<Rightarrow> bool" where
  "newcomer c s = (hm_get (sv_new_subscribes s) (ci_id c) = Some c \<and> hm_get (sv_subscribes s) (ci_id c) = None)"

definition subscriber :: "conn_inner \<Rightarrow> fan_service \<Rightarrow> bool" where
  "subscriber c s = (hm_get (sv_subscribes s) (ci_id c) = Some c \<and> hm_get (sv_new_subscribes s) (ci_id c) = None)"

definition listens :: "conn_inner \<Rightarrow> bool" where
  "listens c = (ci_tx c \<and> ci_tx_video c)"

text \<open>Events that neither remove the connection nor put another one in its place.\<close>

definition keeps_conn :: "conn_inner \<Rightarrow> service_event \<Rightarrow> bool" where
  "keeps_conn c ev =
     (case ev of
        EvUnsubscribe i \<Rightarrow> i \<noteq> ci_id c
      | EvSubscribe d \<Rightarrow> ci_id d = ci_id c \<longrightarrow> d = c
      | _ \<Rightarrow> True)"

definition snapshot_of :: "service_event \<Rightarrow> fan_msg list" where
  "snapshot_of ev = (case ev of EvSnapshotSend m \<Rightarrow> [m] | _ \<Rightarrow> [])"

lemma fanout_receive:
  assumes "service_wf s"
  shows "received i (sv_log (send_where P m s)) = received i (sv_log s) @
      (case hm_get (sv_subscribes s) i of
         Some c \<Rightarrow> if P i \<and> (if tx_by_video m then ci_tx_video c else ci_tx c) then [(Live, m)] else [] | None \<Rightarrow> [])"
    "received i (sv_log (send_shared m s)) = received i (sv_log s) @
      (case hm_get (sv_subscribes s) i of
         Some c \<Rightarrow> if (if tx_by_video m then ci_tx_video c else ci_tx c) then [(Live, m)] else [] | None \<Rightarrow> [])"
    "received i (sv_log (send_new_subscribes m s)) = received i (sv_log s) @
      (case hm_get (sv_new_subscribes s) i of
         Some c \<Rightarrow> if (if tx_by_video m then ci_tx_video c else ci_tx c) then [(FromSnapshot, m)] else [] | None \<Rightarrow> [])"
  using assms
  by (simp_all add: service_wf_def send_where_def send_shared_def send_new_subscribes_def received_fold table_ok_retain
      hm_get_retain_key split: option.split)

lemma send_to_receive:
  assumes "service_wf s"
  shows "received i (sv_log (send_to m j s)) = received i (sv_log s) @
      (case hm_get (sv_subscribes s) i of
         Some c \<Rightarrow> if i = j \<and> (if tx_by_video m then ci_tx_video c else ci_tx c) then [(Live, m)] else [] | None \<Rightarrow> [])"
proof (cases "hm_get (sv_subscribes s) j")
  case (Some c)
  then have "ci_id c = j" using assms hm_get_set [OF Some] by (auto simp: service_wf_def table_ok_def)
  with Some show ?thesis by (auto simp: send_to_def received_conn_send split: option.split)
qed (auto simp: send_to_def split: option.split)

lemma newcomer_step:
  assumes "service_wf s" "newcomer c s" "keeps_conn c ev" "listens c" "ev \<noteq> EvSnapshotDrop \<or> \<not> sv_swap s"
  shows "newcomer c (service_step ev s) \<and>
    received (ci_id c) (sv_log (service_step ev s)) = received (ci_id c) (sv_log s) @
      (if sv_swap s then map (Pair FromSnapshot) (snapshot_of ev) else []) \<and>
    sv_swap (service_step ev s) = (sv_swap s \<or> ev = EvSnapshotBegin)"
proof (cases ev)
  case (EvSubscribe d)
  have "sv_need_snapshot s" using assms(1,2) by (auto simp: service_wf_def newcomer_def hm_get_Nil)
  with EvSubscribe assms show ?thesis by (auto simp: newcomer_def keeps_conn_def hm_contains_get snapshot_of_def on_subscribe_def hm_get_insert)
next
  case (EvUnsubscribe i)
  with assms show ?thesis by (auto simp: newcomer_def keeps_conn_def snapshot_of_def on_unsubscribe_def hm_get_remove)
next
  case EvSnapshotBegin
  have "sv_new_subscribes s \<noteq> []" using assms(2) by (auto simp: newcomer_def hm_get_Nil)
  with EvSnapshotBegin assms(2) show ?thesis by (auto simp: newcomer_def snapshot_of_def snapshot_begin_def)
next
  case (EvSnapshotSend m)
  with assms show ?thesis
    by (auto simp: newcomer_def snapshot_of_def snapshot_send_def fanout_receive listens_def) (auto simp: send_new_subscribes_def)
next
  case EvSnapshotDrop
  with assms show ?thesis by (auto simp: newcomer_def snapshot_of_def snapshot_drop_def)
next
  case (EvSend m)
  with assms show ?thesis by (auto simp: newcomer_def snapshot_of_def fanout_receive) (auto simp: send_shared_def)
next
  case (EvSendTo m i)
  with assms show ?thesis
    by (auto simp: newcomer_def snapshot_of_def send_to_receive) (auto simp: send_to_def split: option.splits)
next
  case (EvSendToOthers m i)
  with assms show ?thesis
    by (auto simp: newcomer_def snapshot_of_def send_to_others_def fanout_receive) (auto simp: send_where_def)
next
  case (EvSendWithout m i)
  moreover have "send_without m i s = send_where (\<lambda>j. j \<noteq> i) m s" using assms(1) by (simp add: service_wf_def send_without_where)
  ultimately show ?thesis using assms
    by (auto simp: newcomer_def snapshot_of_def fanout_receive) (auto simp: send_where_def)
next
  case (EvSendVideoFrame m)
  with assms show ?thesis
    by (auto simp: newcomer_def snapshot_of_def send_video_frame_shared_def fanout_receive) (auto simp: send_shared_def)
qed (use assms in \<open>auto simp: newcomer_def snapshot_of_def service_set_option_def service_join_def\<close>)

lemma newcomer_drop:
  assumes "service_wf s" "newcomer c s" "sv_swap s"
  shows "subscriber c (snapshot_drop s) \<and> sv_log (snapshot_drop s) = sv_log s"
  using assms swap_table [of "sv_new_subscribes s" "sv_subscribes s"]
  by (simp add: service_wf_def newcomer_def subscriber_def snapshot_drop_def swap_new_subscribes_def hm_get_Nil hm_contains_get)

lemma subscriber_step:
  assumes "service_wf s" "subscriber c s" "keeps_conn c ev"
  shows "subscriber c (service_step ev s) \<and>
    (\<exists>ms. received (ci_id c) (sv_log (service_step ev s)) = received (ci_id c) (sv_log s) @ map (Pair Live) ms)"
proof -
  have none: "\<exists>ms. l = l @ map (Pair Live) ms" for l :: "(origin \<times> fan_msg) list" by (rule exI [of _ "[]"]) simp
  have one: "\<exists>ms. l @ (if P then [(Live, m)] else []) = l @ map (Pair Live) ms" for l :: "(origin \<times> fan_msg) list" and P m
    by (cases P) (auto intro: exI [of _ "[m]"])
  show ?thesis
  proof (cases ev)
    case (EvSubscribe d)
    with assms none show ?thesis
      by (auto simp: subscriber_def keeps_conn_def on_subscribe_def hm_get_insert hm_contains_get)
  next
    case (EvUnsubscribe i)
    with assms none show ?thesis by (auto simp: subscriber_def keeps_conn_def on_unsubscribe_def hm_get_remove)
  next
    case EvSnapshotDrop
    with assms none swap_table [of "sv_new_subscribes s" "sv_subscribes s"] show ?thesis
      by (auto simp: subscriber_def snapshot_drop_def swap_new_subscribes_def service_wf_def hm_get_Nil)
  next
    case (EvSnapshotSend m)
    with assms none show ?thesis
      by (auto simp: subscriber_def snapshot_send_def fanout_receive) (auto simp: send_new_subscribes_def)
  next
    case (EvSend m)
    with assms one show ?thesis by (auto simp: subscriber_def fanout_receive) (auto simp: send_shared_def)
  next
    case (EvSendTo m i)
    with assms one show ?thesis
      by (auto simp: subscriber_def send_to_receive) (auto simp: send_to_def split: option.splits)
  next
    case (EvSendToOthers m i)
    with assms one show ?thesis
      by (auto simp: subscriber_def send_to_others_def fanout_receive) (auto simp: send_where_def)
  next
    case (EvSendWithout m i)
    moreover have "send_without m i s = send_where (\<lambda>j. j \<noteq> i) m s" using assms(1) by (simp add: service_wf_def send_without_where)
    ultimately show ?thesis using assms one
      by (auto simp: subscriber_def fanout_receive) (auto simp: send_where_def)
  next
    case (EvSendVideoFrame m)
    with assms one show ?thesis
      by (auto simp: subscriber_def send_video_frame_shared_def fanout_receive) (auto simp: send_shared_def)
  qed (use assms none in \<open>auto simp: subscriber_def snapshot_begin_def service_set_option_def service_join_def\<close>)
qed

lemma service_run_Cons [simp]: "service_run (ev # evs) s = service_run evs (service_step ev s)" "service_run [] s = s"
  by (simp_all add: service_run_def)

lemma service_run_append: "service_run (evs @ evs') s = service_run evs' (service_run evs s)"
  by (simp add: service_run_def)

lemma service_wf_run: "service_wf s \<Longrightarrow> service_wf (service_run evs s)"
  by (induction evs arbitrary: s) (simp_all add: service_wf_step)

text \<open>C32. A service's tables stay well formed whatever happens to it: after any sequence of subscriptions,
  cancellations, sends, option changes, joins and snapshots of a service as it is created, both tables hold each
  connection at most once and under its own number, no connection is both waiting for a snapshot and receiving,
  and a service that takes no snapshots has nobody waiting.\<close>

theorem service_well_formed: "service_wf (service_run evs (fan_service_new name need_snapshot))"
  by (rule service_wf_run [OF service_wf_new])

lemma newcomer_run:
  assumes "service_wf s" "newcomer c s" "listens c" "list_all (keeps_conn c) evs"
    and "EvSnapshotDrop \<notin> set evs \<or> (\<not> sv_swap s \<and> EvSnapshotBegin \<notin> set evs)"
  shows "newcomer c (service_run evs s) \<and>
    (sv_swap s \<longrightarrow> sv_swap (service_run evs s) \<and>
       received (ci_id c) (sv_log (service_run evs s)) =
         received (ci_id c) (sv_log s) @ map (Pair FromSnapshot) (concat (map snapshot_of evs))) \<and>
    (\<not> sv_swap s \<and> EvSnapshotBegin \<notin> set evs \<longrightarrow> \<not> sv_swap (service_run evs s) \<and>
       received (ci_id c) (sv_log (service_run evs s)) = received (ci_id c) (sv_log s))"
  using assms
proof (induction evs arbitrary: s)
  case (Cons ev evs)
  have st: "newcomer c (service_step ev s) \<and>
      received (ci_id c) (sv_log (service_step ev s)) = received (ci_id c) (sv_log s) @
        (if sv_swap s then map (Pair FromSnapshot) (snapshot_of ev) else []) \<and>
      sv_swap (service_step ev s) = (sv_swap s \<or> ev = EvSnapshotBegin)"
    using Cons.prems by (intro newcomer_step) auto
  show ?case
    using Cons.IH [OF service_wf_step [OF Cons.prems(1), of ev]] st Cons.prems by auto
qed simp

lemma subscriber_run:
  assumes "service_wf s" "subscriber c s" "list_all (keeps_conn c) evs"
  shows "subscriber c (service_run evs s) \<and>
    (\<exists>ms. received (ci_id c) (sv_log (service_run evs s)) = received (ci_id c) (sv_log s) @ map (Pair Live) ms)"
  using assms
proof (induction evs arbitrary: s)
  case (Cons ev evs)
  from subscriber_step [OF Cons.prems(1,2), of ev] Cons.prems(3) obtain ms where
    "subscriber c (service_step ev s)"
    "received (ci_id c) (sv_log (service_step ev s)) = received (ci_id c) (sv_log s) @ map (Pair Live) ms" by auto
  moreover from this Cons.IH [OF service_wf_step [OF Cons.prems(1), of ev]] Cons.prems(3) obtain ms' where
    "subscriber c (service_run evs (service_step ev s))"
    "received (ci_id c) (sv_log (service_run evs (service_step ev s))) =
     received (ci_id c) (sv_log (service_step ev s)) @ map (Pair Live) ms'" by auto
  ultimately show ?case by (auto intro!: exI [of _ "ms @ ms'"])
qed (auto intro: exI [of _ "[]"])


text \<open>A connection that subscribes while the snapshot is being taken gets only the rest of it and is live from
  then on: the message sent before it came is lost for it.\<close>

definition conn_a :: conn_inner where "conn_a = \<lparr>ci_id = 1, ci_tx = True, ci_tx_video = True\<rparr>"
definition conn_b :: conn_inner where "conn_b = \<lparr>ci_id = 2, ci_tx = True, ci_tx_video = True\<rparr>"

lemma joined_during_snapshot:
  "received 2 (sv_log (service_run
     [EvSubscribe conn_a, EvSnapshotBegin, EvSnapshotSend (FmOther 0), EvSubscribe conn_b, EvSnapshotDrop, EvSnapshotBegin,
      EvSend (FmOther 1)] (fan_service_new ''mouse_cursor'' True))) = [(Live, FmOther 1)]"
  by code_simp


section \<open>The server's subscriptions\<close>

text \<open>Every service under its own name, once; each of them well-formed.\<close>

definition server_wf :: "server \<Rightarrow> bool" where
  "server_wf sr = (hm_wf (sr_services sr) \<and> (\<forall>(n, s) \<in> set (sr_services sr). sv_name s = n \<and> service_wf s))"

definition subed_to :: "int \<Rightarrow> string \<Rightarrow> server \<Rightarrow> bool" where
  "subed_to i n sr = (case hm_get (sr_services sr) n of Some s \<Rightarrow> is_subed i s | None \<Rightarrow> False)"

lemma hm_get_map_services: "hm_get (sr_services (map_services f sr)) n = map_option (f n) (hm_get (sr_services sr) n)"
proof -
  have "map_of (map (\<lambda>(n, s). (n, f n s)) l) n = map_option (f n) (map_of l n)" for l
    by (induction l) auto
  then show ?thesis by (simp add: map_services_def hm_get_def)
qed

lemma subed_map_services:
  "subed_to i n (map_services f sr) = (case hm_get (sr_services sr) n of Some s \<Rightarrow> is_subed i (f n s) | None \<Rightarrow> False)"
  by (simp add: subed_to_def hm_get_map_services split: option.split)

lemma server_wf_map:
  "server_wf sr \<Longrightarrow> (\<And>n s. sv_name (f n s) = sv_name s) \<Longrightarrow> (\<And>n s. service_wf s \<Longrightarrow> service_wf (f n s)) \<Longrightarrow>
   server_wf (map_services f sr)"
  by (auto simp: server_wf_def map_services_def hm_wf_def comp_def case_prod_beta)

lemma subscribed: "is_subed i (on_subscribe c s) \<longleftrightarrow> is_subed i s \<or> i = ci_id c"
  by (auto simp: is_subed_def on_subscribe_def hm_contains_get hm_get_insert)

lemma unsubscribed: "service_wf s \<Longrightarrow> is_subed i (on_unsubscribe j s) \<longleftrightarrow> is_subed i s \<and> i \<noteq> j"
proof -
  assume "service_wf s"
  then have "hm_get (sv_subscribes s) j = None \<or> hm_get (sv_new_subscribes s) j = None"
    by (auto simp: service_wf_def hm_contains_get)
  then show ?thesis by (auto simp: is_subed_def on_unsubscribe_def hm_contains_get hm_get_remove)
qed

lemma name_kept: "sv_name (on_subscribe c s) = sv_name s" "sv_name (on_unsubscribe i s) = sv_name s"
  by (simp_all add: on_subscribe_def on_unsubscribe_def)

lemma wf_lookup: "server_wf sr \<Longrightarrow> hm_get (sr_services sr) n = Some s \<Longrightarrow> sv_name s = n \<and> service_wf s"
  using hm_get_set by (fastforce simp: server_wf_def)

lemma subscribe_effect:
  assumes "server_wf sr"
  shows "subed_to i n (server_subscribe m c sub sr) =
    (if n = m \<and> i = ci_id c \<and> server_contains m sr then sub else subed_to i n sr)"
proof (cases "hm_get (sr_services sr) n")
  case (Some s)
  then have "subed_to i n sr = is_subed i s" "server_contains n sr"
    by (simp_all add: subed_to_def server_contains_def hm_contains_get)
  with wf_lookup [OF assms Some] Some show ?thesis
    by (auto simp: server_subscribe_def subed_map_services subscribed unsubscribed)
next
  case None
  then have "subed_to i n sr = False" "\<not> server_contains n sr"
    by (simp_all add: subed_to_def server_contains_def hm_contains_get)
  with None show ?thesis by (auto simp: server_subscribe_def subed_map_services)
qed

lemma server_wf_subscribe: "server_wf sr \<Longrightarrow> server_wf (server_subscribe m c sub sr)"
  unfolding server_subscribe_def
  by (rule server_wf_map) (auto simp: name_kept service_wf_subscribe service_wf_unsubscribe)

lemma contains_subscribe: "server_contains n (server_subscribe m c sub sr) = server_contains n sr"
  by (auto simp: server_contains_def hm_contains_get server_subscribe_def hm_get_map_services)

definition capture_one :: "conn_inner \<Rightarrow> string set \<Rightarrow> bool \<Rightarrow> bool \<Rightarrow> string \<Rightarrow> server \<Rightarrow> server" where
  "capture_one c ds incl excl n sr =
     (if is_video_service_name n then
        (if n \<in> ds then (if incl then server_subscribe n c True sr else sr)
         else (if excl then server_subscribe n c False sr else sr))
      else sr)"

lemma capture_one_effect:
  assumes "server_wf sr"
  shows "server_wf (capture_one c ds incl excl m sr) \<and>
    (\<forall>n. server_contains n (capture_one c ds incl excl m sr) = server_contains n sr) \<and>
    subed_to i n (capture_one c ds incl excl m sr) =
    (if n = m \<and> i = ci_id c \<and> is_video_service_name n \<and> server_contains n sr
     then (if n \<in> ds then incl \<or> subed_to i n sr else \<not> excl \<and> subed_to i n sr)
     else subed_to i n sr)"
  using assms
  by (auto simp: capture_one_def server_wf_subscribe subscribe_effect contains_subscribe)

lemma capture_fold:
  assumes "server_wf sr"
  shows "subed_to i n (fold (capture_one c ds incl excl) ms sr) =
    (if n \<in> set ms \<and> i = ci_id c \<and> is_video_service_name n \<and> server_contains n sr
     then (if n \<in> ds then incl \<or> subed_to i n sr else \<not> excl \<and> subed_to i n sr)
     else subed_to i n sr)"
  using assms
proof (induction ms arbitrary: sr)
  case (Cons m ms)
  define sr1 where "sr1 = capture_one c ds incl excl m sr"
  note one = capture_one_effect [OF Cons.prems, of c ds incl excl m i n, folded sr1_def]
  then have wf1: "server_wf sr1" and has: "server_contains n sr1 = server_contains n sr" by blast+
  have f: "fold (capture_one c ds incl excl) (m # ms) sr = fold (capture_one c ds incl excl) ms sr1"
    by (simp add: sr1_def)
  show ?case
    unfolding f Cons.IH [OF wf1] has conjunct2 [OF conjunct2 [OF one]] by (cases "n = m") simp_all
qed simp

lemma capture_displays_fold:
  "server_capture_displays c source displays incl excl sr =
   fold (capture_one c (set (map (get_service_name source) displays)) incl excl) (map fst (sr_services sr)) sr"
proof -
  have "(\<lambda>n sr. if is_video_service_name n then
         (if n \<in> set (map (get_service_name source) displays)
          then (if incl then server_subscribe n c True sr else sr)
          else (if excl then server_subscribe n c False sr else sr))
       else sr) = capture_one c (set (map (get_service_name source) displays)) incl excl"
    by (intro ext) (simp add: capture_one_def)
  then show ?thesis by (simp add: server_capture_displays_def)
qed

text \<open>A connection listens to exactly the services it was admitted to.  A new remote-control connection is
  subscribed to the video service of its display and to no other video service, and to every other service
  except those it has no permission for; choosing displays changes the video services only, adding the chosen
  ones and dropping the others as asked; a removed connection listens to nothing.  No other connection's
  subscriptions change by any of this.\<close>

theorem server_subscription_rules:
  assumes "server_wf sr" "server_contains n sr"
  shows "subed_to i n (add_monitor_connection c noperms idx sr) =
      (subed_to i n sr \<or> (i = ci_id c \<and> n \<notin> set noperms \<and> (is_video_service_name n \<longrightarrow> n = get_service_name Monitor idx))) \<and>
    subed_to i n (server_capture_displays c source displays incl excl sr) =
      (if i = ci_id c \<and> is_video_service_name n
       then (if n \<in> get_service_name source ` set displays then incl \<or> subed_to i n sr else \<not> excl \<and> subed_to i n sr)
       else subed_to i n sr) \<and>
    subed_to i n (remove_connection c sr) = (subed_to i n sr \<and> i \<noteq> ci_id c)"
proof (intro conjI)
  obtain s where s: "hm_get (sr_services sr) n = Some s" using assms(2) by (auto simp: server_contains_def hm_contains_get)
  note w = wf_lookup [OF assms(1) s]
  have keep: "subed_to i n (sr'\<lparr>sr_connections := x\<rparr>) = subed_to i n sr'" for sr' x by (simp add: subed_to_def)
  show "subed_to i n (add_monitor_connection c noperms idx sr) =
      (subed_to i n sr \<or> (i = ci_id c \<and> n \<notin> set noperms \<and> (is_video_service_name n \<longrightarrow> n = get_service_name Monitor idx)))"
    using w s by (auto simp: add_monitor_connection_def Let_def keep subed_map_services subscribed) (auto simp: subed_to_def)
  show "subed_to i n (remove_connection c sr) = (subed_to i n sr \<and> i \<noteq> ci_id c)"
    using w s by (simp add: remove_connection_def Let_def keep subed_map_services unsubscribed) (simp add: subed_to_def)
  have "n \<in> set (map fst (sr_services sr))" using hm_get_set [OF s] by force
  then show "subed_to i n (server_capture_displays c source displays incl excl sr) =
      (if i = ci_id c \<and> is_video_service_name n
       then (if n \<in> get_service_name source ` set displays then incl \<or> subed_to i n sr else \<not> excl \<and> subed_to i n sr)
       else subed_to i n sr)"
    unfolding capture_displays_fold using capture_fold [OF assms(1)] assms(2) by simp
qed

definition sample_server :: server where
  "sample_server = \<lparr>sr_connections = [],
     sr_services = [(''monitor0'', fan_service_new ''monitor0'' True), (''monitor1'', fan_service_new ''monitor1'' True),
       (''audio'', fan_service_new ''audio'' True), (''clipboard'', fan_service_new ''clipboard'' True)],
     sr_id_count = 1000\<rparr>"

theorem server_subscription_rules_witness:
  "subed_to 1 ''monitor0'' (add_monitor_connection conn_a [''clipboard''] 0 sample_server) \<and>
   \<not> subed_to 1 ''monitor1'' (add_monitor_connection conn_a [''clipboard''] 0 sample_server) \<and>
   \<not> subed_to 1 ''clipboard'' (add_monitor_connection conn_a [''clipboard''] 0 sample_server)"
proof -
  have w: "server_wf sample_server"
    using service_wf_new by (auto simp: server_wf_def sample_server_def hm_wf_def fan_service_new_def [of _ True])
      (simp_all add: fan_service_new_def [symmetric])
  have c: "server_contains ''monitor0'' sample_server" "server_contains ''monitor1'' sample_server" "server_contains ''clipboard'' sample_server"
    by (simp_all add: server_contains_def hm_contains_def sample_server_def)
  have "is_video_service_name ''monitor1''" "get_service_name Monitor 0 = ''monitor0''" "ci_id conn_a = 1"
    "\<not> subed_to 1 ''monitor1'' sample_server" "\<not> subed_to 1 ''clipboard'' sample_server"
    by code_simp+
  with server_subscription_rules [OF w c(1), of 1 conn_a "[''clipboard'']" 0]
    server_subscription_rules [OF w c(2), of 1 conn_a "[''clipboard'']" 0]
    server_subscription_rules [OF w c(3), of 1 conn_a "[''clipboard'']" 0] show ?thesis by simp
qed

text \<open>The back-off of a failing service stays between the two bounds, and a failure after a long quiet run starts
  it anew.\<close>

lemma run_turn_bounds:
  assumes "HIBERNATE_TIMEOUT \<le> t" "t \<le> MAX_ERROR_TIMEOUT" "service_run_turn s took failed t = (t', slept)"
  shows "HIBERNATE_TIMEOUT \<le> t' \<and> t' \<le> MAX_ERROR_TIMEOUT \<and> HIBERNATE_TIMEOUT \<le> slept \<and> slept \<le> MAX_ERROR_TIMEOUT + HIBERNATE_TIMEOUT"
  using assms by (auto simp: service_run_turn_def HIBERNATE_TIMEOUT_def MAX_ERROR_TIMEOUT_def Let_def split: if_splits)

lemma run_loop_never_spins:
  assumes "HIBERNATE_TIMEOUT \<le> t" "t \<le> MAX_ERROR_TIMEOUT"
  shows "\<forall>slept \<in> set (run_loop turns t). HIBERNATE_TIMEOUT \<le> slept \<and> slept \<le> MAX_ERROR_TIMEOUT + HIBERNATE_TIMEOUT"
  using assms
proof (induction turns t rule: run_loop.induct)
  case (2 s took failed turns t)
  obtain t' slept where r: "service_run_turn s took failed t = (t', slept)" by (metis surj_pair)
  with run_turn_bounds [OF 2(2,3) r] 2(1) show ?case by auto
qed simp

end
