(* ===== verification/Log_Throttle.thy ===== *)
theory Log_Throttle
  imports Prelude
begin

text \<open>
  The throttle of a log line, \<open>libs/hbb_common/src/log_throttle.rs\<close>: at most one line per interval, which
  tells how many occurrences it stands for.  Times are milliseconds of a clock that does not go back.
\<close>

record throttle_state =
  lt_suppressed :: nat
  lt_last :: "nat option"

definition throttle_new :: throttle_state where
  "throttle_new = \<lparr>lt_suppressed = 0, lt_last = None\<rparr>"

definition due :: "nat \<Rightarrow> nat \<Rightarrow> throttle_state \<Rightarrow> nat option \<times> throttle_state" where
  "due interval now s =
     (let s1 = s\<lparr>lt_suppressed := lt_suppressed s + 1\<rparr>;
          is_due = (case lt_last s1 of None \<Rightarrow> True | Some l \<Rightarrow> now - l \<ge> interval)
      in if \<not> is_due then (None, s1)
         else (Some (lt_suppressed s1), s1\<lparr>lt_last := Some now, lt_suppressed := 0\<rparr>))"

text \<open>The macro: the line, with the count when it stands for more than one.\<close>

definition throttled_line :: "string \<Rightarrow> nat \<Rightarrow> string" where
  "throttled_line msg n = (if n > 1 then msg @ '' (x'' @ show_nat n @ '')'' else msg)"

section \<open>A site over time\<close>

fun due_all :: "nat \<Rightarrow> nat list \<Rightarrow> throttle_state \<Rightarrow> (nat \<times> nat) list \<times> throttle_state" where
  "due_all interval [] s = ([], s)"
| "due_all interval (now # ts) s =
     (let (r, s1) = due interval now s; (ls, s2) = due_all interval ts s1
      in (case r of None \<Rightarrow> ls | Some n \<Rightarrow> (now, n) # ls, s2))"

lemma due_count: "due interval now s = (r, s') \<Longrightarrow>
  (case r of None \<Rightarrow> 0 | Some n \<Rightarrow> n) + lt_suppressed s' = Suc (lt_suppressed s)"
  by (auto simp: due_def Let_def split: option.splits if_splits)

lemma due_last: "due interval now s = (r, s') \<Longrightarrow>
  (case r of None \<Rightarrow> lt_last s' = lt_last s \<and> (\<exists>l. lt_last s = Some l \<and> now < l + interval)
   | Some n \<Rightarrow> lt_last s' = Some now \<and> (\<forall>l. lt_last s = Some l \<longrightarrow> interval \<le> now - l))"
  by (auto simp: due_def Let_def split: option.splits if_splits)

lemma due_all_conserves:
  "due_all interval ts s = (ls, s') \<Longrightarrow> sum_list (map snd ls) + lt_suppressed s' = length ts + lt_suppressed s"
proof (induction ts arbitrary: s ls s')
  case (Cons now ts)
  obtain r s1 where r: "due interval now s = (r, s1)" by (metis surj_pair)
  obtain l2 s2 where l: "due_all interval ts s1 = (l2, s2)" by (metis surj_pair)
  from Cons.prems r l have "s' = s2" "ls = (case r of None \<Rightarrow> l2 | Some n \<Rightarrow> (now, n) # l2)" by auto
  with Cons.IH [OF l] due_count [OF r] show ?case by (cases r) auto
qed simp

lemma due_all_spaced:
  assumes "due_all interval ts s = (ls, s')" "sorted ts" "\<forall>l. lt_last s = Some l \<longrightarrow> (\<forall>t \<in> set ts. l \<le> t)"
  shows "sorted_wrt (\<lambda>a b. fst a + interval \<le> fst b) ls \<and>
    (\<forall>l. lt_last s = Some l \<longrightarrow> (\<forall>x \<in> set ls. l + interval \<le> fst x)) \<and> fst ` set ls \<subseteq> set ts"
  using assms
proof (induction ts arbitrary: s ls s')
  case (Cons now ts)
  obtain r s1 where r: "due interval now s = (r, s1)" by (metis surj_pair)
  obtain l2 s2 where l: "due_all interval ts s1 = (l2, s2)" by (metis surj_pair)
  from Cons.prems(1) r l have ls: "ls = (case r of None \<Rightarrow> l2 | Some n \<Rightarrow> (now, n) # l2)" by auto
  have "\<forall>l. lt_last s1 = Some l \<longrightarrow> (\<forall>t \<in> set ts. l \<le> t)"
    using due_last [OF r] Cons.prems(2,3) by (auto split: option.splits)
  with Cons.IH [OF l] Cons.prems(2) have IH: "sorted_wrt (\<lambda>a b. fst a + interval \<le> fst b) l2"
      "\<forall>l. lt_last s1 = Some l \<longrightarrow> (\<forall>x \<in> set l2. l + interval \<le> fst x)" "fst ` set l2 \<subseteq> set ts" by auto
  show ?case
  proof (cases r)
    case None
    with due_last [OF r] IH ls show ?thesis by auto
  next
    case (Some n)
    with due_last [OF r] have s1: "lt_last s1 = Some now" "\<forall>l. lt_last s = Some l \<longrightarrow> interval \<le> now - l" by auto
    with Some IH ls Cons.prems(3) show ?thesis by fastforce
  qed
qed simp

text \<open>A throttled log site writes at most one line per interval and forgets nothing: with the clock going
  forward, any two of its lines are at least the interval apart, the first occurrence is written at once, and
  the counts on its lines together with what is still held back add up to the number of occurrences.\<close>

theorem throttle_conserves:
  assumes "sorted ts" "due_all interval ts throttle_new = (ls, s')"
  shows "sorted_wrt (\<lambda>a b. fst a + interval \<le> fst b) ls \<and> sum_list (map snd ls) + lt_suppressed s' = length ts \<and>
    (\<forall>t ts'. ts = t # ts' \<longrightarrow> (\<exists>ls'. ls = (t, 1) # ls'))"
proof (intro conjI allI impI)
  show "sorted_wrt (\<lambda>a b. fst a + interval \<le> fst b) ls"
    using due_all_spaced [OF assms(2,1)] by (simp add: throttle_new_def)
  show "sum_list (map snd ls) + lt_suppressed s' = length ts"
    using due_all_conserves [OF assms(2)] by (simp add: throttle_new_def)
  fix t ts' assume "ts = t # ts'"
  then show "\<exists>ls'. ls = (t, 1) # ls'"
    using assms(2) by (auto simp: due_def throttle_new_def Let_def split: prod.splits)
qed

theorem throttle_conserves_witness:
  "due_all 60 [0, 10, 20, 70, 75] throttle_new = ([(0, 1), (70, 3)], \<lparr>lt_suppressed = 1, lt_last = Some 70\<rparr>) \<and>
   sum_list (map snd [(0::nat, 1::nat), (70, 3)]) + 1 = length [0::nat, 10, 20, 70, 75]"
proof -
  have e: "due_all 60 [0, 10, 20, 70, 75] throttle_new = ([(0, 1), (70, 3)], \<lparr>lt_suppressed = 1, lt_last = Some 70\<rparr>)"
    by (simp add: due_def throttle_new_def)
  from throttle_conserves [OF _ e] e show ?thesis by simp
qed

end
