(* ===== verification/Audio_Queue.thy ===== *)
theory Audio_Queue
  imports Prelude F32
begin

text \<open>
  The hand-off of captured audio from the callback of the sound device to the encoder thread,
  \<open>src/server/audio_service/audio_capture_queue.rs\<close>, and the state of the encoder thread,
  \<open>audio_capture_encoder.rs\<close>.  The callback must not wait: it drops the packet when it cannot have the
  lock, and the oldest queued packet when all buffers are in use.  The encoder thread counts what was lost
  and blends over the gap.

  Both sides take one lock, so a run is a sequence of their critical sections; the packet the encoder thread
  holds between taking and recycling it is part of the state, and so is the token of its parking.  The
  counters are natural numbers (they are reset with every report), the sequence number is a machine word.
\<close>

section \<open>The hand-off\<close>

record pcm_loss =
  pl_dropped :: nat
  pl_contention_dropped :: nat
  pl_oversized :: nat
  pl_recycle_failures :: nat

record pcm_stats =
  ps_loss :: pcm_loss
  ps_max_queued_packets :: nat

definition loss_default :: pcm_loss where
  "loss_default = \<lparr>pl_dropped = 0, pl_contention_dropped = 0, pl_oversized = 0, pl_recycle_failures = 0\<rparr>"

definition stats_default :: pcm_stats where
  "stats_default = \<lparr>ps_loss = loss_default, ps_max_queued_packets = 0\<rparr>"

definition loss_is_empty :: "pcm_loss \<Rightarrow> bool" where
  "loss_is_empty l = (pl_dropped l = 0 \<and> pl_oversized l = 0 \<and> pl_recycle_failures l = 0)"

definition loss_add :: "pcm_loss \<Rightarrow> pcm_loss \<Rightarrow> pcm_loss" where
  "loss_add l m =
     \<lparr>pl_dropped = pl_dropped l + pl_dropped m,
      pl_contention_dropped = pl_contention_dropped l + pl_contention_dropped m,
      pl_oversized = pl_oversized l + pl_oversized m,
      pl_recycle_failures = pl_recycle_failures l + pl_recycle_failures m\<rparr>"

definition stats_is_empty :: "pcm_stats \<Rightarrow> bool" where
  "stats_is_empty s = (loss_is_empty (ps_loss s) \<and> ps_max_queued_packets s = 0)"

definition stats_add :: "pcm_stats \<Rightarrow> pcm_stats \<Rightarrow> pcm_stats" where
  "stats_add s t =
     \<lparr>ps_loss = loss_add (ps_loss s) (ps_loss t),
      ps_max_queued_packets = max (ps_max_queued_packets s) (ps_max_queued_packets t)\<rparr>"

record handoff =
  ho_available :: "f32 list list"
  ho_available_cap :: nat
  ho_ready :: "(u64 \<times> f32 list) list"
  ho_wake_thread :: bool
  ho_token :: bool
  ho_other_dropped :: nat
  ho_contention_dropped :: nat
  ho_oversized :: nat
  ho_recycle_failures :: nat
  ho_max_queued_packets :: nat
  ho_max_samples :: nat
  ho_sequence :: u64

text \<open>\<open>new_pcm_handoff\<close>; \<open>cap\<close> is the capacity the allocator gave the vector of buffers, at least the one
  asked for.\<close>

definition new_pcm_handoff :: "nat \<Rightarrow> nat \<Rightarrow> nat \<Rightarrow> string + handoff" where
  "new_pcm_handoff cap capacity max_samples =
     (if capacity = 0 \<or> max_samples = 0
      then Inl ''Audio capture PCM handoff requires nonzero capacity and packet size''
      else Inr \<lparr>ho_available = replicate capacity [], ho_available_cap = cap, ho_ready = [],
                ho_wake_thread = False, ho_token = False, ho_other_dropped = 0, ho_contention_dropped = 0,
                ho_oversized = 0, ho_recycle_failures = 0, ho_max_queued_packets = 0,
                ho_max_samples = max_samples, ho_sequence = 0\<rparr>)"

definition set_wake_thread :: "handoff \<Rightarrow> (string + unit) \<times> handoff" where
  "set_wake_thread h =
     (if ho_wake_thread h then (Inl ''Audio capture PCM wake thread is already configured'', h)
      else (Inr (), h\<lparr>ho_wake_thread := True\<rparr>))"

definition wake :: "handoff \<Rightarrow> handoff" where
  "wake h = (if ho_wake_thread h then h\<lparr>ho_token := True\<rparr> else h)"

text \<open>\<open>available.pop()\<close> takes the last buffer; failing that, the oldest queued packet gives up its buffer.\<close>

definition take_buffer :: "handoff \<Rightarrow> f32 list option \<times> handoff" where
  "take_buffer h =
     (if ho_available h \<noteq> [] then (Some (last (ho_available h)), h\<lparr>ho_available := butlast (ho_available h)\<rparr>)
      else case ho_ready h of
             [] \<Rightarrow> (None, h)
           | (_, b) # r \<Rightarrow> (Some b, h\<lparr>ho_ready := r, ho_other_dropped := ho_other_dropped h + 1\<rparr>))"

datatype try_lock = LockOk | LockWouldBlock | LockPoisoned

definition submit :: "try_lock \<Rightarrow> f32 list \<Rightarrow> handoff \<Rightarrow> handoff" where
  "submit lk input h0 =
     (let seqno = ho_sequence h0; h = h0\<lparr>ho_sequence := ho_sequence h0 + 1\<rparr>
      in if length input > ho_max_samples h then wake (h\<lparr>ho_oversized := ho_oversized h + 1\<rparr>)
         else case lk of
           LockWouldBlock \<Rightarrow> wake (h\<lparr>ho_contention_dropped := ho_contention_dropped h + 1\<rparr>)
         | LockPoisoned \<Rightarrow> wake (h\<lparr>ho_other_dropped := ho_other_dropped h + 1\<rparr>)
         | LockOk \<Rightarrow>
             (case take_buffer h of
                (Some _, h1) \<Rightarrow>
                  (let r = ho_ready h1 @ [(seqno, input)]
                   in wake (h1\<lparr>ho_ready := r, ho_max_queued_packets := max (ho_max_queued_packets h1) (length r)\<rparr>))
              | (None, h1) \<Rightarrow> wake (h1\<lparr>ho_other_dropped := ho_other_dropped h1 + 1\<rparr>)))"

definition pop_packet :: "handoff \<Rightarrow> (u64 \<times> f32 list) option \<times> handoff" where
  "pop_packet h = (case ho_ready h of [] \<Rightarrow> (None, h) | p # r \<Rightarrow> (Some p, h\<lparr>ho_ready := r\<rparr>))"

definition recycle :: "handoff \<Rightarrow> handoff" where
  "recycle h =
     (if length (ho_available h) = ho_available_cap h
      then h\<lparr>ho_recycle_failures := ho_recycle_failures h + 1\<rparr>
      else h\<lparr>ho_available := ho_available h @ [[]]\<rparr>)"

definition queue_is_empty :: "handoff \<Rightarrow> bool" where
  "queue_is_empty h = (ho_ready h = [])"

definition take_loss :: "handoff \<Rightarrow> pcm_loss \<times> handoff" where
  "take_loss h =
     (\<lparr>pl_dropped = ho_other_dropped h + ho_contention_dropped h, pl_contention_dropped = ho_contention_dropped h,
       pl_oversized = ho_oversized h, pl_recycle_failures = ho_recycle_failures h\<rparr>,
      h\<lparr>ho_other_dropped := 0, ho_contention_dropped := 0, ho_oversized := 0, ho_recycle_failures := 0\<rparr>)"

definition take_stats :: "handoff \<Rightarrow> pcm_stats \<times> handoff" where
  "take_stats h =
     (let (l, h1) = take_loss h
      in (\<lparr>ps_loss = l, ps_max_queued_packets = ho_max_queued_packets h1\<rparr>, h1\<lparr>ho_max_queued_packets := 0\<rparr>))"

section \<open>The encoder thread\<close>

definition f32_add :: "f32 \<Rightarrow> f32 \<Rightarrow> f32" where
  "f32_add a b = round32 (a + b)"

definition f32_sub :: "f32 \<Rightarrow> f32 \<Rightarrow> f32" where
  "f32_sub a b = round32 (a - b)"

text \<open>\<open>from * (1.0 - weight) + to * weight\<close>.\<close>

definition blend :: "f32 \<Rightarrow> f32 \<Rightarrow> f32 \<Rightarrow> f32" where
  "blend from_s to_s weight = f32_add (f32_mul from_s (f32_sub 1 weight)) (f32_mul to_s weight)"

definition CAPTURE_DECLICK_MS :: nat where "CAPTURE_DECLICK_MS = 5"
definition MILLISECONDS_PER_SECOND :: nat where "MILLISECONDS_PER_SECOND = 1000"
definition MAX_ENCODE_CHANNELS :: nat where "MAX_ENCODE_CHANNELS = 2"
definition CAPTURE_STATS_LOG_INTERVAL :: nat where "CAPTURE_STATS_LOG_INTERVAL = 5000"

record encoder_state =
  es_channels :: nat
  es_expected_sequence :: u64
  es_fade_frames :: nat
  es_last_frame :: "f32 list"
  es_pending :: pcm_stats
  es_last_report :: nat
  es_reports :: "pcm_stats list"

definition encoder_new :: "nat \<Rightarrow> nat \<Rightarrow> nat \<Rightarrow> encoder_state" where
  "encoder_new now sample_rate channels =
     \<lparr>es_channels = channels, es_expected_sequence = 0,
      es_fade_frames = sample_rate * CAPTURE_DECLICK_MS div MILLISECONDS_PER_SECOND,
      es_last_frame = replicate MAX_ENCODE_CHANNELS 0, es_pending = stats_default, es_last_report = now, es_reports = []\<rparr>"

definition report :: "bool \<Rightarrow> nat \<Rightarrow> encoder_state \<Rightarrow> encoder_state" where
  "report force now e =
     (if stats_is_empty (es_pending e) then e
      else if \<not> force \<and> now - es_last_report e < CAPTURE_STATS_LOG_INTERVAL then e
      else e\<lparr>es_pending := stats_default, es_reports := es_reports e @ [es_pending e], es_last_report := now\<rparr>)"

text \<open>The loop over the frames of a packet: the \<open>index\<close>-th of the first \<open>fade_frames\<close> whole frames is blended
  from the last frame that was sent.\<close>

fun fade_packet :: "nat \<Rightarrow> nat \<Rightarrow> f32 list \<Rightarrow> nat \<Rightarrow> f32 list \<Rightarrow> f32 list" where
  "fade_packet 0 fade lst index packet = packet"
| "fade_packet (Suc c) fade lst index packet =
     (if index < fade \<and> Suc c \<le> length packet
      then map2 (\<lambda>l s. blend l s (f32_div (f32_of_nat (index + 1)) (f32_of_nat fade)))
             (take (Suc c) lst) (take (Suc c) packet) @
           fade_packet (Suc c) fade lst (Suc index) (drop (Suc c) packet)
      else packet)"

text \<open>\<open>chunks_exact(channels).next_back()\<close>.\<close>

definition last_whole_frame :: "nat \<Rightarrow> f32 list \<Rightarrow> f32 list option" where
  "last_whole_frame c packet =
     (let n = length packet div c in if n = 0 then None else Some (take c (drop ((n - 1) * c) packet)))"

definition smooth_packet :: "u64 \<Rightarrow> f32 list \<Rightarrow> encoder_state \<Rightarrow> f32 list \<times> encoder_state" where
  "smooth_packet seqno packet e =
     (let p = (if seqno \<noteq> es_expected_sequence e
               then fade_packet (es_channels e) (es_fade_frames e) (es_last_frame e) 0 packet else packet);
          e1 = e\<lparr>es_expected_sequence := seqno + 1\<rparr>
      in (p, case last_whole_frame (es_channels e) p of
               None \<Rightarrow> e1
             | Some f \<Rightarrow> e1\<lparr>es_last_frame := f @ drop (es_channels e) (es_last_frame e)\<rparr>))"

definition next_packet :: "nat \<Rightarrow> encoder_state \<Rightarrow> handoff \<Rightarrow> (u64 \<times> f32 list) option \<times> encoder_state \<times> handoff" where
  "next_packet now e h =
     (let (st, h1) = take_stats h;
          e1 = report False now (e\<lparr>es_pending := stats_add (es_pending e) st\<rparr>)
      in case pop_packet h1 of
           (None, h2) \<Rightarrow> (None, e1, h2)
         | (Some (seqno, packet), h2) \<Rightarrow>
             (let (p, e2) = smooth_packet seqno packet e1 in (Some (seqno, p), e2, h2)))"

text \<open>What the thread does between two packets: it ends, after a last report, when it was told to stop and
  nothing is queued; otherwise it parks, which a token left by the callback ends at once.\<close>

definition encoder_idle :: "bool \<Rightarrow> nat \<Rightarrow> encoder_state \<Rightarrow> handoff \<Rightarrow> bool \<times> encoder_state \<times> handoff" where
  "encoder_idle stop now e h =
     (if stop \<and> queue_is_empty h then
        (let (st, h1) = take_stats h
         in (True, report True now (e\<lparr>es_pending := stats_add (es_pending e) st\<rparr>), h1))
      else (False, e, h\<lparr>ho_token := False\<rparr>))"

section \<open>Runs\<close>

record capture_world =
  cw_handoff :: handoff
  cw_encoder :: encoder_state
  cw_held :: bool
  cw_stopped :: bool
  cw_submitted :: "f32 list list"
  cw_delivered :: "(u64 \<times> f32 list) list"

datatype capture_event =
    CaSubmit try_lock "f32 list"
  | CaNext nat
  | CaRecycle
  | CaIdle bool nat

text \<open>The encoder thread takes a packet, sends it and recycles its buffer before it takes the next.\<close>

fun capture_step :: "capture_event \<Rightarrow> capture_world \<Rightarrow> capture_world" where
  "capture_step (CaSubmit lk input) w =
     w\<lparr>cw_handoff := submit lk input (cw_handoff w), cw_submitted := cw_submitted w @ [input]\<rparr>"
| "capture_step (CaNext now) w =
     (if cw_held w \<or> cw_stopped w then w
      else case next_packet now (cw_encoder w) (cw_handoff w) of
             (None, e, h) \<Rightarrow> w\<lparr>cw_encoder := e, cw_handoff := h\<rparr>
           | (Some p, e, h) \<Rightarrow>
               w\<lparr>cw_encoder := e, cw_handoff := h, cw_held := True, cw_delivered := cw_delivered w @ [p]\<rparr>)"
| "capture_step CaRecycle w =
     (if cw_held w then w\<lparr>cw_handoff := recycle (cw_handoff w), cw_held := False\<rparr> else w)"
| "capture_step (CaIdle stop now) w =
     (if cw_held w \<or> cw_stopped w then w
      else (let (ended, e, h) = encoder_idle stop now (cw_encoder w) (cw_handoff w)
            in w\<lparr>cw_encoder := e, cw_handoff := h, cw_stopped := ended\<rparr>))"

definition capture_start :: "handoff \<Rightarrow> encoder_state \<Rightarrow> capture_world" where
  "capture_start h e =
     \<lparr>cw_handoff = h, cw_encoder = e, cw_held = False, cw_stopped = False, cw_submitted = [], cw_delivered = []\<rparr>"

text \<open>Everything counted as lost: in the hand-off, collected by the encoder thread, or already reported.\<close>

definition loss_total :: "pcm_loss \<Rightarrow> nat" where
  "loss_total l = pl_dropped l + pl_oversized l"

definition handoff_lost :: "handoff \<Rightarrow> nat" where
  "handoff_lost h = ho_other_dropped h + ho_contention_dropped h + ho_oversized h"

definition counted_lost :: "capture_world \<Rightarrow> nat" where
  "counted_lost w =
     handoff_lost (cw_handoff w) + loss_total (ps_loss (es_pending (cw_encoder w))) +
     sum_list (map (\<lambda>s. loss_total (ps_loss s)) (es_reports (cw_encoder w)))"

text \<open>The delivered packets are those submitted at \<open>is\<close>, the queued ones those at \<open>js\<close>.\<close>

definition follows :: "nat list \<Rightarrow> nat \<Rightarrow> bool" where
  "follows is k = (is ! k = (if k = 0 then 0 else Suc (is ! (k - 1))))"

definition buffers_ok :: "nat \<Rightarrow> capture_world \<Rightarrow> bool" where
  "buffers_ok C w =
     (let h = cw_handoff w
      in length (ho_available h) + length (ho_ready h) + (if cw_held w then 1 else 0) = C \<and>
         C \<le> ho_available_cap h \<and> ho_recycle_failures h = 0 \<and> 0 < C)"

definition encoder_ok :: "encoder_state \<Rightarrow> bool" where
  "encoder_ok e = (es_channels e \<in> {1, 2} \<and> length (es_last_frame e) = 2)"

definition order_ok :: "nat list \<Rightarrow> nat list \<Rightarrow> capture_world \<Rightarrow> bool" where
  "order_ok is js w =
     (sorted_wrt (<) (is @ js) \<and> (\<forall>i \<in> set (is @ js). i < length (cw_submitted w)) \<and>
      ho_sequence (cw_handoff w) = of_nat (length (cw_submitted w)) \<and>
      ho_ready (cw_handoff w) = map (\<lambda>i. (of_nat i, cw_submitted w ! i)) js \<and>
      map fst (cw_delivered w) = map of_nat is \<and>
      es_expected_sequence (cw_encoder w) = of_nat (if is = [] then 0 else Suc (last is)) \<and>
      (\<forall>k < length is. length (snd (cw_delivered w ! k)) = length (cw_submitted w ! (is ! k)) \<and>
         (follows is k \<longrightarrow> snd (cw_delivered w ! k) = cw_submitted w ! (is ! k))))"

definition loss_ok :: "capture_world \<Rightarrow> bool" where
  "loss_ok w = (length (cw_submitted w) = length (cw_delivered w) + length (ho_ready (cw_handoff w)) + counted_lost w)"

lemma loss_total_add [simp]: "loss_total (loss_add l m) = loss_total l + loss_total m"
  by (simp add: loss_total_def loss_add_def)

lemma length_fade: "length lst \<ge> c \<Longrightarrow> length (fade_packet c fade lst index packet) = length packet"
  by (induction c fade lst index packet rule: fade_packet.induct) auto

lemma report_ok:
  "encoder_ok (report f now e) = encoder_ok e" "es_expected_sequence (report f now e) = es_expected_sequence e"
  "es_channels (report f now e) = es_channels e" "es_last_frame (report f now e) = es_last_frame e"
  "loss_total (ps_loss (es_pending (report f now e))) + sum_list (map (\<lambda>s. loss_total (ps_loss s)) (es_reports (report f now e))) =
   loss_total (ps_loss (es_pending e)) + sum_list (map (\<lambda>s. loss_total (ps_loss s)) (es_reports e))"
  by (auto simp: report_def encoder_ok_def stats_default_def loss_default_def loss_total_def)

lemma take_stats_eq: "take_stats h =
  (\<lparr>ps_loss = \<lparr>pl_dropped = ho_other_dropped h + ho_contention_dropped h, pl_contention_dropped = ho_contention_dropped h,
      pl_oversized = ho_oversized h, pl_recycle_failures = ho_recycle_failures h\<rparr>, ps_max_queued_packets = ho_max_queued_packets h\<rparr>,
   h\<lparr>ho_other_dropped := 0, ho_contention_dropped := 0, ho_oversized := 0, ho_recycle_failures := 0, ho_max_queued_packets := 0\<rparr>)"
  by (simp add: take_stats_def take_loss_def)

lemma smooth_ok:
  assumes "encoder_ok e" "smooth_packet seqno packet e = (p, e')"
  shows "encoder_ok e'" "length p = length packet" "seqno = es_expected_sequence e \<Longrightarrow> p = packet"
    "es_expected_sequence e' = seqno + 1" "es_pending e' = es_pending e" "es_reports e' = es_reports e"
proof -
  have p: "p = (if seqno \<noteq> es_expected_sequence e
      then fade_packet (es_channels e) (es_fade_frames e) (es_last_frame e) 0 packet else packet)"
    using assms(2) by (simp add: smooth_packet_def Let_def)
  have "es_channels e \<le> length (es_last_frame e)" using assms(1) by (auto simp: encoder_ok_def)
  then show "length p = length packet" "seqno = es_expected_sequence e \<Longrightarrow> p = packet" using p length_fade by auto
  have "length (f @ drop (es_channels e) (es_last_frame e)) = 2" if "last_whole_frame (es_channels e) p = Some f" for f
  proof -
    have "length f = es_channels e"
    proof -
      define n where "n = length p div es_channels e"
      have "n \<noteq> 0" "f = take (es_channels e) (drop ((n - 1) * es_channels e) p)"
        using that by (auto simp: last_whole_frame_def Let_def n_def split: if_splits)
      moreover have "(n - 1) * es_channels e + es_channels e \<le> length p"
      proof -
        have "n * es_channels e \<le> length p" by (simp add: n_def)
        with \<open>n \<noteq> 0\<close> show ?thesis by (cases n) simp_all
      qed
      ultimately show ?thesis by simp
    qed
    with assms(1) show ?thesis by (auto simp: encoder_ok_def)
  qed
  then show "encoder_ok e'" "es_expected_sequence e' = seqno + 1" "es_pending e' = es_pending e" "es_reports e' = es_reports e"
    using assms by (auto simp: smooth_packet_def Let_def encoder_ok_def split: option.splits)
qed

text \<open>The callback's side: a buffer is found whenever the thread holds at most one of several, and what is
  given up is counted.\<close>

lemma wake_simps [simp]:
  "ho_available (wake h) = ho_available h" "ho_available_cap (wake h) = ho_available_cap h" "ho_ready (wake h) = ho_ready h"
  "ho_other_dropped (wake h) = ho_other_dropped h" "ho_contention_dropped (wake h) = ho_contention_dropped h"
  "ho_oversized (wake h) = ho_oversized h" "ho_recycle_failures (wake h) = ho_recycle_failures h"
  "ho_sequence (wake h) = ho_sequence h"
  by (simp_all add: wake_def)

lemma submit_cases:
  obtains (lost) "ho_ready (submit lk input h) = ho_ready h" "ho_available (submit lk input h) = ho_available h"
      "handoff_lost (submit lk input h) = Suc (handoff_lost h)"
  | (free) "ho_available h \<noteq> []" "ho_ready (submit lk input h) = ho_ready h @ [(ho_sequence h, input)]"
      "ho_available (submit lk input h) = butlast (ho_available h)" "handoff_lost (submit lk input h) = handoff_lost h"
  | (oldest) "ho_available h = []" "ho_ready h \<noteq> []" "ho_ready (submit lk input h) = tl (ho_ready h) @ [(ho_sequence h, input)]"
      "ho_available (submit lk input h) = []" "handoff_lost (submit lk input h) = Suc (handoff_lost h)"
proof (cases "length input > ho_max_samples h \<or> lk \<noteq> LockOk \<or> (ho_available h = [] \<and> ho_ready h = [])")
  case True
  then show thesis
    by (intro lost) (cases lk; auto simp: submit_def Let_def handoff_lost_def take_buffer_def)+
next
  case False
  then show thesis
  proof (cases "ho_available h = []")
    case True
    with False show thesis
      by (intro oldest) (auto simp: submit_def Let_def handoff_lost_def take_buffer_def neq_Nil_conv)
  next
    case has: False
    with False show thesis
      by (intro free) (auto simp: submit_def Let_def handoff_lost_def take_buffer_def)
  qed
qed

lemma submit_keeps: "ho_available_cap (submit lk input h) = ho_available_cap h"
  "ho_recycle_failures (submit lk input h) = ho_recycle_failures h" "ho_sequence (submit lk input h) = ho_sequence h + 1"
  by (auto simp: submit_def Let_def take_buffer_def split: try_lock.splits list.splits)

lemma submit_buffers: "buffers_ok C w \<Longrightarrow> buffers_ok C (capture_step (CaSubmit lk input) w)"
  by (cases rule: submit_cases [of lk input "cw_handoff w"])
    (auto simp: buffers_ok_def Let_def submit_keeps neq_Nil_conv)

lemma submit_loss:
  assumes "loss_ok w"
  shows "loss_ok (capture_step (CaSubmit lk input) w)"
  using assms
  by (cases rule: submit_cases [of lk input "cw_handoff w"])
    (auto simp: loss_ok_def counted_lost_def neq_Nil_conv)

lemma order_submitted:
  assumes "order_ok is js w" "sorted_wrt (<) js'" "set js' \<subseteq> set js"
    and "ho_ready (cw_handoff w') = map (\<lambda>i. (of_nat i, cw_submitted w' ! i)) js''"
    and "js'' = js' \<or> js'' = js' @ [length (cw_submitted w)]"
    and "cw_submitted w' = cw_submitted w @ [input]" "cw_delivered w' = cw_delivered w"
      "cw_encoder w' = cw_encoder w" "ho_sequence (cw_handoff w') = ho_sequence (cw_handoff w) + 1"
    and "sorted_wrt (<) (is @ js')"
  shows "order_ok is js'' w'"
proof -
  have old: "\<forall>i \<in> set (is @ js'). i < length (cw_submitted w)" using assms(1,3) by (auto simp: order_ok_def)
  then have sorted: "sorted_wrt (<) (is @ js'')" using assms(5,10) by (auto simp: sorted_wrt_append)
  have nth: "cw_submitted w' ! i = cw_submitted w ! i" if "i < length (cw_submitted w)" for i
    using that assms(6) by (simp add: nth_append)
  have isb: "is ! k < length (cw_submitted w)" if "k < length is" for k
    using that assms(1) nth_mem [OF that] by (simp add: order_ok_def)
  have "\<forall>i \<in> set (is @ js''). i < length (cw_submitted w')" using old assms(5,6) by (auto simp: less_Suc_eq)
  with assms sorted isb nth show ?thesis by (auto simp: order_ok_def)
qed

lemma submit_order:
  assumes "order_ok is js w"
  shows "\<exists>js'. order_ok is js' (capture_step (CaSubmit lk input) w)"
proof -
  let ?w = "capture_step (CaSubmit lk input) w"
  have b: "\<forall>i \<in> set js. i < length (cw_submitted w)" "sorted_wrt (<) (is @ js)" "sorted_wrt (<) js"
      "ho_ready (cw_handoff w) = map (\<lambda>i. (of_nat i, cw_submitted w ! i)) js"
      "ho_sequence (cw_handoff w) = of_nat (length (cw_submitted w))"
    using assms by (auto simp: order_ok_def sorted_wrt_append)
  have same: "map (\<lambda>i. (of_nat i, cw_submitted w ! i)) xs = map (\<lambda>i. (of_nat i, cw_submitted ?w ! i)) xs"
    if "set xs \<subseteq> set js" for xs :: "nat list"
    using that b(1) by (auto simp: nth_append)
  show ?thesis
  proof (cases rule: submit_cases [of lk input "cw_handoff w"])
    case lost
    have "order_ok is js ?w"
      by (rule order_submitted [OF assms b(3)]) (use lost b same [of js] in \<open>auto simp: submit_keeps\<close>)
    then show ?thesis by blast
  next
    case free
    have "order_ok is (js @ [length (cw_submitted w)]) ?w"
      by (rule order_submitted [OF assms b(3)]) (use free b same [of js] in \<open>auto simp: submit_keeps\<close>)
    then show ?thesis by blast
  next
    case oldest
    then obtain j js1 where j: "js = j # js1" using b(4) by (cases js) auto
    have "order_ok is (js1 @ [length (cw_submitted w)]) ?w"
      by (rule order_submitted [OF assms, of js1])
        (use oldest b same [of js1] j in \<open>auto simp: submit_keeps sorted_wrt_append\<close>)
    then show ?thesis by blast
  qed
qed

text \<open>The encoder thread's side.\<close>

lemma next_packet_cases:
  assumes "next_packet now e h = (r, e', h')"
  obtains (none) "r = None" "ho_ready h = []"
      "e' = report False now (e\<lparr>es_pending := stats_add (es_pending e) (fst (take_stats h))\<rparr>)" "h' = snd (take_stats h)"
  | (some) seqno packet rest p e1 where "r = Some (seqno, p)" "ho_ready h = (seqno, packet) # rest"
      "e1 = report False now (e\<lparr>es_pending := stats_add (es_pending e) (fst (take_stats h))\<rparr>)"
      "smooth_packet seqno packet e1 = (p, e')" "h' = (snd (take_stats h))\<lparr>ho_ready := rest\<rparr>"
proof (cases "ho_ready h")
  case Nil
  then show thesis using assms
    by (intro none) (auto simp: next_packet_def take_stats_eq pop_packet_def)
next
  case (Cons a rest)
  obtain seqno packet where a: "a = (seqno, packet)" by (metis surj_pair)
  obtain p e2 where p: "smooth_packet seqno packet
      (report False now (e\<lparr>es_pending := stats_add (es_pending e) (fst (take_stats h))\<rparr>)) = (p, e2)" by (metis surj_pair)
  with Cons a assms have r: "r = Some (seqno, p)" "e2 = e'" "h' = (snd (take_stats h))\<lparr>ho_ready := rest\<rparr>"
    by (auto simp: next_packet_def take_stats_eq pop_packet_def)
  show thesis using Cons a r p by (intro some [OF _ _ refl]) auto
qed

lemma collected:
  assumes "e1 = report f now (e\<lparr>es_pending := stats_add (es_pending e) (fst (take_stats h))\<rparr>)"
  shows "handoff_lost (snd (take_stats h)) + loss_total (ps_loss (es_pending e1)) +
      sum_list (map (\<lambda>s. loss_total (ps_loss s)) (es_reports e1)) =
    handoff_lost h + loss_total (ps_loss (es_pending e)) + sum_list (map (\<lambda>s. loss_total (ps_loss s)) (es_reports e))"
  using report_ok(5) [of f now "e\<lparr>es_pending := stats_add (es_pending e) (fst (take_stats h))\<rparr>"]
  by (simp add: assms take_stats_eq handoff_lost_def stats_add_def) (simp add: loss_total_def)

lemma report_keeps:
  assumes "e1 = report f now (e\<lparr>es_pending := st\<rparr>)"
  shows "encoder_ok e1 = encoder_ok e" "es_expected_sequence e1 = es_expected_sequence e"
  using report_ok(1,2) [of f now "e\<lparr>es_pending := st\<rparr>"] assms by (simp_all add: encoder_ok_def)

definition capture_ok :: "nat \<Rightarrow> capture_world \<Rightarrow> bool" where
  "capture_ok C w =
     (buffers_ok C w \<and> encoder_ok (cw_encoder w) \<and> loss_ok w \<and> (\<exists>is js. order_ok is js w))"

lemma capture_next_keeps:
  assumes ok: "capture_ok C w"
  shows "capture_ok C (capture_step (CaNext now) w)"
proof (cases "cw_held w \<or> cw_stopped w")
  case False
  obtain r e' h' where n: "next_packet now (cw_encoder w) (cw_handoff w) = (r, e', h')" by (metis prod_cases3)
  obtain "is" js where o: "order_ok is js w" using ok by (auto simp: capture_ok_def)
  from n show ?thesis
  proof (cases rule: next_packet_cases)
    case none
    note k = report_keeps [OF none(3)] and c = collected [OF none(3)]
    have w: "capture_step (CaNext now) w = w\<lparr>cw_encoder := e', cw_handoff := h'\<rparr>" using n none(1) False by simp
    have h: "ho_ready h' = ho_ready (cw_handoff w)" "ho_sequence h' = ho_sequence (cw_handoff w)"
        "ho_available h' = ho_available (cw_handoff w)" "ho_available_cap h' = ho_available_cap (cw_handoff w)" "ho_recycle_failures h' = 0"
      by (simp_all add: none(4) take_stats_eq)
    have "order_ok is js (w\<lparr>cw_encoder := e', cw_handoff := h'\<rparr>)" using o h k by (simp add: order_ok_def)
    moreover have "loss_ok (w\<lparr>cw_encoder := e', cw_handoff := h'\<rparr>)"
      using ok c h none(4) by (simp add: capture_ok_def loss_ok_def counted_lost_def)
    ultimately show ?thesis using ok h k unfolding w by (auto simp: capture_ok_def buffers_ok_def Let_def)
  next
    case (some seqno packet rest p e1)
    note k = report_keeps [OF some(3)] and c = collected [OF some(3)]
    have e1: "encoder_ok e1" using ok k by (simp add: capture_ok_def)
    note sm = smooth_ok [OF e1 some(4)]
    let ?w = "capture_step (CaNext now) w"
    have w: "?w = w\<lparr>cw_encoder := e', cw_handoff := h', cw_held := True, cw_delivered := cw_delivered w @ [(seqno, p)]\<rparr>"
      using n some(1) False by simp
    obtain j js1 where j: "js = j # js1" "seqno = of_nat j" "packet = cw_submitted w ! j"
        "rest = map (\<lambda>i. (of_nat i, cw_submitted w ! i)) js1"
      using o some(2) by (cases js) (auto simp: order_ok_def)
    have len: "length (cw_delivered w) = length is" using o by (metis order_ok_def length_map)
    have same: "p = packet" if "follows (is @ [j]) (length is)"
    proof (rule sm(3))
      show "seqno = es_expected_sequence e1"
        using that o j k(2) by (auto simp: follows_def order_ok_def nth_append last_conv_nth split: if_splits)
    qed
    have "order_ok (is @ [j]) js1 ?w"
      unfolding order_ok_def
    proof (intro conjI allI impI)
      fix i assume i: "i < length (is @ [j])"
      have f: "follows (is @ [j]) i \<longleftrightarrow> follows is i" if "i < length is"
        using that by (auto simp: follows_def nth_append)
      show "length (snd (cw_delivered ?w ! i)) = length (cw_submitted ?w ! ((is @ [j]) ! i))"
        using i o len sm(2) j w by (cases "i < length is") (auto simp: order_ok_def nth_append less_Suc_eq)
      assume "follows (is @ [j]) i"
      then show "snd (cw_delivered ?w ! i) = cw_submitted ?w ! ((is @ [j]) ! i)"
        using i o len same j w f by (cases "i < length is") (auto simp: order_ok_def nth_append less_Suc_eq)
    qed (use o j w sm(4) some(5) in \<open>auto simp: order_ok_def take_stats_eq\<close>)
    moreover have "buffers_ok C ?w" "loss_ok ?w"
      using ok w some(2,5) c sm(5,6) False
      by (auto simp: capture_ok_def buffers_ok_def loss_ok_def counted_lost_def Let_def take_stats_eq handoff_lost_def)
    ultimately show ?thesis using sm(1) w by (auto simp: capture_ok_def)
  qed
qed (use ok in simp)

lemma capture_ok_cong:
  assumes "capture_ok C w" "cw_submitted w' = cw_submitted w" "cw_delivered w' = cw_delivered w"
    and "ho_ready (cw_handoff w') = ho_ready (cw_handoff w)" "ho_sequence (cw_handoff w') = ho_sequence (cw_handoff w)"
    and "es_expected_sequence (cw_encoder w') = es_expected_sequence (cw_encoder w)"
    and "encoder_ok (cw_encoder w')" "buffers_ok C w'" "counted_lost w' = counted_lost w"
  shows "capture_ok C w'"
proof -
  obtain "is" js where "order_ok is js w" using assms(1) by (auto simp: capture_ok_def)
  then have "order_ok is js w'" using assms(2-6) by (simp add: order_ok_def)
  with assms show ?thesis by (auto simp: capture_ok_def loss_ok_def)
qed

lemma capture_recycle_keeps:
  assumes "capture_ok C w"
  shows "capture_ok C (capture_step CaRecycle w)"
proof (cases "cw_held w")
  case True
  then have ne: "length (ho_available (cw_handoff w)) \<noteq> ho_available_cap (cw_handoff w)"
    using assms by (auto simp: capture_ok_def buffers_ok_def Let_def)
  then have r: "recycle (cw_handoff w) = (cw_handoff w)\<lparr>ho_available := ho_available (cw_handoff w) @ [[]]\<rparr>"
    by (simp add: recycle_def)
  have w: "capture_step CaRecycle w = w\<lparr>cw_handoff := recycle (cw_handoff w), cw_held := False\<rparr>" using True by simp
  show ?thesis
    unfolding w r
    by (rule capture_ok_cong [OF assms])
      (use assms True in \<open>auto simp: capture_ok_def buffers_ok_def counted_lost_def handoff_lost_def Let_def\<close>)
qed (use assms in simp)

lemma capture_idle_keeps:
  assumes "capture_ok C w"
  shows "capture_ok C (capture_step (CaIdle stop now) w)"
proof (cases "cw_held w \<or> cw_stopped w")
  case False
  define e1 where "e1 = report True now ((cw_encoder w)\<lparr>es_pending := stats_add (es_pending (cw_encoder w)) (fst (take_stats (cw_handoff w)))\<rparr>)"
  note k = report_keeps [OF e1_def] and c = collected [OF e1_def]
  show ?thesis
  proof (cases "stop \<and> queue_is_empty (cw_handoff w)")
    case True
    then have w: "capture_step (CaIdle stop now) w = w\<lparr>cw_encoder := e1, cw_handoff := snd (take_stats (cw_handoff w)), cw_stopped := True\<rparr>"
      using False by (simp add: encoder_idle_def e1_def case_prod_beta Let_def)
    show ?thesis
      unfolding w
    proof (rule capture_ok_cong [OF assms])
      show "buffers_ok C (w\<lparr>cw_encoder := e1, cw_handoff := snd (take_stats (cw_handoff w)), cw_stopped := True\<rparr>)"
        using assms by (simp add: capture_ok_def buffers_ok_def Let_def take_stats_eq)
      show "counted_lost (w\<lparr>cw_encoder := e1, cw_handoff := snd (take_stats (cw_handoff w)), cw_stopped := True\<rparr>) = counted_lost w"
        using c by (simp add: counted_lost_def)
    qed (use assms k in \<open>simp_all add: take_stats_eq capture_ok_def\<close>)
  next
    case run: False
    then have w: "capture_step (CaIdle stop now) w = w\<lparr>cw_encoder := cw_encoder w, cw_handoff := (cw_handoff w)\<lparr>ho_token := False\<rparr>, cw_stopped := False\<rparr>"
      using False by (auto simp: encoder_idle_def)
    show ?thesis
      unfolding w
      by (rule capture_ok_cong [OF assms])
        (use assms in \<open>simp_all add: capture_ok_def buffers_ok_def counted_lost_def handoff_lost_def Let_def\<close>)
  qed
qed (use assms in simp)

lemma capture_ok_step: "capture_ok C w \<Longrightarrow> capture_ok C (capture_step ev w)"
proof (cases ev)
  case (CaSubmit lk input)
  assume ok: "capture_ok C w"
  then obtain "is" js where "order_ok is js w" by (auto simp: capture_ok_def)
  with submit_order [OF this, of lk input] ok submit_buffers [of C w lk input] submit_loss [of w lk input] CaSubmit show ?thesis
    by (auto simp: capture_ok_def)
qed (simp_all add: capture_next_keeps capture_recycle_keeps capture_idle_keeps del: capture_step.simps)

lemma capture_ok_start:
  assumes "new_pcm_handoff cap C ms = Inr h" "C \<le> cap" "channels \<in> {1, 2}"
  shows "capture_ok C (capture_start h (encoder_new now rate channels))"
proof -
  have "order_ok [] [] (capture_start h (encoder_new now rate channels))"
    using assms(1) by (auto simp: order_ok_def capture_start_def encoder_new_def new_pcm_handoff_def split: if_splits)
  with assms show ?thesis
    by (auto simp: capture_ok_def buffers_ok_def encoder_ok_def loss_ok_def counted_lost_def capture_start_def encoder_new_def
        new_pcm_handoff_def handoff_lost_def stats_default_def loss_default_def loss_total_def MAX_ENCODE_CHANNELS_def split: if_splits)
qed

lemma capture_ok_run: "capture_ok C w \<Longrightarrow> capture_ok C (fold capture_step evs w)"
  by (induction evs arbitrary: w) (simp_all add: capture_ok_step del: capture_step.simps)

text \<open>C36. Captured audio is delivered in order and what is lost is counted.  Whatever the interleaving of the
  sound device's callback and the encoder thread, with every kind of lock failure and packets of any size: no
  buffer is ever lost or made up and at most \<open>C\<close> packets wait; the packets given to the encoder are submitted
  packets in the order of their submission, of unchanged length, and unchanged altogether when nothing was
  dropped before them; and every submitted packet has been delivered, is waiting, or is in the loss counts
  that are collected and reported.\<close>

theorem capture_audio_conserved:
  assumes "new_pcm_handoff cap C ms = Inr h" "C \<le> cap" "channels \<in> {1, 2}"
    and "w = fold capture_step evs (capture_start h (encoder_new now rate channels))"
  shows "length (ho_available (cw_handoff w)) + length (ho_ready (cw_handoff w)) + (if cw_held w then 1 else 0) = C \<and>
    ho_recycle_failures (cw_handoff w) = 0 \<and>
    length (cw_submitted w) = length (cw_delivered w) + length (ho_ready (cw_handoff w)) + counted_lost w \<and>
    (\<exists>is. sorted_wrt (<) is \<and> (\<forall>i \<in> set is. i < length (cw_submitted w)) \<and> length is = length (cw_delivered w) \<and>
       (\<forall>k < length is. length (snd (cw_delivered w ! k)) = length (cw_submitted w ! (is ! k)) \<and>
          (follows is k \<longrightarrow> snd (cw_delivered w ! k) = cw_submitted w ! (is ! k))))"
proof -
  have ok: "capture_ok C w" unfolding assms(4) by (rule capture_ok_run [OF capture_ok_start [OF assms(1-3)]])
  then obtain "is" js where o: "order_ok is js w" by (auto simp: capture_ok_def)
  have "length is = length (cw_delivered w)" using o by (metis order_ok_def length_map)
  moreover have "sorted_wrt (<) is" using o by (simp add: order_ok_def sorted_wrt_append)
  ultimately have "\<exists>is. sorted_wrt (<) is \<and> (\<forall>i \<in> set is. i < length (cw_submitted w)) \<and> length is = length (cw_delivered w) \<and>
       (\<forall>k < length is. length (snd (cw_delivered w ! k)) = length (cw_submitted w ! (is ! k)) \<and>
          (follows is k \<longrightarrow> snd (cw_delivered w ! k) = cw_submitted w ! (is ! k)))"
    using o by (intro exI [of _ "is"]) (simp add: order_ok_def)
  with ok show ?thesis by (simp add: capture_ok_def buffers_ok_def loss_ok_def Let_def)
qed

theorem capture_audio_conserved_witness:
  "\<exists>h w. new_pcm_handoff 2 2 4 = Inr h \<and>
     w = fold capture_step [CaSubmit LockOk [1], CaSubmit LockWouldBlock [2], CaSubmit LockOk [3], CaNext 0, CaSubmit LockOk [4], CaRecycle]
       (capture_start h (encoder_new 0 48000 1)) \<and>
     length (cw_submitted w) = length (cw_delivered w) + length (ho_ready (cw_handoff w)) + counted_lost w"
proof -
  let ?evs = "[CaSubmit LockOk [1], CaSubmit LockWouldBlock [2], CaSubmit LockOk [3], CaNext 0, CaSubmit LockOk [4], CaRecycle]"
  obtain h where h: "new_pcm_handoff 2 2 4 = Inr h" by (simp add: new_pcm_handoff_def)
  from capture_audio_conserved [OF h _ _ refl, of 1 ?evs 0 48000] h show ?thesis by blast
qed

end
