(* ===== verification/Audio_Playback.thy ===== *)
theory Audio_Playback
  imports Prelude F32 Log_Throttle Audio_Queue
begin

text \<open>
  Playing received audio at the controller (the builds other than Linux): the buffer of decoded samples
  (\<open>AudioBuffer\<close> of \<open>src/client.rs\<close>), and the callback that feeds the sound device from it,
  \<open>src/client/audio_playback.rs\<close>.  The callback must not wait for the buffer; where samples are missing or
  were discarded it fades over five milliseconds instead of clicking.

  Samples are exactly rounded single-precision numbers.  The ring buffer is the list of its samples, oldest
  first.  The device's sample format is a conversion function.
\<close>

section \<open>The buffer: \<open>AudioBuffer\<close>\<close>

definition AUDIO_BUFFER_MS :: nat where "AUDIO_BUFFER_MS = 3000"

record audio_buffer =
  ab_pcm :: "f32 list"
  ab_capacity :: nat
  ab_rate :: nat
  ab_hist :: "nat list"
  ab_generation :: u64

definition audio_buffer_default :: audio_buffer where
  "audio_buffer_default =
     \<lparr>ab_pcm = [], ab_capacity = 48000 * 2 * AUDIO_BUFFER_MS div 1000, ab_rate = 48000 * 2,
      ab_hist = replicate 30 0, ab_generation = 0\<rparr>"

definition buffer_resize :: "nat \<Rightarrow> nat \<Rightarrow> audio_buffer \<Rightarrow> audio_buffer" where
  "buffer_resize sample_rate channels b =
     (let capacity = sample_rate * channels * AUDIO_BUFFER_MS div 1000
      in if capacity \<noteq> ab_capacity b
         then b\<lparr>ab_pcm := [], ab_capacity := capacity, ab_rate := sample_rate * channels\<rparr> else b)"

text \<open>The loop over the water marks: the lowest ones never reached, the one taken most of the time; the rest of
  the histogram is cleared.\<close>

definition mark_step :: "nat \<Rightarrow> nat \<times> nat \<times> nat list \<Rightarrow> nat \<times> nat \<times> nat list" where
  "mark_step i x =
     (case x of (zero, mx, h) \<Rightarrow>
        (let zero' = (if h ! i = 0 \<and> zero = i then zero + 1 else zero)
         in if h ! i > h ! mx then (zero', i, h[mx := 0]) else (zero', mx, h[i := 0])))"

text \<open>\<open>try_shrink\<close>; \<open>tms\<close> is the time of the last look, kept in a static.\<close>

definition try_shrink :: "nat \<Rightarrow> int \<Rightarrow> int \<Rightarrow> audio_buffer \<Rightarrow> int \<times> audio_buffer" where
  "try_shrink having dt tms b =
     (let i = min 29 (having * 10 div ab_rate b);
          b1 = b\<lparr>ab_hist := (ab_hist b)[i := ab_hist b ! i + 1]\<rparr>
      in if tms = 0 then (dt, b1)
         else if dt < tms + 12000 then (tms, b1)
         else
           (let (zero, mx, h) = fold mark_step [0..<30] (0, 0, ab_hist b1);
                zero = zero * 2 div 3;
                b2 = b1\<lparr>ab_hist := h[mx := 0]\<rparr>
            in if mx < 6 then (dt, b2)
               else
                 (let mx = (if mx > zero * 4 then zero * 4 else mx);
                      skip = (ab_capacity b2 * mx div 120 + 1) div 2 * 2
                  in if length (ab_pcm b2) > skip * 3 \<and> skip > 0
                     then (dt, b2\<lparr>ab_pcm := drop skip (ab_pcm b2), ab_generation := ab_generation b2 + 1\<rparr>)
                     else (dt, b2))))"

text \<open>\<open>append_pcm2\<close>: the ring buffer keeps the newest samples.\<close>

definition append_pcm2 :: "f32 list \<Rightarrow> audio_buffer \<Rightarrow> nat \<times> audio_buffer" where
  "append_pcm2 buffer b =
     (let having = length (ab_pcm b) + length buffer;
          pcm = drop (having - ab_capacity b) (ab_pcm b @ buffer);
          b1 = b\<lparr>ab_pcm := pcm\<rparr>;
          b2 = (if having > ab_capacity b then b1\<lparr>ab_generation := ab_generation b1 + 1\<rparr> else b1)
      in (length pcm, b2))"

definition append_pcm :: "f32 list \<Rightarrow> int \<Rightarrow> int \<Rightarrow> audio_buffer \<Rightarrow> int \<times> audio_buffer" where
  "append_pcm buffer dt tms b = (let (having, b1) = append_pcm2 buffer b in try_shrink having dt tms b1)"

section \<open>Fading: \<open>AudioPlaybackRecovery\<close>\<close>

definition UNDERRUN_DECLICK_MS :: nat where "UNDERRUN_DECLICK_MS = 5"

datatype playback_error = InvalidConfig nat nat | IncompleteFrame nat nat | FrameCountOverflow

record fade_state =
  fd_channels :: nat
  fd_transition_frames :: nat
  fd_transition_frame :: nat
  fd_had_input :: bool
  fd_transition_start :: "f32 list"
  fd_output_frame :: "f32 list"

definition fade_new :: "nat \<Rightarrow> nat \<Rightarrow> playback_error + fade_state" where
  "fade_new sample_rate channels =
     (if sample_rate = 0 \<or> channels = 0 then Inl (InvalidConfig sample_rate channels)
      else case checked_mul64 sample_rate UNDERRUN_DECLICK_MS of
        None \<Rightarrow> Inl FrameCountOverflow
      | Some p \<Rightarrow>
          (let n = p div MILLISECONDS_PER_SECOND
           in if n = 0 then Inl (InvalidConfig sample_rate channels)
              else Inr \<lparr>fd_channels = channels, fd_transition_frames = n, fd_transition_frame = n, fd_had_input = False,
                        fd_transition_start = replicate channels 0, fd_output_frame = replicate channels 0\<rparr>))"

definition begin_discontinuity :: "fade_state \<Rightarrow> fade_state" where
  "begin_discontinuity f = f\<lparr>fd_transition_start := fd_output_frame f, fd_transition_frame := 0\<rparr>"

definition begin_transition :: "bool \<Rightarrow> fade_state \<Rightarrow> fade_state" where
  "begin_transition has_input f =
     (if has_input = fd_had_input f then f
      else f\<lparr>fd_transition_start := fd_output_frame f, fd_transition_frame := 0, fd_had_input := has_input\<rparr>)"

definition advance_transition :: "fade_state \<Rightarrow> f32 \<times> fade_state" where
  "advance_transition f =
     (if fd_transition_frame f \<ge> fd_transition_frames f then (1, f)
      else (let n = fd_transition_frame f + 1
            in (f32_div (f32_of_nat n) (f32_of_nat (fd_transition_frames f)), f\<lparr>fd_transition_frame := n\<rparr>)))"

definition process_frame :: "f32 list option \<Rightarrow> fade_state \<Rightarrow> (playback_error + f32 list) \<times> fade_state" where
  "process_frame input f =
     (case input of
        Some frame \<Rightarrow>
          if length frame \<noteq> fd_channels f then (Inl (IncompleteFrame (length frame) (fd_channels f)), f)
          else (let (w, f1) = advance_transition (begin_transition True f);
                    out = map2 (\<lambda>s t. blend s t w) (fd_transition_start f1) frame
                in (Inr out, f1\<lparr>fd_output_frame := out\<rparr>))
      | None \<Rightarrow>
          (let (w, f1) = advance_transition (begin_transition False f);
               out = map (\<lambda>s. blend s 0 w) (fd_transition_start f1)
           in (Inr out, f1\<lparr>fd_output_frame := out\<rparr>)))"

section \<open>The device's callback: \<open>AudioPlaybackWriter\<close>\<close>

definition AUDIO_PLAYBACK_LOG_INTERVAL :: nat where "AUDIO_PLAYBACK_LOG_INTERVAL = 5000"

record playback_status =
  st_ready :: bool
  st_contentions :: nat
  st_throttle :: throttle_state
  st_poisoned :: bool

definition status_default :: playback_status where
  "status_default = \<lparr>st_ready = False, st_contentions = 0, st_throttle = throttle_new, st_poisoned = False\<rparr>"

text \<open>\<open>report_errors\<close>: the contention count that is logged, if one is, and whether the poisoning is.\<close>

definition report_errors :: "nat \<Rightarrow> playback_status \<Rightarrow> nat option \<times> bool \<times> playback_status" where
  "report_errors now s =
     (let (line, s1) =
        (if st_contentions s \<noteq> 0
         then (case due AUDIO_PLAYBACK_LOG_INTERVAL now (st_throttle s) of
                 (Some _, t) \<Rightarrow> (Some (st_contentions s), s\<lparr>st_throttle := t, st_contentions := 0\<rparr>)
               | (None, t) \<Rightarrow> (None, s\<lparr>st_throttle := t\<rparr>))
         else (None, s))
      in (line, st_poisoned s1, s1\<lparr>st_poisoned := False\<rparr>))"

record playback_writer =
  pw_observed :: u64
  pw_input_len :: nat
  pw_fade :: fade_state
  pw_status :: playback_status
  pw_failed :: bool

definition writer_new :: "nat \<Rightarrow> nat \<Rightarrow> audio_buffer \<Rightarrow> playback_error + playback_writer" where
  "writer_new sample_rate channels b =
     (case fade_new sample_rate channels of
        Inl e \<Rightarrow> Inl e
      | Inr f \<Rightarrow>
          Inr \<lparr>pw_observed = ab_generation b, pw_input_len = ab_capacity b, pw_fade = f,
               pw_status = status_default, pw_failed = False\<rparr>)"

definition read_buffer ::
  "try_lock \<Rightarrow> nat \<Rightarrow> playback_writer \<Rightarrow> audio_buffer \<Rightarrow> f32 list \<times> playback_writer \<times> audio_buffer" where
  "read_buffer lk requested w b =
     (if pw_failed w then ([], w, b)
      else case lk of
        LockWouldBlock \<Rightarrow> ([], w\<lparr>pw_status := (pw_status w)\<lparr>st_contentions := st_contentions (pw_status w) + 1\<rparr>\<rparr>, b)
      | LockPoisoned \<Rightarrow> ([], w\<lparr>pw_failed := True, pw_status := (pw_status w)\<lparr>st_ready := False, st_poisoned := True\<rparr>\<rparr>, b)
      | LockOk \<Rightarrow>
          (let c = fd_channels (pw_fade w);
               n = min (length (ab_pcm b)) requested div c * c;
               w1 = (if ab_generation b \<noteq> pw_observed w
                     then w\<lparr>pw_fade := begin_discontinuity (pw_fade w), pw_observed := ab_generation b\<rparr> else w)
           in (take n (ab_pcm b), w1, b\<lparr>ab_pcm := drop n (ab_pcm b)\<rparr>)))"

text \<open>The frames of the output, each with the input frame it is made of, if any; a last short piece of the
  output takes the beginning of a frame.\<close>

fun write_frames :: "nat \<Rightarrow> nat \<Rightarrow> f32 list \<Rightarrow> fade_state \<Rightarrow> f32 list \<times> fade_state" where
  "write_frames 0 n input f = ([], f)"
| "write_frames (Suc c) n input f =
     (if n = 0 then ([], f)
      else (let fr = (if Suc c \<le> length input then Some (take (Suc c) input) else None);
                m = min (Suc c) n;
                (r, f1) = process_frame fr f;
                out = (case r of Inr fo \<Rightarrow> take m fo | Inl _ \<Rightarrow> replicate m 0);
                (rest, f2) = write_frames (Suc c) (n - m) (drop (Suc c) input) f1
            in (out @ rest, f2)))"

definition write_output ::
  "(f32 \<Rightarrow> 'b) \<Rightarrow> try_lock \<Rightarrow> nat \<Rightarrow> playback_writer \<Rightarrow> audio_buffer \<Rightarrow> 'b list \<times> playback_writer \<times> audio_buffer" where
  "write_output conv lk out_len w b =
     (let w0 = w\<lparr>pw_status := (pw_status w)\<lparr>st_ready := \<not> pw_failed w\<rparr>\<rparr>;
          (input, w1, b1) = read_buffer lk (min out_len (pw_input_len w)) w0 b;
          (out, f) = write_frames (fd_channels (pw_fade w1)) out_len input (pw_fade w1)
      in (map conv out, w1\<lparr>pw_fade := f\<rparr>, b1))"

section \<open>Discarded samples\<close>

definition shrunk :: "audio_buffer \<Rightarrow> audio_buffer \<Rightarrow> bool" where
  "shrunk b b' =
     (ab_capacity b' = ab_capacity b \<and>
      (\<exists>k. ab_pcm b' = drop k (ab_pcm b) \<and>
         (k = 0 \<and> ab_generation b' = ab_generation b \<or>
          0 < k \<and> k < length (ab_pcm b) \<and> ab_generation b' = ab_generation b + 1)))"

lemma shrunk_hist: "shrunk b (b\<lparr>ab_hist := h\<rparr>)" "shrunk b (b\<lparr>ab_hist := h, ab_hist := h'\<rparr>)"
  by (auto simp: shrunk_def intro: exI [of _ 0])

lemma shrunk_skip:
  assumes "length (ab_pcm c) > k * 3 \<and> k > 0"
    and "ab_pcm c = ab_pcm b" "ab_generation c = ab_generation b" "ab_capacity c = ab_capacity b"
  shows "shrunk b (c\<lparr>ab_pcm := drop k (ab_pcm c), ab_generation := ab_generation c + 1\<rparr>)"
  using assms by (auto simp: shrunk_def intro!: exI [of _ k])

lemma shrunk_if: "(c \<Longrightarrow> shrunk b (snd x)) \<Longrightarrow> (\<not> c \<Longrightarrow> shrunk b (snd y)) \<Longrightarrow> shrunk b (snd (if c then x else y))"
  by simp

lemma shrunk_pair: "shrunk b c \<Longrightarrow> shrunk b (snd (t, c))"
  by simp

lemma try_shrink_drops: "shrunk b (snd (try_shrink having dt tms b))"
proof -
  obtain zero mx h where m: "fold mark_step [0..<30] (0, 0, ab_hist (b\<lparr>ab_hist := (ab_hist b)[min 29 (having * 10 div ab_rate b) :=
      ab_hist b ! min 29 (having * 10 div ab_rate b) + 1]\<rparr>)) = (zero, mx, h)" by (metis prod_cases3)
  show ?thesis
    unfolding try_shrink_def Let_def m prod.case
    by (intro shrunk_if shrunk_pair shrunk_hist shrunk_skip) (assumption | simp (no_asm))+
qed

lemma generation_moves: "(g :: u64) + 1 \<noteq> g" "(g :: u64) + 1 + 1 \<noteq> g"
proof -
  show "g + 1 \<noteq> g" by simp
  have "(2 :: u64) \<noteq> 0" by simp
  moreover have "g + 1 + 1 = g + 2" by simp
  ultimately show "g + 1 + 1 \<noteq> g" by (simp only: add_cancel_left_right simp_thms)
qed

text \<open>The playback buffer is bounded, keeps the newest samples in order, and never hides a gap.  After
  appending decoded samples the buffer holds no more than its capacity, and what it holds is what it held
  followed by the new samples, less some from the front; the generation the device's callback watches moves
  exactly when some were dropped; and the next read that gets the lock begins a fade from what was last
  played exactly then, and hands on whole frames from the front of the buffer.\<close>

theorem playback_gaps_signalled:
  assumes "append_pcm pcm dt tms b = (tms', b')" "pw_observed w = ab_generation b" "\<not> pw_failed w"
    and "read_buffer LockOk n w b' = (input, w', b'')"
  shows "length (ab_pcm b') \<le> ab_capacity b \<and>
    (\<exists>k. ab_pcm b' = drop k (ab_pcm b @ pcm) \<and> k \<le> length (ab_pcm b @ pcm) \<and>
       (k = 0 \<longrightarrow> pw_fade w' = pw_fade w) \<and> (0 < k \<longrightarrow> pw_fade w' = begin_discontinuity (pw_fade w))) \<and>
    pw_observed w' = ab_generation b'' \<and> input @ ab_pcm b'' = ab_pcm b' \<and> length input \<le> n \<and>
    fd_channels (pw_fade w) dvd length input"
proof -
  define j where "j = length (ab_pcm b) + length pcm - ab_capacity b"
  obtain h b1 where 1: "append_pcm2 pcm b = (h, b1)" by (metis surj_pair)
  then have b1: "ab_pcm b1 = drop j (ab_pcm b @ pcm)" "ab_capacity b1 = ab_capacity b"
      "ab_generation b1 = (if 0 < j then ab_generation b + 1 else ab_generation b)"
    by (auto simp: append_pcm2_def Let_def j_def split: if_splits)
  have "try_shrink h dt tms b1 = (tms', b')" using assms(1) 1 by (simp add: append_pcm_def)
  with try_shrink_drops [of b1 h dt tms] have "shrunk b1 b'" by simp
  then obtain k where k: "ab_pcm b' = drop k (ab_pcm b1)"
      "k = 0 \<and> ab_generation b' = ab_generation b1 \<or> 0 < k \<and> k < length (ab_pcm b1) \<and> ab_generation b' = ab_generation b1 + 1"
    unfolding shrunk_def by blast
  have pcm: "ab_pcm b' = drop (j + k) (ab_pcm b @ pcm)" unfolding k(1) b1(1) drop_drop by (simp only: add.commute)
  have le: "j + k \<le> length (ab_pcm b @ pcm)" using k(2) b1(1) by (auto simp: j_def)
  have gen: "ab_generation b' = ab_generation b \<longleftrightarrow> j + k = 0"
    using k(2) b1(3) generation_moves by (auto split: if_splits)
  have len: "length (ab_pcm b') \<le> ab_capacity b" unfolding pcm by (simp add: j_def)
  define c where "c = fd_channels (pw_fade w)"
  define m where "m = min (length (ab_pcm b')) n div c * c"
  have r: "input = take m (ab_pcm b')" "b'' = b'\<lparr>ab_pcm := drop m (ab_pcm b')\<rparr>"
      "w' = (if ab_generation b' \<noteq> pw_observed w
             then w\<lparr>pw_fade := begin_discontinuity (pw_fade w), pw_observed := ab_generation b'\<rparr> else w)"
    using assms(3,4) by (auto simp: read_buffer_def Let_def m_def c_def)
  have "m \<le> min (length (ab_pcm b')) n" unfolding m_def by (rule div_times_less_eq_dividend)
  then have li: "length input = m" "length input \<le> n" using r(1) by auto
  show ?thesis
  proof (intro conjI exI [of _ "j + k"])
    show "j + k = 0 \<longrightarrow> pw_fade w' = pw_fade w" "0 < j + k \<longrightarrow> pw_fade w' = begin_discontinuity (pw_fade w)"
      using gen r(3) assms(2) by simp_all
    show "pw_observed w' = ab_generation b''" "input @ ab_pcm b'' = ab_pcm b'" using r by simp_all
    show "fd_channels (pw_fade w) dvd length input" using li(1) by (simp add: m_def c_def)
  qed (fact len pcm le li(2))+
qed

section \<open>Fades end\<close>

definition fade_wf :: "fade_state \<Rightarrow> bool" where
  "fade_wf f =
     (0 < fd_channels f \<and> length (fd_transition_start f) = fd_channels f \<and> length (fd_output_frame f) = fd_channels f)"

lemma fade_new_wf: "fade_new r c = Inr f \<Longrightarrow> fade_wf f"
  by (auto simp: fade_new_def fade_wf_def Let_def split: if_splits option.splits)

lemma round32_0 [simp]: "round32 0 = 0"
  by (simp add: round32_def)

lemma blend_done: "is_f32 t \<Longrightarrow> blend s t 1 = t"
  by (simp add: blend_def f32_sub_def f32_mul_def f32_add_def is_f32_def)

definition frame_ok :: "nat \<Rightarrow> f32 list option \<Rightarrow> bool" where
  "frame_ok c x = (case x of None \<Rightarrow> True | Some fr \<Rightarrow> length fr = c \<and> list_all is_f32 fr)"

definition target :: "nat \<Rightarrow> f32 list option \<Rightarrow> f32 list" where
  "target c x = (case x of None \<Rightarrow> replicate c 0 | Some fr \<Rightarrow> fr)"

lemma process_frame_step:
  assumes "fade_wf f" "frame_ok (fd_channels f) x" "process_frame x f = (r, f')"
    and "fd_had_input f = (x \<noteq> None) \<longrightarrow> m \<le> fd_transition_frame f"
    and "fd_had_input f \<noteq> (x \<noteq> None) \<longrightarrow> m = 0"
  shows "fade_wf f' \<and> fd_channels f' = fd_channels f \<and> fd_transition_frames f' = fd_transition_frames f \<and>
    fd_had_input f' = (x \<noteq> None) \<and> min (Suc m) (fd_transition_frames f) \<le> fd_transition_frame f' \<and>
    (fd_transition_frames f \<le> m \<longrightarrow> r = Inr (target (fd_channels f) x))"
proof -
  define g where "g = begin_transition (x \<noteq> None) f"
  obtain w g1 where a: "advance_transition g = (w, g1)" by (metis surj_pair)
  have g: "fd_channels g = fd_channels f" "fd_transition_frames g = fd_transition_frames f" "fd_had_input g = (x \<noteq> None)"
      "length (fd_transition_start g) = fd_channels f" "length (fd_output_frame g) = fd_channels f" "m \<le> fd_transition_frame g"
    using assms(1,4,5) by (auto simp: g_def begin_transition_def fade_wf_def)
  have g1: "fd_channels g1 = fd_channels f" "fd_transition_frames g1 = fd_transition_frames f" "fd_had_input g1 = (x \<noteq> None)"
      "fd_transition_start g1 = fd_transition_start g" "min (Suc m) (fd_transition_frames f) \<le> fd_transition_frame g1"
      "fd_transition_frames f \<le> m \<longrightarrow> w = 1"
    using a g by (auto simp: advance_transition_def Let_def split: if_splits)
  define out where "out = map2 (\<lambda>s t. blend s t w) (fd_transition_start g1) (target (fd_channels f) x)"
  have tl: "length (target (fd_channels f) x) = fd_channels f" using assms(2) by (auto simp: target_def frame_ok_def split: option.splits)
  have p: "r = Inr out \<and> f' = g1\<lparr>fd_output_frame := out\<rparr>"
  proof (cases x)
    case None
    have "map2 (\<lambda>s t. blend s t w) ss (replicate (length ss) 0) = map (\<lambda>s. blend s 0 w) ss" for ss
      by (induction ss) auto
    from this [of "fd_transition_start g"] g(4) g1(4) have "out = map (\<lambda>s. blend s 0 w) (fd_transition_start g1)"
      by (simp add: out_def target_def None)
    with None assms(3) a show ?thesis by (auto simp: process_frame_def g_def Let_def)
  next
    case (Some fr)
    with assms(2,3) a show ?thesis by (auto simp: process_frame_def g_def frame_ok_def out_def target_def Let_def)
  qed
  have "out = target (fd_channels f) x" if "w = 1"
  proof (rule nth_equalityI)
    show "length out = length (target (fd_channels f) x)" using tl g g1 by (simp add: out_def)
    fix i assume i: "i < length out"
    then have "is_f32 (target (fd_channels f) x ! i)"
      using assms(2) tl g g1 by (auto simp: target_def frame_ok_def out_def is_f32_def list_all_length split: option.splits)
    with i that show "out ! i = target (fd_channels f) x ! i" by (simp add: out_def blend_done)
  qed
  moreover have "length out = fd_channels f" using tl g g1 by (simp add: out_def)
  ultimately show ?thesis using p g g1 assms(1) by (auto simp: fade_wf_def)
qed

fun play_frames :: "f32 list option list \<Rightarrow> fade_state \<Rightarrow> (playback_error + f32 list) list" where
  "play_frames [] f = []"
| "play_frames (x # xs) f = (let (r, f1) = process_frame x f in r # play_frames xs f1)"

lemma play_settles:
  assumes "fade_wf f" "\<forall>x \<in> set xs. frame_ok (fd_channels f) x \<and> (x \<noteq> None) = kind"
    and "fd_had_input f = kind \<longrightarrow> m \<le> fd_transition_frame f" "fd_had_input f \<noteq> kind \<longrightarrow> m = 0"
    and "k < length xs" "fd_transition_frames f \<le> m + k"
  shows "play_frames xs f ! k = Inr (target (fd_channels f) (xs ! k))"
  using assms
proof (induction xs arbitrary: f m k)
  case (Cons x xs)
  obtain r f1 where p: "process_frame x f = (r, f1)" by (metis surj_pair)
  from process_frame_step [OF Cons.prems(1) _ p, of m] Cons.prems
  have s: "fade_wf f1" "fd_channels f1 = fd_channels f" "fd_transition_frames f1 = fd_transition_frames f" "fd_had_input f1 = kind"
      "min (Suc m) (fd_transition_frames f) \<le> fd_transition_frame f1"
      "fd_transition_frames f \<le> m \<longrightarrow> r = Inr (target (fd_channels f) x)" by auto
  show ?case
  proof (cases k)
    case 0
    with s p Cons.prems(6) show ?thesis by simp
  next
    case (Suc k')
    have "play_frames xs f1 ! k' = Inr (target (fd_channels f1) (xs ! k'))"
      by (rule Cons.IH [OF s(1), of "min (Suc m) (fd_transition_frames f)"]) (use Cons.prems s Suc in auto)
    with p Suc s show ?thesis by simp
  qed
qed simp

text \<open>A fade ends.  From whatever state the callback is in, once frames come in for as long as a transition
  takes, every further frame is played exactly as received; and once none come in for that long, the output is
  silence.\<close>

theorem playback_settles:
  assumes "fade_wf f" "\<forall>x \<in> set xs. frame_ok (fd_channels f) x" "(\<forall>x \<in> set xs. x \<noteq> None) \<or> (\<forall>x \<in> set xs. x = None)"
    and "fd_transition_frames f \<le> k" "k < length xs"
  shows "play_frames xs f ! k = Inr (case xs ! k of Some fr \<Rightarrow> fr | None \<Rightarrow> replicate (fd_channels f) 0)"
proof -
  from assms(3) have "play_frames xs f ! k = Inr (target (fd_channels f) (xs ! k))"
  proof
    assume "\<forall>x \<in> set xs. x \<noteq> None"
    with assms(2) have "\<forall>x \<in> set xs. frame_ok (fd_channels f) x \<and> (x \<noteq> None) = True" by simp
    from play_settles [OF assms(1) this, of 0 k] assms(4,5) show ?thesis by simp
  next
    assume "\<forall>x \<in> set xs. x = None"
    with assms(2) have "\<forall>x \<in> set xs. frame_ok (fd_channels f) x \<and> (x \<noteq> None) = False" by simp
    from play_settles [OF assms(1) this, of 0 k] assms(4,5) show ?thesis by simp
  qed
  then show ?thesis by (simp add: target_def split: option.splits)
qed

theorem playback_settles_witness:
  "\<exists>f. fade_new 400 1 = Inr f \<and> play_frames [Some [1], Some [1], Some [0]] f ! 2 = Inr [0]"
proof -
  obtain f where f: "fade_new 400 1 = Inr f" "fd_channels f = 1" "fd_transition_frames f = 2"
    by (simp add: fade_new_def checked_mul64_def u64_max_def UNDERRUN_DECLICK_MS_def MILLISECONDS_PER_SECOND_def)
  have "is_f32 1" by (simp add: is_f32_def) code_simp
  moreover have "is_f32 0" by (simp add: is_f32_def)
  ultimately show ?thesis
    using playback_settles [OF fade_new_wf [OF f(1)], of "[Some [1], Some [1], Some [0]]" 2] f by (simp add: frame_ok_def)
qed

definition sample_writer :: playback_writer where
  "sample_writer = \<lparr>pw_observed = 0, pw_input_len = 4,
     pw_fade = \<lparr>fd_channels = 1, fd_transition_frames = 2, fd_transition_frame = 2, fd_had_input = True,
       fd_transition_start = [0], fd_output_frame = [1]\<rparr>, pw_status = status_default, pw_failed = False\<rparr>"

definition sample_audio_buffer :: audio_buffer where
  "sample_audio_buffer = \<lparr>ab_pcm = [1, 2, 3], ab_capacity = 4, ab_rate = 4, ab_hist = replicate 30 0, ab_generation = 0\<rparr>"

theorem playback_gaps_signalled_witness:
  "\<exists>tms' b' input w' b''. append_pcm [4, 5] 1 0 sample_audio_buffer = (tms', b') \<and>
     read_buffer LockOk 2 sample_writer b' = (input, w', b'') \<and> ab_pcm b' = [2, 3, 4, 5] \<and> input = [2, 3] \<and>
     input @ ab_pcm b'' = ab_pcm b'"
proof -
  obtain tms' b' where a: "append_pcm [4, 5] 1 0 sample_audio_buffer = (tms', b')" by (metis surj_pair)
  obtain input w' b'' where r: "read_buffer LockOk 2 sample_writer b' = (input, w', b'')" by (metis prod_cases3)
  have p: "ab_pcm b' = [2, 3, 4, 5]"
    using a by (auto simp: append_pcm_def append_pcm2_def try_shrink_def sample_audio_buffer_def)
  moreover have "input = [2, 3]" using r p by (auto simp: read_buffer_def sample_writer_def)
  moreover have "input @ ab_pcm b'' = ab_pcm b'"
    using playback_gaps_signalled [OF a _ _ r] by (simp add: sample_writer_def sample_audio_buffer_def)
  ultimately show ?thesis using a r by blast
qed

end
