(* ===== verification/Rendezvous_Register.thy ===== *)
theory Rendezvous_Register
  imports Prelude Common_Lib Key_Exchange
begin

text \<open>
  Registration with the rendezvous servers: the loops \<open>start_udp\<close> and \<open>start_tcp\<close> of
  \<open>src/rendezvous_mediator.rs\<close> with \<open>register_peer\<close>, \<open>register_pk\<close>, \<open>handle_uuid_mismatch\<close> and the part of
  \<open>handle_resp\<close> that concerns registration, and the configuration operations they call.

  The loops of several servers share the process-wide statics, here the record \<open>mediator\<close>; it also keeps the
  messages that were sent or could not be, with their time and server.  Instants are microseconds of one clock.  The name
  \<open>update_id\<close> draws is an argument, so is what the socket answers to a send.
\<close>

section \<open>Configuration\<close>

definition get_host_key_confirmed :: "string \<Rightarrow> host_config \<Rightarrow> bool" where
  "get_host_key_confirmed host c = (hm_get (hc_keys_confirmed c) host = Some True)"

definition set_host_key_confirmed :: "string \<Rightarrow> bool \<Rightarrow> host_config \<Rightarrow> host_config" where
  "set_host_key_confirmed host v c =
     (if get_host_key_confirmed host c = v then c
      else c\<lparr>hc_keys_confirmed := hm_insert host v (hc_keys_confirmed c)\<rparr>)"

definition set_id :: "string \<Rightarrow> host_config \<Rightarrow> host_config" where
  "set_id i c = (if i = hc_id c then c else c\<lparr>hc_id := i\<rparr>)"

text \<open>The servers' latencies, and the server of choice: the first with the least positive one.\<close>

record server_choice =
  sc_online :: "(string \<times> int) list"
  sc_rendezvous_server :: string

definition i64_max :: int where "i64_max = 2 ^ 63 - 1"

definition best_server :: "(string \<times> int) list \<Rightarrow> string \<times> int" where
  "best_server l =
     fold (\<lambda>(h, d) (host, delay). if d > 0 \<and> d < delay then (h, d) else (host, delay)) l ('''', i64_max)"

definition cfg_update_latency :: "string \<Rightarrow> int \<Rightarrow> server_choice \<Rightarrow> server_choice" where
  "cfg_update_latency host latency c =
     (let online = hm_insert host latency (sc_online c); best = fst (best_server online);
          c1 = c\<lparr>sc_online := online\<rparr>
      in if best \<noteq> [] \<and> best \<noteq> sc_rendezvous_server c1 then c1\<lparr>sc_rendezvous_server := best\<rparr> else c1)"

definition reset_online :: "server_choice \<Rightarrow> server_choice" where
  "reset_online c = c\<lparr>sc_online := []\<rparr>"

section \<open>State\<close>

definition REG_INTERVAL :: int where "REG_INTERVAL = 15000"
definition DEPLOY_RETRY_INTERVAL :: int where "DEPLOY_RETRY_INTERVAL = 30000"
definition DEFAULT_KEEP_ALIVE :: int where "DEFAULT_KEEP_ALIVE = 60000"

datatype reg_message = RegisterPk string bytes | RegisterPeer string

record reg_sent =
  rs_time :: nat
  rs_host :: string
  rs_needs_deploy :: bool
  rs_message :: reg_message
  rs_failed :: bool

record mediator =
  md_config :: host_config
  md_choice :: server_choice
  md_solving :: string
  md_should_exit :: bool
  md_sent_register_pk :: bool
  md_needs_deploy :: bool
  md_last_not_deployed :: "nat option"
  md_sent :: "reg_sent list"

record rendezvous =
  rz_host :: string
  rz_host_prefix :: string
  rz_keep_alive :: int

definition elapsed_ms :: "nat \<Rightarrow> nat \<Rightarrow> int" where
  "elapsed_ms now t = int ((now - t) div 1000)"

definition get_host_prefix :: "string \<Rightarrow> string" where
  "get_host_prefix host = (let x = hd (split_on (CHR ''.'') host) in if parse_i32_ok x then host else x)"

definition deploy_register_throttled :: "nat \<Rightarrow> mediator \<Rightarrow> bool" where
  "deploy_register_throttled now m =
     (md_needs_deploy m \<and>
      (case md_last_not_deployed m of None \<Rightarrow> False | Some t \<Rightarrow> elapsed_ms now t < DEPLOY_RETRY_INTERVAL))"

section \<open>Sending\<close>

text \<open>\<open>Sink::send\<close>: the socket's error, or the message is out.\<close>

definition sink_send :: "string option \<Rightarrow> nat \<Rightarrow> rendezvous \<Rightarrow> reg_message \<Rightarrow> mediator \<Rightarrow> (string + unit) \<times> mediator" where
  "sink_send err now rz msg m =
     (let m1 = m\<lparr>md_sent := md_sent m @
                  [\<lparr>rs_time = now, rs_host = rz_host rz, rs_needs_deploy = md_needs_deploy m, rs_message = msg,
                    rs_failed = (err \<noteq> None)\<rparr>]\<rparr>
      in case err of Some e \<Rightarrow> (Inl e, m1) | None \<Rightarrow> (Inr (), m1))"

definition register_pk :: "string option \<Rightarrow> nat \<Rightarrow> rendezvous \<Rightarrow> mediator \<Rightarrow> (string + unit) \<times> mediator" where
  "register_pk err now rz m =
     (if deploy_register_throttled now m then (Inr (), m)
      else
        (let m1 = m\<lparr>md_last_not_deployed := (if md_needs_deploy m then Some now else None)\<rparr>
         in case sink_send err now rz (RegisterPk (hc_id (md_config m1)) (hc_pk (md_config m1))) m1 of
              (Inl e, m2) \<Rightarrow> (Inl e, m2)
            | (Inr _, m2) \<Rightarrow> (Inr (), m2\<lparr>md_sent_register_pk := True\<rparr>)))"

definition handle_uuid_mismatch ::
  "string option \<Rightarrow> nat \<Rightarrow> string \<Rightarrow> rendezvous \<Rightarrow> mediator \<Rightarrow> (string + unit) \<times> mediator" where
  "handle_uuid_mismatch err now new_id rz m =
     (if md_solving m = [] \<or> md_solving m = rz_host rz
      then register_pk err now rz
             (m\<lparr>md_config := set_id new_id (set_key_confirmed False (md_config m)), md_solving := rz_host rz\<rparr>)
      else (Inr (), m))"

definition register_peer :: "string option \<Rightarrow> nat \<Rightarrow> rendezvous \<Rightarrow> mediator \<Rightarrow> (string + unit) \<times> mediator" where
  "register_peer err now rz m =
     (if \<not> (md_solving m = [] \<or> md_solving m = rz_host rz) then (Inr (), m)
      else if \<not> hc_key_confirmed (md_config m) \<or> \<not> get_host_key_confirmed (rz_host_prefix rz) (md_config m)
      then register_pk err now rz m
      else sink_send err now rz (RegisterPeer (hc_id (md_config m))) m)"

section \<open>Responses\<close>

datatype pk_result = PkOk | PkUuidMismatch | PkNotDeployed | PkUnknown

datatype reg_response =
    RegisterPeerResponse bool
  | RegisterPkResponse pk_result int
  | OtherResponse

text \<open>\<open>update_latency\<close> has run when this is called, as both arms do first.\<close>

definition to_i32 :: "int \<Rightarrow> int" where
  "to_i32 x = (x + 2 ^ 31) mod 2 ^ 32 - 2 ^ 31"

definition pk_result_effect ::
  "string option \<Rightarrow> nat \<Rightarrow> string \<Rightarrow> rendezvous \<Rightarrow> pk_result \<Rightarrow> mediator \<Rightarrow> (string + unit) \<times> mediator" where
  "pk_result_effect err now new_id rz r m =
     (case r of
        PkOk \<Rightarrow>
          (Inr (), m\<lparr>md_config := set_host_key_confirmed (rz_host_prefix rz) True (set_key_confirmed True (md_config m)),
                     md_solving := [], md_needs_deploy := False\<rparr>)
      | PkUuidMismatch \<Rightarrow> handle_uuid_mismatch err now new_id rz m
      | PkNotDeployed \<Rightarrow>
          (Inr (), m\<lparr>md_needs_deploy := True,
                     md_config := set_host_key_confirmed (rz_host_prefix rz) False (set_key_confirmed False (md_config m))\<rparr>)
      | PkUnknown \<Rightarrow> (Inr (), m))"

definition handle_resp ::
  "string option \<Rightarrow> nat \<Rightarrow> string \<Rightarrow> reg_response \<Rightarrow> rendezvous \<Rightarrow> mediator \<Rightarrow> (string + unit) \<times> rendezvous \<times> mediator" where
  "handle_resp err now new_id resp rz m =
     (case resp of
        RegisterPeerResponse request_pk \<Rightarrow>
          (if request_pk then (let (r, m1) = register_pk err now rz m in (r, rz, m1)) else (Inr (), rz, m))
      | RegisterPkResponse res keep_alive \<Rightarrow>
          (case pk_result_effect err now new_id rz res m of
             (Inl e, m1) \<Rightarrow> (Inl e, rz, m1)
           | (Inr _, m1) \<Rightarrow>
               (Inr (), if keep_alive > 0 then rz\<lparr>rz_keep_alive := to_i32 (keep_alive * 1000)\<rparr> else rz, m1))
      | OtherResponse \<Rightarrow> (Inr (), rz, m))"

section \<open>The loop over UDP: \<open>start_udp\<close>\<close>

definition MIN_REG_TIMEOUT :: int where "MIN_REG_TIMEOUT = 3000"
definition MAX_REG_TIMEOUT :: int where "MAX_REG_TIMEOUT = 30000"
definition MAX_FAILS1 :: int where "MAX_FAILS1 = 2"
definition MAX_FAILS2 :: int where "MAX_FAILS2 = 4"
definition DNS_INTERVAL :: int where "DNS_INTERVAL = 60000"

record udp_loop =
  ul_rz :: rendezvous
  ul_reg_timeout :: int
  ul_fails :: int
  ul_last_resp :: "nat option"
  ul_last_sent :: "nat option"
  ul_last_dns :: nat
  ul_old_latency :: int
  ul_ema_latency :: int

definition udp_start :: "nat \<Rightarrow> string \<Rightarrow> udp_loop" where
  "udp_start now host =
     \<lparr>ul_rz = \<lparr>rz_host = host, rz_host_prefix = get_host_prefix host, rz_keep_alive = DEFAULT_KEEP_ALIVE\<rparr>,
      ul_reg_timeout = MIN_REG_TIMEOUT, ul_fails = 0, ul_last_resp = None, ul_last_sent = None,
      ul_last_dns = now, ul_old_latency = 0, ul_ema_latency = 0\<rparr>"

definition set_latency :: "string \<Rightarrow> int \<Rightarrow> mediator \<Rightarrow> mediator" where
  "set_latency host l m = m\<lparr>md_choice := cfg_update_latency host l (md_choice m)\<rparr>"

definition udp_update_latency :: "nat \<Rightarrow> udp_loop \<Rightarrow> mediator \<Rightarrow> udp_loop \<times> mediator" where
  "udp_update_latency now l m =
     (let latency = (case ul_last_sent l of Some t \<Rightarrow> int (now - t) | None \<Rightarrow> 0);
          l1 = l\<lparr>ul_last_resp := Some now, ul_fails := 0, ul_reg_timeout := MIN_REG_TIMEOUT, ul_last_sent := None\<rparr>
      in if latency < 0 \<or> latency > 1000000 then (l1, m)
         else
           (let ema = (if ul_ema_latency l1 = 0 then latency else latency div 30 + ul_ema_latency l1 * 29 div 30);
                latency = (if ul_ema_latency l1 = 0 then latency else ema);
                l2 = l1\<lparr>ul_ema_latency := ema\<rparr>;
                n = (if latency div 5 < 3000 then 3000 else latency div 5)
            in if \<bar>latency - ul_old_latency l2\<bar> > n \<or> ul_old_latency l2 \<le> 0
               then (l2\<lparr>ul_old_latency := latency\<rparr>, set_latency (rz_host (ul_rz l2)) latency m)
               else (l2, m)))"

definition is_registration :: "reg_response \<Rightarrow> bool" where
  "is_registration r = (case r of OtherResponse \<Rightarrow> False | _ \<Rightarrow> True)"

definition udp_recv ::
  "string option \<Rightarrow> nat \<Rightarrow> string \<Rightarrow> reg_response \<Rightarrow> udp_loop \<Rightarrow> mediator \<Rightarrow> (string + unit) \<times> udp_loop \<times> mediator" where
  "udp_recv err now new_id resp l m =
     (let (l1, m1) = (if is_registration resp then udp_update_latency now l m else (l, m));
          (r, rz, m2) = handle_resp err now new_id resp (ul_rz l1) m1
      in (r, l1\<lparr>ul_rz := rz\<rparr>, m2))"

text \<open>What a timeout does to the count of failures: the server is reported slow, then unreachable, and once
  a minute its name is looked up again; \<open>rebind\<close> is the error of that.\<close>

definition udp_timed_out ::
  "string option \<Rightarrow> nat \<Rightarrow> udp_loop \<Rightarrow> mediator \<Rightarrow> (string + unit) \<times> udp_loop \<times> mediator" where
  "udp_timed_out rebind now l m =
     (let l1 = l\<lparr>ul_fails := ul_fails l + 1\<rparr>; host = rz_host (ul_rz l)
      in if ul_fails l1 \<ge> MAX_FAILS2 then
           (let m1 = set_latency host (- 1) m; l2 = l1\<lparr>ul_old_latency := 0\<rparr>
            in if elapsed_ms now (ul_last_dns l2) > DNS_INTERVAL
               then (case rebind of Some e \<Rightarrow> (Inl e, l2, m1) | None \<Rightarrow> (Inr (), l2\<lparr>ul_last_dns := now\<rparr>, m1))
               else (Inr (), l2, m1))
         else if ul_fails l1 \<ge> MAX_FAILS1 then (Inr (), l1\<lparr>ul_old_latency := 0\<rparr>, set_latency host 0 m)
         else (Inr (), l1, m))"

datatype loop_result = Continue | Break | Bail string

definition udp_tick ::
  "bool \<Rightarrow> string option \<Rightarrow> string option \<Rightarrow> nat \<Rightarrow> udp_loop \<Rightarrow> mediator \<Rightarrow> loop_result \<times> udp_loop \<times> mediator" where
  "udp_tick public_server rebind err now l m =
     (if md_should_exit m then (Break, l, m)
      else if deploy_register_throttled now m then (Continue, l, m)
      else
        (let expired = (case ul_last_resp l of Some t \<Rightarrow> elapsed_ms now t \<ge> REG_INTERVAL | None \<Rightarrow> True);
             timeout = (case ul_last_sent l of Some t \<Rightarrow> elapsed_ms now t \<ge> ul_reg_timeout l | None \<Rightarrow> False);
             l1 = (if public_server \<and> timeout \<and> ul_reg_timeout l < MAX_REG_TIMEOUT
                   then l\<lparr>ul_reg_timeout := ul_reg_timeout l + MIN_REG_TIMEOUT\<rparr> else l)
         in if timeout \<or> (ul_last_sent l1 = None \<and> expired) then
              (case (if timeout then udp_timed_out rebind now l1 m else (Inr (), l1, m)) of
                 (Inl e, l2, m1) \<Rightarrow> (Bail e, l2, m1)
               | (Inr _, l2, m1) \<Rightarrow>
                   (case register_peer err now (ul_rz l2) m1 of
                      (Inl e, m2) \<Rightarrow> (Bail e, l2, m2)
                    | (Inr _, m2) \<Rightarrow> (Continue, l2\<lparr>ul_last_sent := Some now\<rparr>, m2)))
            else (Continue, l1, m)))"

section \<open>The loop over TCP: \<open>start_tcp\<close>\<close>

record tcp_loop =
  tl_rz :: rendezvous
  tl_last_sent :: "nat option"
  tl_last_recv :: nat

definition tcp_start :: "nat \<Rightarrow> string \<Rightarrow> mediator \<Rightarrow> tcp_loop \<times> mediator" where
  "tcp_start now host m =
     (let prefix = get_host_prefix host
      in (\<lparr>tl_rz = \<lparr>rz_host = host, rz_host_prefix = prefix, rz_keep_alive = DEFAULT_KEEP_ALIVE\<rparr>,
           tl_last_sent = None, tl_last_recv = now\<rparr>,
          m\<lparr>md_config := set_host_key_confirmed prefix False (md_config m)\<rparr>))"

definition tcp_update_latency :: "nat \<Rightarrow> tcp_loop \<Rightarrow> mediator \<Rightarrow> mediator" where
  "tcp_update_latency now l m =
     set_latency (rz_host (tl_rz l)) (case tl_last_sent l of Some t \<Rightarrow> int (now - t) | None \<Rightarrow> 0) m"

definition tcp_recv ::
  "string option \<Rightarrow> nat \<Rightarrow> string \<Rightarrow> reg_response \<Rightarrow> tcp_loop \<Rightarrow> mediator \<Rightarrow> (string + unit) \<times> tcp_loop \<times> mediator" where
  "tcp_recv err now new_id resp l m =
     (let l1 = l\<lparr>tl_last_recv := now\<rparr>;
          m1 = (if is_registration resp then tcp_update_latency now l1 m else m);
          (r, rz, m2) = handle_resp err now new_id resp (tl_rz l1) m1
      in (r, l1\<lparr>tl_rz := rz\<rparr>, m2))"

text \<open>An empty message is a heartbeat, which is sent back.\<close>

definition tcp_heartbeat :: "string option \<Rightarrow> nat \<Rightarrow> tcp_loop \<Rightarrow> (string + unit) \<times> tcp_loop" where
  "tcp_heartbeat err now l = ((case err of Some e \<Rightarrow> Inl e | None \<Rightarrow> Inr ()), l\<lparr>tl_last_recv := now\<rparr>)"

definition tcp_tick :: "string option \<Rightarrow> nat \<Rightarrow> tcp_loop \<Rightarrow> mediator \<Rightarrow> loop_result \<times> tcp_loop \<times> mediator" where
  "tcp_tick err now l m =
     (if md_should_exit m then (Break, l, m)
      else if int ((now - tl_last_recv l) div 1000) > uint ((of_int (rz_keep_alive (tl_rz l)) :: u64) * 3 div 2)
      then (Bail ''Rendezvous connection is timeout'', l, m)
      else if (\<not> hc_key_confirmed (md_config m) \<or> \<not> get_host_key_confirmed (rz_host_prefix (tl_rz l)) (md_config m)) \<and>
              (case tl_last_sent l of Some t \<Rightarrow> elapsed_ms now t | None \<Rightarrow> REG_INTERVAL) \<ge> REG_INTERVAL
      then (case register_pk err now (tl_rz l) m of
              (Inl e, m1) \<Rightarrow> (Bail e, l, m1)
            | (Inr _, m1) \<Rightarrow> (Continue, l\<lparr>tl_last_sent := Some now\<rparr>, m1))
      else (Continue, l, m))"

section \<open>The server of choice\<close>

lemma best_server_fold:
  fixes l :: "(string \<times> int) list"
  assumes "fold (\<lambda>(h, d) (host, delay). if d > 0 \<and> d < delay then (h, d) else (host, delay)) l (h0, d0) = (h, d)"
  shows "d \<le> d0 \<and> (\<forall>(h', d') \<in> set l. 0 < d' \<longrightarrow> d \<le> d') \<and> ((h, d) = (h0, d0) \<or> (h, d) \<in> set l \<and> 0 < d)"
  using assms
proof (induction l arbitrary: h0 d0)
  case (Cons x l)
  obtain hx dx where x: "x = (hx, dx)" by (cases x)
  show ?case
  proof (cases "dx > 0 \<and> dx < d0")
    case True
    with Cons.prems x have "fold (\<lambda>(h, d) (host, delay). if d > 0 \<and> d < delay then (h, d) else (host, delay)) l (hx, dx) = (h, d)"
      by simp
    from Cons.IH [OF this] have "d \<le> dx \<and> (\<forall>(h', d') \<in> set l. 0 < d' \<longrightarrow> d \<le> d') \<and> ((h, d) = (hx, dx) \<or> (h, d) \<in> set l \<and> 0 < d)" .
    moreover from this True have "d \<le> d0" by linarith
    ultimately show ?thesis using True x by auto
  next
    case False
    with Cons.prems x have "fold (\<lambda>(h, d) (host, delay). if d > 0 \<and> d < delay then (h, d) else (host, delay)) l (h0, d0) = (h, d)"
      by auto
    from Cons.IH [OF this] False x show ?thesis by auto
  qed
qed simp

lemma best_server_least:
  assumes "(h, d) \<in> set l" "0 < d" "d < i64_max"
  shows "best_server l \<in> set l \<and> 0 < snd (best_server l) \<and> (\<forall>(h', d') \<in> set l. 0 < d' \<longrightarrow> snd (best_server l) \<le> d')"
proof -
  obtain bh bd where b: "best_server l = (bh, bd)" by (cases "best_server l")
  from best_server_fold [OF b [unfolded best_server_def]] assms b show ?thesis by fastforce
qed

lemma chosen_server_least:
  assumes "hm_wf (sc_online c)" "host \<noteq> []" "0 < latency" "latency < i64_max" "[] \<notin> fst ` set (sc_online c)"
  shows "\<exists>d. hm_get (sc_online (cfg_update_latency host latency c)) (sc_rendezvous_server (cfg_update_latency host latency c)) = Some d \<and>
    0 < d \<and> (\<forall>(h', d') \<in> set (sc_online (cfg_update_latency host latency c)). 0 < d' \<longrightarrow> d \<le> d')"
proof -
  define o1 where "o1 = hm_insert host latency (sc_online c)"
  have "(host, latency) \<in> set o1" unfolding o1_def by (rule hm_get_set) (simp add: hm_get_insert)
  from best_server_least [OF this assms(3,4)] obtain bh bd where b: "best_server o1 = (bh, bd)" "(bh, bd) \<in> set o1" "0 < bd"
      "\<forall>(h', d') \<in> set o1. 0 < d' \<longrightarrow> bd \<le> d'" by (cases "best_server o1") auto
  have "bh \<noteq> []" using b(2) assms(2,5) set_hm_insert_subset [of host latency "sc_online c"] unfolding o1_def by (force simp: image_iff)
  moreover have "hm_get o1 bh = Some bd" using b(2) hm_wf_insert [OF assms(1)] unfolding o1_def by (simp add: hm_wf_get)
  ultimately show ?thesis using b by (auto simp: cfg_update_latency_def Let_def o1_def [symmetric])
qed

section \<open>Runs\<close>

text \<open>The steps of all loops on what they share; the state of a loop is arbitrary.\<close>

inductive med_step :: "mediator \<Rightarrow> mediator \<Rightarrow> bool" where
  "udp_recv err now new_id resp l m = (r, l', m') \<Longrightarrow> med_step m m'"
| "udp_tick pub rebind err now l m = (res, l', m') \<Longrightarrow> med_step m m'"
| "tcp_start now host m = (t, m') \<Longrightarrow> med_step m m'"
| "tcp_recv err now new_id resp t m = (r, t', m') \<Longrightarrow> med_step m m'"
| "tcp_tick err now t m = (res, t', m') \<Longrightarrow> med_step m m'"
| "med_step m (m\<lparr>md_should_exit := b\<rparr>)"
| "med_step m (m\<lparr>md_choice := reset_online (md_choice m), md_solving := []\<rparr>)"
| "med_step m (m\<lparr>md_config := set_key_confirmed False (md_config m)\<rparr>)"

definition pk_log :: "mediator \<Rightarrow> (nat \<times> bool) list" where
  "pk_log m = map (\<lambda>s. (rs_time s, rs_needs_deploy s))
     (filter (\<lambda>s. case rs_message s of RegisterPk _ _ \<Rightarrow> True | RegisterPeer _ \<Rightarrow> False) (md_sent m))"

definition spaced :: "(nat \<times> bool) list \<Rightarrow> bool" where
  "spaced l = (\<forall>i. Suc i < length l \<longrightarrow> snd (l ! i) \<longrightarrow> snd (l ! Suc i) \<longrightarrow> fst (l ! i) + 30000000 \<le> fst (l ! Suc i))"

definition deploy_inv :: "mediator \<Rightarrow> bool" where
  "deploy_inv m =
     (spaced (pk_log m) \<and>
      (pk_log m \<noteq> [] \<longrightarrow> snd (last (pk_log m)) \<longrightarrow> md_last_not_deployed m = Some (fst (last (pk_log m)))))"

lemma spaced_snoc:
  assumes "spaced l" "l \<noteq> [] \<Longrightarrow> snd (last l) \<Longrightarrow> b \<Longrightarrow> fst (last l) + 30000000 \<le> t"
  shows "spaced (l @ [(t, b)])"
  unfolding spaced_def
proof (intro allI impI)
  fix i assume i: "Suc i < length (l @ [(t, b)])" and "snd ((l @ [(t, b)]) ! i)" "snd ((l @ [(t, b)]) ! Suc i)"
  then show "fst ((l @ [(t, b)]) ! i) + 30000000 \<le> fst ((l @ [(t, b)]) ! Suc i)"
  proof (cases "Suc i < length l")
    case True
    with assms(1) i \<open>snd ((l @ [(t, b)]) ! i)\<close> \<open>snd ((l @ [(t, b)]) ! Suc i)\<close> show ?thesis
      by (simp add: spaced_def nth_append)
  next
    case False
    with i have "i = length l - 1" "l \<noteq> []" by auto
    with assms(2) \<open>snd ((l @ [(t, b)]) ! i)\<close> \<open>snd ((l @ [(t, b)]) ! Suc i)\<close> show ?thesis
      by (simp add: nth_append last_conv_nth)
  qed
qed

text \<open>An operation that neither sends nor touches the back-off.\<close>

definition quiet :: "mediator \<Rightarrow> mediator \<Rightarrow> bool" where
  "quiet m m' = (md_sent m' = md_sent m \<and> md_last_not_deployed m' = md_last_not_deployed m)"

lemma quiet_inv: "quiet m m' \<Longrightarrow> deploy_inv m \<Longrightarrow> deploy_inv m'"
  by (simp add: quiet_def deploy_inv_def pk_log_def)

lemma quiet_latency [simp]: "quiet m (set_latency h l m)" "quiet m m"
  by (simp_all add: quiet_def set_latency_def)

lemma register_pk_inv:
  assumes "register_pk err now rz m = (r, m')" "deploy_inv m"
  shows "deploy_inv m'"
proof (cases "deploy_register_throttled now m")
  case False
  have log: "pk_log m' = pk_log m @ [(now, md_needs_deploy m)]"
    and last: "md_last_not_deployed m' = (if md_needs_deploy m then Some now else None)"
    using assms(1) False by (auto simp: register_pk_def sink_send_def pk_log_def Let_def split: option.splits)
  have "spaced (pk_log m')" unfolding log
  proof (rule spaced_snoc)
    show "spaced (pk_log m)" using assms(2) by (simp add: deploy_inv_def)
    assume "pk_log m \<noteq> []" "snd (last (pk_log m))" "md_needs_deploy m"
    with assms(2) False show "fst (last (pk_log m)) + 30000000 \<le> now"
      by (auto simp: deploy_inv_def deploy_register_throttled_def elapsed_ms_def DEPLOY_RETRY_INTERVAL_def)
  qed
  with log last show ?thesis by (simp add: deploy_inv_def)
qed (use assms in \<open>simp add: register_pk_def\<close>)

lemma register_peer_inv:
  assumes "register_peer err now rz m = (r, m')" "deploy_inv m"
  shows "deploy_inv m'"
  using assms register_pk_inv [of err now rz m r m']
  by (auto simp: register_peer_def sink_send_def deploy_inv_def pk_log_def Let_def split: if_splits option.splits)

lemma uuid_mismatch_inv:
  assumes "handle_uuid_mismatch err now new_id rz m = (r, m')" "deploy_inv m"
  shows "deploy_inv m'"
proof (cases "md_solving m = [] \<or> md_solving m = rz_host rz")
  case True
  have "deploy_inv (m\<lparr>md_config := set_id new_id (set_key_confirmed False (md_config m)), md_solving := rz_host rz\<rparr>)"
    by (rule quiet_inv [OF _ assms(2)]) (simp add: quiet_def)
  with True assms(1) show ?thesis using register_pk_inv [of err now rz] by (simp add: handle_uuid_mismatch_def)
qed (use assms in \<open>simp add: handle_uuid_mismatch_def\<close>)

lemma pk_result_inv:
  assumes "pk_result_effect err now new_id rz p m = (r, m')" "deploy_inv m"
  shows "deploy_inv m'"
proof (cases "p = PkUuidMismatch")
  case False
  with assms(1) have "quiet m m'" by (cases p) (auto simp: pk_result_effect_def quiet_def)
  then show ?thesis using assms(2) by (rule quiet_inv)
qed (use assms uuid_mismatch_inv in \<open>simp add: pk_result_effect_def\<close>)

lemma handle_resp_inv:
  assumes "handle_resp err now new_id resp rz m = (r, rz', m')" "deploy_inv m"
  shows "deploy_inv m'"
proof (cases resp)
  case (RegisterPeerResponse b)
  with assms register_pk_inv show ?thesis by (auto simp: handle_resp_def split: if_splits prod.splits)
next
  case (RegisterPkResponse p k)
  with assms pk_result_inv show ?thesis by (auto simp: handle_resp_def split: prod.splits sum.splits)
qed (use assms in \<open>simp add: handle_resp_def\<close>)

lemma udp_latency_quiet: "udp_update_latency now l m = (l', m') \<Longrightarrow> quiet m m'"
  by (auto simp: udp_update_latency_def Let_def split: if_splits option.splits)

lemma timed_out_quiet: "udp_timed_out rebind now l m = (r, l', m') \<Longrightarrow> quiet m m'"
  by (auto simp: udp_timed_out_def Let_def split: if_splits option.splits)

lemma udp_recv_inv:
  assumes "udp_recv err now new_id resp l m = (r, l', m')" "deploy_inv m"
  shows "deploy_inv m'"
proof -
  obtain l1 m1 where 1: "(if is_registration resp then udp_update_latency now l m else (l, m)) = (l1, m1)" by (metis surj_pair)
  have "deploy_inv m1" using 1 assms(2) quiet_inv [OF udp_latency_quiet] by (auto split: if_splits)
  moreover obtain rz' where "handle_resp err now new_id resp (ul_rz l1) m1 = (r, rz', m')"
    using assms(1) 1 by (auto simp: udp_recv_def split: prod.splits)
  ultimately show ?thesis by (rule handle_resp_inv [rotated])
qed

lemma udp_tick_inv:
  assumes "udp_tick pub rebind err now l m = (res, l', m')" "deploy_inv m"
  shows "deploy_inv m'"
proof -
  have fin: "deploy_inv m2" if "register_peer err now rz m1 = (r, m2)" "deploy_inv m1" for rz m1 r m2
    using register_peer_inv that .
  have to: "deploy_inv m1" if "udp_timed_out rebind now l1 m = (r, l2, m1)" for l1 r l2 m1
    using timed_out_quiet [OF that] assms(2) by (rule quiet_inv)
  show ?thesis
    using assms fin to
    by (auto simp: udp_tick_def Let_def split: if_splits prod.splits sum.splits option.splits)
qed

lemma med_step_inv: "med_step m m' \<Longrightarrow> deploy_inv m \<Longrightarrow> deploy_inv m'"
proof (induction rule: med_step.induct)
  case (1 err now new_id resp l m r l' m')
  then show ?case by (rule udp_recv_inv)
next
  case (2 pub rebind err now l m res l' m')
  then show ?case by (rule udp_tick_inv)
next
  case (4 err now new_id resp t m r t' m')
  obtain rz' where "handle_resp err now new_id resp (tl_rz t)
      (if is_registration resp then tcp_update_latency now (t\<lparr>tl_last_recv := now\<rparr>) m else m) = (r, rz', m')"
    using 4 by (auto simp: tcp_recv_def Let_def split: prod.splits)
  moreover have "deploy_inv (if is_registration resp then tcp_update_latency now (t\<lparr>tl_last_recv := now\<rparr>) m else m)"
    using 4 quiet_inv [OF quiet_latency(1)] by (simp add: tcp_update_latency_def)
  ultimately show ?case by (rule handle_resp_inv)
next
  case (5 err now t m res t' m')
  then show ?case using register_pk_inv by (auto simp: tcp_tick_def split: if_splits prod.splits sum.splits)
qed (auto elim!: quiet_inv [rotated] simp: quiet_def tcp_start_def Let_def)

definition mediator_start :: "mediator \<Rightarrow> bool" where
  "mediator_start m = (md_sent m = [] \<and> md_last_not_deployed m = None)"

text \<open>A device that awaits its deployment does not flood the servers.  In every run of the loops of all
  servers, whatever the servers answer and the sockets do, two successive attempts to register the public key
  that are both made while the device is known not to be deployed are at least thirty seconds apart.\<close>

theorem deploy_registers_spaced:
  assumes "med_step\<^sup>*\<^sup>* m0 m" "mediator_start m0"
    and "Suc i < length (pk_log m)" "snd (pk_log m ! i)" "snd (pk_log m ! Suc i)"
  shows "fst (pk_log m ! i) + 30000000 \<le> fst (pk_log m ! Suc i)"
proof -
  have "deploy_inv m0" using assms(2) by (simp add: mediator_start_def deploy_inv_def pk_log_def spaced_def)
  with assms(1) have "deploy_inv m" by (induction rule: rtranclp_induct) (auto intro: med_step_inv)
  with assms(3-5) show ?thesis by (simp add: deploy_inv_def spaced_def)
qed

section \<open>Registration goes on\<close>

text \<open>One server's loop, among steps of the others.\<close>

inductive udp_reach :: "string \<Rightarrow> udp_loop \<Rightarrow> mediator \<Rightarrow> bool" for host where
  udp_begin: "udp_reach host (udp_start now host) m"
| udp_received: "udp_reach host l m \<Longrightarrow> udp_recv err now new_id resp l m = (Inr (), l', m') \<Longrightarrow> udp_reach host l' m'"
| udp_ticked: "udp_reach host l m \<Longrightarrow> udp_tick pub rebind err now l m = (Continue, l', m') \<Longrightarrow> udp_reach host l' m'"
| udp_others: "udp_reach host l m \<Longrightarrow> udp_reach host l m'"

definition udp_ok :: "string \<Rightarrow> udp_loop \<Rightarrow> bool" where
  "udp_ok host l =
     (rz_host (ul_rz l) = host \<and> rz_host_prefix (ul_rz l) = get_host_prefix host \<and>
      3000 \<le> ul_reg_timeout l \<and> ul_reg_timeout l \<le> 30000 \<and> 3000 dvd ul_reg_timeout l)"

lemma handle_resp_rz: "handle_resp err now new_id resp rz m = (r, rz', m') \<Longrightarrow>
  rz_host rz' = rz_host rz \<and> rz_host_prefix rz' = rz_host_prefix rz"
  by (auto simp: handle_resp_def split: reg_response.splits if_splits prod.splits sum.splits)

lemma udp_latency_loop: "udp_update_latency now l m = (l', m') \<Longrightarrow> ul_rz l' = ul_rz l \<and> ul_reg_timeout l' = MIN_REG_TIMEOUT"
  by (auto simp: udp_update_latency_def Let_def split: if_splits)

lemma udp_latency_ok: "udp_update_latency now l m = (l', m') \<Longrightarrow> udp_ok host l \<Longrightarrow> udp_ok host l'"
  using udp_latency_loop [of now l m l' m'] by (simp add: udp_ok_def MIN_REG_TIMEOUT_def)

lemma udp_recv_ok:
  assumes "udp_recv err now new_id resp l m = (r, l', m')" "udp_ok host l"
  shows "udp_ok host l'"
proof -
  obtain l1 m1 where 1: "(if is_registration resp then udp_update_latency now l m else (l, m)) = (l1, m1)" by (metis surj_pair)
  have "udp_ok host l1" using 1 assms(2) udp_latency_ok by (auto split: if_splits)
  moreover obtain rz' where h: "handle_resp err now new_id resp (ul_rz l1) m1 = (r, rz', m')" and l': "l' = l1\<lparr>ul_rz := rz'\<rparr>"
    using assms(1) 1 by (auto simp: udp_recv_def split: prod.splits)
  ultimately show ?thesis using handle_resp_rz [OF h] by (simp add: udp_ok_def)
qed

lemma timed_out_loop: "udp_timed_out rebind now l m = (r, l', m') \<Longrightarrow>
  ul_rz l' = ul_rz l \<and> ul_reg_timeout l' = ul_reg_timeout l \<and> md_needs_deploy m' = md_needs_deploy m \<and>
  md_config m' = md_config m \<and> md_solving m' = md_solving m \<and> md_last_not_deployed m' = md_last_not_deployed m \<and>
  md_sent m' = md_sent m"
  by (auto simp: udp_timed_out_def set_latency_def Let_def split: if_splits option.splits)

lemma next_timeout: "3000 dvd (t :: int) \<Longrightarrow> t < 30000 \<Longrightarrow> t + 3000 \<le> 30000 \<and> 3000 dvd t + 3000"
  by (auto elim!: dvdE)

lemma udp_tick_ok:
  assumes "udp_tick pub rebind err now l m = (res, l', m')" "udp_ok host l"
  shows "udp_ok host l'"
proof -
  define to where "to = (case ul_last_sent l of Some t \<Rightarrow> elapsed_ms now t \<ge> ul_reg_timeout l | None \<Rightarrow> False)"
  define l1 where "l1 = (if pub \<and> to \<and> ul_reg_timeout l < MAX_REG_TIMEOUT
      then l\<lparr>ul_reg_timeout := ul_reg_timeout l + MIN_REG_TIMEOUT\<rparr> else l)"
  have l1: "udp_ok host l1"
    using assms(2) next_timeout [of "ul_reg_timeout l"] by (auto simp: l1_def udp_ok_def MAX_REG_TIMEOUT_def MIN_REG_TIMEOUT_def)
  have t: "udp_ok host l2" if "udp_timed_out rebind now l1 m = (r, l2, m1)" for r l2 m1
    using timed_out_loop [OF that] l1 by (simp add: udp_ok_def)
  have s: "udp_ok host (l2\<lparr>ul_last_sent := x\<rparr>) = udp_ok host l2" for l2 x by (simp add: udp_ok_def)
  show ?thesis
    using assms(1) unfolding udp_tick_def Let_def to_def [symmetric] l1_def [symmetric]
    using l1 t s assms(2) by (auto split: if_splits prod.splits sum.splits)
qed

lemma udp_reach_ok: "udp_reach host l m \<Longrightarrow> udp_ok host l"
proof (induction rule: udp_reach.induct)
  case (udp_begin now m)
  show ?case by (simp add: udp_ok_def udp_start_def MIN_REG_TIMEOUT_def)
qed (auto intro: udp_recv_ok udp_tick_ok)


section \<open>Examples\<close>

definition sample_mediator :: mediator where
  "sample_mediator =
     \<lparr>md_config = \<lparr>hc_sk = [], hc_pk = [7], hc_id = ''100'', hc_key_confirmed = False, hc_keys_confirmed = []\<rparr>,
      md_choice = \<lparr>sc_online = [], sc_rendezvous_server = []\<rparr>, md_solving = [], md_should_exit = False,
      md_sent_register_pk = False, md_needs_deploy = True, md_last_not_deployed = None, md_sent = []\<rparr>"


theorem deploy_registers_spaced_witness:
  "\<exists>m. med_step\<^sup>*\<^sup>* sample_mediator m \<and> length (pk_log m) = 2 \<and> fst (pk_log m ! 0) + 30000000 \<le> fst (pk_log m ! Suc 0)"
proof -
  define l where "l = udp_start 0 ''rs''"
  define m1 where "m1 = snd (snd (udp_tick True None None 5 l sample_mediator))"
  define m2 where "m2 = snd (snd (udp_tick True None None 40000000 l m1))"
  have "med_step sample_mediator m1" "med_step m1 m2" unfolding m1_def m2_def by (metis med_step.intros(2) prod.collapse)+
  then have r: "med_step\<^sup>*\<^sup>* sample_mediator m2" by (meson rtranclp.simps)
  have p: "pk_log m2 = [(5, True), (40000000, True)]" 
    by (simp add: m2_def m1_def l_def pk_log_def udp_tick_def register_peer_def register_pk_def sink_send_def sample_mediator_def
        udp_start_def deploy_register_throttled_def elapsed_ms_def DEPLOY_RETRY_INTERVAL_def)
  have "mediator_start sample_mediator" by (simp add: mediator_start_def sample_mediator_def)
  from deploy_registers_spaced [OF r this, of 0] r p show ?thesis by (intro exI [of _ m2]) simp
qed

end
