(* ===== verification/Rendezvous_Punch.thy ===== *)
theory Rendezvous_Punch
  imports Prelude Common_Lib Key_Exchange "HOL-Library.Sublist"
begin

text \<open>
  What a controlled machine does when the rendezvous server announces a controller, \<open>src/rendezvous_mediator.rs\<close>:
  the places of punches and WebRTC answerers, the queue of a session's ICE candidates, the suppression of repeated
  requests, and \<open>handle_punch_hole\<close>, \<open>handle_request_relay\<close>, \<open>handle_intranet\<close> with \<open>create_relay\<close> up to the
  replies they send and the listens and relays they start.

  What connecting to the server gives is an argument, a stream of \<open>Secure_Channel\<close> or an error.  A reply is
  recorded with whether its transport was keyed when it was sent.
\<close>

section \<open>Places\<close>

record punch_pool =
  pp_places :: nat
  pp_max :: nat

definition pool_new :: "nat \<Rightarrow> punch_pool" where
  "pool_new n = \<lparr>pp_places = 0, pp_max = n\<rparr>"

definition pool_take :: "punch_pool \<Rightarrow> bool \<times> punch_pool" where
  "pool_take p = (if pp_places p < pp_max p then (True, p\<lparr>pp_places := pp_places p + 1\<rparr>) else (False, p))"

definition pool_drop :: "punch_pool \<Rightarrow> punch_pool" where
  "pool_drop p = p\<lparr>pp_places := pp_places p - 1\<rparr>"

definition take_if :: "bool \<Rightarrow> punch_pool \<Rightarrow> bool \<times> punch_pool" where
  "take_if b p = (if b then pool_take p else (False, p))"

definition take_pair :: "bool \<Rightarrow> bool \<Rightarrow> punch_pool \<Rightarrow> bool \<times> bool \<times> punch_pool" where
  "take_pair v4 v6 p = (let (a, p1) = take_if v4 p; (b, p2) = take_if v6 p1 in (a, b, p2))"

definition UDP_PUNCHES :: punch_pool where "UDP_PUNCHES = pool_new 32"
definition TCP_PUNCHES :: punch_pool where "TCP_PUNCHES = pool_new 32"
definition MAX_WEBRTC_ANSWERERS :: nat where "MAX_WEBRTC_ANSWERERS = 16"

text \<open>The answerers' counter is a pool of its own.\<close>

definition answerer_take :: "nat \<Rightarrow> bool \<times> nat" where
  "answerer_take n = (if n < MAX_WEBRTC_ANSWERERS then (True, n + 1) else (False, n))"

section \<open>ICE candidates of a session: \<open>IceRoute\<close>\<close>

definition MAX_PENDING_REMOTE_ICE :: nat where "MAX_PENDING_REMOTE_ICE = 64"
definition ICE_DEDUP_WINDOW :: nat where "ICE_DEDUP_WINDOW = 256"

record ice_route =
  ir_channel :: nat
  ir_queue :: "string list"
  ir_closed :: bool
  ir_recent :: "u64 list"

definition ice_route_new :: "nat \<Rightarrow> ice_route" where
  "ice_route_new ch = \<lparr>ir_channel = ch, ir_queue = [], ir_closed = False, ir_recent = []\<rparr>"

definition is_same_channel :: "nat \<Rightarrow> ice_route \<Rightarrow> bool" where
  "is_same_channel ch r = (ir_channel r = ch)"

definition ice_queue :: "(string \<Rightarrow> u64) \<Rightarrow> string \<Rightarrow> ice_route \<Rightarrow> bool \<times> ice_route" where
  "ice_queue digest candidate r =
     (if digest candidate \<in> set (ir_recent r) then (\<not> ir_closed r, r)
      else if ir_closed r \<or> length (ir_queue r) \<ge> MAX_PENDING_REMOTE_ICE then (False, r)
      else
        (let recent = (if length (ir_recent r) \<ge> ICE_DEDUP_WINDOW then drop 1 (ir_recent r) else ir_recent r)
         in (True, r\<lparr>ir_queue := ir_queue r @ [candidate], ir_recent := recent @ [digest candidate]\<rparr>)))"

text \<open>The arm of \<open>handle_resp\<close>: \<open>None\<close> for a session nobody answers.\<close>

definition route_candidate ::
  "(string \<Rightarrow> u64) \<Rightarrow> string \<Rightarrow> string \<Rightarrow> (string \<times> ice_route) list \<Rightarrow> bool option \<times> (string \<times> ice_route) list" where
  "route_candidate digest session_key candidate txs =
     (case hm_get txs session_key of
        None \<Rightarrow> (None, txs)
      | Some r \<Rightarrow> (let (ok, r1) = ice_queue digest candidate r in (Some ok, hm_insert session_key r1 txs)))"

text \<open>The end of an answerer's wait: only its own route is removed.\<close>

definition evict_route :: "string \<Rightarrow> nat \<Rightarrow> (string \<times> ice_route) list \<Rightarrow> (string \<times> ice_route) list" where
  "evict_route session_key own txs =
     (case hm_get txs session_key of
        Some r \<Rightarrow> if is_same_channel own r then hm_remove session_key txs else txs
      | None \<Rightarrow> txs)"

section \<open>Repeated requests\<close>

definition skip_duplicate :: "socket_addr \<Rightarrow> nat \<Rightarrow> socket_addr \<times> nat \<Rightarrow> bool \<times> socket_addr \<times> nat" where
  "skip_duplicate addr now lst = (fst lst = addr \<and> (now - snd lst) div 1000 < 100, addr, now)"

section \<open>Replies\<close>

record reply_env =
  re_use_ws :: bool
  re_is_proxy :: bool
  re_disable_tcp_listen :: bool
  re_symmetric_nat :: bool
  re_has_turn :: bool
  re_all_ice :: "string \<Rightarrow> bool"
  re_option_relay :: string
  re_default_relay :: string
  re_key :: string
  re_cr :: channel_crypto
  re_pb :: wire_format
  re_io :: stream_io
  re_rnd :: kx_random
  re_serialise :: "string \<Rightarrow> bytes"
  re_connect :: "nat \<Rightarrow> string + conn_stream"

record punch_reply =
  ry_keyed :: bool
  ry_answer :: string

definition get_relay_server :: "reply_env \<Rightarrow> string \<Rightarrow> string" where
  "get_relay_server v provided =
     (let r = re_option_relay v; r = (if r = [] then provided else r)
      in if r = [] then re_default_relay v else r)"

text \<open>Sending a reply on a stream; \<open>None\<close> is a send that has not returned.\<close>

definition send_reply :: "reply_env \<Rightarrow> string \<Rightarrow> conn_stream \<Rightarrow> (string + unit) option \<times> punch_reply list" where
  "send_reply v answer st =
     (fst (stream_send_raw (re_cr v) (re_io v) (re_serialise v answer) st),
      [\<lparr>ry_keyed = is_secured st, ry_answer = answer\<rparr>])"

definition secure_required :: "reply_env \<Rightarrow> conn_stream \<Rightarrow> (string + unit) \<times> conn_stream" where
  "secure_required v st = secure_tcp_required (re_cr v) (re_pb v) (re_io v) (re_rnd v) (re_use_ws v) (re_key v) st"

text \<open>\<open>create_relay\<close>: whether the relay connection is started, after the response went out.\<close>

definition create_relay :: "reply_env \<Rightarrow> string \<Rightarrow> (string + unit) option \<times> punch_reply list \<times> bool" where
  "create_relay v answer =
     (case re_connect v 0 of
        Inl e \<Rightarrow> (Some (Inl e), [], False)
      | Inr st \<Rightarrow>
          (let (conn, ans) =
             (if answer \<noteq> []
              then (case secure_required v st of
                      (Inr _, st1) \<Rightarrow> (Inr st1, answer)
                    | (Inl _, _) \<Rightarrow> (re_connect v 1, []))
              else (Inr st, answer))
           in case conn of
                Inl e \<Rightarrow> (Some (Inl e), [], False)
              | Inr st2 \<Rightarrow>
                  (let (r, out) = send_reply v ans st2 in (r, out, r = Some (Inr ())))))"

section \<open>A punch: \<open>handle_punch_hole\<close>\<close>

record punch_request =
  pr_force_relay :: bool
  pr_offer :: string
  pr_peer_symmetric :: bool
  pr_udp_port :: int
  pr_v6_port :: nat

definition webrtc_relay_only :: "reply_env \<Rightarrow> punch_request \<Rightarrow> bool" where
  "webrtc_relay_only v ph = (pr_force_relay ph \<and> \<not> re_all_ice v (pr_offer ph))"

definition webrtc_viable :: "reply_env \<Rightarrow> punch_request \<Rightarrow> bool" where
  "webrtc_viable v ph =
     (pr_offer ph \<noteq> [] \<and> \<not> re_is_proxy v \<and> (\<not> webrtc_relay_only v ph \<or> re_has_turn v))"

text \<open>\<open>spawn_webrtc_answerer\<close>: what building the answerer gave, an error or the answer and whether this offer
  was new; the place stays taken by the task of a new one.\<close>

definition spawn_webrtc_answerer :: "string + string \<times> bool \<Rightarrow> nat \<Rightarrow> string \<times> nat" where
  "spawn_webrtc_answerer built n =
     (let (ok, n1) = answerer_take n
      in if \<not> ok then ([], n1)
         else case built of
           Inl e \<Rightarrow> ([], n1 - 1)
         | Inr (answer, is_new) \<Rightarrow> (answer, if is_new then n1 else n1 - 1))"

text \<open>What a request comes to: the replies sent, whether a relay connection was started, and which places the
  listens it opened hold.\<close>

record punch_outcome =
  po_result :: "(string + unit) option"
  po_replies :: "punch_reply list"
  po_relay :: bool
  po_udp_place :: bool
  po_v6_place :: bool
  po_tcp_place :: bool

definition no_outcome :: punch_outcome where
  "no_outcome = \<lparr>po_result = Some (Inr ()), po_replies = [], po_relay = False, po_udp_place = False,
     po_v6_place = False, po_tcp_place = False\<rparr>"

record mediator_shared =
  ms_udp :: punch_pool
  ms_tcp :: punch_pool
  ms_answerers :: nat
  ms_last_msg :: "socket_addr \<times> nat"
  ms_last_relay_msg :: "socket_addr \<times> nat"

definition relay_forced :: "reply_env \<Rightarrow> punch_request \<Rightarrow> bool" where
  "relay_forced v ph = (re_use_ws v \<or> re_is_proxy v \<or> pr_force_relay ph)"

definition relay_v4 :: "reply_env \<Rightarrow> punch_request \<Rightarrow> bool" where
  "relay_v4 v ph =
     (pr_peer_symmetric ph \<or> re_symmetric_nat v \<or> relay_forced v ph \<or>
      (re_disable_tcp_listen v \<and> pr_udp_port ph \<le> 0))"

text \<open>\<open>start_ipv6\<close>: without a place or an IPv6 socket there is no listen, and the place goes back.\<close>

definition start_ipv6 :: "bool \<Rightarrow> bool \<Rightarrow> punch_pool \<Rightarrow> bool \<times> punch_pool" where
  "start_ipv6 has_socket slot udp =
     (if \<not> slot then (False, udp) else if has_socket then (True, udp) else (False, pool_drop udp))"

text \<open>The reply over UDP: the place is given back when it cannot be sent.\<close>

definition punch_udp_hole :: "bool \<Rightarrow> string \<Rightarrow> bool \<Rightarrow> punch_pool \<Rightarrow> punch_outcome \<times> punch_pool" where
  "punch_udp_hole udp_sent answer slot udp =
     (if \<not> udp_sent
      then (no_outcome\<lparr>po_result := Some (Inl ''udp'')\<rparr>, if slot then pool_drop udp else udp)
      else (no_outcome\<lparr>po_replies := [\<lparr>ry_keyed = False, ry_answer = answer\<rparr>], po_udp_place := slot\<rparr>, udp))"

text \<open>The answer over a short-lived connection of its own.\<close>

definition send_answer :: "reply_env \<Rightarrow> string \<Rightarrow> (string + unit) option \<times> punch_reply list" where
  "send_answer v answer =
     (case re_connect v 0 of
        Inl e \<Rightarrow> (Some (Inl e), [])
      | Inr st \<Rightarrow>
          (case secure_required v st of
             (Inl e, _) \<Rightarrow> (Some (Inl e), [])
           | (Inr _, st1) \<Rightarrow> send_reply v answer st1))"

text \<open>A reply on a plain connection and then a listen on its address; the place is kept unless that failed.\<close>

definition send_and_listen :: "reply_env \<Rightarrow> bool \<Rightarrow> string \<Rightarrow> punch_pool \<Rightarrow> punch_outcome \<times> punch_pool" where
  "send_and_listen v slot answer tcp =
     (let (r, out) = (case re_connect v 0 of Inl e \<Rightarrow> (Some (Inl e), []) | Inr st \<Rightarrow> send_reply v answer st)
      in case r of
           Some (Inl e) \<Rightarrow> (no_outcome\<lparr>po_result := r, po_replies := out\<rparr>, if slot then pool_drop tcp else tcp)
         | _ \<Rightarrow> (no_outcome\<lparr>po_result := r, po_replies := out, po_tcp_place := slot\<rparr>, tcp))"

definition relay_outcome :: "reply_env \<Rightarrow> string \<Rightarrow> punch_outcome" where
  "relay_outcome v answer =
     (let (r, out, started) = create_relay v answer
      in no_outcome\<lparr>po_result := r, po_replies := out, po_relay := started\<rparr>)"

text \<open>The handler; \<open>built\<close> is what building an answerer gave, \<open>has_v6\<close> and \<open>udp_sent\<close> what the UDP sockets did.\<close>

definition handle_punch_hole ::
  "reply_env \<Rightarrow> string + string \<times> bool \<Rightarrow> bool \<Rightarrow> bool \<Rightarrow> socket_addr \<Rightarrow> nat \<Rightarrow> punch_request \<Rightarrow> mediator_shared \<Rightarrow>
   punch_outcome \<times> mediator_shared" where
  "handle_punch_hole v built has_v6 udp_sent addr now ph ms0 =
     (let (dup, lst) = skip_duplicate addr now (ms_last_msg ms0); ms = ms0\<lparr>ms_last_msg := lst\<rparr>
      in if dup then (no_outcome, ms)
         else
           (let (answer, n) = (if webrtc_viable v ph then spawn_webrtc_answerer built (ms_answerers ms) else ([], ms_answerers ms));
                punch_udp = (\<not> relay_v4 v ph \<and> pr_udp_port ph > 0);
                punch_tcp = (\<not> relay_v4 v ph \<and> pr_udp_port ph \<le> 0 \<and> pr_offer ph = []);
                punch_v6 = (pr_v6_port ph > 0 \<and> \<not> relay_forced v ph);
                (slot_udp, slot_v6, udp) = take_pair punch_udp punch_v6 (ms_udp ms);
                (slot_tcp, tcp) = take_if punch_tcp (ms_tcp ms);
                (v6, udp1) = start_ipv6 has_v6 slot_v6 udp;
                ms1 = ms\<lparr>ms_udp := udp1, ms_tcp := tcp, ms_answerers := n\<rparr>
            in if relay_v4 v ph then ((relay_outcome v answer)\<lparr>po_v6_place := v6\<rparr>, ms1)
               else if pr_udp_port ph > 0 then
                 (let (x, udp2) = punch_udp_hole udp_sent answer slot_udp udp1 in (x\<lparr>po_v6_place := v6\<rparr>, ms1\<lparr>ms_udp := udp2\<rparr>))
               else if pr_offer ph \<noteq> [] then
                 (let (r, out) = send_answer v answer in (no_outcome\<lparr>po_result := r, po_replies := out, po_v6_place := v6\<rparr>, ms1))
               else
                 (let (x, tcp1) = send_and_listen v slot_tcp answer tcp in (x\<lparr>po_v6_place := v6\<rparr>, ms1\<lparr>ms_tcp := tcp1\<rparr>))))"

section \<open>Relay and local network\<close>

definition handle_request_relay ::
  "reply_env \<Rightarrow> socket_addr \<Rightarrow> nat \<Rightarrow> mediator_shared \<Rightarrow> punch_outcome \<times> mediator_shared" where
  "handle_request_relay v addr now ms =
     (let (dup, lst) = skip_duplicate addr now (ms_last_relay_msg ms); ms1 = ms\<lparr>ms_last_relay_msg := lst\<rparr>
      in (if dup then no_outcome else relay_outcome v [], ms1))"

definition handle_intranet_listen :: "reply_env \<Rightarrow> punch_pool \<Rightarrow> punch_outcome \<times> punch_pool" where
  "handle_intranet_listen v tcp =
     (let (slot, tcp1) = pool_take tcp
      in if \<not> slot then (no_outcome\<lparr>po_result := Some (Inl ''no place among the punches in flight'')\<rparr>, tcp1)
         else send_and_listen v slot [] tcp1)"

definition handle_intranet ::
  "reply_env \<Rightarrow> bool \<Rightarrow> bool \<Rightarrow> socket_addr \<Rightarrow> nat \<Rightarrow> nat \<Rightarrow> mediator_shared \<Rightarrow> punch_outcome \<times> mediator_shared" where
  "handle_intranet v ipv4 has_v6 addr now v6_port ms0 =
     (let (dup, lst) = skip_duplicate addr now (ms_last_msg ms0); ms = ms0\<lparr>ms_last_msg := lst\<rparr>
      in if dup then (no_outcome, ms)
         else
           (let relay = (re_use_ws v \<or> re_is_proxy v);
                (slot_v6, udp) = take_if (v6_port > 0 \<and> \<not> relay) (ms_udp ms);
                (v6, udp1) = start_ipv6 has_v6 slot_v6 udp;
                ms1 = ms\<lparr>ms_udp := udp1\<rparr>;
                (x, tcp) = (if ipv4 \<and> \<not> relay \<and> \<not> re_disable_tcp_listen v then handle_intranet_listen v (ms_tcp ms1)
                            else (no_outcome\<lparr>po_result := Some (Inl [])\<rparr>, ms_tcp ms1));
                ms2 = ms1\<lparr>ms_tcp := tcp\<rparr>
            in case po_result x of
                 Some (Inl _) \<Rightarrow>
                   (let y = relay_outcome v [] in (y\<lparr>po_replies := po_replies x @ po_replies y, po_v6_place := v6\<rparr>, ms2))
               | _ \<Rightarrow> (x\<lparr>po_v6_place := v6\<rparr>, ms2)))"

section \<open>What leaves in the clear\<close>

lemma required_keyed:
  assumes "secure_required v st = (Inr u, st')" "\<not> re_use_ws v"
  shows "is_secured st'"
  using assms negotiated_secured
  by (auto simp: secure_required_def secure_tcp_required_def key_exchange_def Let_def
      split: prod.splits sum.splits option.splits bool.splits rdv_message.splits if_splits)

definition in_the_clear :: "punch_reply list \<Rightarrow> string list" where
  "in_the_clear rs = filter (\<lambda>a. a \<noteq> []) (map ry_answer (filter (\<lambda>r. \<not> ry_keyed r) rs))"

lemma send_reply_clear: "send_reply v answer st = (r, out) \<Longrightarrow> is_secured st \<or> answer = [] \<Longrightarrow> in_the_clear out = []"
  by (auto simp: send_reply_def in_the_clear_def)

lemma create_relay_clear:
  assumes "create_relay v answer = (r, out, started)" "\<not> re_use_ws v"
  shows "in_the_clear out = []"
proof (cases "re_connect v 0")
  case (Inr st)
  show ?thesis
  proof (cases "answer = []")
    case True
    with assms Inr send_reply_clear show ?thesis by (auto simp: create_relay_def split: prod.splits)
  next
    case False
    obtain q st1 where q: "secure_required v st = (q, st1)" by (metis surj_pair)
    show ?thesis
    proof (cases q)
      case (Inl e)
      with assms Inr False q send_reply_clear show ?thesis
        by (auto simp: create_relay_def in_the_clear_def split: prod.splits sum.splits)
    next
      case q': (Inr u)
      with required_keyed [OF q [unfolded q'] assms(2)] assms Inr False q send_reply_clear show ?thesis
        by (auto simp: create_relay_def split: prod.splits)
    qed
  qed
qed (use assms in \<open>simp add: create_relay_def in_the_clear_def\<close>)

lemma send_answer_clear:
  assumes "send_answer v answer = (r, out)" "\<not> re_use_ws v"
  shows "in_the_clear out = []"
proof (cases "re_connect v 0")
  case (Inr st)
  obtain q st1 where q: "secure_required v st = (q, st1)" by (metis surj_pair)
  show ?thesis
  proof (cases q)
    case q': (Inr u)
    with required_keyed [OF q [unfolded q'] assms(2)] assms Inr q send_reply_clear show ?thesis by (auto simp: send_answer_def)
  qed (use assms Inr q in \<open>auto simp: send_answer_def in_the_clear_def\<close>)
qed (use assms in \<open>simp add: send_answer_def in_the_clear_def\<close>)

lemma send_and_listen_clear: "send_and_listen v slot [] tcp = (x, tcp') \<Longrightarrow> in_the_clear (po_replies x) = []"
  by (auto simp: send_and_listen_def send_reply_def in_the_clear_def no_outcome_def
      split: sum.splits option.splits)

lemma relay_outcome_clear: "\<not> re_use_ws v \<Longrightarrow> in_the_clear (po_replies (relay_outcome v answer)) = []"
  using create_relay_clear [of v answer] by (auto simp: relay_outcome_def split: prod.splits)

lemma no_outcome_simps [simp]:
  "po_replies no_outcome = []" "po_udp_place no_outcome = False" "po_v6_place no_outcome = False"
  "po_tcp_place no_outcome = False" "in_the_clear [] = []"
  by (simp_all add: no_outcome_def in_the_clear_def)

lemma punch_hole_duplicate:
  "skip_duplicate addr now (ms_last_msg ms) = (True, lst) \<Longrightarrow>
   handle_punch_hole v built has_v6 udp_sent addr now ph ms = (no_outcome, ms\<lparr>ms_last_msg := lst\<rparr>)"
  by (simp add: handle_punch_hole_def)

lemma punch_hole_handled:
  assumes "skip_duplicate addr now (ms_last_msg ms) = (False, lst)"
    and "(if webrtc_viable v ph then spawn_webrtc_answerer built (ms_answerers ms) else ([], ms_answerers ms)) = (answer, n)"
    and "take_pair (\<not> relay_v4 v ph \<and> pr_udp_port ph > 0) (pr_v6_port ph > 0 \<and> \<not> relay_forced v ph) (ms_udp ms) = (su, s6, udp)"
    and "take_if (\<not> relay_v4 v ph \<and> pr_udp_port ph \<le> 0 \<and> pr_offer ph = []) (ms_tcp ms) = (st, tcp)"
    and "start_ipv6 has_v6 s6 udp = (v6, udp1)"
    and "ms1 = ms\<lparr>ms_last_msg := lst, ms_udp := udp1, ms_tcp := tcp, ms_answerers := n\<rparr>"
  shows "handle_punch_hole v built has_v6 udp_sent addr now ph ms =
    (if relay_v4 v ph then ((relay_outcome v answer)\<lparr>po_v6_place := v6\<rparr>, ms1)
     else if pr_udp_port ph > 0 then
       (let (x, udp2) = punch_udp_hole udp_sent answer su udp1 in (x\<lparr>po_v6_place := v6\<rparr>, ms1\<lparr>ms_udp := udp2\<rparr>))
     else if pr_offer ph \<noteq> [] then
       (let (r, out) = send_answer v answer in (no_outcome\<lparr>po_result := r, po_replies := out, po_v6_place := v6\<rparr>, ms1))
     else
       (let (x, tcp1) = send_and_listen v st answer tcp in (x\<lparr>po_v6_place := v6\<rparr>, ms1\<lparr>ms_tcp := tcp1\<rparr>)))"
proof -
  have a: "(if webrtc_viable v ph then spawn_webrtc_answerer built (ms_answerers (ms\<lparr>ms_last_msg := lst\<rparr>))
      else ([], ms_answerers (ms\<lparr>ms_last_msg := lst\<rparr>))) = (answer, n)" using assms(2) by (simp cong: if_cong)
  have s: "ms_udp (ms\<lparr>ms_last_msg := lst\<rparr>) = ms_udp ms" "ms_tcp (ms\<lparr>ms_last_msg := lst\<rparr>) = ms_tcp ms" by simp_all
  show ?thesis
    unfolding handle_punch_hole_def Let_def assms(1) prod.case a s assms(3-6) by simp
qed


section \<open>Places are accounted for\<close>

definition pool_ok :: "punch_pool \<Rightarrow> bool" where
  "pool_ok p = (pp_places p \<le> pp_max p)"

lemma pool_take_count: "pool_take p = (b, p') \<Longrightarrow>
  pp_places p' = pp_places p + of_bool b \<and> pp_max p' = pp_max p \<and> (pool_ok p \<longrightarrow> pool_ok p') \<and> (b = (pp_places p < pp_max p))"
  by (auto simp: pool_take_def pool_ok_def split: if_splits)

lemma take_if_count: "take_if c p = (b, p') \<Longrightarrow>
  pp_places p' = pp_places p + of_bool b \<and> pp_max p' = pp_max p \<and> (pool_ok p \<longrightarrow> pool_ok p') \<and> (b \<longrightarrow> c)"
  using pool_take_count [of p b p'] by (auto simp: take_if_def split: if_splits)

lemma take_pair_count: "take_pair c d p = (a, b, p') \<Longrightarrow>
  pp_places p' = pp_places p + of_bool a + of_bool b \<and> pp_max p' = pp_max p \<and> (pool_ok p \<longrightarrow> pool_ok p') \<and> (a \<longrightarrow> c) \<and> (b \<longrightarrow> d)"
  by (auto simp: take_pair_def split: prod.splits dest!: take_if_count)

lemma pool_drop_count: "0 < pp_places p \<Longrightarrow> pp_places (pool_drop p) = pp_places p - 1 \<and> pp_max (pool_drop p) = pp_max p \<and>
  (pool_ok p \<longrightarrow> pool_ok (pool_drop p))"
  by (auto simp: pool_drop_def pool_ok_def)

lemma start_ipv6_count:
  "start_ipv6 has slot p = (b, p') \<Longrightarrow> slot \<longrightarrow> 0 < pp_places p \<Longrightarrow>
   pp_places p' + of_bool slot = pp_places p + of_bool b \<and> pp_max p' = pp_max p \<and> (pool_ok p \<longrightarrow> pool_ok p') \<and> (b \<longrightarrow> slot)"
  using pool_drop_count [of p] by (auto simp: start_ipv6_def split: if_splits)

lemma punch_udp_count:
  "punch_udp_hole s answer slot p = (x, p') \<Longrightarrow> slot \<longrightarrow> 0 < pp_places p \<Longrightarrow>
   pp_places p' + of_bool slot = pp_places p + of_bool (po_udp_place x) \<and> pp_max p' = pp_max p \<and> (pool_ok p \<longrightarrow> pool_ok p') \<and>
   \<not> po_tcp_place x \<and> \<not> po_relay x"
  using pool_drop_count [of p] by (auto simp: punch_udp_hole_def no_outcome_def split: if_splits)

lemma send_and_listen_count:
  assumes "send_and_listen v slot answer p = (x, p')" "slot \<longrightarrow> 0 < pp_places p"
  shows "pp_places p' + of_bool slot = pp_places p + of_bool (po_tcp_place x) \<and> pp_max p' = pp_max p \<and> (pool_ok p \<longrightarrow> pool_ok p') \<and>
   \<not> po_udp_place x \<and> \<not> po_relay x"
proof -
  obtain r out where "(case re_connect v 0 of Inl e \<Rightarrow> (Some (Inl e), []) | Inr st \<Rightarrow> send_reply v answer st) = (r, out)" by (metis surj_pair)
  then show ?thesis using assms pool_drop_count [of p]
    by (auto simp: send_and_listen_def no_outcome_def split: option.splits sum.splits if_splits)
qed

lemma relay_outcome_places:
  "\<not> po_udp_place (relay_outcome v a)" "\<not> po_tcp_place (relay_outcome v a)"
  by (auto simp: relay_outcome_def no_outcome_def split: prod.splits)

text \<open>A punch request holds exactly the places of the listens it opened.  After it was handled, the pools
  hold as many places more than before as listens were opened, at most their maximum; a place a request
  could not use is given back, on errors too; and a request whose v4 legs are relayed holds neither a v4 place
  of the UDP pool nor one of the TCP pool.\<close>

theorem punch_places_accounted:
  assumes "handle_punch_hole v built has_v6 udp_sent addr now ph ms = (x, ms')"
    and "pool_ok (ms_udp ms)" "pool_ok (ms_tcp ms)"
  shows "pp_places (ms_udp ms') = pp_places (ms_udp ms) + of_bool (po_udp_place x) + of_bool (po_v6_place x) \<and>
    pp_places (ms_tcp ms') = pp_places (ms_tcp ms) + of_bool (po_tcp_place x) \<and>
    pool_ok (ms_udp ms') \<and> pool_ok (ms_tcp ms') \<and>
    (relay_v4 v ph \<longrightarrow> \<not> po_udp_place x \<and> \<not> po_tcp_place x)"
proof -
  obtain dup lst where d: "skip_duplicate addr now (ms_last_msg ms) = (dup, lst)" by (metis surj_pair)
  obtain answer n where a: "(if webrtc_viable v ph then spawn_webrtc_answerer built (ms_answerers ms) else ([], ms_answerers ms)) = (answer, n)"
    by (metis surj_pair)
  obtain su s6 udp where u: "take_pair (\<not> relay_v4 v ph \<and> pr_udp_port ph > 0) (pr_v6_port ph > 0 \<and> \<not> relay_forced v ph) (ms_udp ms) = (su, s6, udp)"
    by (metis prod_cases3)
  obtain st tcp where t: "take_if (\<not> relay_v4 v ph \<and> pr_udp_port ph \<le> 0 \<and> pr_offer ph = []) (ms_tcp ms) = (st, tcp)" by (metis surj_pair)
  obtain b6 udp1 where v6: "start_ipv6 has_v6 s6 udp = (b6, udp1)" by (metis surj_pair)
  have cu: "pp_places udp = pp_places (ms_udp ms) + of_bool su + of_bool s6" "pool_ok udp" "su \<longrightarrow> \<not> relay_v4 v ph \<and> pr_udp_port ph > 0"
    using take_pair_count [OF u] assms(2) by auto
  have ct: "pp_places tcp = pp_places (ms_tcp ms) + of_bool st" "pool_ok tcp"
      "st \<longrightarrow> \<not> relay_v4 v ph \<and> pr_udp_port ph \<le> 0 \<and> pr_offer ph = []"
    using take_if_count [OF t] assms(3) by auto
  have c6: "pp_places udp1 + of_bool s6 = pp_places udp + of_bool b6" "pool_ok udp1"
    using start_ipv6_count [OF v6] cu by auto
  show ?thesis
  proof (cases dup)
    case True
    with assms d show ?thesis by (auto simp: punch_hole_duplicate)
  next
    case False
    with d have d': "skip_duplicate addr now (ms_last_msg ms) = (False, lst)" by simp
    note run = assms(1) [unfolded punch_hole_handled [OF d' a u t v6 refl]]
    consider (relay) "relay_v4 v ph" | (udp) "\<not> relay_v4 v ph" "pr_udp_port ph > 0"
      | (offer) "\<not> relay_v4 v ph" "\<not> pr_udp_port ph > 0" "pr_offer ph \<noteq> []"
      | (tcp) "\<not> relay_v4 v ph" "\<not> pr_udp_port ph > 0" "pr_offer ph = []" by blast
    then show ?thesis
    proof cases
      case relay
      then have "\<not> su" "\<not> st" using cu(3) ct(3) by auto
      then show ?thesis using run relay cu(1) ct(1,2) c6 relay_outcome_places [of v answer] by auto
    next
      case udp
      then have "\<not> st" using ct(3) by auto
      moreover obtain y udp2 where y: "punch_udp_hole udp_sent answer su udp1 = (y, udp2)" by (metis surj_pair)
      moreover have "su \<longrightarrow> 0 < pp_places udp1" using cu(1) c6(1) by auto
      ultimately show ?thesis using run udp cu(1) ct(1,2) c6 punch_udp_count [OF y] by auto
    next
      case offer
      then have "\<not> su" "\<not> st" using cu(3) ct(3) by auto
      then show ?thesis using run offer cu(1) ct(1,2) c6 by (auto split: prod.splits)
    next
      case tcp
      then have "\<not> su" using cu(3) by auto
      moreover obtain y tcp1 where y: "send_and_listen v st answer tcp = (y, tcp1)" by (metis surj_pair)
      moreover have "st \<longrightarrow> 0 < pp_places tcp" using ct(1) by auto
      ultimately show ?thesis using run tcp cu(1) ct(1,2) c6 send_and_listen_count [OF y] by auto
    qed
  qed
qed

section \<open>Candidates are taken once\<close>

datatype ice_event = IceArrives string | IceTaken | IceClosed

text \<open>The route, what was put into its channel so far and what the answerer took out.\<close>

fun ice_step :: "(string \<Rightarrow> u64) \<Rightarrow> ice_event \<Rightarrow> ice_route \<times> string list \<times> string list \<Rightarrow> ice_route \<times> string list \<times> string list" where
  "ice_step digest (IceArrives c) (r, acc, taken) =
     (let r1 = snd (ice_queue digest c r) in (r1, if length (ir_queue r1) > length (ir_queue r) then acc @ [c] else acc, taken))"
| "ice_step digest IceTaken (r, acc, taken) =
     (case ir_queue r of
        c # q \<Rightarrow> if ir_closed r then (r, acc, taken) else (r\<lparr>ir_queue := q\<rparr>, acc, taken @ [c])
      | [] \<Rightarrow> (r, acc, taken))"
| "ice_step digest IceClosed (r, acc, taken) = (r\<lparr>ir_closed := True\<rparr>, acc, taken)"

definition ice_inv :: "(string \<Rightarrow> u64) \<Rightarrow> ice_route \<times> string list \<times> string list \<Rightarrow> bool" where
  "ice_inv digest x =
     (case x of (r, acc, taken) \<Rightarrow>
        acc = taken @ ir_queue r \<and> length (ir_queue r) \<le> 64 \<and>
        ir_recent r = drop (length acc - 256) (map digest acc) \<and>
        (\<forall>i j. i < j \<longrightarrow> j < length acc \<longrightarrow> digest (acc ! i) = digest (acc ! j) \<longrightarrow> i + 256 < j))"

lemma drop_snoc_window:
  assumes "d = drop (n - 256) xs" "length xs = n"
  shows "(if length d \<ge> 256 then drop 1 d else d) @ [x] = drop (Suc n - 256) (xs @ [x])"
proof (cases "n \<ge> 256")
  case True
  then have "Suc n - 256 = Suc (n - 256)" by simp
  with True assms show ?thesis by (simp add: drop_Suc drop_tl)
qed (use assms in simp)

lemma ice_step_inv:
  assumes "ice_inv digest (r, acc, taken)"
  shows "ice_inv digest (ice_step digest ev (r, acc, taken))"
proof (cases ev)
  case (IceArrives c)
  note i = assms [unfolded ice_inv_def prod.case]
  show ?thesis
  proof (cases "digest c \<in> set (ir_recent r) \<or> ir_closed r \<or> length (ir_queue r) \<ge> 64")
    case True
    then have "snd (ice_queue digest c r) = r" by (auto simp: ice_queue_def MAX_PENDING_REMOTE_ICE_def)
    with assms IceArrives show ?thesis by simp
  next
    case False
    define rc where "rc = (if length (ir_recent r) \<ge> 256 then drop 1 (ir_recent r) else ir_recent r)"
    from False have q: "snd (ice_queue digest c r) = r\<lparr>ir_queue := ir_queue r @ [c], ir_recent := rc @ [digest c]\<rparr>"
      by (simp add: ice_queue_def MAX_PENDING_REMOTE_ICE_def ICE_DEDUP_WINDOW_def rc_def)
    have w: "rc @ [digest c] = drop (length (acc @ [c]) - 256) (map digest (acc @ [c]))"
      using drop_snoc_window [of "ir_recent r" "length acc" "map digest acc" "digest c"] i by (simp add: rc_def)
    have old: "\<forall>i j. i < j \<longrightarrow> j < length acc \<longrightarrow> digest (acc ! i) = digest (acc ! j) \<longrightarrow> i + 256 < j" using i by blast
    have fresh: "k + 256 < length acc" if "k < length acc" "digest (acc ! k) = digest c" for k
    proof (rule ccontr)
      assume "\<not> k + 256 < length acc"
      with that have "digest c \<in> set (drop (length acc - 256) (map digest acc))"
        by (auto simp: in_set_conv_nth intro!: exI [of _ "k - (length acc - 256)"])
      with i False show False by simp
    qed
    have "\<forall>i j. i < j \<longrightarrow> j < length (acc @ [c]) \<longrightarrow> digest ((acc @ [c]) ! i) = digest ((acc @ [c]) ! j) \<longrightarrow> i + 256 < j"
      using old fresh by (auto simp: nth_append less_Suc_eq)
    with i w False IceArrives q show ?thesis by (simp add: ice_inv_def)
  qed
next
  case IceTaken
  with assms show ?thesis by (auto simp: ice_inv_def split: list.splits)
next
  case IceClosed
  with assms show ?thesis by (simp add: ice_inv_def)
qed

lemma ice_inv_run: "ice_inv digest x \<Longrightarrow> ice_inv digest (fold (ice_step digest) evs x)"
proof (induction evs arbitrary: x)
  case (Cons ev evs)
  then show ?case using ice_step_inv by (cases x) (metis fold_simps(2))
qed simp

text \<open>A session's queue of ICE candidates loses nothing it took and does not take a repetition.  After any
  sequence of arrivals, readings by the answerer and its end, what was put into the queue is what the answerer
  has read followed by what is queued, in order; at most 64 candidates are queued; and two candidates that were
  both taken and have the same digest are more than 256 candidates apart.\<close>

theorem ice_candidates_once:
  assumes "fold (ice_step digest) evs (ice_route_new ch, [], []) = (r, acc, taken)"
  shows "acc = taken @ ir_queue r \<and> length (ir_queue r) \<le> MAX_PENDING_REMOTE_ICE \<and>
    length (ir_recent r) \<le> ICE_DEDUP_WINDOW \<and>
    (\<forall>i j. i < j \<longrightarrow> j < length acc \<longrightarrow> digest (acc ! i) = digest (acc ! j) \<longrightarrow> i + ICE_DEDUP_WINDOW < j)"
proof -
  have "ice_inv digest (ice_route_new ch, [], [])" by (simp add: ice_inv_def ice_route_new_def)
  from ice_inv_run [OF this, of evs] assms show ?thesis
    by (auto simp: ice_inv_def MAX_PENDING_REMOTE_ICE_def ICE_DEDUP_WINDOW_def)
qed

text \<open>A repetition is answered as if it had been taken; what was refused can be sent again.\<close>

lemma ice_refused:
  assumes "ice_queue digest c r = (ok, r')"
  shows "(\<not> ok \<longrightarrow> r' = r) \<and> (ok \<longrightarrow> \<not> ir_closed r \<and> digest c \<in> set (ir_recent r')) \<and>
    (\<not> ok \<longleftrightarrow> ir_closed r \<or> digest c \<notin> set (ir_recent r) \<and> length (ir_queue r) \<ge> MAX_PENDING_REMOTE_ICE)"
  using assms by (auto simp: ice_queue_def Let_def split: if_splits)

section \<open>Examples\<close>

definition sample_reply_env :: reply_env where
  "sample_reply_env =
     \<lparr>re_use_ws = False, re_is_proxy = False, re_disable_tcp_listen = False, re_symmetric_nat = False,
      re_has_turn = False, re_all_ice = (\<lambda>_. False), re_option_relay = [], re_default_relay = ''relay'',
      re_key = [], re_cr = sample_cc, re_pb = sample_pb, re_io = sample_io, re_rnd = sample_kx_random,
      re_serialise = (\<lambda>_. []), re_connect = (\<lambda>_. Inr (sample_tcp []))\<rparr>"

definition sample_punch :: punch_request where
  "sample_punch = \<lparr>pr_force_relay = False, pr_offer = ''offer'', pr_peer_symmetric = True, pr_udp_port = 0, pr_v6_port = 1\<rparr>"

definition sample_shared :: mediator_shared where
  "sample_shared = \<lparr>ms_udp = UDP_PUNCHES, ms_tcp = TCP_PUNCHES, ms_answerers = 0,
     ms_last_msg = (V4 0 0 0 0 0, 0), ms_last_relay_msg = (V4 0 0 0 0 0, 0)\<rparr>"

text \<open>A request with a UDP port gets its answer in a datagram.\<close>

lemma answer_in_datagram:
  "\<exists>x ms'. handle_punch_hole sample_reply_env (Inr (''answer'', True)) False True (V4 1 2 3 4 5) 0
     (sample_punch\<lparr>pr_peer_symmetric := False, pr_udp_port := 4000\<rparr>) sample_shared = (x, ms') \<and>
     po_replies x = [\<lparr>ry_keyed = False, ry_answer = ''answer''\<rparr>]"
  by (simp add: handle_punch_hole_def skip_duplicate_def sample_reply_env_def sample_punch_def sample_shared_def
      webrtc_viable_def webrtc_relay_only_def relay_v4_def relay_forced_def spawn_webrtc_answerer_def answerer_take_def
      MAX_WEBRTC_ANSWERERS_def take_pair_def take_if_def pool_take_def UDP_PUNCHES_def TCP_PUNCHES_def pool_new_def
      start_ipv6_def punch_udp_hole_def no_outcome_def)


theorem punch_places_accounted_witness:
  "\<exists>x ms'. handle_punch_hole sample_reply_env (Inr (''answer'', True)) True True (V4 1 2 3 4 5) 0 sample_punch sample_shared = (x, ms') \<and>
     pp_places (ms_tcp ms') = 0 \<and> pp_places (ms_udp ms') = of_bool (po_v6_place x)"
proof -
  obtain x ms' where h: "handle_punch_hole sample_reply_env (Inr (''answer'', True)) True True (V4 1 2 3 4 5) 0 sample_punch sample_shared = (x, ms')"
    by (metis surj_pair)
  have "pool_ok (ms_udp sample_shared)" "pool_ok (ms_tcp sample_shared)" "relay_v4 sample_reply_env sample_punch"
    by (simp_all add: pool_ok_def sample_shared_def UDP_PUNCHES_def TCP_PUNCHES_def pool_new_def relay_v4_def sample_punch_def)
  with punch_places_accounted [OF h] h show ?thesis by (simp add: sample_shared_def UDP_PUNCHES_def TCP_PUNCHES_def pool_new_def)
qed

theorem ice_candidates_once_witness:
  "\<exists>r acc taken. fold (ice_step (\<lambda>c. of_nat (length c))) [IceArrives ''a'', IceArrives ''b'', IceTaken, IceArrives ''cd'']
     (ice_route_new 0, [], []) = (r, acc, taken) \<and> acc = [''a'', ''cd''] \<and> acc = taken @ ir_queue r"
proof -
  obtain r acc taken where f: "fold (ice_step (\<lambda>c. of_nat (length c))) [IceArrives ''a'', IceArrives ''b'', IceTaken, IceArrives ''cd'']
     (ice_route_new 0, [], []) = (r, acc, taken)" by (metis prod_cases3)
  have "acc = [''a'', ''cd'']"
    using f by (simp add: ice_queue_def ice_route_new_def MAX_PENDING_REMOTE_ICE_def ICE_DEDUP_WINDOW_def)
  with ice_candidates_once [OF f] f show ?thesis by blast
qed

end
