(* ===== verification/Controller_Login.thy ===== *)
theory Controller_Login
  imports Prelude Password_Auth Mux_Core Secure_Channel
begin

text \<open>
  The controller's side of a login: \<open>handle_hash\<close>, \<open>handle_login_from_ui\<close>, \<open>handle_login_error\<close> and the login
  request \<open>create_login_msg\<close> builds (\<open>src/client.rs\<close>), and a port-forward mapping's login with its local
  connection waiting, \<open>connect_and_login\<close> and \<open>connect_and_login_mux\<close> of \<open>src/port_forward.rs\<close> with what the
  listener does with the outcome.

  The window's \<open>LoginConfigHandler\<close>, which its mappings share behind a lock, is the record \<open>login_handler\<close>; from
  filling it to sending the request a mapping holds the turn, so that is one step.  A branch of the \<open>select!\<close> with
  what it read is an event.  The requests and prompts a step causes are returned as a list.
\<close>

section \<open>The login handler\<close>

datatype conn_kind = DefaultConn | FileTransferConn | ViewCameraConn | PortForwardConn | RdpConn | TerminalConn

datatype password_source = PersonalAb bytes | SharedAb bytes | UndefinedSource

record login_hash =
  lg_salt :: bytes
  lg_challenge :: bytes

record login_handler =
  lh_id :: string
  lh_conn_type :: conn_kind
  lh_is_terminal_admin :: bool
  lh_hash :: login_hash
  lh_password :: bytes
  lh_remember :: bool
  lh_config_password :: bytes
  lh_port_forward :: "string \<times> int"
  lh_port_forward_multiplex :: bool
  lh_port_forward_mux :: bool
  lh_switch_uuid :: "string option"
  lh_switch_back_allowed :: bool
  lh_other_server :: "string option"
  lh_options :: "(string \<times> string) list"
  lh_remote_dir :: string
  lh_password_source :: password_source
  lh_shared_password :: "bytes option"

definition lh_get_option :: "string \<Rightarrow> login_handler \<Rightarrow> string" where
  "lh_get_option k h = (case hm_get (lh_options h) k of Some v \<Rightarrow> v | None \<Rightarrow> [])"

text \<open>What the login takes from the rest of the program: the hash function, the own id and server, the
  address book, the built-in password.\<close>

record ab_book =
  ab_token :: string
  ab_entries :: "(bool \<times> (string \<times> bytes) list) list"

record ctl_env =
  le_crypto :: crypto
  le_my_id :: string
  le_server :: string
  le_hwid :: bytes
  le_incoming_only :: bool
  le_uuid_ok :: "string \<Rightarrow> bool"
  le_consumed :: bool
  le_access_token :: string
  le_ab :: ab_book
  le_default_password :: bytes

section \<open>The request: \<open>create_login_msg\<close>\<close>

datatype ask_union =
    NoUnion
  | AskFileTransfer string bool
  | AskViewCamera
  | AskPortForward string int bool
  | AskTerminal string

record login_req =
  lq_username :: string
  lq_my_id :: string
  lq_password :: bytes
  lq_os_login :: "(string \<times> string) option"
  lq_hwid :: bytes
  lq_union :: ask_union

definition get_key_terminal_service_id :: "login_handler \<Rightarrow> string" where
  "get_key_terminal_service_id h =
     (if lh_is_terminal_admin h then ''terminal-admin-service-id'' else ''terminal-service-id'')"

definition create_login_msg :: "ctl_env \<Rightarrow> string \<Rightarrow> string \<Rightarrow> bytes \<Rightarrow> login_handler \<Rightarrow> login_req" where
  "create_login_msg e os_username os_password password h =
     \<lparr>lq_username = (case lh_other_server h of Some i \<Rightarrow> i | None \<Rightarrow> lh_id h),
      lq_my_id = (case lh_other_server h of Some _ \<Rightarrow> le_my_id e @ ''@'' @ le_server e | None \<Rightarrow> le_my_id e),
      lq_password = password,
      lq_os_login = (if lh_conn_type h = TerminalConn then Some (os_username, os_password) else None),
      lq_hwid = (if lh_get_option ''trust-this-device'' h = ''Y'' then le_hwid e else []),
      lq_union =
        (case lh_conn_type h of
           FileTransferConn \<Rightarrow> AskFileTransfer (lh_remote_dir h) (lh_get_option ''remote_show_hidden'' h \<noteq> [])
         | ViewCameraConn \<Rightarrow> AskViewCamera
         | PortForwardConn \<Rightarrow> AskPortForward (fst (lh_port_forward h)) (snd (lh_port_forward h)) (lh_port_forward_multiplex h)
         | RdpConn \<Rightarrow> AskPortForward (fst (lh_port_forward h)) (snd (lh_port_forward h)) (lh_port_forward_multiplex h)
         | TerminalConn \<Rightarrow> AskTerminal (lh_get_option (get_key_terminal_service_id h) h)
         | DefaultConn \<Rightarrow> NoUnion)\<rparr>"

section \<open>Answers to the peer\<close>

datatype login_effect =
    SendLogin login_req
  | SendSwitchResponse string login_req
  | SendCloseReason
  | SendDelay int
  | SendMessage bytes
  | MsgBox string

definition salted :: "ctl_env \<Rightarrow> bytes \<Rightarrow> login_hash \<Rightarrow> bytes" where
  "salted e p h = cr_sha256 (le_crypto e) (p @ lg_salt h)"

definition answer_challenge :: "ctl_env \<Rightarrow> bytes \<Rightarrow> login_hash \<Rightarrow> bytes" where
  "answer_challenge e p h = cr_sha256 (le_crypto e) (p @ lg_challenge h)"

definition try_get_password_from_personal_ab :: "ctl_env \<Rightarrow> login_handler \<Rightarrow> bytes option" where
  "try_get_password_from_personal_ab e h =
     (if le_access_token e \<noteq> [] \<and> le_access_token e = ab_token (le_ab e) then
        (case find fst (ab_entries (le_ab e)) of
           None \<Rightarrow> None
         | Some (_, peers) \<Rightarrow>
             (case find (\<lambda>p. fst p = lh_id h) peers of
                None \<Rightarrow> None
              | Some (_, hash) \<Rightarrow>
                  (case cr_decode (le_crypto e) hash of
                     Some p \<Rightarrow> if p \<noteq> [] then Some p else None
                   | None \<Rightarrow> None)))
      else None)"

text \<open>The password to answer with, in the order of the code; every source is asked only while there is none
  yet, but the shared one, which replaces what there is.\<close>

definition choose_preset :: "ctl_env \<Rightarrow> bytes \<Rightarrow> login_hash \<Rightarrow> bytes \<times> login_handler \<Rightarrow> bytes \<times> login_handler" where
  "choose_preset e preset hash x =
     (if fst x = [] \<and> preset \<noteq> [] then (salted e preset hash, (snd x)\<lparr>lh_password_source := UndefinedSource\<rparr>) else x)"

definition choose_shared :: "ctl_env \<Rightarrow> login_hash \<Rightarrow> bytes \<times> login_handler \<Rightarrow> bytes \<times> login_handler" where
  "choose_shared e hash x =
     (let h = (snd x)\<lparr>lh_shared_password := None\<rparr>
      in case lh_shared_password (snd x) of
           Some p \<Rightarrow> if p \<noteq> [] then (salted e p hash, h\<lparr>lh_password_source := SharedAb p\<rparr>) else (fst x, h)
         | None \<Rightarrow> (fst x, h))"

definition choose_config :: "bytes \<times> login_handler \<Rightarrow> bytes \<times> login_handler" where
  "choose_config x =
     (if fst x = [] then
        (let p = lh_config_password (snd x)
         in (p, if p \<noteq> [] then (snd x)\<lparr>lh_password_source := UndefinedSource\<rparr> else snd x))
      else x)"

definition choose_personal :: "ctl_env \<Rightarrow> bytes \<times> login_handler \<Rightarrow> bytes \<times> login_handler" where
  "choose_personal e x =
     (if fst x = [] then
        (case try_get_password_from_personal_ab e (snd x) of
           Some p \<Rightarrow> (p, (snd x)\<lparr>lh_password_source := PersonalAb p\<rparr>)
         | None \<Rightarrow> x)
      else x)"

definition choose_default :: "ctl_env \<Rightarrow> login_hash \<Rightarrow> bytes \<times> login_handler \<Rightarrow> bytes \<times> login_handler" where
  "choose_default e hash x =
     (if fst x = [] \<and> le_default_password e \<noteq> []
      then (salted e (le_default_password e) hash, (snd x)\<lparr>lh_password_source := SharedAb (le_default_password e)\<rparr>)
      else x)"

definition choose_password :: "ctl_env \<Rightarrow> bytes \<Rightarrow> login_hash \<Rightarrow> login_handler \<Rightarrow> bytes \<times> login_handler" where
  "choose_password e preset hash h =
     choose_default e hash (choose_personal e (choose_config (choose_shared e hash (choose_preset e preset hash (lh_password h, h)))))"

definition password_login :: "ctl_env \<Rightarrow> bytes \<Rightarrow> login_hash \<Rightarrow> login_handler \<Rightarrow> login_effect list \<times> login_handler" where
  "password_login e preset hash h0 =
     (let (password, h1) = choose_password e preset hash h0; h2 = h1\<lparr>lh_password := password\<rparr>
      in if lh_conn_type h2 = TerminalConn \<and> lh_is_terminal_admin h2
         then ([MsgBox (if password = [] then ''terminal-admin-login-password'' else ''terminal-admin-login'')],
               h2\<lparr>lh_hash := hash\<rparr>)
         else
           (let prompt = (if password = [] then [MsgBox ''input-password''] else []);
                answer = (if password = [] then [] else answer_challenge e password hash)
            in (prompt @ [SendLogin (create_login_msg e [] [] answer h2)], h2\<lparr>lh_hash := hash\<rparr>)))"

definition handle_hash :: "ctl_env \<Rightarrow> bytes \<Rightarrow> login_hash \<Rightarrow> login_handler \<Rightarrow> bool \<times> login_effect list \<times> login_handler" where
  "handle_hash e preset hash h0 =
     (let h = h0\<lparr>lh_hash := hash, lh_switch_uuid := None\<rparr>
      in case lh_switch_uuid h0 of
           Some u \<Rightarrow>
             if le_uuid_ok e u \<and> le_consumed e
             then (True, [SendSwitchResponse u (create_login_msg e [] [] [] (h\<lparr>lh_switch_back_allowed := True\<rparr>))],
                   h\<lparr>lh_switch_back_allowed := True, lh_password_source := UndefinedSource\<rparr>)
             else if le_incoming_only e then (False, [MsgBox ''error'', SendCloseReason], h)
             else (let (fx, h1) = password_login e preset hash h in (True, fx, h1))
         | None \<Rightarrow>
             if le_incoming_only e then (False, [MsgBox ''error'', SendCloseReason], h)
             else (let (fx, h1) = password_login e preset hash h in (True, fx, h1)))"

record ui_login =
  ui_os_username :: string
  ui_os_password :: string
  ui_password :: bytes
  ui_remember :: bool

definition handle_login_from_ui :: "ctl_env \<Rightarrow> ui_login \<Rightarrow> login_handler \<Rightarrow> login_effect list \<times> login_handler" where
  "handle_login_from_ui e u h =
     (let (hp, h1) =
        (if ui_password u = [] then
           (if lh_password h = []
            then (lh_config_password h,
                  if lh_config_password h \<noteq> [] then h\<lparr>lh_password_source := UndefinedSource\<rparr> else h)
            else (lh_password h, h))
         else (salted e (ui_password u) (lh_hash h), h\<lparr>lh_password_source := UndefinedSource, lh_remember := ui_remember u\<rparr>));
          h2 = h1\<lparr>lh_password := hp\<rparr>
      in ([SendLogin (create_login_msg e (ui_os_username u) (ui_os_password u) (answer_challenge e hp (lh_hash h2)) h2)], h2))"

section \<open>Refusals\<close>

definition LOGIN_MSG_PASSWORD_EMPTY :: string where "LOGIN_MSG_PASSWORD_EMPTY = ''Empty Password''"
definition LOGIN_MSG_PASSWORD_WRONG :: string where "LOGIN_MSG_PASSWORD_WRONG = ''Wrong Password''"
definition LOGIN_MSG_2FA_WRONG :: string where "LOGIN_MSG_2FA_WRONG = ''Wrong 2FA Code''"
definition REQUIRE_2FA :: string where "REQUIRE_2FA = ''2FA Required''"
definition LOGIN_MSG_NO_PASSWORD_ACCESS :: string where "LOGIN_MSG_NO_PASSWORD_ACCESS = ''No Password Access''"
definition LOGIN_SCREEN_WAYLAND :: string where "LOGIN_SCREEN_WAYLAND = ''Wayland login screen is not supported''"

definition handle_login_error :: "string \<Rightarrow> login_handler \<Rightarrow> bool \<times> login_effect list \<times> login_handler" where
  "handle_login_error err h =
     (if err = LOGIN_MSG_PASSWORD_EMPTY then (True, [MsgBox ''input-password''], h\<lparr>lh_password := []\<rparr>)
      else if err = LOGIN_MSG_PASSWORD_WRONG then (True, [MsgBox ''re-input-password''], h\<lparr>lh_password := []\<rparr>)
      else if err = LOGIN_MSG_2FA_WRONG \<or> err = REQUIRE_2FA then
        (True, [MsgBox ''input-2fa''],
         if lh_get_option ''trust-this-device'' h = ''Y''
         then h\<lparr>lh_options := hm_insert ''trust-this-device'' [] (lh_options h)\<rparr> else h)
      else if err = LOGIN_SCREEN_WAYLAND then (True, [MsgBox ''error''], h)
      else if err = LOGIN_MSG_NO_PASSWORD_ACCESS then (True, [MsgBox ''wait-remote-accept-nook''], h)
      else (False, [MsgBox ''error''], h))"

definition handle_test_delay :: "bool \<Rightarrow> int \<Rightarrow> login_effect list" where
  "handle_test_delay from_client t = (if from_client then [] else [SendDelay t])"

section \<open>A mapping's login: \<open>port_forward.rs\<close>\<close>

record mapping_login =
  ml_target :: "string \<times> int"
  ml_mux :: bool
  ml_password :: bytes
  ml_challenge :: "login_hash option"
  ml_pending :: "ui_login option"
  ml_buffer :: bytes
  ml_local_eof :: bool
  ml_effects :: "login_effect list"

definition mapping_start :: "string \<times> int \<Rightarrow> bool \<Rightarrow> bytes \<Rightarrow> mapping_login" where
  "mapping_start target mux password =
     \<lparr>ml_target = target, ml_mux = mux, ml_password = password, ml_challenge = None, ml_pending = None,
      ml_buffer = [], ml_local_eof = False, ml_effects = []\<rparr>"

definition fill_turn :: "mapping_login \<Rightarrow> login_handler \<Rightarrow> login_handler" where
  "fill_turn m h = h\<lparr>lh_port_forward := ml_target m, lh_port_forward_multiplex := ml_mux m\<rparr>"

definition login_with_hash :: "ctl_env \<Rightarrow> login_hash \<Rightarrow> mapping_login \<Rightarrow> login_handler \<Rightarrow> bool \<times> login_effect list \<times> login_handler" where
  "login_with_hash e hash m h = handle_hash e (ml_password m) hash (fill_turn m h)"

definition login_from_ui :: "ctl_env \<Rightarrow> login_hash \<Rightarrow> ui_login \<Rightarrow> mapping_login \<Rightarrow> login_handler \<Rightarrow> login_effect list \<times> login_handler" where
  "login_from_ui e hash u m h = handle_login_from_ui e u ((fill_turn m h)\<lparr>lh_hash := hash\<rparr>)"

definition hash_arrived :: "ctl_env \<Rightarrow> login_hash \<Rightarrow> mapping_login \<Rightarrow> login_handler \<Rightarrow> bool \<times> login_effect list \<times> login_handler" where
  "hash_arrived e hash m h =
     (case ml_pending m of
        Some u \<Rightarrow> (let (fx, h1) = login_from_ui e hash u m h in (True, fx, h1))
      | None \<Rightarrow> login_with_hash e hash m h)"

datatype mapping_event =
    MeTimeout
  | MeHash login_hash
  | MeLoginError string
  | MePeerInfo bool
  | MeTestDelay bool int
  | MeOtherMessage
  | MeBadMessage string
  | MeStreamErr string
  | MeStreamEnd
  | MeUiLogin ui_login
  | MeUiMessage bytes
  | MeUiOther
  | MeLocal bytes
  | MeLocalEnd

datatype mapping_end = Going | LoggedIn bool | GaveUp | Failed string

text \<open>The arms both loops share: the stream and the user interface.\<close>

definition mapping_step ::
  "ctl_env \<Rightarrow> mapping_event \<Rightarrow> mapping_login \<Rightarrow> login_handler \<Rightarrow> mapping_end \<times> mapping_login \<times> login_handler" where
  "mapping_step e ev m h =
     (case ev of
        MeTimeout \<Rightarrow> (Failed ''Timeout'', m, h)
      | MeHash hash \<Rightarrow>
          (let (go, fx, h1) = hash_arrived e hash m h
           in (if go then Going else GaveUp,
               m\<lparr>ml_challenge := Some hash, ml_pending := None, ml_effects := ml_effects m @ fx\<rparr>, h1))
      | MeLoginError err \<Rightarrow>
          (let (go, fx, h1) = handle_login_error err h
           in (if go then Going else GaveUp, m\<lparr>ml_effects := ml_effects m @ fx\<rparr>, h1))
      | MePeerInfo mux \<Rightarrow> (LoggedIn mux, m, h)
      | MeTestDelay from_client t \<Rightarrow> (Going, m\<lparr>ml_effects := ml_effects m @ handle_test_delay from_client t\<rparr>, h)
      | MeBadMessage err \<Rightarrow> (Failed err, m, h)
      | MeStreamErr err \<Rightarrow> (Failed (''Connection closed: '' @ err), m, h)
      | MeStreamEnd \<Rightarrow> (Failed ''Reset by the peer'', m, h)
      | MeUiLogin u \<Rightarrow>
          (case ml_challenge m of
             Some hash \<Rightarrow>
               (let (fx, h1) = login_from_ui e hash u m h in (Going, m\<lparr>ml_effects := ml_effects m @ fx\<rparr>, h1))
           | None \<Rightarrow> (Going, m\<lparr>ml_pending := Some u\<rparr>, h))
      | MeUiMessage msg \<Rightarrow> (Going, m\<lparr>ml_effects := ml_effects m @ [SendMessage msg]\<rparr>, h)
      | _ \<Rightarrow> (Going, m, h))"

text \<open>\<open>connect_and_login\<close>: what is read from the local connection waits; its end is the end of the login.\<close>

definition plain_login_step ::
  "ctl_env \<Rightarrow> mapping_event \<Rightarrow> mapping_login \<Rightarrow> login_handler \<Rightarrow> mapping_end \<times> mapping_login \<times> login_handler" where
  "plain_login_step e ev m h =
     (case ev of
        MeLocal bs \<Rightarrow> (Going, m\<lparr>ml_buffer := ml_buffer m @ bs\<rparr>, h)
      | MeLocalEnd \<Rightarrow> (GaveUp, m, h)
      | _ \<Rightarrow> mapping_step e ev m h)"

text \<open>\<open>connect_and_login_mux\<close>: the local connection is read only up to a window; the guard makes the other reads
  no events.\<close>

definition mux_may_read :: "mapping_login \<Rightarrow> bool" where
  "mux_may_read m = (\<not> ml_local_eof m \<and> length (ml_buffer m) < CHANNEL_WINDOW)"

definition mux_login_step ::
  "ctl_env \<Rightarrow> mapping_event \<Rightarrow> mapping_login \<Rightarrow> login_handler \<Rightarrow> mapping_end \<times> mapping_login \<times> login_handler" where
  "mux_login_step e ev m h =
     (case ev of
        MeLocal bs \<Rightarrow> (Going, if mux_may_read m then m\<lparr>ml_buffer := ml_buffer m @ bs\<rparr> else m, h)
      | MeLocalEnd \<Rightarrow> (Going, if mux_may_read m then m\<lparr>ml_local_eof := True\<rparr> else m, h)
      | _ \<Rightarrow> mapping_step e ev m h)"

section \<open>The listener: \<open>establish_tunnel\<close> and the raw pipe\<close>

definition peer_supports_mux :: "bool option \<Rightarrow> bool" where
  "peer_supports_mux features = (case features of Some b \<Rightarrow> b | None \<Rightarrow> False)"

definition take_socket :: "bytes \<Rightarrow> bytes \<Rightarrow> bytes" where
  "take_socket read_buf prebuf = prebuf @ read_buf"

datatype tunnel_mode = TunnelMuxed | TunnelLegacy | TunnelFailed

datatype first_use = OpenChannel "string \<times> int" bytes | RawPipe bytes | NoUse

text \<open>What the first login of a multiplexed mapping comes to: the tunnel's mode, what becomes of the local
  connection, and whether the listener stops; \<open>refused\<close> says that the user refused an unencrypted connection.\<close>

definition establish_tunnel :: "bytes \<Rightarrow> bool \<Rightarrow> mapping_end \<Rightarrow> mapping_login \<Rightarrow> tunnel_mode \<times> first_use \<times> bool" where
  "establish_tunnel read_buf refused r m =
     (case r of
        LoggedIn True \<Rightarrow>
          (TunnelMuxed, if ml_local_eof m then NoUse else OpenChannel (ml_target m) (take_socket read_buf (ml_buffer m)), False)
      | LoggedIn False \<Rightarrow> (TunnelLegacy, if ml_local_eof m then NoUse else RawPipe (ml_buffer m), False)
      | _ \<Rightarrow> (TunnelFailed, NoUse, refused))"

text \<open>The raw pipe, \<open>run_legacy\<close> and the end of \<open>connect_and_login\<close>: the stream becomes raw and what was read is
  sent first, if there is any.\<close>

definition start_raw_pipe :: "string option \<Rightarrow> bytes \<Rightarrow> framed_stream \<Rightarrow> framed_stream" where
  "start_raw_pipe err prebuf st =
     (let st1 = tcp_set_raw st in if prebuf \<noteq> [] then snd (tcp_send_bytes err prebuf st1) else st1)"

section \<open>Requests carry what their mapping asks for\<close>

definition port_forward_handler :: "login_handler \<Rightarrow> bool" where
  "port_forward_handler h = (lh_conn_type h = PortForwardConn \<or> lh_conn_type h = RdpConn)"

fun login_requests :: "login_effect list \<Rightarrow> login_req list" where
  "login_requests [] = []"
| "login_requests (SendLogin r # fx) = r # login_requests fx"
| "login_requests (SendSwitchResponse u r # fx) = r # login_requests fx"
| "login_requests (_ # fx) = login_requests fx"

lemma login_requests_append [simp]: "login_requests (a @ b) = login_requests a @ login_requests b"
  by (induction a rule: login_requests.induct) auto

lemma login_requests_delay [simp]: "login_requests (handle_test_delay from_client t) = []"
  by (simp add: handle_test_delay_def)

text \<open>A request for a target that answers a challenge, or that has no password.\<close>

definition request_for :: "ctl_env \<Rightarrow> string \<times> int \<Rightarrow> bool \<Rightarrow> login_hash \<Rightarrow> login_req \<Rightarrow> bool" where
  "request_for e target mux hash r =
     (lq_union r = AskPortForward (fst target) (snd target) mux \<and>
      (lq_password r = [] \<or> (\<exists>p. lq_password r = answer_challenge e p hash)))"

lemma choose_keeps:
  "lh_conn_type (snd (choose_password e preset hash h)) = lh_conn_type h \<and>
   lh_port_forward (snd (choose_password e preset hash h)) = lh_port_forward h \<and>
   lh_port_forward_multiplex (snd (choose_password e preset hash h)) = lh_port_forward_multiplex h"
proof -
  have 1: "lh_conn_type (snd (choose_preset e preset hash x)) = lh_conn_type (snd x) \<and>
      lh_port_forward (snd (choose_preset e preset hash x)) = lh_port_forward (snd x) \<and>
      lh_port_forward_multiplex (snd (choose_preset e preset hash x)) = lh_port_forward_multiplex (snd x)" for x
    by (simp add: choose_preset_def)
  have 2: "lh_conn_type (snd (choose_shared e hash x)) = lh_conn_type (snd x) \<and>
      lh_port_forward (snd (choose_shared e hash x)) = lh_port_forward (snd x) \<and>
      lh_port_forward_multiplex (snd (choose_shared e hash x)) = lh_port_forward_multiplex (snd x)" for x
    by (simp add: choose_shared_def Let_def split: option.split)
  have 3: "lh_conn_type (snd (choose_config x)) = lh_conn_type (snd x) \<and>
      lh_port_forward (snd (choose_config x)) = lh_port_forward (snd x) \<and>
      lh_port_forward_multiplex (snd (choose_config x)) = lh_port_forward_multiplex (snd x)" for x
    by (simp add: choose_config_def Let_def)
  have 4: "lh_conn_type (snd (choose_personal e x)) = lh_conn_type (snd x) \<and>
      lh_port_forward (snd (choose_personal e x)) = lh_port_forward (snd x) \<and>
      lh_port_forward_multiplex (snd (choose_personal e x)) = lh_port_forward_multiplex (snd x)" for x
    by (simp add: choose_personal_def split: option.split)
  have 5: "lh_conn_type (snd (choose_default e hash x)) = lh_conn_type (snd x) \<and>
      lh_port_forward (snd (choose_default e hash x)) = lh_port_forward (snd x) \<and>
      lh_port_forward_multiplex (snd (choose_default e hash x)) = lh_port_forward_multiplex (snd x)" for x
    by (simp add: choose_default_def)
  show ?thesis by (simp add: choose_password_def 1 2 3 4 5)
qed

lemma create_request:
  assumes "port_forward_handler h"
  shows "lq_union (create_login_msg e u p pw h) = AskPortForward (fst (lh_port_forward h)) (snd (lh_port_forward h)) (lh_port_forward_multiplex h) \<and>
    lq_password (create_login_msg e u p pw h) = pw"
  using assms by (auto simp: create_login_msg_def port_forward_handler_def)

lemma password_login_request:
  assumes "password_login e preset hash h = (fx, h')" "port_forward_handler h" "r \<in> set (login_requests fx)"
  shows "request_for e (lh_port_forward h) (lh_port_forward_multiplex h) hash r"
proof -
  obtain pw h1 where c: "choose_password e preset hash h = (pw, h1)" by (metis surj_pair)
  with choose_keeps [of e preset hash h] have k: "lh_conn_type h1 = lh_conn_type h" "lh_port_forward h1 = lh_port_forward h"
    "lh_port_forward_multiplex h1 = lh_port_forward_multiplex h" by simp_all
  then have p: "port_forward_handler (h1\<lparr>lh_password := pw\<rparr>)" "lh_conn_type h1 \<noteq> TerminalConn"
    using assms(2) by (auto simp: port_forward_handler_def)
  have "r = create_login_msg e [] [] (if pw = [] then [] else answer_challenge e pw hash) (h1\<lparr>lh_password := pw\<rparr>)"
    using assms(1,3) p(2) c by (auto simp: password_login_def Let_def split: if_splits)
  with create_request [OF p(1)] k show ?thesis by (auto simp: request_for_def)
qed

lemma handle_hash_request:
  assumes "handle_hash e preset hash h = (go, fx, h')" "port_forward_handler h" "r \<in> set (login_requests fx)"
  shows "request_for e (lh_port_forward h) (lh_port_forward_multiplex h) hash r"
proof -
  define h0 where "h0 = h\<lparr>lh_hash := hash, lh_switch_uuid := None\<rparr>"
  have p: "port_forward_handler h0" "lh_port_forward h0 = lh_port_forward h" "lh_port_forward_multiplex h0 = lh_port_forward_multiplex h"
    using assms(2) by (auto simp: h0_def port_forward_handler_def)
  have ps: "port_forward_handler (h0\<lparr>lh_switch_back_allowed := True\<rparr>)" using p(1) by (simp add: port_forward_handler_def)
  obtain fx1 h1 where l: "password_login e preset hash h0 = (fx1, h1)" by (metis surj_pair)
  have "fx = fx1 \<or> login_requests fx = [] \<or>
      (\<exists>u. fx = [SendSwitchResponse u (create_login_msg e [] [] [] (h0\<lparr>lh_switch_back_allowed := True\<rparr>))])"
    using assms(1) l unfolding handle_hash_def Let_def h0_def [symmetric] by (auto split: option.splits if_splits)
  then consider "fx = fx1" | u where "fx = [SendSwitchResponse u (create_login_msg e [] [] [] (h0\<lparr>lh_switch_back_allowed := True\<rparr>))]"
    using assms(3) by fastforce
  then show ?thesis
  proof cases
    case 1
    with password_login_request [OF l p(1)] p assms(3) show ?thesis by simp
  next
    case 2
    with create_request [OF ps, of e "[]" "[]" "[]"] p assms(3) show ?thesis by (simp add: request_for_def)
  qed
qed

lemma login_from_ui_request:
  assumes "login_from_ui e hash u m h = (fx, h')" "port_forward_handler h" "r \<in> set (login_requests fx)"
  shows "request_for e (ml_target m) (ml_mux m) hash r \<and>
    (ui_password u \<noteq> [] \<longrightarrow> lq_password r = client_response (le_crypto e) (ui_password u) (lg_salt hash) (lg_challenge hash))"
proof -
  define h0 where "h0 = (fill_turn m h)\<lparr>lh_hash := hash\<rparr>"
  have h0: "port_forward_handler h0" "lh_port_forward h0 = ml_target m" "lh_port_forward_multiplex h0 = ml_mux m" "lh_hash h0 = hash"
    using assms(2) by (auto simp: h0_def fill_turn_def port_forward_handler_def)
  obtain hp h2 where r: "r = create_login_msg e (ui_os_username u) (ui_os_password u) (answer_challenge e hp hash) h2"
    and h2: "lh_conn_type h2 = lh_conn_type h0" "lh_port_forward h2 = lh_port_forward h0"
      "lh_port_forward_multiplex h2 = lh_port_forward_multiplex h0" and hp: "ui_password u \<noteq> [] \<longrightarrow> hp = salted e (ui_password u) hash"
    using assms(1,3) h0(4) unfolding login_from_ui_def h0_def [symmetric]
    by (auto simp: handle_login_from_ui_def Let_def split: if_splits)
  have "port_forward_handler h2" using h0(1) h2(1) by (simp add: port_forward_handler_def)
  from create_request [OF this, of e "ui_os_username u" "ui_os_password u" "answer_challenge e hp hash"] r h2 h0 hp show ?thesis
    by (auto simp: request_for_def salted_def answer_challenge_def client_response_def)
qed

text \<open>A mapping's run: every step finds the window's handler as the other mappings left it.\<close>

fun mapping_run ::
  "(mapping_event \<Rightarrow> mapping_login \<Rightarrow> login_handler \<Rightarrow> mapping_end \<times> mapping_login \<times> login_handler) \<Rightarrow>
   (mapping_event \<times> login_handler) list \<Rightarrow> mapping_login \<Rightarrow> mapping_end \<times> mapping_login" where
  "mapping_run step [] m = (Going, m)"
| "mapping_run step ((ev, h) # evs) m =
     (case step ev m h of (Going, m1, _) \<Rightarrow> mapping_run step evs m1 | (r, m1, _) \<Rightarrow> (r, m1))"

definition hashes_in :: "(mapping_event \<times> login_handler) list \<Rightarrow> login_hash list" where
  "hashes_in evs = concat (map (\<lambda>(ev, _). case ev of MeHash x \<Rightarrow> [x] | _ \<Rightarrow> []) evs)"

definition own_requests :: "ctl_env \<Rightarrow> mapping_login \<Rightarrow> login_hash set \<Rightarrow> bool" where
  "own_requests e m hs =
     ((\<forall>r \<in> set (login_requests (ml_effects m)). \<exists>hash \<in> hs. request_for e (ml_target m) (ml_mux m) hash r) \<and>
      (\<forall>hash. ml_challenge m = Some hash \<longrightarrow> hash \<in> hs))"

lemma own_requests_mono: "own_requests e m hs \<Longrightarrow> hs \<subseteq> hs' \<Longrightarrow> own_requests e m hs'"
  unfolding own_requests_def by blast

lemma mapping_step_own:
  assumes "mapping_step e ev m h = (r, m', h')" "own_requests e m hs" "port_forward_handler h"
  shows "own_requests e m' (hs \<union> set (hashes_in [(ev, h)])) \<and> ml_target m' = ml_target m \<and> ml_mux m' = ml_mux m"
proof (cases ev)
  case (MeHash hash)
  obtain go fx h1 where a: "hash_arrived e hash m h = (go, fx, h1)" by (metis prod_cases3)
  have f: "port_forward_handler (fill_turn m h)" "lh_port_forward (fill_turn m h) = ml_target m" "lh_port_forward_multiplex (fill_turn m h) = ml_mux m"
    using assms(3) by (auto simp: fill_turn_def port_forward_handler_def)
  have "request_for e (ml_target m) (ml_mux m) hash q" if "q \<in> set (login_requests fx)" for q
  proof (cases "ml_pending m")
    case None
    with a have "handle_hash e (ml_password m) hash (fill_turn m h) = (go, fx, h1)" by (simp add: hash_arrived_def login_with_hash_def)
    from handle_hash_request [OF this f(1) that] f show ?thesis by simp
  next
    case (Some u)
    with a obtain h2 where "login_from_ui e hash u m h = (fx, h2)" by (auto simp: hash_arrived_def split: prod.splits)
    from login_from_ui_request [OF this assms(3) that] show ?thesis by blast
  qed
  with assms(2) have "\<forall>q \<in> set (login_requests (ml_effects m @ fx)). \<exists>x \<in> hs \<union> {hash}. request_for e (ml_target m) (ml_mux m) x q"
    unfolding own_requests_def by (auto simp: ball_Un)
  moreover have "m' = m\<lparr>ml_challenge := Some hash, ml_pending := None, ml_effects := ml_effects m @ fx\<rparr>"
    using assms(1) MeHash a by (simp add: mapping_step_def)
  ultimately show ?thesis by (simp add: MeHash own_requests_def hashes_in_def)
next
  case (MeLoginError err)
  obtain go fx h1 where a: "handle_login_error err h = (go, fx, h1)" by (metis prod_cases3)
  have "login_requests fx = []" using a by (auto simp: handle_login_error_def split: if_splits)
  with assms(1,2) MeLoginError a show ?thesis by (auto simp: mapping_step_def own_requests_def hashes_in_def)
next
  case (MeUiLogin u)
  show ?thesis
  proof (cases "ml_challenge m")
    case (Some hash)
    obtain fx h1 where a: "login_from_ui e hash u m h = (fx, h1)" by (metis surj_pair)
    have "hash \<in> hs" using assms(2) Some by (simp add: own_requests_def)
    with login_from_ui_request [OF a assms(3)]
    have "\<forall>q \<in> set (login_requests fx). \<exists>x \<in> hs. request_for e (ml_target m) (ml_mux m) x q" by blast
    with assms(1,2) MeUiLogin Some a show ?thesis
      by (auto simp: mapping_step_def own_requests_def hashes_in_def)
  qed (use assms(1,2) MeUiLogin in \<open>auto simp: mapping_step_def own_requests_def hashes_in_def\<close>)
qed (use assms(1,2) in \<open>auto simp: mapping_step_def own_requests_def hashes_in_def\<close>)

text \<open>The two loops are one for this: their own arms send nothing.\<close>

lemma login_step_own:
  assumes "step = plain_login_step e \<or> step = mux_login_step e"
    and "step ev m h = (r, m', h')" "own_requests e m hs" "port_forward_handler h"
  shows "own_requests e m' (hs \<union> set (hashes_in [(ev, h)])) \<and> ml_target m' = ml_target m \<and> ml_mux m' = ml_mux m"
proof (cases "(\<exists>bs. ev = MeLocal bs) \<or> ev = MeLocalEnd")
  case True
  with assms show ?thesis
    by (auto simp: plain_login_step_def mux_login_step_def own_requests_def hashes_in_def split: if_splits)
next
  case False
  with assms(1,2) have "mapping_step e ev m h = (r, m', h')"
    by (cases ev) (auto simp: plain_login_step_def mux_login_step_def)
  then show ?thesis using assms(3,4) by (rule mapping_step_own)
qed

lemma mapping_run_own:
  assumes "step = plain_login_step e \<or> step = mux_login_step e"
    and "\<forall>(ev, h) \<in> set evs. port_forward_handler h"
    and "mapping_run step evs m = (r, m')" "own_requests e m hs"
  shows "own_requests e m' (hs \<union> set (hashes_in evs)) \<and> ml_target m' = ml_target m \<and> ml_mux m' = ml_mux m"
  using assms(2-4)
proof (induction evs arbitrary: m hs)
  case Nil
  then show ?case by (simp add: hashes_in_def)
next
  case (Cons x evs)
  obtain ev h where x: "x = (ev, h)" by (cases x)
  obtain q m1 h1 where s: "step ev m h = (q, m1, h1)" by (metis prod_cases3)
  from login_step_own [OF assms(1) s Cons.prems(3)] Cons.prems(1) x
  have 1: "own_requests e m1 (hs \<union> set (hashes_in [(ev, h)]))" "ml_target m1 = ml_target m" "ml_mux m1 = ml_mux m" by auto
  have u: "set (hashes_in (x # evs)) = set (hashes_in [(ev, h)]) \<union> set (hashes_in evs)" by (simp add: x hashes_in_def)
  show ?case
  proof (cases "q = Going")
    case True
    with Cons.prems(2) x s have "mapping_run step evs m1 = (r, m')" by simp
    from Cons.IH [OF _ this 1(1)] Cons.prems(1) 1 u show ?thesis by (auto simp: Un_assoc)
  next
    case False
    with Cons.prems(2) x s have "m' = m1" by (cases q) auto
    moreover have "own_requests e m1 (hs \<union> set (hashes_in (x # evs)))" by (rule own_requests_mono [OF 1(1)]) (use u in auto)
    ultimately show ?thesis using 1(2,3) by simp
  qed
qed

text \<open>C28. Mappings of one window that log in at the same time do not mix up their requests.  Whatever happens
  on a mapping's connection, and in whatever state the other mappings leave the handler they share between its
  steps, every login request it sends asks for its own target with its own choice of multiplexing, and its
  password is empty or answers a challenge that came on its own connection.\<close>

theorem mapping_requests_own:
  assumes "step = plain_login_step e \<or> step = mux_login_step e"
    and "\<forall>(ev, h) \<in> set evs. port_forward_handler h"
    and "mapping_run step evs (mapping_start target mux preset) = (r, m)"
    and "q \<in> set (login_requests (ml_effects m))"
  shows "lq_union q = AskPortForward (fst target) (snd target) mux \<and>
    (lq_password q = [] \<or> (\<exists>hash \<in> set (hashes_in evs). \<exists>p. lq_password q = answer_challenge e p hash))"
proof -
  have "own_requests e (mapping_start target mux preset) {}" by (simp add: own_requests_def mapping_start_def)
  from mapping_run_own [OF assms(1-3) this] assms(4) show ?thesis
    by (auto simp: own_requests_def request_for_def mapping_start_def)
qed

text \<open>A typed password is what the controlled side verifies: the answer a mapping gives to the challenge of a
  connection validates there.\<close>

lemma typed_password_verifies:
  assumes "login_from_ui e \<lparr>lg_salt = ac_salt c, lg_challenge = ac_challenge c\<rparr> u m h = (fx, h')" "port_forward_handler h"
    and "ui_password u \<noteq> []" "r \<in> set (login_requests fx)" "ac_lr_password c = lq_password r"
  shows "validate_password_plain (le_crypto e) c (ui_password u)"
  using login_from_ui_request [OF assms(1,2,4)] assms(3,5) by (simp add: validate_plain_iff)

section \<open>What was read before the login\<close>

definition locals_read :: "(mapping_event \<times> login_handler) list \<Rightarrow> bytes list" where
  "locals_read evs = concat (map (\<lambda>(ev, _). case ev of MeLocal bs \<Rightarrow> [bs] | _ \<Rightarrow> []) evs)"

lemma mapping_step_buffer: "mapping_step e ev m h = (r, m', h') \<Longrightarrow> ml_buffer m' = ml_buffer m"
  by (auto simp: mapping_step_def Let_def split: mapping_event.splits option.splits prod.splits)

lemma mux_prebuffer_bounded:
  assumes "\<forall>bs \<in> set (locals_read evs). length bs \<le> n" "mapping_run (mux_login_step e) evs m = (r, m')"
    and "length (ml_buffer m) < CHANNEL_WINDOW + n"
  shows "length (ml_buffer m') < CHANNEL_WINDOW + n"
  using assms
proof (induction evs arbitrary: m)
  case (Cons x evs)
  obtain ev h where x: "x = (ev, h)" by (cases x)
  obtain q m1 h1 where s: "mux_login_step e ev m h = (q, m1, h1)" by (metis prod_cases3)
  have "length (ml_buffer m1) < CHANNEL_WINDOW + n"
  proof (cases ev)
    case (MeLocal bs)
    with s x Cons.prems show ?thesis by (auto simp: mux_login_step_def mux_may_read_def locals_read_def split: if_splits)
  qed (use s Cons.prems(3) mapping_step_buffer [of e ev m h q m1 h1] in \<open>auto simp: mux_login_step_def split: if_splits\<close>)
  moreover have "\<forall>bs \<in> set (locals_read evs). length bs \<le> n" using Cons.prems(1) by (simp add: locals_read_def)
  ultimately show ?case using Cons.IH Cons.prems(2) x s by (cases q) auto
qed simp

text \<open>The raw pipe is not encrypted, whatever the stream was.\<close>

lemma raw_drops_key: "\<not> tcp_is_secured (start_raw_pipe err prebuf st)"
  by (auto simp: start_raw_pipe_def tcp_set_raw_def tcp_send_bytes_def tcp_is_secured_def Let_def
      split: option.splits sum.splits)

section \<open>Examples\<close>

definition sample_login_env :: ctl_env where
  "sample_login_env =
     \<lparr>le_crypto = sample_crypto, le_my_id = ''7'', le_server = ''rs'', le_hwid = [], le_incoming_only = False,
      le_uuid_ok = (\<lambda>_. False), le_consumed = False, le_access_token = [], le_ab = \<lparr>ab_token = [], ab_entries = []\<rparr>,
      le_default_password = []\<rparr>"

definition sample_handler :: login_handler where
  "sample_handler =
     \<lparr>lh_id = ''42'', lh_conn_type = PortForwardConn, lh_is_terminal_admin = False,
      lh_hash = \<lparr>lg_salt = [], lg_challenge = []\<rparr>, lh_password = [], lh_remember = False, lh_config_password = [],
      lh_port_forward = (''other'', 1), lh_port_forward_multiplex = True, lh_port_forward_mux = True,
      lh_switch_uuid = None, lh_switch_back_allowed = False, lh_other_server = None, lh_options = [], lh_remote_dir = [],
      lh_password_source = UndefinedSource, lh_shared_password = None\<rparr>"

theorem mapping_requests_own_witness:
  "\<exists>r m q. mapping_run (plain_login_step sample_login_env) [(MeHash \<lparr>lg_salt = [1], lg_challenge = [2]\<rparr>, sample_handler)]
     (mapping_start (''host'', 80) False [9]) = (r, m) \<and> login_requests (ml_effects m) = [q] \<and>
     lq_union q = AskPortForward ''host'' 80 False"
proof -
  let ?evs = "[(MeHash \<lparr>lg_salt = [1], lg_challenge = [2]\<rparr>, sample_handler)]"
  obtain r m where run: "mapping_run (plain_login_step sample_login_env) ?evs (mapping_start (''host'', 80) False [9]) = (r, m)"
    by (metis surj_pair)
  have "length (login_requests (ml_effects (snd (mapping_run (plain_login_step sample_login_env) ?evs
      (mapping_start (''host'', 80) False [9]))))) = 1" by code_simp
  then obtain q where q: "login_requests (ml_effects m) = [q]" using run by (auto simp: length_Suc_conv)
  have "\<forall>(ev, h) \<in> set ?evs. port_forward_handler h" by (simp add: port_forward_handler_def sample_handler_def)
  from mapping_requests_own [OF _ this run, of sample_login_env q] q run show ?thesis by auto
qed

end
