(* ===== verification/Spec2Isabelle.thy ===== *)
theory Spec2Isabelle
  imports Prelude Bytes_Codec Mux_System Video_Qos Login_Failure Password_Auth Terminal_Service Fs_Transfer Common_Lib
    Remove_Log Plain_Forward Session_Run Key_Exchange Service_Fanout Audio_Playback
    Rendezvous_Register Rendezvous_Punch Controller_Login
begin

text \<open>
  \<^bold>\<open>A verification library for Fontis Remote.\<close>

  Fontis Remote is a remote desktop program in Rust.  A controller (\<open>src/client.rs\<close> and its io loop)
  connects to a controlled machine (\<open>src/server\<close>); between them runs one byte stream, framed by the
  bytes codec and encrypted.  On the controlled side a connection task
  (\<open>src/server/connection.rs\<close>) performs the login and then dispatches the decoded messages to services:
  video with its quality control, terminals, file transfer, port forwarding.  The theories model the
  parts of the program that carry its own logic; each theory opens with its conventions.

  \<^bold>\<open>Parts and theories.\<close>

  \<^item> \<open>Prelude\<close>: machine integers, the saturating and checked operations of the Rust standard library,
    byte order, hash maps as association lists, splitting of strings; simplifier collections
    \<open>rust_arith\<close> and \<open>hm_simps\<close>.
  \<^item> \<open>Bytes_Codec\<close> (\<open>libs/hbb_common/src/bytes_codec.rs\<close>): \<open>encode\<close>, \<open>decode\<close>, their heads and the
    decoder's state.  Round trip of any sequence of payloads; decoding does not depend on how the
    stream is cut into reads (locale \<open>resumable_decoder\<close>, interpreted on \<open>decode\<close>); limits on what a
    header may reserve.
  \<^item> \<open>Mux_Core\<close>, \<open>Mux_Channel\<close>, \<open>Mux_Demux\<close>, \<open>Mux_Tunnel\<close>, \<open>Mux_Server\<close>, \<open>Mux_System\<close>
    (\<open>src/port_forward_mux.rs\<close>, \<open>src/server/port_forward_mux.rs\<close>): the multiplexed port-forward tunnel.
    \<open>Mux_Core\<close> has the credit, the receive window, the frame queue and the two relay loops as
    operations on records, one per program point of the asynchronous code; \<open>Mux_Channel\<close> the step
    relations of one channel; \<open>Mux_Demux\<close> the contract of a table of channels (locale \<open>demux\<close>),
    interpreted on the controller's table in \<open>Mux_Tunnel\<close> and on the controlled table in
    \<open>Mux_Server\<close>; \<open>Mux_System\<close> composes one direction of a channel end to end.  Shown: credit is conserved
    between both ends, the byte stream arrives in order and unchanged, an idle channel can send,
    the receiver's memory is bounded against any peer, the tables refine a map from channel numbers
    to channels, a fresh channel number is found, only the target authorised at login is dialled.
  \<^item> \<open>F32\<close>, \<open>Video_Qos\<close> (\<open>src/server/video_qos.rs\<close>): rate and quality control on exactly rounded
    single-precision arithmetic.  Frame rate and ratio stay in their bounds, the slowest viewer rules,
    congestion lowers the ratio, single bad replies do nothing.
  \<^item> \<open>Login_Failure\<close> (\<open>src/server/login_failure_check.rs\<close>): the back-off of logins with credentials of
    the operating system; a login is blocked exactly while it runs.
  \<^item> \<open>Login_Policy\<close> (\<open>src/server/connection.rs\<close>): the places of unauthorised connections, the ID
    whitelist, the throttle.  The glob matcher's backtracking loop equals the meaning of the pattern;
    guesses per address, minute and IPv6 prefix are bounded.
  \<^item> \<open>Password_Storage\<close> (\<open>libs/hbb_common/src/password_security.rs\<close>,
    \<open>libs/hbb_common/src/config/permanent_password.rs\<close>, parts of \<open>config.rs\<close>): sealed values, the permanent
    password as salted hash, and the configuration operations that touch it, with the stored file.
    Round trips, no double sealing, the password survives a restart.
  \<^item> \<open>Password_Auth\<close> (\<open>src/server/connection.rs\<close>): the login request from the approval mode to the
    authorised state, two-factor codes, trusted devices, sessions, rotation of the temporary
    password.  Nobody is authorised without a proof; the right password is accepted.
  \<^item> \<open>Terminal_Buffer\<close>, \<open>Terminal_Service\<close> (\<open>src/server/terminal_service.rs\<close>): scroll-back, UTF-8 framing,
    the registry of persistent services, sessions, reader threads and the reconnection state machine.
    History is a suffix of the output, chunks are whole characters, a reconnecting client sees the
    replay and then the live output without loss or repetition, child processes are not forgotten
    (locale \<open>session_invariant\<close>, interpreted on every operation of a session).
  \<^item> \<open>Fs_Path\<close>, \<open>Fs_Transfer\<close> (\<open>libs/base/src/fs.rs\<close>): path validation and transfer jobs over an explicit
    file system.  Validated paths stay inside the base directory, so do all writes of a receiving job;
    a file arrives byte for byte; no file is sent before the peer has confirmed it.
  \<^item> \<open>Common_Lib\<close> (\<open>libs/hbb_common/src/lib.rs\<close>): address mangling and version numbers.
  \<^item> \<open>Session_Scope\<close>, \<open>Session_Dispatch\<close>, \<open>Session_Login\<close>, \<open>Session_Events\<close>, \<open>Session_Isolation\<close>, \<open>Session_Run\<close>
    (\<open>src/server/connection.rs\<close>, messages of \<open>libs/base/protos/message.proto\<close>): the connection task.
    \<open>Session_Scope\<close> has the messages, the permissions, the latch of the login scope and the message
    filters; \<open>Session_Dispatch\<close> the handlers of an authorised connection and \<open>update_options\<close>;
    \<open>Session_Login\<close> the login request on top of \<open>Password_Auth\<close> and \<open>Login_Policy\<close>, the services a
    session starts and \<open>on_message\<close> as a whole; \<open>Session_Events\<close> the opening, the events of the
    connection manager, the messages of the services, the timers, the end and the input thread.
    A handler returns its effects on the rest of the program as a list; terminals, tunnels and transfer
    jobs are the models above.  \<open>Session_Isolation\<close> says which effects a session of a type may have and
    proves it handler by handler; \<open>Session_Run\<close> composes the events to runs.  Shown for every
    run: the effects of a message stay in the scope the peer was authorised for and under the
    permissions in force, a session is of the type its login asked for and the options permit, login
    retries cannot change identity or scope, no input is injected without the permission.
  \<^item> \<open>Remove_Log\<close> (\<open>FileRemoveLogControl\<close>) and \<open>Plain_Forward\<close> (\<open>try_port_forward_loop\<close>): the log of removed
    files, and the relay of a port forward that is not multiplexed, which is transparent.

  \<^item> \<open>Webrtc_Frame\<close> (\<open>libs/hbb_common/src/webrtc.rs\<close>): messages on a data channel.  Messages are cut into
    fragments and put together again; what is received stays within its limit against any peer; a send
    leaves a whole message behind or closes the channel.
  \<^item> \<open>Secure_Channel\<close> (\<open>libs/hbb_common/src/tcp.rs\<close>, \<open>websocket.rs\<close>, \<open>stream.rs\<close>): keyed streams over TCP,
    WebSocket and WebRTC.  The cipher's interface is the locale \<open>ordered_channel\<close>, interpreted on \<open>enc\<close> and
    \<open>dec\<close>: what is accepted is a prefix of what was sent.  Split keys never use a nonce twice.
  \<^item> \<open>Key_Exchange\<close> (\<open>src/server.rs\<close>, \<open>src/client.rs\<close>, \<open>src/common.rs\<close>): the handshakes that key a stream.  Two
    honest ends agree; a keyed stream of the controller is one with the peer the rendezvous server
    vouches for; the controlled side takes only a key sealed to it; a required exchange with the rendezvous
    server ends keyed or refused.
  \<^item> \<open>Service_Fanout\<close> (\<open>src/server/service.rs\<close>, \<open>Server\<close> of \<open>src/server.rs\<close>): services, their subscribers and
    snapshots.  A subscriber gets the snapshot first and then every live message; tables stay well formed; who is
    subscribed to what after each operation of the server.
  \<^item> \<open>Audio_Queue\<close>, \<open>Audio_Playback\<close>, \<open>Log_Throttle\<close> (\<open>src/server/audio_service\<close>, \<open>src/client/audio_playback.rs\<close>,
    \<open>AudioBuffer\<close> of \<open>src/client.rs\<close>, \<open>libs/hbb_common/src/log_throttle.rs\<close>): sound on its way to the encoder and
    to the device.  Every captured packet is delivered in order, queued or counted as lost; dropped
    samples make the callback fade; a fade ends; throttled lines account for every occurrence.
  \<^item> \<open>Rendezvous_Register\<close> (\<open>src/rendezvous_mediator.rs\<close>, parts of \<open>config.rs\<close>): the loops that keep a machine
    registered at its servers over UDP and TCP, with a step relation over the loops of all servers.  A due
    registration is sent; a device that awaits its deployment asks at most every thirty seconds.
  \<^item> \<open>Rendezvous_Punch\<close> (\<open>src/rendezvous_mediator.rs\<close>): the replies to punch, relay and intranet requests.  The
    answer to a WebRTC offer leaves on a keyed connection or in the datagram of a UDP punch; the places of
    punches in flight are those of open listens; ICE candidates are queued in order and without repetition.
  \<^item> \<open>Controller_Login\<close> (\<open>src/client.rs\<close>, \<open>src/port_forward.rs\<close>): the controller's side of a login and the login
    loops of port-forward mappings.  A mapping's requests carry its own target and answer its own
    connection's challenge; a typed password is what the controlled side verifies; the bytes read before the
    login are bounded by a window.

  \<^bold>\<open>How the code is represented.\<close>  A struct is a \<open>record\<close>, an enum a \<open>datatype\<close>, an operation a function
  that returns the updated state; a \<open>Result\<close> is a sum, an \<open>Option\<close> an option.  State behind a mutex or a
  process-wide static is a record passed through; one critical section is one function.
  Asynchronous tasks are step relations whose steps are the code between two awaits.  What the
  operating system, the clock, the random generator or a library answers is an argument; what is
  relied on is a hypothesis of the theorem, and a witness instantiates it (compression and
  decompression as inverses, the laws \<open>crypto_ok\<close>, \<open>secretbox_ok\<close>, \<open>secretbox_binds\<close>, \<open>hash_ok\<close> and
  \<open>handshake_crypto_ok\<close> of the cryptographic library, \<open>wire_ok\<close> of the serialisation).  A transport is the list of
  what was written to it and of what will be read from it.

  \<^bold>\<open>Bounds and fuel.\<close>  Loops are total functions with termination proofs.  Reading a file is
  iterated with fuel \<open>length + 1\<close>, which the round trip shows to be enough: every block but the
  last carries at least one byte.  Polls of the resize sequence are counted; seven polls end it.
  Counters of type \<open>i32\<close> that are compared with small limits before they grow are integers.

  \<^bold>\<open>Not modelled.\<close>  Capture, encoding and rendering of video and sound, input injection, clipboard and
  platform layers call operating-system interfaces and foreign libraries; user interfaces and
  bindings forward events; the rendezvous protocol's other side is not in the repository; opening a
  connection, the retries of a punch, proxies and the negotiation of WebRTC sessions wrap socket libraries.
  Of the configuration only the permanent password, the key confirmations and the choice of the rendezvous
  server are modelled; of the controller's session only the key exchange and the login.  The connection task is that of the Linux build with flutter and without file copy and paste; of it
  the start of the connection manager process, send timeouts, audit posts and their JSON, the
  contents of \<open>PeerInfo\<close>, the wake lock, printer data and updates of the supported encodings
  are left out.  Options do not change during a run.  Builds for Windows and macOS are modelled only
  where a definition says so.
\<close>

end
